(* ===== verification/Prelude.thy ===== *)
theory Prelude
  imports
    Main
    "HOL-Library.AList"
    "HOL-Library.Multiset"
    "HOL-Library.Char_ord"
    "HOL-Library.List_Lexorder"
    "HOL-Library.Product_Lexorder"
begin

text \<open>
  What every component of the development shares.

  \<^item> \<open>gomap\<close>: a Go map as the list of its entries. The list order is one iteration order of
    \<open>for k, v := range m\<close>; Go leaves that order unspecified, so a statement that holds for
    every permutation of the entries holds for every run of the code. \<open>go_map\<close> is the interface
    the components rely on, interpreted on these lists.
  \<^item> strings are byte lists and are ordered byte-wise, as Go's \<open>cmp.Compare\<close> orders them;
    \<open>Cut\<close>, \<open>Compact\<close> and \<open>Join\<close> are the functions of Go's \<open>strings\<close> and \<open>slices\<close>
    packages that the sources call.
  \<^item> \<open>keyed_sort\<close>: what \<open>slices.SortFunc\<close> and \<open>slices.SortStableFunc\<close> promise, and the fact
    every determinism argument of the program rests on: when the keys are distinct the result does
    not depend on the order of the input.
\<close>

named_theorems gm_simps \<open>lookup, key and distinctness laws of Go maps\<close>
named_theorems sort_facts \<open>what a sorted slice keeps of its input\<close>

type_synonym ('k, 'v) gomap = "('k \<times> 'v) list"
type_synonym labels = "(string \<times> string) list"

section \<open>Go maps\<close>

definition gm_get :: "('k, 'v) gomap \<Rightarrow> 'k \<Rightarrow> 'v option" where
  "gm_get m k = map_of m k"

definition gm_has :: "('k, 'v) gomap \<Rightarrow> 'k \<Rightarrow> bool" where
  "gm_has m k = (map_of m k \<noteq> None)"

definition gm_put :: "'k \<Rightarrow> 'v \<Rightarrow> ('k, 'v) gomap \<Rightarrow> ('k, 'v) gomap" where
  "gm_put k v m = AList.update k v m"

definition gm_del :: "'k \<Rightarrow> ('k, 'v) gomap \<Rightarrow> ('k, 'v) gomap" where
  "gm_del k m = AList.delete k m"

text \<open>\<open>m[k]\<close> of a \<open>map[string]string\<close>: the empty string when the key is absent.\<close>

definition gm_str :: "('k, string) gomap \<Rightarrow> 'k \<Rightarrow> string" where
  "gm_str m k = (case map_of m k of None \<Rightarrow> [] | Some v \<Rightarrow> v)"

text \<open>\<open>m[k] = append(m[k], v)\<close> and \<open>m[k]++\<close>.\<close>

definition gm_list :: "('k, 'v list) gomap \<Rightarrow> 'k \<Rightarrow> 'v list" where
  "gm_list m k = (case map_of m k of None \<Rightarrow> [] | Some vs \<Rightarrow> vs)"

definition gm_append :: "'k \<Rightarrow> 'v \<Rightarrow> ('k, 'v list) gomap \<Rightarrow> ('k, 'v list) gomap" where
  "gm_append k v m = gm_put k (gm_list m k @ [v]) m"

definition gm_incr :: "'k \<Rightarrow> ('k, int) gomap \<Rightarrow> ('k, int) gomap" where
  "gm_incr k m = gm_put k ((case map_of m k of None \<Rightarrow> 0 | Some n \<Rightarrow> n) + 1) m"

definition gm_wf :: "('k, 'v) gomap \<Rightarrow> bool" where
  "gm_wf m = distinct (map fst m)"

lemma gm_get_put [gm_simps, simp]: "gm_get (gm_put k v m) = (gm_get m)(k \<mapsto> v)"
  by (simp add: gm_get_def gm_put_def fun_eq_iff update_conv')

lemma gm_get_del [gm_simps, simp]: "gm_get (gm_del k m) = (gm_get m)(k := None)"
  by (simp add: gm_get_def gm_del_def fun_eq_iff delete_conv')

lemma gm_get_Nil [gm_simps, simp]: "gm_get [] k = None"
  by (simp add: gm_get_def)

lemma gm_has_iff [gm_simps]: "gm_has m k \<longleftrightarrow> k \<in> fst ` set m"
  by (simp add: gm_has_def map_of_eq_None_iff)

lemma gm_has_get: "gm_has m k \<longleftrightarrow> gm_get m k \<noteq> None"
  by (simp add: gm_has_def gm_get_def)

lemma gm_keys_put [gm_simps, simp]: "fst ` set (gm_put k v m) = insert k (fst ` set m)"
  by (simp add: gm_put_def dom_update)

lemma gm_keys_del [gm_simps, simp]: "fst ` set (gm_del k m) = fst ` set m - {k}"
  by (auto simp: gm_del_def AList.delete_eq)

lemma gm_wf_Nil [gm_simps, simp]: "gm_wf []"
  by (simp add: gm_wf_def)

lemma gm_wf_put [gm_simps, simp]: "gm_wf m \<Longrightarrow> gm_wf (gm_put k v m)"
  by (simp add: gm_wf_def gm_put_def distinct_update)

lemma gm_wf_del [gm_simps, simp]: "gm_wf m \<Longrightarrow> gm_wf (gm_del k m)"
  by (simp add: gm_wf_def gm_del_def distinct_delete)

lemma gm_get_in: "gm_get m k = Some v \<Longrightarrow> (k, v) \<in> set m"
  by (simp add: gm_get_def map_of_SomeD)

lemma gm_in_get: "gm_wf m \<Longrightarrow> (k, v) \<in> set m \<Longrightarrow> gm_get m k = Some v"
  by (simp add: gm_wf_def gm_get_def)

lemma gm_in_get_iff: "gm_wf m \<Longrightarrow> (k, v) \<in> set m \<longleftrightarrow> gm_get m k = Some v"
  by (blast intro: gm_get_in gm_in_get)

lemma gm_put_new: "k \<notin> fst ` set m \<Longrightarrow> gm_put k v m = m @ [(k, v)]"
  unfolding gm_put_def by (induction m) auto

lemma gm_list_append [gm_simps]:
  "gm_list (gm_append k v m) j = (if j = k then gm_list m k @ [v] else gm_list m j)"
  by (simp add: gm_append_def gm_list_def gm_put_def update_conv')

lemma gm_list_fold_append:
  "gm_list (fold (\<lambda>x. gm_append (f x) (g x)) xs m) k
     = gm_list m k @ map g (filter (\<lambda>x. f x = k) xs)"
  by (induction xs arbitrary: m) (auto simp: gm_list_append)

lemma gm_list_fold_append0:
  "gm_list (fold (\<lambda>x. gm_append (f x) x) xs []) k = filter (\<lambda>x. f x = k) xs"
  using gm_list_fold_append [of f "\<lambda>x. x" xs "[]" k] by (simp add: gm_list_def)

lemma gm_str_get: "gm_str m k = (case gm_get m k of None \<Rightarrow> [] | Some v \<Rightarrow> v)"
  by (simp add: gm_str_def gm_get_def)

text \<open>
  The order of the entries is not observable through lookups: two entry lists of one map that are
  permutations of each other answer every lookup alike.
\<close>

lemma gm_get_perm:
  assumes "mset m = mset m'" and "gm_wf m"
  shows "gm_get m = gm_get m'"
proof
  fix k
  have wf': "gm_wf m'"
    using assms by (metis gm_wf_def mset_map mset_eq_imp_distinct_iff)
  have st: "set m = set m'" using assms(1) by (rule mset_eq_setD)
  show "gm_get m k = gm_get m' k"
    using gm_in_get_iff [OF assms(2), of k] gm_in_get_iff [OF wf', of k] st
    by (metis not_Some_eq)
qed

lemma gm_wf_perm: "mset m = mset m' \<Longrightarrow> gm_wf m \<Longrightarrow> gm_wf m'"
  by (metis gm_wf_def mset_map mset_eq_imp_distinct_iff)

section \<open>The map interface\<close>

locale go_map =
  fixes emp :: "'m"
    and get :: "'m \<Rightarrow> 'k \<Rightarrow> 'v option"
    and put :: "'k \<Rightarrow> 'v \<Rightarrow> 'm \<Rightarrow> 'm"
    and entries :: "'m \<Rightarrow> ('k \<times> 'v) list"
    and inv :: "'m \<Rightarrow> bool"
  assumes get_emp: "get emp k = None"
    and inv_emp: "inv emp"
    and get_put: "inv m \<Longrightarrow> get (put k v m) = (get m)(k \<mapsto> v)"
    and inv_put: "inv m \<Longrightarrow> inv (put k v m)"
    and entries_get: "inv m \<Longrightarrow> (k, v) \<in> set (entries m) \<longleftrightarrow> get m k = Some v"
    and entries_distinct: "inv m \<Longrightarrow> distinct (map fst (entries m))"
begin

text \<open>A loop that inserts one entry per element: the last element with a key wins.\<close>

definition put_all :: "('a \<Rightarrow> 'k) \<Rightarrow> ('a \<Rightarrow> 'v) \<Rightarrow> 'a list \<Rightarrow> 'm \<Rightarrow> 'm" where
  "put_all f g xs m = fold (\<lambda>x. put (f x) (g x)) xs m"

text \<open>A loop that skips a key already present: the first element with a key wins.\<close>

definition keep_first :: "('a \<Rightarrow> 'k) \<Rightarrow> ('a \<Rightarrow> 'v) \<Rightarrow> 'a list \<Rightarrow> 'm \<Rightarrow> 'm" where
  "keep_first f g xs m =
     fold (\<lambda>x m. if get m (f x) = None then put (f x) (g x) m else m) xs m"

lemma inv_put_all: "inv m \<Longrightarrow> inv (put_all f g xs m)"
  unfolding put_all_def by (induction xs arbitrary: m) (auto simp: inv_put)

lemma inv_keep_first: "inv m \<Longrightarrow> inv (keep_first f g xs m)"
  unfolding keep_first_def by (induction xs arbitrary: m) (auto simp: inv_put)

lemma get_put_all:
  assumes "inv m"
  shows "get (put_all f g xs m) k =
     (case find (\<lambda>x. f x = k) (rev xs) of Some x \<Rightarrow> Some (g x) | None \<Rightarrow> get m k)"
proof (induction xs rule: rev_induct)
  case Nil
  then show ?case by (simp add: put_all_def)
next
  case (snoc x xs)
  have inv': "inv (put_all f g xs m)" using assms by (rule inv_put_all)
  have "put_all f g (xs @ [x]) m = put (f x) (g x) (put_all f g xs m)"
    by (simp add: put_all_def)
  then show ?case using snoc inv' by (simp add: get_put)
qed

lemma get_keep_first:
  assumes "inv m"
  shows "get (keep_first f g xs m) k =
     (case get m k of Some v \<Rightarrow> Some v | None \<Rightarrow> map_option g (find (\<lambda>x. f x = k) xs))"
  using assms
proof (induction xs arbitrary: m)
  case Nil
  then show ?case by (simp add: keep_first_def split: option.splits)
next
  case (Cons x xs)
  let ?m = "if get m (f x) = None then put (f x) (g x) m else m"
  have inv': "inv ?m" using Cons.prems by (simp add: inv_put)
  have step: "keep_first f g (x # xs) m = keep_first f g xs ?m"
    by (simp add: keep_first_def)
  show ?case
    unfolding step Cons.IH [OF inv'] using Cons.prems
    by (auto simp: get_put split: option.splits)
qed

end

interpretation gm: go_map "[] :: ('k, 'v) gomap" gm_get gm_put "\<lambda>m. m" gm_wf
  by unfold_locales (auto simp: gm_in_get_iff gm_wf_def [symmetric])

text \<open>A table filled in a loop from the empty map: the last element with the key wins.\<close>

lemma gm_get_fold_put:
  "gm_get (fold (\<lambda>x. gm_put (f x) (g x)) xs []) k = map_option g (find (\<lambda>x. f x = k) (rev xs))"
  using gm.get_put_all [of "[]" f g xs k] by (simp add: gm.put_all_def split: option.splits)

section \<open>Sorting\<close>

locale keyed_sort =
  fixes key :: "'a \<Rightarrow> 'k::linorder"
    and srt :: "'a list \<Rightarrow> 'a list"
  assumes srt_mset: "mset (srt xs) = mset xs"
    and srt_sorted: "sorted (map key (srt xs))"
begin

lemma srt_set: "set (srt xs) = set xs"
  by (metis srt_mset set_mset_mset)

lemma srt_length: "length (srt xs) = length xs"
  by (metis srt_mset size_mset)

lemma srt_distinct: "distinct (map f (srt xs)) = distinct (map f xs)"
  by (metis srt_mset mset_map mset_eq_imp_distinct_iff)

text \<open>Any sorted arrangement of elements with distinct keys is the one the function returns.\<close>

lemma srt_unique:
  assumes "mset zs = mset xs" and "sorted (map key zs)" and "distinct (map key xs)"
  shows "zs = srt xs"
proof (rule map_sorted_distinct_set_unique)
  have sz: "set zs = set xs" using assms(1) by (rule mset_eq_setD)
  show "inj_on key (set zs \<union> set (srt xs))"
    using assms(3) sz by (simp add: srt_set distinct_map)
  show "distinct (map key zs)"
    using assms(1,3) by (metis mset_map mset_eq_imp_distinct_iff)
  show "distinct (map key (srt xs))" using assms(3) by (simp add: srt_distinct)
  show "set zs = set (srt xs)" using sz by (simp add: srt_set)
qed (use assms srt_sorted in auto)

text \<open>Determinism: with distinct keys the order of the input does not matter.\<close>

lemma srt_order_free:
  assumes "mset xs = mset ys" and "distinct (map key xs)"
  shows "srt xs = srt ys"
proof (rule srt_unique)
  show "mset (srt xs) = mset ys" using assms(1) by (simp add: srt_mset)
  show "sorted (map key (srt xs))" by (rule srt_sorted)
  show "distinct (map key ys)" using assms by (metis mset_map mset_eq_imp_distinct_iff)
qed

lemma srt_set_order_free:
  assumes "set xs = set ys" and "distinct (map key xs)" and "distinct (map key ys)"
  shows "srt xs = srt ys"
proof (rule srt_order_free)
  show "mset xs = mset ys"
    using assms by (metis distinct_map set_eq_iff_mset_eq_distinct)
qed (rule assms(2))

lemma srt_idem: "distinct (map key xs) \<Longrightarrow> srt (srt xs) = srt xs"
  by (rule srt_order_free) (auto simp: srt_mset srt_distinct)

end

text \<open>Isabelle's \<open>sort_key\<close> is a stable sort, hence an instance of the interface for every key.\<close>

interpretation sk: keyed_sort key "sort_key key" for key :: "'a \<Rightarrow> 'k::linorder"
  by unfold_locales auto

lemma sort_perm: "mset xs = mset ys \<Longrightarrow> sort xs = sort (ys :: 'b::linorder list)"
  by (metis mset_sort properties_for_sort sorted_sort)

section \<open>Strings and slices\<close>

text \<open>\<open>strings.Cut(s, sep)\<close> for a one-byte separator.\<close>

fun Cut :: "string \<Rightarrow> char \<Rightarrow> string \<times> string \<times> bool" where
  "Cut [] sep = ([], [], False)"
| "Cut (c # s) sep =
     (if c = sep then ([], s, True)
      else (case Cut s sep of (b, a, ok) \<Rightarrow> (c # b, a, ok)))"

lemma Cut_split: "sep \<notin> set b \<Longrightarrow> Cut (b @ sep # a) sep = (b, a, True)"
  by (induction b) auto

lemma Cut_none: "sep \<notin> set s \<Longrightarrow> Cut s sep = (s, [], False)"
  by (induction s) auto

lemma Cut_True: "Cut s sep = (b, a, True) \<Longrightarrow> s = b @ sep # a \<and> sep \<notin> set b"
  by (induction s arbitrary: b) (auto split: if_splits prod.splits)

lemma Cut_ok: "snd (snd (Cut s sep)) = (sep \<in> set s)"
  by (induction s) (auto split: prod.splits)

text \<open>\<open>strings.Join\<close>.\<close>

fun Join :: "string list \<Rightarrow> string \<Rightarrow> string" where
  "Join [] sep = []"
| "Join [x] sep = x"
| "Join (x # y # ys) sep = x @ sep @ Join (y # ys) sep"

text \<open>\<open>slices.Compact\<close>: drop every element equal to its predecessor.\<close>

fun Compact :: "'a list \<Rightarrow> 'a list" where
  "Compact [] = []"
| "Compact [x] = [x]"
| "Compact (x # y # ys) = (if x = y then Compact (y # ys) else x # Compact (y # ys))"

lemma Compact_set [simp]: "set (Compact xs) = set xs"
  by (induction xs rule: Compact.induct) auto

lemma Compact_hd: "xs \<noteq> [] \<Longrightarrow> Compact xs \<noteq> []"
  by (metis Compact_set set_empty)

lemma Compact_sorted: "sorted xs \<Longrightarrow> sorted (Compact xs) \<and> distinct (Compact xs)"
proof (induction xs rule: Compact.induct)
  case (3 x y ys)
  then show ?case by (auto simp: order_le_less_trans)
qed auto

lemma Compact_sort_set:
  "Compact (sort xs) = sorted_list_of_set (set (xs :: 'a::linorder list))"
proof (rule sorted_distinct_set_unique)
  show "sorted (Compact (sort xs))" "distinct (Compact (sort xs))"
    using Compact_sorted [of "sort xs"] by auto
qed auto

definition nonEmpty :: "string list \<Rightarrow> string list" where
  "nonEmpty values = filter (\<lambda>v. v \<noteq> []) values"

text \<open>\<open>find\<close> returns the first hit, with what was skipped before it.\<close>

lemma find_Some_split:
  "find P xs = Some x \<longleftrightarrow> (\<exists>pre post. xs = pre @ x # post \<and> P x \<and> (\<forall>u\<in>set pre. \<not> P u))"
proof
  show "find P xs = Some x \<Longrightarrow> \<exists>pre post. xs = pre @ x # post \<and> P x \<and> (\<forall>u\<in>set pre. \<not> P u)"
  proof (induction xs)
    case (Cons y ys)
    show ?case
    proof (cases "P y")
      case True
      then show ?thesis using Cons.prems by (intro exI [of _ "[]"] exI [of _ ys]) simp
    next
      case False
      with Cons obtain pre post where "ys = pre @ x # post" "P x" "\<forall>u\<in>set pre. \<not> P u" by auto
      with False show ?thesis by (intro exI [of _ "y # pre"] exI [of _ post]) simp
    qed
  qed simp
next
  have "\<forall>u\<in>set pre. \<not> P u \<Longrightarrow> P x \<Longrightarrow> find P (pre @ x # post) = Some x" for pre post
    by (induction pre) auto
  then show "\<exists>pre post. xs = pre @ x # post \<and> P x \<and> (\<forall>u\<in>set pre. \<not> P u) \<Longrightarrow> find P xs = Some x"
    by auto
qed

lemma set_map_filter: "set (List.map_filter f xs) = {y. \<exists>x\<in>set xs. f x = Some y}"
  by (force simp: map_filter_def)

lemma find_SomeD: "find P xs = Some x \<Longrightarrow> x \<in> set xs \<and> P x"
  by (auto simp: find_Some_split)

lemma find_rev_SomeD: "find P (rev xs) = Some x \<Longrightarrow> x \<in> set xs \<and> P x"
  using find_SomeD [of P "rev xs" x] by simp

end
