(* ===== verification/Selector.thy ===== *)
theory Selector
  imports Prelude "HOL-Library.Word"
begin

unbundle bit_operations_syntax

text \<open>
  The request dimensions pushed into the upstream queries: \<open>pkg/promql/selector.go\<close>.

  A selector is rendered into a fragment of PromQL label matchers. \<open>parseFragment\<close> and \<open>reAlts\<close> are
  the reading side, not part of the program: the label-matcher syntax of PromQL (a quoted string
  literal with its escapes) and the sublanguage of regular expressions the renderer emits (an
  alternation of quoted literals). The lemmas show that reading what was rendered gives exactly the
  matchers of the carried dimensions, each holding for exactly the requested values, whatever bytes
  the values contain.
\<close>

section \<open>Label keys and selectors\<close>

abbreviation DefaultAZLabel :: string where "DefaultAZLabel \<equiv> ''az''"
abbreviation DefaultEnvLabel :: string where "DefaultEnvLabel \<equiv> ''env''"

definition ClusterUnknownValue :: string where "ClusterUnknownValue = ''unknown''"

record LabelKeys =
  lk_AZ :: string
  lk_Env :: string

definition DefaultLabelKeys :: LabelKeys where
  "DefaultLabelKeys = \<lparr> lk_AZ = DefaultAZLabel, lk_Env = DefaultEnvLabel \<rparr>"

definition OrDefault :: "LabelKeys \<Rightarrow> LabelKeys" where
  "OrDefault k =
     (let k = (if lk_AZ k = [] then k\<lparr> lk_AZ := DefaultAZLabel \<rparr> else k)
      in if lk_Env k = [] then k\<lparr> lk_Env := DefaultEnvLabel \<rparr> else k)"

record Selector =
  sel_AZ :: "string list"
  sel_Env :: "string list"
  sel_Cluster :: "string list"
  sel_Namespace :: "string list"

definition noSelector :: Selector where
  "noSelector = \<lparr> sel_AZ = [], sel_Env = [], sel_Cluster = [], sel_Namespace = [] \<rparr>"

fun hasValue :: "string list \<Rightarrow> bool" where
  "hasValue [] = False"
| "hasValue (v # vs) = (if v \<noteq> [] then True else hasValue vs)"

definition Active :: "Selector \<Rightarrow> bool" where
  "Active s = (hasValue (sel_AZ s) \<or> hasValue (sel_Env s) \<or> hasValue (sel_Cluster s)
     \<or> hasValue (sel_Namespace s))"

section \<open>Dimensions\<close>

type_synonym dims = "8 word"

definition dimAZ :: dims where "dimAZ = 1"
definition dimEnv :: dims where "dimEnv = push_bit 1 1"
definition dimCluster :: dims where "dimCluster = push_bit 2 1"
definition dimNamespace :: dims where "dimNamespace = push_bit 3 1"
definition dimNamespaceOrAbsent :: dims where "dimNamespaceOrAbsent = push_bit 4 1"
definition dimAZRoute :: dims where "dimAZRoute = push_bit 5 1"

definition dimsNone :: dims where "dimsNone = 0"
definition dimsHarvest :: dims where "dimsHarvest = dimAZRoute"
definition dimsClusterScoped :: dims where "dimsClusterScoped = dimAZ OR dimEnv OR dimCluster"
definition dimsNamespaced :: dims where "dimsNamespaced = dimAZ OR dimEnv OR dimCluster OR dimNamespace"
definition dimsAlerts :: dims where "dimsAlerts = dimAZ OR dimEnv OR dimNamespaceOrAbsent"

lemmas dim_defs = dimAZ_def dimEnv_def dimCluster_def dimNamespace_def dimNamespaceOrAbsent_def
  dimAZRoute_def dimsNone_def dimsHarvest_def dimsClusterScoped_def dimsNamespaced_def dimsAlerts_def

section \<open>Rendering\<close>

text \<open>Go's \<open>regexp.QuoteMeta\<close>.\<close>

definition isMeta :: "char \<Rightarrow> bool" where
  "isMeta c = (c = CHR 0x5C \<or> c \<in> set ''.+*?()|[]{}^$'')"

definition QuoteMeta :: "string \<Rightarrow> string" where
  "QuoteMeta s = concat (map (\<lambda>c. if isMeta c then [CHR 0x5C, c] else [c]) s)"

definition escapeLiteral :: "string \<Rightarrow> string" where
  "escapeLiteral s =
     (if \<not> (CHR 0x5C \<in> set s \<or> CHR 0x22 \<in> set s) then s
      else concat (map (\<lambda>c. if c = CHR 0x5C then [CHR 0x5C, CHR 0x5C]
                            else if c = CHR 0x22 then [CHR 0x5C, CHR 0x22] else [c]) s))"

fun normaliseStep :: "string \<Rightarrow> string set \<times> string list \<Rightarrow> string set \<times> string list" where
  "normaliseStep v (seen, out) =
     (if v = [] then (seen, out)
      else if v \<in> seen then (seen, out)
      else (insert v seen, out @ [v]))"

definition normaliseValues :: "string list \<Rightarrow> string list" where
  "normaliseValues vals = (if vals = [] then [] else sort (snd (fold normaliseStep vals ({}, []))))"

definition appendMatcher :: "string list \<Rightarrow> string \<Rightarrow> string list \<Rightarrow> string list" where
  "appendMatcher dst key vals =
     (let vs = normaliseValues vals in
      if length vs = 0 then dst
      else if length vs = 1 then dst @ [key @ ''='' @ [CHR 0x22] @ escapeLiteral (vs ! 0) @ [CHR 0x22]]
      else dst @ [key @ ''=~'' @ [CHR 0x22] @ Join (map (\<lambda>v. escapeLiteral (QuoteMeta v)) vs) ''|''
                   @ [CHR 0x22]])"

definition appendMatcherOrAbsent :: "string list \<Rightarrow> string \<Rightarrow> string list \<Rightarrow> string list" where
  "appendMatcherOrAbsent dst key vals =
     (let vs = normaliseValues vals in
      if length vs = 0 then dst
      else dst @ [key @ ''=~'' @ [CHR 0x22] @ Join (map (\<lambda>v. escapeLiteral (QuoteMeta v)) vs @ [[]]) ''|''
                   @ [CHR 0x22]])"

definition appendClusterMatcher :: "string list \<Rightarrow> string list \<Rightarrow> string list" where
  "appendClusterMatcher dst vals =
     (let vs = normaliseValues vals in
      if length vs = 0 then dst
      else if ClusterUnknownValue \<notin> set vs then appendMatcher dst ''cluster'' vs
      else dst @ [''cluster=~'' @ [CHR 0x22] @ Join (map (\<lambda>v. escapeLiteral (QuoteMeta v)) vs @ [[]]) ''|''
                   @ [CHR 0x22]])"

definition render :: "Selector \<Rightarrow> dims \<Rightarrow> LabelKeys \<Rightarrow> string" where
  "render s d keys =
     (if d = 0 then []
      else
        let keys = OrDefault keys;
            out = (if d AND dimAZ \<noteq> 0 then appendMatcher [] (lk_AZ keys) (sel_AZ s) else []);
            out = (if d AND dimEnv \<noteq> 0 then appendMatcher out (lk_Env keys) (sel_Env s) else out);
            out = (if d AND dimCluster \<noteq> 0 then appendClusterMatcher out (sel_Cluster s) else out);
            out = (if d AND dimNamespace \<noteq> 0 then appendMatcher out ''namespace'' (sel_Namespace s) else out);
            out = (if d AND dimNamespaceOrAbsent \<noteq> 0
                   then appendMatcherOrAbsent out ''namespace'' (sel_Namespace s) else out)
        in Join out '','')"

section \<open>Reading label matchers\<close>

datatype Matcher = Matcher (m_key: string) (m_re: bool) (m_lit: string)

text \<open>A double-quoted string literal after its opening quote: the value and what follows it.\<close>

fun readLit :: "string \<Rightarrow> (string \<times> string) option" where
  "readLit [] = None"
| "readLit (c # s) =
     (if c = CHR 0x22 then Some ([], s)
      else if c = CHR 0x0A then None
      else if c = CHR 0x5C then
        (case s of
           [] \<Rightarrow> None
         | e # s' \<Rightarrow> if e = CHR 0x5C \<or> e = CHR 0x22
                      then map_option (\<lambda>(l, r). (e # l, r)) (readLit s') else None)
      else map_option (\<lambda>(l, r). (c # l, r)) (readLit s))"

fun readMatcher :: "string \<Rightarrow> (Matcher \<times> string) option" where
  "readMatcher s =
     (case Cut s (CHR ''='') of (k, r, ok) \<Rightarrow>
       if \<not> ok \<or> k = [] then None
       else (case r of
          [] \<Rightarrow> None
        | c # r' \<Rightarrow>
            if c = CHR 0x22 then map_option (\<lambda>(l, r). (Matcher k False l, r)) (readLit r')
            else if c = CHR ''~'' then
              (case r' of [] \<Rightarrow> None
               | c' # r'' \<Rightarrow> if c' = CHR 0x22 then map_option (\<lambda>(l, r). (Matcher k True l, r)) (readLit r'')
                             else None)
            else None))"

lemma readLit_length: "readLit s = Some (l, r) \<Longrightarrow> length r < length s"
  by (induction s arbitrary: l r rule: readLit.induct) (fastforce split: if_splits list.splits)+

lemma Cut_length: "Cut s c = (b, a, ok) \<Longrightarrow> length a \<le> length s"
  by (induction s arbitrary: b a ok) (fastforce split: if_splits prod.splits)+

lemma readMatcher_length: "readMatcher s = Some (m, r) \<Longrightarrow> length r < length s"
  using Cut_length [of s "CHR ''=''"]
  by (fastforce split: if_splits prod.splits list.splits dest!: readLit_length)

declare readMatcher.simps [simp del]

function parseFragment :: "string \<Rightarrow> Matcher list option" where
  "parseFragment s =
     (if s = [] then Some []
      else case readMatcher s of
         None \<Rightarrow> None
       | Some (m, []) \<Rightarrow> Some [m]
       | Some (m, c # r) \<Rightarrow> if c = CHR '','' \<and> r \<noteq> [] then map_option (Cons m) (parseFragment r) else None)"
  by pat_completeness auto
termination
  by (relation "measure length") (auto dest!: readMatcher_length)

declare parseFragment.simps [simp del]

text \<open>The regular expressions the renderer emits: an alternation of literals.\<close>

fun consHd :: "char \<Rightarrow> string list \<Rightarrow> string list" where
  "consHd c [] = [[c]]"
| "consHd c (w # ws) = (c # w) # ws"

fun reAlts :: "string \<Rightarrow> string list option" where
  "reAlts [] = Some [[]]"
| "reAlts (c # s) =
     (if c = CHR ''|'' then map_option (Cons []) (reAlts s)
      else if c = CHR 0x5C then
        (case s of [] \<Rightarrow> None | e # s' \<Rightarrow> if isMeta e then map_option (consHd e) (reAlts s') else None)
      else if isMeta c then None
      else map_option (consHd c) (reAlts s))"

text \<open>A matcher against the value of its label, an absent label having the empty value.\<close>

definition matcherHolds :: "(string \<Rightarrow> string) \<Rightarrow> Matcher \<Rightarrow> bool" where
  "matcherHolds series m =
     (if m_re m then (case reAlts (m_lit m) of None \<Rightarrow> False | Some ws \<Rightarrow> series (m_key m) \<in> set ws)
      else series (m_key m) = m_lit m)"

section \<open>Values, literals and alternations\<close>

lemma hasValue_iff: "hasValue vs \<longleftrightarrow> set vs - {[]} \<noteq> {}"
  by (induction vs) auto

lemma normalise_fold:
  "distinct out \<Longrightarrow> set out = seen \<Longrightarrow>
   fold normaliseStep vs (seen, out) = (seen', out') \<Longrightarrow>
   distinct out' \<and> set out' = seen' \<and> seen' = seen \<union> (set vs - {[]})"
proof (induction vs arbitrary: seen out)
  case (Cons v vs)
  show ?case
  proof (cases "v = [] \<or> v \<in> seen")
    case True
    then have "fold normaliseStep vs (seen, out) = (seen', out')" using Cons.prems(3) True by (auto split: if_splits)
    with Cons.IH [OF Cons.prems(1,2)] True show ?thesis by auto
  next
    case False
    then have "fold normaliseStep vs (insert v seen, out @ [v]) = (seen', out')" using Cons.prems(3) by auto
    with Cons.IH [of "out @ [v]" "insert v seen"] Cons.prems(1,2) False show ?thesis by auto
  qed
qed auto

lemma normaliseValues_set: "normaliseValues vs = sorted_list_of_set (set vs - {[]})"
proof (cases "fold normaliseStep vs ({}, [])")
  case (Pair seen out)
  with normalise_fold [of "[]" "{}" vs seen out]
  have "distinct out" "set out = set vs - {[]}" by auto
  then have "sort out = sorted_list_of_set (set vs - {[]})"
    by (metis distinct_remdups_id sorted_list_of_set_sort_remdups)
  then show ?thesis using Pair by (simp add: normaliseValues_def)
qed

lemma set_normaliseValues [simp]: "set (normaliseValues vs) = set vs - {[]}"
  by (simp add: normaliseValues_set)

lemma normaliseValues_Nil [simp]: "normaliseValues vs = [] \<longleftrightarrow> \<not> hasValue vs"
  by (metis hasValue_iff set_empty set_normaliseValues)

lemma normaliseValues_idem: "normaliseValues (normaliseValues vs) = normaliseValues vs"
  by (simp add: normaliseValues_set [of "normaliseValues vs"]) (simp add: normaliseValues_set)

definition escByte :: "char \<Rightarrow> string" where
  "escByte c = (if c = CHR 0x5C then [CHR 0x5C, CHR 0x5C]
     else if c = CHR 0x22 then [CHR 0x5C, CHR 0x22] else [c])"

lemma escapeLiteral_bytes: "escapeLiteral s = concat (map escByte s)"
proof -
  have "CHR 0x5C \<notin> set t \<Longrightarrow> CHR 0x22 \<notin> set t \<Longrightarrow> concat (map escByte t) = t" for t
    by (induction t) (auto simp: escByte_def)
  then show ?thesis by (auto simp: escapeLiteral_def escByte_def [abs_def])
qed

lemma escapeLiteral_append: "escapeLiteral (a @ b) = escapeLiteral a @ escapeLiteral b"
  by (simp add: escapeLiteral_bytes)

lemma readLit_escape: "CHR 0x0A \<notin> set v \<Longrightarrow> readLit (escapeLiteral v @ CHR 0x22 # r) = Some (v, r)"
  by (induction v) (auto simp: escapeLiteral_bytes escByte_def)

lemma escapeLiteral_Join: "Join (map (\<lambda>v. escapeLiteral (f v)) vs) ''|'' = escapeLiteral (Join (map f vs) ''|'')"
proof (induction vs)
  case (Cons v vs)
  then show ?case by (cases vs) (simp_all add: escapeLiteral_append, simp_all add: escapeLiteral_bytes escByte_def)
qed (simp add: escapeLiteral_bytes)

lemma set_QuoteMeta: "set (QuoteMeta s) \<subseteq> insert (CHR 0x5C) (set s)"
  by (auto simp: QuoteMeta_def split: if_splits)

lemma set_Join_alts: "set (Join vs ''|'') \<subseteq> insert (CHR ''|'') (\<Union>v\<in>set vs. set v)"
proof (induction vs)
  case (Cons v vs)
  then show ?case by (cases vs) auto
qed simp

lemma reAlts_not_Nil: "reAlts s \<noteq> Some []"
proof (induction s rule: reAlts.induct)
  case (2 c s)
  have "consHd e ws \<noteq> []" for e ws by (cases ws) auto
  then show ?case by (auto split: list.splits)
qed simp

lemma reAlts_QuoteMeta:
  assumes "reAlts r = Some (w # ws)"
  shows "reAlts (QuoteMeta v @ r) = Some ((v @ w) # ws)"
proof (induction v)
  case (Cons c v)
  have "c = CHR ''|'' \<Longrightarrow> isMeta c" "c = CHR 0x5C \<Longrightarrow> isMeta c" by (simp_all add: isMeta_def)
  then show ?case using Cons by (auto simp: QuoteMeta_def)
qed (simp add: QuoteMeta_def assms)

lemma reAlts_Join: "vs \<noteq> [] \<Longrightarrow> reAlts (Join (map QuoteMeta vs) ''|'') = Some vs"
proof (induction vs)
  case (Cons v vs)
  show ?case
  proof (cases vs)
    case Nil
    then show ?thesis using reAlts_QuoteMeta [of "[]" "[]" "[]" v] by simp
  next
    case (Cons u us)
    with Cons.IH have "reAlts (''|'' @ Join (map QuoteMeta vs) ''|'') = Some ([] # vs)" by simp
    from reAlts_QuoteMeta [OF this, of v] show ?thesis using Cons by simp
  qed
qed simp

section \<open>What a fragment denotes\<close>

definition renderM :: "Matcher \<Rightarrow> string" where
  "renderM m = m_key m @ (if m_re m then ''=~'' else ''='') @ [CHR 0x22] @ escapeLiteral (m_lit m) @ [CHR 0x22]"

definition readable :: "Matcher \<Rightarrow> bool" where
  "readable m = (m_key m \<noteq> [] \<and> CHR ''='' \<notin> set (m_key m) \<and> CHR 0x0A \<notin> set (m_lit m))"

lemma readMatcher_renderM: "readable m \<Longrightarrow> readMatcher (renderM m @ r) = Some (m, r)"
  by (cases m) (simp add: readMatcher.simps renderM_def readable_def Cut_split readLit_escape)

lemma renderM_not_Nil: "renderM m \<noteq> []"
  by (simp add: renderM_def)

lemma Join_not_Nil: "ms \<noteq> [] \<Longrightarrow> Join (map renderM ms) sep \<noteq> []"
  by (cases ms rule: list.exhaust; cases "tl ms") (simp_all add: renderM_not_Nil)

lemma parseFragment_Join:
  "\<forall>m\<in>set ms. readable m \<Longrightarrow> parseFragment (Join (map renderM ms) '','') = Some ms"
proof (induction ms)
  case Nil
  show ?case by (subst parseFragment.simps) simp
next
  case (Cons m ms)
  then have m: "readable m" by simp
  show ?case
  proof (cases ms)
    case Nil
    then show ?thesis using readMatcher_renderM [OF m, of "[]"] renderM_not_Nil [of m]
      by (subst parseFragment.simps) simp
  next
    case (Cons n ns)
    let ?r = "Join (map renderM ms) '',''"
    have eq: "Join (map renderM (m # ms)) '','' = renderM m @ CHR '','' # ?r" using Cons by simp
    have "?r \<noteq> []" using Cons by (intro Join_not_Nil) simp
    moreover have "parseFragment ?r = Some ms" using Cons.IH Cons.prems by simp
    ultimately show ?thesis unfolding eq
      by (subst parseFragment.simps) (simp add: readMatcher_renderM [OF m] renderM_not_Nil)
  qed
qed

definition plainMatcher :: "string \<Rightarrow> string list \<Rightarrow> Matcher list" where
  "plainMatcher key vals =
     (let vs = normaliseValues vals in
      if vs = [] then []
      else if length vs = 1 then [Matcher key False (vs ! 0)]
      else [Matcher key True (Join (map QuoteMeta vs) ''|'')])"

definition absentMatcher :: "string \<Rightarrow> string list \<Rightarrow> Matcher list" where
  "absentMatcher key vals =
     (let vs = normaliseValues vals in
      if vs = [] then [] else [Matcher key True (Join (map QuoteMeta (vs @ [[]])) ''|'')])"

definition clusterMatcher :: "string list \<Rightarrow> Matcher list" where
  "clusterMatcher vals =
     (if ClusterUnknownValue \<in> set vals then absentMatcher ''cluster'' vals else plainMatcher ''cluster'' vals)"

definition fragmentMatchers :: "Selector \<Rightarrow> dims \<Rightarrow> LabelKeys \<Rightarrow> Matcher list" where
  "fragmentMatchers s d keys =
     (if d AND dimAZ \<noteq> 0 then plainMatcher (lk_AZ (OrDefault keys)) (sel_AZ s) else []) @
     (if d AND dimEnv \<noteq> 0 then plainMatcher (lk_Env (OrDefault keys)) (sel_Env s) else []) @
     (if d AND dimCluster \<noteq> 0 then clusterMatcher (sel_Cluster s) else []) @
     (if d AND dimNamespace \<noteq> 0 then plainMatcher ''namespace'' (sel_Namespace s) else []) @
     (if d AND dimNamespaceOrAbsent \<noteq> 0 then absentMatcher ''namespace'' (sel_Namespace s) else [])"

lemma appendMatcher_eq: "appendMatcher dst key vals = dst @ map renderM (plainMatcher key vals)"
  using escapeLiteral_Join [of QuoteMeta "normaliseValues vals"]
  by (simp add: appendMatcher_def plainMatcher_def Let_def renderM_def)

lemma absent_Join:
  "Join (map (\<lambda>v. escapeLiteral (QuoteMeta v)) vs @ [[]]) ''|'' = escapeLiteral (Join (map QuoteMeta vs @ [[]]) ''|'')"
  using escapeLiteral_Join [of QuoteMeta "vs @ [[]]"]
  by (simp add: QuoteMeta_def escapeLiteral_bytes)

lemma QuoteMeta_Nil [simp]: "QuoteMeta [] = []"
  by (simp add: QuoteMeta_def)

lemma appendMatcherOrAbsent_eq:
  "appendMatcherOrAbsent dst key vals = dst @ map renderM (absentMatcher key vals)"
  by (simp add: appendMatcherOrAbsent_def absentMatcher_def Let_def renderM_def absent_Join)

lemma appendClusterMatcher_eq: "appendClusterMatcher dst vals = dst @ map renderM (clusterMatcher vals)"
proof -
  have "plainMatcher k (normaliseValues vals) = plainMatcher k vals" for k
    by (simp add: plainMatcher_def normaliseValues_idem)
  then show ?thesis
    by (auto simp: appendClusterMatcher_def clusterMatcher_def absentMatcher_def appendMatcher_eq Let_def
        renderM_def absent_Join ClusterUnknownValue_def plainMatcher_def)
qed

lemma render_eq: "render s d keys = Join (map renderM (fragmentMatchers s d keys)) '',''"
  by (simp add: render_def fragmentMatchers_def Let_def appendMatcher_eq appendClusterMatcher_eq
      appendMatcherOrAbsent_eq)

lemma plainMatcher_holds:
  "(\<forall>m\<in>set (plainMatcher key vals). matcherHolds L m) \<longleftrightarrow> (hasValue vals \<longrightarrow> L key \<in> set vals - {[]})"
proof -
  let ?vs = "normaliseValues vals"
  have "length ?vs = 1 \<Longrightarrow> L key = ?vs ! 0 \<longleftrightarrow> L key \<in> set ?vs" by (cases ?vs) auto
  then show ?thesis
    by (auto simp: plainMatcher_def Let_def matcherHolds_def reAlts_Join simp flip: set_normaliseValues)
qed

lemma absentMatcher_holds:
  "(\<forall>m\<in>set (absentMatcher key vals). matcherHolds L m) \<longleftrightarrow> (hasValue vals \<longrightarrow> L key \<in> insert [] (set vals))"
proof -
  have "reAlts (Join (map QuoteMeta (normaliseValues vals @ [[]])) ''|'') = Some (normaliseValues vals @ [[]])"
    by (rule reAlts_Join) simp
  then show ?thesis
    by (auto simp: absentMatcher_def Let_def matcherHolds_def)
qed

lemma matcher_readable:
  assumes "key \<noteq> []" and "CHR ''='' \<notin> set key" and "\<forall>v\<in>set vals. CHR 0x0A \<notin> set v"
  shows "\<forall>m\<in>set (plainMatcher key vals) \<union> set (absentMatcher key vals). readable m"
proof -
  have q: "\<forall>v\<in>set vs. CHR 0x0A \<notin> set v \<Longrightarrow> CHR 0x0A \<notin> set (Join (map QuoteMeta vs) ''|'')" for vs
    using set_Join_alts [of "map QuoteMeta vs"] set_QuoteMeta by fastforce
  have "\<forall>v\<in>set (normaliseValues vals). CHR 0x0A \<notin> set v" using assms(3) by simp
  moreover from this have "normaliseValues vals \<noteq> [] \<Longrightarrow> CHR 0x0A \<notin> set (normaliseValues vals ! 0)"
    by (metis nth_mem length_greater_0_conv)
  moreover have "CHR 0x0A \<notin> set (Join (map QuoteMeta (normaliseValues vals @ [[]])) ''|'')"
    using assms(3) by (intro q) simp
  ultimately show ?thesis
    using assms(1,2) q [of "normaliseValues vals"]
    by (auto simp: plainMatcher_def absentMatcher_def Let_def readable_def)
qed

text \<open>The series a filtered query must keep, and nothing else, by the value of each label.\<close>

definition selects :: "Selector \<Rightarrow> dims \<Rightarrow> LabelKeys \<Rightarrow> (string \<Rightarrow> string) \<Rightarrow> bool" where
  "selects s d keys L \<longleftrightarrow>
     (d AND dimAZ \<noteq> 0 \<and> hasValue (sel_AZ s) \<longrightarrow> L (lk_AZ (OrDefault keys)) \<in> set (sel_AZ s) - {[]}) \<and>
     (d AND dimEnv \<noteq> 0 \<and> hasValue (sel_Env s) \<longrightarrow> L (lk_Env (OrDefault keys)) \<in> set (sel_Env s) - {[]}) \<and>
     (d AND dimCluster \<noteq> 0 \<and> hasValue (sel_Cluster s) \<longrightarrow>
        L ''cluster'' \<in> set (sel_Cluster s) - {[]} \<or> ClusterUnknownValue \<in> set (sel_Cluster s) \<and> L ''cluster'' = []) \<and>
     (d AND dimNamespace \<noteq> 0 \<and> hasValue (sel_Namespace s) \<longrightarrow> L ''namespace'' \<in> set (sel_Namespace s) - {[]}) \<and>
     (d AND dimNamespaceOrAbsent \<noteq> 0 \<and> hasValue (sel_Namespace s) \<longrightarrow> L ''namespace'' \<in> insert [] (set (sel_Namespace s)))"

lemma clusterMatcher_holds:
  "(\<forall>m\<in>set (clusterMatcher vals). matcherHolds L m) \<longleftrightarrow>
   (hasValue vals \<longrightarrow> L ''cluster'' \<in> set vals - {[]} \<or> ClusterUnknownValue \<in> set vals \<and> L ''cluster'' = [])"
  unfolding clusterMatcher_def using plainMatcher_holds absentMatcher_holds by (simp, blast)

lemma fragmentMatchers_select:
  "(\<forall>m\<in>set (fragmentMatchers s d keys). matcherHolds L m) \<longleftrightarrow> selects s d keys L"
proof -
  have if_all: "(\<forall>m\<in>set (if b then xs else []). P m) \<longleftrightarrow> (b \<longrightarrow> (\<forall>m\<in>set xs. P m))" for b xs and P :: "Matcher \<Rightarrow> bool"
    by (cases b) simp_all
  show ?thesis
    unfolding fragmentMatchers_def selects_def set_append ball_Un if_all
      plainMatcher_holds absentMatcher_holds clusterMatcher_holds by blast
qed

definition selectorValues :: "Selector \<Rightarrow> string set" where
  "selectorValues s = set (sel_AZ s) \<union> set (sel_Env s) \<union> set (sel_Cluster s) \<union> set (sel_Namespace s)"

lemma OrDefault_keys [simp]: "lk_AZ (OrDefault k) \<noteq> []" "lk_Env (OrDefault k) \<noteq> []"
  by (auto simp: OrDefault_def Let_def)

definition wellKeyed :: "LabelKeys \<Rightarrow> bool" where
  "wellKeyed k = (CHR ''='' \<notin> set (lk_AZ k) \<and> CHR ''='' \<notin> set (lk_Env k))"

lemma OrDefault_wellKeyed: "wellKeyed k \<Longrightarrow> wellKeyed (OrDefault k)"
  by (auto simp: OrDefault_def Let_def wellKeyed_def)

lemma fragmentMatchers_readable:
  assumes "wellKeyed keys" and "\<forall>v\<in>selectorValues s. CHR 0x0A \<notin> set v"
  shows "\<forall>m\<in>set (fragmentMatchers s d keys). readable m"
proof -
  have k: "CHR ''='' \<notin> set (lk_AZ (OrDefault keys))" "CHR ''='' \<notin> set (lk_Env (OrDefault keys))"
    using OrDefault_wellKeyed [OF assms(1)] by (simp_all add: wellKeyed_def)
  have v: "\<forall>v\<in>set (sel_AZ s). CHR 0x0A \<notin> set v" "\<forall>v\<in>set (sel_Env s). CHR 0x0A \<notin> set v"
    "\<forall>v\<in>set (sel_Cluster s). CHR 0x0A \<notin> set v" "\<forall>v\<in>set (sel_Namespace s). CHR 0x0A \<notin> set v"
    using assms(2) by (simp_all add: selectorValues_def)
  note r = matcher_readable [OF OrDefault_keys(1) k(1) v(1)] matcher_readable [OF OrDefault_keys(2) k(2) v(2)]
    matcher_readable [of "''cluster''", OF _ _ v(3)] matcher_readable [of "''namespace''", OF _ _ v(4)]
  show ?thesis
    unfolding fragmentMatchers_def clusterMatcher_def set_append ball_Un
    using r by (simp add: ball_Un)
qed

lemma render_sets:
  assumes "set (sel_AZ s) - {[]} = set (sel_AZ s') - {[]}" and "set (sel_Env s) - {[]} = set (sel_Env s') - {[]}"
    and "set (sel_Cluster s) - {[]} = set (sel_Cluster s') - {[]}"
    and "set (sel_Namespace s) - {[]} = set (sel_Namespace s') - {[]}"
  shows "render s d keys = render s' d keys"
proof -
  have "ClusterUnknownValue \<in> set (sel_Cluster s) \<longleftrightarrow> ClusterUnknownValue \<in> set (sel_Cluster s')"
    using assms(3) by (auto simp: ClusterUnknownValue_def)
  then show ?thesis
    unfolding render_eq fragmentMatchers_def plainMatcher_def absentMatcher_def clusterMatcher_def
      normaliseValues_set assms by simp
qed

lemma render_empty_iff:
  "render s d keys = [] \<longleftrightarrow>
     \<not> (d AND dimAZ \<noteq> 0 \<and> hasValue (sel_AZ s) \<or> d AND dimEnv \<noteq> 0 \<and> hasValue (sel_Env s) \<or>
        d AND dimCluster \<noteq> 0 \<and> hasValue (sel_Cluster s) \<or>
        (d AND dimNamespace \<noteq> 0 \<or> d AND dimNamespaceOrAbsent \<noteq> 0) \<and> hasValue (sel_Namespace s))"
proof -
  have "render s d keys = [] \<longleftrightarrow> fragmentMatchers s d keys = []"
    unfolding render_eq using Join_not_Nil by fastforce
  moreover have "plainMatcher k vs = [] \<longleftrightarrow> \<not> hasValue vs" "absentMatcher k vs = [] \<longleftrightarrow> \<not> hasValue vs" for k vs
    by (auto simp: plainMatcher_def absentMatcher_def Let_def)
  moreover from this have "clusterMatcher vs = [] \<longleftrightarrow> \<not> hasValue vs" for vs
    by (simp add: clusterMatcher_def)
  ultimately show ?thesis by (auto simp: fragmentMatchers_def)
qed

section \<open>Properties\<close>

text \<open>
  C3: no request value can break out of its matcher or widen it. For every selection and every query,
  the rendered fragment reads back as PromQL label matchers, and a series satisfies them exactly when
  each carried dimension's label has one of the requested non-empty values; the value unknown of the
  cluster dimension also keeps series without that label, and the or-absent form of the namespace
  dimension keeps series without a namespace. Quotes, backslashes, regular-expression operators and
  separators inside a value all match literally. Line breaks are excluded because the request parser
  rejects control characters, and label keys contain no equals sign.
\<close>

theorem render_selects_exactly:
  assumes "wellKeyed keys" and "\<forall>v\<in>selectorValues s. CHR 0x0A \<notin> set v"
  shows "\<exists>ms. parseFragment (render s d keys) = Some ms \<and>
    (\<forall>L. (\<forall>m\<in>set ms. matcherHolds L m) \<longleftrightarrow> selects s d keys L)"
  using parseFragment_Join [OF fragmentMatchers_readable [OF assms]] fragmentMatchers_select
  unfolding render_eq by blast

definition exSelector :: Selector where
  "exSelector = \<lparr> sel_AZ = [''z2'', [], ''z1''], sel_Env = [CHR 0x22 # ''},up{a='' @ [CHR 0x22]],
     sel_Cluster = [''unknown'', ''a.b|c''], sel_Namespace = [[]] \<rparr>"

theorem render_selects_exactly_witness:
  "\<exists>ms. parseFragment (render exSelector dimsNamespaced DefaultLabelKeys) = Some ms \<and>
    (\<forall>L. (\<forall>m\<in>set ms. matcherHolds L m) \<longleftrightarrow> selects exSelector dimsNamespaced DefaultLabelKeys L)"
  by (rule render_selects_exactly) (simp_all add: wellKeyed_def DefaultLabelKeys_def selectorValues_def exSelector_def)

text \<open>
  The rendered matchers are a function of the value sets: order, repetition and empty values of
  any dimension never change the query string.
\<close>

theorem render_order_free:
  assumes "set (sel_AZ s) - {[]} = set (sel_AZ s') - {[]}" and "set (sel_Env s) - {[]} = set (sel_Env s') - {[]}"
    and "set (sel_Cluster s) - {[]} = set (sel_Cluster s') - {[]}"
    and "set (sel_Namespace s) - {[]} = set (sel_Namespace s') - {[]}"
  shows "render s d keys = render s' d keys"
  using assms by (rule render_sets)

theorem render_order_free_witness:
  "render (exSelector\<lparr> sel_AZ := [''z1'', ''z2'', ''z1''] \<rparr>) dimsAlerts DefaultLabelKeys
     = render exSelector dimsAlerts DefaultLabelKeys"
  by (rule render_order_free) (auto simp: exSelector_def)

end
