(* ===== verification/QueryTable.thy ===== *)
theory QueryTable
  imports Selector
begin

text \<open>
  The upstream queries: \<open>pkg/promql/queries.go\<close>, \<open>FormatDuration\<close> of \<open>client.go\<close> and \<open>Selector.Reaches\<close>.

  \<open>queryDims\<close>, \<open>queryFamily\<close> and \<open>fixedSelector\<close> are the tables of the source, \<open>renderArms\<close> the arms of
  the switch of \<open>Render\<close> that issue a range query. \<open>trunc\<close> stands for \<open>int64(d.Seconds())\<close>, a conversion
  through float64.

  The lemmas show that a request narrows exactly the queries \<open>Reaches\<close> names, that the per-family bits
  do not depend on map iteration order and agree with every query of the family, and that no positive
  window renders a zero-width range.
\<close>

section \<open>Queries\<close>

type_synonym Query = string

abbreviation QPodInfo :: Query where "QPodInfo \<equiv> ''kube_pod_info''"
abbreviation QNodeInfo :: Query where "QNodeInfo \<equiv> ''kube_node_info''"
abbreviation QNodeAddresses :: Query where "QNodeAddresses \<equiv> ''kube_node_status_addresses''"
abbreviation QPVCBindings :: Query where "QPVCBindings \<equiv> ''kube_pod_spec_volumes_persistentvolumeclaims_info''"
abbreviation QNodeLabels :: Query where "QNodeLabels \<equiv> ''kube_node_labels''"
abbreviation QServiceGraphTotal :: Query where "QServiceGraphTotal \<equiv> ''traces_service_graph_request_total''"
abbreviation QServiceGraphFailedTotal :: Query where "QServiceGraphFailedTotal \<equiv> ''traces_service_graph_request_failed_total''"
abbreviation QServiceGraphServerSecondsBucket :: Query where "QServiceGraphServerSecondsBucket \<equiv> ''traces_service_graph_request_server_seconds_bucket''"
abbreviation QUpProbe :: Query where "QUpProbe \<equiv> ''up''"
abbreviation QServiceInfo :: Query where "QServiceInfo \<equiv> ''kube_service_info''"
abbreviation QEndpointSliceEndpoints :: Query where "QEndpointSliceEndpoints \<equiv> ''kube_endpointslice_endpoints''"
abbreviation QEndpointSliceLabels :: Query where "QEndpointSliceLabels \<equiv> ''kube_endpointslice_labels''"
abbreviation QPodOwner :: Query where "QPodOwner \<equiv> ''kube_pod_owner''"
abbreviation QReplicaSetOwner :: Query where "QReplicaSetOwner \<equiv> ''kube_replicaset_owner''"
abbreviation QJobOwner :: Query where "QJobOwner \<equiv> ''kube_job_owner''"
abbreviation QPVCInfo :: Query where "QPVCInfo \<equiv> ''kube_persistentvolumeclaim_info''"
abbreviation QPodContainerInfo :: Query where "QPodContainerInfo \<equiv> ''kube_pod_container_info''"
abbreviation QNodeStatusCondition :: Query where "QNodeStatusCondition \<equiv> ''kube_node_status_condition''"
abbreviation QServiceAnnotations :: Query where "QServiceAnnotations \<equiv> ''kube_service_annotations''"
abbreviation QPVCAnnotations :: Query where "QPVCAnnotations \<equiv> ''kube_persistentvolumeclaim_annotations''"
abbreviation QDeploymentAnnotations :: Query where "QDeploymentAnnotations \<equiv> ''kube_deployment_annotations''"
abbreviation QStatefulSetAnnotations :: Query where "QStatefulSetAnnotations \<equiv> ''kube_statefulset_annotations''"
abbreviation QDaemonSetAnnotations :: Query where "QDaemonSetAnnotations \<equiv> ''kube_daemonset_annotations''"
abbreviation QReplicaSetAnnotations :: Query where "QReplicaSetAnnotations \<equiv> ''kube_replicaset_annotations''"
abbreviation QJobAnnotations :: Query where "QJobAnnotations \<equiv> ''kube_job_annotations''"
abbreviation QCronJobAnnotations :: Query where "QCronJobAnnotations \<equiv> ''kube_cronjob_annotations''"
abbreviation QVolumeLabels :: Query where "QVolumeLabels \<equiv> ''volume_labels''"
abbreviation QQoSReadOps :: Query where "QQoSReadOps \<equiv> ''qos_read_ops''"
abbreviation QQoSWriteOps :: Query where "QQoSWriteOps \<equiv> ''qos_write_ops''"
abbreviation QQoSReadLatency :: Query where "QQoSReadLatency \<equiv> ''qos_read_latency''"
abbreviation QQoSWriteLatency :: Query where "QQoSWriteLatency \<equiv> ''qos_write_latency''"
abbreviation QQoSReadData :: Query where "QQoSReadData \<equiv> ''qos_read_data''"
abbreviation QQoSWriteData :: Query where "QQoSWriteData \<equiv> ''qos_write_data''"
abbreviation QQoSPolicyFixedMaxIOPS :: Query where "QQoSPolicyFixedMaxIOPS \<equiv> ''qos_policy_fixed_max_throughput_iops''"
abbreviation QQoSPolicyFixedMaxMBps :: Query where "QQoSPolicyFixedMaxMBps \<equiv> ''qos_policy_fixed_max_throughput_mbps''"
abbreviation QAggrStatus :: Query where "QAggrStatus \<equiv> ''aggr_new_status''"
abbreviation QAggrSpaceUsed :: Query where "QAggrSpaceUsed \<equiv> ''aggr_space_used''"
abbreviation QAggrSpaceTotal :: Query where "QAggrSpaceTotal \<equiv> ''aggr_space_total''"
abbreviation QNetAppNodeStatus :: Query where "QNetAppNodeStatus \<equiv> ''node_new_status''"
abbreviation QNetAppNodeLabels :: Query where "QNetAppNodeLabels \<equiv> ''node_labels''"
abbreviation QNetAppNodeCPUBusy :: Query where "QNetAppNodeCPUBusy \<equiv> ''node_cpu_busy''"
abbreviation QNetAppNodeTotalOps :: Query where "QNetAppNodeTotalOps \<equiv> ''node_total_ops''"
abbreviation QNetAppNodeTotalLatency :: Query where "QNetAppNodeTotalLatency \<equiv> ''node_total_latency''"
abbreviation QNetAppNodeTotalData :: Query where "QNetAppNodeTotalData \<equiv> ''node_total_data''"
abbreviation QKubeletVolumeUsedBytes :: Query where "QKubeletVolumeUsedBytes \<equiv> ''kubelet_volume_stats_used_bytes''"
abbreviation QKubeletVolumeCapacityBytes :: Query where "QKubeletVolumeCapacityBytes \<equiv> ''kubelet_volume_stats_capacity_bytes''"
abbreviation QAlerts :: Query where "QAlerts \<equiv> ''ALERTS''"
abbreviation QAppMetadata :: Query where "QAppMetadata \<equiv> ''app_metadata''"


section \<open>Dimensions and families\<close>

definition queryDims :: "(Query, dims) gomap" where
  "queryDims = [
     (QPodInfo, dimsNamespaced),
     (QPVCBindings, dimsNamespaced),
     (QServiceInfo, dimsNamespaced),
     (QEndpointSliceEndpoints, dimsNamespaced),
     (QEndpointSliceLabels, dimsNamespaced),
     (QPodOwner, dimsNamespaced),
     (QReplicaSetOwner, dimsNamespaced),
     (QJobOwner, dimsNamespaced),
     (QPVCInfo, dimsNamespaced),
     (QPodContainerInfo, dimsNamespaced),
     (QServiceAnnotations, dimsNamespaced),
     (QPVCAnnotations, dimsNamespaced),
     (QDeploymentAnnotations, dimsNamespaced),
     (QStatefulSetAnnotations, dimsNamespaced),
     (QDaemonSetAnnotations, dimsNamespaced),
     (QReplicaSetAnnotations, dimsNamespaced),
     (QJobAnnotations, dimsNamespaced),
     (QCronJobAnnotations, dimsNamespaced),
     (QKubeletVolumeUsedBytes, dimsNamespaced),
     (QKubeletVolumeCapacityBytes, dimsNamespaced),
     (QNodeInfo, dimsClusterScoped),
     (QNodeAddresses, dimsClusterScoped),
     (QNodeLabels, dimsClusterScoped),
     (QNodeStatusCondition, dimsClusterScoped),
     (QVolumeLabels, dimsHarvest),
     (QQoSReadOps, dimsHarvest),
     (QQoSWriteOps, dimsHarvest),
     (QQoSReadLatency, dimsHarvest),
     (QQoSWriteLatency, dimsHarvest),
     (QQoSReadData, dimsHarvest),
     (QQoSWriteData, dimsHarvest),
     (QQoSPolicyFixedMaxIOPS, dimsHarvest),
     (QQoSPolicyFixedMaxMBps, dimsHarvest),
     (QAggrStatus, dimsHarvest),
     (QAggrSpaceUsed, dimsHarvest),
     (QAggrSpaceTotal, dimsHarvest),
     (QNetAppNodeStatus, dimsHarvest),
     (QNetAppNodeLabels, dimsHarvest),
     (QNetAppNodeCPUBusy, dimsHarvest),
     (QNetAppNodeTotalOps, dimsHarvest),
     (QNetAppNodeTotalLatency, dimsHarvest),
     (QNetAppNodeTotalData, dimsHarvest),
     (QAlerts, dimsAlerts),
     (QAppMetadata, dimsNamespaced),
     (QServiceGraphTotal, dimsNone),
     (QServiceGraphFailedTotal, dimsNone),
     (QServiceGraphServerSecondsBucket, dimsNone),
     (QUpProbe, dimsNone)]"

type_synonym Family = string

abbreviation FamilyKSM :: Family where "FamilyKSM \<equiv> ''ksm''"
abbreviation FamilyKubelet :: Family where "FamilyKubelet \<equiv> ''kubelet''"
abbreviation FamilyHarvest :: Family where "FamilyHarvest \<equiv> ''harvest''"
abbreviation FamilyServiceGraph :: Family where "FamilyServiceGraph \<equiv> ''servicegraph''"
abbreviation FamilyProbe :: Family where "FamilyProbe \<equiv> ''probe''"
abbreviation FamilyAlerts :: Family where "FamilyAlerts \<equiv> ''alerts''"
abbreviation FamilyAppMeta :: Family where "FamilyAppMeta \<equiv> ''appmeta''"

definition Families :: "Family list" where
  "Families = [FamilyKSM, FamilyKubelet, FamilyHarvest, FamilyServiceGraph, FamilyProbe, FamilyAlerts,
     FamilyAppMeta]"

definition requiredFamilies :: "Family list" where
  "requiredFamilies = [FamilyKSM, FamilyKubelet, FamilyHarvest, FamilyServiceGraph, FamilyProbe]"

definition Optional :: "Family \<Rightarrow> bool" where
  "Optional f = (\<not> List.member requiredFamilies f)"

definition ParseFamily :: "string \<Rightarrow> Family option" where
  "ParseFamily s = find (\<lambda>f. s = f) Families"

definition queryFamily :: "(Query, Family) gomap" where
  "queryFamily = [
     (QPodInfo, FamilyKSM),
     (QNodeInfo, FamilyKSM),
     (QNodeAddresses, FamilyKSM),
     (QNodeLabels, FamilyKSM),
     (QNodeStatusCondition, FamilyKSM),
     (QPVCBindings, FamilyKSM),
     (QPVCInfo, FamilyKSM),
     (QPVCAnnotations, FamilyKSM),
     (QServiceInfo, FamilyKSM),
     (QServiceAnnotations, FamilyKSM),
     (QEndpointSliceEndpoints, FamilyKSM),
     (QEndpointSliceLabels, FamilyKSM),
     (QPodOwner, FamilyKSM),
     (QReplicaSetOwner, FamilyKSM),
     (QJobOwner, FamilyKSM),
     (QPodContainerInfo, FamilyKSM),
     (QDeploymentAnnotations, FamilyKSM),
     (QStatefulSetAnnotations, FamilyKSM),
     (QDaemonSetAnnotations, FamilyKSM),
     (QReplicaSetAnnotations, FamilyKSM),
     (QJobAnnotations, FamilyKSM),
     (QCronJobAnnotations, FamilyKSM),
     (QKubeletVolumeUsedBytes, FamilyKubelet),
     (QKubeletVolumeCapacityBytes, FamilyKubelet),
     (QVolumeLabels, FamilyHarvest),
     (QQoSReadOps, FamilyHarvest),
     (QQoSWriteOps, FamilyHarvest),
     (QQoSReadLatency, FamilyHarvest),
     (QQoSWriteLatency, FamilyHarvest),
     (QQoSReadData, FamilyHarvest),
     (QQoSWriteData, FamilyHarvest),
     (QQoSPolicyFixedMaxIOPS, FamilyHarvest),
     (QQoSPolicyFixedMaxMBps, FamilyHarvest),
     (QAggrStatus, FamilyHarvest),
     (QAggrSpaceUsed, FamilyHarvest),
     (QAggrSpaceTotal, FamilyHarvest),
     (QNetAppNodeStatus, FamilyHarvest),
     (QNetAppNodeLabels, FamilyHarvest),
     (QNetAppNodeCPUBusy, FamilyHarvest),
     (QNetAppNodeTotalOps, FamilyHarvest),
     (QNetAppNodeTotalLatency, FamilyHarvest),
     (QNetAppNodeTotalData, FamilyHarvest),
     (QServiceGraphTotal, FamilyServiceGraph),
     (QServiceGraphFailedTotal, FamilyServiceGraph),
     (QServiceGraphServerSecondsBucket, FamilyServiceGraph),
     (QUpProbe, FamilyProbe),
     (QAlerts, FamilyAlerts),
     (QAppMetadata, FamilyAppMeta)]"

definition FamilyOf :: "Query \<Rightarrow> Family option" where
  "FamilyOf q = gm_get queryFamily q"

text \<open>\<open>queryDims[q]\<close>: the zero value for a query without an entry.\<close>

definition dimsOf :: "Query \<Rightarrow> dims" where
  "dimsOf q = (case gm_get queryDims q of None \<Rightarrow> 0 | Some d \<Rightarrow> d)"

text \<open>\<open>m[k]\<close> of a \<open>map[K]bool\<close>.\<close>

definition gm_bool :: "('k, bool) gomap \<Rightarrow> 'k \<Rightarrow> bool" where
  "gm_bool m k = (gm_get m k = Some True)"

text \<open>\<open>fams\<close> is the table in the order one run iterates it.\<close>

fun familyDimStep :: "dims \<Rightarrow> Query \<times> Family \<Rightarrow> (Family, bool) gomap \<times> Family set \<Rightarrow> (Family, bool) gomap \<times> Family set" where
  "familyDimStep bits (q, f) (out, seen) =
     (let st = (dimsOf q AND bits \<noteq> 0) in
      if f \<notin> seen then (gm_put f st out, insert f seen)
      else (gm_put f (gm_bool out f \<and> st) out, seen))"

definition buildFamilyDim :: "(Query, Family) gomap \<Rightarrow> dims \<Rightarrow> (Family, bool) gomap" where
  "buildFamilyDim fams bits = fst (fold (familyDimStep bits) fams ([], {}))"

definition AcceptsAZ :: "Family \<Rightarrow> bool" where
  "AcceptsAZ f = gm_bool (buildFamilyDim queryFamily (dimAZ OR dimAZRoute)) f"

definition RendersAZ :: "Family \<Rightarrow> bool" where
  "RendersAZ f = gm_bool (buildFamilyDim queryFamily dimAZ) f"

definition Reaches :: "Selector \<Rightarrow> Query \<Rightarrow> bool" where
  "Reaches s q =
     (let d = dimsOf q in
      (d AND dimAZ \<noteq> 0 \<and> hasValue (sel_AZ s)) \<or>
      (d AND dimEnv \<noteq> 0 \<and> hasValue (sel_Env s)) \<or>
      (d AND dimCluster \<noteq> 0 \<and> hasValue (sel_Cluster s)) \<or>
      (d AND (dimNamespace OR dimNamespaceOrAbsent) \<noteq> 0 \<and> hasValue (sel_Namespace s)))"

section \<open>Rendering\<close>

definition jobOwnerCronJobSelector :: string where
  "jobOwnerCronJobSelector = ''owner_kind='' @ [CHR 0x22] @ ''CronJob'' @ [CHR 0x22] @ '',owner_is_controller='' @ [CHR 0x22] @ ''true'' @ [CHR 0x22]"

definition argoTrackingIDPresentSelector :: string where
  "argoTrackingIDPresentSelector = ''annotation_argocd_argoproj_io_tracking_id!='' @ [CHR 0x22] @ [CHR 0x22]"

definition alertsFiringSelector :: string where
  "alertsFiringSelector = ''alertstate='' @ [CHR 0x22] @ ''firing'' @ [CHR 0x22]"

definition serviceGraphSentinelSelector :: string where
  "serviceGraphSentinelSelector = ''client!~'' @ [CHR 0x22] @ ''user|unknown'' @ [CHR 0x22] @ '',server!~'' @ [CHR 0x22] @ ''user'' @ [CHR 0x22]"

definition serviceGraphLinkExclusionSelector :: string where
  "serviceGraphLinkExclusionSelector = ''edge_relation!='' @ [CHR 0x22] @ ''link'' @ [CHR 0x22]"

definition serviceGraphFailedSelector :: string where
  "serviceGraphFailedSelector = serviceGraphSentinelSelector @ '','' @ serviceGraphLinkExclusionSelector"

definition serviceGraphBucketSelector :: string where
  "serviceGraphBucketSelector = serviceGraphSentinelSelector @ '','' @ serviceGraphLinkExclusionSelector"

definition fixedSelector :: "(Query, string) gomap" where
  "fixedSelector = [
     (QNodeAddresses, ''type=~'' @ [CHR 0x22] @ ''ExternalIP|InternalIP'' @ [CHR 0x22]),
     (QNodeStatusCondition, ''condition='' @ [CHR 0x22] @ ''Ready'' @ [CHR 0x22]),
     (QJobOwner, jobOwnerCronJobSelector),
     (QDeploymentAnnotations, argoTrackingIDPresentSelector),
     (QStatefulSetAnnotations, argoTrackingIDPresentSelector),
     (QDaemonSetAnnotations, argoTrackingIDPresentSelector),
     (QReplicaSetAnnotations, argoTrackingIDPresentSelector),
     (QJobAnnotations, argoTrackingIDPresentSelector),
     (QCronJobAnnotations, argoTrackingIDPresentSelector),
     (QAlerts, alertsFiringSelector),
     (QServiceGraphTotal, serviceGraphSentinelSelector),
     (QServiceGraphFailedTotal, serviceGraphFailedSelector),
     (QServiceGraphServerSecondsBucket, serviceGraphBucketSelector)]"

definition selectorBraces :: "Query \<Rightarrow> LabelKeys \<Rightarrow> Selector \<Rightarrow> string" where
  "selectorBraces q keys sel =
     (let fixed = gm_str fixedSelector q; req = render sel (dimsOf q) keys in
      if fixed = [] \<and> req = [] then []
      else if req = [] then ''{'' @ fixed @ ''}''
      else if fixed = [] then ''{'' @ req @ ''}''
      else ''{'' @ fixed @ '','' @ req @ ''}'')"

text \<open>\<open>strconv.FormatInt(n, 10)\<close>.\<close>

fun digits :: "nat \<Rightarrow> string" where
  "digits n = (if n < 10 then [char_of (n + 48)] else digits (n div 10) @ [char_of (n mod 10 + 48)])"

declare digits.simps [simp del]

definition FormatInt :: "int \<Rightarrow> string" where
  "FormatInt n = (if n < 0 then CHR ''-'' # digits (nat (- n)) else digits (nat n))"

abbreviation Second :: int where "Second \<equiv> 1000000000"
abbreviation Minute :: int where "Minute \<equiv> 60 * Second"
abbreviation Hour :: int where "Hour \<equiv> 60 * Minute"

definition FormatDuration :: "(int \<Rightarrow> int) \<Rightarrow> int \<Rightarrow> string" where
  "FormatDuration trunc d =
     (if d \<le> 0 then ''0s''
      else if d mod Hour = 0 then FormatInt (d div Hour) @ ''h''
      else if d mod Minute = 0 then FormatInt (d div Minute) @ ''m''
      else (let secs = trunc d; secs = (if secs < 1 then 1 else secs) in FormatInt secs @ ''s''))"

definition renderArms :: "(Query, string \<times> string) gomap" where
  "renderArms = [
     (QPodInfo, (''last_over_time'', ''kube_pod_info'')),
     (QNodeInfo, (''last_over_time'', ''kube_node_info'')),
     (QNodeAddresses, (''last_over_time'', ''kube_node_status_addresses'')),
     (QPVCBindings, (''last_over_time'', ''kube_pod_spec_volumes_persistentvolumeclaims_info'')),
     (QNodeLabels, (''last_over_time'', ''kube_node_labels'')),
     (QServiceInfo, (''last_over_time'', ''kube_service_info'')),
     (QEndpointSliceEndpoints, (''last_over_time'', ''kube_endpointslice_endpoints'')),
     (QEndpointSliceLabels, (''last_over_time'', ''kube_endpointslice_labels'')),
     (QPodOwner, (''last_over_time'', ''kube_pod_owner'')),
     (QReplicaSetOwner, (''last_over_time'', ''kube_replicaset_owner'')),
     (QJobOwner, (''last_over_time'', ''kube_job_owner'')),
     (QPVCInfo, (''last_over_time'', ''kube_persistentvolumeclaim_info'')),
     (QPodContainerInfo, (''tlast_over_time'', ''kube_pod_container_info'')),
     (QNodeStatusCondition, (''last_over_time'', ''kube_node_status_condition'')),
     (QServiceAnnotations, (''last_over_time'', ''kube_service_annotations'')),
     (QPVCAnnotations, (''last_over_time'', ''kube_persistentvolumeclaim_annotations'')),
     (QDeploymentAnnotations, (''last_over_time'', QDeploymentAnnotations)),
     (QStatefulSetAnnotations, (''last_over_time'', QStatefulSetAnnotations)),
     (QDaemonSetAnnotations, (''last_over_time'', QDaemonSetAnnotations)),
     (QReplicaSetAnnotations, (''last_over_time'', QReplicaSetAnnotations)),
     (QJobAnnotations, (''last_over_time'', QJobAnnotations)),
     (QCronJobAnnotations, (''last_over_time'', QCronJobAnnotations)),
     (QVolumeLabels, (''last_over_time'', ''volume_labels'')),
     (QQoSReadOps, (''last_over_time'', QQoSReadOps)),
     (QQoSWriteOps, (''last_over_time'', QQoSWriteOps)),
     (QQoSReadLatency, (''last_over_time'', QQoSReadLatency)),
     (QQoSWriteLatency, (''last_over_time'', QQoSWriteLatency)),
     (QQoSReadData, (''last_over_time'', QQoSReadData)),
     (QQoSWriteData, (''last_over_time'', QQoSWriteData)),
     (QQoSPolicyFixedMaxIOPS, (''last_over_time'', ''qos_policy_fixed_max_throughput_iops'')),
     (QQoSPolicyFixedMaxMBps, (''last_over_time'', ''qos_policy_fixed_max_throughput_mbps'')),
     (QAggrStatus, (''last_over_time'', ''aggr_new_status'')),
     (QAggrSpaceUsed, (''last_over_time'', ''aggr_space_used'')),
     (QAggrSpaceTotal, (''last_over_time'', ''aggr_space_total'')),
     (QNetAppNodeStatus, (''last_over_time'', ''node_new_status'')),
     (QNetAppNodeLabels, (''last_over_time'', QNetAppNodeLabels)),
     (QNetAppNodeCPUBusy, (''last_over_time'', QNetAppNodeCPUBusy)),
     (QNetAppNodeTotalOps, (''last_over_time'', QNetAppNodeTotalOps)),
     (QNetAppNodeTotalLatency, (''last_over_time'', QNetAppNodeTotalLatency)),
     (QNetAppNodeTotalData, (''last_over_time'', QNetAppNodeTotalData)),
     (QKubeletVolumeUsedBytes, (''last_over_time'', ''kubelet_volume_stats_used_bytes'')),
     (QKubeletVolumeCapacityBytes, (''last_over_time'', ''kubelet_volume_stats_capacity_bytes'')),
     (QServiceGraphTotal, (''rate'', ''traces_service_graph_request_total'')),
     (QServiceGraphFailedTotal, (''rate'', ''traces_service_graph_request_failed_total'')),
     (QServiceGraphServerSecondsBucket, (''rate'', ''traces_service_graph_request_server_seconds_bucket'')),
     (QAlerts, (''tlast_over_time'', ''ALERTS''))]"

definition Render :: "(int \<Rightarrow> int) \<Rightarrow> Query \<Rightarrow> int \<Rightarrow> LabelKeys \<Rightarrow> Selector \<Rightarrow> string" where
  "Render trunc q window keys sel =
     (let w = FormatDuration trunc window; fx = selectorBraces q keys sel in
      case gm_get renderArms q of
        Some (f, metric) \<Rightarrow> f @ ''('' @ metric @ fx @ ''['' @ w @ ''])''
      | None \<Rightarrow> if q = QUpProbe then ''up'' else [])"

definition RenderAlertsPortable :: "(int \<Rightarrow> int) \<Rightarrow> int \<Rightarrow> LabelKeys \<Rightarrow> Selector \<Rightarrow> string" where
  "RenderAlertsPortable trunc window keys sel =
     ''last_over_time(ALERTS'' @ selectorBraces QAlerts keys sel @ ''['' @ FormatDuration trunc window @ ''])''"

section \<open>The tables\<close>

lemma familyDim_fold:
  assumes "\<And>f. gm_bool out f \<longleftrightarrow> f \<in> seen \<and> P f"
  shows "gm_bool (fst (fold (familyDimStep bits) fams (out, seen))) f \<longleftrightarrow>
    (f \<in> seen \<or> f \<in> snd ` set fams) \<and> (f \<in> seen \<longrightarrow> P f) \<and> (\<forall>q. (q, f) \<in> set fams \<longrightarrow> dimsOf q AND bits \<noteq> 0)"
  using assms
proof (induction fams arbitrary: out seen P)
  case Nil
  then show ?case by auto
next
  case (Cons x fams)
  obtain q g where x: "x = (q, g)" by (cases x)
  define st where "st = (dimsOf q AND bits \<noteq> 0)"
  show ?case
  proof (cases "g \<in> seen")
    case True
    have "gm_bool (gm_put g (gm_bool out g \<and> st) out) f \<longleftrightarrow> f \<in> seen \<and> (P f \<and> (f = g \<longrightarrow> st))" for f
      using Cons.prems [of f] True by (auto simp: gm_bool_def)
    from Cons.IH [OF this] show ?thesis using True by (auto simp: x st_def)
  next
    case False
    have "gm_bool (gm_put g st out) f \<longleftrightarrow> f \<in> insert g seen \<and> ((f \<in> seen \<longrightarrow> P f) \<and> (f = g \<longrightarrow> st))" for f
      using Cons.prems [of f] False by (auto simp: gm_bool_def)
    from Cons.IH [OF this] show ?thesis using False by (auto simp: x st_def)
  qed
qed

lemma buildFamilyDim_iff:
  "gm_bool (buildFamilyDim fams bits) f \<longleftrightarrow>
     f \<in> snd ` set fams \<and> (\<forall>q. (q, f) \<in> set fams \<longrightarrow> dimsOf q AND bits \<noteq> 0)"
  unfolding buildFamilyDim_def using familyDim_fold [of "[]" "{}" "\<lambda>f. True" bits fams f]
  by (simp add: gm_bool_def)

lemma familyDim_uniform:
  assumes "\<And>q. (q, f) \<in> set fams \<Longrightarrow> (dimsOf q AND bits \<noteq> 0) = (f \<notin> X)"
  shows "gm_bool (buildFamilyDim fams bits) f \<longleftrightarrow> f \<in> snd ` set fams - X"
  unfolding buildFamilyDim_iff using assms by fastforce

lemma and_or_zero: "(d :: dims) AND (a OR b) \<noteq> 0 \<longleftrightarrow> d AND a \<noteq> 0 \<or> d AND b \<noteq> 0"
  by (simp add: bit.conj_disj_distrib or_eq_0_iff)

lemma Reaches_render: "Reaches s q \<longleftrightarrow> render s (dimsOf q) keys \<noteq> []"
  unfolding Reaches_def Let_def render_empty_iff and_or_zero by blast

lemma render_noSelector [simp]: "render noSelector d keys = []"
  by (simp add: render_empty_iff noSelector_def)

lemma selectorBraces_filtered:
  "selectorBraces q keys s = selectorBraces q keys noSelector \<longleftrightarrow> render s (dimsOf q) keys = []"
  by (auto simp: selectorBraces_def Let_def)

lemma tables_wf:
  "gm_wf queryDims" "gm_wf queryFamily" "fst ` set queryDims = fst ` set queryFamily"
  "fst ` set renderArms = fst ` set queryFamily - {QUpProbe, QAppMetadata}"
  "snd ` set queryFamily = set Families"
  by code_simp+

lemma query_zone_bits:
  "\<forall>(q, g)\<in>set queryFamily.
      (dimsOf q AND (dimAZ OR dimAZRoute) \<noteq> 0) = (g \<notin> {FamilyServiceGraph, FamilyProbe}) \<and>
      (dimsOf q AND dimAZ \<noteq> 0) = (g \<notin> {FamilyServiceGraph, FamilyProbe, FamilyHarvest})"
  by code_simp

lemma query_zone_bit:
  assumes "(q, g) \<in> set queryFamily"
  shows "(dimsOf q AND (dimAZ OR dimAZRoute) \<noteq> 0) = (g \<notin> {FamilyServiceGraph, FamilyProbe})"
    and "(dimsOf q AND dimAZ \<noteq> 0) = (g \<notin> {FamilyServiceGraph, FamilyProbe, FamilyHarvest})"
  using bspec [OF query_zone_bits assms] by (simp_all only: prod.case)

lemma AcceptsAZ_iff [code]: "AcceptsAZ f \<longleftrightarrow> f \<in> set Families - {FamilyServiceGraph, FamilyProbe}"
  unfolding AcceptsAZ_def tables_wf(5) [symmetric] by (rule familyDim_uniform) (rule query_zone_bit(1))

lemma RendersAZ_iff [code]: "RendersAZ f \<longleftrightarrow> f \<in> set Families - {FamilyServiceGraph, FamilyProbe, FamilyHarvest}"
  unfolding RendersAZ_def tables_wf(5) [symmetric] by (rule familyDim_uniform) (rule query_zone_bit(2))

lemma digits_start: "hd (digits n) = CHR ''0'' \<longleftrightarrow> n = 0" "digits n \<noteq> []"
proof -
  have "digits n \<noteq> [] \<and> (hd (digits n) = CHR ''0'' \<longleftrightarrow> n = 0)"
  proof (induction n rule: digits.induct)
    case (1 n)
    show ?case
    proof (cases "n < 10")
      case True
      then have "n \<in> set [0..<10]" by simp
      moreover have "\<forall>n\<in>set [0..<10]. (char_of (n + 48) = CHR ''0'') = (n = (0::nat))" by code_simp
      ultimately show ?thesis by (subst (1 2) digits.simps) (use True in auto)
    next
      case False
      then show ?thesis using 1 by (subst (1 2) digits.simps) (simp add: hd_append)
    qed
  qed
  then show "hd (digits n) = CHR ''0'' \<longleftrightarrow> n = 0" "digits n \<noteq> []" by auto
qed

definition readNat :: "string \<Rightarrow> nat" where
  "readNat s = foldl (\<lambda>a c. 10 * a + (of_char c - 48)) 0 s"

lemma of_char_digit: "k < 10 \<Longrightarrow> of_char (char_of (k + 48) :: char) = (k + 48 :: nat)"
  by simp

lemma digits_props: "readNat (digits n) = n \<and> (\<forall>c\<in>set (digits n). 48 \<le> (of_char c :: nat) \<and> of_char c \<le> (57 :: nat))"
proof (induction n rule: digits.induct)
  case (1 n)
  show ?case
  proof (cases "n < 10")
    case True
    then have "digits n = [char_of (n + 48)]" by (subst digits.simps) simp
    then show ?thesis using of_char_digit [OF True] True by (simp add: readNat_def)
  next
    case False
    have r: "n mod 10 < 10" by simp
    have "digits n = digits (n div 10) @ [char_of (n mod 10 + 48)]" using False by (subst digits.simps) simp
    then show ?thesis using 1 [OF False] of_char_digit [OF r] r by (simp add: readNat_def less_Suc_eq_le)
  qed
qed

lemma digits_inj: "digits m = digits n \<Longrightarrow> m = n"
  by (metis digits_props)

lemma sep_split:
  "x \<notin> set xs \<Longrightarrow> x \<notin> set xs' \<Longrightarrow> xs @ x # ys = xs' @ x # ys' \<Longrightarrow> xs = xs' \<and> ys = ys'"
proof (induction xs arbitrary: xs')
  case Nil
  then show ?case by (cases xs') auto
next
  case (Cons a xs)
  then show ?case by (cases xs') auto
qed

lemma FormatInt_inj: "FormatInt a = FormatInt b \<Longrightarrow> a = b"
proof -
  have dash: "digits n \<noteq> CHR ''-'' # s" for n s
    using digits_props [of n] by fastforce
  assume "FormatInt a = FormatInt b"
  then show ?thesis
    using dash dash [symmetric] by (auto simp: FormatInt_def split: if_splits dest!: digits_inj)
qed

lemma FormatInt_pos: "1 \<le> n \<Longrightarrow> FormatInt n @ u \<noteq> ''0s''"
proof
  assume n: "1 \<le> n" and eq: "FormatInt n @ u = ''0s''"
  then have "hd (FormatInt n @ u) = CHR ''0''" by simp
  moreover have "FormatInt n \<noteq> []" using n digits_start(2) by (simp add: FormatInt_def)
  ultimately have "hd (FormatInt n) = CHR ''0''" by simp
  then show False using n digits_start(1) [of "nat n"] by (simp add: FormatInt_def)
qed

lemma whole_units:
  fixes d u :: int
  assumes "0 < u" and "0 < d" and "d mod u = 0"
  shows "1 \<le> d div u" and "d div u * u = d"
proof -
  from assms(3) obtain k where k: "d = u * k" by (auto simp: mod_eq_0_iff_dvd dvd_def)
  with assms(1,2) have "0 < k" by (simp add: zero_less_mult_iff)
  with k assms(1) show "1 \<le> d div u" "d div u * u = d" by simp_all
qed

section \<open>Properties\<close>

text \<open>
  \<open>Reaches\<close> is exactly the rendering contract: it holds for a query and a request when, and only
  when, the request changes the query's selector; and a request is filtered (\<open>Active\<close>) when, and only
  when, it reaches some query. Classifying an empty metric family as filtered out by the request
  therefore never disagrees with what was sent upstream.
\<close>

theorem Reaches_iff_narrowed:
  "(Reaches s q \<longleftrightarrow> selectorBraces q keys s \<noteq> selectorBraces q keys noSelector) \<and>
   (Active s \<longleftrightarrow> (\<exists>q. Reaches s q))"
proof
  show "Reaches s q \<longleftrightarrow> selectorBraces q keys s \<noteq> selectorBraces q keys noSelector"
    unfolding selectorBraces_filtered by (rule Reaches_render)
  have "dimsOf QPodInfo AND dimAZ \<noteq> 0" "dimsOf QPodInfo AND dimEnv \<noteq> 0" "dimsOf QPodInfo AND dimCluster \<noteq> 0"
    "dimsOf QPodInfo AND (dimNamespace OR dimNamespaceOrAbsent) \<noteq> 0" by code_simp+
  then have "Active s \<Longrightarrow> Reaches s QPodInfo" unfolding Reaches_def Active_def Let_def by blast
  then show "Active s \<longleftrightarrow> (\<exists>q. Reaches s q)" unfolding Reaches_def Active_def Let_def by blast
qed

text \<open>
  The zone bits of a family are well defined: whatever order the map is iterated in, a family is
  zone-routed exactly when each of its queries is, and the families are as documented - the service
  graph and the probe are never narrowed by zone, NetApp Harvest is routed by zone without a matcher.
\<close>

theorem family_zone_bits:
  assumes "mset fams = mset queryFamily"
  shows "gm_bool (buildFamilyDim fams (dimAZ OR dimAZRoute)) f = AcceptsAZ f \<and>
    gm_bool (buildFamilyDim fams dimAZ) f = RendersAZ f \<and>
    (AcceptsAZ f \<longleftrightarrow> f \<in> set Families - {FamilyServiceGraph, FamilyProbe}) \<and>
    (RendersAZ f \<longleftrightarrow> f \<in> set Families - {FamilyServiceGraph, FamilyProbe, FamilyHarvest}) \<and>
    (\<forall>q. FamilyOf q = Some f \<longrightarrow>
       (dimsOf q AND (dimAZ OR dimAZRoute) \<noteq> 0) = AcceptsAZ f \<and> (dimsOf q AND dimAZ \<noteq> 0) = RendersAZ f)"
proof -
  have fams: "set fams = set queryFamily" using assms by (rule mset_eq_setD)
  have order: "gm_bool (buildFamilyDim fams bits) f = gm_bool (buildFamilyDim queryFamily bits) f" for bits
    unfolding buildFamilyDim_iff fams ..
  note perQuery = query_zone_bit
  note a = AcceptsAZ_iff [of f] and r = RendersAZ_iff [of f]
  have h: "FamilyOf q = Some f \<Longrightarrow> (dimsOf q AND (dimAZ OR dimAZRoute) \<noteq> 0) = AcceptsAZ f \<and>
      (dimsOf q AND dimAZ \<noteq> 0) = RendersAZ f" for q
  proof -
    assume "FamilyOf q = Some f"
    then have q: "(q, f) \<in> set queryFamily" unfolding FamilyOf_def by (rule gm_get_in)
    then have "f \<in> snd ` set queryFamily" by (rule image_eqI [rotated]) simp
    then have "f \<in> set Families" unfolding tables_wf(5) .
    then show ?thesis unfolding a r perQuery [OF q] Diff_iff by blast
  qed
  show ?thesis using order a r h unfolding AcceptsAZ_def RendersAZ_def by blast
qed

theorem family_zone_bits_witness:
  "gm_bool (buildFamilyDim (rev queryFamily) dimAZ) FamilyHarvest = RendersAZ FamilyHarvest"
  using family_zone_bits [of "rev queryFamily" FamilyHarvest] by simp

text \<open>
  A positive window never renders a zero-width range: the duration is a positive number of hours,
  minutes or seconds, and for a window of whole seconds it is that window exactly.
\<close>

theorem FormatDuration_positive:
  assumes "0 < d" and "d < 2 ^ 63" and "\<And>k. 0 < k \<Longrightarrow> k * Second < 2 ^ 63 \<Longrightarrow> trunc (k * Second) = k"
  shows "\<exists>n unit suffix. FormatDuration trunc d = FormatInt n @ suffix \<and> 1 \<le> n \<and>
    (suffix, unit) \<in> {(''h'', Hour), (''m'', Minute), (''s'', Second)} \<and>
    (Second dvd d \<longrightarrow> n * unit = d) \<and> FormatDuration trunc d \<noteq> ''0s''"
proof -
  consider (h) "d mod Hour = 0" | (m) "d mod Hour \<noteq> 0" "d mod Minute = 0"
    | (s) "d mod Hour \<noteq> 0" "d mod Minute \<noteq> 0" by blast
  then obtain n unit suffix where r: "FormatDuration trunc d = FormatInt n @ suffix" "1 \<le> n"
    "(suffix, unit) \<in> {(''h'', Hour), (''m'', Minute), (''s'', Second)}" "Second dvd d \<longrightarrow> n * unit = d"
  proof cases
    case h
    have "FormatDuration trunc d = FormatInt (d div Hour) @ ''h''" using h assms(1) by (simp add: FormatDuration_def)
    moreover have "1 \<le> d div Hour" "d div Hour * Hour = d" using whole_units [OF _ assms(1) h] by simp_all
    ultimately show ?thesis by (intro that [of "d div Hour" "''h''" Hour]) simp_all
  next
    case m
    have "FormatDuration trunc d = FormatInt (d div Minute) @ ''m''" using m assms(1) by (simp add: FormatDuration_def)
    moreover have "1 \<le> d div Minute" "d div Minute * Minute = d" using whole_units [OF _ assms(1) m(2)] by simp_all
    ultimately show ?thesis by (intro that [of "d div Minute" "''m''" Minute]) simp_all
  next
    case s
    let ?n = "if trunc d < 1 then 1 else trunc d"
    have "FormatDuration trunc d = FormatInt ?n @ ''s''" using s assms(1) by (simp add: FormatDuration_def Let_def)
    moreover have "Second dvd d \<longrightarrow> ?n * Second = d"
    proof
      assume "Second dvd d"
      then obtain k where k: "d = k * Second" by (auto simp: dvd_def)
      moreover from this have "1 \<le> k" using assms(1) by simp
      ultimately have "trunc d = k" "1 \<le> k" using assms(2,3) by simp_all
      then show "?n * Second = d" using k by simp
    qed
    ultimately show ?thesis by (intro that [of ?n "''s''" Second]) simp_all
  qed
  moreover have "FormatDuration trunc d \<noteq> ''0s''" unfolding r(1) by (rule FormatInt_pos [OF r(2)])
  ultimately show ?thesis by blast
qed

theorem FormatDuration_positive_witness:
  "\<exists>n unit suffix. FormatDuration (\<lambda>d. d div Second) (90 * Second) = FormatInt n @ suffix \<and> 1 \<le> n \<and>
    (suffix, unit) \<in> {(''h'', Hour), (''m'', Minute), (''s'', Second)} \<and>
    (Second dvd 90 * Second \<longrightarrow> n * unit = 90 * Second) \<and> FormatDuration (\<lambda>d. d div Second) (90 * Second) \<noteq> ''0s''"
  by (rule FormatDuration_positive) simp_all

end
