(* ===== verification/Routing.thy ===== *)
theory Routing
  imports QueryTable
begin

text \<open>
  The routing table and the fan-out merge: \<open>pkg/promql/backend.go\<close> and \<open>pkg/promql/fanout.go\<close>.

  \<open>TextLib\<close> holds what the validation asks of Go's text packages: whether \<open>strings.TrimSpace\<close> of a
  string is empty, and the scheme and host \<open>url.Parse\<close> finds. \<open>fp\<close> is \<open>Metric.Fingerprint\<close> of
  \<open>prometheus/common\<close>. float64 comparisons are parameters.

  The lemmas describe the tables \<open>NewTable\<close> accepts, which backends a query is sent to, and the merged
  vector: each series once, and independent of declaration and arrival order.
\<close>

section \<open>Backends\<close>

record Backend =
  be_name :: string
  be_url :: string
  be_families :: "Family list"
  be_zones :: "string list"
  be_username :: string
  be_password :: string

record TextLib =
  tl_blank :: "string \<Rightarrow> bool"
  tl_parseURL :: "string \<Rightarrow> (string \<times> string) option"

definition serves :: "Backend \<Rightarrow> Family \<Rightarrow> bool" where
  "serves b f = list_ex (\<lambda>have. have = f) (be_families b)"

definition coversZone :: "Backend \<Rightarrow> string list \<Rightarrow> bool" where
  "coversZone b az =
     (if length (be_zones b) = 0 then True
      else list_ex (\<lambda>want. want \<noteq> [] \<and> list_ex (\<lambda>have. have = want) (be_zones b)) az)"

section \<open>Tables\<close>

text \<open>A validated table is its backends in ascending name order; a nil table is \<open>None\<close>.\<close>

type_synonym Table = "Backend list"

datatype TableError =
    NoBackends
  | EmptyName
  | DuplicateName string
  | EmptyURL string
  | UnparseableURL string
  | BadScheme string string
  | NoHost string
  | NoFamilies string
  | UnknownFamily string Family
  | FamilyTwice string Family
  | EmptyZone string
  | FamilyUnserved Family

definition validateBackendURL :: "TextLib \<Rightarrow> string \<Rightarrow> string \<Rightarrow> TableError option" where
  "validateBackendURL lib name raw =
     (if tl_blank lib raw then Some (EmptyURL name)
      else case tl_parseURL lib raw of
        None \<Rightarrow> Some (UnparseableURL name)
      | Some (scheme, host) \<Rightarrow>
          if scheme \<noteq> ''http'' \<and> scheme \<noteq> ''https'' then Some (BadScheme name scheme)
          else if host = [] then Some (NoHost name)
          else None)"

text \<open>The loop over the families of one backend, with the map of served families.\<close>

fun checkFamilies :: "string \<Rightarrow> Family set \<Rightarrow> Family set \<Rightarrow> Family list \<Rightarrow> TableError + Family set" where
  "checkFamilies name seenFamily served [] = Inr served"
| "checkFamilies name seenFamily served (f # fs) =
     (case ParseFamily f of
        None \<Rightarrow> Inl (UnknownFamily name f)
      | Some _ \<Rightarrow>
          if f \<in> seenFamily then Inl (FamilyTwice name f)
          else checkFamilies name (insert f seenFamily) (insert f served) fs)"

fun dedupStep :: "string \<Rightarrow> string set \<times> string list \<Rightarrow> string set \<times> string list" where
  "dedupStep z (seen, zones) = (if z \<in> seen then (seen, zones) else (insert z seen, zones @ [z]))"

definition normaliseBackend :: "Backend \<Rightarrow> Backend" where
  "normaliseBackend b =
     b\<lparr> be_families := sort (be_families b),
        be_zones := sort (snd (fold dedupStep (be_zones b) ({}, []))) \<rparr>"

fun checkBackends ::
  "TextLib \<Rightarrow> string set \<Rightarrow> Family set \<Rightarrow> Backend list \<Rightarrow> Backend list \<Rightarrow> TableError + (Family set \<times> Backend list)"
where
  "checkBackends lib seenName served out [] = Inr (served, out)"
| "checkBackends lib seenName served out (b # bs) =
     (if tl_blank lib (be_name b) then Inl EmptyName
      else if be_name b \<in> seenName then Inl (DuplicateName (be_name b))
      else case validateBackendURL lib (be_name b) (be_url b) of
        Some err \<Rightarrow> Inl err
      | None \<Rightarrow>
          if length (be_families b) = 0 then Inl (NoFamilies (be_name b))
          else case checkFamilies (be_name b) {} served (be_families b) of
            Inl err \<Rightarrow> Inl err
          | Inr served' \<Rightarrow>
              if list_ex (tl_blank lib) (be_zones b) then Inl (EmptyZone (be_name b))
              else checkBackends lib (insert (be_name b) seenName) served' (out @ [normaliseBackend b]) bs)"

definition NewTable :: "TextLib \<Rightarrow> Backend list \<Rightarrow> TableError + Table" where
  "NewTable lib backends =
     (if length backends = 0 then Inl NoBackends
      else case checkBackends lib {} {} [] backends of
        Inl err \<Rightarrow> Inl err
      | Inr (served, out) \<Rightarrow>
         (case find (\<lambda>f. f \<notin> served) requiredFamilies of
            Some f \<Rightarrow> Inl (FamilyUnserved f)
          | None \<Rightarrow> Inr (sort_key be_name out)))"

definition Select :: "Table option \<Rightarrow> Family \<Rightarrow> string list \<Rightarrow> Backend list" where
  "Select t f az =
     (case t of
        None \<Rightarrow> []
      | Some backends \<Rightarrow>
         (let zoneRouted = AcceptsAZ f \<and> hasValue az
          in filter (\<lambda>b. serves b f \<and> (zoneRouted \<longrightarrow> coversZone b az)) backends))"

definition familyServed :: "Table option \<Rightarrow> Family \<Rightarrow> bool" where
  "familyServed t f = (t \<noteq> None \<and> length (Select t f []) > 0)"

definition Unserved :: "Table option \<Rightarrow> Family list" where
  "Unserved t =
     (case t of None \<Rightarrow> [] | Some _ \<Rightarrow> filter (\<lambda>f. Optional f \<and> \<not> familyServed t f) Families)"

definition SingleBackendTable :: "TextLib \<Rightarrow> string \<Rightarrow> string \<Rightarrow> string \<Rightarrow> TableError + Table" where
  "SingleBackendTable lib promURL username password =
     NewTable lib [\<lparr> be_name = ''default'', be_url = promURL, be_families = Families, be_zones = [],
       be_username = username, be_password = password \<rparr>]"

section \<open>Merging\<close>

record ('m, 'f) Sample =
  sm_metric :: 'm
  sm_value :: 'f

text \<open>
  A vector is a list of sample pointers, \<open>None\<close> a nil one. The loop state is \<open>out\<close>, the map from
  fingerprint to index in \<open>out\<close>, and the number of conflicts. \<open>eq\<close> and \<open>gt\<close> compare values.
\<close>

type_synonym ('m, 'f) Vector = "('m, 'f) Sample option list"

fun mergeStep ::
  "('f \<Rightarrow> 'f \<Rightarrow> bool) \<Rightarrow> ('f \<Rightarrow> 'f \<Rightarrow> bool) \<Rightarrow> ('m \<Rightarrow> 64 word) \<Rightarrow> bool \<Rightarrow> ('m, 'f) Sample option
     \<Rightarrow> ('m, 'f) Sample list \<times> (64 word, nat) gomap \<times> int \<Rightarrow> ('m, 'f) Sample list \<times> (64 word, nat) gomap \<times> int"
where
  "mergeStep eq gt fp keepMax None st = st"
| "mergeStep eq gt fp keepMax (Some s) (out, seen, conflicts) =
     (case gm_get seen (fp (sm_metric s)) of
        Some i \<Rightarrow>
          if \<not> eq (sm_value (out ! i)) (sm_value s) then
            (if keepMax \<and> gt (sm_value s) (sm_value (out ! i)) then out[i := s] else out, seen, conflicts + 1)
          else (out, seen, conflicts)
      | None \<Rightarrow> (out @ [s], gm_put (fp (sm_metric s)) (length out) seen, conflicts))"

definition mergeVectors ::
  "('f \<Rightarrow> 'f \<Rightarrow> bool) \<Rightarrow> ('f \<Rightarrow> 'f \<Rightarrow> bool) \<Rightarrow> ('m \<Rightarrow> 64 word) \<Rightarrow> ('m, 'f) Vector list \<Rightarrow> bool
     \<Rightarrow> ('m, 'f) Sample list \<times> int" where
  "mergeVectors eq gt fp parts keepMax =
     (let total = sum_list (map length parts) in
      if total = 0 then ([], 0)
      else case fold (\<lambda>part st. fold (mergeStep eq gt fp keepMax) part st) parts ([], [], 0) of
        (out, seen, conflicts) \<Rightarrow> (out, conflicts))"

section \<open>Fan-out\<close>

datatype 'e FanoutError =
    NoFamily Query
  | NoClient string
  | BackendFailed string 'e

text \<open>
  One leg: what backend \<open>b\<close> answers. \<open>ask\<close> gives the answer of the client of that name, \<open>clients\<close> the
  names with a client. \<open>order\<close> is the order in which the legs end; \<open>Wait\<close> returns the first error.
\<close>

definition legOf ::
  "string set \<Rightarrow> (string \<Rightarrow> 'e + ('m, 'f) Vector) \<Rightarrow> Backend \<Rightarrow> 'e FanoutError + ('m, 'f) Vector" where
  "legOf clients ask b =
     (if be_name b \<notin> clients then Inl (NoClient (be_name b))
      else case ask (be_name b) of Inl e \<Rightarrow> Inl (BackendFailed (be_name b) e) | Inr v \<Rightarrow> Inr v)"

definition issue ::
  "('f \<Rightarrow> 'f \<Rightarrow> bool) \<Rightarrow> ('f \<Rightarrow> 'f \<Rightarrow> bool) \<Rightarrow> ('m \<Rightarrow> 64 word) \<Rightarrow> (Backend list \<Rightarrow> Backend list) \<Rightarrow> Table option \<Rightarrow> string set
     \<Rightarrow> string list \<Rightarrow> Family \<Rightarrow> (string \<Rightarrow> 'e + ('m, 'f) Vector) \<Rightarrow> 'e FanoutError + ('m, 'f) Sample list" where
  "issue eq gt fp order t clients az fam ask =
     (let selected = Select t fam az in
      if length selected = 0 then Inr []
      else case List.map_filter (\<lambda>b. case legOf clients ask b of Inl e \<Rightarrow> Some e | Inr _ \<Rightarrow> None) (order selected) of
        e # _ \<Rightarrow> Inl e
      | [] \<Rightarrow>
          let parts = List.map_filter (\<lambda>b. case legOf clients ask b of Inl _ \<Rightarrow> None | Inr v \<Rightarrow> Some v) selected
          in Inr (fst (mergeVectors eq gt fp parts (fam = FamilyAlerts))))"

definition fanoutInstant ::
  "('f \<Rightarrow> 'f \<Rightarrow> bool) \<Rightarrow> ('f \<Rightarrow> 'f \<Rightarrow> bool) \<Rightarrow> ('m \<Rightarrow> 64 word) \<Rightarrow> (Backend list \<Rightarrow> Backend list) \<Rightarrow> Table option \<Rightarrow> string set
     \<Rightarrow> string list \<Rightarrow> Query \<Rightarrow> (string \<Rightarrow> 'e + ('m, 'f) Vector) \<Rightarrow> 'e FanoutError + ('m, 'f) Sample list" where
  "fanoutInstant eq gt fp order t clients az name ask =
     (case FamilyOf name of
        None \<Rightarrow> Inl (NoFamily name)
      | Some fam \<Rightarrow> issue eq gt fp order t clients az fam ask)"

section \<open>Accepted tables\<close>

definition backend_valid :: "TextLib \<Rightarrow> Backend \<Rightarrow> bool" where
  "backend_valid lib b \<longleftrightarrow>
     \<not> tl_blank lib (be_name b) \<and> validateBackendURL lib (be_name b) (be_url b) = None \<and>
     be_families b \<noteq> [] \<and> distinct (be_families b) \<and> set (be_families b) \<subseteq> set Families \<and>
     (\<forall>z\<in>set (be_zones b). \<not> tl_blank lib z)"

lemma ParseFamily_None: "ParseFamily f = None \<longleftrightarrow> f \<notin> set Families"
  unfolding ParseFamily_def find_None_iff by (simp only: eq_commute [of f]) blast

lemma ParseFamily_Some: "ParseFamily f = Some g \<Longrightarrow> g = f"
  unfolding ParseFamily_def by (auto dest!: find_SomeD)

lemma checkFamilies_Inr:
  "checkFamilies name seen served fs = Inr r \<longleftrightarrow>
     set fs \<subseteq> set Families \<and> distinct fs \<and> set fs \<inter> seen = {} \<and> r = served \<union> set fs"
proof (induction fs arbitrary: seen served)
  case (Cons f fs)
  then show ?case
    by (cases "ParseFamily f") (auto simp: ParseFamily_None [symmetric] dest: ParseFamily_Some)
qed auto

lemma checkBackends_Inr:
  "checkBackends lib seen served out bs = Inr (served', out') \<longleftrightarrow>
     (\<forall>b\<in>set bs. backend_valid lib b) \<and> distinct (map be_name bs) \<and> be_name ` set bs \<inter> seen = {} \<and>
     served' = served \<union> (\<Union>b\<in>set bs. set (be_families b)) \<and> out' = out @ map normaliseBackend bs"
proof (induction bs arbitrary: seen served out)
  case Nil
  show ?case by auto
next
  case (Cons b bs)
  show ?case
  proof (cases "\<not> tl_blank lib (be_name b) \<and> be_name b \<notin> seen \<and> validateBackendURL lib (be_name b) (be_url b) = None
      \<and> be_families b \<noteq> [] \<and> \<not> list_ex (tl_blank lib) (be_zones b)")
    case False
    then show ?thesis
      by (auto simp: backend_valid_def list_ex_iff split: option.splits sum.splits)
  next
    case True
    show ?thesis
    proof (cases "checkFamilies (be_name b) {} served (be_families b)")
      case (Inl err)
      then have "\<not> (set (be_families b) \<subseteq> set Families \<and> distinct (be_families b))"
        using checkFamilies_Inr [of "be_name b" "{}" served "be_families b" "served \<union> set (be_families b)"] by auto
      then show ?thesis using True Inl by (auto simp: backend_valid_def)
    next
      case (Inr r)
      then have f: "set (be_families b) \<subseteq> set Families" "distinct (be_families b)" "r = served \<union> set (be_families b)"
        unfolding checkFamilies_Inr by auto
      have step: "checkBackends lib seen served out (b # bs)
          = checkBackends lib (insert (be_name b) seen) r (out @ [normaliseBackend b]) bs"
        using True Inr by (simp add: list_ex_iff)
      have "backend_valid lib b" using True f by (auto simp: backend_valid_def list_ex_iff)
      then show ?thesis unfolding step Cons.IH using True f(3) by auto
    qed
  qed
qed

lemma NewTable_Inr:
  "NewTable lib bs = Inr t \<longleftrightarrow>
     bs \<noteq> [] \<and> (\<forall>b\<in>set bs. backend_valid lib b) \<and> distinct (map be_name bs) \<and>
     set requiredFamilies \<subseteq> (\<Union>b\<in>set bs. set (be_families b)) \<and>
     t = sort_key be_name (map normaliseBackend bs)"
proof (cases "checkBackends lib {} {} [] bs")
  case (Inl err)
  then have "\<not> ((\<forall>b\<in>set bs. backend_valid lib b) \<and> distinct (map be_name bs))"
    using checkBackends_Inr [of lib "{}" "{}" "[]" bs] by auto
  then show ?thesis using Inl by (auto simp: NewTable_def)
next
  case (Inr r)
  obtain served out where r: "r = (served, out)" by (cases r)
  have c: "\<forall>b\<in>set bs. backend_valid lib b" "distinct (map be_name bs)"
    "served = (\<Union>b\<in>set bs. set (be_families b))" "out = map normaliseBackend bs"
    using Inr unfolding r checkBackends_Inr by auto
  have "find (\<lambda>f. f \<notin> served) requiredFamilies = None \<longleftrightarrow> set requiredFamilies \<subseteq> served"
    by (auto simp: find_None_iff)
  then show ?thesis using Inr c unfolding NewTable_def r
    by (cases "find (\<lambda>f. f \<notin> served) requiredFamilies") auto
qed

lemma dedup_fold:
  "distinct out \<Longrightarrow> set out = seen \<Longrightarrow> fold dedupStep zs (seen, out) = (seen', out') \<Longrightarrow>
   distinct out' \<and> set out' = seen \<union> set zs"
proof (induction zs arbitrary: seen out)
  case (Cons z zs)
  show ?case
  proof (cases "z \<in> seen")
    case True
    with Cons.IH [OF Cons.prems(1,2)] Cons.prems(3) show ?thesis by auto
  next
    case False
    with Cons.IH [of "out @ [z]" "insert z seen"] Cons.prems show ?thesis by auto
  qed
qed auto

lemma normaliseBackend_zones: "be_zones (normaliseBackend b) = sorted_list_of_set (set (be_zones b))"
proof (cases "fold dedupStep (be_zones b) ({}, [])")
  case (Pair seen out)
  with dedup_fold [of "[]" "{}"] have "distinct out" "set out = set (be_zones b)" by auto
  then show ?thesis using Pair
    by (simp add: normaliseBackend_def) (metis distinct_remdups_id sorted_list_of_set_sort_remdups)
qed

lemma normaliseBackend_sel [simp]:
  "be_name (normaliseBackend b) = be_name b" "be_url (normaliseBackend b) = be_url b"
  "be_families (normaliseBackend b) = sort (be_families b)"
  "be_username (normaliseBackend b) = be_username b" "be_password (normaliseBackend b) = be_password b"
  by (simp_all add: normaliseBackend_def)

lemma serves_iff: "serves b f \<longleftrightarrow> f \<in> set (be_families b)"
  by (auto simp: serves_def list_ex_iff)

lemma coversZone_iff: "coversZone b az \<longleftrightarrow> be_zones b = [] \<or> (\<exists>z\<in>set az. z \<noteq> [] \<and> z \<in> set (be_zones b))"
  by (auto simp: coversZone_def list_ex_iff)

text \<open>A backend as declared, up to the order and repetition of its set-valued fields.\<close>

definition declared :: "Backend \<Rightarrow> string \<times> string \<times> Family multiset \<times> string set \<times> string \<times> string" where
  "declared b = (be_name b, be_url b, mset (be_families b), set (be_zones b), be_username b, be_password b)"

lemma normaliseBackend_declared:
  assumes "declared b = declared b'"
  shows "normaliseBackend b = normaliseBackend b'"
proof (rule Backend.equality)
  have "mset (be_families b) = mset (be_families b')" using assms by (simp add: declared_def)
  then show "be_families (normaliseBackend b) = be_families (normaliseBackend b')"
    unfolding normaliseBackend_sel by (rule sort_perm)
  show "be_zones (normaliseBackend b) = be_zones (normaliseBackend b')"
    using assms by (simp add: normaliseBackend_zones declared_def)
qed (use assms in \<open>simp_all add: declared_def\<close>)

lemma backend_valid_declared: "declared b = declared b' \<Longrightarrow> backend_valid lib b \<longleftrightarrow> backend_valid lib b'"
  unfolding backend_valid_def declared_def
  by (auto dest: mset_eq_setD mset_eq_imp_distinct_iff simp: set_mset_mset [symmetric] simp del: set_mset_mset)

lemma legOf_Inr: "legOf clients ask b = Inr p \<longleftrightarrow> be_name b \<in> clients \<and> ask (be_name b) = Inr p"
  by (auto simp: legOf_def split: sum.split)

lemma legOf_Inl: "legOf clients ask b = Inl e \<longleftrightarrow>
     be_name b \<notin> clients \<and> e = NoClient (be_name b) \<or>
     be_name b \<in> clients \<and> (\<exists>err. ask (be_name b) = Inl err \<and> e = BackendFailed (be_name b) err)"
  by (auto simp: legOf_def split: sum.split)

section \<open>The merged vector\<close>

definition inOrder :: "'a list \<Rightarrow> 'a list" where
  "inOrder xs = fold (\<lambda>x acc. if x \<in> set acc then acc else acc @ [x]) xs []"

lemma inOrder_snoc: "inOrder (xs @ [x]) = (if x \<in> set (inOrder xs) then inOrder xs else inOrder xs @ [x])"
  by (simp add: inOrder_def)

lemma inOrder_set [simp]: "set (inOrder xs) = set xs" and inOrder_distinct [simp]: "distinct (inOrder xs)"
proof -
  have "set (inOrder xs) = set xs \<and> distinct (inOrder xs)"
  proof (induction xs rule: rev_induct)
    case Nil
    show ?case by (simp add: inOrder_def)
  next
    case (snoc x xs)
    then show ?case by (auto simp: inOrder_snoc)
  qed
  then show "set (inOrder xs) = set xs" "distinct (inOrder xs)" by auto
qed

definition fpOf :: "('m \<Rightarrow> 64 word) \<Rightarrow> ('m, 'f) Sample \<Rightarrow> 64 word" where
  "fpOf fp s = fp (sm_metric s)"

text \<open>The copy of a series that survives: the first, or with \<open>keepMax\<close> the first of greatest value.\<close>

definition better :: "bool \<Rightarrow> ('m, 'f::linorder) Sample \<Rightarrow> ('m, 'f) Sample \<Rightarrow> ('m, 'f) Sample" where
  "better keepMax s b = (if keepMax \<and> sm_value s > sm_value b then s else b)"

fun bestOf :: "bool \<Rightarrow> ('m, 'f::linorder) Sample list \<Rightarrow> ('m, 'f) Sample" where
  "bestOf keepMax (s # ss) = fold (better keepMax) ss s"

definition copies :: "('m \<Rightarrow> 64 word) \<Rightarrow> ('m, 'f) Sample list \<Rightarrow> 64 word \<Rightarrow> ('m, 'f) Sample list" where
  "copies fp ss f = filter (\<lambda>s. fpOf fp s = f) ss"

definition merged :: "bool \<Rightarrow> ('m \<Rightarrow> 64 word) \<Rightarrow> ('m, 'f::linorder) Sample list \<Rightarrow> ('m, 'f) Sample list" where
  "merged keepMax fp ss = map (\<lambda>f. bestOf keepMax (copies fp ss f)) (inOrder (map (fpOf fp) ss))"

lemma bestOf_snoc: "ss \<noteq> [] \<Longrightarrow> bestOf keepMax (ss @ [s]) = better keepMax s (bestOf keepMax ss)"
  by (cases ss) simp_all

lemma bestOf_in: "ss \<noteq> [] \<Longrightarrow> bestOf keepMax ss \<in> set ss"
proof (induction ss rule: rev_induct)
  case (snoc s ss)
  then show ?case by (cases "ss = []") (auto simp: bestOf_snoc better_def simp del: bestOf.simps, simp)
qed simp

lemma bestOf_first: "ss \<noteq> [] \<Longrightarrow> bestOf False ss = hd ss"
proof (induction ss rule: rev_induct)
  case (snoc s ss)
  then show ?case by (cases "ss = []") (simp_all add: bestOf_snoc better_def)
qed simp

lemma bestOf_max: "s \<in> set ss \<Longrightarrow> sm_value s \<le> sm_value (bestOf True ss)"
proof (induction ss arbitrary: s rule: rev_induct)
  case (snoc x ss)
  show ?case
  proof (cases "ss = []")
    case False
    then show ?thesis using snoc by (fastforce simp: bestOf_snoc better_def)
  qed (use snoc.prems in simp)
qed simp

lemma copies_snoc: "copies fp (ss @ [s]) f = (if f = fpOf fp s then copies fp ss f @ [s] else copies fp ss f)"
  by (auto simp: copies_def)

lemma copies_Nil: "copies fp ss f = [] \<longleftrightarrow> f \<notin> fpOf fp ` set ss"
  by (auto simp: copies_def filter_empty_conv)

lemma bestOf_copies:
  assumes "f \<in> fpOf fp ` set ss"
  shows "bestOf keepMax (copies fp ss f) \<in> set ss \<and> fpOf fp (bestOf keepMax (copies fp ss f)) = f"
proof -
  have "bestOf keepMax (copies fp ss f) \<in> set (copies fp ss f)"
    using assms by (intro bestOf_in) (simp add: copies_Nil)
  then show ?thesis by (simp add: copies_def)
qed

lemma bestOf_copies_in [simp]:
  assumes "s \<in> set ss"
  shows "bestOf keepMax (copies fp ss (fpOf fp s)) \<in> set ss"
    and "fpOf fp (bestOf keepMax (copies fp ss (fpOf fp s))) = fpOf fp s"
  using bestOf_copies [of "fpOf fp s" fp ss keepMax] assms by simp_all

definition mergeInv ::
  "bool \<Rightarrow> ('m \<Rightarrow> 64 word) \<Rightarrow> ('m, 'f::linorder) Sample list \<Rightarrow> ('m, 'f) Sample list \<times> (64 word, nat) gomap \<times> int \<Rightarrow> bool"
where
  "mergeInv keepMax fp ss st \<longleftrightarrow>
     (case st of (out, seen, conflicts) \<Rightarrow>
       out = merged keepMax fp ss \<and>
       (\<forall>f i. gm_get seen f = Some i \<longleftrightarrow> i < length out \<and> inOrder (map (fpOf fp) ss) ! i = f))"

lemma map_fun_upd_distinct:
  assumes "distinct ks" and "i < length ks"
  shows "map (f(ks ! i := v)) ks = (map f ks)[i := v]"
  using assms by (intro nth_equalityI) (auto simp: nth_eq_iff_index_eq nth_list_update)

lemma mergeStep_inv:
  assumes "mergeInv keepMax fp ss st"
  shows "mergeInv keepMax fp (ss @ [s]) (mergeStep (=) (>) fp keepMax (Some s) st)"
proof -
  obtain out seen conflicts where st: "st = (out, seen, conflicts)" by (cases st)
  let ?ks = "inOrder (map (fpOf fp) ss)" and ?f = "fpOf fp s"
  have out: "out = merged keepMax fp ss" and len: "length out = length ?ks"
    and seen: "\<And>f i. gm_get seen f = Some i \<longleftrightarrow> i < length out \<and> ?ks ! i = f"
    using assms by (auto simp: mergeInv_def st merged_def)
  show ?thesis
  proof (cases "gm_get seen ?f")
    case None
    have new: "?f \<notin> set ?ks" using None seen [of ?f] len by (auto simp: in_set_conv_nth simp del: inOrder_set)
    then have cp: "copies fp ss ?f = []" by (simp add: copies_Nil)
    have "merged keepMax fp (ss @ [s]) = out @ [s]"
    proof -
      have "map (\<lambda>f. bestOf keepMax (copies fp (ss @ [s]) f)) ?ks = map (\<lambda>f. bestOf keepMax (copies fp ss f)) ?ks"
        using new by (intro map_cong refl) (auto simp: copies_snoc simp del: inOrder_set)
      then show ?thesis using new cp by (simp add: merged_def inOrder_snoc out copies_snoc del: inOrder_set)
    qed
    moreover have ks: "inOrder (map (fpOf fp) (ss @ [s])) = ?ks @ [?f]" using new by (simp add: inOrder_snoc)
    moreover have "i < length ?ks \<Longrightarrow> ?ks ! i \<noteq> ?f" for i using new by (metis nth_mem)
    ultimately show ?thesis
      using None seen len
      by (auto simp: mergeInv_def st fpOf_def [symmetric] nth_append less_Suc_eq simp del: inOrder_set)
  next
    case (Some i)
    then have i: "i < length ?ks" "?ks ! i = ?f" using seen [of ?f i] len by auto
    then have old: "?f \<in> set ?ks" by (metis nth_mem)
    then have "copies fp ss ?f \<noteq> []" by (simp add: copies_Nil)
    then have best: "bestOf keepMax (copies fp (ss @ [s]) ?f) = better keepMax s (out ! i)"
      using i len by (simp add: copies_snoc bestOf_snoc out merged_def)
    let ?g = "\<lambda>f. bestOf keepMax (copies fp ss f)"
    have ks: "inOrder (map (fpOf fp) (ss @ [s])) = ?ks" using old by (simp add: inOrder_snoc)
    have "(\<lambda>f. bestOf keepMax (copies fp (ss @ [s]) f)) = ?g(?ks ! i := better keepMax s (out ! i))"
      using best i(2) by (auto simp: copies_snoc fun_eq_iff)
    then have "merged keepMax fp (ss @ [s]) = map (?g(?ks ! i := better keepMax s (out ! i))) ?ks"
      unfolding merged_def ks by simp
    also have "\<dots> = out[i := better keepMax s (out ! i)]"
      using map_fun_upd_distinct [of ?ks i ?g] i(1) by (simp add: out merged_def)
    finally have "merged keepMax fp (ss @ [s]) = out[i := better keepMax s (out ! i)]" .
    moreover have "\<exists>n. mergeStep (=) (>) fp keepMax (Some s) st = (out[i := better keepMax s (out ! i)], seen, n)"
      using Some [unfolded fpOf_def] by (auto simp: st better_def)
    moreover have "length (out[i := better keepMax s (out ! i)]) = length out" by simp
    ultimately show ?thesis using seen ks by (auto simp: mergeInv_def simp del: length_list_update)
  qed
qed

definition samplesOf :: "('m, 'f) Vector list \<Rightarrow> ('m, 'f) Sample list" where
  "samplesOf parts = List.map_filter id (concat parts)"

lemma merge_fold:
  "mergeInv keepMax fp ss st \<Longrightarrow>
   mergeInv keepMax fp (ss @ List.map_filter id xs) (fold (mergeStep (=) (>) fp keepMax) xs st)"
proof (induction xs arbitrary: ss st)
  case (Cons x xs)
  show ?case
  proof (cases x)
    case None
    with Cons show ?thesis by simp
  next
    case (Some s)
    from Cons.IH [OF mergeStep_inv [OF Cons.prems, of s]] Some show ?thesis by simp
  qed
qed simp

lemma mergeVectors_merged:
  "fst (mergeVectors (=) (>) fp parts keepMax) = merged keepMax fp (samplesOf parts)"
proof -
  have flat: "fold (\<lambda>part st. fold h part st) parts st = fold h (concat parts) st"
    for h :: "('a, 'b) Sample option \<Rightarrow> 'c \<Rightarrow> 'c" and st
    by (induction parts arbitrary: st) simp_all
  have "mergeInv keepMax fp [] ([], [], 0)"
    by (simp add: mergeInv_def merged_def inOrder_def)
  from merge_fold [OF this, of "concat parts"]
  have "fst (fold (mergeStep (=) (>) fp keepMax) (concat parts) ([], [], 0)) = merged keepMax fp (samplesOf parts)"
    by (auto simp: mergeInv_def samplesOf_def)
  moreover have "samplesOf parts = []" if "sum_list (map length parts) = 0"
  proof -
    have "concat parts = []" using that by simp
    then show ?thesis by (simp add: samplesOf_def del: concat_eq_Nil_conv)
  qed
  ultimately show ?thesis
    by (auto simp: mergeVectors_def Let_def flat merged_def inOrder_def split: prod.splits)
qed

lemma merged_set: "s \<in> set (merged keepMax fp ss) \<Longrightarrow> s \<in> set ss"
  by (auto simp: merged_def)

lemma merged_fps: "map (fpOf fp) (merged keepMax fp ss) = inOrder (map (fpOf fp) ss)"
  by (auto simp: merged_def comp_def intro!: map_idI)

lemma merged_fp_set: "fpOf fp ` set (merged keepMax fp ss) = fpOf fp ` set ss"
proof -
  have "set (map (fpOf fp) (merged keepMax fp ss)) = set (map (fpOf fp) ss)" unfolding merged_fps by simp
  then show ?thesis by simp
qed

lemma merged_member:
  "s \<in> set (merged keepMax fp ss) \<Longrightarrow> s = bestOf keepMax (copies fp ss (fpOf fp s))"
  by (auto simp: merged_def)

lemma merged_max:
  assumes "s \<in> set (merged True fp ss)" and "s' \<in> set ss" and "fpOf fp s' = fpOf fp s"
  shows "sm_value s' \<le> sm_value s"
  using merged_member [OF assms(1)] bestOf_max [of s' "copies fp ss (fpOf fp s)"] assms(2,3)
  by (simp add: copies_def)

lemma merged_first:
  assumes "s \<in> set (merged False fp ss)"
  shows "find (\<lambda>s'. fpOf fp s' = fpOf fp s) ss = Some s"
proof -
  have ne: "copies fp ss (fpOf fp s) \<noteq> []" using merged_set [OF assms] by (auto simp: copies_Nil)
  then have "hd (copies fp ss (fpOf fp s)) = s" using merged_member [OF assms] bestOf_first by metis
  moreover have "filter P xs \<noteq> [] \<Longrightarrow> find P xs = Some (hd (filter P xs))" for P and xs :: "('a, 'b) Sample list"
    by (induction xs) auto
  ultimately show ?thesis using ne by (simp add: copies_def)
qed

text \<open>The values served for each series.\<close>

definition valuesOf :: "('m \<Rightarrow> 64 word) \<Rightarrow> ('m, 'f) Sample list \<Rightarrow> (64 word \<times> 'f) set" where
  "valuesOf fp ss = (\<lambda>s. (fpOf fp s, sm_value s)) ` set ss"

lemma merged_max_values:
  "valuesOf fp (merged True fp ss)
     = {(f, v). (\<exists>s\<in>set ss. fpOf fp s = f \<and> sm_value s = v) \<and> (\<forall>s\<in>set ss. fpOf fp s = f \<longrightarrow> sm_value s \<le> v)}"
proof -
  have "\<exists>s\<in>set (merged True fp ss). fpOf fp s = f" if "f \<in> fpOf fp ` set ss" for f
  proof -
    have "f \<in> set (map (fpOf fp) (merged True fp ss))" using that by (simp add: merged_fps)
    then show ?thesis by auto
  qed
  then show ?thesis
    using merged_set [of _ True fp ss] merged_max [of _ fp ss]
    unfolding valuesOf_def by (auto simp: image_iff) (metis order_antisym)
qed

section \<open>Properties\<close>

text \<open>
  \<open>NewTable\<close> accepts exactly the well-formed declarations - at least one backend, names non-blank and
  distinct, an http or https url with a host, known families each once, no blank zone, every required
  family served somewhere - and the table it returns is those backends normalised, in name order.
\<close>

theorem NewTable_accepts:
  "NewTable lib bs = Inr t \<longleftrightarrow>
     bs \<noteq> [] \<and> distinct (map be_name bs) \<and>
     (\<forall>b\<in>set bs. \<not> tl_blank lib (be_name b) \<and> \<not> tl_blank lib (be_url b) \<and>
        (\<exists>scheme host. tl_parseURL lib (be_url b) = Some (scheme, host) \<and> scheme \<in> {''http'', ''https''} \<and> host \<noteq> []) \<and>
        be_families b \<noteq> [] \<and> distinct (be_families b) \<and> set (be_families b) \<subseteq> set Families \<and>
        (\<forall>z\<in>set (be_zones b). \<not> tl_blank lib z)) \<and>
     (\<forall>f\<in>set requiredFamilies. \<exists>b\<in>set bs. f \<in> set (be_families b)) \<and>
     mset t = mset (map normaliseBackend bs) \<and> sorted (map be_name t)"
proof -
  have url: "validateBackendURL lib (be_name b) (be_url b) = None \<longleftrightarrow> \<not> tl_blank lib (be_url b) \<and>
      (\<exists>scheme host. tl_parseURL lib (be_url b) = Some (scheme, host) \<and> scheme \<in> {''http'', ''https''} \<and> host \<noteq> [])" for b
    by (auto simp: validateBackendURL_def split: option.splits prod.splits)
  have cover: "set requiredFamilies \<subseteq> (\<Union>b\<in>set bs. set (be_families b)) \<longleftrightarrow>
      (\<forall>f\<in>set requiredFamilies. \<exists>b\<in>set bs. f \<in> set (be_families b))" by blast
  have sorted: "t = sort_key be_name (map normaliseBackend bs) \<longleftrightarrow>
      mset t = mset (map normaliseBackend bs) \<and> sorted (map be_name t)" if "distinct (map be_name bs)"
    using sk.srt_unique [of t "map normaliseBackend bs" be_name] that by (auto simp: comp_def)
  show ?thesis unfolding NewTable_Inr backend_valid_def url cover using sorted by blast
qed

definition exLib :: TextLib where
  "exLib = \<lparr> tl_blank = (\<lambda>s. list_all (\<lambda>c. c = CHR '' '') s), tl_parseURL = (\<lambda>s. Some (''http'', s)) \<rparr>"

definition exBackends :: "Backend list" where
  "exBackends =
     [\<lparr> be_name = ''main'', be_url = ''vm:8428'', be_families = Families, be_zones = [], be_username = [], be_password = [] \<rparr>,
      \<lparr> be_name = ''edge'', be_url = ''vm2'', be_families = [FamilyHarvest, FamilyAlerts], be_zones = [''z2'', ''z1'', ''z2''],
        be_username = ''u'', be_password = ''p'' \<rparr>]"

theorem NewTable_accepts_witness:
  "\<exists>t. NewTable exLib exBackends = Inr t \<and> map be_name t = [''edge'', ''main''] \<and>
     mset t = mset (map normaliseBackend exBackends)"
proof -
  define t where "t = sort_key be_name (map normaliseBackend exBackends)"
  have acc: "NewTable exLib exBackends = Inr t" unfolding t_def by code_simp
  moreover from iffD1 [OF NewTable_accepts acc] have "mset t = mset (map normaliseBackend exBackends)"
    by (elim conjE)
  moreover have "map be_name t = [''edge'', ''main'']" unfolding t_def by code_simp
  ultimately show ?thesis by (intro exI [of _ t] conjI)
qed

text \<open>
  The routing table does not depend on how it is declared: permuting the backends, the families or
  the zones, or repeating a zone, gives the same table.
\<close>

theorem NewTable_canonical:
  assumes "mset (map declared bs) = mset (map declared bs')" and "NewTable lib bs = Inr t"
  shows "NewTable lib bs' = Inr t"
proof -
  define valid where "valid = (\<lambda>d. \<exists>b. declared b = d \<and> backend_valid lib b)"
  have valid: "backend_valid lib b \<longleftrightarrow> valid (declared b)" for b
    unfolding valid_def using backend_valid_declared by blast
  define norm where "norm = (\<lambda>d. normaliseBackend (SOME b. declared b = d))"
  have norm: "normaliseBackend b = norm (declared b)" for b
    unfolding norm_def by (rule normaliseBackend_declared) (metis (mono_tags, lifting) someI)
  have sets: "declared ` set bs = declared ` set bs'" using mset_eq_setD [OF assms(1)] by simp
  have "map be_name xs = map fst (map declared xs)" for xs by (simp add: declared_def)
  then have names: "distinct (map be_name bs) \<longleftrightarrow> distinct (map be_name bs')"
    using assms(1) by (metis mset_map mset_eq_imp_distinct_iff)
  have flat: "(\<Union>b\<in>set xs. set (be_families b)) = \<Union> ((\<lambda>d. set_mset (fst (snd (snd d)))) ` declared ` set xs)" for xs
    unfolding image_image by (simp add: declared_def)
  have fams: "(\<Union>b\<in>set bs. set (be_families b)) = (\<Union>b\<in>set bs'. set (be_families b))"
    unfolding flat sets ..
  have "map normaliseBackend xs = map norm (map declared xs)" for xs by (simp add: norm)
  then have "mset (map normaliseBackend bs) = mset (map normaliseBackend bs')"
    using assms(1) by (metis mset_map)
  moreover have "distinct (map be_name (map normaliseBackend bs))"
    using assms(2) unfolding NewTable_Inr by (simp add: comp_def)
  ultimately have "sort_key be_name (map normaliseBackend bs) = sort_key be_name (map normaliseBackend bs')"
    by (rule sk.srt_order_free)
  note sorteq = this
  have allv: "(\<forall>b\<in>set xs. backend_valid lib b) \<longleftrightarrow> (\<forall>d\<in>declared ` set xs. valid d)" for xs
    by (simp add: valid)
  have "bs' \<noteq> []" using sets assms(2) unfolding NewTable_Inr by auto
  then show ?thesis
    using assms(2) [unfolded NewTable_Inr allv sets fams names sorteq] unfolding NewTable_Inr allv by blast
qed

theorem NewTable_canonical_witness:
  "NewTable exLib (rev exBackends) = NewTable exLib exBackends"
proof -
  obtain t where t: "NewTable exLib exBackends = Inr t" using NewTable_accepts_witness by blast
  have "NewTable exLib (rev exBackends) = Inr t"
    by (rule NewTable_canonical [OF _ t]) (simp add: exBackends_def)
  then show ?thesis using t by simp
qed

text \<open>
  Routing by zone. A query is sent to exactly the backends of its family, narrowed to those that
  hold a requested zone or every zone when the family is zone-routed and the request names a zone; so
  asking for two sets of zones at once reaches the union, a backend without zones is never left out,
  and in a table built by \<open>NewTable\<close> a query of a required family reaches some backend when no zone is named.
\<close>

theorem Select_routes:
  assumes "NewTable lib bs = Inr t"
  shows "(\<forall>b. b \<in> set (Select (Some t) f az) \<longleftrightarrow> b \<in> set t \<and> f \<in> set (be_families b) \<and>
        (AcceptsAZ f \<and> set az - {[]} \<noteq> {} \<longrightarrow> be_zones b = [] \<or> set (be_zones b) \<inter> (set az - {[]}) \<noteq> {})) \<and>
     (hasValue az \<and> hasValue az' \<longrightarrow>
        set (Select (Some t) f (az @ az')) = set (Select (Some t) f az) \<union> set (Select (Some t) f az')) \<and>
     (f \<in> set requiredFamilies \<longrightarrow> Select (Some t) f [] \<noteq> []) \<and>
     sorted (map be_name (Select (Some t) f az)) \<and> distinct (map be_name (Select (Some t) f az))"
proof -
  have t: "mset t = mset (map normaliseBackend bs)" "sorted (map be_name t)" "distinct (map be_name bs)"
    "\<forall>f\<in>set requiredFamilies. \<exists>b\<in>set bs. f \<in> set (be_families b)"
    using iffD1 [OF NewTable_accepts assms] by - (elim conjE, assumption)+
  have mem: "b \<in> set (Select (Some t) f az) \<longleftrightarrow> b \<in> set t \<and> f \<in> set (be_families b) \<and>
        (AcceptsAZ f \<and> set az - {[]} \<noteq> {} \<longrightarrow> be_zones b = [] \<or> set (be_zones b) \<inter> (set az - {[]}) \<noteq> {})" for b az
    by (auto simp: Select_def Let_def serves_iff coversZone_iff hasValue_iff)
  have "hasValue az \<and> hasValue az' \<longrightarrow>
      set (Select (Some t) f (az @ az')) = set (Select (Some t) f az) \<union> set (Select (Some t) f az')"
    unfolding set_eq_iff Un_iff mem by (auto simp: hasValue_iff)
  moreover have "Select (Some t) f [] \<noteq> []" if "f \<in> set requiredFamilies"
  proof -
    from t(4) that obtain b where "b \<in> set bs" "f \<in> set (be_families b)" by blast
    then have "normaliseBackend b \<in> set (Select (Some t) f [])"
      unfolding mem using mset_eq_setD [OF t(1)] by simp
    then show ?thesis by auto
  qed
  moreover have "distinct (map be_name t)"
    using t(1,3) by (metis (no_types, lifting) comp_apply list.map_comp list.map_cong mset_eq_imp_distinct_iff
        mset_map normaliseBackend_sel(1))
  then have "distinct (map be_name (Select (Some t) f az))" "sorted (map be_name (Select (Some t) f az))"
    using t(2) by (simp_all add: Select_def Let_def distinct_map_filter sorted_filter)
  ultimately show ?thesis using mem by blast
qed

theorem Select_routes_witness:
  "\<exists>t. NewTable exLib exBackends = Inr t \<and> Select (Some t) FamilyProbe [] \<noteq> []"
proof -
  obtain t where t: "NewTable exLib exBackends = Inr t" using NewTable_accepts_witness by blast
  have "FamilyProbe \<in> set requiredFamilies" by code_simp
  with Select_routes [OF t, of FamilyProbe "[]" "[]"] t show ?thesis by blast
qed

text \<open>
  C25: the merged vector. Each series that some backend returned appears exactly once, in order of first
  appearance, and its sample is one that a backend returned: the first copy, or for the alerts family
  the copy of greatest value. For the alerts family the values served therefore do not depend on which
  backend holds which copy. Values are linearly ordered here: NaN samples are outside the statement.
\<close>

theorem mergeVectors_spec:
  fixes parts :: "('m, 'f::linorder) Vector list"
  assumes "mset (concat parts) = mset (concat parts')"
  shows "map (fpOf fp) (fst (mergeVectors (=) (>) fp parts keepMax)) = inOrder (map (fpOf fp) (samplesOf parts)) \<and>
     (\<forall>s\<in>set (fst (mergeVectors (=) (>) fp parts keepMax)). s \<in> set (samplesOf parts)) \<and>
     (\<forall>s\<in>set (fst (mergeVectors (=) (>) fp parts False)).
        find (\<lambda>s'. fpOf fp s' = fpOf fp s) (samplesOf parts) = Some s) \<and>
     (\<forall>s\<in>set (fst (mergeVectors (=) (>) fp parts True)). \<forall>s'\<in>set (samplesOf parts).
        fpOf fp s' = fpOf fp s \<longrightarrow> sm_value s' \<le> sm_value s) \<and>
     valuesOf fp (fst (mergeVectors (=) (>) fp parts True)) = valuesOf fp (fst (mergeVectors (=) (>) fp parts' True))"
proof -
  have "set (samplesOf ps) = {s. Some s \<in> set (concat ps)}" for ps :: "('m, 'f) Vector list"
    by (auto simp: samplesOf_def set_map_filter)
  then have "set (samplesOf parts) = set (samplesOf parts')" using mset_eq_setD [OF assms] by auto
  then have "valuesOf fp (merged True fp (samplesOf parts)) = valuesOf fp (merged True fp (samplesOf parts'))"
    unfolding merged_max_values by simp
  then show ?thesis
    unfolding mergeVectors_merged using merged_fps merged_set merged_first merged_max by blast
qed

definition exParts :: "(nat, int) Vector list" where
  "exParts = [[Some \<lparr> sm_metric = 1, sm_value = 5 \<rparr>, None], [Some \<lparr> sm_metric = 2, sm_value = 3 \<rparr>, Some \<lparr> sm_metric = 1, sm_value = 8 \<rparr>]]"

theorem mergeVectors_spec_witness:
  "valuesOf of_nat (fst (mergeVectors (=) (>) of_nat exParts True))
     = valuesOf of_nat (fst (mergeVectors (=) (>) of_nat (rev exParts) True)) \<and>
   map sm_value (fst (mergeVectors (=) (>) of_nat exParts True)) = [8, 3]"
proof
  have "mset (concat exParts) = mset (concat (rev exParts))" by (simp add: exParts_def)
  from mergeVectors_spec [OF this, of of_nat True]
  show "valuesOf of_nat (fst (mergeVectors (=) (>) of_nat exParts True))
     = valuesOf of_nat (fst (mergeVectors (=) (>) of_nat (rev exParts) True))" by blast
  show "map sm_value (fst (mergeVectors (=) (>) of_nat exParts True)) = [8, 3]" by code_simp
qed

text \<open>
  C26: a fan-out fails closed. It returns a vector only when every selected backend answered, and then
  the vector holds each series of each answer exactly once and nothing else; when a selected backend
  has no client or fails, the result is an error naming a selected backend that failed. The order in
  which the answers arrive changes at most which failure is named, never a vector.
\<close>

theorem issue_fails_closed:
  fixes ask :: "string \<Rightarrow> 'e + ('m, 'f::linorder) Vector"
  assumes "\<And>xs. set (order xs) = set xs" and "\<And>xs. set (order' xs) = set xs"
    and "r = issue (=) (>) fp order t clients az fam ask"
  shows "((\<exists>v. r = Inr v) \<longleftrightarrow> (\<forall>b\<in>set (Select t fam az). be_name b \<in> clients \<and> (\<exists>p. ask (be_name b) = Inr p))) \<and>
    (\<forall>v. r = Inr v \<longrightarrow> issue (=) (>) fp order' t clients az fam ask = Inr v \<and> distinct (map (fpOf fp) v) \<and>
       fpOf fp ` set v = {fpOf fp s | b p s. b \<in> set (Select t fam az) \<and> ask (be_name b) = Inr p \<and> Some s \<in> set p}) \<and>
    (\<forall>e. r = Inl e \<longrightarrow> (\<exists>b\<in>set (Select t fam az). e = NoClient (be_name b) \<or>
       (\<exists>err. ask (be_name b) = Inl err \<and> e = BackendFailed (be_name b) err)))"
proof -
  let ?sel = "Select t fam az" and ?leg = "legOf clients ask"
  let ?bad = "\<lambda>b. case ?leg b of Inl e \<Rightarrow> Some e | Inr _ \<Rightarrow> None"
  let ?parts = "List.map_filter (\<lambda>b. case ?leg b of Inl _ \<Rightarrow> None | Inr v \<Rightarrow> Some v) ?sel"
  have bad: "set (List.map_filter ?bad (o' ?sel)) = {e. \<exists>b\<in>set ?sel. ?leg b = Inl e}"
    if "\<And>xs. set (o' xs) = set xs" for o' :: "Backend list \<Rightarrow> Backend list"
  proof -
    have "?bad b = Some e \<longleftrightarrow> ?leg b = Inl e" for b e by (cases "?leg b") auto
    then show ?thesis unfolding set_map_filter that by simp
  qed
  have "(\<exists>e. ?leg b = Inl e) \<longleftrightarrow> \<not> (\<exists>p. ?leg b = Inr p)" for b by (cases "?leg b") auto
  then have all_ok: "{e. \<exists>b\<in>set ?sel. ?leg b = Inl e} = {} \<longleftrightarrow>
      (\<forall>b\<in>set ?sel. be_name b \<in> clients \<and> (\<exists>p. ask (be_name b) = Inr p))"
    unfolding legOf_Inr by blast
  have res: "issue (=) (>) fp o' t clients az fam ask =
      (case List.map_filter ?bad (o' ?sel) of e # _ \<Rightarrow> Inl e
       | [] \<Rightarrow> Inr (merged (fam = FamilyAlerts) fp (samplesOf ?parts)))" if "\<And>xs. set (o' xs) = set xs" for o'
    using that [of "[]"]
    by (auto simp: issue_def Let_def mergeVectors_merged merged_def samplesOf_def inOrder_def split: list.split)
  have parts: "set (samplesOf ?parts)
      = {s. \<exists>b p. b \<in> set ?sel \<and> ask (be_name b) = Inr p \<and> be_name b \<in> clients \<and> Some s \<in> set p}"
  proof -
    have "(case ?leg b of Inl _ \<Rightarrow> None | Inr v \<Rightarrow> Some v) = Some p \<longleftrightarrow> be_name b \<in> clients \<and> ask (be_name b) = Inr p"
      for b p by (cases "?leg b") (auto simp: legOf_Inr [symmetric])
    then show ?thesis by (auto simp: samplesOf_def set_map_filter)
  qed
  show ?thesis
  proof (cases "\<forall>b\<in>set ?sel. be_name b \<in> clients \<and> (\<exists>p. ask (be_name b) = Inr p)")
    case True
    then have none: "List.map_filter ?bad (o' ?sel) = []" if "\<And>xs. set (o' xs) = set xs" for o'
      using bad [OF that] all_ok by (metis set_empty)
    define M where "M = merged (fam = FamilyAlerts) fp (samplesOf ?parts)"
    have v: "r = Inr M" "issue (=) (>) fp order' t clients az fam ask = Inr M"
      unfolding assms(3) res [OF assms(1)] res [OF assms(2)] none [OF assms(1)] none [OF assms(2)] M_def
      by (simp_all only: list.case)
    have "fpOf fp ` set M = fpOf fp ` set (samplesOf ?parts)"
      unfolding M_def by (rule merged_fp_set)
    also have "\<dots> = {fpOf fp s | b p s. b \<in> set ?sel \<and> ask (be_name b) = Inr p \<and> Some s \<in> set p}"
      unfolding parts using True by blast
    finally have img: "fpOf fp ` set M = \<dots>" .
    have dist: "distinct (map (fpOf fp) M)" unfolding M_def by (simp add: merged_fps)
    show ?thesis
    proof (intro conjI allI impI)
      show "(\<exists>v. r = Inr v) \<longleftrightarrow> (\<forall>b\<in>set ?sel. be_name b \<in> clients \<and> (\<exists>p. ask (be_name b) = Inr p))"
        using v(1) True by blast
    next
      fix u
      assume "r = Inr u"
      then have u: "u = M" using v(1) by simp
      show "issue (=) (>) fp order' t clients az fam ask = Inr u" "distinct (map (fpOf fp) u)"
        "fpOf fp ` set u = {fpOf fp s | b p s. b \<in> set ?sel \<and> ask (be_name b) = Inr p \<and> Some s \<in> set p}"
        unfolding u by (fact v(2), fact dist, fact img)
    next
      fix e
      assume "r = Inl e"
      then show "\<exists>b\<in>set ?sel. e = NoClient (be_name b) \<or>
          (\<exists>err. ask (be_name b) = Inl err \<and> e = BackendFailed (be_name b) err)"
        using v(1) by simp
    qed
  next
    case False
    then have "set (List.map_filter ?bad (order ?sel)) \<noteq> {}" unfolding bad [OF assms(1)] all_ok .
    then obtain e es where e: "List.map_filter ?bad (order ?sel) = e # es"
      by (cases "List.map_filter ?bad (order ?sel)") simp_all
    then have r: "r = Inl e" unfolding assms(3) res [OF assms(1)] e by (simp only: list.case)
    have "e \<in> set (List.map_filter ?bad (order ?sel))" using e by simp
    then obtain b where "b \<in> set ?sel" "?leg b = Inl e" unfolding bad [OF assms(1)] by blast
    then show ?thesis using r False unfolding legOf_Inl by blast
  qed
qed

definition exAsk :: "string \<Rightarrow> string + (nat, int) Vector" where
  "exAsk b = (if b = ''main'' then Inr [Some \<lparr> sm_metric = 1, sm_value = 5 \<rparr>] else Inr [Some \<lparr> sm_metric = 1, sm_value = 8 \<rparr>])"

theorem issue_fails_closed_witness:
  "\<exists>t v. NewTable exLib exBackends = Inr t \<and>
     issue (=) (>) of_nat rev (Some t) {''main'', ''edge''} [''z1''] FamilyAlerts exAsk = Inr v \<and> map sm_value v = [8] \<and>
     issue (=) (>) of_nat id (Some t) {''main'', ''edge''} [''z1''] FamilyAlerts exAsk = Inr v"
proof -
  define t where "t = sort_key be_name (map normaliseBackend exBackends)"
  have acc: "NewTable exLib exBackends = Inr t" unfolding t_def by code_simp
  let ?r = "issue (=) (>) of_nat rev (Some t) {''main'', ''edge''} [''z1''] FamilyAlerts exAsk"
  define v where "v = (case ?r of Inr v \<Rightarrow> v | Inl _ \<Rightarrow> [])"
  have v: "?r = Inr v" unfolding v_def t_def by code_simp
  have "map sm_value v = [8]" unfolding v_def t_def by code_simp
  moreover have "issue (=) (>) of_nat id (Some t) {''main'', ''edge''} [''z1''] FamilyAlerts exAsk = Inr v"
    using issue_fails_closed [of rev id ?r of_nat "Some t" "{''main'', ''edge''}" "[''z1'']" FamilyAlerts exAsk] v by simp
  ultimately show ?thesis using acc v by (intro exI [of _ t] exI [of _ v] conjI)
qed

end
