(* ===== verification/QueryCache.thy ===== *)
theory QueryCache
  imports Prelude "HOL-Library.Word"
begin

text \<open>
  The least-recently-used cache of upstream results: \<open>pkg/promql/querycache.go\<close>.

  A list element is its address with its (immutable) entry; \<open>qc_ll\<close> is the linked list front first,
  \<open>qc_items\<close> the map from key to element. The mutex makes every method one step, so a run is a
  sequence of methods, each with the clock reading it makes. A nil cache is \<open>None\<close>, a nil vector
  \<open>None\<close>. Metrics calls are the fields \<open>qc_evictions\<close> and \<open>qc_series\<close>.

  \<open>lru\<close> is the abstract cache: keys with their vectors and expiry times, most recently used first.
  The lemmas show that the methods keep list, index and size consistent, refine the operations of the
  abstract cache, evict no more than needed, and only ever serve the last vector stored under a key.
\<close>

section \<open>State\<close>

record cacheKey =
  ck_store :: "64 word"
  ck_query :: string
  ck_ts :: "64 word"

record 's cacheEntry =
  ce_key :: cacheKey
  ce_vec :: "'s list"
  ce_cost :: int
  ce_expires :: int

type_synonym 's element = "nat \<times> 's cacheEntry"

record 's queryCache =
  qc_max :: int
  qc_ttl :: int
  qc_ll :: "'s element list"
  qc_items :: "(cacheKey, 's element) gomap"
  qc_size :: int
  qc_next :: nat
  qc_evictions :: nat
  qc_series :: int

abbreviation DefaultQueryCacheTTL :: int where "DefaultQueryCacheTTL \<equiv> 60 * 1000000000"

definition newQueryCache :: "int \<Rightarrow> int \<Rightarrow> 's queryCache option" where
  "newQueryCache maxSeries ttl =
     (if maxSeries \<le> 0 then None
      else Some \<lparr> qc_max = maxSeries, qc_ttl = (if ttl \<le> 0 then DefaultQueryCacheTTL else ttl), qc_ll = [],
                 qc_items = [], qc_size = 0, qc_next = 0, qc_evictions = 0, qc_series = 0 \<rparr>)"

text \<open>\<open>len(v)\<close> of a vector that may be nil.\<close>

definition entryCost :: "'s list option \<Rightarrow> int" where
  "entryCost v = max 1 (case v of None \<Rightarrow> 0 | Some xs \<Rightarrow> int (length xs))"

section \<open>Methods\<close>

definition removeLocked :: "'s element \<Rightarrow> 's queryCache \<Rightarrow> 's queryCache" where
  "removeLocked el c =
     c\<lparr> qc_ll := filter (\<lambda>x. fst x \<noteq> fst el) (qc_ll c),
        qc_items := gm_del (ce_key (snd el)) (qc_items c),
        qc_size := qc_size c - ce_cost (snd el) \<rparr>"

definition cacheGet :: "cacheKey \<Rightarrow> int \<Rightarrow> 's queryCache option \<Rightarrow> 's list option \<times> 's queryCache option" where
  "cacheGet k now cache =
     (case cache of
        None \<Rightarrow> (None, None)
      | Some c \<Rightarrow>
         (case gm_get (qc_items c) k of
            None \<Rightarrow> (None, Some c)
          | Some el \<Rightarrow>
              let e = snd el in
              if \<not> now < ce_expires e then
                (let c = removeLocked el c in (None, Some (c\<lparr> qc_series := qc_size c \<rparr>)))
              else
                (Some (ce_vec e), Some (c\<lparr> qc_ll := el # filter (\<lambda>x. fst x \<noteq> fst el) (qc_ll c) \<rparr>))))"

function evictLoop :: "int \<Rightarrow> 's queryCache \<Rightarrow> 's queryCache" where
  "evictLoop cost c =
     (if qc_size c + cost > qc_max c then
        (if qc_ll c = [] then c
         else (let c = removeLocked (last (qc_ll c)) c
               in evictLoop cost (c\<lparr> qc_evictions := qc_evictions c + 1 \<rparr>)))
      else c)"
  by pat_completeness auto
termination
proof (relation "measure (length \<circ> qc_ll \<circ> snd)")
  fix c :: "'s queryCache"
  assume ne: "qc_ll c \<noteq> []"
  have "length (filter (\<lambda>x. fst x \<noteq> fst (last (qc_ll c))) (qc_ll c)) < length (qc_ll c)"
    by (rule length_filter_less [of "last (qc_ll c)"]) (use ne in auto)
  then show "((cost, c'\<lparr> qc_evictions := qc_evictions c' + 1 \<rparr>), cost, c) \<in> measure (length \<circ> qc_ll \<circ> snd)"
    if "c' = removeLocked (last (qc_ll c)) c" for c' cost
    using that by (simp add: removeLocked_def)
qed auto

declare evictLoop.simps [simp del]

definition cachePut :: "cacheKey \<Rightarrow> 's list option \<Rightarrow> int \<Rightarrow> 's queryCache option \<Rightarrow> 's queryCache option" where
  "cachePut k v now cache =
     (case cache of
        None \<Rightarrow> None
      | Some c \<Rightarrow>
         (let cost = entryCost v in
          if cost > qc_max c then Some c
          else
            let vec = (case v of None \<Rightarrow> [] | Some xs \<Rightarrow> xs);
                c = (case gm_get (qc_items c) k of None \<Rightarrow> c | Some el \<Rightarrow> removeLocked el c);
                c = evictLoop cost c;
                el = (qc_next c, \<lparr> ce_key = k, ce_vec = vec, ce_cost = cost, ce_expires = now + qc_ttl c \<rparr>);
                c = c\<lparr> qc_ll := el # qc_ll c, qc_next := qc_next c + 1 \<rparr>;
                c = c\<lparr> qc_items := gm_put k el (qc_items c) \<rparr>;
                c = c\<lparr> qc_size := qc_size c + cost \<rparr>
            in Some (c\<lparr> qc_series := qc_size c \<rparr>)))"

section \<open>The invariant\<close>

definition elKey :: "'s element \<Rightarrow> cacheKey" where "elKey el = ce_key (snd el)"
definition elCost :: "'s element \<Rightarrow> int" where "elCost el = ce_cost (snd el)"

definition listed :: "'s queryCache \<Rightarrow> bool" where
  "listed c \<longleftrightarrow>
     distinct (map fst (qc_ll c)) \<and> distinct (map elKey (qc_ll c)) \<and>
     (\<forall>el\<in>set (qc_ll c). fst el < qc_next c \<and> elCost el = entryCost (Some (ce_vec (snd el)))) \<and>
     (\<forall>k el. gm_get (qc_items c) k = Some el \<longleftrightarrow> el \<in> set (qc_ll c) \<and> elKey el = k) \<and>
     qc_size c = sum_list (map elCost (qc_ll c)) \<and> 0 < qc_max c \<and> 0 < qc_ttl c"

definition cache_ok :: "'s queryCache \<Rightarrow> bool" where
  "cache_ok c \<longleftrightarrow> listed c \<and> qc_size c \<le> qc_max c"

lemma entryCost_pos: "1 \<le> entryCost v"
  by (simp add: entryCost_def)

lemma filter_fst_key:
  assumes "distinct (map fst xs)" and "distinct (map elKey xs)" and "el \<in> set xs"
  shows "filter (\<lambda>x. fst x \<noteq> fst el) xs = filter (\<lambda>x. elKey x \<noteq> elKey el) xs"
  using assms by (intro filter_cong) (auto simp: distinct_map inj_on_def)

lemma filter_key_none: "k \<notin> f ` set xs \<Longrightarrow> filter (\<lambda>x. f x \<noteq> k) xs = xs"
  by (induction xs) auto

lemma sum_costs_filter:
  assumes "distinct (map elKey xs)" and "el \<in> set xs"
  shows "sum_list (map elCost (filter (\<lambda>x. elKey x \<noteq> elKey el) xs)) = sum_list (map elCost xs) - elCost el"
  using assms
proof (induction xs)
  case (Cons x xs)
  show ?case
  proof (cases "elKey x = elKey el")
    case True
    then have "x = el" "elKey el \<notin> elKey ` set xs" using Cons.prems by (auto simp: image_def)
    moreover from this(2) have "filter (\<lambda>x. elKey x \<noteq> elKey el) xs = xs" by (rule filter_key_none)
    ultimately show ?thesis using True by simp
  next
    case False
    with Cons show ?thesis by auto
  qed
qed simp

lemma listed_remove:
  assumes "listed c" and "el \<in> set (qc_ll c)"
  shows "listed (removeLocked el c)"
    and "qc_ll (removeLocked el c) = filter (\<lambda>x. elKey x \<noteq> elKey el) (qc_ll c)"
    and "qc_max (removeLocked el c) = qc_max c" and "qc_ttl (removeLocked el c) = qc_ttl c"
    and "qc_size (removeLocked el c) = qc_size c - elCost el"
proof -
  show ll: "qc_ll (removeLocked el c) = filter (\<lambda>x. elKey x \<noteq> elKey el) (qc_ll c)"
    using filter_fst_key [of "qc_ll c" el] assms by (simp add: removeLocked_def listed_def)
  show "qc_max (removeLocked el c) = qc_max c" "qc_ttl (removeLocked el c) = qc_ttl c"
    "qc_size (removeLocked el c) = qc_size c - elCost el"
    by (simp_all add: removeLocked_def elCost_def)
  have it: "qc_items (removeLocked el c) = gm_del (elKey el) (qc_items c)"
    and nx: "qc_next (removeLocked el c) = qc_next c"
    and mx: "qc_max (removeLocked el c) = qc_max c" "qc_ttl (removeLocked el c) = qc_ttl c"
    and sz: "qc_size (removeLocked el c) = qc_size c - elCost el"
    by (simp_all add: removeLocked_def elKey_def elCost_def)
  have index: "gm_get (qc_items c) k = Some x \<longleftrightarrow> x \<in> set (qc_ll c) \<and> elKey x = k" for k x
    using assms(1) unfolding listed_def by blast
  have "gm_get (gm_del (elKey el) (qc_items c)) k = Some x \<longleftrightarrow>
      x \<in> set (filter (\<lambda>x. elKey x \<noteq> elKey el) (qc_ll c)) \<and> elKey x = k" for k x
    using index [of k x] by auto
  moreover have "sum_list (map elCost (filter (\<lambda>x. elKey x \<noteq> elKey el) (qc_ll c))) = qc_size c - elCost el"
    using sum_costs_filter [of "qc_ll c" el] assms by (simp add: listed_def)
  ultimately show "listed (removeLocked el c)"
    using assms(1) unfolding listed_def ll it nx mx sz by (simp add: distinct_map_filter)
qed

section \<open>Evicting\<close>

lemma evictLoop_listed:
  assumes "listed c" and "cost \<le> qc_max c"
  shows "\<exists>n \<le> length (qc_ll c). listed (evictLoop cost c) \<and> qc_ll (evictLoop cost c) = take n (qc_ll c) \<and>
    qc_max (evictLoop cost c) = qc_max c \<and> qc_ttl (evictLoop cost c) = qc_ttl c \<and>
    qc_size (evictLoop cost c) + cost \<le> qc_max c \<and>
    (n < length (qc_ll c) \<longrightarrow> sum_list (map elCost (take (Suc n) (qc_ll c))) + cost > qc_max c) \<and>
    qc_evictions (evictLoop cost c) = qc_evictions c + (length (qc_ll c) - n)"
  using assms
proof (induction cost c rule: evictLoop.induct)
  case (1 cost c)
  show ?case
  proof (cases "qc_size c + cost > qc_max c \<and> qc_ll c \<noteq> []")
    case False
    have "\<not> qc_size c + cost > qc_max c"
    proof
      assume "qc_size c + cost > qc_max c"
      with False have "qc_ll c = []" by simp
      with 1(2) have "qc_size c = 0" by (simp add: listed_def)
      with \<open>qc_size c + cost > qc_max c\<close> 1(3) show False by simp
    qed
    then have "evictLoop cost c = c" by (subst evictLoop.simps) simp
    with 1(2) \<open>\<not> qc_size c + cost > qc_max c\<close> show ?thesis
      by (intro exI [of _ "length (qc_ll c)"]) simp
  next
    case True
    define el where "el = last (qc_ll c)"
    define c1 where "c1 = removeLocked el c"
    define c2 where "c2 = c1\<lparr> qc_evictions := qc_evictions c1 + 1 \<rparr>"
    have el: "el \<in> set (qc_ll c)" using True by (simp add: el_def)
    note rem = listed_remove [OF 1(2) el, folded c1_def]
    have ev: "qc_evictions c1 = qc_evictions c" by (simp add: c1_def removeLocked_def)
    obtain xs where xs: "qc_ll c = xs @ [el]" using True by (metis append_butlast_last_id el_def)
    have "elKey el \<notin> elKey ` set xs" using 1(2) xs by (auto simp: listed_def)
    then have "filter (\<lambda>x. elKey x \<noteq> elKey el) xs = xs" by (intro filter_True ballI notI) (metis image_eqI)
    then have ll2: "qc_ll c2 = xs" using rem(2) xs by (simp add: c2_def)
    have ev2: "qc_evictions c2 = qc_evictions c + 1" using ev by (simp add: c2_def)
    have same: "listed c2" "qc_max c2 = qc_max c" "qc_ttl c2 = qc_ttl c"
      using rem(1,3,4) by (simp_all add: c2_def listed_def)
    have step: "evictLoop cost c = evictLoop cost c2"
      using True by (subst evictLoop.simps) (simp add: el_def c1_def c2_def Let_def)
    have "qc_size c + cost > qc_max c" "qc_ll c \<noteq> []" using True by simp_all
    from 1(1) [OF this refl, folded el_def, folded c1_def, folded c2_def, OF same(1), unfolded ll2 ev2 same(2,3), OF 1(3)]
    obtain n where n: "n \<le> length xs" "listed (evictLoop cost c2)"
      "qc_ll (evictLoop cost c2) = take n xs" "qc_max (evictLoop cost c2) = qc_max c" "qc_ttl (evictLoop cost c2) = qc_ttl c"
      "qc_size (evictLoop cost c2) + cost \<le> qc_max c"
      "n < length xs \<longrightarrow> sum_list (map elCost (take (Suc n) xs)) + cost > qc_max c"
      "qc_evictions (evictLoop cost c2) = qc_evictions c + 1 + (length xs - n)"
      by (elim exE conjE) (rule that)
    have "n = length xs \<Longrightarrow> sum_list (map elCost (take (Suc n) (qc_ll c))) + cost > qc_max c"
      using 1(2) True xs by (simp add: listed_def)
    moreover have "n < length xs \<Longrightarrow> Suc n - length xs = 0" by simp
    ultimately show ?thesis unfolding step using n xs
      by (intro exI [of _ n]) (auto simp: le_eq_less_or_eq Suc_le_eq)
  qed
qed

section \<open>The abstract cache\<close>

type_synonym 's lru = "(cacheKey \<times> 's list \<times> int) list"

definition lru :: "'s queryCache \<Rightarrow> 's lru" where
  "lru c = map (\<lambda>el. (elKey el, ce_vec (snd el), ce_expires (snd el))) (qc_ll c)"

definition without :: "cacheKey \<Rightarrow> 's lru \<Rightarrow> 's lru" where
  "without k L = filter (\<lambda>x. fst x \<noteq> k) L"

definition lruGet :: "cacheKey \<Rightarrow> int \<Rightarrow> 's lru \<Rightarrow> 's list option \<times> 's lru" where
  "lruGet k now L =
     (case map_of L k of
        None \<Rightarrow> (None, L)
      | Some (v, expires) \<Rightarrow> if now < expires then (Some v, (k, v, expires) # without k L) else (None, without k L))"

text \<open>The longest prefix whose cost is within the budget.\<close>

fun lruFit :: "int \<Rightarrow> 's lru \<Rightarrow> 's lru" where
  "lruFit b [] = []"
| "lruFit b (x # L) =
     (let cost = entryCost (Some (fst (snd x))) in if cost \<le> b then x # lruFit (b - cost) L else [])"

definition lruPut :: "int \<Rightarrow> int \<Rightarrow> cacheKey \<Rightarrow> 's list option \<Rightarrow> int \<Rightarrow> 's lru \<Rightarrow> 's lru" where
  "lruPut budget ttl k v now L =
     (if entryCost v > budget then L
      else (k, case v of None \<Rightarrow> [] | Some xs \<Rightarrow> xs, now + ttl) # lruFit (budget - entryCost v) (without k L))"

lemma entryCost_nil [simp]: "entryCost (Some (case v of None \<Rightarrow> [] | Some xs \<Rightarrow> xs)) = entryCost v"
  by (cases v) (simp_all add: entryCost_def)

lemma lru_index:
  assumes "listed c"
  shows "map_of (lru c) k = map_option (\<lambda>el. (ce_vec (snd el), ce_expires (snd el))) (gm_get (qc_items c) k)"
proof -
  let ?f = "\<lambda>el. (elKey el, ce_vec (snd el), ce_expires (snd el))"
  have wf: "distinct (map fst (lru c))" using assms by (simp add: listed_def lru_def comp_def)
  have index: "gm_get (qc_items c) k = Some el \<longleftrightarrow> el \<in> set (qc_ll c) \<and> elKey el = k" for el
    using assms unfolding listed_def by blast
  show ?thesis
  proof (cases "gm_get (qc_items c) k")
    case None
    then have "\<forall>el\<in>set (qc_ll c). elKey el \<noteq> k" using index by (metis option.distinct(1))
    then have "k \<notin> fst ` set (lru c)" by (auto simp: lru_def)
    with None show ?thesis by (simp add: map_of_eq_None_iff)
  next
    case (Some el)
    then have el: "el \<in> set (qc_ll c)" "elKey el = k" using index by auto
    from el(1) have "?f el \<in> set (lru c)" unfolding lru_def set_map by (rule imageI)
    with wf el(2) Some show ?thesis by simp
  qed
qed

lemma lru_remove:
  assumes "listed c" and "gm_get (qc_items c) k = Some el"
  shows "lru (removeLocked el c) = without k (lru c)"
proof -
  have "el \<in> set (qc_ll c)" "elKey el = k" using assms unfolding listed_def by blast+
  then show ?thesis
    using listed_remove(2) [OF assms(1), of el] by (simp add: lru_def without_def filter_map comp_def)
qed

lemma lru_without: "gm_get (qc_items c) k = None \<Longrightarrow> listed c \<Longrightarrow> without k (lru c) = lru c"
  using lru_index [of c k] filter_key_none [of k fst "lru c"]
  by (simp add: without_def map_of_eq_None_iff)

lemma lruFit_take:
  assumes "n \<le> length xs" and "\<forall>el\<in>set xs. elCost el = entryCost (Some (ce_vec (snd el)))"
    and "sum_list (map elCost (take n xs)) \<le> b"
    and "n < length xs \<longrightarrow> sum_list (map elCost (take (Suc n) xs)) > b"
  shows "map (\<lambda>el. (elKey el, ce_vec (snd el), ce_expires (snd el))) (take n xs)
     = lruFit b (map (\<lambda>el. (elKey el, ce_vec (snd el), ce_expires (snd el))) xs)"
  using assms
proof (induction xs arbitrary: n b)
  case (Cons x xs)
  have c: "elCost x = entryCost (Some (ce_vec (snd x)))" using Cons.prems(2) by simp
  show ?case
  proof (cases n)
    case 0
    then show ?thesis using Cons.prems(4) c by simp
  next
    case (Suc m)
    have "0 \<le> sum_list (map elCost (take m xs))"
      using Cons.prems(2) entryCost_pos
      by (intro sum_list_nonneg) (force dest!: in_set_takeD intro: order_trans [of 0 1])
    then have "elCost x \<le> b" using Cons.prems(3) Suc by simp
    moreover have "map (\<lambda>el. (elKey el, ce_vec (snd el), ce_expires (snd el))) (take m xs)
        = lruFit (b - elCost x) (map (\<lambda>el. (elKey el, ce_vec (snd el), ce_expires (snd el))) xs)"
      using Cons.prems Suc by (intro Cons.IH) auto
    ultimately show ?thesis using Suc c by (simp add: Let_def)
  qed
qed simp

section \<open>Each method refines the abstract cache\<close>

lemma cacheGet_refines:
  assumes "cache_ok c"
  shows "\<exists>c'. cacheGet k now (Some c) = (fst (lruGet k now (lru c)), Some c') \<and> cache_ok c' \<and>
    lru c' = snd (lruGet k now (lru c)) \<and> qc_max c' = qc_max c \<and> qc_ttl c' = qc_ttl c"
proof (cases "gm_get (qc_items c) k")
  case None
  then show ?thesis using assms lru_index [of c k] by (simp add: cacheGet_def lruGet_def cache_ok_def)
next
  case (Some el)
  have ok: "listed c" "qc_size c \<le> qc_max c" using assms by (simp_all add: cache_ok_def)
  have el: "el \<in> set (qc_ll c)" "elKey el = k" using ok(1) Some unfolding listed_def by blast+
  have look: "map_of (lru c) k = Some (ce_vec (snd el), ce_expires (snd el))"
    using lru_index [OF ok(1)] Some by simp
  show ?thesis
  proof (cases "now < ce_expires (snd el)")
    case False
    define c1 where "c1 = removeLocked el c"
    define c2 where "c2 = c1\<lparr> qc_series := qc_size c1 \<rparr>"
    note rem = listed_remove [OF ok(1) el(1), folded c1_def]
    have "1 \<le> elCost el" using ok(1) el(1) entryCost_pos by (auto simp: listed_def)
    then have "cache_ok c2" using rem ok(2) by (simp add: cache_ok_def c2_def listed_def)
    moreover have "lru c2 = without k (lru c)"
      using lru_remove [OF ok(1) Some] by (simp add: c2_def c1_def lru_def)
    moreover have "cacheGet k now (Some c) = (None, Some c2)"
      using Some False by (simp add: cacheGet_def Let_def c2_def c1_def)
    ultimately show ?thesis using look False rem(3,4) by (simp add: lruGet_def c2_def)
  next
    case True
    define c1 where "c1 = c\<lparr> qc_ll := el # filter (\<lambda>x. fst x \<noteq> fst el) (qc_ll c) \<rparr>"
    have ll: "qc_ll c1 = el # filter (\<lambda>x. elKey x \<noteq> elKey el) (qc_ll c)"
      using filter_fst_key [of "qc_ll c" el] ok(1) el(1) by (simp add: c1_def listed_def)
    have rest: "qc_size c1 = qc_size c" "qc_items c1 = qc_items c" "qc_next c1 = qc_next c"
      "qc_max c1 = qc_max c" "qc_ttl c1 = qc_ttl c" by (simp_all add: c1_def)
    have same: "set (qc_ll c1) = set (qc_ll c)"
      using ok(1) el(1) unfolding ll by (auto simp: listed_def distinct_map inj_on_def)
    have "distinct (map fst (qc_ll c1))"
      using ok(1) by (auto simp: c1_def listed_def distinct_map_filter)
    moreover have "distinct (map elKey (qc_ll c1))"
      using ok(1) unfolding ll by (auto simp: listed_def distinct_map_filter)
    moreover have "sum_list (map elCost (qc_ll c1)) = qc_size c"
      using ok(1) sum_costs_filter [of "qc_ll c" el] el(1) unfolding ll by (simp add: listed_def)
    ultimately have "cache_ok c1" using ok unfolding cache_ok_def listed_def same rest by simp
    moreover have "lru c1 = (k, ce_vec (snd el), ce_expires (snd el)) # without k (lru c)"
      unfolding lru_def ll using el(2) by (simp add: without_def filter_map comp_def)
    moreover have "cacheGet k now (Some c) = (Some (ce_vec (snd el)), Some c1)"
      using Some True by (simp add: cacheGet_def c1_def)
    ultimately show ?thesis using look True rest by (simp add: lruGet_def)
  qed
qed

lemma cachePut_refines:
  assumes "cache_ok c"
  shows "\<exists>c'. cachePut k v now (Some c) = Some c' \<and> cache_ok c' \<and>
    lru c' = lruPut (qc_max c) (qc_ttl c) k v now (lru c) \<and> qc_max c' = qc_max c \<and> qc_ttl c' = qc_ttl c"
proof (cases "entryCost v > qc_max c")
  case True
  then show ?thesis using assms by (simp add: cachePut_def lruPut_def)
next
  case False
  define c1 where "c1 = (case gm_get (qc_items c) k of None \<Rightarrow> c | Some el \<Rightarrow> removeLocked el c)"
  have ok: "listed c" using assms by (simp add: cache_ok_def)
  have c1: "listed c1 \<and> lru c1 = without k (lru c) \<and> qc_max c1 = qc_max c \<and> qc_ttl c1 = qc_ttl c"
  proof (cases "gm_get (qc_items c) k")
    case None
    then show ?thesis using ok lru_without [OF None ok] by (simp add: c1_def)
  next
    case (Some el)
    then have "el \<in> set (qc_ll c)" using ok unfolding listed_def by blast
    from listed_remove [OF ok this] lru_remove [OF ok Some] Some show ?thesis by (simp add: c1_def)
  qed
  define c2 where "c2 = evictLoop (entryCost v) c1"
  from evictLoop_listed [of c1 "entryCost v"] c1 False obtain n where
    n: "n \<le> length (qc_ll c1)" "listed c2" "qc_ll c2 = take n (qc_ll c1)" "qc_max c2 = qc_max c" "qc_ttl c2 = qc_ttl c"
      "qc_size c2 + entryCost v \<le> qc_max c"
      "n < length (qc_ll c1) \<longrightarrow> sum_list (map elCost (take (Suc n) (qc_ll c1))) + entryCost v > qc_max c"
    by (auto simp: c2_def)
  define vec where "vec = (case v of None \<Rightarrow> [] | Some xs \<Rightarrow> xs)"
  define el where "el = (qc_next c2, \<lparr> ce_key = k, ce_vec = vec, ce_cost = entryCost v, ce_expires = now + qc_ttl c \<rparr>)"
  define c3 where "c3 = c2\<lparr> qc_ll := el # qc_ll c2, qc_next := qc_next c2 + 1, qc_items := gm_put k el (qc_items c2),
      qc_size := qc_size c2 + entryCost v, qc_series := qc_size c2 + entryCost v \<rparr>"
  have put: "cachePut k v now (Some c) = Some c3"
    using False n(5) by (simp add: cachePut_def Let_def c3_def el_def vec_def c2_def c1_def)
  have "lru c2 = lruFit (qc_max c - entryCost v) (lru c1)"
    unfolding lru_def n(3)
  proof (rule lruFit_take)
    show "sum_list (map elCost (take n (qc_ll c1))) \<le> qc_max c - entryCost v"
      using n(2,3,6) by (simp add: listed_def)
  qed (use c1 n(1,7) in \<open>auto simp: listed_def\<close>)
  then have l3: "lru c3 = lruPut (qc_max c) (qc_ttl c) k v now (lru c)"
    using False c1 by (simp add: lruPut_def lru_def c3_def el_def vec_def elKey_def)
  have fresh: "\<forall>x\<in>set (qc_ll c2). elKey x \<noteq> k"
  proof -
    have "k \<notin> fst ` set (lru c1)" using c1 by (auto simp: without_def)
    then have "k \<notin> elKey ` set (qc_ll c1)" by (simp add: lru_def image_image)
    then show ?thesis using n(3) by (auto dest: in_set_takeD)
  qed
  have sel: "elKey el = k" "elCost el = entryCost v" "fst el = qc_next c2" "ce_vec (snd el) = vec"
    by (simp_all add: el_def elKey_def elCost_def)
  have index: "gm_get (qc_items c2) j = Some x \<longleftrightarrow> x \<in> set (qc_ll c2) \<and> elKey x = j" for j x
    using n(2) unfolding listed_def by blast
  have index3: "gm_get (qc_items c3) j = Some x \<longleftrightarrow> x \<in> set (qc_ll c3) \<and> elKey x = j" for j x
    using index [of j x] fresh sel(1) by (auto simp: c3_def)
  have "distinct (map fst (qc_ll c3))" "distinct (map elKey (qc_ll c3))"
    "\<forall>x\<in>set (qc_ll c3). fst x < qc_next c3 \<and> elCost x = entryCost (Some (ce_vec (snd x)))"
    "qc_size c3 = sum_list (map elCost (qc_ll c3))"
    using n(2) fresh sel by (auto simp: c3_def listed_def vec_def less_Suc_eq)
  moreover have "qc_max c3 = qc_max c" "qc_ttl c3 = qc_ttl c" "qc_size c3 \<le> qc_max c"
    using n(4,5,6) by (simp_all add: c3_def)
  ultimately have "cache_ok c3" using index3 ok unfolding cache_ok_def listed_def by simp
  then show ?thesis using put l3 n(4,5) by (simp add: c3_def)
qed

section \<open>Runs\<close>

text \<open>A history of method calls, latest first.\<close>

datatype 's CacheOp = GetOp cacheKey int | PutOp cacheKey "'s list option" int

inductive cacheRun :: "int \<Rightarrow> int \<Rightarrow> 's CacheOp list \<Rightarrow> 's queryCache option \<Rightarrow> bool" for maxSeries ttl where
  start: "cacheRun maxSeries ttl [] (newQueryCache maxSeries ttl)"
| get: "cacheRun maxSeries ttl h c \<Longrightarrow> cacheRun maxSeries ttl (GetOp k now # h) (snd (cacheGet k now c))"
| put: "cacheRun maxSeries ttl h c \<Longrightarrow> cacheRun maxSeries ttl (PutOp k v now # h) (cachePut k v now c)"

inductive_simps cacheRun_Nil: "cacheRun maxSeries ttl [] c"

definition vecOf :: "'s list option \<Rightarrow> 's list" where
  "vecOf v = (case v of None \<Rightarrow> [] | Some xs \<Rightarrow> xs)"

definition ttlOf :: "int \<Rightarrow> int" where
  "ttlOf ttl = (if ttl \<le> 0 then DefaultQueryCacheTTL else ttl)"

text \<open>The last vector stored under a key, among those small enough to be cached, and when.\<close>

fun lastPut :: "int \<Rightarrow> 's CacheOp list \<Rightarrow> cacheKey \<Rightarrow> ('s list \<times> int) option" where
  "lastPut budget [] k = None"
| "lastPut budget (GetOp j t # h) k = lastPut budget h k"
| "lastPut budget (PutOp j v t # h) k =
     (if j = k \<and> entryCost v \<le> budget then Some (vecOf v, t) else lastPut budget h k)"

definition current :: "int \<Rightarrow> int \<Rightarrow> 's CacheOp list \<Rightarrow> 's lru \<Rightarrow> bool" where
  "current budget ttl h L \<longleftrightarrow> (\<forall>(k, v, x)\<in>set L. \<exists>t. lastPut budget h k = Some (v, t) \<and> x = t + ttl)"

lemma lruFit_sub: "set (lruFit b L) \<subseteq> set L"
  by (induction b L rule: lruFit.induct) (auto simp: Let_def)

lemma lruGet_sub: "set (snd (lruGet k now L)) \<subseteq> set L"
  by (auto simp: lruGet_def without_def split: option.splits dest!: map_of_SomeD)

lemma current_sub: "current b ttl h L \<Longrightarrow> set L' \<subseteq> set L \<Longrightarrow> current b ttl h L'"
  by (auto simp: current_def)

lemma current_put: "current b ttl h L \<Longrightarrow> current b ttl (PutOp k v now # h) (lruPut b ttl k v now L)"
  using lruFit_sub [of "b - entryCost v" "without k L"]
  by (fastforce simp: current_def lruPut_def vecOf_def without_def)

lemma cacheRun_inv:
  "cacheRun maxSeries ttl h cache \<Longrightarrow> cache = Some c \<Longrightarrow>
   cache_ok c \<and> qc_max c = maxSeries \<and> qc_ttl c = ttlOf ttl \<and> current maxSeries (ttlOf ttl) h (lru c)"
proof (induction arbitrary: c rule: cacheRun.induct)
  case start
  then show ?case
    by (auto simp: newQueryCache_def cache_ok_def listed_def ttlOf_def current_def lru_def split: if_splits)
next
  case (get h cache k now)
  then obtain c0 where c0: "cache = Some c0" by (cases cache) (simp_all add: cacheGet_def)
  with get.IH have ih: "cache_ok c0" "qc_max c0 = maxSeries" "qc_ttl c0 = ttlOf ttl"
    "current maxSeries (ttlOf ttl) h (lru c0)" by auto
  from cacheGet_refines [OF ih(1), of k now] get.prems c0
  have c: "cache_ok c" "lru c = snd (lruGet k now (lru c0))" "qc_max c = maxSeries" "qc_ttl c = ttlOf ttl"
    using ih(2,3) by auto
  have "current maxSeries (ttlOf ttl) h (lru c)"
    using current_sub [OF ih(4) lruGet_sub [of k now]] c(2) by simp
  then show ?case using c by (simp add: current_def)
next
  case (put h cache k v now)
  then obtain c0 where c0: "cache = Some c0" by (cases cache) (simp_all add: cachePut_def)
  with put.IH have ih: "cache_ok c0" "qc_max c0 = maxSeries" "qc_ttl c0 = ttlOf ttl"
    "current maxSeries (ttlOf ttl) h (lru c0)" by auto
  from cachePut_refines [OF ih(1), of k v now] put.prems c0 ih(2,3)
  have c: "cache_ok c" "lru c = lruPut maxSeries (ttlOf ttl) k v now (lru c0)" "qc_max c = maxSeries" "qc_ttl c = ttlOf ttl"
    by auto
  then show ?case using current_put [OF ih(4), of k v now] by simp
qed

lemma map_of_without: "map_of (without k L) j = (if j = k then None else map_of L j)"
  by (induction L) (auto simp: without_def)

text \<open>A run of the example cache: three keys, a budget of three series.\<close>

definition exKey :: "nat \<Rightarrow> cacheKey" where
  "exKey n = \<lparr> ck_store = 1, ck_query = ''up'', ck_ts = of_nat n \<rparr>"

definition exOps :: "nat CacheOp list" where
  "exOps = [GetOp (exKey 1) 5, PutOp (exKey 3) None 4, PutOp (exKey 2) (Some [7, 8]) 3, GetOp (exKey 1) 2,
     PutOp (exKey 1) (Some [9]) 1]"

fun runOps :: "'s CacheOp list \<Rightarrow> 's queryCache option \<Rightarrow> 's queryCache option" where
  "runOps [] c = c"
| "runOps (GetOp k now # h) c = snd (cacheGet k now (runOps h c))"
| "runOps (PutOp k v now # h) c = cachePut k v now (runOps h c)"

lemma cacheRun_runOps: "cacheRun maxSeries ttl h (runOps h (newQueryCache maxSeries ttl))"
proof (induction h)
  case (Cons op h)
  then show ?case by (cases op) (auto intro: cacheRun.intros)
qed (simp add: cacheRun.start)

section \<open>The cache as its client sees it\<close>

text \<open>
  What the callers rely on: a lookup answers only from the entries, and entries come only from stores.
  Then whatever every stored vector satisfies, every answer satisfies, however entries are evicted.
\<close>

locale result_cache =
  fixes inv :: "'c \<Rightarrow> bool"
    and entries :: "'c \<Rightarrow> ('k \<times> 'v) set"
    and lookup :: "'k \<Rightarrow> int \<Rightarrow> 'c \<Rightarrow> 'v option \<times> 'c"
    and store :: "'k \<Rightarrow> 'v \<Rightarrow> int \<Rightarrow> 'c \<Rightarrow> 'c"
  assumes lookup_inv: "inv c \<Longrightarrow> inv (snd (lookup k now c))"
    and store_inv: "inv c \<Longrightarrow> inv (store k v now c)"
    and lookup_entries: "inv c \<Longrightarrow> entries (snd (lookup k now c)) \<subseteq> entries c"
    and lookup_hit: "inv c \<Longrightarrow> fst (lookup k now c) = Some v \<Longrightarrow> (k, v) \<in> entries c"
    and store_entries: "inv c \<Longrightarrow> entries (store k v now c) \<subseteq> insert (k, v) (entries c)"
begin

definition justified :: "('k \<Rightarrow> 'v \<Rightarrow> bool) \<Rightarrow> 'c \<Rightarrow> bool" where
  "justified P c \<longleftrightarrow> inv c \<and> (\<forall>(k, v)\<in>entries c. P k v)"

lemma justified_lookup:
  "justified P c \<Longrightarrow> lookup k now c = (r, c') \<Longrightarrow> justified P c' \<and> (\<forall>v. r = Some v \<longrightarrow> P k v)"
  using lookup_inv [of c k now] lookup_entries [of c k now] lookup_hit [of c k now]
  by (fastforce simp: justified_def)

lemma justified_store: "justified P c \<Longrightarrow> P k v \<Longrightarrow> justified P (store k v now c)"
  using store_inv [of c k v now] store_entries [of c k v now] by (fastforce simp: justified_def)

lemma justified_mono: "justified P c \<Longrightarrow> (\<And>k v. P k v \<Longrightarrow> Q k v) \<Longrightarrow> justified Q c"
  by (auto simp: justified_def)

end

definition cacheInv :: "'s queryCache option \<Rightarrow> bool" where
  "cacheInv cache = (case cache of None \<Rightarrow> True | Some c \<Rightarrow> cache_ok c)"

definition cacheEntries :: "'s queryCache option \<Rightarrow> (cacheKey \<times> 's list) set" where
  "cacheEntries cache = (case cache of None \<Rightarrow> {} | Some c \<Rightarrow> (\<lambda>(k, v, x). (k, v)) ` set (lru c))"

lemma cachePut_vecOf: "cachePut k v now cache = cachePut k (Some (vecOf v)) now cache"
  by (cases v) (simp_all add: cachePut_def vecOf_def entryCost_def split: option.split)

interpretation qc: result_cache cacheInv cacheEntries cacheGet "\<lambda>k v. cachePut k (Some v)"
proof
  fix cache :: "'s queryCache option" and k now v
  assume inv: "cacheInv cache"
  show "cacheInv (snd (cacheGet k now cache))"
  proof (cases cache)
    case (Some c)
    then show ?thesis using cacheGet_refines [of c k now] inv by (auto simp: cacheInv_def)
  qed (simp add: cacheGet_def cacheInv_def)
  show "cacheInv (cachePut k (Some v) now cache)"
  proof (cases cache)
    case (Some c)
    then show ?thesis using cachePut_refines [of c k "Some v" now] inv by (auto simp: cacheInv_def)
  qed (simp add: cachePut_def cacheInv_def)
  show "cacheEntries (snd (cacheGet k now cache)) \<subseteq> cacheEntries cache"
  proof (cases cache)
    case (Some c)
    then obtain r c' where "cacheGet k now cache = (r, Some c')" "lru c' = snd (lruGet k now (lru c))"
      using cacheGet_refines [of c k now] inv by (auto simp: cacheInv_def)
    then show ?thesis using Some image_mono [OF lruGet_sub [of k now "lru c"]] by (simp add: cacheEntries_def)
  qed (simp add: cacheGet_def cacheEntries_def)
  show "(k, v) \<in> cacheEntries cache" if hit: "fst (cacheGet k now cache) = Some v"
  proof (cases cache)
    case (Some c)
    then have "fst (lruGet k now (lru c)) = Some v"
      using cacheGet_refines [of c k now] inv hit by (auto simp: cacheInv_def)
    then obtain x where "(k, v, x) \<in> set (lru c)"
      by (auto simp: lruGet_def split: option.splits if_splits dest!: map_of_SomeD)
    then show ?thesis using Some by (force simp: cacheEntries_def)
  qed (use hit in \<open>simp add: cacheGet_def\<close>)
  show "cacheEntries (cachePut k (Some v) now cache) \<subseteq> insert (k, v) (cacheEntries cache)"
  proof (cases cache)
    case (Some c)
    have "set (lruPut (qc_max c) (qc_ttl c) k (Some v) now (lru c)) \<subseteq> insert (k, v, now + qc_ttl c) (set (lru c))"
      using lruFit_sub [of "qc_max c - entryCost (Some v)" "without k (lru c)"]
      by (auto simp: lruPut_def without_def)
    moreover obtain c' where "cachePut k (Some v) now cache = Some c'"
      "lru c' = lruPut (qc_max c) (qc_ttl c) k (Some v) now (lru c)"
      using Some cachePut_refines [of c k "Some v" now] inv by (auto simp: cacheInv_def)
    ultimately show ?thesis using Some by (force simp: cacheEntries_def)
  qed (simp add: cachePut_def cacheEntries_def)
qed

section \<open>Properties\<close>

text \<open>
  C24: whatever the sequence of gets and puts, the linked list and the index hold the same elements, no
  key twice, every element charged its number of series and at least one, the size field is the sum of
  the charges and never exceeds the budget; and the sum the eviction loop compares stays below twice
  the budget, so it cannot wrap a 64-bit int when the budget is below 2^62.
\<close>

theorem cache_within_budget:
  assumes "cacheRun maxSeries ttl h (Some c)"
  shows "qc_size c = sum_list (map (\<lambda>el. ce_cost (snd el)) (qc_ll c)) \<and> 0 \<le> qc_size c \<and> qc_size c \<le> maxSeries \<and>
    distinct (map (\<lambda>el. ce_key (snd el)) (qc_ll c)) \<and> distinct (map fst (qc_ll c)) \<and>
    (\<forall>k el. gm_get (qc_items c) k = Some el \<longleftrightarrow> el \<in> set (qc_ll c) \<and> ce_key (snd el) = k) \<and>
    (\<forall>el\<in>set (qc_ll c). ce_cost (snd el) = max 1 (int (length (ce_vec (snd el))))) \<and>
    (\<forall>v. entryCost v \<le> maxSeries \<and> maxSeries < 2 ^ 62 \<longrightarrow> qc_size c + entryCost v < (2 ^ 63 :: int))"
proof -
  from cacheRun_inv [OF assms refl] have ok: "listed c" "qc_size c \<le> qc_max c" "qc_max c = maxSeries"
    by (simp_all add: cache_ok_def)
  have "\<forall>el\<in>set (qc_ll c). 0 \<le> elCost el"
    using ok(1) entryCost_pos by (force simp: listed_def intro: order_trans [of 0 1])
  then have "0 \<le> sum_list (map elCost (qc_ll c))" by (intro sum_list_nonneg) auto
  moreover have fns: "elCost = (\<lambda>el. ce_cost (snd el))" "elKey = (\<lambda>el. ce_key (snd el))"
    by (simp_all add: elCost_def elKey_def fun_eq_iff)
  note l = ok(1) [unfolded listed_def fns entryCost_def, simplified]
  moreover have "\<forall>v :: 'a list option. entryCost v \<le> maxSeries \<and> maxSeries < 2 ^ 62 \<longrightarrow>
      qc_size c + entryCost v < (2 ^ 63 :: int)" using ok(2,3) by auto
  ultimately show ?thesis using l ok(2,3) unfolding fns by simp
qed

theorem cache_within_budget_witness:
  "\<exists>c. runOps exOps (newQueryCache 3 60) = Some c \<and> qc_size c \<le> 3 \<and> qc_size c = 3 \<and> qc_evictions c = 1"
proof -
  obtain c where c: "runOps exOps (newQueryCache 3 60) = Some c" "qc_size c = 3" "qc_evictions c = 1"
  proof (cases "runOps exOps (newQueryCache 3 60)")
    case None
    moreover have "runOps exOps (newQueryCache 3 60) \<noteq> None" by code_simp
    ultimately show ?thesis by simp
  next
    case (Some c)
    moreover have "map_option qc_size (runOps exOps (newQueryCache 3 60)) = Some 3"
      "map_option qc_evictions (runOps exOps (newQueryCache 3 60)) = Some 1" by code_simp+
    ultimately show ?thesis using that by simp
  qed
  have "cacheRun 3 60 exOps (Some c)" using cacheRun_runOps [of 3 60 exOps] c(1) by simp
  from cache_within_budget [OF this] c show ?thesis by blast
qed

text \<open>
  C22: the cache is a least-recently-used cache. From every reachable state a get and a put act on the
  keys, vectors and expiry times, most recently used first, as the abstract operations do: a hit moves
  the key to the front, an expired entry is dropped, and a put drops the key's old entry and then keeps,
  behind the new entry, the longest prefix of the remaining entries that fits the budget.
\<close>

theorem cache_refines_lru:
  assumes "cacheRun maxSeries ttl h (Some c)"
  shows "fst (cacheGet k now (Some c)) = fst (lruGet k now (lru c)) \<and>
    map_option lru (snd (cacheGet k now (Some c))) = Some (snd (lruGet k now (lru c))) \<and>
    map_option lru (cachePut k v now (Some c)) = Some (lruPut maxSeries (ttlOf ttl) k v now (lru c))"
proof -
  from cacheRun_inv [OF assms refl] have ok: "cache_ok c" "qc_max c = maxSeries" "qc_ttl c = ttlOf ttl" by auto
  from cacheGet_refines [OF ok(1), of k now] cachePut_refines [OF ok(1), of k v now] ok(2,3)
  show ?thesis by auto
qed

theorem cache_refines_lru_witness:
  "\<exists>c. runOps exOps (newQueryCache 3 60) = Some c \<and>
     map_option lru (cachePut (exKey 1) (Some [5]) 6 (Some c))
       = Some (lruPut 3 60 (exKey 1) (Some [5]) 6 (lru c)) \<and>
     map fst (lru c) = [exKey 3, exKey 2]"
proof -
  have "runOps exOps (newQueryCache 3 60) \<noteq> None" by code_simp
  then obtain c where c: "runOps exOps (newQueryCache 3 60) = Some c" by auto
  have "map_option (\<lambda>c. map fst (lru c)) (runOps exOps (newQueryCache 3 60)) = Some [exKey 3, exKey 2]" by code_simp
  moreover have "cacheRun 3 60 exOps (Some c)" using cacheRun_runOps [of 3 60 exOps] c by simp
  from cache_refines_lru [OF this, of "exKey 1" 6 "Some [5]"]
  have "map_option lru (cachePut (exKey 1) (Some [5]) 6 (Some c)) = Some (lruPut 3 60 (exKey 1) (Some [5]) 6 (lru c))"
    by (simp add: ttlOf_def)
  ultimately show ?thesis using c by simp
qed

text \<open>
  C23: a hit is never stale and never mixed up: it is the vector of the latest put under that very key
  (among the puts small enough to be cached), stored less than the time-to-live ago, whatever was
  stored, read or evicted in between.
\<close>

theorem cache_hit_fresh:
  assumes "cacheRun maxSeries ttl h c" and "fst (cacheGet k now c) = Some v"
  shows "\<exists>t. lastPut maxSeries h k = Some (v, t) \<and> now < t + ttlOf ttl"
proof -
  obtain c0 where c0: "c = Some c0" using assms(2) by (cases c) (simp_all add: cacheGet_def)
  from cacheRun_inv [OF assms(1) c0] have ok: "cache_ok c0" "current maxSeries (ttlOf ttl) h (lru c0)" by auto
  from cacheGet_refines [OF ok(1), of k now] assms(2) c0 have "fst (lruGet k now (lru c0)) = Some v" by auto
  then obtain x where "map_of (lru c0) k = Some (v, x)" "now < x"
    by (auto simp: lruGet_def split: option.splits if_splits)
  then show ?thesis using ok(2) by (fastforce simp: current_def dest!: map_of_SomeD)
qed

theorem cache_hit_fresh_witness:
  "\<exists>t. lastPut 3 exOps (exKey 3) = Some ([], t) \<and> 10 < t + ttlOf 60"
proof (rule cache_hit_fresh)
  show "cacheRun 3 60 exOps (runOps exOps (newQueryCache 3 60))" by (rule cacheRun_runOps)
  show "fst (cacheGet (exKey 3) 10 (runOps exOps (newQueryCache 3 60))) = Some []" by code_simp
qed

text \<open>
  A result that fits the budget is served back: a get of the key just put, before its expiry,
  returns the stored vector (the empty vector for a nil one), and after its expiry nothing.
\<close>

theorem cache_put_get:
  assumes "cacheRun maxSeries ttl h (Some c)" and "entryCost v \<le> maxSeries"
  shows "fst (cacheGet k later (cachePut k v now (Some c))) = (if later < now + ttlOf ttl then Some (vecOf v) else None)"
proof -
  from cacheRun_inv [OF assms(1) refl] have ok: "cache_ok c" "qc_max c = maxSeries" "qc_ttl c = ttlOf ttl" by auto
  from cachePut_refines [OF ok(1), of k v now] obtain c' where c': "cachePut k v now (Some c) = Some c'" "cache_ok c'"
    "lru c' = lruPut maxSeries (ttlOf ttl) k v now (lru c)" unfolding ok(2,3) by blast
  from cacheGet_refines [OF c'(2), of k later] have "fst (cacheGet k later (Some c')) = fst (lruGet k later (lru c'))"
    by auto
  then show ?thesis unfolding c'(1) using assms(2) by (simp add: c'(3) lruPut_def lruGet_def vecOf_def)
qed

theorem cache_put_get_witness:
  "\<exists>c. runOps exOps (newQueryCache 3 60) = Some c \<and>
     fst (cacheGet (exKey 7) 9 (cachePut (exKey 7) (Some [1, 2, 3]) 8 (Some c))) = Some [1, 2, 3]"
proof -
  have "runOps exOps (newQueryCache 3 60) \<noteq> None" by code_simp
  then obtain c where c: "runOps exOps (newQueryCache 3 60) = Some c" by auto
  then have "cacheRun 3 60 exOps (Some c)" using cacheRun_runOps [of 3 60 exOps] by simp
  from cache_put_get [OF this, of "Some [1, 2, 3]" "exKey 7" 9 8] c show ?thesis
    by (simp add: entryCost_def ttlOf_def vecOf_def)
qed

end
