(* ===== verification/Router.thy ===== *)
theory Router
  imports Routing QueryCache
begin

text \<open>
  The router's live table: \<open>pkg/promql/router.go\<close>.

  A client is what the factory returns, wrapped in a guard with its store number. \<open>closed\<close> records the
  clients whose connection pools were released, in order. \<open>factory\<close> may fail; the metrics calls, the
  mutex (each method is one step) and the concurrency of the probes are left out.

  \<open>routerRun\<close> relates a router to the number of clients built so far and to every store number ever
  bound to a client identity. The lemmas show that store numbers and client identities determine each
  other for the whole life of the process, so that the query cache shared by all stores, keyed by
  store number, can never serve one store's answer for another.
\<close>

section \<open>State\<close>

record clientKey =
  kl_url :: string
  kl_username :: string
  kl_password :: string

definition keyOf :: "Backend \<Rightarrow> clientKey" where
  "keyOf b = \<lparr> kl_url = be_url b, kl_username = be_username b, kl_password = be_password b \<rparr>"

record 'q guard =
  gd_inner :: 'q
  gd_store :: "64 word"

record 'q routerState =
  rs_table :: Table
  rs_clients :: "(string, 'q guard) gomap"
  rs_byKey :: "(clientKey, 'q guard) gomap"

record 'q Router =
  rt_nextStore :: "64 word"
  rt_state :: "'q routerState"
  rt_closed :: "'q list"

datatype 'e RouterError =
    EmptyTable
  | ClientFailed string 'e

section \<open>Building a state\<close>

text \<open>
  The loop of \<open>buildState\<close>: the two maps, the clients built so far and the store counter. The error
  carries the counter and the clients to release.
\<close>

fun buildLoop ::
  "(Backend \<Rightarrow> 'e + 'q) \<Rightarrow> 'q routerState option \<Rightarrow> Backend list
     \<Rightarrow> (string, 'q guard) gomap \<Rightarrow> (clientKey, 'q guard) gomap \<Rightarrow> 'q list \<Rightarrow> 64 word
     \<Rightarrow> ('e RouterError \<times> 'q list \<times> 64 word) + ((string, 'q guard) gomap \<times> (clientKey, 'q guard) gomap \<times> 64 word)"
where
  "buildLoop factory prev [] clients byKey fresh next = Inr (clients, byKey, next)"
| "buildLoop factory prev (b # bs) clients byKey fresh next =
     (case gm_get byKey (keyOf b) of
        Some q \<Rightarrow> buildLoop factory prev bs (gm_put (be_name b) q clients) byKey fresh next
      | None \<Rightarrow>
         (case (case prev of None \<Rightarrow> None | Some p \<Rightarrow> gm_get (rs_byKey p) (keyOf b)) of
            Some q \<Rightarrow> buildLoop factory prev bs (gm_put (be_name b) q clients) (gm_put (keyOf b) q byKey) fresh next
          | None \<Rightarrow>
             (case factory b of
                Inl e \<Rightarrow> Inl (ClientFailed (be_name b) e, fresh, next)
              | Inr q \<Rightarrow>
                 (let next = next + 1; g = \<lparr> gd_inner = q, gd_store = next \<rparr>
                  in buildLoop factory prev bs (gm_put (be_name b) g clients) (gm_put (keyOf b) g byKey)
                       (fresh @ [q]) next))))"

definition buildState ::
  "(Backend \<Rightarrow> 'e + 'q) \<Rightarrow> Table \<Rightarrow> 'q routerState option \<Rightarrow> 64 word
     \<Rightarrow> ('e RouterError \<times> 'q list \<times> 64 word) + ('q routerState \<times> 64 word)" where
  "buildState factory t prev next =
     (case buildLoop factory prev t [] [] [] next of
        Inl err \<Rightarrow> Inl err
      | Inr (clients, byKey, next) \<Rightarrow> Inr (\<lparr> rs_table = t, rs_clients = clients, rs_byKey = byKey \<rparr>, next))"

definition NewRouter :: "(Backend \<Rightarrow> 'e + 'q) \<Rightarrow> Table option \<Rightarrow> 'e RouterError + 'q Router" where
  "NewRouter factory t =
     (case t of
        None \<Rightarrow> Inl EmptyTable
      | Some t \<Rightarrow>
          if length t = 0 then Inl EmptyTable
          else case buildState factory t None 0 of
            Inl (err, fresh, next) \<Rightarrow> Inl err
          | Inr (st, next) \<Rightarrow> Inr \<lparr> rt_nextStore = next, rt_state = st, rt_closed = [] \<rparr>)"

definition Swap ::
  "(Backend \<Rightarrow> 'e + 'q) \<Rightarrow> Table option \<Rightarrow> 'q Router \<Rightarrow> 'e RouterError option \<times> 'q Router" where
  "Swap factory t r =
     (case t of
        None \<Rightarrow> (Some EmptyTable, r)
      | Some t \<Rightarrow>
          if length t = 0 then (Some EmptyTable, r)
          else case buildState factory t (Some (rt_state r)) (rt_nextStore r) of
            Inl (err, fresh, next) \<Rightarrow>
              (Some err, r\<lparr> rt_nextStore := next, rt_closed := rt_closed r @ fresh \<rparr>)
          | Inr (st, next) \<Rightarrow>
              (None, r\<lparr> rt_nextStore := next, rt_state := st,
                 rt_closed := rt_closed r @ List.map_filter (\<lambda>(key, q).
                   case gm_get (rs_byKey st) key of Some _ \<Rightarrow> None | None \<Rightarrow> Some (gd_inner q))
                   (rs_byKey (rt_state r)) \<rparr>))"

definition RouterServes :: "'q Router \<Rightarrow> Family \<Rightarrow> bool" where
  "RouterServes r f = familyServed (Some (rs_table (rt_state r))) f"

text \<open>The snapshot a build's querier closes over: table, clients, requested zones.\<close>

record 'q fanoutQuerier =
  fq_table :: Table
  fq_clients :: "(string, 'q guard) gomap"
  fq_az :: "string list"

definition querier :: "'q routerState \<Rightarrow> string list \<Rightarrow> 'q fanoutQuerier" where
  "querier st az = \<lparr> fq_table = rs_table st, fq_clients = rs_clients st, fq_az = az \<rparr>"

definition QuerierFor :: "'q Router \<Rightarrow> Selector \<Rightarrow> 'q fanoutQuerier" where
  "QuerierFor r sel = querier (rt_state r) (normaliseValues (sel_AZ sel))"

text \<open>\<open>ProbeAll\<close>: \<open>ask\<close> says whether the client answers the probe. The result is the error's names.\<close>

definition ProbeAll :: "('q guard \<Rightarrow> bool) \<Rightarrow> 'q Router \<Rightarrow> string list option" where
  "ProbeAll ask r =
     (let st = rt_state r; selected = Select (Some (rs_table st)) FamilyProbe [] in
      if length selected = 0 then Some [''<none configured>'']
      else
        let failed = map (\<lambda>b. case gm_get (rs_clients st) (be_name b) of
                None \<Rightarrow> be_name b
              | Some q \<Rightarrow> if ask q then [] else be_name b) selected;
            names = filter (\<lambda>n. n \<noteq> []) failed
        in if length names = 0 then None else Some names)"

section \<open>Store numbers\<close>

text \<open>
  \<open>names\<close> is the set of (client identity, store number) pairs ever bound; \<open>issued n\<close> holds of the store
  numbers handed out by \<open>n\<close> client constructions.
\<close>

definition bindings :: "(clientKey, 'q guard) gomap \<Rightarrow> (clientKey \<times> 64 word) set" where
  "bindings m = {(k, gd_store q) | k q. gm_get m k = Some q}"

definition injective_pairs :: "('a \<times> 'b) set \<Rightarrow> bool" where
  "injective_pairs P \<longleftrightarrow> (\<forall>k i k' i'. (k, i) \<in> P \<and> (k', i') \<in> P \<and> i = i' \<longrightarrow> k = k')"

lemma bindings_put:
  "bindings (gm_put k g m) = {(j, i) \<in> bindings m. j \<noteq> k} \<union> {(k, gd_store g)}"
  by (auto simp: bindings_def)

lemma bindings_put_sub: "bindings (gm_put k g m) \<subseteq> bindings m \<union> {(k, gd_store g)}"
  by (auto simp: bindings_put)

definition prevGet :: "'q routerState option \<Rightarrow> clientKey \<Rightarrow> 'q guard option" where
  "prevGet prev k = (case prev of None \<Rightarrow> None | Some p \<Rightarrow> gm_get (rs_byKey p) k)"

text \<open>The maps after a prefix of the backends, and one round of the loop.\<close>

definition built ::
  "'q routerState option \<Rightarrow> Backend list \<Rightarrow> (string, 'q guard) gomap \<Rightarrow> (clientKey, 'q guard) gomap \<Rightarrow> bool" where
  "built prev bs clients byKey \<longleftrightarrow>
     (\<forall>k. gm_get byKey k \<noteq> None \<longleftrightarrow> k \<in> keyOf ` set bs) \<and>
     (\<forall>b\<in>set bs. gm_get clients (be_name b) = gm_get byKey (keyOf b)) \<and>
     (\<forall>k g. k \<in> keyOf ` set bs \<and> prevGet prev k = Some g \<longrightarrow> gm_get byKey k = Some g) \<and> gm_wf byKey"

lemma built_share:
  assumes "built prev bs clients byKey" and "be_name b \<notin> be_name ` set bs" and "gm_get byKey (keyOf b) = Some q"
  shows "built prev (bs @ [b]) (gm_put (be_name b) q clients) byKey"
proof -
  have old: "keyOf b \<in> keyOf ` set bs" using assms(1,3) unfolding built_def by (metis option.distinct(1))
  have "\<forall>x\<in>set bs. be_name x \<noteq> be_name b" using assms(2) by (metis image_eqI)
  then show ?thesis using assms(1,3) old unfolding built_def by (simp add: insert_absorb)
qed

lemma built_new:
  assumes "built prev bs clients byKey" and "be_name b \<notin> be_name ` set bs" and "gm_get byKey (keyOf b) = None"
    and "\<And>g. prevGet prev (keyOf b) = Some g \<Longrightarrow> q = g"
  shows "built prev (bs @ [b]) (gm_put (be_name b) q clients) (gm_put (keyOf b) q byKey)"
proof -
  have new: "keyOf b \<notin> keyOf ` set bs" using assms(1,3) unfolding built_def by metis
  then have "\<forall>x\<in>set bs. keyOf x \<noteq> keyOf b" "\<forall>x\<in>set bs. be_name x \<noteq> be_name b" using assms(2) by (metis image_eqI)+
  then show ?thesis using assms(1,4) unfolding built_def by auto
qed

lemma buildLoop_built:
  assumes "buildLoop factory prev bs clients byKey fresh next = Inr (clients', byKey', next')"
    and "built prev done clients byKey" and "distinct (map be_name (done @ bs))"
  shows "built prev (done @ bs) clients' byKey'"
  using assms
proof (induction bs arbitrary: "done" clients byKey fresh "next")
  case (Cons b bs)
  have new: "be_name b \<notin> be_name ` set done" and dist: "distinct (map be_name ((done @ [b]) @ bs))"
    using Cons.prems(3) by auto
  note IH = Cons.IH [of _ _ _ _ "done @ [b]", OF _ _ dist]
  show ?case
  proof (cases "gm_get byKey (keyOf b)")
    case (Some q)
    with Cons.prems IH built_share [OF Cons.prems(2) new Some] show ?thesis by simp
  next
    case None
    show ?thesis
    proof (cases "prevGet prev (keyOf b)")
      case (Some q)
      with Cons.prems None IH built_new [OF Cons.prems(2) new None, of q] show ?thesis
        by (simp add: prevGet_def)
    next
      case none: None
      then obtain q where q: "factory b = Inr q" using Cons.prems(1) None
        by (cases "factory b") (simp_all add: prevGet_def)
      with Cons.prems None none IH built_new [OF Cons.prems(2) new None, of "\<lparr> gd_inner = q, gd_store = next + 1 \<rparr>"]
      show ?thesis by (simp add: prevGet_def Let_def)
    qed
  qed
qed simp

text \<open>Store numbers: everything bound so far has a number up to the counter, and no number two identities.\<close>

definition numbered :: "(clientKey \<times> 64 word) set \<Rightarrow> 64 word \<Rightarrow> bool" where
  "numbered H n \<longleftrightarrow> (\<forall>(k, i)\<in>H. i \<le> n) \<and> injective_pairs H"

lemma numbered_sub: "numbered H n \<Longrightarrow> H' \<subseteq> H \<Longrightarrow> numbered H' n"
  by (fastforce simp: numbered_def injective_pairs_def)

lemma numbered_new:
  assumes "numbered H n" and "unat n + 1 < 2 ^ 64"
  shows "numbered (insert (k, n + 1) H) (n + 1)"
proof -
  have "unat (n + 1) = unat n + 1" using assms(2) by (simp add: unat_word_ariths)
  then have "n < n + 1" by (simp add: word_less_nat_alt)
  then have "\<forall>(k, i)\<in>H. i < n + 1" using assms(1) by (fastforce simp: numbered_def)
  then show ?thesis using assms(1) unfolding numbered_def injective_pairs_def by fastforce
qed

lemma buildLoop_numbered:
  assumes "numbered (H \<union> bindings byKey) next" and "unat next + length bs < 2 ^ 64"
    and "\<And>k g. prevGet prev k = Some g \<Longrightarrow> (k, gd_store g) \<in> H"
  shows "case buildLoop factory prev bs clients byKey fresh next of
      Inl (err, fresh', next') \<Rightarrow> numbered H next' \<and> unat next' \<le> unat next + length bs
    | Inr (clients', byKey', next') \<Rightarrow>
        numbered (H \<union> bindings byKey') next' \<and> unat next' \<le> unat next + length bs"
  using assms(1,2)
proof (induction bs arbitrary: clients byKey fresh "next")
  case (Cons b bs)
  show ?case
  proof (cases "gm_get byKey (keyOf b)")
    case (Some q)
    with Cons.IH [OF Cons.prems(1), of "gm_put (be_name b) q clients" fresh] Cons.prems(2) show ?thesis
      by (auto split: sum.splits)
  next
    case None
    show ?thesis
    proof (cases "prevGet prev (keyOf b)")
      case (Some q)
      have "H \<union> bindings (gm_put (keyOf b) q byKey) \<subseteq> H \<union> bindings byKey"
        using bindings_put_sub [of "keyOf b" q byKey] assms(3) [OF Some] by blast
      then have "numbered (H \<union> bindings (gm_put (keyOf b) q byKey)) next" using Cons.prems(1) numbered_sub by blast
      from Cons.IH [OF this, of "gm_put (be_name b) q clients" fresh] Cons.prems(2) None Some show ?thesis
        by (auto simp: prevGet_def split: sum.splits)
    next
      case none: None
      show ?thesis
      proof (cases "factory b")
        case (Inl e)
        then show ?thesis using Cons.prems None none by (auto simp: prevGet_def intro: numbered_sub)
      next
        case (Inr q)
        let ?g = "\<lparr> gd_inner = q, gd_store = next + 1 \<rparr>"
        have inc: "unat (next + 1) = unat next + 1" using Cons.prems(2) by (simp add: unat_word_ariths)
        have "H \<union> bindings (gm_put (keyOf b) ?g byKey) \<subseteq> insert (keyOf b, next + 1) (H \<union> bindings byKey)"
          using bindings_put_sub [of "keyOf b" ?g byKey] by auto
        moreover have "numbered (insert (keyOf b, next + 1) (H \<union> bindings byKey)) (next + 1)"
          using numbered_new [OF Cons.prems(1)] Cons.prems(2) by simp
        ultimately have "numbered (H \<union> bindings (gm_put (keyOf b) ?g byKey)) (next + 1)" using numbered_sub by blast
        from Cons.IH [OF this, of "gm_put (be_name b) ?g clients" "fresh @ [q]"] Cons.prems(2) None none Inr inc
        show ?thesis by (auto simp: prevGet_def Let_def split: sum.splits)
      qed
    qed
  qed
qed (auto intro: numbered_sub)

section \<open>Runs of a router\<close>

text \<open>
  Construction and any sequence of reloads, each with a factory that may fail. The counter bounds the
  clients built; the set holds every binding of a client identity to a store number that ever went live.
\<close>

inductive routerRun :: "nat \<Rightarrow> (clientKey \<times> 64 word) set \<Rightarrow> 'q Router \<Rightarrow> bool" where
  start: "distinct (map be_name t) \<Longrightarrow> NewRouter (factory :: Backend \<Rightarrow> string + 'q) (Some t) = Inr r \<Longrightarrow>
     routerRun (length t) (bindings (rs_byKey (rt_state r))) r"
| swap: "routerRun n H r \<Longrightarrow> distinct (map be_name t) \<Longrightarrow>
     Swap (factory :: Backend \<Rightarrow> string + 'q) (Some t) r = (err, r') \<Longrightarrow>
     routerRun (n + length t) (H \<union> bindings (rs_byKey (rt_state r'))) r'"

definition routerInv :: "nat \<Rightarrow> (clientKey \<times> 64 word) set \<Rightarrow> 'q Router \<Rightarrow> bool" where
  "routerInv n H r \<longleftrightarrow>
     numbered H (rt_nextStore r) \<and> unat (rt_nextStore r) \<le> n \<and> bindings (rs_byKey (rt_state r)) \<subseteq> H \<and>
     built None (rs_table (rt_state r)) (rs_clients (rt_state r)) (rs_byKey (rt_state r))"

lemma built_None: "built prev bs clients byKey \<Longrightarrow> built None bs clients byKey"
  by (simp add: built_def prevGet_def)

lemma buildState_built:
  assumes "buildState factory t prev n = Inr (st, n')" and "distinct (map be_name t)"
  shows "rs_table st = t" and "built prev t (rs_clients st) (rs_byKey st)"
    and "buildLoop factory prev t [] [] [] n = Inr (rs_clients st, rs_byKey st, n')"
proof -
  show l: "buildLoop factory prev t [] [] [] n = Inr (rs_clients st, rs_byKey st, n')" and "rs_table st = t"
    using assms(1) by (auto simp: buildState_def split: sum.splits prod.splits)
  have "built prev [] [] []" by (simp add: built_def)
  from buildLoop_built [OF l this] assms(2) show "built prev t (rs_clients st) (rs_byKey st)" by simp
qed

lemma bindings_Nil [simp]: "bindings [] = {}"
  by (simp add: bindings_def)

lemma NewRouter_inv:
  assumes "distinct (map be_name t)" and "length t < 2 ^ 64" and "NewRouter factory (Some t) = Inr r"
  shows "routerInv (length t) (bindings (rs_byKey (rt_state r))) r"
proof -
  obtain st n' where b: "buildState factory t None 0 = Inr (st, n')" "r = \<lparr> rt_nextStore = n', rt_state = st, rt_closed = [] \<rparr>"
    using assms(3) by (auto simp: NewRouter_def split: if_splits sum.splits prod.splits)
  have "numbered ({} \<union> bindings []) 0" by (simp add: numbered_def injective_pairs_def)
  from buildLoop_numbered [OF this, of t None factory "[]" "[]"] buildState_built(3) [OF b(1) assms(1)] assms(2)
  have "numbered (bindings (rs_byKey st)) n'" "unat n' \<le> length t" by (simp_all add: prevGet_def)
  then show ?thesis
    using b(2) buildState_built(1,2) [OF b(1) assms(1)] by (simp add: routerInv_def)
qed

lemma Swap_inv:
  assumes "routerInv n H r" and "distinct (map be_name t)" and "n + length t < 2 ^ 64"
    and "Swap factory (Some t) r = (err, r')"
  shows "routerInv (n + length t) (H \<union> bindings (rs_byKey (rt_state r'))) r'"
proof -
  let ?prev = "Some (rt_state r)"
  have inv: "numbered H (rt_nextStore r)" "unat (rt_nextStore r) \<le> n" "bindings (rs_byKey (rt_state r)) \<subseteq> H"
    "built None (rs_table (rt_state r)) (rs_clients (rt_state r)) (rs_byKey (rt_state r))"
    using assms(1) by (simp_all add: routerInv_def)
  have prev: "prevGet ?prev k = Some g \<Longrightarrow> (k, gd_store g) \<in> H" for k g
    using inv(3) by (auto simp: prevGet_def bindings_def)
  have nums: "numbered (H \<union> bindings []) (rt_nextStore r)" "unat (rt_nextStore r) + length t < 2 ^ 64"
    using inv(1,2) assms(3) by simp_all
  note loop = buildLoop_numbered [OF nums prev, of ?prev factory "[]" "[]"]
  consider (empty) "t = []" | (fail) e where "t \<noteq> []" "buildState factory t ?prev (rt_nextStore r) = Inl e"
    | (ok) st n' where "t \<noteq> []" "buildState factory t ?prev (rt_nextStore r) = Inr (st, n')"
    by (cases "buildState factory t ?prev (rt_nextStore r)") auto
  then show ?thesis
  proof cases
    case empty
    then have "r' = r" using assms(4) by (simp add: Swap_def)
    then show ?thesis using inv by (simp add: routerInv_def Un_absorb2)
  next
    case fail
    obtain er fresh n' where e: "e = (er, fresh, n')" by (cases e)
    then have "buildLoop factory ?prev t [] [] [] (rt_nextStore r) = Inl (er, fresh, n')"
      using fail(2) by (auto simp: buildState_def split: sum.splits)
    with loop have "numbered H n'" "unat n' \<le> n + length t" using inv(2) by simp_all
    moreover have "r' = r\<lparr> rt_nextStore := n', rt_closed := rt_closed r @ fresh \<rparr>"
      using assms(4) fail e by (simp add: Swap_def)
    ultimately show ?thesis using inv by (simp add: routerInv_def Un_absorb2)
  next
    case ok
    from buildState_built(3) [OF ok(2) assms(2)] loop
    have "numbered (H \<union> bindings (rs_byKey st)) n'" "unat n' \<le> n + length t" using inv(2) by simp_all
    moreover have "rt_state r' = st" "rt_nextStore r' = n'" using assms(4) ok by (auto simp: Swap_def)
    ultimately show ?thesis
      using buildState_built(1,2) [OF ok(2) assms(2)] by (auto simp: routerInv_def intro: built_None)
  qed
qed

lemma routerRun_inv: "routerRun n H r \<Longrightarrow> n < 2 ^ 64 \<Longrightarrow> routerInv n H r"
proof (induction rule: routerRun.induct)
  case (start t factory r)
  then show ?case by (intro NewRouter_inv)
next
  case (swap n H r t factory err r')
  then show ?case by (intro Swap_inv) simp_all
qed

section \<open>Properties\<close>

text \<open>
  C20: a store number stands for one store for the life of the process. Over any sequence of reloads,
  failed ones included, no store number is ever bound to two (url, username, password) identities; every
  backend of the live table has a client, and two of its backends share a store number exactly when
  they share url and credentials. Fewer than 2^64 clients are assumed built.
\<close>

theorem router_store_identity:
  assumes "routerRun n H r" and "n < 2 ^ 64"
  shows "(\<forall>k k' i. (k, i) \<in> H \<and> (k', i) \<in> H \<longrightarrow> k = k') \<and>
    (\<forall>b\<in>set (rs_table (rt_state r)). \<exists>g. gm_get (rs_clients (rt_state r)) (be_name b) = Some g \<and> (keyOf b, gd_store g) \<in> H) \<and>
    (\<forall>b\<in>set (rs_table (rt_state r)). \<forall>b'\<in>set (rs_table (rt_state r)). \<forall>g g'.
       gm_get (rs_clients (rt_state r)) (be_name b) = Some g \<and> gm_get (rs_clients (rt_state r)) (be_name b') = Some g' \<longrightarrow>
       (gd_store g = gd_store g' \<longleftrightarrow> keyOf b = keyOf b'))"
proof -
  let ?st = "rt_state r"
  have inv: "numbered H (rt_nextStore r)" "bindings (rs_byKey ?st) \<subseteq> H"
    "built None (rs_table ?st) (rs_clients ?st) (rs_byKey ?st)"
    using routerRun_inv [OF assms] by (simp_all add: routerInv_def)
  have inj: "(k, i) \<in> H \<Longrightarrow> (k', i) \<in> H \<Longrightarrow> k = k'" for k k' i
    using inv(1) unfolding numbered_def injective_pairs_def by blast
  have client: "gm_get (rs_clients ?st) (be_name b) = gm_get (rs_byKey ?st) (keyOf b)"
    "gm_get (rs_byKey ?st) (keyOf b) \<noteq> None" if "b \<in> set (rs_table ?st)" for b
    using inv(3) that unfolding built_def by blast+
  have bound: "gm_get (rs_byKey ?st) k = Some g \<Longrightarrow> (k, gd_store g) \<in> H" for k g
    using inv(2) by (auto simp: bindings_def)
  show ?thesis
  proof (intro conjI ballI allI impI)
    show "k = k'" if "(k, i) \<in> H \<and> (k', i) \<in> H" for k k' i using inj that by blast
    show "\<exists>g. gm_get (rs_clients ?st) (be_name b) = Some g \<and> (keyOf b, gd_store g) \<in> H" if "b \<in> set (rs_table ?st)" for b
      using client [OF that] bound by (metis not_None_eq)
    show "gd_store g = gd_store g' \<longleftrightarrow> keyOf b = keyOf b'"
      if "b \<in> set (rs_table ?st)" "b' \<in> set (rs_table ?st)"
        "gm_get (rs_clients ?st) (be_name b) = Some g \<and> gm_get (rs_clients ?st) (be_name b') = Some g'" for b b' g g'
      using client [OF that(1)] client [OF that(2)] that(3) bound inj by (metis option.inject)
  qed
qed

text \<open>
  C21: a reload is atomic. A table that is empty, or one of whose clients cannot be built, leaves the
  serving table and clients exactly as they were. A successful reload serves exactly the new table with a
  client for every backend, keeps the client - and with it the store number - of every identity that
  survives, and releases exactly the clients of the identities that disappeared.
\<close>

theorem Swap_atomic:
  assumes "routerRun n H r" and "n < 2 ^ 64" and "distinct (map be_name t)"
    and "Swap (factory :: Backend \<Rightarrow> string + 'q) (Some t) r = (err, r')"
  shows "(err \<noteq> None \<longleftrightarrow> t = [] \<or> (\<exists>e. buildState factory t (Some (rt_state r)) (rt_nextStore r) = Inl e)) \<and>
    (err \<noteq> None \<longrightarrow> rt_state r' = rt_state r) \<and>
    (err = None \<longrightarrow> rs_table (rt_state r') = t \<and>
       (\<forall>b\<in>set t. gm_get (rs_clients (rt_state r')) (be_name b) \<noteq> None) \<and>
       (\<forall>k g. k \<in> keyOf ` set t \<and> gm_get (rs_byKey (rt_state r)) k = Some g \<longrightarrow> gm_get (rs_byKey (rt_state r')) k = Some g) \<and>
       (\<exists>cs. rt_closed r' = rt_closed r @ cs \<and>
          set cs = {gd_inner g | k g. gm_get (rs_byKey (rt_state r)) k = Some g \<and> k \<notin> keyOf ` set t}))"
proof -
  let ?prev = "Some (rt_state r)"
  have wf: "gm_wf (rs_byKey (rt_state r))"
    using routerRun_inv [OF assms(1,2)] by (simp add: routerInv_def built_def)
  consider (empty) "t = []" | (fail) e where "t \<noteq> []" "buildState factory t ?prev (rt_nextStore r) = Inl e"
    | (ok) st n' where "t \<noteq> []" "buildState factory t ?prev (rt_nextStore r) = Inr (st, n')"
    by (cases "buildState factory t ?prev (rt_nextStore r)") auto
  then show ?thesis
  proof cases
    case empty
    then show ?thesis using assms(4) by (auto simp: Swap_def)
  next
    case fail
    then show ?thesis using assms(4) by (cases e) (auto simp: Swap_def)
  next
    case ok
    let ?cs = "List.map_filter (\<lambda>(key, q). case gm_get (rs_byKey st) key of Some _ \<Rightarrow> None | None \<Rightarrow> Some (gd_inner q))
        (rs_byKey (rt_state r))"
    have r': "err = None" "rt_state r' = st" "rt_closed r' = rt_closed r @ ?cs"
      using assms(4) ok by (auto simp: Swap_def)
    note b = buildState_built [OF ok(2) assms(3)]
    have keys: "gm_get (rs_byKey st) k \<noteq> None \<longleftrightarrow> k \<in> keyOf ` set t" for k using b(2) unfolding built_def by blast
    have eq: "(case x of (key, q) \<Rightarrow> case gm_get (rs_byKey st) key of Some _ \<Rightarrow> None | None \<Rightarrow> Some (gd_inner q)) = Some c
        \<longleftrightarrow> fst x \<notin> keyOf ` set t \<and> c = gd_inner (snd x)" for x c
      using keys [of "fst x"] by (cases x; cases "gm_get (rs_byKey st) (fst x)") auto
    have "set ?cs = {gd_inner g | k g. (k, g) \<in> set (rs_byKey (rt_state r)) \<and> k \<notin> keyOf ` set t}"
      unfolding set_map_filter eq by force
    then have cs: "set ?cs = {gd_inner g | k g. gm_get (rs_byKey (rt_state r)) k = Some g \<and> k \<notin> keyOf ` set t}"
      unfolding gm_in_get_iff [OF wf] .
    have "\<forall>b\<in>set t. gm_get (rs_clients st) (be_name b) \<noteq> None"
      using b(2) keys unfolding built_def by (metis image_eqI)
    moreover have "k \<in> keyOf ` set t \<Longrightarrow> gm_get (rs_byKey (rt_state r)) k = Some g \<Longrightarrow> gm_get (rs_byKey st) k = Some g" for k g
      using b(2) by (simp add: built_def prevGet_def)
    ultimately show ?thesis using b(1) r' cs ok by simp
  qed
qed

text \<open>An example: the table grows by a backend on a store of its own.\<close>

definition exFactory :: "Backend \<Rightarrow> string + string" where
  "exFactory b = Inr (be_url b)"

definition exTable1 :: Table where
  "exTable1 = [\<lparr> be_name = ''a'', be_url = ''vm1'', be_families = Families, be_zones = [], be_username = [], be_password = [] \<rparr>]"

definition exTable2 :: Table where
  "exTable2 = exTable1 @
     [\<lparr> be_name = ''b'', be_url = ''vm2'', be_families = [FamilyKSM], be_zones = [], be_username = [], be_password = [] \<rparr>]"

definition exRouter :: "string Router" where
  "exRouter = (case NewRouter exFactory (Some exTable1) of Inr r \<Rightarrow> r
     | Inl _ \<Rightarrow> \<lparr> rt_nextStore = 0, rt_state = \<lparr> rs_table = [], rs_clients = [], rs_byKey = [] \<rparr>, rt_closed = [] \<rparr>)"

lemma exRouter_run: "routerRun 1 (bindings (rs_byKey (rt_state exRouter))) exRouter"
proof -
  have "NewRouter exFactory (Some exTable1) = Inr exRouter" by code_simp
  from routerRun.start [OF _ this] show ?thesis by (simp add: exTable1_def)
qed

theorem router_store_identity_witness:
  "\<exists>r' err H. Swap exFactory (Some exTable2) exRouter = (err, r') \<and> err = None \<and> (\<forall>k k' i. (k, i) \<in> H \<and> (k', i) \<in> H \<longrightarrow> k = k') \<and>
     bindings (rs_byKey (rt_state r')) \<subseteq> H"
proof -
  obtain err r' where s: "Swap exFactory (Some exTable2) exRouter = (err, r')" by fastforce
  have "fst (Swap exFactory (Some exTable2) exRouter) = None" by code_simp
  then have err: "err = None" using s by simp
  have "distinct (map be_name exTable2)" by code_simp
  from routerRun.swap [OF exRouter_run this s] have run:
    "routerRun (1 + length exTable2) (bindings (rs_byKey (rt_state exRouter)) \<union> bindings (rs_byKey (rt_state r'))) r'" .
  have "1 + length exTable2 < 2 ^ 64" by (simp add: exTable1_def exTable2_def)
  from router_store_identity [OF run this] s err show ?thesis by blast
qed

theorem Swap_atomic_witness:
  "\<exists>r' err cs. Swap exFactory (Some exTable2) exRouter = (err, r') \<and> rs_table (rt_state r') = exTable2 \<and>
     rt_closed r' = rt_closed exRouter @ cs"
proof -
  obtain err r' where s: "Swap exFactory (Some exTable2) exRouter = (err, r')" by fastforce
  have "fst (Swap exFactory (Some exTable2) exRouter) = None" by code_simp
  then have err: "err = None" using s by simp
  have "distinct (map be_name exTable2)" by code_simp
  from Swap_atomic [OF exRouter_run _ this s] s err show ?thesis by auto
qed

end
