(* ===== verification/Guard.thy ===== *)
theory Guard
  imports Router
begin

text \<open>
  One store's guard: \<open>pkg/promql/guard.go\<close>. Any number of callers run \<open>instant\<close> at the same time; the
  model is a step relation whose steps are the code's atomic actions (a cache method, joining a flight,
  taking or giving back a slot, the upstream's answer, a context ending), so that every interleaving is a
  run.

  \<open>singleflight.Group\<close> is the library's documented behaviour: \<open>DoChan\<close> starts a flight when none is in
  progress for the key and otherwise joins it, and when a flight's function returns its key is forgotten
  and every caller that joined receives the result. A flight with \<open>fl_shared\<close> false stands for a
  caller's own call of \<open>fetch\<close> when there is no cache. \<open>sem\<close> is the bound of the semaphore, if any.
  Other guards share the cache and may use it, under their own store numbers, at any time.

  \<open>gs_answers\<close> records the vectors the upstream returned; the lemmas show that callers only receive
  these, for their own query and instant, that one flight at a time runs per query and instant, that the
  slots are never exceeded, and that the system never gets stuck.
\<close>

section \<open>State\<close>

record request =
  rq_name :: Query
  rq_query :: string
  rq_ts :: "64 word"

datatype 'e GuardError =
    CtxDone
  | SlotWait
  | Upstream 'e

type_synonym ('s, 'e) result = "'e GuardError + 's list option"

datatype ('s, 'e) phase =
    Started
  | Joining nat
  | Waiting nat nat bool
  | Finished "('s, 'e) result"

datatype ('s, 'e) flightPhase =
    Checking
  | Fetching
  | InUpstream
  | Answered "('s, 'e) result"
  | Returned "('s, 'e) result"
  | Delivered "('s, 'e) result"

record ('s, 'e) flight =
  fl_query :: string
  fl_ts :: "64 word"
  fl_leader :: nat
  fl_shared :: bool
  fl_phase :: "('s, 'e) flightPhase"

record ('s, 'e) guardState =
  gs_cache :: "'s queryCache option"
  gs_held :: nat
  gs_group :: "(string, nat) gomap"
  gs_flights :: "('s, 'e) flight list"
  gs_callers :: "(request \<times> ('s, 'e) phase) list"
  gs_ended :: "nat set"
  gs_answers :: "(string \<times> 64 word \<times> 's list) set"

definition isProbe :: "Query \<Rightarrow> bool" where
  "isProbe name = (FamilyOf name = Some FamilyProbe)"

definition flightKey :: "string \<Rightarrow> 64 word \<Rightarrow> string" where
  "flightKey query ts = query @ [CHR 0x00] @ FormatInt (sint ts)"

definition isContextErr :: "('e \<Rightarrow> bool) \<Rightarrow> 'e GuardError \<Rightarrow> bool" where
  "isContextErr ctxErr err = (case err of CtxDone \<Rightarrow> True | SlotWait \<Rightarrow> True | Upstream e \<Rightarrow> ctxErr e)"

definition keyFor :: "64 word \<Rightarrow> string \<Rightarrow> 64 word \<Rightarrow> cacheKey" where
  "keyFor store query ts = \<lparr> ck_store = store, ck_query = query, ck_ts = ts \<rparr>"

definition setCaller :: "nat \<Rightarrow> ('s, 'e) phase \<Rightarrow> ('s, 'e) guardState \<Rightarrow> ('s, 'e) guardState" where
  "setCaller i p s = s\<lparr> gs_callers := (gs_callers s)[i := (fst (gs_callers s ! i), p)] \<rparr>"

definition setFlight :: "nat \<Rightarrow> ('s, 'e) flightPhase \<Rightarrow> ('s, 'e) guardState \<Rightarrow> ('s, 'e) guardState" where
  "setFlight f p s = s\<lparr> gs_flights := (gs_flights s)[f := (gs_flights s ! f)\<lparr> fl_phase := p \<rparr>] \<rparr>"

definition caller :: "('s, 'e) guardState \<Rightarrow> nat \<Rightarrow> request \<Rightarrow> ('s, 'e) phase \<Rightarrow> bool" where
  "caller s i rq p \<longleftrightarrow> i < length (gs_callers s) \<and> gs_callers s ! i = (rq, p)"

definition flightAt :: "('s, 'e) guardState \<Rightarrow> nat \<Rightarrow> ('s, 'e) flight \<Rightarrow> bool" where
  "flightAt s f fl \<longleftrightarrow> f < length (gs_flights s) \<and> gs_flights s ! f = fl"

section \<open>Steps\<close>

text \<open>A flight takes its slot (\<open>fetch\<close> without a semaphore takes none).\<close>

definition slotFree :: "nat option \<Rightarrow> ('s, 'e) guardState \<Rightarrow> bool" where
  "slotFree sem s = (case sem of None \<Rightarrow> True | Some n \<Rightarrow> gs_held s < n)"

inductive guardStep ::
  "64 word \<Rightarrow> nat option \<Rightarrow> ('e \<Rightarrow> bool) \<Rightarrow> ('s, 'e) guardState \<Rightarrow> ('s, 'e) guardState \<Rightarrow> bool"
  for store sem ctxErr
where
  call: "guardStep store sem ctxErr s (s\<lparr> gs_callers := gs_callers s @ [(rq, Started)] \<rparr>)"
| probe: "caller s i rq Started \<Longrightarrow> isProbe (rq_name rq) \<Longrightarrow> ans = Inr v \<or> (\<exists>e. ans = Inl (Upstream e)) \<Longrightarrow>
    guardStep store sem ctxErr s
      (setCaller i (Finished ans)
        (s\<lparr> gs_answers := gs_answers s \<union> {(rq_query rq, rq_ts rq, vecOf v) | v. ans = Inr v} \<rparr>))"
| uncached: "caller s i rq Started \<Longrightarrow> \<not> isProbe (rq_name rq) \<Longrightarrow> gs_cache s = None \<Longrightarrow>
    guardStep store sem ctxErr s
      (setCaller i (Waiting (length (gs_flights s)) 0 True)
        (s\<lparr> gs_flights := gs_flights s @ [\<lparr> fl_query = rq_query rq, fl_ts = rq_ts rq, fl_leader = i,
              fl_shared = False, fl_phase = Fetching \<rparr>] \<rparr>))"
| lookup_hit: "caller s i rq Started \<Longrightarrow> \<not> isProbe (rq_name rq) \<Longrightarrow> gs_cache s \<noteq> None \<Longrightarrow>
    cacheGet (keyFor store (rq_query rq) (rq_ts rq)) now (gs_cache s) = (Some v, c') \<Longrightarrow>
    guardStep store sem ctxErr s (setCaller i (Finished (Inr (Some v))) (s\<lparr> gs_cache := c' \<rparr>))"
| lookup_miss: "caller s i rq Started \<Longrightarrow> \<not> isProbe (rq_name rq) \<Longrightarrow> gs_cache s \<noteq> None \<Longrightarrow>
    cacheGet (keyFor store (rq_query rq) (rq_ts rq)) now (gs_cache s) = (None, c') \<Longrightarrow>
    guardStep store sem ctxErr s (setCaller i (Joining 0) (s\<lparr> gs_cache := c' \<rparr>))"
| lead: "caller s i rq (Joining a) \<Longrightarrow> gm_get (gs_group s) (flightKey (rq_query rq) (rq_ts rq)) = None \<Longrightarrow>
    guardStep store sem ctxErr s
      (setCaller i (Waiting (length (gs_flights s)) a True)
        (s\<lparr> gs_group := gm_put (flightKey (rq_query rq) (rq_ts rq)) (length (gs_flights s)) (gs_group s),
            gs_flights := gs_flights s @ [\<lparr> fl_query = rq_query rq, fl_ts = rq_ts rq, fl_leader = i,
              fl_shared = True, fl_phase = Checking \<rparr>] \<rparr>))"
| join: "caller s i rq (Joining a) \<Longrightarrow> gm_get (gs_group s) (flightKey (rq_query rq) (rq_ts rq)) = Some f \<Longrightarrow>
    guardStep store sem ctxErr s (setCaller i (Waiting f a False) s)"
| check_hit: "flightAt s f fl \<Longrightarrow> fl_phase fl = Checking \<Longrightarrow>
    cacheGet (keyFor store (fl_query fl) (fl_ts fl)) now (gs_cache s) = (Some v, c') \<Longrightarrow>
    guardStep store sem ctxErr s (setFlight f (Returned (Inr (Some v))) (s\<lparr> gs_cache := c' \<rparr>))"
| check_miss: "flightAt s f fl \<Longrightarrow> fl_phase fl = Checking \<Longrightarrow>
    cacheGet (keyFor store (fl_query fl) (fl_ts fl)) now (gs_cache s) = (None, c') \<Longrightarrow>
    guardStep store sem ctxErr s (setFlight f Fetching (s\<lparr> gs_cache := c' \<rparr>))"
| acquire: "flightAt s f fl \<Longrightarrow> fl_phase fl = Fetching \<Longrightarrow> slotFree sem s \<Longrightarrow>
    guardStep store sem ctxErr s
      (setFlight f InUpstream (s\<lparr> gs_held := (if sem = None then gs_held s else gs_held s + 1) \<rparr>))"
| acquire_fails: "flightAt s f fl \<Longrightarrow> fl_phase fl = Fetching \<Longrightarrow> sem \<noteq> None \<Longrightarrow> fl_leader fl \<in> gs_ended s \<Longrightarrow>
    guardStep store sem ctxErr s (setFlight f (Answered (Inl SlotWait)) s)"
| answer: "flightAt s f fl \<Longrightarrow> fl_phase fl = InUpstream \<Longrightarrow>
    guardStep store sem ctxErr s
      (setFlight f (Answered (Inr v))
        (s\<lparr> gs_held := (if sem = None then gs_held s else gs_held s - 1),
            gs_answers := insert (fl_query fl, fl_ts fl, vecOf v) (gs_answers s) \<rparr>))"
| answer_fails: "flightAt s f fl \<Longrightarrow> fl_phase fl = InUpstream \<Longrightarrow>
    guardStep store sem ctxErr s
      (setFlight f (Answered (Inl (Upstream e))) (s\<lparr> gs_held := (if sem = None then gs_held s else gs_held s - 1) \<rparr>))"
| fill: "flightAt s f fl \<Longrightarrow> fl_phase fl = Answered (Inr v) \<Longrightarrow>
    guardStep store sem ctxErr s
      (setFlight f (Returned (Inr v))
        (s\<lparr> gs_cache := (if fl_shared fl then cachePut (keyFor store (fl_query fl) (fl_ts fl)) v now (gs_cache s)
                        else gs_cache s) \<rparr>))"
| no_fill: "flightAt s f fl \<Longrightarrow> fl_phase fl = Answered (Inl e) \<Longrightarrow>
    guardStep store sem ctxErr s (setFlight f (Returned (Inl e)) s)"
| forget: "flightAt s f fl \<Longrightarrow> fl_phase fl = Returned r \<Longrightarrow>
    guardStep store sem ctxErr s
      (setFlight f (Delivered r)
        (s\<lparr> gs_group := (if fl_shared fl then gm_del (flightKey (fl_query fl) (fl_ts fl)) (gs_group s)
                        else gs_group s) \<rparr>))"
| receive: "caller s i rq (Waiting f a led) \<Longrightarrow> flightAt s f fl \<Longrightarrow> fl_phase fl = Delivered (Inr v) \<Longrightarrow>
    guardStep store sem ctxErr s (setCaller i (Finished (Inr v)) s)"
| receive_error: "caller s i rq (Waiting f a led) \<Longrightarrow> flightAt s f fl \<Longrightarrow> fl_phase fl = Delivered (Inl e) \<Longrightarrow>
    \<not> (\<not> led \<and> a = 0 \<and> i \<notin> gs_ended s \<and> isContextErr ctxErr e) \<Longrightarrow>
    guardStep store sem ctxErr s (setCaller i (Finished (Inl e)) s)"
| retry: "caller s i rq (Waiting f a led) \<Longrightarrow> flightAt s f fl \<Longrightarrow> fl_phase fl = Delivered (Inl e) \<Longrightarrow>
    \<not> led \<Longrightarrow> a = 0 \<Longrightarrow> i \<notin> gs_ended s \<Longrightarrow> isContextErr ctxErr e \<Longrightarrow>
    guardStep store sem ctxErr s (setCaller i (Joining (a + 1)) s)"
| cancel: "caller s i rq (Waiting f a led) \<Longrightarrow> i \<in> gs_ended s \<Longrightarrow> gs_cache s \<noteq> None \<Longrightarrow>
    guardStep store sem ctxErr s (setCaller i (Finished (Inl CtxDone)) s)"
| end_ctx: "guardStep store sem ctxErr s (s\<lparr> gs_ended := insert i (gs_ended s) \<rparr>)"
| other_get: "ck_store k \<noteq> store \<Longrightarrow>
    guardStep store sem ctxErr s (s\<lparr> gs_cache := snd (cacheGet k now (gs_cache s)) \<rparr>)"
| other_put: "ck_store k \<noteq> store \<Longrightarrow>
    guardStep store sem ctxErr s (s\<lparr> gs_cache := cachePut k v now (gs_cache s) \<rparr>)"

text \<open>A guard starts idle, over a cache its store number has not been used with.\<close>

definition guardInit :: "64 word \<Rightarrow> ('s, 'e) guardState \<Rightarrow> bool" where
  "guardInit store s \<longleftrightarrow>
     gs_held s = 0 \<and> gs_group s = [] \<and> gs_flights s = [] \<and> gs_callers s = [] \<and> gs_answers s = {} \<and>
     qc.justified (\<lambda>k v. ck_store k \<noteq> store) (gs_cache s)"

inductive guardRun ::
  "64 word \<Rightarrow> nat option \<Rightarrow> ('e \<Rightarrow> bool) \<Rightarrow> ('s, 'e) guardState \<Rightarrow> bool" for store sem ctxErr
where
  init: "guardInit store s \<Longrightarrow> guardRun store sem ctxErr s"
| step: "guardRun store sem ctxErr s \<Longrightarrow> guardStep store sem ctxErr s s' \<Longrightarrow> guardRun store sem ctxErr s'"

inductive_cases guardStepE: "guardStep store sem ctxErr s s'"

section \<open>Flight keys\<close>

lemma FormatInt_no_NUL: "CHR 0x00 \<notin> set (FormatInt a)"
proof -
  have "CHR 0x00 \<notin> set (digits n)" for n using digits_props [of n] by fastforce
  then show ?thesis by (simp add: FormatInt_def)
qed

lemma flightKey_inj: "flightKey q t = flightKey q' t' \<longleftrightarrow> q = q' \<and> t = t'"
proof
  assume "flightKey q t = flightKey q' t'"
  then have "rev (flightKey q t) = rev (flightKey q' t')" by simp
  then have eq: "rev (FormatInt (sint t)) @ CHR 0x00 # rev q = rev (FormatInt (sint t')) @ CHR 0x00 # rev q'"
    by (simp add: flightKey_def)
  have "CHR 0x00 \<notin> set (rev (FormatInt (sint t)))" "CHR 0x00 \<notin> set (rev (FormatInt (sint t')))"
    using FormatInt_no_NUL by simp_all
  from sep_split [OF this eq] have "FormatInt (sint t) = FormatInt (sint t')" and q: "q = q'" by simp_all
  then have "sint t = sint t'" using FormatInt_inj by blast
  then have "(of_int (sint t) :: 64 word) = of_int (sint t')" by simp
  then show "q = q' \<and> t = t'" using q by simp
qed simp

section \<open>Invariants\<close>

definition active :: "('s, 'e) flight \<Rightarrow> bool" where
  "active fl \<longleftrightarrow> (\<forall>r. fl_phase fl \<noteq> Delivered r)"

text \<open>The group's map is exactly the shared flights in progress.\<close>

definition groupOk :: "(string, nat) gomap \<Rightarrow> ('s, 'e) flight list \<Rightarrow> bool" where
  "groupOk g fls \<longleftrightarrow>
     (\<forall>k f. gm_get g k = Some f \<longleftrightarrow>
        f < length fls \<and> fl_shared (fls ! f) \<and> active (fls ! f) \<and> flightKey (fl_query (fls ! f)) (fl_ts (fls ! f)) = k)"

lemma groupOk_phase:
  assumes "groupOk g fls" and "f < length fls" and "active (fls ! f)" and "\<And>r. p \<noteq> Delivered r"
  shows "groupOk g (fls[f := (fls ! f)\<lparr> fl_phase := p \<rparr>])"
proof -
  have "fl_shared ((fls[f := (fls ! f)\<lparr> fl_phase := p \<rparr>]) ! j) = fl_shared (fls ! j) \<and>
      active ((fls[f := (fls ! f)\<lparr> fl_phase := p \<rparr>]) ! j) = active (fls ! j) \<and>
      fl_query ((fls[f := (fls ! f)\<lparr> fl_phase := p \<rparr>]) ! j) = fl_query (fls ! j) \<and>
      fl_ts ((fls[f := (fls ! f)\<lparr> fl_phase := p \<rparr>]) ! j) = fl_ts (fls ! j)" if "j < length fls" for j
    using assms(2-4) that by (cases "j = f") (auto simp: active_def)
  then show ?thesis using assms(1) unfolding groupOk_def length_list_update by (simp cong: conj_cong)
qed

lemma groupOk_new:
  assumes "groupOk g fls" and "active fl"
  shows "\<not> fl_shared fl \<Longrightarrow> groupOk g (fls @ [fl])"
    and "fl_shared fl \<Longrightarrow> gm_get g (flightKey (fl_query fl) (fl_ts fl)) = None \<Longrightarrow>
      groupOk (gm_put (flightKey (fl_query fl) (fl_ts fl)) (length fls) g) (fls @ [fl])"
proof -
  have g: "gm_get g k = Some f \<longleftrightarrow> f < length fls \<and> fl_shared (fls ! f) \<and> active (fls ! f) \<and>
      flightKey (fl_query (fls ! f)) (fl_ts (fls ! f)) = k" for k f
    using assms(1) unfolding groupOk_def by blast
  show "groupOk g (fls @ [fl])" if "\<not> fl_shared fl"
    unfolding groupOk_def g using that by (auto simp: nth_append less_Suc_eq)
  show "groupOk (gm_put (flightKey (fl_query fl) (fl_ts fl)) (length fls) g) (fls @ [fl])"
    if "fl_shared fl" "gm_get g (flightKey (fl_query fl) (fl_ts fl)) = None"
  proof -
    have none: "\<not> (f < length fls \<and> fl_shared (fls ! f) \<and> active (fls ! f) \<and>
        flightKey (fl_query (fls ! f)) (fl_ts (fls ! f)) = flightKey (fl_query fl) (fl_ts fl))" for f
      using that(2) g by (metis option.distinct(1))
    show ?thesis
      unfolding groupOk_def gm_get_put fun_upd_apply
      using g none that(1) assms(2) by (auto simp: nth_append less_Suc_eq)
  qed
qed

lemma groupOk_forget:
  assumes "groupOk g fls" and "f < length fls" and "active (fls ! f)"
  shows "groupOk (if fl_shared (fls ! f) then gm_del (flightKey (fl_query (fls ! f)) (fl_ts (fls ! f))) g else g)
     (fls[f := (fls ! f)\<lparr> fl_phase := Delivered r \<rparr>])"
proof -
  have g: "gm_get g k = Some j \<longleftrightarrow> j < length fls \<and> fl_shared (fls ! j) \<and> active (fls ! j) \<and>
      flightKey (fl_query (fls ! j)) (fl_ts (fls ! j)) = k" for k j
    using assms(1) unfolding groupOk_def by blast
  have same: "j = f" if "fl_shared (fls ! f)" "j < length fls" "fl_shared (fls ! j)" "active (fls ! j)"
      "flightKey (fl_query (fls ! j)) (fl_ts (fls ! j)) = flightKey (fl_query (fls ! f)) (fl_ts (fls ! f))" for j
    using g [of "flightKey (fl_query (fls ! f)) (fl_ts (fls ! f))"] assms(2,3) that by (metis option.inject)
  show ?thesis
    unfolding groupOk_def using g same assms(2) by (auto simp: nth_list_update active_def)
qed

lemma setCaller_sel [simp]:
  "gs_cache (setCaller i p s) = gs_cache s" "gs_held (setCaller i p s) = gs_held s"
  "gs_group (setCaller i p s) = gs_group s" "gs_flights (setCaller i p s) = gs_flights s"
  "gs_ended (setCaller i p s) = gs_ended s" "gs_answers (setCaller i p s) = gs_answers s"
  "gs_callers (setCaller i p s) = (gs_callers s)[i := (fst (gs_callers s ! i), p)]"
  by (simp_all add: setCaller_def)

lemma setFlight_sel [simp]:
  "gs_cache (setFlight f p s) = gs_cache s" "gs_held (setFlight f p s) = gs_held s"
  "gs_group (setFlight f p s) = gs_group s" "gs_callers (setFlight f p s) = gs_callers s"
  "gs_ended (setFlight f p s) = gs_ended s" "gs_answers (setFlight f p s) = gs_answers s"
  "gs_flights (setFlight f p s) = (gs_flights s)[f := (gs_flights s ! f)\<lparr> fl_phase := p \<rparr>]"
  by (simp_all add: setFlight_def)

definition busy :: "('s, 'e) flight list \<Rightarrow> nat" where
  "busy fls = length (filter (\<lambda>fl. fl_phase fl = InUpstream) fls)"

definition flightOk :: "(string \<times> 64 word \<times> 's list) set \<Rightarrow> ('s, 'e) flight \<Rightarrow> bool" where
  "flightOk ans fl \<longleftrightarrow>
     (\<forall>v. fl_phase fl \<in> {Answered (Inr v), Returned (Inr v), Delivered (Inr v)} \<longrightarrow> (fl_query fl, fl_ts fl, vecOf v) \<in> ans)"

definition callerOk ::
  "(string \<times> 64 word \<times> 's list) set \<Rightarrow> ('s, 'e) flight list \<Rightarrow> request \<times> ('s, 'e) phase \<Rightarrow> bool" where
  "callerOk ans fls x \<longleftrightarrow>
     (\<forall>a. snd x = Joining a \<longrightarrow> a \<le> 1) \<and>
     (\<forall>f a led. snd x = Waiting f a led \<longrightarrow>
        f < length fls \<and> fl_query (fls ! f) = rq_query (fst x) \<and> fl_ts (fls ! f) = rq_ts (fst x) \<and> a \<le> 1) \<and>
     (\<forall>v. snd x = Finished (Inr v) \<longrightarrow> (rq_query (fst x), rq_ts (fst x), vecOf v) \<in> ans)"

definition guardOk :: "64 word \<Rightarrow> nat option \<Rightarrow> ('s, 'e) guardState \<Rightarrow> bool" where
  "guardOk store sem s \<longleftrightarrow>
     groupOk (gs_group s) (gs_flights s) \<and>
     (\<forall>n. sem = Some n \<longrightarrow> gs_held s = busy (gs_flights s) \<and> gs_held s \<le> n) \<and>
     qc.justified (\<lambda>k v. ck_store k = store \<longrightarrow> (ck_query k, ck_ts k, v) \<in> gs_answers s) (gs_cache s) \<and>
     (\<forall>fl\<in>set (gs_flights s). flightOk (gs_answers s) fl) \<and>
     (\<forall>x\<in>set (gs_callers s). callerOk (gs_answers s) (gs_flights s) x)"

lemma flightOk_mono: "flightOk ans fl \<Longrightarrow> ans \<subseteq> ans' \<Longrightarrow> flightOk ans' fl"
  unfolding flightOk_def by blast

lemma flightOk_phase [simp]:
  "flightOk ans (fl\<lparr> fl_phase := p \<rparr>) \<longleftrightarrow>
     (\<forall>v. p \<in> {Answered (Inr v), Returned (Inr v), Delivered (Inr v)} \<longrightarrow> (fl_query fl, fl_ts fl, vecOf v) \<in> ans)"
  by (simp add: flightOk_def)

lemma flightOkD:
  "flightOk ans fl \<Longrightarrow> fl_phase fl = Answered (Inr v) \<Longrightarrow> (fl_query fl, fl_ts fl, vecOf v) \<in> ans"
  "flightOk ans fl \<Longrightarrow> fl_phase fl = Returned (Inr v) \<Longrightarrow> (fl_query fl, fl_ts fl, vecOf v) \<in> ans"
  "flightOk ans fl \<Longrightarrow> fl_phase fl = Delivered (Inr v) \<Longrightarrow> (fl_query fl, fl_ts fl, vecOf v) \<in> ans"
  by (simp_all add: flightOk_def)

lemma callerOk_mono:
  "callerOk ans fls x \<Longrightarrow> ans \<subseteq> ans' \<Longrightarrow> length fls \<le> length fls' \<Longrightarrow>
   (\<And>f. f < length fls \<Longrightarrow> fl_query (fls' ! f) = fl_query (fls ! f) \<and> fl_ts (fls' ! f) = fl_ts (fls ! f)) \<Longrightarrow>
   callerOk ans' fls' x"
  by (auto simp: callerOk_def)

lemma callerOk_phase [simp]:
  "callerOk ans fls (rq, Started)"
  "callerOk ans fls (rq, Joining a) \<longleftrightarrow> a \<le> 1"
  "callerOk ans fls (rq, Waiting f a led) \<longleftrightarrow>
     f < length fls \<and> fl_query (fls ! f) = rq_query rq \<and> fl_ts (fls ! f) = rq_ts rq \<and> a \<le> 1"
  "callerOk ans fls (rq, Finished (Inr v)) \<longleftrightarrow> (rq_query rq, rq_ts rq, vecOf v) \<in> ans"
  "callerOk ans fls (rq, Finished (Inl e))"
  by (auto simp: callerOk_def)

lemma in_updateD: "x \<in> set (xs[i := y]) \<Longrightarrow> x = y \<or> x \<in> set xs"
  using set_update_subset_insert [of xs i y] by blast

lemma busy_append: "busy (fls @ [fl]) = busy fls + (if fl_phase fl = InUpstream then 1 else 0)"
  by (simp add: busy_def)

lemma busy_update:
  "f < length fls \<Longrightarrow>
   busy (fls[f := fl]) + (if fl_phase (fls ! f) = InUpstream then 1 else 0)
     = busy fls + (if fl_phase fl = InUpstream then 1 else 0)"
proof (induction fls arbitrary: f)
  case (Cons x fls)
  then show ?case by (cases f) (auto simp: busy_def)
qed simp

lemma busy_pos: "f < length fls \<Longrightarrow> fl_phase (fls ! f) = InUpstream \<Longrightarrow> 0 < busy fls"
  by (auto simp: busy_def filter_empty_conv)

lemma step_group:
  assumes "guardStep store sem ctxErr s s'" and "groupOk (gs_group s) (gs_flights s)"
  shows "groupOk (gs_group s') (gs_flights s')"
  using assms(1)
proof cases
  case (forget f fl r)
  then have "gs_flights s ! f = fl" "f < length (gs_flights s)" "active (gs_flights s ! f)"
    by (auto simp: flightAt_def active_def)
  with groupOk_forget [OF assms(2), of f r] forget(1) show ?thesis by auto
next
  case (lead i rq a)
  show ?thesis
    using groupOk_new(2) [OF assms(2), of "\<lparr> fl_query = rq_query rq, fl_ts = rq_ts rq, fl_leader = i,
        fl_shared = True, fl_phase = Checking \<rparr>"] lead by (simp add: active_def)
qed (use assms(2) in \<open>auto simp: flightAt_def active_def intro!: groupOk_phase groupOk_new\<close>)

lemma step_answers: "guardStep store sem ctxErr s s' \<Longrightarrow> gs_answers s \<subseteq> gs_answers s'"
  by (induction rule: guardStep.induct) auto

lemma busy_phase:
  assumes "f < length fls"
  shows "busy (fls[f := (fls ! f)\<lparr> fl_phase := p \<rparr>]) =
     (if p = InUpstream then (if fl_phase (fls ! f) = InUpstream then busy fls else busy fls + 1)
      else if fl_phase (fls ! f) = InUpstream then busy fls - 1 else busy fls)"
  using busy_update [OF assms, of "(fls ! f)\<lparr> fl_phase := p \<rparr>"] busy_pos [OF assms] by auto

lemma step_held:
  assumes "guardStep store sem ctxErr s s'" and "sem = Some n" and "gs_held s = busy (gs_flights s)" and "gs_held s \<le> n"
  shows "gs_held s' = busy (gs_flights s') \<and> gs_held s' \<le> n"
  using assms by cases (auto simp: flightAt_def slotFree_def busy_append busy_phase)

lemma step_flights:
  assumes "guardStep store sem ctxErr s s'" and "\<forall>fl\<in>set (gs_flights s). flightOk (gs_answers s) fl"
    and "qc.justified (\<lambda>k v. ck_store k = store \<longrightarrow> (ck_query k, ck_ts k, v) \<in> gs_answers s) (gs_cache s)"
  shows "\<forall>fl\<in>set (gs_flights s'). flightOk (gs_answers s') fl"
proof -
  have old: "\<forall>fl\<in>set (gs_flights s). flightOk (gs_answers s') fl"
    using assms(2) step_answers [OF assms(1)] flightOk_mono by blast
  have at: "(fl_query (gs_flights s ! f), fl_ts (gs_flights s ! f), vecOf v) \<in> gs_answers s"
    if "f < length (gs_flights s)"
      "fl_phase (gs_flights s ! f) = Answered (Inr v) \<or> fl_phase (gs_flights s ! f) = Returned (Inr v)" for f v
    using flightOkD assms(2) that by (metis nth_mem)
  show ?thesis
    using assms(1)
  proof cases
    case (check_hit f fl now v c')
    then have "(fl_query fl, fl_ts fl, v) \<in> gs_answers s"
      using qc.justified_lookup [OF assms(3) check_hit(4)] by (simp add: keyFor_def)
    then show ?thesis using check_hit(1,2) old by (auto simp: flightAt_def vecOf_def dest!: in_updateD)
  next
    case (uncached i rq)
    then show ?thesis using old by (simp add: flightOk_def)
  next
    case (lead i rq a)
    then show ?thesis using old by (simp add: flightOk_def)
  qed (use old at in \<open>auto simp: flightAt_def dest!: in_updateD\<close>)
qed

lemma step_cache:
  assumes "guardStep store sem ctxErr s s'" and "\<forall>fl\<in>set (gs_flights s). flightOk (gs_answers s) fl"
    and "qc.justified (\<lambda>k v. ck_store k = store \<longrightarrow> (ck_query k, ck_ts k, v) \<in> gs_answers s) (gs_cache s)"
  shows "qc.justified (\<lambda>k v. ck_store k = store \<longrightarrow> (ck_query k, ck_ts k, v) \<in> gs_answers s') (gs_cache s')"
proof -
  let ?P = "\<lambda>k v. ck_store k = store \<longrightarrow> (ck_query k, ck_ts k, v) \<in> gs_answers s'"
  have old: "qc.justified ?P (gs_cache s)"
    by (rule qc.justified_mono [OF assms(3)]) (use step_answers [OF assms(1)] in blast)
  have get: "qc.justified ?P c'" if "cacheGet k now (gs_cache s) = (r, c')" for k now r c'
    using qc.justified_lookup [OF old that] by blast
  have put: "qc.justified ?P (cachePut k v now (gs_cache s))" if "?P k (vecOf v)" for k v now
    using qc.justified_store [OF old, of k "vecOf v" now] that cachePut_vecOf [of k v now] by simp
  have at: "flightOk (gs_answers s) fl" if "flightAt s f fl" for f fl
    using assms(2) that by (auto simp: flightAt_def)
  show ?thesis
    using assms(1)
  proof cases
    case (fill f fl v now)
    have "(fl_query fl, fl_ts fl, vecOf v) \<in> gs_answers s'"
      using at [OF fill(2)] fill(3) step_answers [OF assms(1)] by (auto simp: flightOk_def)
    then show ?thesis using fill(1) old put by (auto simp: keyFor_def)
  next
    case (other_get k now)
    then show ?thesis using get [of k now] by (cases "cacheGet k now (gs_cache s)") simp
  next
    case (other_put k v now)
    then show ?thesis using put [of k v now] by simp
  qed (use old get in auto)
qed

lemma step_callers:
  assumes "guardStep store sem ctxErr s s'" and "guardOk store sem s"
  shows "\<forall>x\<in>set (gs_callers s'). callerOk (gs_answers s') (gs_flights s') x"
proof -
  have ok: "\<forall>x\<in>set (gs_callers s). callerOk (gs_answers s) (gs_flights s) x"
    "\<forall>fl\<in>set (gs_flights s). flightOk (gs_answers s) fl" "groupOk (gs_group s) (gs_flights s)"
    "qc.justified (\<lambda>k v. ck_store k = store \<longrightarrow> (ck_query k, ck_ts k, v) \<in> gs_answers s) (gs_cache s)"
    using assms(2) unfolding guardOk_def by blast+
  have ext: "length (gs_flights s) \<le> length (gs_flights s') \<and>
      (\<forall>f < length (gs_flights s). fl_query (gs_flights s' ! f) = fl_query (gs_flights s ! f) \<and>
         fl_ts (gs_flights s' ! f) = fl_ts (gs_flights s ! f))"
    using assms(1) by cases (auto simp: nth_append nth_list_update flightAt_def)
  have old: "\<forall>x\<in>set (gs_callers s). callerOk (gs_answers s') (gs_flights s') x"
    using ok(1) step_answers [OF assms(1)] ext by (metis callerOk_mono)
  have at: "callerOk (gs_answers s) (gs_flights s) (rq, p)" if "caller s i rq p" for i rq p
    using ok(1) that by (metis caller_def nth_mem)
  have fl: "flightOk (gs_answers s) fl" if "flightAt s f fl" for f fl
    using ok(2) that by (auto simp: flightAt_def)
  show ?thesis
    using assms(1)
  proof cases
    case (lookup_hit i rq now v c')
    have "(rq_query rq, rq_ts rq, v) \<in> gs_answers s"
      using qc.justified_lookup [OF ok(4) lookup_hit(5)] by (simp add: keyFor_def)
    then show ?thesis using lookup_hit(1,2) old by (auto simp: caller_def vecOf_def dest!: in_updateD)
  next
    case (join i rq a f)
    have "f < length (gs_flights s) \<and> flightKey (fl_query (gs_flights s ! f)) (fl_ts (gs_flights s ! f)) = flightKey (rq_query rq) (rq_ts rq)"
      using ok(3) join(3) unfolding groupOk_def by blast
    then show ?thesis
      using join(1,2) at [OF join(2)] old by (auto simp: caller_def flightKey_inj dest!: in_updateD)
  next
    case (receive i rq f a led fl' v)
    then have "(rq_query rq, rq_ts rq, vecOf v) \<in> gs_answers s"
      using at [OF receive(2)] fl [OF receive(3)] by (auto simp: callerOk_def flightOk_def flightAt_def)
    then show ?thesis using receive(1,2) old by (auto simp: caller_def dest!: in_updateD)
  next
    case (receive_error i rq f a led fl' e)
    then show ?thesis using old by (auto simp: caller_def dest!: in_updateD)
  next
    case (retry i rq f a led fl' e)
    then show ?thesis using old by (auto simp: caller_def dest!: in_updateD)
  next
    case (lead i rq a)
    then show ?thesis using old at [OF lead(2)] by (auto simp: caller_def dest!: in_updateD)
  next
    case (uncached i rq)
    then show ?thesis using old by (auto simp: caller_def dest!: in_updateD)
  next
    case (probe i rq ans v)
    then show ?thesis using old by (auto simp: caller_def dest!: in_updateD)
  qed (use old in \<open>auto simp: caller_def dest!: in_updateD\<close>)
qed

lemma guardRun_ok: "guardRun store sem ctxErr s \<Longrightarrow> guardOk store sem s"
proof (induction rule: guardRun.induct)
  case (init s)
  then have "qc.justified (\<lambda>k v. ck_store k \<noteq> store) (gs_cache s)" by (simp add: guardInit_def)
  then have "qc.justified (\<lambda>k v. ck_store k = store \<longrightarrow> (ck_query k, ck_ts k, v) \<in> gs_answers s) (gs_cache s)"
    by (rule qc.justified_mono) simp
  with init show ?case by (simp add: guardInit_def guardOk_def groupOk_def busy_def)
next
  case (step s s')
  then show ?case
    using step_group [OF step.hyps(2)] step_held [OF step.hyps(2)] step_flights [OF step.hyps(2)]
      step_cache [OF step.hyps(2)] step_callers [OF step.hyps(2)]
    unfolding guardOk_def by blast
qed

section \<open>Progress\<close>

text \<open>An upper bound on the steps a caller, or a flight, can still take.\<close>

fun callerWork :: "request \<times> ('s, 'e) phase \<Rightarrow> nat" where
  "callerWork (rq, Started) = 11"
| "callerWork (rq, Joining a) = (if a = 0 then 10 else 8)"
| "callerWork (rq, Waiting f a led) = (if a = 0 \<and> \<not> led then 9 else 1)"
| "callerWork (rq, Finished r) = 0"

definition flightWork :: "('s, 'e) flight \<Rightarrow> nat" where
  "flightWork fl = (case fl_phase fl of Checking \<Rightarrow> 6 | Fetching \<Rightarrow> 5 | InUpstream \<Rightarrow> 4 | Answered _ \<Rightarrow> 3
     | Returned _ \<Rightarrow> 2 | Delivered _ \<Rightarrow> 1)"

definition work :: "('s, 'e) guardState \<Rightarrow> nat" where
  "work s = sum_list (map callerWork (gs_callers s)) + sum_list (map flightWork (gs_flights s))"

lemma sum_update:
  "i < length xs \<Longrightarrow> sum_list (map w (xs[i := y])) + w (xs ! i) = sum_list (map w xs) + (w y :: nat)"
proof (induction xs arbitrary: i)
  case (Cons x xs)
  then show ?case by (cases i) auto
qed simp

lemma work_caller:
  assumes "caller s i rq p" and "gs_flights s' = gs_flights s @ fls" and "gs_callers s' = gs_callers s"
  shows "work (setCaller i p' s') + callerWork (rq, p) = work s + callerWork (rq, p') + sum_list (map flightWork fls)"
  using assms sum_update [of i "gs_callers s" callerWork "(rq, p')"] by (simp add: work_def caller_def)

lemma work_flight:
  assumes "flightAt s f fl" and "gs_flights s' = gs_flights s" and "gs_callers s' = gs_callers s"
  shows "work (setFlight f p s') + flightWork fl = work s + flightWork (fl\<lparr> fl_phase := p \<rparr>)"
  using assms sum_update [of f "gs_flights s" flightWork "fl\<lparr> fl_phase := p \<rparr>"] by (simp add: work_def flightAt_def)

lemma flightWork_phase [simp]:
  "flightWork (fl\<lparr> fl_phase := p \<rparr>) = (case p of Checking \<Rightarrow> 6 | Fetching \<Rightarrow> 5 | InUpstream \<Rightarrow> 4 | Answered _ \<Rightarrow> 3
     | Returned _ \<Rightarrow> 2 | Delivered _ \<Rightarrow> 1)"
  by (simp add: flightWork_def)

lemma flightWork_at:
  "fl_phase fl = Checking \<Longrightarrow> flightWork fl = 6" "fl_phase fl = Fetching \<Longrightarrow> flightWork fl = 5"
  "fl_phase fl = InUpstream \<Longrightarrow> flightWork fl = 4" "fl_phase fl = Answered r \<Longrightarrow> flightWork fl = 3"
  "fl_phase fl = Returned r \<Longrightarrow> flightWork fl = 2"
  by (simp_all add: flightWork_def)

lemma caller_work:
  assumes "caller s i rq p" and "gs_flights s' = gs_flights s @ fls" and "gs_callers s' = gs_callers s"
    and "callerWork (rq, p') + sum_list (map flightWork fls) < callerWork (rq, p)"
  shows "work (setCaller i p' s') < work s"
  using work_caller [OF assms(1-3), of p'] assms(4) by simp

lemma flight_work:
  assumes "flightAt s f fl" and "gs_flights s' = gs_flights s" and "gs_callers s' = gs_callers s"
    and "flightWork (fl\<lparr> fl_phase := p \<rparr>) < flightWork fl"
  shows "work (setFlight f p s') < work s"
  using work_flight [OF assms(1-3), of p] assms(4) by simp

lemma step_work:
  assumes "guardStep store sem ctxErr s s'" and "guardOk store sem s"
  shows "(gs_callers s' = gs_callers s \<and> gs_flights s' = gs_flights s) \<or>
    (\<exists>rq. gs_callers s' = gs_callers s @ [(rq, Started)] \<and> gs_flights s' = gs_flights s) \<or> work s' < work s"
  using assms(1)
proof cases
  case (uncached i rq)
  then have "work s' < work s" by (auto intro!: caller_work simp: flightWork_def)
  then show ?thesis by blast
next
  case (lead i rq a)
  then have "work s' < work s" by (auto intro!: caller_work simp: flightWork_def)
  then show ?thesis by blast
next
  case (retry i rq f a led fl e)
  then have "work s' < work s" by (auto intro!: caller_work [where fls = "[]"])
  then show ?thesis by blast
qed (auto intro!: disjI2 caller_work [where fls = "[]"] flight_work simp: flightWork_at)

lemma upstream_progress:
  assumes "flightAt s f fl" and "fl_phase fl = InUpstream"
  shows "\<exists>s'. guardStep store sem ctxErr s s' \<and> work s' < work s"
  using guardStep.answer [OF assms, of store sem ctxErr None] assms
  by (intro exI conjI) (assumption, auto intro!: flight_work simp: flightWork_at)

lemma flight_progress:
  assumes "guardOk store sem s" and "sem \<noteq> Some 0" and "flightAt s f fl" and "active fl"
  shows "\<exists>s'. guardStep store sem ctxErr s s' \<and> work s' < work s"
proof -
  note less = flight_work [OF assms(3)]
  show ?thesis
  proof (cases "fl_phase fl")
    case Checking
    obtain r c' where get: "cacheGet (keyFor store (fl_query fl) (fl_ts fl)) 0 (gs_cache s) = (r, c')" by fastforce
    show ?thesis
    proof (cases r)
      case None
      from guardStep.check_miss [OF assms(3) Checking get [unfolded None]] show ?thesis
        by (intro exI conjI) (assumption, auto intro!: less simp: flightWork_at Checking)
    next
      case (Some v)
      from guardStep.check_hit [OF assms(3) Checking get [unfolded Some]] show ?thesis
        by (intro exI conjI) (assumption, auto intro!: less simp: flightWork_at Checking)
    qed
  next
    case Fetching
    show ?thesis
    proof (cases "slotFree sem s")
      case True
      from guardStep.acquire [OF assms(3) Fetching True] show ?thesis
        by (intro exI conjI) (assumption, auto intro!: less simp: flightWork_at Fetching)
    next
      case False
      then obtain n where n: "sem = Some n" "n \<le> gs_held s" by (auto simp: slotFree_def split: option.splits)
      then have "0 < busy (gs_flights s)" using assms(1,2) by (auto simp: guardOk_def)
      then obtain fl' where "fl' \<in> set (gs_flights s)" "fl_phase fl' = InUpstream"
        by (auto simp: busy_def filter_empty_conv)
      then obtain f' where "flightAt s f' fl'" by (auto simp: flightAt_def in_set_conv_nth)
      then show ?thesis using \<open>fl_phase fl' = InUpstream\<close> by (rule upstream_progress)
    qed
  next
    case InUpstream
    with assms(3) show ?thesis by (rule upstream_progress)
  next
    case (Answered r)
    show ?thesis
    proof (cases r)
      case (Inl e)
      from guardStep.no_fill [OF assms(3) Answered [unfolded Inl]] show ?thesis
        by (intro exI conjI) (assumption, auto intro!: less simp: flightWork_at Answered)
    next
      case (Inr v)
      from guardStep.fill [OF assms(3) Answered [unfolded Inr]] show ?thesis
        by (intro exI conjI) (assumption, auto intro!: less simp: flightWork_at Answered)
    qed
  next
    case (Returned r)
    from guardStep.forget [OF assms(3) Returned] show ?thesis
      by (intro exI conjI) (assumption, auto intro!: less simp: flightWork_at Returned)
  next
    case (Delivered r)
    with assms(4) show ?thesis by (simp add: active_def)
  qed
qed

lemma caller_progress:
  assumes "guardOk store sem s" and "sem \<noteq> Some 0" and "caller s i rq p" and "\<And>r. p \<noteq> Finished r"
  shows "\<exists>s'. guardStep store sem ctxErr s s' \<and> work s' < work s"
proof (cases p)
  case Started
  note at = assms(3) [unfolded Started]
  show ?thesis
  proof (cases "isProbe (rq_name rq)")
    case True
    have "guardStep store sem ctxErr s (setCaller i (Finished (Inr None))
        (s\<lparr> gs_answers := gs_answers s \<union> {(rq_query rq, rq_ts rq, vecOf v) | v. Inr None = (Inr v :: ('a, 'b) result)} \<rparr>))"
      by (rule guardStep.probe [OF at True, where v = None]) simp
    then show ?thesis
      by (intro exI conjI) (assumption, auto intro!: caller_work [OF at, where fls = "[]"])
  next
    case False
    show ?thesis
    proof (cases "gs_cache s = None")
      case True
      from guardStep.uncached [OF at False True] show ?thesis
        by (intro exI conjI) (assumption, auto intro!: caller_work [OF at] simp: flightWork_def)
    next
      case cached: False
      obtain r c' where get: "cacheGet (keyFor store (rq_query rq) (rq_ts rq)) 0 (gs_cache s) = (r, c')" by fastforce
      show ?thesis
      proof (cases r)
        case None
        from guardStep.lookup_miss [OF at False cached get [unfolded None]] show ?thesis
          by (intro exI conjI) (assumption, auto intro!: caller_work [OF at, where fls = "[]"])
      next
        case (Some v)
        from guardStep.lookup_hit [OF at False cached get [unfolded Some]] show ?thesis
          by (intro exI conjI) (assumption, auto intro!: caller_work [OF at, where fls = "[]"])
      qed
    qed
  qed
next
  case (Joining a)
  note at = assms(3) [unfolded Joining]
  show ?thesis
  proof (cases "gm_get (gs_group s) (flightKey (rq_query rq) (rq_ts rq))")
    case None
    from guardStep.lead [OF at None] show ?thesis
      by (intro exI conjI) (assumption, auto intro!: caller_work [OF at] simp: flightWork_def)
  next
    case (Some f)
    from guardStep.join [OF at Some] show ?thesis
      by (intro exI conjI) (assumption, auto intro!: caller_work [OF at, where fls = "[]"])
  qed
next
  case (Waiting f a led)
  note at = assms(3) [unfolded Waiting]
  have "callerOk (gs_answers s) (gs_flights s) (rq, Waiting f a led)"
    using assms(1) at by (auto simp: guardOk_def caller_def dest!: nth_mem)
  then obtain fl where fl: "flightAt s f fl" by (auto simp: flightAt_def)
  show ?thesis
  proof (cases "active fl")
    case True
    with assms(1,2) fl show ?thesis by (rule flight_progress)
  next
    case False
    then obtain r where r: "fl_phase fl = Delivered r" by (auto simp: active_def)
    have done_step: "\<exists>s'. guardStep store sem ctxErr s s' \<and> work s' < work s"
      if "guardStep store sem ctxErr s (setCaller i (Finished x) s)" for x
      using that by (intro exI conjI) (assumption, auto intro!: caller_work [OF at, where fls = "[]"])
    show ?thesis
    proof (cases r)
      case (Inr v)
      then show ?thesis using guardStep.receive [OF at fl r [unfolded Inr]] by (intro done_step)
    next
      case (Inl e)
      show ?thesis
      proof (cases "\<not> led \<and> a = 0 \<and> i \<notin> gs_ended s \<and> isContextErr ctxErr e")
        case True
        then have "guardStep store sem ctxErr s (setCaller i (Joining (a + 1)) s)"
          using guardStep.retry [OF at fl r [unfolded Inl]] by blast
        then show ?thesis using True
          by (intro exI conjI) (assumption, auto intro!: caller_work [OF at, where fls = "[]"])
      next
        case False
        then show ?thesis using guardStep.receive_error [OF at fl r [unfolded Inl]] by (intro done_step) blast
      qed
    qed
  qed
next
  case (Finished r)
  with assms(4) [of r] show ?thesis by simp
qed

section \<open>Properties\<close>

text \<open>
  C6: callers only ever receive genuine answers. In every interleaving of any number of callers, with
  other stores using the same cache, a caller that finishes with a vector receives one that the upstream
  of this store returned for that caller's own query string and instant - whether it came from the cache,
  from a flight it led, from a flight it joined, or after its retry.
\<close>

theorem guard_answers_genuine:
  assumes "guardRun store sem ctxErr s" and "(rq, Finished (Inr v)) \<in> set (gs_callers s)"
  shows "(rq_query rq, rq_ts rq, vecOf v) \<in> gs_answers s"
proof -
  have "\<forall>x\<in>set (gs_callers s). callerOk (gs_answers s) (gs_flights s) x"
    using guardRun_ok [OF assms(1)] by (simp add: guardOk_def)
  then show ?thesis using assms(2) by fastforce
qed

text \<open>
  C4: misses are coalesced and the store's bound holds. At any moment at most one flight is in progress
  for a query string and instant, flights of different queries or instants are never merged, and the
  queries in flight to the store are at most the configured number.
\<close>

theorem guard_coalesces:
  assumes "guardRun store sem ctxErr s"
  shows "(\<forall>f < length (gs_flights s). \<forall>f' < length (gs_flights s).
       let a = gs_flights s ! f; b = gs_flights s ! f' in
       fl_shared a \<and> fl_shared b \<and> (\<forall>r. fl_phase a \<noteq> Delivered r) \<and> (\<forall>r. fl_phase b \<noteq> Delivered r) \<and>
       fl_query a = fl_query b \<and> fl_ts a = fl_ts b \<longrightarrow> f = f') \<and>
    (\<forall>rq f a led. (rq, Waiting f a led) \<in> set (gs_callers s) \<longrightarrow>
       f < length (gs_flights s) \<and> fl_query (gs_flights s ! f) = rq_query rq \<and> fl_ts (gs_flights s ! f) = rq_ts rq) \<and>
    (\<forall>n. sem = Some n \<longrightarrow> length (filter (\<lambda>fl. fl_phase fl = InUpstream) (gs_flights s)) \<le> n)"
proof -
  have ok: "groupOk (gs_group s) (gs_flights s)" "\<forall>n. sem = Some n \<longrightarrow> gs_held s = busy (gs_flights s) \<and> gs_held s \<le> n"
    "\<forall>x\<in>set (gs_callers s). callerOk (gs_answers s) (gs_flights s) x"
    using guardRun_ok [OF assms] unfolding guardOk_def by blast+
  have in_group: "gm_get (gs_group s) (flightKey (fl_query (gs_flights s ! f)) (fl_ts (gs_flights s ! f))) = Some f"
    if "f < length (gs_flights s)" "fl_shared (gs_flights s ! f)" "\<forall>r. fl_phase (gs_flights s ! f) \<noteq> Delivered r" for f
    using ok(1) that unfolding groupOk_def active_def by blast
  then have "\<forall>f < length (gs_flights s). \<forall>f' < length (gs_flights s).
       let a = gs_flights s ! f; b = gs_flights s ! f' in
       fl_shared a \<and> fl_shared b \<and> (\<forall>r. fl_phase a \<noteq> Delivered r) \<and> (\<forall>r. fl_phase b \<noteq> Delivered r) \<and>
       fl_query a = fl_query b \<and> fl_ts a = fl_ts b \<longrightarrow> f = f'"
    unfolding Let_def by (metis option.inject)
  moreover have "\<forall>n. sem = Some n \<longrightarrow> length (filter (\<lambda>fl. fl_phase fl = InUpstream) (gs_flights s)) \<le> n"
    using ok(2) unfolding busy_def by (metis (lifting))
  moreover have "\<forall>rq f a led. (rq, Waiting f a led) \<in> set (gs_callers s) \<longrightarrow>
       f < length (gs_flights s) \<and> fl_query (gs_flights s ! f) = rq_query rq \<and> fl_ts (gs_flights s ! f) = rq_ts rq"
    using ok(3) by fastforce
  ultimately show ?thesis by blast
qed

text \<open>
  C7: no caller hangs. Every step other than a new call, a context ending or another store's use of the
  cache consumes from a finite budget (11 per call: one retry included), and as long as some caller is
  unfinished such a step is possible, if the upstream answers and the bound is not zero. So every call
  finishes after finitely many steps.
\<close>

theorem guard_progress:
  assumes "guardRun store sem ctxErr s" and "sem \<noteq> Some 0"
  shows "(\<forall>rq p. (rq, p) \<in> set (gs_callers s) \<and> (\<forall>r. p \<noteq> Finished r) \<longrightarrow>
       (\<exists>s'. guardStep store sem ctxErr s s' \<and> work s' < work s)) \<and>
    (\<forall>s'. guardStep store sem ctxErr s s' \<longrightarrow>
       gs_callers s' = gs_callers s \<and> gs_flights s' = gs_flights s \<or>
       (\<exists>rq. gs_callers s' = gs_callers s @ [(rq, Started)] \<and> gs_flights s' = gs_flights s \<and> work s' = work s + 11) \<or>
       work s' < work s)"
proof -
  note ok = guardRun_ok [OF assms(1)]
  have "\<exists>s'. guardStep store sem ctxErr s s' \<and> work s' < work s"
    if "(rq, p) \<in> set (gs_callers s)" "\<forall>r. p \<noteq> Finished r" for rq p
  proof -
    from that(1) obtain i where "caller s i rq p" by (auto simp: caller_def in_set_conv_nth)
    with ok assms(2) show ?thesis using that(2) by (intro caller_progress) auto
  qed
  moreover have "gs_callers s' = gs_callers s @ [(rq, Started)] \<Longrightarrow> gs_flights s' = gs_flights s \<Longrightarrow> work s' = work s + 11" for s' rq
    by (simp add: work_def)
  ultimately show ?thesis using step_work [OF _ ok] by blast
qed

section \<open>A concrete run\<close>

text \<open>Two callers of the same miss, one slot: the second joins the first one's flight and the answer reaches both.\<close>

definition exRequest :: request where
  "exRequest = \<lparr> rq_name = QNodeInfo, rq_query = ''q'', rq_ts = 7 \<rparr>"

definition exState :: "nat \<Rightarrow> bool \<Rightarrow> (nat, nat) flightPhase list \<Rightarrow> (nat, nat) phase list \<Rightarrow>
    (string \<times> 64 word \<times> nat list) set \<Rightarrow> nat queryCache option \<Rightarrow> (nat, nat) guardState" where
  "exState held g fls ps ans c = \<lparr> gs_cache = c, gs_held = held,
     gs_group = (if g then [(flightKey ''q'' 7, 0)] else []),
     gs_flights = map (\<lambda>p. \<lparr> fl_query = ''q'', fl_ts = 7, fl_leader = 0, fl_shared = True, fl_phase = p \<rparr>) fls,
     gs_callers = map (\<lambda>p. (exRequest, p)) ps, gs_ended = {}, gs_answers = ans \<rparr>"

abbreviation exCache :: "nat queryCache option" where
  "exCache \<equiv> newQueryCache 3 60"

lemma exCache_miss: "cacheGet k now exCache = (None, exCache)"
  by (simp add: newQueryCache_def cacheGet_def)

lemma exCache_some: "exCache \<noteq> None"
  by (simp add: newQueryCache_def)

lemma ex_not_probe: "isProbe QNodeInfo = False"
  by code_simp

lemmas ex_defs = exState_def exRequest_def caller_def flightAt_def setCaller_def setFlight_def
  slotFree_def ex_not_probe keyFor_def exCache_miss exCache_some gm_put_def gm_get_def gm_del_def

lemma exRun_upstream:
  "guardRun 0 (Some 1) (\<lambda>_. False) (exState 1 True [InUpstream] [Waiting 0 0 True, Waiting 0 0 False] {} exCache)"
proof -
  let ?R = "guardRun 0 (Some 1) (\<lambda>_. False) :: (nat, nat) guardState \<Rightarrow> bool"
  have inv: "cacheInv exCache \<and> cacheEntries exCache = {}"
    by (simp add: cacheInv_def cacheEntries_def newQueryCache_def cache_ok_def listed_def lru_def)
  have 0: "?R (exState 0 False [] [] {} exCache)"
    by (rule guardRun.init) (simp add: guardInit_def exState_def qc.justified_def inv)
  have 1: "?R (exState 0 False [] [Started] {} exCache)"
    using guardRun.step [OF 0 guardStep.call [where rq = exRequest]] by (simp add: ex_defs)
  have 2: "?R (exState 0 False [] [Started, Started] {} exCache)"
    using guardRun.step [OF 1 guardStep.call [where rq = exRequest]] by (simp add: ex_defs)
  have 3: "?R (exState 0 False [] [Joining 0, Started] {} exCache)"
    using guardRun.step [OF 2 guardStep.lookup_miss [where i = 0 and rq = exRequest and now = 0 and c' = exCache]]
    by (simp add: ex_defs)
  have 4: "?R (exState 0 False [] [Joining 0, Joining 0] {} exCache)"
    using guardRun.step [OF 3 guardStep.lookup_miss [where i = 1 and rq = exRequest and now = 0 and c' = exCache]]
    by (simp add: ex_defs)
  have 5: "?R (exState 0 True [Checking] [Waiting 0 0 True, Joining 0] {} exCache)"
    using guardRun.step [OF 4 guardStep.lead [where i = 0 and rq = exRequest and a = 0]] by (simp add: ex_defs)
  have 6: "?R (exState 0 True [Checking] [Waiting 0 0 True, Waiting 0 0 False] {} exCache)"
    using guardRun.step [OF 5 guardStep.join [where i = 1 and rq = exRequest and a = 0 and f = 0]] by (simp add: ex_defs)
  have 7: "?R (exState 0 True [Fetching] [Waiting 0 0 True, Waiting 0 0 False] {} exCache)"
    using guardRun.step [OF 6 guardStep.check_miss [where f = 0 and now = 0 and c' = exCache]] by (simp add: ex_defs)
  show ?thesis
    using guardRun.step [OF 7 guardStep.acquire [where f = 0]] by (simp add: ex_defs)
qed

lemma exRun_finished:
  "\<exists>c. guardRun 0 (Some 1) (\<lambda>_. False)
     (exState 0 False [Delivered (Inr (Some [5]))] [Waiting 0 0 True, Finished (Inr (Some [5]))] {(''q'', 7, [5])} c)"
proof -
  let ?R = "guardRun 0 (Some 1) (\<lambda>_. False) :: (nat, nat) guardState \<Rightarrow> bool"
  let ?ps = "[Waiting 0 0 True, Waiting 0 0 False] :: (nat, nat) phase list"
  have 0: "?R (exState 0 True [Answered (Inr (Some [5]))] ?ps {(''q'', 7, [5])} exCache)"
    using guardRun.step [OF exRun_upstream guardStep.answer [where f = 0 and v = "Some [5]"]]
    by (simp add: ex_defs vecOf_def)
  obtain c where 1: "?R (exState 0 True [Returned (Inr (Some [5]))] ?ps {(''q'', 7, [5])} c)"
    using guardRun.step [OF 0 guardStep.fill [where f = 0 and v = "Some [5]" and now = 0]]
    by (simp add: ex_defs)
  have 2: "?R (exState 0 False [Delivered (Inr (Some [5]))] ?ps {(''q'', 7, [5])} c)"
    using guardRun.step [OF 1 guardStep.forget [where f = 0 and r = "Inr (Some [5])"]] by (simp add: ex_defs)
  show ?thesis
    using guardRun.step [OF 2 guardStep.receive [where i = 1 and rq = exRequest and f = 0 and a = 0 and led = False and v = "Some [5]"]]
    by (intro exI [of _ c]) (simp add: ex_defs)
qed

theorem guard_answers_genuine_witness:
  "\<exists>s. guardRun 0 (Some 1) (\<lambda>_. False) (s :: (nat, nat) guardState) \<and> length (gs_callers s) = 2 \<and>
     (exRequest, Finished (Inr (Some [5]))) \<in> set (gs_callers s) \<and> (''q'', 7, [5]) \<in> gs_answers s"
proof -
  obtain c where run: "guardRun 0 (Some 1) (\<lambda>_. False)
     (exState 0 False [Delivered (Inr (Some [5]))] [Waiting 0 0 True, Finished (Inr (Some [5]))] {(''q'', 7, [5])} c)"
    (is "guardRun _ _ _ ?s") using exRun_finished by blast
  have fin: "(exRequest, Finished (Inr (Some [5]))) \<in> set (gs_callers ?s)" by (simp add: exState_def)
  from guard_answers_genuine [OF run fin] have "(''q'', 7, [5]) \<in> gs_answers ?s" by (simp add: exRequest_def vecOf_def)
  moreover have "length (gs_callers ?s) = 2" by (simp add: exState_def)
  ultimately show ?thesis using run fin by blast
qed

theorem guard_coalesces_witness:
  "\<exists>s. guardRun 0 (Some 1) (\<lambda>_. False) (s :: (nat, nat) guardState) \<and>
     (exRequest, Waiting 0 0 False) \<in> set (gs_callers s) \<and> fl_query (gs_flights s ! 0) = ''q'' \<and>
     length (filter (\<lambda>fl. fl_phase fl = InUpstream) (gs_flights s)) = 1 \<and>
     length (filter (\<lambda>fl. fl_phase fl = InUpstream) (gs_flights s)) \<le> 1"
    (is "\<exists>s. ?P s")
proof -
  let ?s = "exState 1 True [InUpstream] [Waiting 0 0 True, Waiting 0 0 False] {} exCache"
  have w: "(exRequest, Waiting 0 0 False) \<in> set (gs_callers ?s)" by (simp add: exState_def)
  note c = guard_coalesces [OF exRun_upstream]
  have "fl_query (gs_flights ?s ! 0) = ''q''"
    using c [THEN conjunct2, THEN conjunct1, rule_format, OF w] by (simp add: exRequest_def)
  moreover have "length (filter (\<lambda>fl. fl_phase fl = InUpstream) (gs_flights ?s)) \<le> 1"
    using c [THEN conjunct2, THEN conjunct2] by blast
  moreover have "length (filter (\<lambda>fl. fl_phase fl = InUpstream) (gs_flights ?s)) = 1" by (simp add: exState_def)
  ultimately show ?thesis using w exRun_upstream by blast
qed

theorem guard_progress_witness:
  "\<exists>s s'. guardRun 0 (Some 1) (\<lambda>_. False) (s :: (nat, nat) guardState) \<and>
     (exRequest, Waiting 0 0 False) \<in> set (gs_callers s) \<and> guardStep 0 (Some 1) (\<lambda>_. False) s s' \<and> work s' < work s"
proof -
  let ?s = "exState 1 True [InUpstream] [Waiting 0 0 True, Waiting 0 0 False] {} exCache"
  have w: "(exRequest, Waiting 0 0 False) \<in> set (gs_callers ?s)" by (simp add: exState_def)
  have "\<exists>s'. guardStep 0 (Some 1) (\<lambda>_. False) ?s s' \<and> work s' < work ?s"
    by (rule guard_progress [OF exRun_upstream, THEN conjunct1, rule_format, where rq = exRequest and p = "Waiting 0 0 False"])
      (use w in simp_all)
  then show ?thesis using w exRun_upstream by blast
qed

end
