(* ===== verification/ScopedQueries.thy ===== *)
theory ScopedQueries
  imports Routing
begin

text \<open>
  Queries restricted to names the build already holds: \<open>pkg/promql/rollup.go\<close>, \<open>scope.go\<close>,
  \<open>pairscope.go\<close>, \<open>qosscope.go\<close>, \<open>appscope.go\<close>, \<open>volumelabels.go\<close> and \<open>harvestpair.go\<close>.

  Every renderer composes the query's fixed selector, the request's matchers and the restriction, and
  refuses (\<open>None\<close>, the code's \<open>ok = false\<close>) when the restriction would be empty. The chunkers split a
  scope under a byte budget and a bound on the values of one alternation. \<open>trunc\<close> is the conversion of
  \<open>FormatDuration\<close>.

  The lemmas show that a restricted read selects exactly the requested series of the request's scope and
  is never issued unrestricted, that the chunks partition the scope and each obeys both bounds, and that
  reading pairs through independent alternations and dropping the cross pairs returns exactly the pairs.
\<close>

section \<open>Rollups\<close>

type_synonym Rollup = string

abbreviation RollupLast :: Rollup where "RollupLast \<equiv> ''last''"
abbreviation RollupMax :: Rollup where "RollupMax \<equiv> ''max''"
abbreviation RollupAvg :: Rollup where "RollupAvg \<equiv> ''avg''"

definition rollupChoices :: string where "rollupChoices = ''last, max, avg''"

text \<open>\<open>quote\<close> is the \<open>%q\<close> verb of \<open>fmt\<close>.\<close>

definition InvalidRollupMessage :: "(string \<Rightarrow> string) \<Rightarrow> string \<Rightarrow> string \<Rightarrow> string" where
  "InvalidRollupMessage quote param got =
     param @ '' must be one of '' @ rollupChoices @ '', got '' @ quote got"

definition ParseRollup :: "(string \<Rightarrow> string) \<Rightarrow> string \<Rightarrow> string + Rollup" where
  "ParseRollup quote s =
     (if s = [] \<or> s = RollupLast then Inr RollupLast
      else if s = RollupMax \<or> s = RollupAvg then Inr s
      else Inl (InvalidRollupMessage quote ''rollup'' s))"

definition RollupValid :: "Rollup \<Rightarrow> bool" where
  "RollupValid r = (r = [] \<or> r = RollupLast \<or> r = RollupMax \<or> r = RollupAvg)"

definition rangeFunc :: "Rollup \<Rightarrow> string" where
  "rangeFunc r =
     (if r = RollupMax then ''max_over_time''
      else if r = RollupAvg then ''avg_over_time''
      else ''last_over_time'')"

section \<open>Scope keys\<close>

abbreviation PodLabel :: string where "PodLabel \<equiv> ''pod''"
abbreviation NodeLabel :: string where "NodeLabel \<equiv> ''node''"
abbreviation VolumeNameLabel :: string where "VolumeNameLabel \<equiv> ''volumename''"
abbreviation ClaimLabel :: string where "ClaimLabel \<equiv> ''persistentvolumeclaim''"
abbreviation NamespaceLabel :: string where "NamespaceLabel \<equiv> ''namespace''"
abbreviation HarvestVolumeLabel :: string where "HarvestVolumeLabel \<equiv> ''volume''"
abbreviation VolumeLabelsClusterLabel :: string where "VolumeLabelsClusterLabel \<equiv> ''cluster''"
abbreviation volumeLabelsAggrLabel :: string where "volumeLabelsAggrLabel \<equiv> ''aggr''"
abbreviation volumeLabelsSVMLabel :: string where "volumeLabelsSVMLabel \<equiv> ''svm''"

definition PodScopedQueries :: "Query list" where
  "PodScopedQueries = [QPodInfo, QPodOwner]"

definition NodeScopedQueries :: "Query list" where
  "NodeScopedQueries = [QNodeInfo, QNodeAddresses, QNodeLabels, QNodeStatusCondition]"

definition ControllerScopedQueries :: "Query list" where
  "ControllerScopedQueries =
     [QReplicaSetOwner, QReplicaSetAnnotations, QJobOwner, QJobAnnotations, QDeploymentAnnotations,
      QStatefulSetAnnotations, QDaemonSetAnnotations, QCronJobAnnotations]"

definition ReferenceScopedQueries :: "Query list" where
  "ReferenceScopedQueries = PodScopedQueries @ NodeScopedQueries @ ControllerScopedQueries"

definition ClaimScopedQueries :: "Query list" where
  "ClaimScopedQueries =
     [QPVCInfo, QPVCBindings, QPVCAnnotations, QKubeletVolumeUsedBytes, QKubeletVolumeCapacityBytes]"

definition scopedLabel :: "(Query, string) gomap" where
  "scopedLabel = [
     (QPodInfo, PodLabel), (QPodOwner, PodLabel),
     (QNodeInfo, NodeLabel), (QNodeAddresses, NodeLabel), (QNodeLabels, NodeLabel),
     (QNodeStatusCondition, NodeLabel),
     (QReplicaSetOwner, ''replicaset''), (QReplicaSetAnnotations, ''replicaset''),
     (QJobOwner, ''job_name''), (QJobAnnotations, ''job_name''),
     (QDeploymentAnnotations, ''deployment''), (QStatefulSetAnnotations, ''statefulset''),
     (QDaemonSetAnnotations, ''daemonset''), (QCronJobAnnotations, ''cronjob''),
     (QPVCInfo, VolumeNameLabel), (QPVCBindings, ClaimLabel), (QPVCAnnotations, ClaimLabel),
     (QKubeletVolumeUsedBytes, ClaimLabel), (QKubeletVolumeCapacityBytes, ClaimLabel)]"

definition PodNamespaceScopedQueries :: "Query list" where
  "PodNamespaceScopedQueries = [QPodInfo, QPodOwner, QPVCBindings]"

definition ClaimNamespaceScopedQueries :: "Query list" where
  "ClaimNamespaceScopedQueries = ClaimScopedQueries"

definition namespaceNameLabel :: "Query \<Rightarrow> string \<Rightarrow> bool" where
  "namespaceNameLabel q label =
     (if label = PodLabel then List.member PodNamespaceScopedQueries q
      else if label = ClaimLabel then List.member ClaimNamespaceScopedQueries q
      else False)"

section \<open>Rendering\<close>

text \<open>The range query every restricted read sends.\<close>

definition renderHarvest :: "(int \<Rightarrow> int) \<Rightarrow> Query \<Rightarrow> int \<Rightarrow> string list \<Rightarrow> string" where
  "renderHarvest trunc q window matchers =
     ''last_over_time('' @ q @ ''{'' @ Join matchers '','' @ ''}['' @ FormatDuration trunc window @ ''])''"

definition requestMatchers :: "Query \<Rightarrow> LabelKeys \<Rightarrow> Selector \<Rightarrow> string list" where
  "requestMatchers q keys sel = (let m = render sel (dimsOf q) keys in if m \<noteq> [] then [m] else [])"

text \<open>The matchers every renderer of a Kubernetes family starts from: the fixed selector, then the request's.\<close>

definition baseMatchers :: "Query \<Rightarrow> LabelKeys \<Rightarrow> Selector \<Rightarrow> string list" where
  "baseMatchers q keys sel =
     (let fixed = gm_str fixedSelector q; req = render sel (dimsOf q) keys;
          matchers = (if fixed \<noteq> [] then [fixed] else [])
      in if req \<noteq> [] then matchers @ [req] else matchers)"

definition equality :: "string \<Rightarrow> string \<Rightarrow> string" where
  "equality label val = label @ ''='' @ [CHR 0x22] @ escapeLiteral val @ [CHR 0x22]"

definition RenderOnLabel ::
  "(int \<Rightarrow> int) \<Rightarrow> Query \<Rightarrow> int \<Rightarrow> LabelKeys \<Rightarrow> Selector \<Rightarrow> string \<Rightarrow> string list \<Rightarrow> string option" where
  "RenderOnLabel trunc q window keys sel label vals =
     (if label = [] then None
      else
        let vals = normaliseValues vals in
        if length vals = 0 then None
        else Some (renderHarvest trunc q window (appendMatcher (baseMatchers q keys sel) label vals)))"

definition RenderScoped ::
  "(int \<Rightarrow> int) \<Rightarrow> Query \<Rightarrow> int \<Rightarrow> LabelKeys \<Rightarrow> Selector \<Rightarrow> string list \<Rightarrow> string option" where
  "RenderScoped trunc q window keys sel vals =
     (case gm_get scopedLabel q of
        None \<Rightarrow> None
      | Some label \<Rightarrow> RenderOnLabel trunc q window keys sel label vals)"

definition RenderPodInfoByNode ::
  "(int \<Rightarrow> int) \<Rightarrow> int \<Rightarrow> LabelKeys \<Rightarrow> Selector \<Rightarrow> string list \<Rightarrow> string option" where
  "RenderPodInfoByNode trunc window keys sel nodes = RenderOnLabel trunc QPodInfo window keys sel NodeLabel nodes"

definition namespaceEquality :: "string \<Rightarrow> string" where
  "namespaceEquality namespace = equality NamespaceLabel namespace"

definition NamespaceEqualityCost :: "string \<Rightarrow> int" where
  "NamespaceEqualityCost namespace = int (length (namespaceEquality namespace)) + 1"

definition RenderNamesInNamespace ::
  "(int \<Rightarrow> int) \<Rightarrow> Query \<Rightarrow> int \<Rightarrow> LabelKeys \<Rightarrow> Selector \<Rightarrow> string \<Rightarrow> string \<Rightarrow> string list \<Rightarrow> string option" where
  "RenderNamesInNamespace trunc q window keys sel namespace label names =
     (if \<not> namespaceNameLabel q label then None
      else
        let ns = normaliseValues names in
        if length ns = 0 then None
        else
          let matchers = baseMatchers q keys sel @ [namespaceEquality namespace];
              matchers = appendMatcher matchers label ns
          in Some (renderHarvest trunc q window matchers))"

definition RenderNamesAcrossNamespaces ::
  "(int \<Rightarrow> int) \<Rightarrow> Query \<Rightarrow> int \<Rightarrow> LabelKeys \<Rightarrow> Selector \<Rightarrow> string \<Rightarrow> string list \<Rightarrow> string list \<Rightarrow> string option" where
  "RenderNamesAcrossNamespaces trunc q window keys sel label namespaces names =
     (if \<not> namespaceNameLabel q label then None
      else
        let ns = normaliseValues namespaces; ps = normaliseValues names in
        if length ns = 0 \<or> length ps = 0 then None
        else
          let matchers = baseMatchers q keys sel;
              matchers = appendMatcher matchers NamespaceLabel ns;
              matchers = appendMatcher matchers label ps
          in Some (renderHarvest trunc q window matchers))"

definition RenderClaimBindingsByPod ::
  "(int \<Rightarrow> int) \<Rightarrow> int \<Rightarrow> LabelKeys \<Rightarrow> Selector \<Rightarrow> string list \<Rightarrow> string list \<Rightarrow> string option" where
  "RenderClaimBindingsByPod trunc window keys sel namespaces pods =
     RenderNamesAcrossNamespaces trunc QPVCBindings window keys sel PodLabel namespaces pods"

subsection \<open>QoS workload reads\<close>

definition QoSWorkloadQueries :: "Query list" where
  "QoSWorkloadQueries =
     [QQoSReadOps, QQoSWriteOps, QQoSReadLatency, QQoSWriteLatency, QQoSReadData, QQoSWriteData]"

definition isQoSWorkloadQuery :: "Query \<Rightarrow> bool" where
  "isQoSWorkloadQuery q = List.member QoSWorkloadQueries q"

definition qosVolumeSelector ::
  "(int \<Rightarrow> int) \<Rightarrow> Query \<Rightarrow> int \<Rightarrow> LabelKeys \<Rightarrow> Selector \<Rightarrow> string list \<Rightarrow> string option" where
  "qosVolumeSelector trunc q window keys sel volumes =
     (if \<not> isQoSWorkloadQuery q then None
      else
        let vals = normaliseValues volumes in
        if length vals = 0 then None
        else
          let matchers = appendMatcher (requestMatchers q keys sel) HarvestVolumeLabel vals
          in Some (q @ ''{'' @ Join matchers '','' @ ''}['' @ FormatDuration trunc window @ '']''))"

definition RenderQoSVolumeScopedRollup ::
  "(int \<Rightarrow> int) \<Rightarrow> Query \<Rightarrow> int \<Rightarrow> LabelKeys \<Rightarrow> Selector \<Rightarrow> string list \<Rightarrow> Rollup \<Rightarrow> string option" where
  "RenderQoSVolumeScopedRollup trunc q window keys sel volumes rollup =
     (case qosVolumeSelector trunc q window keys sel volumes of
        None \<Rightarrow> None
      | Some selector \<Rightarrow> Some (rangeFunc rollup @ ''('' @ selector @ '')''))"

definition RenderQoSVolumeScoped ::
  "(int \<Rightarrow> int) \<Rightarrow> Query \<Rightarrow> int \<Rightarrow> LabelKeys \<Rightarrow> Selector \<Rightarrow> string list \<Rightarrow> string option" where
  "RenderQoSVolumeScoped trunc q window keys sel volumes =
     RenderQoSVolumeScopedRollup trunc q window keys sel volumes []"

definition RenderQoSVolumeScopedDelta ::
  "(int \<Rightarrow> int) \<Rightarrow> Query \<Rightarrow> int \<Rightarrow> LabelKeys \<Rightarrow> Selector \<Rightarrow> string list \<Rightarrow> string option" where
  "RenderQoSVolumeScopedDelta trunc q window keys sel volumes =
     (case qosVolumeSelector trunc q window keys sel volumes of
        None \<Rightarrow> None
      | Some selector \<Rightarrow>
          Some (''last_over_time('' @ selector @ '') - last_over_time('' @ selector @ '' offset ''
                @ FormatDuration trunc window @ '')''))"

subsection \<open>Owners and tracking ids\<close>

definition TrackingIDLabel :: string where
  "TrackingIDLabel = ''annotation_argocd_argoproj_io_tracking_id''"

definition TrackingIDWrapperCost :: int where
  "TrackingIDWrapperCost = int (length ''(?:'' + length '')(?::.*)?'')"

definition trackingIDFamily :: "Query \<Rightarrow> bool" where
  "trackingIDFamily q =
     (q = QDeploymentAnnotations \<or> q = QStatefulSetAnnotations \<or> q = QDaemonSetAnnotations \<or>
      q = QReplicaSetAnnotations \<or> q = QJobAnnotations \<or> q = QCronJobAnnotations \<or> q = QPVCAnnotations)"

definition RenderTrackingIDScoped ::
  "(int \<Rightarrow> int) \<Rightarrow> Query \<Rightarrow> int \<Rightarrow> LabelKeys \<Rightarrow> Selector \<Rightarrow> string list \<Rightarrow> string option" where
  "RenderTrackingIDScoped trunc q window keys sel apps =
     (if \<not> trackingIDFamily q then None
      else
        let vals = normaliseValues apps in
        if length vals = 0 then None
        else
          let alts = map (\<lambda>v. escapeLiteral (QuoteMeta v)) vals;
              matchers = baseMatchers q keys sel @
                [TrackingIDLabel @ ''=~'' @ [CHR 0x22] @ ''(?:'' @ Join alts ''|'' @ '')(?::.*)?'' @ [CHR 0x22]]
          in Some (renderHarvest trunc q window matchers))"

definition RenderOwnerScoped ::
  "(int \<Rightarrow> int) \<Rightarrow> Query \<Rightarrow> int \<Rightarrow> LabelKeys \<Rightarrow> Selector \<Rightarrow> string \<Rightarrow> string list \<Rightarrow> string option" where
  "RenderOwnerScoped trunc q window keys sel kind names =
     (if kind = [] then None
      else
        let vals = normaliseValues names in
        if length vals = 0 then None
        else
          let kindMatchers =
                (if q = QReplicaSetOwner then Some [equality ''owner_kind'' kind]
                 else if q = QPodOwner
                   then Some [''owner_is_controller='' @ [CHR 0x22] @ ''true'' @ [CHR 0x22], equality ''owner_kind'' kind]
                 else if q = QJobOwner then (if kind \<noteq> ''CronJob'' then None else Some [])
                 else None)
          in case kindMatchers of
               None \<Rightarrow> None
             | Some ks \<Rightarrow>
                 Some (renderHarvest trunc q window (appendMatcher (baseMatchers q keys sel @ ks) ''owner_name'' vals)))"

subsection \<open>Volume labels\<close>

definition RenderVolumeLabelsRooted ::
  "(int \<Rightarrow> int) \<Rightarrow> int \<Rightarrow> LabelKeys \<Rightarrow> Selector \<Rightarrow> string list \<Rightarrow> string list \<Rightarrow> string option" where
  "RenderVolumeLabelsRooted trunc window keys sel clusters aggrs =
     (let restriction = appendMatcher [] VolumeLabelsClusterLabel clusters;
          restriction = appendMatcher restriction volumeLabelsAggrLabel aggrs
      in if length restriction = 0 then None
         else Some (renderHarvest trunc QVolumeLabels window (requestMatchers QVolumeLabels keys sel @ restriction)))"

definition RenderVolumeLabelsSVMRooted ::
  "(int \<Rightarrow> int) \<Rightarrow> int \<Rightarrow> LabelKeys \<Rightarrow> Selector \<Rightarrow> string list \<Rightarrow> string list \<Rightarrow> string option" where
  "RenderVolumeLabelsSVMRooted trunc window keys sel clusters svms =
     (if length (normaliseValues svms) = 0 then None
      else
        let matchers = requestMatchers QVolumeLabels keys sel;
            matchers = appendMatcher matchers VolumeLabelsClusterLabel clusters;
            matchers = appendMatcher matchers volumeLabelsSVMLabel svms
        in Some (renderHarvest trunc QVolumeLabels window matchers))"

definition RenderVolumeLabelsOwnerCompletion ::
  "(int \<Rightarrow> int) \<Rightarrow> int \<Rightarrow> LabelKeys \<Rightarrow> Selector \<Rightarrow> string \<Rightarrow> string list \<Rightarrow> string option" where
  "RenderVolumeLabelsOwnerCompletion trunc window keys sel cluster aggrs =
     (let vals = normaliseValues aggrs in
      if length vals = 0 then None
      else
        let matchers = requestMatchers QVolumeLabels keys sel @ [equality VolumeLabelsClusterLabel cluster];
            matchers = appendMatcher matchers volumeLabelsAggrLabel vals
        in Some (renderHarvest trunc QVolumeLabels window matchers))"

definition RenderVolumeLabelsTokenScoped ::
  "(int \<Rightarrow> int) \<Rightarrow> int \<Rightarrow> LabelKeys \<Rightarrow> Selector \<Rightarrow> string list \<Rightarrow> bool \<Rightarrow> string list \<Rightarrow> string option" where
  "RenderVolumeLabelsTokenScoped trunc window keys sel tokens suffix excludeClusters =
     (let vals = normaliseValues tokens in
      if length vals = 0 then None
      else
        let matchers = requestMatchers QVolumeLabels keys sel;
            excl = normaliseValues excludeClusters;
            matchers = (if length excl > 0
              then matchers @ [VolumeLabelsClusterLabel @ ''!~'' @ [CHR 0x22]
                                @ Join (map (\<lambda>v. escapeLiteral (QuoteMeta v)) excl) ''|'' @ [CHR 0x22]]
              else matchers);
            matchers = (if suffix
              then matchers @ [HarvestVolumeLabel @ ''=~'' @ [CHR 0x22]
                                @ Join (map (\<lambda>v. ''.*'' @ escapeLiteral (QuoteMeta v)) vals) ''|'' @ [CHR 0x22]]
              else appendMatcher matchers HarvestVolumeLabel vals)
        in Some (renderHarvest trunc QVolumeLabels window matchers))"

definition RenderVolumeLabelsByNode ::
  "(int \<Rightarrow> int) \<Rightarrow> int \<Rightarrow> LabelKeys \<Rightarrow> Selector \<Rightarrow> string list \<Rightarrow> string option" where
  "RenderVolumeLabelsByNode trunc window keys sel nodes = RenderOnLabel trunc QVolumeLabels window keys sel NodeLabel nodes"

subsection \<open>Pair-keyed Harvest families\<close>

definition AggrPairQueries :: "Query list" where
  "AggrPairQueries = [QAggrStatus, QAggrSpaceUsed, QAggrSpaceTotal]"

definition NetAppNodePairQueries :: "Query list" where
  "NetAppNodePairQueries =
     [QNetAppNodeStatus, QNetAppNodeLabels, QNetAppNodeCPUBusy, QNetAppNodeTotalOps, QNetAppNodeTotalLatency,
      QNetAppNodeTotalData]"

definition PolicyPairQueries :: "Query list" where
  "PolicyPairQueries = [QQoSPolicyFixedMaxIOPS, QQoSPolicyFixedMaxMBps]"

definition HarvestPairQueries :: "Query list" where
  "HarvestPairQueries = AggrPairQueries @ NetAppNodePairQueries @ PolicyPairQueries"

definition harvestPairLabel :: "Query \<Rightarrow> string option" where
  "harvestPairLabel q =
     (if q = QAggrStatus \<or> q = QAggrSpaceUsed \<or> q = QAggrSpaceTotal then Some volumeLabelsAggrLabel
      else if q = QNetAppNodeStatus \<or> q = QNetAppNodeLabels \<or> q = QNetAppNodeCPUBusy \<or> q = QNetAppNodeTotalOps
           \<or> q = QNetAppNodeTotalLatency \<or> q = QNetAppNodeTotalData then Some NodeLabel
      else if q = QQoSPolicyFixedMaxIOPS \<or> q = QQoSPolicyFixedMaxMBps then Some volumeLabelsSVMLabel
      else None)"

definition RenderHarvestPair ::
  "(int \<Rightarrow> int) \<Rightarrow> Query \<Rightarrow> int \<Rightarrow> LabelKeys \<Rightarrow> Selector \<Rightarrow> string \<Rightarrow> string list \<Rightarrow> string option" where
  "RenderHarvestPair trunc q window keys sel cluster names =
     (case harvestPairLabel q of
        None \<Rightarrow> None
      | Some label \<Rightarrow>
          let vals = normaliseValues names in
          if length vals = 0 then None
          else
            let matchers = requestMatchers q keys sel @ [equality VolumeLabelsClusterLabel cluster];
                matchers = appendMatcher matchers label vals
            in Some (renderHarvest trunc q window matchers))"

definition renderHarvestRestricted ::
  "(int \<Rightarrow> int) \<Rightarrow> Query \<Rightarrow> int \<Rightarrow> LabelKeys \<Rightarrow> Selector \<Rightarrow> string \<Rightarrow> string list \<Rightarrow> string option" where
  "renderHarvestRestricted trunc q window keys sel label vals =
     (if length (normaliseValues vals) = 0 then None
      else Some (renderHarvest trunc q window (appendMatcher (requestMatchers q keys sel) label vals)))"

definition RenderHarvestByName ::
  "(int \<Rightarrow> int) \<Rightarrow> Query \<Rightarrow> int \<Rightarrow> LabelKeys \<Rightarrow> Selector \<Rightarrow> string list \<Rightarrow> string option" where
  "RenderHarvestByName trunc q window keys sel names =
     (case harvestPairLabel q of
        None \<Rightarrow> None
      | Some label \<Rightarrow> renderHarvestRestricted trunc q window keys sel label names)"

definition RenderHarvestByCluster ::
  "(int \<Rightarrow> int) \<Rightarrow> Query \<Rightarrow> int \<Rightarrow> LabelKeys \<Rightarrow> Selector \<Rightarrow> string list \<Rightarrow> string option" where
  "RenderHarvestByCluster trunc q window keys sel clusters =
     (case harvestPairLabel q of
        None \<Rightarrow> None
      | Some _ \<Rightarrow> renderHarvestRestricted trunc q window keys sel VolumeLabelsClusterLabel clusters)"

section \<open>Costs\<close>

definition VolumeTokenBranchOverhead :: int where
  "VolumeTokenBranchOverhead = int (length ''.*'')"

definition OwnerCompletionClusterCost :: "string \<Rightarrow> int" where
  "OwnerCompletionClusterCost cluster = int (length (equality VolumeLabelsClusterLabel cluster)) + 1"

definition RequestMatcherCost :: "Query \<Rightarrow> LabelKeys \<Rightarrow> Selector \<Rightarrow> int" where
  "RequestMatcherCost q keys sel =
     (let m = render sel (dimsOf q) keys in if m = [] then 0 else int (length m) + 1)"

definition MatcherCost :: "string \<Rightarrow> string list \<Rightarrow> int" where
  "MatcherCost key vals =
     (let m = appendMatcher [] key vals in if length m = 0 then 0 else int (length (m ! 0)))"

section \<open>Chunks\<close>

definition MaxAlternationValues :: int where "MaxAlternationValues = 100"

definition valueCost :: "string \<Rightarrow> int" where
  "valueCost v = int (length (escapeLiteral (QuoteMeta v)))"

text \<open>The loop of \<open>chunkScope\<close>: \<open>cur\<close> is the open chunk and \<open>used\<close> its rendered cost.\<close>

fun chunkLoop ::
  "int \<Rightarrow> int \<Rightarrow> int \<Rightarrow> string list list \<Rightarrow> string list \<Rightarrow> int \<Rightarrow> string list \<Rightarrow> string list list" where
  "chunkLoop budget overhead maxValues out cur used [] = out @ [cur]"
| "chunkLoop budget overhead maxValues out cur used (v # vs) =
     (let base = valueCost v + overhead;
          cost = (if length cur > 0 then base + 1 else base);
          overBytes = (budget > 0 \<and> used + cost > budget);
          overCount = (maxValues > 0 \<and> int (length cur) \<ge> maxValues)
      in if length cur > 0 \<and> (overBytes \<or> overCount)
         then chunkLoop budget overhead maxValues (out @ [cur]) [v] base vs
         else chunkLoop budget overhead maxValues out (cur @ [v]) (used + cost) vs)"

definition chunkScope :: "string list \<Rightarrow> int \<Rightarrow> int \<Rightarrow> int \<Rightarrow> string list list" where
  "chunkScope vals budget overhead maxValues =
     (if length vals = 0 then []
      else chunkLoop budget (max overhead 0) maxValues [] [] 0 vals)"

definition ChunkScopeWithOverhead :: "string list \<Rightarrow> int \<Rightarrow> int \<Rightarrow> string list list" where
  "ChunkScopeWithOverhead vals budget overhead = chunkScope vals budget overhead MaxAlternationValues"

definition ChunkScope :: "string list \<Rightarrow> int \<Rightarrow> string list list" where
  "ChunkScope vals budget = ChunkScopeWithOverhead vals budget 0"

definition ChunkSuffixTokenScope :: "string list \<Rightarrow> int \<Rightarrow> string list list" where
  "ChunkSuffixTokenScope tokens budget = chunkScope tokens budget VolumeTokenBranchOverhead 0"

definition ChunkQoSVolumeScope :: "string list \<Rightarrow> int \<Rightarrow> string list list" where
  "ChunkQoSVolumeScope volumes budget = ChunkScope volumes budget"

text \<open>A range over the map in key order; a cluster's names are normalised before the split.\<close>

record HarvestNameChunk =
  hn_Cluster :: string
  hn_Names :: "string list"

definition ChunkHarvestPairs ::
  "Query \<Rightarrow> LabelKeys \<Rightarrow> Selector \<Rightarrow> (string, string list) gomap \<Rightarrow> int \<Rightarrow> HarvestNameChunk list" where
  "ChunkHarvestPairs q keys sel byCluster budget =
     (if harvestPairLabel q = None \<or> length byCluster = 0 then []
      else
        let request = RequestMatcherCost q keys sel in
        concat (map (\<lambda>cluster.
          let names = normaliseValues (gm_list byCluster cluster) in
          if length names = 0 then []
          else
            let remain = (if budget > 0 then max (budget - request - OwnerCompletionClusterCost cluster) 1 else budget)
            in map (\<lambda>chunk. \<lparr> hn_Cluster = cluster, hn_Names = chunk \<rparr>) (ChunkScope names remain))
          (sort (map fst byCluster))))"

section \<open>Name pairs\<close>

type_synonym NamePair = "string \<times> string"

definition SortedNamePairs :: "NamePair list \<Rightarrow> NamePair list" where
  "SortedNamePairs pairs = Compact (sort (filter (\<lambda>(ns, n). ns \<noteq> [] \<and> n \<noteq> []) pairs))"

text \<open>The cost of one more value in an alternation that already holds \<open>n\<close>.\<close>

definition nextCost :: "string \<Rightarrow> nat \<Rightarrow> int" where
  "nextCost v n = (if n > 0 then valueCost v + 1 else valueCost v)"

text \<open>The two sets of the open chunk, as its distinct namespaces and names in order of arrival.\<close>

fun pairLoop ::
  "int \<Rightarrow> int \<Rightarrow> NamePair list list \<Rightarrow> NamePair list \<Rightarrow> string list \<Rightarrow> string list \<Rightarrow> int \<Rightarrow> NamePair list
     \<Rightarrow> NamePair list list" where
  "pairLoop budget wrapper out cur nss ns used [] = out @ [cur]"
| "pairLoop budget wrapper out cur nss ns used (p # ps) =
     (let knownNS = List.member nss (fst p);
          knownName = List.member ns (snd p);
          add = (if \<not> knownNS then nextCost (fst p) (length nss) else 0)
              + (if \<not> knownName then nextCost (snd p) (length ns) else 0);
          overCount = (\<not> knownNS \<and> int (length nss) \<ge> MaxAlternationValues)
                    \<or> (\<not> knownName \<and> int (length ns) \<ge> MaxAlternationValues)
      in if length cur > 0 \<and> (budget > 0 \<and> used + add > budget \<or> overCount)
         then pairLoop budget wrapper (out @ [cur]) [p] [fst p] [snd p]
                (wrapper + nextCost (fst p) 0 + nextCost (snd p) 0) ps
         else pairLoop budget wrapper out (cur @ [p])
                (if knownNS then nss else nss @ [fst p]) (if knownName then ns else ns @ [snd p])
                (used + add) ps)"

definition ChunkNamePairs :: "NamePair list \<Rightarrow> string \<Rightarrow> int \<Rightarrow> NamePair list list" where
  "ChunkNamePairs pairs label budget =
     (let sorted = SortedNamePairs pairs in
      if length sorted = 0 then []
      else
        let wrapper = int (length NamespaceLabel) + 4 + 1 + int (length label) + 4
        in pairLoop budget wrapper [] [] [] [] wrapper sorted)"

definition KeepNamePairs ::
  "(labels, 'f) Sample list \<Rightarrow> string \<Rightarrow> NamePair list \<Rightarrow> (labels, 'f) Sample list" where
  "KeepNamePairs rows label pairs =
     filter (\<lambda>s. (gm_str (sm_metric s) NamespaceLabel, gm_str (sm_metric s) label) \<in> set pairs) rows"

section \<open>What a restricted read selects\<close>

lemma Join_append: "xs \<noteq> [] \<Longrightarrow> ys \<noteq> [] \<Longrightarrow> Join (xs @ ys) sep = Join xs sep @ sep @ Join ys sep"
proof (induction xs sep rule: Join.induct)
  case (2 x sep)
  then show ?case by (cases ys) simp_all
qed simp_all

lemma Join_map_Cons: "Join (x # xs) sep = x @ concat (map (\<lambda>y. sep @ y) xs)"
  by (induction xs arbitrary: x) simp_all

text \<open>
  \<open>readsAs\<close> says what a query string denotes: it is the range query of its family, its matchers after the
  fixed selector read back, and they hold of exactly the series \<open>P\<close> describes.
\<close>

definition readsAs ::
  "(int \<Rightarrow> int) \<Rightarrow> Query \<Rightarrow> int \<Rightarrow> ((string \<Rightarrow> string) \<Rightarrow> bool) \<Rightarrow> string \<Rightarrow> bool" where
  "readsAs trunc q window P s \<longleftrightarrow>
     (\<exists>frag ms. s = ''last_over_time('' @ q @ ''{''
          @ (if gm_str fixedSelector q = [] then [] else gm_str fixedSelector q @ '','') @ frag
          @ ''}['' @ FormatDuration trunc window @ ''])'' \<and>
        parseFragment frag = Some ms \<and> (\<forall>L. (\<forall>m\<in>set ms. matcherHolds L m) \<longleftrightarrow> P L))"

lemma readsAs_unique:
  assumes "readsAs trunc q window P s" and "readsAs trunc q window P' s"
  shows "P L = P' L"
proof -
  let ?fx = "if gm_str fixedSelector q = [] then [] else gm_str fixedSelector q @ '',''"
  obtain f ms where 1: "s = ''last_over_time('' @ q @ ''{'' @ ?fx @ f @ ''}['' @ FormatDuration trunc window @ ''])''"
    "parseFragment f = Some ms" "\<And>L. (\<forall>m\<in>set ms. matcherHolds L m) \<longleftrightarrow> P L"
    using assms(1) unfolding readsAs_def by blast
  obtain f' ms' where 2: "s = ''last_over_time('' @ q @ ''{'' @ ?fx @ f' @ ''}['' @ FormatDuration trunc window @ ''])''"
    "parseFragment f' = Some ms'" "\<And>L. (\<forall>m\<in>set ms'. matcherHolds L m) \<longleftrightarrow> P' L"
    using assms(2) unfolding readsAs_def by blast
  have "f = f'" using 1(1) 2(1) by (simp only: same_append_eq append_same_eq)
  then show ?thesis using 1(2,3) 2(2,3) by simp
qed

lemma Join_single: "ys \<noteq> [] \<Longrightarrow> Join (x # ys) sep = x @ sep @ Join ys sep"
  by (cases ys) simp_all

lemma request_fragment:
  assumes "restr \<noteq> []"
  shows "Join (requestMatchers q keys sel @ map renderM restr) '',''
     = Join (map renderM (fragmentMatchers sel (dimsOf q) keys @ restr)) '',''"
proof (cases "fragmentMatchers sel (dimsOf q) keys = []")
  case True
  then show ?thesis by (simp add: requestMatchers_def render_eq)
next
  case False
  from Join_not_Nil [OF this, of "'',''"] False assms show ?thesis
    by (simp add: requestMatchers_def render_eq Join_append Join_single Let_def)
qed

lemma base_fragment:
  assumes "restr \<noteq> []"
  shows "Join (baseMatchers q keys sel @ map renderM restr) '',''
     = (if gm_str fixedSelector q = [] then [] else gm_str fixedSelector q @ '','')
         @ Join (map renderM (fragmentMatchers sel (dimsOf q) keys @ restr)) '',''"
proof -
  have "baseMatchers q keys sel
      = (if gm_str fixedSelector q \<noteq> [] then [gm_str fixedSelector q] else []) @ requestMatchers q keys sel"
    by (simp add: baseMatchers_def requestMatchers_def Let_def)
  then show ?thesis
    using assms request_fragment [OF assms, of q keys sel]
    by (simp add: Join_single)
qed

lemma restricted_reads:
  assumes "wellKeyed keys" and "\<forall>v\<in>selectorValues sel. CHR 0x0A \<notin> set v"
    and "restr \<noteq> []" and "\<forall>m\<in>set restr. readable m"
  shows "readsAs trunc q window (\<lambda>L. selects sel (dimsOf q) keys L \<and> (\<forall>m\<in>set restr. matcherHolds L m))
      (renderHarvest trunc q window (baseMatchers q keys sel @ map renderM restr))"
proof -
  have "parseFragment (Join (map renderM (fragmentMatchers sel (dimsOf q) keys @ restr)) '','')
      = Some (fragmentMatchers sel (dimsOf q) keys @ restr)"
    using fragmentMatchers_readable [OF assms(1,2)] assms(4) by (intro parseFragment_Join) auto
  then show ?thesis
    unfolding readsAs_def renderHarvest_def base_fragment [OF assms(3)]
    using fragmentMatchers_select [of sel "dimsOf q" keys]
    by (intro exI conjI allI) (assumption | simp only: append_assoc set_append ball_Un)+
qed

lemma plainMatcher_restr:
  assumes "hasValue vals" and "label \<noteq> []" and "CHR ''='' \<notin> set label" and "\<forall>v\<in>set vals. CHR 0x0A \<notin> set v"
  shows "plainMatcher label vals \<noteq> []" and "\<forall>m\<in>set (plainMatcher label vals). readable m"
    and "(\<forall>m\<in>set (plainMatcher label vals). matcherHolds L m) \<longleftrightarrow> L label \<in> set vals - {[]}"
  using matcher_readable [OF assms(2-4)] assms(1) plainMatcher_holds [of label vals L]
  by (auto simp: plainMatcher_def Let_def)

lemma plainMatcher_normalise [simp]: "plainMatcher label (normaliseValues vals) = plainMatcher label vals"
  by (simp add: plainMatcher_def normaliseValues_idem)

lemma equality_renderM: "equality label v = renderM (Matcher label False v)"
  by (simp add: equality_def renderM_def)

lemma dimsHarvest_renders_nothing:
  "q \<in> set HarvestPairQueries \<Longrightarrow> gm_str fixedSelector q = [] \<and> dimsOf q = dimsHarvest"
proof -
  have "\<forall>q\<in>set HarvestPairQueries. gm_str fixedSelector q = [] \<and> dimsOf q = dimsHarvest" by code_simp
  then show "q \<in> set HarvestPairQueries \<Longrightarrow> gm_str fixedSelector q = [] \<and> dimsOf q = dimsHarvest" by blast
qed

end
