(* ===== verification/ScopedReads.thy ===== *)
theory ScopedReads
  imports ScopedQueries
begin

text \<open>
  What the restricted reads of \<open>ScopedQueries\<close> guarantee: the chunks partition a scope and obey the byte
  budget and the value bound, each query selects exactly its names, and a read of (namespace, name) pairs
  returns exactly the requested pairs.
\<close>

section \<open>Chunks of a scope\<close>

text \<open>The rendered length of an alternation, with the branch overhead of every value.\<close>

definition altCost :: "int \<Rightarrow> string list \<Rightarrow> int" where
  "altCost overhead vs = (if vs = [] then 0 else (\<Sum>v\<leftarrow>vs. valueCost v + overhead) + int (length vs) - 1)"

lemma altCost_snoc:
  "altCost ov (vs @ [v]) = altCost ov vs + (if vs = [] then valueCost v + ov else valueCost v + ov + 1)"
  by (simp add: altCost_def)

definition chunkFits :: "int \<Rightarrow> int \<Rightarrow> int \<Rightarrow> string list \<Rightarrow> bool" where
  "chunkFits budget ov maxValues c \<longleftrightarrow>
     (budget > 0 \<longrightarrow> altCost ov c \<le> budget) \<and> (maxValues > 0 \<longrightarrow> int (length c) \<le> maxValues)"

definition chunkOk :: "int \<Rightarrow> int \<Rightarrow> int \<Rightarrow> string list \<Rightarrow> bool" where
  "chunkOk budget ov maxValues c \<longleftrightarrow> c \<noteq> [] \<and> (length c = 1 \<or> chunkFits budget ov maxValues c)"

text \<open>Neighbouring chunks could not have shared one more value.\<close>

definition tight :: "int \<Rightarrow> int \<Rightarrow> int \<Rightarrow> string list \<Rightarrow> string list \<Rightarrow> bool" where
  "tight budget ov maxValues c d \<longleftrightarrow> \<not> chunkFits budget ov maxValues (c @ [hd d])"

lemma chunkLoop_out:
  "chunkLoop budget ov mx out cur used vs = out @ chunkLoop budget ov mx [] cur used vs"
proof (induction vs arbitrary: out cur used)
  case (Cons v vs)
  show ?case
    by (simp only: chunkLoop.simps Let_def split: if_splits)
      (metis Cons.IH append.assoc append_Nil)
qed simp

lemma chunkLoop_spec:
  assumes "cur \<noteq> [] \<Longrightarrow> chunkOk budget ov mx cur" and "used = altCost ov cur" and "cur \<noteq> [] \<or> vs \<noteq> []"
  shows "\<exists>c cs. chunkLoop budget ov mx [] cur used vs = c # cs \<and> concat (c # cs) = cur @ vs \<and>
    (cur \<noteq> [] \<longrightarrow> hd c = hd cur) \<and> (\<forall>d\<in>set (c # cs). chunkOk budget ov mx d) \<and>
    successively (tight budget ov mx) (c # cs)"
  using assms
proof (induction vs arbitrary: cur used)
  case Nil
  then show ?case by simp
next
  case (Cons v vs)
  let ?cost = "if length cur > 0 then valueCost v + ov + 1 else valueCost v + ov"
  let ?full = "length cur > 0 \<and> (budget > 0 \<and> used + ?cost > budget \<or> mx > 0 \<and> int (length cur) \<ge> mx)"
  have cost: "used + ?cost = altCost ov (cur @ [v])" using Cons.prems(2) by (simp add: altCost_snoc)
  show ?case
  proof (cases ?full)
    case True
    have "\<not> chunkFits budget ov mx (cur @ [v])"
      using True cost by (auto simp: chunkFits_def)
    moreover have "chunkOk budget ov mx [v]" by (simp add: chunkOk_def)
    ultimately show ?thesis
      using Cons.IH [of "[v]" "valueCost v + ov"] Cons.prems(1) True
      by (auto simp: Let_def altCost_def tight_def chunkLoop_out [of _ _ _ "[cur]"] simp del: successively.simps(1)
          simp flip: length_greater_0_conv)
  next
    case False
    have "chunkOk budget ov mx (cur @ [v])"
      using False cost by (auto simp: chunkOk_def chunkFits_def)
    with Cons.IH [of "cur @ [v]" "used + ?cost"] cost False show ?thesis by (auto simp: Let_def)
  qed
qed

lemma chunkScope_spec:
  "concat (chunkScope vals budget ov mx) = vals \<and>
   (\<forall>c\<in>set (chunkScope vals budget ov mx). chunkOk budget (max ov 0) mx c) \<and>
   successively (tight budget (max ov 0) mx) (chunkScope vals budget ov mx)"
proof (cases "vals = []")
  case False
  then show ?thesis
    using chunkLoop_spec [of "[]" budget "max ov 0" mx 0 vals] by (auto simp: chunkScope_def altCost_def)
qed (simp add: chunkScope_def)

text \<open>
  C31: a scope is split into chunks the upstream accepts. The chunks of a scope, concatenated, are the
  scope; none is empty; each holds at most the bound on the values of one alternation, and its rendered
  alternation, the branch overhead included, is within the byte budget unless it is a single value, which
  is never dropped; and the split is greedy: no chunk could have taken its successor's first value.
\<close>

theorem chunkScope_bounds:
  assumes "0 \<le> overhead"
  shows "concat (chunkScope vals budget overhead maxValues) = vals \<and>
    (\<forall>c\<in>set (chunkScope vals budget overhead maxValues).
       c \<noteq> [] \<and> (maxValues > 0 \<longrightarrow> int (length c) \<le> maxValues) \<and>
       (budget > 0 \<longrightarrow> length c = 1 \<or>
          int (length (Join (map (\<lambda>v. escapeLiteral (QuoteMeta v)) c) ''|'')) + overhead * int (length c) \<le> budget)) \<and>
    (\<forall>i. Suc i < length (chunkScope vals budget overhead maxValues) \<longrightarrow>
       (let c = chunkScope vals budget overhead maxValues ! i;
            v = hd (chunkScope vals budget overhead maxValues ! Suc i)
        in (maxValues > 0 \<and> int (length c) \<ge> maxValues) \<or>
           (budget > 0 \<and> int (length (Join (map (\<lambda>v. escapeLiteral (QuoteMeta v)) (c @ [v])) ''|''))
              + overhead * (int (length c) + 1) > budget)))"
    (is "_ \<and> (\<forall>c\<in>set ?cs. _) \<and> _")
proof -
  have len: "c \<noteq> [] \<Longrightarrow> altCost overhead c
      = int (length (Join (map (\<lambda>v. escapeLiteral (QuoteMeta v)) c) ''|'')) + overhead * int (length c)" for c
    by (induction c rule: induct_list012) (simp_all add: altCost_def valueCost_def algebra_simps)
  note spec = chunkScope_spec [of vals budget overhead maxValues]
  have ok: "chunkOk budget overhead maxValues c" if "c \<in> set ?cs" for c
    using spec that assms by (simp add: max_def)
  have "c \<noteq> [] \<and> (maxValues > 0 \<longrightarrow> int (length c) \<le> maxValues) \<and>
       (budget > 0 \<longrightarrow> length c = 1 \<or>
          int (length (Join (map (\<lambda>v. escapeLiteral (QuoteMeta v)) c) ''|'')) + overhead * int (length c) \<le> budget)"
    if "c \<in> set ?cs" for c
    using ok [OF that] len [of c] by (auto simp: chunkOk_def chunkFits_def)
  moreover have "let c = ?cs ! i; v = hd (?cs ! Suc i)
        in (maxValues > 0 \<and> int (length c) \<ge> maxValues) \<or>
           (budget > 0 \<and> int (length (Join (map (\<lambda>v. escapeLiteral (QuoteMeta v)) (c @ [v])) ''|''))
              + overhead * (int (length c) + 1) > budget)"
    if "Suc i < length ?cs" for i
  proof -
    have "tight budget overhead maxValues (?cs ! i) (?cs ! Suc i)"
      using spec that assms successively_conv_nth [of _ ?cs] by (simp add: max_def)
    then show ?thesis
      using len [of "?cs ! i @ [hd (?cs ! Suc i)]"]
      by (auto simp: tight_def chunkFits_def Let_def not_le algebra_simps)
  qed
  ultimately show ?thesis using spec by blast
qed

theorem chunkScope_bounds_witness:
  "concat (chunkScope [''a.b'', ''cd'', ''e''] 8 0 100) = [''a.b'', ''cd'', ''e''] \<and>
   chunkScope [''a.b'', ''cd'', ''e''] 8 0 100 = [[''a.b'', ''cd''], [''e'']]"
proof -
  have "chunkScope [''a.b'', ''cd'', ''e''] 8 0 100 = [[''a.b'', ''cd''], [''e'']]" by code_simp
  then show ?thesis using chunkScope_bounds [of 0 "[''a.b'', ''cd'', ''e'']" 8 100] by simp
qed

section \<open>Reads restricted on one label\<close>

text \<open>
  A read by reference selects exactly the names it was given, and is never issued without a
  restriction. Rendering a family restricted on a label fails exactly when there is no non-empty value;
  otherwise the query keeps the family's fixed selector and its matchers hold of a series exactly when the
  request's selector does and the label has one of the values.
\<close>

theorem RenderOnLabel_exact:
  assumes "wellKeyed keys" and "\<forall>v\<in>selectorValues sel \<union> set vals. CHR 0x0A \<notin> set v" and "CHR ''='' \<notin> set label"
  shows "(RenderOnLabel trunc q window keys sel label vals = None \<longleftrightarrow> label = [] \<or> set vals \<subseteq> {[]}) \<and>
    (\<forall>s. RenderOnLabel trunc q window keys sel label vals = Some s \<longrightarrow>
       readsAs trunc q window (\<lambda>L. selects sel (dimsOf q) keys L \<and> L label \<in> set vals - {[]}) s)"
proof -
  have none: "RenderOnLabel trunc q window keys sel label vals = None \<longleftrightarrow> label = [] \<or> \<not> hasValue vals"
    by (simp add: RenderOnLabel_def Let_def)
  have "readsAs trunc q window (\<lambda>L. selects sel (dimsOf q) keys L \<and> L label \<in> set vals - {[]}) s"
    if "RenderOnLabel trunc q window keys sel label vals = Some s" for s
  proof -
    have v: "hasValue vals" "label \<noteq> []" using that none by auto
    note r = plainMatcher_restr [OF v assms(3)]
    have nl: "\<forall>v\<in>set vals. CHR 0x0A \<notin> set v" "\<forall>v\<in>selectorValues sel. CHR 0x0A \<notin> set v" using assms(2) by auto
    have "s = renderHarvest trunc q window (baseMatchers q keys sel @ map renderM (plainMatcher label vals))"
      using that v by (simp add: RenderOnLabel_def Let_def appendMatcher_eq)
    then show ?thesis
      using restricted_reads [OF assms(1) nl(2) r(1,2) [OF nl(1)], of trunc q window] by (simp only: r(3) [OF nl(1)])
  qed
  then show ?thesis using none by (auto simp: hasValue_iff)
qed

theorem RenderOnLabel_exact_witness:
  "\<exists>s. RenderOnLabel (\<lambda>d. d div Second) QJobOwner 300000000000 DefaultLabelKeys exSelector ''job_name'' [''b'', [], ''a|b''] = Some s \<and>
     readsAs (\<lambda>d. d div Second) QJobOwner 300000000000
       (\<lambda>L. selects exSelector (dimsOf QJobOwner) DefaultLabelKeys L \<and> L ''job_name'' \<in> set [''b'', [], ''a|b''] - {[]}) s"
proof -
  have "RenderOnLabel (\<lambda>d. d div Second) QJobOwner 300000000000 DefaultLabelKeys exSelector ''job_name'' [''b'', [], ''a|b''] \<noteq> None"
    by code_simp
  then obtain s where s: "RenderOnLabel (\<lambda>d. d div Second) QJobOwner 300000000000 DefaultLabelKeys exSelector ''job_name''
      [''b'', [], ''a|b''] = Some s" unfolding not_None_eq by (elim exE)
  have v: "\<forall>v\<in>selectorValues exSelector \<union> set [''b'', [], ''a|b'']. CHR 0x0A \<notin> set v"
    by (simp add: selectorValues_def exSelector_def)
  have k: "wellKeyed DefaultLabelKeys" "CHR ''='' \<notin> set ''job_name''"
    by (simp_all add: wellKeyed_def DefaultLabelKeys_def)
  from RenderOnLabel_exact [OF k(1) v k(2), THEN conjunct2, rule_format, OF s] s show ?thesis by (intro exI conjI)
qed

section \<open>Reads of pairs\<close>

lemma SortedNamePairs_set: "set (SortedNamePairs pairs) = {p \<in> set pairs. fst p \<noteq> [] \<and> snd p \<noteq> []}"
  by (auto simp: SortedNamePairs_def)

lemma SortedNamePairs_canonical:
  "SortedNamePairs pairs = sorted_list_of_set {p \<in> set pairs. fst p \<noteq> [] \<and> snd p \<noteq> []}"
proof -
  have "set (filter (\<lambda>(ns, n). ns \<noteq> [] \<and> n \<noteq> []) pairs) = {p \<in> set pairs. fst p \<noteq> [] \<and> snd p \<noteq> []}" by auto
  then show ?thesis unfolding SortedNamePairs_def Compact_sort_set by simp
qed

lemma pairLoop_out:
  "pairLoop budget w out cur nss ns used ps = out @ pairLoop budget w [] cur nss ns used ps"
proof (induction ps arbitrary: out cur nss ns used)
  case (Cons p ps)
  show ?case
    unfolding pairLoop.simps(2) Let_def Cons.IH [of "out @ [cur]"] Cons.IH [of "[] @ [cur]"] Cons.IH [of out]
    by (simp only: if_distrib [of "\<lambda>x. out @ x"] append_assoc append_Nil)
qed simp

text \<open>The two alternations of a chunk, by its distinct namespaces and names.\<close>

definition pairCost :: "int \<Rightarrow> NamePair list \<Rightarrow> int" where
  "pairCost w c = w + altCost 0 (sorted_list_of_set (fst ` set c)) + altCost 0 (sorted_list_of_set (snd ` set c))"

definition pairOk :: "int \<Rightarrow> int \<Rightarrow> NamePair list \<Rightarrow> bool" where
  "pairOk budget w c \<longleftrightarrow> c \<noteq> [] \<and>
     int (card (fst ` set c)) \<le> MaxAlternationValues \<and> int (card (snd ` set c)) \<le> MaxAlternationValues \<and>
     (budget > 0 \<longrightarrow> length c = 1 \<or> pairCost w c \<le> budget)"

lemma altCost_distinct: "distinct xs \<Longrightarrow> altCost ov (sorted_list_of_set (set xs)) = altCost ov xs"
  unfolding altCost_def
  by (simp add: sum_list_distinct_conv_sum_set distinct_card sorted_list_of_set_eq_Nil_iff)

lemma altCost_next: "altCost 0 (xs @ [v]) = altCost 0 xs + nextCost v (length xs)"
  by (simp add: altCost_snoc nextCost_def)

lemma pairLoop_spec:
  assumes "cur \<noteq> [] \<Longrightarrow> pairOk budget w cur" and "cur \<noteq> [] \<or> ps \<noteq> []"
    and "distinct nss" and "set nss = fst ` set cur" and "distinct ns" and "set ns = snd ` set cur"
    and "used = w + altCost 0 nss + altCost 0 ns"
  shows "concat (pairLoop budget w [] cur nss ns used ps) = cur @ ps \<and>
    (\<forall>c\<in>set (pairLoop budget w [] cur nss ns used ps). pairOk budget w c)"
  using assms
proof (induction ps arbitrary: cur nss ns used)
  case Nil
  then show ?case by simp
next
  case (Cons p ps)
  let ?kns = "fst p \<in> set nss" and ?kn = "snd p \<in> set ns"
  let ?add = "(if \<not> ?kns then nextCost (fst p) (length nss) else 0) + (if \<not> ?kn then nextCost (snd p) (length ns) else 0)"
  let ?over = "\<not> ?kns \<and> int (length nss) \<ge> MaxAlternationValues \<or> \<not> ?kn \<and> int (length ns) \<ge> MaxAlternationValues"
  let ?full = "length cur > 0 \<and> (budget > 0 \<and> used + ?add > budget \<or> ?over)"
  let ?nss = "if ?kns then nss else nss @ [fst p]" and ?ns = "if ?kn then ns else ns @ [snd p]"
  show ?case
  proof (cases ?full)
    case True
    let ?u = "w + nextCost (fst p) 0 + nextCost (snd p) 0"
    have one: "pairOk budget w [p]" by (simp add: pairOk_def MaxAlternationValues_def)
    have "?u = w + altCost 0 [fst p] + altCost 0 [snd p]" by (simp add: altCost_def nextCost_def)
    then have "concat (pairLoop budget w [] [p] [fst p] [snd p] ?u ps) = [p] @ ps \<and>
        (\<forall>c\<in>set (pairLoop budget w [] [p] [fst p] [snd p] ?u ps). pairOk budget w c)"
      using one by (intro Cons.IH) simp_all
    then show ?thesis
      unfolding pairLoop.simps Let_def List.member_iff if_P [OF True] append_Nil
      using True Cons.prems(1) by (simp add: pairLoop_out [of _ _ "[cur]"])
  next
    case False
    have d: "distinct ?nss" "set ?nss = fst ` set (cur @ [p])" "distinct ?ns" "set ?ns = snd ` set (cur @ [p])"
      using Cons.prems by auto
    have u: "used + ?add = w + altCost 0 ?nss + altCost 0 ?ns"
      using Cons.prems(7) by (simp add: altCost_next)
    have card: "card (fst ` set (cur @ [p])) = length ?nss" "card (snd ` set (cur @ [p])) = length ?ns"
      using distinct_card [OF d(1)] distinct_card [OF d(3)] d(2,4) by simp_all
    have "pairCost w (cur @ [p]) = used + ?add"
      unfolding pairCost_def u using altCost_distinct [OF d(1)] altCost_distinct [OF d(3)] d(2,4) by simp
    moreover have "int (length ?nss) \<le> MaxAlternationValues \<and> int (length ?ns) \<le> MaxAlternationValues"
    proof (cases "cur = []")
      case True
      then show ?thesis using Cons.prems(4,6) by (simp add: MaxAlternationValues_def)
    next
      case ne: False
      have "card (fst ` set cur) = length nss" "card (snd ` set cur) = length ns"
        using distinct_card [OF Cons.prems(3)] distinct_card [OF Cons.prems(5)] Cons.prems(4,6) by simp_all
      then show ?thesis using False ne Cons.prems(1) by (auto simp: pairOk_def)
    qed
    ultimately have "pairOk budget w (cur @ [p])"
      using False card unfolding pairOk_def by (auto simp del: set_append image_Un)
    with d u have "concat (pairLoop budget w [] (cur @ [p]) ?nss ?ns (used + ?add) ps) = (cur @ [p]) @ ps \<and>
        (\<forall>c\<in>set (pairLoop budget w [] (cur @ [p]) ?nss ?ns (used + ?add) ps). pairOk budget w c)"
      by (intro Cons.IH) simp_all
    then show ?thesis unfolding pairLoop.simps Let_def List.member_iff if_not_P [OF False] by simp
  qed
qed

definition pairWrapper :: "string \<Rightarrow> int" where
  "pairWrapper label = int (length NamespaceLabel) + 4 + 1 + int (length label) + 4"

lemma ChunkNamePairs_spec:
  "concat (ChunkNamePairs pairs label budget) = SortedNamePairs pairs \<and>
   (\<forall>c\<in>set (ChunkNamePairs pairs label budget). pairOk budget (pairWrapper label) c)"
proof (cases "SortedNamePairs pairs = []")
  case False
  then show ?thesis
    using pairLoop_spec [of "[]" budget "pairWrapper label" "SortedNamePairs pairs" "[]" "[]" "pairWrapper label"]
    by (simp add: ChunkNamePairs_def pairWrapper_def altCost_def Let_def)
qed (simp add: ChunkNamePairs_def)

lemma escape_QuoteMeta_length: "length (escapeLiteral v) \<le> length (escapeLiteral (QuoteMeta v))"
  unfolding escapeLiteral_bytes QuoteMeta_def by (induction v) (auto simp: escByte_def)

lemma altCost_rendered: "c \<noteq> [] \<Longrightarrow> altCost 0 c = int (length (Join (map (\<lambda>v. escapeLiteral (QuoteMeta v)) c) ''|''))"
  by (induction c rule: induct_list012) (simp_all add: altCost_def valueCost_def)

lemma MatcherCost_le:
  assumes "\<forall>v\<in>set vs. v \<noteq> []" and "vs \<noteq> []"
  shows "MatcherCost key vs \<le> int (length key) + 4 + altCost 0 (sorted_list_of_set (set vs))"
proof -
  let ?n = "sorted_list_of_set (set vs)"
  have n: "normaliseValues vs = ?n" using assms(1) by (auto simp: normaliseValues_set intro!: arg_cong [of _ _ sorted_list_of_set])
  have ne: "?n \<noteq> []" using assms(2) by (simp add: sorted_list_of_set_eq_Nil_iff)
  have "length ?n = 1 \<Longrightarrow> altCost 0 ?n = valueCost (?n ! 0)" by (cases ?n) (auto simp: altCost_def)
  moreover have "int (length (escapeLiteral (?n ! 0))) \<le> valueCost (?n ! 0)"
    using escape_QuoteMeta_length by (simp add: valueCost_def)
  ultimately show ?thesis
    using ne altCost_rendered [OF ne] unfolding MatcherCost_def appendMatcher_def Let_def n by auto
qed

text \<open>
  A set of pairs is split into queries the upstream accepts. The chunks, concatenated, are the usable
  pairs (both halves non-empty), sorted and without repetition; each chunk has at most
  \<open>MaxAlternationValues\<close> distinct namespaces and names, and its two rendered matchers with the comma between them
  fit the byte budget unless it is a single pair, which is never dropped.
\<close>

theorem ChunkNamePairs_bounds:
  "concat (ChunkNamePairs pairs label budget) = sorted_list_of_set {p \<in> set pairs. fst p \<noteq> [] \<and> snd p \<noteq> []} \<and>
   (\<forall>c\<in>set (ChunkNamePairs pairs label budget).
      c \<noteq> [] \<and> int (card (fst ` set c)) \<le> MaxAlternationValues \<and> int (card (snd ` set c)) \<le> MaxAlternationValues \<and>
      (budget > 0 \<longrightarrow> length c = 1 \<or>
         MatcherCost NamespaceLabel (map fst c) + 1 + MatcherCost label (map snd c) \<le> budget))"
proof -
  note spec = ChunkNamePairs_spec [of pairs label budget]
  have "MatcherCost NamespaceLabel (map fst c) + 1 + MatcherCost label (map snd c) \<le> pairCost (pairWrapper label) c"
    if "c \<in> set (ChunkNamePairs pairs label budget)" "c \<noteq> []" for c
  proof -
    have "set c \<subseteq> set (SortedNamePairs pairs)" using spec that(1) by (metis concat.simps(2) set_concat Union_upper UN_upper)
    then have "\<forall>v\<in>set (map fst c). v \<noteq> []" "\<forall>v\<in>set (map snd c). v \<noteq> []" by (auto simp: SortedNamePairs_set)
    from MatcherCost_le [OF this(1), of NamespaceLabel] MatcherCost_le [OF this(2), of label] that(2)
    show ?thesis by (simp add: pairCost_def pairWrapper_def)
  qed
  then show ?thesis
    using spec unfolding SortedNamePairs_canonical pairOk_def by (meson order_trans)
qed

theorem ChunkNamePairs_bounds_witness:
  "ChunkNamePairs [(''shop'', ''b''), ([], ''x''), (''shop'', ''a''), (''ops'', ''a'')] PodLabel 28
     = [[(''ops'', ''a'')], [(''shop'', ''a''), (''shop'', ''b'')]] \<and>
   MatcherCost NamespaceLabel [''shop'', ''shop''] + 1 + MatcherCost PodLabel [''a'', ''b''] \<le> 28"
proof -
  let ?ps = "[(''shop'', ''b''), ([], ''x''), (''shop'', ''a''), (''ops'', ''a'')]"
  have c: "ChunkNamePairs ?ps PodLabel 28 = [[(''ops'', ''a'')], [(''shop'', ''a''), (''shop'', ''b'')]]" by code_simp
  show ?thesis using ChunkNamePairs_bounds [of ?ps PodLabel 28] unfolding c by simp
qed

lemma RenderNamesAcrossNamespaces_reads:
  assumes "wellKeyed keys" and "\<forall>v\<in>selectorValues sel \<union> set nss \<union> set names. CHR 0x0A \<notin> set v"
    and "namespaceNameLabel q label" and "hasValue nss" and "hasValue names"
  shows "\<exists>s. RenderNamesAcrossNamespaces trunc q window keys sel label nss names = Some s \<and>
    readsAs trunc q window (\<lambda>L. selects sel (dimsOf q) keys L \<and> L NamespaceLabel \<in> set nss - {[]} \<and>
       L label \<in> set names - {[]}) s"
proof -
  have label: "label = PodLabel \<or> label = ClaimLabel" using assms(3) by (auto simp: namespaceNameLabel_def split: if_splits)
  then have l: "label \<noteq> []" "CHR ''='' \<notin> set label" by auto
  have nl: "\<forall>v\<in>set nss. CHR 0x0A \<notin> set v" "\<forall>v\<in>set names. CHR 0x0A \<notin> set v"
    "\<forall>v\<in>selectorValues sel. CHR 0x0A \<notin> set v" using assms(2) by auto
  have n: "NamespaceLabel \<noteq> []" "CHR ''='' \<notin> set NamespaceLabel" by simp_all
  note r1 = plainMatcher_restr [OF assms(4) n nl(1)] and r2 = plainMatcher_restr [OF assms(5) l nl(2)]
  let ?restr = "plainMatcher NamespaceLabel nss @ plainMatcher label names"
  have "RenderNamesAcrossNamespaces trunc q window keys sel label nss names
      = Some (renderHarvest trunc q window (baseMatchers q keys sel @ map renderM ?restr))"
    using assms(3-5) by (simp add: RenderNamesAcrossNamespaces_def Let_def appendMatcher_eq)
  moreover have "readsAs trunc q window (\<lambda>L. selects sel (dimsOf q) keys L \<and> (\<forall>m\<in>set ?restr. matcherHolds L m))
      (renderHarvest trunc q window (baseMatchers q keys sel @ map renderM ?restr))"
    using r1(1,2) r2(2) by (intro restricted_reads [OF assms(1) nl(3)]) auto
  ultimately show ?thesis using r1(3) r2(3) by (simp add: ball_Un conj_assoc)
qed

text \<open>The rows a chunked pair read merges, when the upstream answers every chunk.\<close>

definition pairRows ::
  "(int \<Rightarrow> int) \<Rightarrow> Query \<Rightarrow> int \<Rightarrow> LabelKeys \<Rightarrow> Selector \<Rightarrow> string \<Rightarrow> int \<Rightarrow> (string \<Rightarrow> (labels, 'f) Sample list)
     \<Rightarrow> NamePair list \<Rightarrow> (labels, 'f) Sample list" where
  "pairRows trunc q window keys sel label budget ask pairs =
     concat (map (\<lambda>c. case RenderNamesAcrossNamespaces trunc q window keys sel label (map fst c) (map snd c) of
                        None \<Rightarrow> [] | Some s \<Rightarrow> ask s)
       (ChunkNamePairs pairs label budget))"

text \<open>
  Reading pairs through independent alternations is exact. When the upstream answers each query with
  the series it denotes, merging the chunks' answers and dropping the cross pairs leaves exactly the series
  of the request's scope whose (namespace, name) is one of the usable pairs, whatever the byte budget.
\<close>

theorem pair_read_exact:
  assumes "wellKeyed keys" and "\<forall>v\<in>selectorValues sel \<union> fst ` set pairs \<union> snd ` set pairs. CHR 0x0A \<notin> set v"
    and "namespaceNameLabel q label"
    and ask: "\<And>s P. readsAs trunc q window P s \<Longrightarrow> set (ask s) = {r \<in> db. P (gm_str (sm_metric r))}"
  shows "set (KeepNamePairs (pairRows trunc q window keys sel label budget ask pairs) label pairs)
    = {r \<in> db. selects sel (dimsOf q) keys (gm_str (sm_metric r)) \<and>
         (gm_str (sm_metric r) NamespaceLabel, gm_str (sm_metric r) label) \<in> set pairs \<and>
         gm_str (sm_metric r) NamespaceLabel \<noteq> [] \<and> gm_str (sm_metric r) label \<noteq> []}"
proof -
  let ?cs = "ChunkNamePairs pairs label budget"
  have cs: "set (concat ?cs) = {p \<in> set pairs. fst p \<noteq> [] \<and> snd p \<noteq> []}"
    using ChunkNamePairs_spec [of pairs label budget] by (simp add: SortedNamePairs_set)
  have ne: "c \<noteq> []" if "c \<in> set ?cs" for c
    using that ChunkNamePairs_spec [of pairs label budget] unfolding pairOk_def by blast
  have rows: "set (case RenderNamesAcrossNamespaces trunc q window keys sel label (map fst c) (map snd c) of
        None \<Rightarrow> [] | Some s \<Rightarrow> ask s)
      = {r \<in> db. selects sel (dimsOf q) keys (gm_str (sm_metric r)) \<and>
          gm_str (sm_metric r) NamespaceLabel \<in> fst ` set c \<and> gm_str (sm_metric r) label \<in> snd ` set c}"
    if c: "c \<in> set ?cs" for c
  proof -
    have sub: "set c \<subseteq> {p \<in> set pairs. fst p \<noteq> [] \<and> snd p \<noteq> []}" using cs c by auto
    then have v: "fst ` set c - {[]} = fst ` set c" "snd ` set c - {[]} = snd ` set c" by auto
    have "hasValue (map fst c)" "hasValue (map snd c)" using ne [OF c] v by (auto simp: hasValue_iff)
    moreover have "\<forall>v\<in>selectorValues sel \<union> set (map fst c) \<union> set (map snd c). CHR 0x0A \<notin> set v"
      using assms(2) sub by fastforce
    ultimately obtain s where "RenderNamesAcrossNamespaces trunc q window keys sel label (map fst c) (map snd c) = Some s"
      "readsAs trunc q window (\<lambda>L. selects sel (dimsOf q) keys L \<and> L NamespaceLabel \<in> set (map fst c) - {[]} \<and>
         L label \<in> set (map snd c) - {[]}) s"
      using RenderNamesAcrossNamespaces_reads [OF assms(1) _ assms(3)] by blast
    with ask [OF this(2)] v show ?thesis by simp
  qed
  have in_rows: "r \<in> set (pairRows trunc q window keys sel label budget ask pairs) \<longleftrightarrow>
      r \<in> db \<and> selects sel (dimsOf q) keys (gm_str (sm_metric r)) \<and> (\<exists>c\<in>set ?cs. gm_str (sm_metric r) NamespaceLabel \<in> fst ` set c \<and> gm_str (sm_metric r) label \<in> snd ` set c)" for r
    unfolding pairRows_def using rows by auto
  have usable: "(\<exists>c\<in>set ?cs. a \<in> fst ` set c \<and> b \<in> snd ` set c) \<longleftrightarrow> a \<noteq> [] \<and> b \<noteq> []"
    if "(a, b) \<in> set pairs" for a b
  proof -
    have "a \<noteq> [] \<and> b \<noteq> [] \<longleftrightarrow> (a, b) \<in> set (concat ?cs)" using cs that by auto
    moreover have "a \<in> fst ` set c \<Longrightarrow> b \<in> snd ` set c \<Longrightarrow> c \<in> set ?cs \<Longrightarrow> a \<noteq> [] \<and> b \<noteq> []" for c
      using cs by fastforce
    ultimately show ?thesis by force
  qed
  show ?thesis
  proof (rule set_eqI)
    fix r :: "(labels, 'a) Sample"
    let ?a = "gm_str (sm_metric r) NamespaceLabel" and ?b = "gm_str (sm_metric r) label"
    show "r \<in> set (KeepNamePairs (pairRows trunc q window keys sel label budget ask pairs) label pairs) \<longleftrightarrow>
        r \<in> {r \<in> db. selects sel (dimsOf q) keys (gm_str (sm_metric r)) \<and>
         (gm_str (sm_metric r) NamespaceLabel, gm_str (sm_metric r) label) \<in> set pairs \<and>
         gm_str (sm_metric r) NamespaceLabel \<noteq> [] \<and> gm_str (sm_metric r) label \<noteq> []}"
    proof (cases "(?a, ?b) \<in> set pairs")
      case True
      then show ?thesis
        unfolding KeepNamePairs_def set_filter mem_Collect_eq in_rows usable [OF True] by blast
    next
      case False
      then show ?thesis unfolding KeepNamePairs_def set_filter mem_Collect_eq by blast
    qed
  qed
qed

definition exRow :: "string \<Rightarrow> string \<Rightarrow> (labels, nat) Sample" where
  "exRow ns pod = \<lparr> sm_metric = [(''namespace'', ns), (''pod'', pod)], sm_value = 1 \<rparr>"

definition exDb :: "(labels, nat) Sample set" where
  "exDb = {exRow ''shop'' ''a'', exRow ''shop'' ''b'', exRow ''ops'' ''a'', exRow ''ops'' ''b''}"

theorem pair_read_exact_witness:
  "\<exists>ask. set (KeepNamePairs (pairRows (\<lambda>d. d div Second) QPodInfo 60000000000 DefaultLabelKeys noSelector PodLabel 1000
        ask [(''shop'', ''a''), (''ops'', ''b'')]) PodLabel [(''shop'', ''a''), (''ops'', ''b'')])
     = {exRow ''shop'' ''a'', exRow ''ops'' ''b''}"
proof -
  let ?t = "\<lambda>d. d div Second" and ?pairs = "[(''shop'', ''a''), (''ops'', ''b'')]"
  have fin: "finite {r \<in> exDb. Q r}" for Q by (rule finite_subset [of _ exDb]) (auto simp: exDb_def)
  define answer where "answer s = {r \<in> exDb. \<exists>P. readsAs ?t QPodInfo 60000000000 P s \<and> P (gm_str (sm_metric r))}" for s
  have "\<forall>s. \<exists>xs. set xs = answer s"
    by (intro allI finite_list) (unfold answer_def, rule fin)
  from choice [OF this] obtain ask where ask: "set (ask s) = answer s" for s by blast
  have up: "set (ask s) = {r \<in> exDb. P (gm_str (sm_metric r))}" if "readsAs ?t QPodInfo 60000000000 P s" for s P
  proof -
    have "(\<exists>P'. readsAs ?t QPodInfo 60000000000 P' s \<and> P' L) \<longleftrightarrow> P L" for L
    proof
      assume "\<exists>P'. readsAs ?t QPodInfo 60000000000 P' s \<and> P' L"
      then obtain P' where "readsAs ?t QPodInfo 60000000000 P' s" "P' L" by (elim exE conjE)
      with readsAs_unique [OF this(1) that] show "P L" by (simp only:)
    next
      assume "P L"
      with that show "\<exists>P'. readsAs ?t QPodInfo 60000000000 P' s \<and> P' L" by (intro exI conjI)
    qed
    then show ?thesis unfolding ask answer_def by (simp only:)
  qed
  have k: "wellKeyed DefaultLabelKeys" "namespaceNameLabel QPodInfo PodLabel"
    by (simp_all add: wellKeyed_def DefaultLabelKeys_def namespaceNameLabel_def PodNamespaceScopedQueries_def)
  have v: "\<forall>v\<in>selectorValues noSelector \<union> fst ` set ?pairs \<union> snd ` set ?pairs. CHR 0x0A \<notin> set v"
    by (simp add: selectorValues_def noSelector_def)
  have sel: "selects noSelector d DefaultLabelKeys L" for d L by (simp add: selects_def noSelector_def)
  have "set (KeepNamePairs (pairRows ?t QPodInfo 60000000000 DefaultLabelKeys noSelector PodLabel 1000 ask ?pairs) PodLabel ?pairs)
      = {r \<in> exDb. selects noSelector (dimsOf QPodInfo) DefaultLabelKeys (gm_str (sm_metric r)) \<and>
         (gm_str (sm_metric r) NamespaceLabel, gm_str (sm_metric r) PodLabel) \<in> set ?pairs \<and>
         gm_str (sm_metric r) NamespaceLabel \<noteq> [] \<and> gm_str (sm_metric r) PodLabel \<noteq> []}"
    by (rule pair_read_exact [OF k(1) v k(2) up])
  also have "\<dots> = {exRow ''shop'' ''a'', exRow ''ops'' ''b''}"
    by (auto simp: sel exDb_def exRow_def gm_str_def)
  finally show ?thesis by blast
qed

end
