(* ===== verification/GraphModel.thy ===== *)
theory GraphModel
  imports Prelude
begin

text \<open>
  The graph of one time window: \<open>pkg/graph/node.go\<close>, \<open>edge.go\<close>, \<open>graph.go\<close> and
  \<open>registry.go\<close>, and the status pass of \<open>pkg/build/status.go\<close>.

  Structs are records, the sealed interface \<open>GraphNode\<close> is a datatype with one constructor per
  implementing struct, and the methods of each struct are a value of \<open>NodeMethods\<close>, the method
  table a Go interface value carries. \<open>float64\<close> figures have an abstract type \<open>'f\<close>: nothing
  in this theory computes with them. A \<open>time.Time\<close> is its instant in nanoseconds since the Unix
  epoch. \<open>uuid.NewSHA1\<close> is third-party code and is the parameter \<open>mkid\<close> of \<open>NewEdge\<close>.

  The lemmas show that \<open>NewGraph\<close> keeps the first node of each id and establishes the invariant
  \<open>wf_graph\<close> that the projections rely on, that alert normalisation is a canonical form, that the
  status verdict is the worst of its signals, that the edge counters partition the edges, and where
  the id constructors are injective.
\<close>

section \<open>Attributes\<close>

datatype NodeType =
    NodeTypePod
  | NodeTypeK8sNode
  | NodeTypePVC
  | NodeTypeService
  | NodeTypeExternal
  | NodeTypeNetAppAggr
  | NodeTypeNetAppNode
  | NodeTypeNetAppSVM

primrec NodeTypeStr :: "NodeType \<Rightarrow> string" where
  "NodeTypeStr NodeTypePod = ''pod''"
| "NodeTypeStr NodeTypeK8sNode = ''node''"
| "NodeTypeStr NodeTypePVC = ''pvc''"
| "NodeTypeStr NodeTypeService = ''service''"
| "NodeTypeStr NodeTypeExternal = ''external''"
| "NodeTypeStr NodeTypeNetAppAggr = ''netapp-aggr''"
| "NodeTypeStr NodeTypeNetAppNode = ''netapp-node''"
| "NodeTypeStr NodeTypeNetAppSVM = ''netapp-svm''"

record Owner =
  owner_Kind :: string
  owner_Name :: string

record Container =
  container_Name :: string
  container_Image :: string

record 'f QoSCeiling =
  qos_PolicyGroup :: string
  qos_MaxIOPS :: "'f option"
  qos_MaxBytesPerSec :: "'f option"

record 'f UsageBytes =
  UsedBytes :: "'f option"
  CapacityBytes :: "'f option"

record Hardware =
  hw_Model :: string
  hw_Serial :: string
  hw_Version :: string
  hw_Vendor :: string
  hw_Location :: string

definition Hardware_Empty :: "Hardware \<Rightarrow> bool" where
  "Hardware_Empty h =
     (hw_Model h = [] \<and> hw_Serial h = [] \<and> hw_Version h = [] \<and>
      hw_Vendor h = [] \<and> hw_Location h = [])"

record 'f NodePerf =
  CPUBusyPct :: "'f option"
  TotalOps :: "'f option"
  TotalLatencyUs :: "'f option"
  TotalBytesPerSec :: "'f option"

definition NodePerf_Empty :: "'f NodePerf \<Rightarrow> bool" where
  "NodePerf_Empty p =
     (CPUBusyPct p = None \<and> TotalOps p = None \<and>
      TotalLatencyUs p = None \<and> TotalBytesPerSec p = None)"

record Alert =
  alert_Name :: string
  alert_State :: string
  alert_Severity :: string
  alert_Time :: int

text \<open>The zero \<open>time.Time\<close>: 1 January of year 1, before every resolved sample time.\<close>

definition zeroTime :: int where
  "zeroTime = - 62135596800 * 10 ^ 9"

abbreviation AlertStateFiring :: string where "AlertStateFiring \<equiv> ''firing''"
abbreviation StatusNormal :: string where "StatusNormal \<equiv> ''normal''"
abbreviation StatusWarning :: string where "StatusWarning \<equiv> ''warning''"
abbreviation StatusCritical :: string where "StatusCritical \<equiv> ''critical''"
abbreviation HealthOnline :: string where "HealthOnline \<equiv> ''online''"
abbreviation HealthDegraded :: string where "HealthDegraded \<equiv> ''degraded''"
abbreviation ReadyStatusReady :: string where "ReadyStatusReady \<equiv> ''Ready''"
abbreviation ReadyStatusNotReady :: string where "ReadyStatusNotReady \<equiv> ''NotReady''"
abbreviation ReadyStatusUnknown :: string where "ReadyStatusUnknown \<equiv> ''Unknown''"

text \<open>
  \<open>strings.ToLower\<close> on UTF-8 bytes, as far as a comparison with an ASCII literal can tell: the
  ASCII capitals, and the two non-ASCII runes whose lower case is an ASCII letter (U+0130, bytes
  C4 B0, to \<open>i\<close>; U+212A, bytes E2 84 AA, to \<open>k\<close>). Every other non-ASCII rune stays
  non-ASCII and is left as it is.
\<close>

definition lowerByte :: "char \<Rightarrow> char" where
  "lowerByte c =
     (if 65 \<le> (of_char c :: nat) \<and> (of_char c :: nat) \<le> 90
      then char_of ((of_char c :: nat) + 32) else c)"

fun ToLower :: "string \<Rightarrow> string" where
  "ToLower [] = []"
| "ToLower (c # s) =
     (if c = CHR 0xC4 \<and> take 1 s = [CHR 0xB0] then CHR ''i'' # ToLower (drop 1 s)
      else if c = CHR 0xE2 \<and> take 2 s = [CHR 0x84, CHR 0xAA] then CHR ''k'' # ToLower (drop 2 s)
      else lowerByte c # ToLower s)"

section \<open>Alerts and status\<close>

text \<open>\<open>FoldStatus\<close>: the loop returns early on the first critical alert (\<open>Inl\<close>).\<close>

fun FoldStatus_loop :: "Alert list \<Rightarrow> string \<Rightarrow> string + string" where
  "FoldStatus_loop [] status = Inr status"
| "FoldStatus_loop (a # as) status =
     (let sev = ToLower (alert_Severity a) in
      if sev = ''critical'' then Inl StatusCritical
      else if sev = ''info'' \<or> sev = ''none'' then FoldStatus_loop as status
      else FoldStatus_loop as StatusWarning)"

definition FoldStatus :: "Alert list \<Rightarrow> string \<Rightarrow> string \<Rightarrow> string" where
  "FoldStatus alerts health readyStatus =
     (case FoldStatus_loop alerts StatusNormal of
        Inl s \<Rightarrow> s
      | Inr status \<Rightarrow>
          if health = HealthDegraded \<or> readyStatus = ReadyStatusNotReady then StatusCritical
          else if readyStatus = ReadyStatusUnknown then StatusWarning
          else status)"

definition alertKey :: "Alert \<Rightarrow> string \<times> string" where
  "alertKey a = (alert_Name a, alert_Severity a)"

text \<open>The compaction loop of \<open>SortAlerts\<close>; \<open>out\<close> is the prefix written so far.\<close>

fun mergeAlerts :: "Alert list \<Rightarrow> Alert list \<Rightarrow> Alert list" where
  "mergeAlerts out [] = out"
| "mergeAlerts out (a # as) =
     (if out \<noteq> [] \<and> alert_Name (last out) = alert_Name a
         \<and> alert_Severity (last out) = alert_Severity a
      then mergeAlerts
             (if alert_Time a > alert_Time (last out)
              then butlast out @ [(last out)\<lparr>alert_Time := alert_Time a\<rparr>] else out) as
      else mergeAlerts (out @ [a]) as)"

definition SortAlerts :: "Alert list \<Rightarrow> Alert list" where
  "SortAlerts alerts = (if alerts = [] then [] else mergeAlerts [] (sort_key alertKey alerts))"

section \<open>Nodes\<close>

record PodNode =
  pod_IDValue :: string
  pod_NameValue :: string
  pod_LabelsValue :: labels
  pod_IPAddressValue :: "string list"
  pod_OwnerValue :: "Owner option"
  pod_ApplicationValue :: string
  pod_ContainersValue :: "Container list"
  pod_AlertsValue :: "Alert list"
  pod_StatusValue :: string

record K8sNode =
  k8s_IDValue :: string
  k8s_NameValue :: string
  k8s_LabelsValue :: labels
  k8s_IPAddressValue :: "string list"
  k8s_ReadyStatusValue :: string
  k8s_AlertsValue :: "Alert list"
  k8s_StatusValue :: string

record 'f PVCNode =
  pvc_IDValue :: string
  pvc_NameValue :: string
  pvc_LabelsValue :: labels
  pvc_StorageClassValue :: string
  pvc_ApplicationValue :: string
  pvc_UsageValue :: "'f UsageBytes option"
  pvc_QoSValue :: "'f QoSCeiling option"
  pvc_AlertsValue :: "Alert list"
  pvc_StatusValue :: string

record ServiceNode =
  svc_IDValue :: string
  svc_NameValue :: string
  svc_LabelsValue :: labels
  svc_IPAddressValue :: "string list"
  svc_ApplicationValue :: string

record ExternalNode =
  ext_IDValue :: string
  ext_NameValue :: string
  ext_LabelsValue :: labels

record 'f NetAppAggrNode =
  aggr_IDValue :: string
  aggr_NameValue :: string
  aggr_LabelsValue :: labels
  aggr_HealthValue :: string
  aggr_UsageValue :: "'f UsageBytes option"
  aggr_AlertsValue :: "Alert list"
  aggr_StatusValue :: string

record 'f NetAppNode =
  ctrl_IDValue :: string
  ctrl_NameValue :: string
  ctrl_LabelsValue :: labels
  ctrl_HealthValue :: string
  ctrl_HardwareValue :: "Hardware option"
  ctrl_PerfValue :: "'f NodePerf option"
  ctrl_AlertsValue :: "Alert list"
  ctrl_StatusValue :: string

record NetAppSVMNode =
  svm_IDValue :: string
  svm_NameValue :: string
  svm_LabelsValue :: labels

text \<open>The sealed interface and its method table.\<close>

datatype 'f GraphNode =
    Pod PodNode
  | K8s K8sNode
  | PVC "'f PVCNode"
  | Svc ServiceNode
  | Ext ExternalNode
  | Aggr "'f NetAppAggrNode"
  | Ctrl "'f NetAppNode"
  | SVM NetAppSVMNode

record 'f NodeMethods =
  mID :: string
  mName :: string
  mType :: NodeType
  mLabels :: labels
  mIPAddress :: "string list"
  mOwner :: "Owner option"
  mApplication :: string
  mContainers :: "Container list"
  mReadyStatus :: string
  mHealth :: string
  mUsage :: "'f UsageBytes option"
  mStorageClass :: string
  mQoS :: "'f QoSCeiling option"
  mHardware :: "Hardware option"
  mPerf :: "'f NodePerf option"
  mAlerts :: "Alert list"
  mStatus :: string

definition PodNode_methods :: "PodNode \<Rightarrow> 'f NodeMethods" where
  "PodNode_methods p = \<lparr>
     mID = pod_IDValue p, mName = pod_NameValue p, mType = NodeTypePod,
     mLabels = pod_LabelsValue p, mIPAddress = pod_IPAddressValue p,
     mOwner = pod_OwnerValue p, mApplication = pod_ApplicationValue p,
     mContainers = pod_ContainersValue p, mReadyStatus = [], mHealth = [],
     mUsage = None, mStorageClass = [], mQoS = None, mHardware = None, mPerf = None,
     mAlerts = pod_AlertsValue p, mStatus = pod_StatusValue p \<rparr>"

definition K8sNode_methods :: "K8sNode \<Rightarrow> 'f NodeMethods" where
  "K8sNode_methods n = \<lparr>
     mID = k8s_IDValue n, mName = k8s_NameValue n, mType = NodeTypeK8sNode,
     mLabels = k8s_LabelsValue n, mIPAddress = k8s_IPAddressValue n,
     mOwner = None, mApplication = [], mContainers = [],
     mReadyStatus = k8s_ReadyStatusValue n, mHealth = [],
     mUsage = None, mStorageClass = [], mQoS = None, mHardware = None, mPerf = None,
     mAlerts = k8s_AlertsValue n, mStatus = k8s_StatusValue n \<rparr>"

definition PVCNode_methods :: "'f PVCNode \<Rightarrow> 'f NodeMethods" where
  "PVCNode_methods p = \<lparr>
     mID = pvc_IDValue p, mName = pvc_NameValue p, mType = NodeTypePVC,
     mLabels = pvc_LabelsValue p, mIPAddress = [],
     mOwner = None, mApplication = pvc_ApplicationValue p, mContainers = [],
     mReadyStatus = [], mHealth = [], mUsage = pvc_UsageValue p,
     mStorageClass = pvc_StorageClassValue p, mQoS = pvc_QoSValue p,
     mHardware = None, mPerf = None,
     mAlerts = pvc_AlertsValue p, mStatus = pvc_StatusValue p \<rparr>"

definition ServiceNode_methods :: "ServiceNode \<Rightarrow> 'f NodeMethods" where
  "ServiceNode_methods s = \<lparr>
     mID = svc_IDValue s, mName = svc_NameValue s, mType = NodeTypeService,
     mLabels = svc_LabelsValue s, mIPAddress = svc_IPAddressValue s,
     mOwner = None, mApplication = svc_ApplicationValue s, mContainers = [],
     mReadyStatus = [], mHealth = [], mUsage = None, mStorageClass = [], mQoS = None,
     mHardware = None, mPerf = None, mAlerts = [], mStatus = [] \<rparr>"

definition ExternalNode_methods :: "ExternalNode \<Rightarrow> 'f NodeMethods" where
  "ExternalNode_methods e = \<lparr>
     mID = ext_IDValue e, mName = ext_NameValue e, mType = NodeTypeExternal,
     mLabels = ext_LabelsValue e, mIPAddress = [],
     mOwner = None, mApplication = [], mContainers = [],
     mReadyStatus = [], mHealth = [], mUsage = None, mStorageClass = [], mQoS = None,
     mHardware = None, mPerf = None, mAlerts = [], mStatus = [] \<rparr>"

definition NetAppAggrNode_methods :: "'f NetAppAggrNode \<Rightarrow> 'f NodeMethods" where
  "NetAppAggrNode_methods n = \<lparr>
     mID = aggr_IDValue n, mName = aggr_NameValue n, mType = NodeTypeNetAppAggr,
     mLabels = aggr_LabelsValue n, mIPAddress = [],
     mOwner = None, mApplication = [], mContainers = [],
     mReadyStatus = [], mHealth = aggr_HealthValue n, mUsage = aggr_UsageValue n,
     mStorageClass = [], mQoS = None, mHardware = None, mPerf = None,
     mAlerts = aggr_AlertsValue n, mStatus = aggr_StatusValue n \<rparr>"

definition NetAppNode_methods :: "'f NetAppNode \<Rightarrow> 'f NodeMethods" where
  "NetAppNode_methods n = \<lparr>
     mID = ctrl_IDValue n, mName = ctrl_NameValue n, mType = NodeTypeNetAppNode,
     mLabels = ctrl_LabelsValue n, mIPAddress = [],
     mOwner = None, mApplication = [], mContainers = [],
     mReadyStatus = [], mHealth = ctrl_HealthValue n, mUsage = None,
     mStorageClass = [], mQoS = None, mHardware = ctrl_HardwareValue n,
     mPerf = ctrl_PerfValue n,
     mAlerts = ctrl_AlertsValue n, mStatus = ctrl_StatusValue n \<rparr>"

definition NetAppSVMNode_methods :: "NetAppSVMNode \<Rightarrow> 'f NodeMethods" where
  "NetAppSVMNode_methods n = \<lparr>
     mID = svm_IDValue n, mName = svm_NameValue n, mType = NodeTypeNetAppSVM,
     mLabels = svm_LabelsValue n, mIPAddress = [],
     mOwner = None, mApplication = [], mContainers = [],
     mReadyStatus = [], mHealth = [], mUsage = None, mStorageClass = [], mQoS = None,
     mHardware = None, mPerf = None, mAlerts = [], mStatus = [] \<rparr>"

primrec methods :: "'f GraphNode \<Rightarrow> 'f NodeMethods" where
  "methods (Pod p) = PodNode_methods p"
| "methods (K8s n) = K8sNode_methods n"
| "methods (PVC p) = PVCNode_methods p"
| "methods (Svc s) = ServiceNode_methods s"
| "methods (Ext e) = ExternalNode_methods e"
| "methods (Aggr n) = NetAppAggrNode_methods n"
| "methods (Ctrl n) = NetAppNode_methods n"
| "methods (SVM n) = NetAppSVMNode_methods n"

abbreviation ID :: "'f GraphNode \<Rightarrow> string" where "ID n \<equiv> mID (methods n)"
abbreviation Name :: "'f GraphNode \<Rightarrow> string" where "Name n \<equiv> mName (methods n)"
abbreviation Type :: "'f GraphNode \<Rightarrow> NodeType" where "Type n \<equiv> mType (methods n)"
abbreviation Labels :: "'f GraphNode \<Rightarrow> labels" where "Labels n \<equiv> mLabels (methods n)"
abbreviation Application :: "'f GraphNode \<Rightarrow> string" where "Application n \<equiv> mApplication (methods n)"
abbreviation ReadyStatus :: "'f GraphNode \<Rightarrow> string" where "ReadyStatus n \<equiv> mReadyStatus (methods n)"
abbreviation Health :: "'f GraphNode \<Rightarrow> string" where "Health n \<equiv> mHealth (methods n)"
abbreviation Alerts :: "'f GraphNode \<Rightarrow> Alert list" where "Alerts n \<equiv> mAlerts (methods n)"
abbreviation Status :: "'f GraphNode \<Rightarrow> string" where "Status n \<equiv> mStatus (methods n)"

abbreviation label :: "'f GraphNode \<Rightarrow> string \<Rightarrow> string" where
  "label n k \<equiv> gm_str (Labels n) k"

definition SortNodes :: "'f GraphNode list \<Rightarrow> 'f GraphNode list" where
  "SortNodes nodes = sort_key (\<lambda>n. ID n) nodes"

text \<open>\<open>attachStatus\<close> of \<open>pkg/build/status.go\<close>, the type switch of its loop body.\<close>

primrec setStatus :: "string \<Rightarrow> 'f GraphNode \<Rightarrow> 'f GraphNode" where
  "setStatus s (Pod p) = Pod (p\<lparr>pod_StatusValue := s\<rparr>)"
| "setStatus s (K8s n) = K8s (n\<lparr>k8s_StatusValue := s\<rparr>)"
| "setStatus s (PVC p) = PVC (p\<lparr>pvc_StatusValue := s\<rparr>)"
| "setStatus s (Svc v) = Svc v"
| "setStatus s (Ext e) = Ext e"
| "setStatus s (Aggr n) = Aggr (n\<lparr>aggr_StatusValue := s\<rparr>)"
| "setStatus s (Ctrl n) = Ctrl (n\<lparr>ctrl_StatusValue := s\<rparr>)"
| "setStatus s (SVM n) = SVM n"

definition attachStatus :: "'f GraphNode list \<Rightarrow> 'f GraphNode list" where
  "attachStatus nodes =
     map (\<lambda>n. setStatus (FoldStatus (Alerts n) (Health n) (ReadyStatus n)) n) nodes"

section \<open>Identifiers\<close>

definition PodID :: "string \<Rightarrow> string \<Rightarrow> string" where
  "PodID cluster uid = cluster @ ''/'' @ uid"

definition K8sNodeID :: "string \<Rightarrow> string \<Rightarrow> string" where
  "K8sNodeID cluster name = cluster @ ''/'' @ name"

definition PVCID :: "string \<Rightarrow> string \<Rightarrow> string \<Rightarrow> string" where
  "PVCID cluster namespace claim = cluster @ ''/'' @ namespace @ ''/'' @ claim"

definition ServiceID :: "string \<Rightarrow> string \<Rightarrow> string \<Rightarrow> string" where
  "ServiceID cluster namespace service = cluster @ ''/'' @ namespace @ ''/'' @ service"

definition NetAppAggrID :: "string \<Rightarrow> string \<Rightarrow> string" where
  "NetAppAggrID ontapCluster aggr = ''netapp/'' @ ontapCluster @ ''/aggr/'' @ aggr"

definition NetAppNodeID :: "string \<Rightarrow> string \<Rightarrow> string" where
  "NetAppNodeID ontapCluster node = ''netapp/'' @ ontapCluster @ ''/'' @ node"

definition NetAppSVMID :: "string \<Rightarrow> string \<Rightarrow> string" where
  "NetAppSVMID ontapCluster svm = ''netapp/'' @ ontapCluster @ ''/svm/'' @ svm"

definition ExternalID :: "string \<Rightarrow> string" where
  "ExternalID v = ''external/'' @ v"

section \<open>Edges\<close>

datatype EdgeType =
    EdgeTypePodMountsPVC
  | EdgeTypePodCallsPod
  | EdgeTypePodCallsService
  | EdgeTypeServiceSelectsPod
  | EdgeTypePodToNode
  | EdgeTypePVCToNetAppAggr
  | EdgeTypeStorageFlow

primrec EdgeTypeStr :: "EdgeType \<Rightarrow> string" where
  "EdgeTypeStr EdgeTypePodMountsPVC = ''pod-mounts-pvc''"
| "EdgeTypeStr EdgeTypePodCallsPod = ''pod-calls-pod''"
| "EdgeTypeStr EdgeTypePodCallsService = ''pod-calls-service''"
| "EdgeTypeStr EdgeTypeServiceSelectsPod = ''service-selects-pod''"
| "EdgeTypeStr EdgeTypePodToNode = ''pod-to-node''"
| "EdgeTypeStr EdgeTypePVCToNetAppAggr = ''pvc-to-netapp-aggr''"
| "EdgeTypeStr EdgeTypeStorageFlow = ''storage-flow''"

abbreviation StorageTierNodeAggr :: string where "StorageTierNodeAggr \<equiv> ''node-aggr''"
abbreviation StorageTierAggrSVM :: string where "StorageTierAggrSVM \<equiv> ''aggr-svm''"
abbreviation StorageTierSVMPVC :: string where "StorageTierSVMPVC \<equiv> ''svm-pvc''"
abbreviation StorageTierPVCPod :: string where "StorageTierPVCPod \<equiv> ''pvc-pod''"
abbreviation StorageTierPodNode :: string where "StorageTierPodNode \<equiv> ''pod-node''"

definition StorageTiers :: "string list" where
  "StorageTiers = [StorageTierNodeAggr, StorageTierAggrSVM, StorageTierSVMPVC,
     StorageTierPVCPod, StorageTierPodNode]"

abbreviation AttributionSplit :: string where "AttributionSplit \<equiv> ''split''"
abbreviation ClaimAggrLabel :: string where "ClaimAggrLabel \<equiv> ''claim_aggr''"

record 'f EdgeMetrics =
  em_Rate :: 'f
  em_ErrorRate :: "'f option"
  em_P90ServerMs :: "'f option"

record 'f IOMetrics =
  ReadOps :: "'f option"
  WriteOps :: "'f option"
  ReadLatencyUs :: "'f option"
  WriteLatencyUs :: "'f option"
  ReadBytesPerSec :: "'f option"
  WriteBytesPerSec :: "'f option"
  MaxIOPS :: "'f option"
  MaxBytesPerSec :: "'f option"
  ReadOpsDelta :: "'f option"
  WriteOpsDelta :: "'f option"
  ReadLatencyUsDelta :: "'f option"
  WriteLatencyUsDelta :: "'f option"
  ReadBytesPerSecDelta :: "'f option"
  WriteBytesPerSecDelta :: "'f option"

record 'f Edge =
  EdgeID :: string
  EType :: EdgeType
  Source :: string
  Target :: string
  ELabels :: labels
  EMetrics :: "'f EdgeMetrics option"
  EIO :: "'f IOMetrics option"

definition NewEdge ::
  "(string \<Rightarrow> string) \<Rightarrow> EdgeType \<Rightarrow> string \<Rightarrow> string \<Rightarrow> labels \<Rightarrow> 'f Edge" where
  "NewEdge mkid t source target ls =
     \<lparr> EdgeID = mkid (EdgeTypeStr t @ ''|'' @ source @ ''|'' @ target),
       EType = t, Source = source, Target = target, ELabels = ls,
       EMetrics = None, EIO = None \<rparr>"

text \<open>The receiver of both methods may be nil; the model of a nilable pointer is an option.\<close>

definition WithMetrics :: "'f Edge option \<Rightarrow> 'f EdgeMetrics \<Rightarrow> 'f Edge option" where
  "WithMetrics e m = map_option (\<lambda>cp. cp\<lparr>EMetrics := Some m\<rparr>) e"

definition WithIO :: "'f Edge option \<Rightarrow> 'f IOMetrics \<Rightarrow> 'f Edge option" where
  "WithIO e m = map_option (\<lambda>cp. cp\<lparr>EIO := Some m\<rparr>) e"

definition SortEdges :: "'f Edge list \<Rightarrow> 'f Edge list" where
  "SortEdges edges = sort_key EdgeID edges"

text \<open>The registry: endpoints, direction and cross-cluster capability of each edge type.\<close>

record EdgeTypeDefinition =
  def_Type :: EdgeType
  def_SourceType :: "NodeType list"
  def_TargetType :: "NodeType list"
  def_Directed :: bool
  def_MayCrossCluster :: bool
  def_Labels :: "string list"

definition EdgeTypes :: "EdgeTypeDefinition list" where
  "EdgeTypes = [
     \<lparr> def_Type = EdgeTypePodMountsPVC, def_SourceType = [NodeTypePod],
       def_TargetType = [NodeTypePVC], def_Directed = True, def_MayCrossCluster = False,
       def_Labels = [''claim_name''] \<rparr>,
     \<lparr> def_Type = EdgeTypePodCallsPod,
       def_SourceType = [NodeTypePod, NodeTypeService, NodeTypeExternal],
       def_TargetType = [NodeTypePod, NodeTypeExternal], def_Directed = True,
       def_MayCrossCluster = True, def_Labels = [''cluster'', ''relation''] \<rparr>,
     \<lparr> def_Type = EdgeTypePodCallsService,
       def_SourceType = [NodeTypePod, NodeTypeService, NodeTypeExternal],
       def_TargetType = [NodeTypeService], def_Directed = True,
       def_MayCrossCluster = True, def_Labels = [''cluster'', ''relation''] \<rparr>,
     \<lparr> def_Type = EdgeTypeServiceSelectsPod, def_SourceType = [NodeTypeService],
       def_TargetType = [NodeTypePod], def_Directed = True,
       def_MayCrossCluster = True, def_Labels = [''namespace''] \<rparr>,
     \<lparr> def_Type = EdgeTypePodToNode, def_SourceType = [NodeTypePod],
       def_TargetType = [NodeTypeK8sNode], def_Directed = True,
       def_MayCrossCluster = False, def_Labels = [] \<rparr>,
     \<lparr> def_Type = EdgeTypePVCToNetAppAggr, def_SourceType = [NodeTypePVC],
       def_TargetType = [NodeTypeNetAppAggr], def_Directed = True,
       def_MayCrossCluster = False, def_Labels = [] \<rparr>,
     \<lparr> def_Type = EdgeTypeStorageFlow,
       def_SourceType = [NodeTypeNetAppNode, NodeTypeNetAppAggr, NodeTypeNetAppSVM,
         NodeTypePVC, NodeTypePod],
       def_TargetType = [NodeTypeNetAppAggr, NodeTypeNetAppSVM, NodeTypePVC, NodeTypePod,
         NodeTypeK8sNode],
       def_Directed = True, def_MayCrossCluster = False,
       def_Labels = [''tier'', ''attribution''] \<rparr> ]"

section \<open>The graph\<close>

record ClusterIdentity =
  ci_AZ :: string
  ci_Env :: string
  ci_Name :: string

record NamespaceMeta =
  nm_Owner :: string
  nm_Group :: string
  nm_GroupOwner :: string
  nm_Alias :: string

record ApplicationMeta =
  am_DeployedBy :: string
  am_DeployedAt :: int

datatype NamespaceRef = NamespaceRef (nr_Cluster: string) (nr_Namespace: string)

datatype ApplicationRef =
  ApplicationRef (ar_Cluster: string) (ar_Namespace: string) (ar_Application: string)

record 'f Graph =
  BuiltAt :: int
  NodesByID :: "(string, 'f GraphNode) gomap"
  Edges :: "'f Edge list"
  ClusterIdentities :: "(string, ClusterIdentity) gomap"
  NamespaceMetadata :: "(NamespaceRef, NamespaceMeta) gomap"
  ApplicationMetadata :: "(ApplicationRef, ApplicationMeta) gomap"

text \<open>The receiver may be nil (\<open>None\<close>).\<close>

definition ClusterRawName :: "'f Graph option \<Rightarrow> string \<Rightarrow> string" where
  "ClusterRawName g i =
     (case g of None \<Rightarrow> i
      | Some gr \<Rightarrow> (case gm_get (ClusterIdentities gr) i of Some ci \<Rightarrow> ci_Name ci | None \<Rightarrow> i))"

definition NewGraph :: "'f GraphNode list \<Rightarrow> 'f Edge list \<Rightarrow> int \<Rightarrow> 'f Graph" where
  "NewGraph nodes edges builtAt =
     \<lparr> BuiltAt = builtAt,
       NodesByID = fold (\<lambda>n m. if gm_get m (ID n) = None then gm_put (ID n) n m else m) nodes [],
       Edges = edges, ClusterIdentities = [], NamespaceMetadata = [],
       ApplicationMetadata = [] \<rparr>"

definition ClusterNames :: "'f Graph \<Rightarrow> string list" where
  "ClusterNames g =
     (let seen = fold (\<lambda>(i, n) s.
            if Type n = NodeTypeExternal then s
            else if label n ''cluster'' \<noteq> [] then List.insert (label n ''cluster'') s else s)
          (NodesByID g) []
      in sort seen)"

definition NodeCountByKind :: "'f Graph \<Rightarrow> (string \<times> string, int) gomap" where
  "NodeCountByKind g =
     fold (\<lambda>(i, n). gm_incr (label n ''cluster'', NodeTypeStr (Type n))) (NodesByID g) []"

definition neverCrossCluster :: "EdgeType set" where
  "neverCrossCluster = set (map def_Type (filter (\<lambda>d. \<not> def_MayCrossCluster d) EdgeTypes))"

definition isCrossCluster :: "'f Graph \<Rightarrow> 'f Edge \<Rightarrow> bool" where
  "isCrossCluster g e =
     (case (gm_get (NodesByID g) (Source e), gm_get (NodesByID g) (Target e)) of
        (Some src, Some tgt) \<Rightarrow>
          if Type src = NodeTypeExternal \<or> Type tgt = NodeTypeExternal then False
          else if label src ''cluster'' = [] \<or> label tgt ''cluster'' = [] then False
          else label src ''cluster'' \<noteq> label tgt ''cluster''
      | _ \<Rightarrow> False)"

definition crossBucket :: "'f Graph \<Rightarrow> 'f Edge \<Rightarrow> string" where
  "crossBucket g e =
     (if EType e \<notin> neverCrossCluster \<and> isCrossCluster g e then ''true'' else ''false'')"

definition EdgeCountByType :: "'f Graph \<Rightarrow> (string \<times> string, int) gomap" where
  "EdgeCountByType g =
     fold (\<lambda>e. gm_incr (EdgeTypeStr (EType e), crossBucket g e)) (Edges g) []"

text \<open>The invariant of every graph \<open>NewGraph\<close> makes: one entry per id, filed under its own id.\<close>

definition wf_graph :: "'f Graph \<Rightarrow> bool" where
  "wf_graph g = (gm_wf (NodesByID g) \<and> (\<forall>(i, n) \<in> set (NodesByID g). ID n = i))"


text \<open>Specification vocabulary: the rank of each signal in the verdict, and the canonical alert.\<close>

definition alertRank :: "Alert \<Rightarrow> nat" where
  "alertRank a =
     (let sev = ToLower (alert_Severity a) in
      if sev = ''critical'' then 2 else if sev = ''info'' \<or> sev = ''none'' then 0 else 1)"

definition healthRank :: "string \<Rightarrow> nat" where
  "healthRank h = (if h = HealthDegraded then 2 else 0)"

definition readyRank :: "string \<Rightarrow> nat" where
  "readyRank r =
     (if r = ReadyStatusNotReady then 2 else if r = ReadyStatusUnknown then 1 else 0)"

definition statusOfRank :: "nat \<Rightarrow> string" where
  "statusOfRank k =
     (if k = 0 then StatusNormal else if k = 1 then StatusWarning else StatusCritical)"

definition canonAlert :: "Alert list \<Rightarrow> string \<times> string \<Rightarrow> Alert" where
  "canonAlert xs k =
     \<lparr> alert_Name = fst k,
       alert_State = alert_State (the (find (\<lambda>a. alertKey a = k) xs)),
       alert_Severity = snd k,
       alert_Time = Max (alert_Time ` {a \<in> set xs. alertKey a = k}) \<rparr>"

definition gm_count :: "('k, int) gomap \<Rightarrow> 'k \<Rightarrow> int" where
  "gm_count m k = (case map_of m k of None \<Rightarrow> 0 | Some n \<Rightarrow> n)"

section \<open>Method tables\<close>

lemmas method_defs =
  PodNode_methods_def K8sNode_methods_def PVCNode_methods_def ServiceNode_methods_def
  ExternalNode_methods_def NetAppAggrNode_methods_def NetAppNode_methods_def
  NetAppSVMNode_methods_def

lemma mID_methods [simp]:
  "mID (PodNode_methods p) = pod_IDValue p"
  "mID (K8sNode_methods k) = k8s_IDValue k"
  "mID (PVCNode_methods c) = pvc_IDValue c"
  "mID (ServiceNode_methods s) = svc_IDValue s"
  "mID (ExternalNode_methods e) = ext_IDValue e"
  "mID (NetAppAggrNode_methods a) = aggr_IDValue a"
  "mID (NetAppNode_methods t) = ctrl_IDValue t"
  "mID (NetAppSVMNode_methods v) = svm_IDValue v"
  by (simp_all add: method_defs)

lemma mType_methods [simp]:
  "mType (PodNode_methods p) = NodeTypePod"
  "mType (K8sNode_methods k) = NodeTypeK8sNode"
  "mType (PVCNode_methods c) = NodeTypePVC"
  "mType (ServiceNode_methods s) = NodeTypeService"
  "mType (ExternalNode_methods e) = NodeTypeExternal"
  "mType (NetAppAggrNode_methods a) = NodeTypeNetAppAggr"
  "mType (NetAppNode_methods t) = NodeTypeNetAppNode"
  "mType (NetAppSVMNode_methods v) = NodeTypeNetAppSVM"
  by (simp_all add: method_defs)

lemma mLabels_methods [simp]:
  "mLabels (PodNode_methods p) = pod_LabelsValue p"
  "mLabels (K8sNode_methods k) = k8s_LabelsValue k"
  "mLabels (PVCNode_methods c) = pvc_LabelsValue c"
  "mLabels (ServiceNode_methods s) = svc_LabelsValue s"
  "mLabels (ExternalNode_methods e) = ext_LabelsValue e"
  "mLabels (NetAppAggrNode_methods a) = aggr_LabelsValue a"
  "mLabels (NetAppNode_methods t) = ctrl_LabelsValue t"
  "mLabels (NetAppSVMNode_methods v) = svm_LabelsValue v"
  by (simp_all add: method_defs)

section \<open>Sorting of nodes and edges\<close>

interpretation node_sort: keyed_sort "\<lambda>n. ID n" SortNodes
  unfolding SortNodes_def by unfold_locales auto

interpretation edge_sort: keyed_sort EdgeID SortEdges
  unfolding SortEdges_def by unfold_locales auto

lemmas [simp, sort_facts] = node_sort.srt_set edge_sort.srt_set

section \<open>Building the graph\<close>

lemma wf_graphD:
  assumes "wf_graph g"
  shows "gm_wf (NodesByID g)" and "(i, n) \<in> set (NodesByID g) \<Longrightarrow> ID n = i"
    and "gm_get (NodesByID g) i = Some n \<Longrightarrow> ID n = i"
  using assms by (auto simp: wf_graph_def dest!: gm_get_in)

lemma NewGraph_nodes:
  "NodesByID (NewGraph nodes edges t) = gm.keep_first (\<lambda>n. ID n) (\<lambda>n. n) nodes []"
  by (simp add: NewGraph_def gm.keep_first_def)

lemma NewGraph_get: "gm_get (NodesByID (NewGraph nodes edges t)) i = find (\<lambda>n. ID n = i) nodes"
  by (simp add: NewGraph_nodes gm.get_keep_first option.map_ident)

lemma NewGraph_wf: "wf_graph (NewGraph nodes edges t)"
proof -
  have "gm_wf (NodesByID (NewGraph nodes edges t))"
    by (simp add: NewGraph_nodes gm.inv_keep_first)
  moreover have "ID n = i" if "(i, n) \<in> set (NodesByID (NewGraph nodes edges t))" for i n
    using gm_in_get [OF calculation that] by (auto simp: NewGraph_get find_Some_iff)
  ultimately show ?thesis by (auto simp: wf_graph_def)
qed

section \<open>Alerts\<close>

lemma find_filter: "find P xs = (case filter P xs of [] \<Rightarrow> None | x # _ \<Rightarrow> Some x)"
  by (induction xs) auto

lemma find_key:
  "k \<in> f ` set xs \<Longrightarrow> \<exists>a. find (\<lambda>a. f a = k) xs = Some a \<and> a \<in> set xs \<and> f a = k"
  by (induction xs) auto

lemma Max_insert_max:
  fixes a b :: "'a::linorder"
  assumes "finite T"
  shows "Max (insert a (insert b T)) = Max (insert (if a < b then b else a) T)"
  using assms by (cases "T = {}") (auto simp: max_def)

lemma mergeAlerts_Cons2:
  "mergeAlerts (pre @ [a]) as = pre @ mergeAlerts [a] as"
proof (induction as arbitrary: pre a)
  case (Cons b bs)
  show ?case
    using Cons [of pre] Cons [of "[]"] Cons [of "pre @ [a]" b] Cons [of "[a]" b] by simp
qed simp

lemma canonAlert_skip: "alertKey a \<noteq> k \<Longrightarrow> canonAlert (a # as) k = canonAlert as k"
proof -
  assume "alertKey a \<noteq> k"
  then have "{x \<in> set (a # as). alertKey x = k} = {x \<in> set as. alertKey x = k}" by auto
  with \<open>alertKey a \<noteq> k\<close> show ?thesis by (simp add: canonAlert_def)
qed

lemma canonAlert_single:
  assumes "alertKey a \<notin> alertKey ` set as"
  shows "canonAlert (a # as) (alertKey a) = a"
proof -
  have "{x \<in> set (a # as). alertKey x = alertKey a} = {a}"
    unfolding list.set using assms by (blast intro: image_eqI [OF sym])
  then show ?thesis by (simp add: canonAlert_def) (simp add: alertKey_def)
qed

lemma canonAlert_merge:
  assumes "alertKey a = alertKey b"
  shows "canonAlert (a # b # as) k
    = canonAlert ((if alert_Time b > alert_Time a then a\<lparr>alert_Time := alert_Time b\<rparr> else a) # as) k"
    (is "_ = canonAlert (?a # as) k")
proof (cases "alertKey a = k")
  case False
  then show ?thesis using assms by (simp add: canonAlert_skip alertKey_def)
next
  case True
  let ?T = "alert_Time ` {x \<in> set as. alertKey x = k}"
  have ka: "alertKey ?a = k" using True by (simp add: alertKey_def)
  have kb: "alertKey b = k" using True assms by simp
  have "alert_Time ` {x \<in> set (a # b # as). alertKey x = k}
        = insert (alert_Time a) (insert (alert_Time b) ?T)"
    unfolding list.set using True kb by blast
  moreover have "alert_Time ` {x \<in> set (?a # as). alertKey x = k} = insert (alert_Time ?a) ?T"
    unfolding list.set using ka by blast
  moreover have "Max (insert (alert_Time a) (insert (alert_Time b) ?T))
        = Max (insert (alert_Time ?a) ?T)"
    by (subst Max_insert_max) simp_all
  ultimately show ?thesis using True ka by (simp add: canonAlert_def)
qed

lemma mergeAlerts_canon:
  "sorted (map alertKey (a # as)) \<Longrightarrow>
   mergeAlerts [a] as = map (canonAlert (a # as)) (Compact (map alertKey (a # as)))"
proof (induction as arbitrary: a)
  case Nil
  then show ?case by (simp add: canonAlert_single)
next
  case (Cons b bs)
  show ?case
  proof (cases "alertKey a = alertKey b")
    case True
    let ?a = "if alert_Time b > alert_Time a then a\<lparr>alert_Time := alert_Time b\<rparr> else a"
    have key: "alertKey ?a = alertKey b" using True by (simp add: alertKey_def)
    have "mergeAlerts [a] (b # bs) = mergeAlerts [?a] bs"
      using True by (simp add: alertKey_def)
    also have "\<dots> = map (canonAlert (?a # bs)) (Compact (map alertKey (?a # bs)))"
      using Cons.prems key by (intro Cons.IH) simp
    finally show ?thesis
      using True key canonAlert_merge [OF True, of bs] by simp
  next
    case False
    then have notin: "alertKey a \<notin> alertKey ` set (b # bs)"
      using Cons.prems by (auto simp: antisym)
    have "mergeAlerts [a] (b # bs) = a # mergeAlerts [b] bs"
      using False mergeAlerts_Cons2 [of "[a]" b bs] by (auto simp: alertKey_def)
    also have "mergeAlerts [b] bs = map (canonAlert (b # bs)) (Compact (map alertKey (b # bs)))"
      using Cons.prems by (intro Cons.IH) simp
    also have "\<dots> = map (canonAlert (a # b # bs)) (Compact (map alertKey (b # bs)))"
      using notin by (intro map_cong refl canonAlert_skip [symmetric]) auto
    finally show ?thesis using False canonAlert_single [OF notin] by simp
  qed
qed

lemma canonAlert_sort: "canonAlert (sort_key alertKey xs) k = canonAlert xs k"
  by (simp add: canonAlert_def find_filter sort_key_stable)

lemma SortAlerts_eq:
  "SortAlerts xs = map (canonAlert xs) (sorted_list_of_set (alertKey ` set xs))"
proof (cases "sort_key alertKey xs")
  case Nil
  then show ?thesis by (metis SortAlerts_def set_sort set_empty image_empty
        sorted_list_of_set_empty list.simps(8))
next
  case (Cons a as)
  have "sorted (map alertKey (a # as))" using Cons by (metis sorted_sort_key)
  then have "SortAlerts xs
      = map (canonAlert (sort_key alertKey xs)) (Compact (map alertKey (sort_key alertKey xs)))"
    using Cons by (auto simp: SortAlerts_def mergeAlerts_canon)
  also have "map alertKey (sort_key alertKey xs) = sort (map alertKey xs)"
    by (rule properties_for_sort [symmetric]) simp_all
  finally show ?thesis by (simp add: Compact_sort_set canonAlert_sort)
qed

section \<open>Status\<close>

lemma FoldStatus_loop_eq:
  "FoldStatus_loop as st =
     (if \<exists>a\<in>set as. alertRank a = 2 then Inl StatusCritical
      else if \<exists>a\<in>set as. alertRank a = 1 then Inr StatusWarning else Inr st)"
  by (induction as arbitrary: st) (auto simp: alertRank_def Let_def)

lemma alertRank_le: "alertRank a \<le> 2"
  by (simp add: alertRank_def Let_def)

section \<open>Counters\<close>

lemma gm_count_incr: "gm_count (gm_incr k m) j = gm_count m j + (if j = k then 1 else 0)"
  by (simp add: gm_count_def gm_incr_def gm_put_def update_conv')

lemma gm_count_fold:
  "gm_count (fold (\<lambda>x. gm_incr (f x)) xs m) j
     = gm_count m j + int (length (filter (\<lambda>x. f x = j) xs))"
  by (induction xs arbitrary: m) (auto simp: gm_count_incr)

lemma gm_put_snd_sum:
  "gm_wf m \<Longrightarrow> sum_list (map snd (gm_put k v m)) = sum_list (map snd m) - gm_count m k + (v :: int)"
  unfolding gm_put_def gm_wf_def gm_count_def
  by (induction m) (auto simp: map_of_eq_None_iff[symmetric] split: option.splits)

lemma gm_wf_incr: "gm_wf m \<Longrightarrow> gm_wf (gm_incr k m)"
  by (simp add: gm_incr_def)

lemma gm_incr_sum: "gm_wf m \<Longrightarrow> sum_list (map snd (gm_incr k m)) = sum_list (map snd m) + 1"
  by (simp add: gm_incr_def gm_put_snd_sum) (simp add: gm_count_def)

lemma gm_incr_fold_sum:
  "gm_wf m \<Longrightarrow>
   sum_list (map snd (fold (\<lambda>x. gm_incr (f x)) xs m)) = sum_list (map snd m) + int (length xs)"
  by (induction xs arbitrary: m) (auto simp: gm_incr_sum gm_wf_incr)

section \<open>Identifiers\<close>

lemma split_at_sep:
  fixes a a' :: string
  assumes "a @ sep # b = a' @ sep # b'" and "sep \<notin> set a" and "sep \<notin> set a'"
  shows "a = a' \<and> b = b'"
proof -
  have "(a, b, True) = Cut (a' @ sep # b') sep"
    unfolding assms(1) [symmetric] by (rule Cut_split [OF assms(2), symmetric])
  also have "\<dots> = (a', b', True)" by (rule Cut_split [OF assms(3)])
  finally show ?thesis by simp
qed

lemma EdgeTypeStr_inj: "EdgeTypeStr t = EdgeTypeStr t' \<Longrightarrow> t = t'"
  by (cases t; cases t'; simp)

lemma EdgeTypeStr_no_bar: "CHR ''|'' \<notin> set (EdgeTypeStr t)"
  by (cases t) simp_all


section \<open>Properties\<close>

text \<open>
  \<open>NewGraph\<close> establishes the graph invariant (one entry per id, each filed under its own id)
  and the node it keeps for an id is the first node of the input slice that carries it.
\<close>

theorem NewGraph_first_wins:
  "wf_graph (NewGraph nodes edges t)
   \<and> gm_get (NodesByID (NewGraph nodes edges t)) i = find (\<lambda>n. ID n = i) nodes
   \<and> Edges (NewGraph nodes edges t) = edges"
  by (simp add: NewGraph_wf NewGraph_get) (simp add: NewGraph_def)

text \<open>
  \<open>SortAlerts\<close> returns one alert per (name, severity) pair of the input, in ascending order of
  that pair, each with the greatest time of its group and the state of the group's first alert.
\<close>

theorem SortAlerts_canonical:
  "SortAlerts xs =
     map (\<lambda>k. \<lparr> alert_Name = fst k,
               alert_State = alert_State (the (find (\<lambda>a. alertKey a = k) xs)),
               alert_Severity = snd k,
               alert_Time = Max (alert_Time ` {a \<in> set xs. alertKey a = k}) \<rparr>)
         (sorted_list_of_set (alertKey ` set xs))"
  by (simp add: SortAlerts_eq canonAlert_def [abs_def])

text \<open>
  The normalised alerts do not depend on the order in which the alert series arrived, as long as
  alerts that agree on name and severity agree on their state (every alert that reaches the graph is
  firing).
\<close>

theorem SortAlerts_order_free:
  assumes "set xs = set ys"
    and "\<And>a b. a \<in> set xs \<Longrightarrow> b \<in> set xs \<Longrightarrow> alertKey a = alertKey b \<Longrightarrow> alert_State a = alert_State b"
  shows "SortAlerts xs = SortAlerts ys"
proof -
  have st: "alert_State (the (find (\<lambda>a. alertKey a = k) xs))
            = alert_State (the (find (\<lambda>a. alertKey a = k) ys))"
    if key: "k \<in> alertKey ` set xs" for k
  proof -
    obtain a where a: "find (\<lambda>a. alertKey a = k) xs = Some a" "a \<in> set xs" "alertKey a = k"
      using find_key [OF key] by blast
    obtain b where b: "find (\<lambda>a. alertKey a = k) ys = Some b" "b \<in> set ys" "alertKey b = k"
      using find_key [of k alertKey ys] key assms(1) by auto
    show ?thesis using a b assms(2) [of a b] by (simp add: assms(1))
  qed
  show ?thesis
    unfolding SortAlerts_eq assms(1) [symmetric]
  proof (rule map_cong [OF refl])
    fix k assume "k \<in> set (sorted_list_of_set (alertKey ` set xs))"
    then have "k \<in> alertKey ` set xs" by simp
    from st [OF this] show "canonAlert xs k = canonAlert ys k"
      by (simp add: canonAlert_def assms(1))
  qed
qed

theorem SortAlerts_order_free_witness:
  "SortAlerts [\<lparr>alert_Name = ''b'', alert_State = ''firing'', alert_Severity = ''info'', alert_Time = 3\<rparr>,
               \<lparr>alert_Name = ''a'', alert_State = ''firing'', alert_Severity = ''info'', alert_Time = 5\<rparr>]
   = SortAlerts [\<lparr>alert_Name = ''a'', alert_State = ''firing'', alert_Severity = ''info'', alert_Time = 5\<rparr>,
               \<lparr>alert_Name = ''b'', alert_State = ''firing'', alert_Severity = ''info'', alert_Time = 3\<rparr>]"
  by (rule SortAlerts_order_free) auto

text \<open>
  The status verdict is the worst of the node's signals: critical when some alert is critical or
  the hardware is degraded or the node is not ready, warning when some alert has any severity other
  than critical, info and none or the node's readiness is unknown, normal otherwise.
\<close>

theorem FoldStatus_worst_wins:
  "FoldStatus alerts health ready =
     statusOfRank (Max (insert (healthRank health) (insert (readyRank ready) (alertRank ` set alerts))))"
proof -
  let ?S = "insert (healthRank health) (insert (readyRank ready) (alertRank ` set alerts))"
  have fin: "finite ?S" by simp
  have ub: "\<forall>k\<in>?S. k \<le> 2" by (auto simp: alertRank_le healthRank_def readyRank_def)
  have mem: "Max ?S \<in> ?S" using fin by (intro Max_in) auto
  have ge: "k \<in> ?S \<Longrightarrow> k \<le> Max ?S" for k using fin by (rule Max_ge)
  have two: "Max ?S = 2 \<longleftrightarrow> 2 \<in> ?S" using ub mem ge by (metis order_antisym)
  have zero: "Max ?S = 0 \<longleftrightarrow> (\<forall>k\<in>?S. k = 0)" using mem ge by force
  have bounds: "alertRank a = 0 \<or> alertRank a = 1 \<or> alertRank a = 2" for a
    by (simp add: alertRank_def Let_def)
  consider "Max ?S = 0" | "Max ?S = 1" | "Max ?S = 2" using ub mem by force
  then show ?thesis
  proof cases
    case 1
    with zero show ?thesis
      by (auto simp: FoldStatus_def FoldStatus_loop_eq statusOfRank_def healthRank_def readyRank_def
          split: if_splits)
  next
    case 2
    with two zero mem have "2 \<notin> ?S" "1 \<in> ?S" by auto
    with 2 show ?thesis
      by (auto simp: FoldStatus_def FoldStatus_loop_eq statusOfRank_def healthRank_def readyRank_def
          image_iff split: if_splits)
  next
    case 3
    with two have "2 \<in> ?S" by simp
    with 3 show ?thesis
      by (auto simp: FoldStatus_def FoldStatus_loop_eq statusOfRank_def healthRank_def readyRank_def
          image_iff split: if_splits)
  qed
qed

text \<open>
  \<open>attachStatus\<close> leaves every node's identity alone and gives pods, Kubernetes nodes, claims,
  controllers and aggregates the verdict folded from their own signals; services, externals and
  SVMs keep an empty status.
\<close>

theorem attachStatus_verdicts:
  "map (\<lambda>n. ID n) (attachStatus nodes) = map (\<lambda>n. ID n) nodes
   \<and> map (\<lambda>n. Status n) (attachStatus nodes)
       = map (\<lambda>n. if Type n \<in> {NodeTypeService, NodeTypeExternal, NodeTypeNetAppSVM} then []
                  else FoldStatus (Alerts n) (Health n) (ReadyStatus n)) nodes
   \<and> attachStatus (attachStatus nodes) = attachStatus nodes"
proof -
  have i: "ID (setStatus s n) = ID n" for s and n :: "'a GraphNode"
    by (cases n) simp_all
  have m: "Status (setStatus s n)
      = (if Type n \<in> {NodeTypeService, NodeTypeExternal, NodeTypeNetAppSVM} then [] else s)"
    for s and n :: "'a GraphNode"
    by (cases n) (simp_all add: method_defs)
  have f: "Alerts (setStatus s n) = Alerts n" "Health (setStatus s n) = Health n"
    "ReadyStatus (setStatus s n) = ReadyStatus n" "setStatus s (setStatus s n) = setStatus s n"
    for s and n :: "'a GraphNode"
    by (cases n; simp add: method_defs)+
  show ?thesis by (simp add: attachStatus_def i m f)
qed

text \<open>
  \<open>EdgeCountByType\<close> counts every edge exactly once, under its own type and bucket, and an edge
  reaches the bucket \<open>true\<close> only if the registry lets its type cross clusters and its two endpoints
  are known nodes with different, non-empty cluster labels.
\<close>

theorem EdgeCountByType_partition:
  "gm_count (EdgeCountByType g) (t, b)
     = int (length (filter (\<lambda>e. EdgeTypeStr (EType e) = t \<and> crossBucket g e = b) (Edges g)))
   \<and> sum_list (map snd (EdgeCountByType g)) = int (length (Edges g))
   \<and> (crossBucket g e = ''true'') =
       (EType e \<in> {EdgeTypePodCallsPod, EdgeTypePodCallsService, EdgeTypeServiceSelectsPod}
        \<and> (\<exists>src tgt. gm_get (NodesByID g) (Source e) = Some src
             \<and> gm_get (NodesByID g) (Target e) = Some tgt
             \<and> Type src \<noteq> NodeTypeExternal \<and> Type tgt \<noteq> NodeTypeExternal
             \<and> label src ''cluster'' \<noteq> [] \<and> label tgt ''cluster'' \<noteq> []
             \<and> label src ''cluster'' \<noteq> label tgt ''cluster''))"
proof (intro conjI)
  show "gm_count (EdgeCountByType g) (t, b)
     = int (length (filter (\<lambda>e. EdgeTypeStr (EType e) = t \<and> crossBucket g e = b) (Edges g)))"
    by (simp add: EdgeCountByType_def gm_count_fold) (simp add: gm_count_def)
  show "sum_list (map snd (EdgeCountByType g)) = int (length (Edges g))"
    by (simp add: EdgeCountByType_def gm_incr_fold_sum)
  have "(EType e \<notin> neverCrossCluster) =
      (EType e \<in> {EdgeTypePodCallsPod, EdgeTypePodCallsService, EdgeTypeServiceSelectsPod})"
    by (cases "EType e") (simp_all add: neverCrossCluster_def EdgeTypes_def)
  then show "(crossBucket g e = ''true'') =
       (EType e \<in> {EdgeTypePodCallsPod, EdgeTypePodCallsService, EdgeTypeServiceSelectsPod}
        \<and> (\<exists>src tgt. gm_get (NodesByID g) (Source e) = Some src
             \<and> gm_get (NodesByID g) (Target e) = Some tgt
             \<and> Type src \<noteq> NodeTypeExternal \<and> Type tgt \<noteq> NodeTypeExternal
             \<and> label src ''cluster'' \<noteq> [] \<and> label tgt ''cluster'' \<noteq> []
             \<and> label src ''cluster'' \<noteq> label tgt ''cluster''))"
    by (auto simp: crossBucket_def isCrossCluster_def split: option.splits)
qed

text \<open>
  The ids of ONTAP aggregates, controllers and SVMs never coincide across kinds and determine
  their components, for names without a slash (which ONTAP does not allow in them).
\<close>

theorem netapp_ids_distinct:
  assumes "CHR ''/'' \<notin> set oc" "CHR ''/'' \<notin> set oc'" "CHR ''/'' \<notin> set a" "CHR ''/'' \<notin> set b"
  shows "NetAppAggrID oc a \<noteq> NetAppSVMID oc' b
    \<and> NetAppAggrID oc a \<noteq> NetAppNodeID oc' b
    \<and> NetAppSVMID oc a \<noteq> NetAppNodeID oc' b
    \<and> (NetAppAggrID oc a = NetAppAggrID oc' b \<longleftrightarrow> oc = oc' \<and> a = b)
    \<and> (NetAppNodeID oc a = NetAppNodeID oc' b \<longleftrightarrow> oc = oc' \<and> a = b)
    \<and> (NetAppSVMID oc a = NetAppSVMID oc' b \<longleftrightarrow> oc = oc' \<and> a = b)"
proof (intro conjI)
  have cut: "oc @ CHR ''/'' # x = oc' @ CHR ''/'' # y \<longleftrightarrow> oc = oc' \<and> x = y" for x y
    using split_at_sep [OF _ assms(1,2)] by blast
  show "NetAppAggrID oc a \<noteq> NetAppSVMID oc' b" by (simp add: NetAppAggrID_def NetAppSVMID_def cut)
  show "NetAppAggrID oc a \<noteq> NetAppNodeID oc' b"
    using assms(4) by (auto simp: NetAppAggrID_def NetAppNodeID_def cut)
  show "NetAppSVMID oc a \<noteq> NetAppNodeID oc' b"
    using assms(4) by (auto simp: NetAppSVMID_def NetAppNodeID_def cut)
  show "NetAppAggrID oc a = NetAppAggrID oc' b \<longleftrightarrow> oc = oc' \<and> a = b" by (simp add: NetAppAggrID_def cut)
  show "NetAppNodeID oc a = NetAppNodeID oc' b \<longleftrightarrow> oc = oc' \<and> a = b" by (simp add: NetAppNodeID_def cut)
  show "NetAppSVMID oc a = NetAppSVMID oc' b \<longleftrightarrow> oc = oc' \<and> a = b" by (simp add: NetAppSVMID_def cut)
qed

theorem netapp_ids_distinct_witness:
  "NetAppAggrID ''fas1'' ''aggr1'' \<noteq> NetAppSVMID ''fas1'' ''svm1''
   \<and> NetAppSVMID ''fas1'' ''svm1'' \<noteq> NetAppNodeID ''fas1'' ''fas1-01''"
  using netapp_ids_distinct [of "''fas1''" "''fas1''" "''aggr1''" "''svm1''"]
    netapp_ids_distinct [of "''fas1''" "''fas1''" "''svm1''" "''fas1-01''"]
  by simp

text \<open>
  An edge id identifies the edge: with an injective id derivation, two edges whose source ids
  contain no vertical bar have equal ids exactly when type, source and target agree; labels,
  metrics and I/O never enter the id.
\<close>

theorem NewEdge_identity:
  assumes "inj mkid" and "CHR ''|'' \<notin> set s" and "CHR ''|'' \<notin> set s'"
  shows "(EdgeID (NewEdge mkid t s d ls :: 'f Edge) = EdgeID (NewEdge mkid t' s' d' ls' :: 'f Edge)
           \<longleftrightarrow> t = t' \<and> s = s' \<and> d = d')
    \<and> map_option EdgeID (WithIO (Some (NewEdge mkid t s d ls :: 'f Edge)) io)
           = Some (EdgeID (NewEdge mkid t s d ls :: 'f Edge))
    \<and> map_option EdgeID (WithMetrics (Some (NewEdge mkid t s d ls :: 'f Edge)) em)
           = Some (EdgeID (NewEdge mkid t s d ls :: 'f Edge))"
proof (intro conjI)
  have "EdgeTypeStr t @ CHR ''|'' # s @ CHR ''|'' # d = EdgeTypeStr t' @ CHR ''|'' # s' @ CHR ''|'' # d'
          \<longleftrightarrow> t = t' \<and> s = s' \<and> d = d'"
    using split_at_sep [OF _ EdgeTypeStr_no_bar EdgeTypeStr_no_bar] EdgeTypeStr_inj
      split_at_sep [OF _ assms(2,3)] by blast
  then show "EdgeID (NewEdge mkid t s d ls :: 'f Edge) = EdgeID (NewEdge mkid t' s' d' ls' :: 'f Edge)
           \<longleftrightarrow> t = t' \<and> s = s' \<and> d = d'"
    by (simp add: NewEdge_def inj_eq [OF assms(1)])
qed (simp_all add: WithIO_def WithMetrics_def NewEdge_def)

theorem NewEdge_identity_witness:
  "EdgeID (NewEdge (\<lambda>k. k) EdgeTypePodToNode ''c/p'' ''c/n'' [] :: nat Edge)
     \<noteq> EdgeID (NewEdge (\<lambda>k. k) EdgeTypePodMountsPVC ''c/p'' ''c/n'' [] :: nat Edge)"
  using NewEdge_identity [of "\<lambda>k. k" "''c/p''" "''c/p''" EdgeTypePodToNode "''c/n''" "[]"
      EdgeTypePodMountsPVC "''c/n''" "[]"] by (auto simp: inj_def)

end
