(* ===== verification/Projection.thy ===== *)
theory Projection
  imports GraphModel
begin

text \<open>
  The default view of \<open>GET /v1/graph\<close>: \<open>pkg/graph/scope.go\<close> and \<open>pkg/graph/project.go\<close>.

  Sets the code only tests are HOL sets; maps it ranges over are entry lists (\<open>gomap\<close>). A nil
  graph is \<open>None\<close>. \<open>pullNetAppParents\<close> inserts into the map it ranges over; the model ranges over
  the entries present at the start, and \<open>pullNetAppParents_again\<close> shows that visiting the inserted
  controllers as well, which Go permits, changes nothing.

  The specification (\<open>primarySpec\<close>, \<open>keepEdge\<close>, \<open>viewSpec\<close>) says which nodes and edges a view
  holds without any loop, and \<open>Project_spec\<close> is the refinement: the loops compute exactly that.
  The properties (closedness, prune soundness, filters, determinism) follow from it.
\<close>

section \<open>Scope\<close>

record Scope =
  sc_Clusters :: "string list"
  sc_Namespaces :: "string list"
  sc_Inventory :: bool

definition stringSet :: "string list \<Rightarrow> string list" where
  "stringSet values =
     (if values = [] then []
      else fold (\<lambda>v out. if v \<noteq> [] then List.insert v out else out) values [])"

definition NewScope :: "string list \<Rightarrow> string list \<Rightarrow> bool \<Rightarrow> Scope" where
  "NewScope clusters namespaces inventory =
     \<lparr> sc_Clusters = stringSet clusters, sc_Namespaces = stringSet namespaces,
       sc_Inventory = inventory \<rparr>"

definition SortedKeys :: "string list \<Rightarrow> string list" where
  "SortedKeys m = sort m"

record 'f View =
  view_Nodes :: "'f GraphNode list"
  view_Edges :: "'f Edge list"

section \<open>Connectivity prune\<close>

fun connectivityStep ::
  "'f Edge \<Rightarrow> string set \<times> (string, string list) gomap \<Rightarrow> string set \<times> (string, string list) gomap"
where
  "connectivityStep e (connectedPods, pvcMounters) =
     (case EType e of
        EdgeTypePodCallsPod \<Rightarrow> (insert (Target e) (insert (Source e) connectedPods), pvcMounters)
      | EdgeTypePodCallsService \<Rightarrow> (insert (Target e) (insert (Source e) connectedPods), pvcMounters)
      | EdgeTypeServiceSelectsPod \<Rightarrow> (insert (Target e) (insert (Source e) connectedPods), pvcMounters)
      | EdgeTypePodMountsPVC \<Rightarrow> (connectedPods, gm_append (Target e) (Source e) pvcMounters)
      | EdgeTypePodToNode \<Rightarrow> (connectedPods, pvcMounters)
      | EdgeTypePVCToNetAppAggr \<Rightarrow> (connectedPods, pvcMounters)
      | EdgeTypeStorageFlow \<Rightarrow> (connectedPods, pvcMounters))"

definition connectivityExcluded :: "'f Graph \<Rightarrow> string set" where
  "connectivityExcluded g =
     (let (connectedPods, pvcMounters) = fold connectivityStep (Edges g) ({}, []) in
      fold (\<lambda>(i, n) excluded.
          if Type n = NodeTypePod then
            (if i \<notin> connectedPods then insert i excluded else excluded)
          else if Type n = NodeTypePVC then
            (if list_ex (\<lambda>podID. podID \<in> connectedPods) (gm_list pvcMounters i)
             then excluded else insert i excluded)
          else excluded)
        (NodesByID g) {})"

section \<open>Node filters\<close>

definition nodePassesFilters ::
  "'f GraphNode \<Rightarrow> Scope \<Rightarrow> (string \<Rightarrow> string) \<Rightarrow> bool" where
  "nodePassesFilters n scope rawName =
     (if sc_Clusters scope \<noteq> [] \<and> Type n = NodeTypeExternal then False
      else if sc_Clusters scope \<noteq> []
              \<and> \<not> (Type n = NodeTypeNetAppAggr \<or> Type n = NodeTypeNetAppNode)
              \<and> rawName (label n ''cluster'') \<notin> set (sc_Clusters scope) then False
      else if sc_Namespaces scope \<noteq> [] \<and> Type n \<noteq> NodeTypeExternal
              \<and> label n ''namespace'' \<notin> set (sc_Namespaces scope) then False
      else True)"

definition infraNodePassesFilters ::
  "'f GraphNode \<Rightarrow> Scope \<Rightarrow> string set \<Rightarrow> (string \<Rightarrow> string) \<Rightarrow> bool" where
  "infraNodePassesFilters n scope referenced rawName =
     (if sc_Clusters scope \<noteq> [] \<and> rawName (label n ''cluster'') \<notin> set (sc_Clusters scope) then False
      else if sc_Inventory scope \<and> sc_Namespaces scope = [] then True
      else ID n \<in> referenced)"

definition netappInfraPassesFilters ::
  "'f GraphNode \<Rightarrow> Scope \<Rightarrow> string set \<Rightarrow> bool" where
  "netappInfraPassesFilters n scope referenced =
     (if sc_Inventory scope \<and> sc_Clusters scope = [] \<and> sc_Namespaces scope = [] then True
      else ID n \<in> referenced)"

definition nodePassesNonClusterFilters :: "'f GraphNode \<Rightarrow> Scope \<Rightarrow> bool" where
  "nodePassesNonClusterFilters n scope =
     (if sc_Namespaces scope \<noteq> []
         \<and> Type n \<notin> {NodeTypeExternal, NodeTypeK8sNode, NodeTypeNetAppAggr, NodeTypeNetAppNode}
         \<and> label n ''namespace'' \<notin> set (sc_Namespaces scope) then False
      else True)"

text \<open>The owning controller's id of an aggregate, when both labels are present.\<close>

definition ownerID :: "'f GraphNode \<Rightarrow> string option" where
  "ownerID n =
     (if label n ''ontap_cluster'' \<noteq> [] \<and> label n ''node'' \<noteq> []
      then Some (NetAppNodeID (label n ''ontap_cluster'') (label n ''node'')) else None)"

text \<open>Admit, in order, the deferred nodes that pass: \<open>out[n.ID()] = n\<close>.\<close>

definition admitAll ::
  "('f GraphNode \<Rightarrow> bool) \<Rightarrow> 'f GraphNode list \<Rightarrow> (string, 'f GraphNode) gomap
     \<Rightarrow> (string, 'f GraphNode) gomap" where
  "admitAll passes ns out = fold (\<lambda>n m. if passes n then gm_put (ID n) n m else m) ns out"

definition filterNodes ::
  "'f Graph \<Rightarrow> Scope \<Rightarrow> string set \<Rightarrow> (string, 'f GraphNode) gomap" where
  "filterNodes g scope excluded =
     (let rawName = ClusterRawName (Some g);
          live = filter (\<lambda>(i, n). i \<notin> excluded) (NodesByID g);
          deferredK8s = map snd (filter (\<lambda>(i, n). Type n = NodeTypeK8sNode) live);
          deferredAggr = map snd (filter (\<lambda>(i, n). Type n = NodeTypeNetAppAggr) live);
          deferredNetAppNode = map snd (filter (\<lambda>(i, n). Type n = NodeTypeNetAppNode) live);
          out = filter (\<lambda>(i, n).
                   Type n \<notin> {NodeTypeK8sNode, NodeTypeNetAppAggr, NodeTypeNetAppNode}
                   \<and> nodePassesFilters n scope rawName) live;
          hostNodes = set (filter (\<lambda>hn. hn \<noteq> [])
                   (map (\<lambda>(i, n). label n ''node'') (filter (\<lambda>(i, n). Type n = NodeTypePod) out)));
          referencedAggr = set (map Target
                   (filter (\<lambda>e. EType e = EdgeTypePVCToNetAppAggr \<and> gm_has out (Source e)) (Edges g)));
          out = admitAll (\<lambda>n. infraNodePassesFilters n scope hostNodes rawName) deferredK8s out;
          out = admitAll (\<lambda>n. netappInfraPassesFilters n scope referencedAggr) deferredAggr out;
          referencedCtrl = set (List.map_filter (\<lambda>(i, n).
                   if Type n = NodeTypeNetAppAggr then ownerID n else None) out)
      in admitAll (\<lambda>n. netappInfraPassesFilters n scope referencedCtrl) deferredNetAppNode out)"

definition pullNetAppParents ::
  "'f Graph \<Rightarrow> (string, 'f GraphNode) gomap \<Rightarrow> (string, 'f GraphNode) gomap" where
  "pullNetAppParents g nodes =
     fold (\<lambda>(i, n) m.
         if Type n \<noteq> NodeTypeNetAppAggr then m
         else (case ownerID n of
                 None \<Rightarrow> m
               | Some pid \<Rightarrow>
                   if gm_has m pid then m
                   else (case gm_get (NodesByID g) pid of
                           None \<Rightarrow> m
                         | Some parent \<Rightarrow> gm_put pid parent m)))
       nodes nodes"

section \<open>Edge filter\<close>

text \<open>One endpoint of \<open>readdEdgePartners\<close>: the verdict and the node map it may have extended.\<close>

definition readdPartner ::
  "'f Graph \<Rightarrow> string \<Rightarrow> (string, 'f GraphNode) gomap \<Rightarrow> Scope \<Rightarrow> string set
     \<Rightarrow> ('f GraphNode \<Rightarrow> Scope \<Rightarrow> bool) \<Rightarrow> bool \<times> (string, 'f GraphNode) gomap" where
  "readdPartner g i nodes scope excluded pred =
     (if i \<in> excluded then (False, nodes)
      else (case gm_get (NodesByID g) i of
              None \<Rightarrow> (False, nodes)
            | Some partner \<Rightarrow>
                if \<not> pred partner scope then (False, nodes)
                else (True, gm_put i partner nodes)))"

definition readdEdgePartners ::
  "'f Graph \<Rightarrow> 'f Edge \<Rightarrow> (string, 'f GraphNode) gomap \<Rightarrow> bool \<Rightarrow> bool \<Rightarrow> Scope \<Rightarrow> string set
     \<Rightarrow> ('f GraphNode \<Rightarrow> Scope \<Rightarrow> bool) \<Rightarrow> bool \<times> (string, 'f GraphNode) gomap" where
  "readdEdgePartners g e nodes srcOK tgtOK scope excluded pred =
     (let (ok, nodes) = (if \<not> srcOK then readdPartner g (Source e) nodes scope excluded pred
                         else (True, nodes))
      in if \<not> ok then (False, nodes)
         else if \<not> tgtOK then readdPartner g (Target e) nodes scope excluded pred
         else (True, nodes))"

fun filterEdgesStep ::
  "'f Graph \<Rightarrow> Scope \<Rightarrow> string set \<Rightarrow> string set \<Rightarrow> 'f Edge
     \<Rightarrow> 'f Edge list \<times> (string, 'f GraphNode) gomap \<Rightarrow> 'f Edge list \<times> (string, 'f GraphNode) gomap"
where
  "filterEdgesStep g scope primary excluded e (out, nodes) =
     (let srcOK = (Source e \<in> primary); tgtOK = (Target e \<in> primary) in
      if srcOK \<and> tgtOK then (out @ [e], nodes)
      else if \<not> srcOK \<and> \<not> tgtOK then (out, nodes)
      else (let (ok, nodes') = readdEdgePartners g e nodes srcOK tgtOK scope excluded
                   nodePassesNonClusterFilters
            in if \<not> ok then (out, nodes') else (out @ [e], nodes')))"

definition filterEdges ::
  "'f Graph \<Rightarrow> Scope \<Rightarrow> (string, 'f GraphNode) gomap \<Rightarrow> string set
     \<Rightarrow> 'f Edge list \<times> (string, 'f GraphNode) gomap" where
  "filterEdges g scope nodes excluded =
     fold (filterEdgesStep g scope (fst ` set nodes) excluded) (Edges g) ([], nodes)"

definition Project :: "'f Graph option \<Rightarrow> Scope \<Rightarrow> 'f View" where
  "Project g scope =
     (case g of
        None \<Rightarrow> \<lparr> view_Nodes = [], view_Edges = [] \<rparr>
      | Some gr \<Rightarrow>
          let excluded = (if \<not> sc_Inventory scope then connectivityExcluded gr else {});
              nodes = filterNodes gr scope excluded;
              (edges, nodes) = filterEdges gr scope nodes excluded;
              nodes = pullNetAppParents gr nodes
          in \<lparr> view_Nodes = SortNodes (map snd nodes), view_Edges = SortEdges edges \<rparr>)"

section \<open>Specification\<close>

definition connectivityEdge :: "'f Edge \<Rightarrow> bool" where
  "connectivityEdge e =
     (EType e \<in> {EdgeTypePodCallsPod, EdgeTypePodCallsService, EdgeTypeServiceSelectsPod})"

definition connected :: "'f Graph \<Rightarrow> string \<Rightarrow> bool" where
  "connected g i = (\<exists>e\<in>set (Edges g). connectivityEdge e \<and> (Source e = i \<or> Target e = i))"

definition mountedByConnected :: "'f Graph \<Rightarrow> string \<Rightarrow> bool" where
  "mountedByConnected g i =
     (\<exists>e\<in>set (Edges g). EType e = EdgeTypePodMountsPVC \<and> Target e = i \<and> connected g (Source e))"

definition excludedSpec :: "'f Graph \<Rightarrow> Scope \<Rightarrow> string \<Rightarrow> bool" where
  "excludedSpec g scope i =
     (\<not> sc_Inventory scope \<and>
      (\<exists>n. gm_get (NodesByID g) i = Some n \<and>
         (Type n = NodeTypePod \<and> \<not> connected g i \<or>
          Type n = NodeTypePVC \<and> \<not> mountedByConnected g i)))"

text \<open>Admitted by its own labels: pods, claims, services, externals (and SVMs).\<close>

definition directSpec :: "'f Graph \<Rightarrow> Scope \<Rightarrow> string \<Rightarrow> 'f GraphNode \<Rightarrow> bool" where
  "directSpec g scope i n =
     (gm_get (NodesByID g) i = Some n \<and> \<not> excludedSpec g scope i
      \<and> Type n \<notin> {NodeTypeK8sNode, NodeTypeNetAppAggr, NodeTypeNetAppNode}
      \<and> nodePassesFilters n scope (ClusterRawName (Some g)))"

definition hostIDs :: "'f Graph \<Rightarrow> Scope \<Rightarrow> string set" where
  "hostIDs g scope = {label p ''node'' | i p. directSpec g scope i p \<and> Type p = NodeTypePod} - {[]}"

definition servingAggrs :: "'f Graph \<Rightarrow> Scope \<Rightarrow> string set" where
  "servingAggrs g scope =
     {Target e | e. e \<in> set (Edges g) \<and> EType e = EdgeTypePVCToNetAppAggr
                    \<and> (\<exists>n. directSpec g scope (Source e) n)}"

definition aggrSpec :: "'f Graph \<Rightarrow> Scope \<Rightarrow> string \<Rightarrow> 'f GraphNode \<Rightarrow> bool" where
  "aggrSpec g scope i n =
     (gm_get (NodesByID g) i = Some n \<and> Type n = NodeTypeNetAppAggr
      \<and> netappInfraPassesFilters n scope (servingAggrs g scope))"

definition owningCtrls :: "'f Graph \<Rightarrow> Scope \<Rightarrow> string set" where
  "owningCtrls g scope = {c | c i n. aggrSpec g scope i n \<and> ownerID n = Some c}"

text \<open>The nodes the node filter admits.\<close>

definition primarySpec :: "'f Graph \<Rightarrow> Scope \<Rightarrow> string \<Rightarrow> 'f GraphNode \<Rightarrow> bool" where
  "primarySpec g scope i n =
     (directSpec g scope i n
      \<or> gm_get (NodesByID g) i = Some n \<and> Type n = NodeTypeK8sNode
          \<and> infraNodePassesFilters n scope (hostIDs g scope) (ClusterRawName (Some g))
      \<or> aggrSpec g scope i n
      \<or> gm_get (NodesByID g) i = Some n \<and> Type n = NodeTypeNetAppNode
          \<and> netappInfraPassesFilters n scope (owningCtrls g scope))"

definition readdable :: "'f Graph \<Rightarrow> Scope \<Rightarrow> string \<Rightarrow> bool" where
  "readdable g scope i =
     (\<not> excludedSpec g scope i
      \<and> (\<exists>p. gm_get (NodesByID g) i = Some p \<and> nodePassesNonClusterFilters p scope))"

definition keepWrt ::
  "'f Graph \<Rightarrow> Scope \<Rightarrow> string set \<Rightarrow> string set \<Rightarrow> 'f Edge \<Rightarrow> bool" where
  "keepWrt g scope prim ex e =
     (let R = (\<lambda>i. i \<notin> ex \<and> (\<exists>p. gm_get (NodesByID g) i = Some p
                                  \<and> nodePassesNonClusterFilters p scope)) in
      (Source e \<in> prim \<or> Target e \<in> prim)
      \<and> (Source e \<in> prim \<or> R (Source e)) \<and> (Target e \<in> prim \<or> R (Target e)))"

text \<open>An edge is kept when one endpoint is primary and the other is primary or may be re-added.\<close>

definition keepEdge :: "'f Graph \<Rightarrow> Scope \<Rightarrow> 'f Edge \<Rightarrow> bool" where
  "keepEdge g scope e =
     (let prim = (\<lambda>i. \<exists>n. primarySpec g scope i n) in
      (prim (Source e) \<or> prim (Target e))
      \<and> (prim (Source e) \<or> readdable g scope (Source e))
      \<and> (prim (Target e) \<or> readdable g scope (Target e)))"

text \<open>Before the parent sweep: primary nodes and the partners of kept edges.\<close>

definition partnerSpec :: "'f Graph \<Rightarrow> Scope \<Rightarrow> string \<Rightarrow> 'f GraphNode \<Rightarrow> bool" where
  "partnerSpec g scope i n =
     (gm_get (NodesByID g) i = Some n
      \<and> (primarySpec g scope i n
         \<or> (\<exists>e\<in>set (Edges g). keepEdge g scope e \<and> (Source e = i \<or> Target e = i))))"

definition viewSpec :: "'f Graph \<Rightarrow> Scope \<Rightarrow> string \<Rightarrow> 'f GraphNode \<Rightarrow> bool" where
  "viewSpec g scope i n =
     (gm_get (NodesByID g) i = Some n
      \<and> (partnerSpec g scope i n
         \<or> (\<exists>j a. partnerSpec g scope j a \<and> Type a = NodeTypeNetAppAggr \<and> ownerID a = Some i)))"


definition subnodes :: "'f Graph \<Rightarrow> (string, 'f GraphNode) gomap \<Rightarrow> bool" where
  "subnodes g m =
     (gm_wf m \<and> (\<forall>i n. gm_get m i = Some n \<longrightarrow> gm_get (NodesByID g) i = Some n))"

section \<open>The prune set\<close>

lemma fold_insert_if:
  "fold (\<lambda>(i, n) s. if P i n then insert i s else s) xs s
     = s \<union> {i. \<exists>n. (i, n) \<in> set xs \<and> P i n}"
  by (induction xs arbitrary: s) (auto split: if_splits)

lemma connectivityScan_fst:
  "fst (fold connectivityStep es st)
     = fst st \<union> {i. \<exists>e\<in>set es. connectivityEdge e \<and> (Source e = i \<or> Target e = i)}"
proof (induction es arbitrary: st)
  case (Cons e es)
  have "fst (connectivityStep e st)
      = fst st \<union> {i. connectivityEdge e \<and> (Source e = i \<or> Target e = i)}"
    by (cases st; cases "EType e") (auto simp: connectivityEdge_def)
  then show ?case using Cons.IH [of "connectivityStep e st"] by auto
qed simp

lemma connectivityScan_snd:
  "gm_list (snd (fold connectivityStep es st)) k
     = gm_list (snd st) k
       @ map Source (filter (\<lambda>e. EType e = EdgeTypePodMountsPVC \<and> Target e = k) es)"
proof (induction es arbitrary: st)
  case (Cons e es)
  have "gm_list (snd (connectivityStep e st)) k
      = gm_list (snd st) k @ (if EType e = EdgeTypePodMountsPVC \<and> Target e = k then [Source e] else [])"
    by (cases st; cases "EType e") (auto simp: gm_list_append)
  then show ?case using Cons.IH [of "connectivityStep e st"] by auto
qed simp

lemma connectivityExcluded_iff:
  assumes "wf_graph g" and "\<not> sc_Inventory scope"
  shows "i \<in> connectivityExcluded g \<longleftrightarrow> excludedSpec g scope i"
proof -
  let ?st = "fold connectivityStep (Edges g) ({}, [])"
  let ?P = "\<lambda>i n. Type n = NodeTypePod \<and> \<not> connected g i \<or>
                 Type n = NodeTypePVC \<and> \<not> mountedByConnected g i"
  have con: "j \<in> fst ?st \<longleftrightarrow> connected g j" for j
    by (simp add: connectivityScan_fst connected_def)
  have mnt: "list_ex (connected g) (gm_list (snd ?st) j) \<longleftrightarrow> mountedByConnected g j" for j
    unfolding list_ex_iff connectivityScan_snd
    by (auto simp: mountedByConnected_def gm_list_def)
  have "connectivityExcluded g
      = fold (\<lambda>(i, n) s. if ?P i n then insert i s else s) (NodesByID g) {}"
    unfolding connectivityExcluded_def Let_def split_beta
    by (intro arg_cong2 [where f = "\<lambda>f xs. fold f xs {}"] ext refl)
      (auto simp: con mnt split_beta)
  then show ?thesis
    using gm_in_get_iff [OF wf_graphD(1) [OF assms(1)]] assms(2)
    by (auto simp: fold_insert_if excludedSpec_def)
qed

lemma excluded_set:
  assumes "wf_graph g"
  shows "(if \<not> sc_Inventory scope then connectivityExcluded g else {}) = {i. excludedSpec g scope i}"
  using connectivityExcluded_iff [OF assms, of scope] by (auto simp: excludedSpec_def)

section \<open>The node filter\<close>

lemma subnodesD:
  assumes "subnodes g m"
  shows "gm_wf m" and "gm_get m i = Some n \<Longrightarrow> gm_get (NodesByID g) i = Some n"
  using assms by (auto simp: subnodes_def)

lemma subnodes_put:
  "subnodes g m \<Longrightarrow> gm_get (NodesByID g) i = Some n \<Longrightarrow> subnodes g (gm_put i n m)"
  by (auto simp: subnodes_def)

lemma subnodes_filter:
  assumes "wf_graph g"
  shows "subnodes g (filter P (NodesByID g))"
    and "gm_get (filter P (NodesByID g)) i = Some n
           \<longleftrightarrow> gm_get (NodesByID g) i = Some n \<and> P (i, n)"
proof -
  have wf: "gm_wf (NodesByID g)" using assms by (rule wf_graphD)
  then have wf': "gm_wf (filter P (NodesByID g))"
    by (simp add: gm_wf_def distinct_map_filter)
  show eq: "gm_get (filter P (NodesByID g)) i = Some n
           \<longleftrightarrow> gm_get (NodesByID g) i = Some n \<and> P (i, n)" for i n
    unfolding gm_in_get_iff [OF wf, symmetric] gm_in_get_iff [OF wf', symmetric] by auto
  show "subnodes g (filter P (NodesByID g))"
    using wf' eq by (simp add: subnodes_def)
qed

lemma admitAll_sub:
  assumes "subnodes g out" and "\<forall>n\<in>set ns. gm_get (NodesByID g) (ID n) = Some n"
  shows "subnodes g (admitAll P ns out)
    \<and> (\<forall>i n. gm_get (admitAll P ns out) i = Some n
          \<longleftrightarrow> gm_get out i = Some n \<or> n \<in> set ns \<and> P n \<and> ID n = i)"
  using assms
proof (induction ns arbitrary: out)
  case Nil
  then show ?case by (simp add: admitAll_def)
next
  case (Cons a ns)
  let ?out = "if P a then gm_put (ID a) a out else out"
  have sub: "subnodes g ?out" using Cons.prems by (simp add: subnodes_put)
  have step: "admitAll P (a # ns) out = admitAll P ns ?out" by (simp add: admitAll_def)
  have one: "gm_get ?out i = Some n \<longleftrightarrow> gm_get out i = Some n \<or> P a \<and> n = a \<and> ID a = i" for i n
    using Cons.prems subnodesD(2) [OF Cons.prems(1), of "ID a"] by auto
  have IH: "subnodes g (admitAll P ns ?out)
      \<and> (\<forall>i n. gm_get (admitAll P ns ?out) i = Some n
            \<longleftrightarrow> gm_get ?out i = Some n \<or> n \<in> set ns \<and> P n \<and> ID n = i)"
    using sub Cons.prems(2) by (intro Cons.IH) simp_all
  show ?case unfolding step using IH one by auto
qed

lemma admitAll_deferred:
  assumes wf: "wf_graph g" and sub: "subnodes g out"
    and ns: "ns = map snd (filter (\<lambda>(i, n). Type n = ty)
                            (filter (\<lambda>(i, n). i \<notin> {i. excludedSpec g scope i}) (NodesByID g)))"
    and ty: "ty \<noteq> NodeTypePod" "ty \<noteq> NodeTypePVC"
  shows "subnodes g (admitAll P ns out)"
    and "gm_get (admitAll P ns out) i = Some n
          \<longleftrightarrow> gm_get out i = Some n \<or> gm_get (NodesByID g) i = Some n \<and> Type n = ty \<and> P n"
proof -
  have wfm: "gm_wf (NodesByID g)" using wf by (rule wf_graphD)
  have mem: "n \<in> set ns \<longleftrightarrow> gm_get (NodesByID g) (ID n) = Some n \<and> Type n = ty" for n
  proof
    assume "n \<in> set ns"
    then obtain i where "(i, n) \<in> set (NodesByID g)" "Type n = ty" by (auto simp: ns)
    then show "gm_get (NodesByID g) (ID n) = Some n \<and> Type n = ty"
      using wf_graphD(2) [OF wf] gm_in_get [OF wfm] by blast
  next
    assume n: "gm_get (NodesByID g) (ID n) = Some n \<and> Type n = ty"
    then have "\<not> excludedSpec g scope (ID n)" using ty by (auto simp: excludedSpec_def)
    with n show "n \<in> set ns" by (force simp: ns dest: gm_get_in)
  qed
  have all: "\<forall>n\<in>set ns. gm_get (NodesByID g) (ID n) = Some n" by (simp add: mem)
  show "subnodes g (admitAll P ns out)" using admitAll_sub [OF sub all] by blast
  show "gm_get (admitAll P ns out) i = Some n
          \<longleftrightarrow> gm_get out i = Some n \<or> gm_get (NodesByID g) i = Some n \<and> Type n = ty \<and> P n"
    using admitAll_sub [OF sub all, of P] mem wf_graphD(3) [OF wf] by metis
qed

lemma filterNodes_spec:
  assumes wf: "wf_graph g"
  shows "subnodes g (filterNodes g scope {i. excludedSpec g scope i})
    \<and> (\<forall>i n. gm_get (filterNodes g scope {i. excludedSpec g scope i}) i = Some n
          \<longleftrightarrow> primarySpec g scope i n)"
proof -
  let ?ex = "{i. excludedSpec g scope i}"
  let ?raw = "ClusterRawName (Some g)"
  define live where "live = filter (\<lambda>(i, n). i \<notin> ?ex) (NodesByID g)"
  define out where "out = filter (\<lambda>(i, n).
      Type n \<notin> {NodeTypeK8sNode, NodeTypeNetAppAggr, NodeTypeNetAppNode}
      \<and> nodePassesFilters n scope ?raw) live"
  define dK where "dK = map snd (filter (\<lambda>(i, n). Type n = NodeTypeK8sNode) live)"
  define dA where "dA = map snd (filter (\<lambda>(i, n). Type n = NodeTypeNetAppAggr) live)"
  define dN where "dN = map snd (filter (\<lambda>(i, n). Type n = NodeTypeNetAppNode) live)"
  note dfr = admitAll_deferred [OF wf, where scope = scope, folded live_def]
  have out_eq: "out = filter (\<lambda>(i, n). i \<notin> ?ex \<and>
      Type n \<notin> {NodeTypeK8sNode, NodeTypeNetAppAggr, NodeTypeNetAppNode}
      \<and> nodePassesFilters n scope ?raw) (NodesByID g)"
    unfolding out_def live_def filter_filter by (rule filter_cong) auto
  have sub0: "subnodes g out" unfolding out_eq by (rule subnodes_filter [OF wf])
  have out: "gm_get out i = Some n \<longleftrightarrow> directSpec g scope i n" for i n
    unfolding out_eq subnodes_filter(2) [OF wf] by (auto simp: directSpec_def)
  have out_mem: "(i, n) \<in> set out \<longleftrightarrow> directSpec g scope i n" for i n
    using gm_in_get_iff [OF subnodesD(1) [OF sub0]] out by simp
  define hosts where "hosts = set (filter (\<lambda>hn. hn \<noteq> [])
      (map (\<lambda>(i, n). label n ''node'') (filter (\<lambda>(i, n). Type n = NodeTypePod) out)))"
  have hosts: "hosts = hostIDs g scope"
    by (force simp: hosts_def hostIDs_def out_mem)
  define aggrs where "aggrs = set (map Target
      (filter (\<lambda>e. EType e = EdgeTypePVCToNetAppAggr \<and> gm_has out (Source e)) (Edges g)))"
  have aggrs: "aggrs = servingAggrs g scope"
    by (auto simp: aggrs_def servingAggrs_def gm_has_get out)
  define out1 where "out1 = admitAll (\<lambda>n. infraNodePassesFilters n scope hosts ?raw) dK out"
  have sub1: "subnodes g out1" unfolding out1_def by (rule dfr(1) [OF sub0 dK_def]) simp_all
  have get1: "gm_get out1 i = Some n \<longleftrightarrow> gm_get out i = Some n
      \<or> gm_get (NodesByID g) i = Some n \<and> Type n = NodeTypeK8sNode
         \<and> infraNodePassesFilters n scope hosts ?raw" for i n
    unfolding out1_def by (rule dfr(2) [OF sub0 dK_def]) simp_all
  define out2 where "out2 = admitAll (\<lambda>n. netappInfraPassesFilters n scope aggrs) dA out1"
  have sub2: "subnodes g out2" unfolding out2_def by (rule dfr(1) [OF sub1 dA_def]) simp_all
  have get2: "gm_get out2 i = Some n \<longleftrightarrow> gm_get out1 i = Some n
      \<or> gm_get (NodesByID g) i = Some n \<and> Type n = NodeTypeNetAppAggr
         \<and> netappInfraPassesFilters n scope aggrs" for i n
    unfolding out2_def by (rule dfr(2) [OF sub1 dA_def]) simp_all
  define ctrls where "ctrls = set (List.map_filter (\<lambda>(i, n).
      if Type n = NodeTypeNetAppAggr then ownerID n else None) out2)"
  have aggr2: "gm_get out2 i = Some n \<and> Type n = NodeTypeNetAppAggr \<longleftrightarrow> aggrSpec g scope i n" for i n
    unfolding get2 get1 out by (auto simp: aggrSpec_def aggrs directSpec_def)
  have ctrls: "ctrls = owningCtrls g scope"
    unfolding ctrls_def owningCtrls_def set_map_filter aggr2 [symmetric]
      gm_in_get_iff [OF subnodesD(1) [OF sub2], symmetric]
    by (auto split: if_splits) (blast, force)
  define out3 where "out3 = admitAll (\<lambda>n. netappInfraPassesFilters n scope ctrls) dN out2"
  have sub3: "subnodes g out3" unfolding out3_def by (rule dfr(1) [OF sub2 dN_def]) simp_all
  have get3: "gm_get out3 i = Some n \<longleftrightarrow> gm_get out2 i = Some n
      \<or> gm_get (NodesByID g) i = Some n \<and> Type n = NodeTypeNetAppNode
         \<and> netappInfraPassesFilters n scope ctrls" for i n
    unfolding out3_def by (rule dfr(2) [OF sub2 dN_def]) simp_all
  have "filterNodes g scope ?ex = out3"
    unfolding filterNodes_def Let_def out3_def ctrls_def out2_def out1_def aggrs_def hosts_def
      dK_def dA_def dN_def out_def live_def ..
  moreover have "gm_get out3 i = Some n \<longleftrightarrow> primarySpec g scope i n" for i n
    unfolding get3 get2 get1 out primarySpec_def aggrSpec_def hosts aggrs ctrls by blast
  ultimately show ?thesis using sub3 by simp
qed

section \<open>The edge filter and the parent sweep\<close>

lemma readd_one_missing:
  assumes "srcOK \<noteq> tgtOK"
  shows "readdEdgePartners g e nodes srcOK tgtOK scope ex pred
     = readdPartner g (if srcOK then Target e else Source e) nodes scope ex pred"
  using assms by (auto simp: readdEdgePartners_def split: prod.splits)

lemma filterEdgesStep_one_missing:
  fixes g :: "'f Graph"
  defines "R \<equiv> \<lambda>scope ex i. i \<notin> ex
      \<and> (\<exists>p. gm_get (NodesByID g) i = Some p \<and> nodePassesNonClusterFilters p scope)"
  assumes "(Source e \<in> prim) \<noteq> (Target e \<in> prim)"
  shows "filterEdgesStep g scope prim ex e (out, nodes) =
    (let i = (if Source e \<in> prim then Target e else Source e) in
     if R scope ex i then (out @ [e], gm_put i (the (gm_get (NodesByID g) i)) nodes) else (out, nodes))"
  using assms(2)
  by (auto simp: readd_one_missing readdPartner_def R_def Let_def split: option.splits)

lemma filterEdgesStep_spec:
  assumes sub: "subnodes g nodes" and prim: "\<forall>i\<in>prim. gm_get nodes i \<noteq> None"
    and st: "filterEdgesStep g scope prim ex e (out, nodes) = (out', nodes')"
  shows "out' = out @ (if keepWrt g scope prim ex e then [e] else [])"
    and "subnodes g nodes'"
    and "gm_get nodes' i = Some n \<longleftrightarrow> gm_get nodes i = Some n
       \<or> gm_get (NodesByID g) i = Some n \<and> keepWrt g scope prim ex e \<and> (Source e = i \<or> Target e = i)"
proof -
  let ?R = "\<lambda>i. i \<notin> ex \<and> (\<exists>p. gm_get (NodesByID g) i = Some p \<and> nodePassesNonClusterFilters p scope)"
  have in_prim: "gm_get nodes j = Some m" if "j \<in> prim" "gm_get (NodesByID g) j = Some m" for j m
    using that prim subnodesD(2) [OF sub, of j] by fastforce
  have in_prim': "\<exists>m. gm_get nodes j = Some m \<and> gm_get (NodesByID g) j = Some m" if "j \<in> prim" for j
    using that prim subnodesD(2) [OF sub, of j] by fastforce
  have "out' = out @ (if keepWrt g scope prim ex e then [e] else []) \<and> subnodes g nodes'
    \<and> (gm_get nodes' i = Some n \<longleftrightarrow> gm_get nodes i = Some n
       \<or> gm_get (NodesByID g) i = Some n \<and> keepWrt g scope prim ex e \<and> (Source e = i \<or> Target e = i))"
  proof (cases "Source e \<in> prim \<longleftrightarrow> Target e \<in> prim")
    case True
    then have "(Source e \<in> prim \<longrightarrow> out' = out @ [e]) \<and> (Source e \<notin> prim \<longrightarrow> out' = out) \<and> nodes' = nodes"
      using st by (auto split: if_splits)
    moreover have "keepWrt g scope prim ex e \<longleftrightarrow> Source e \<in> prim"
      using True by (auto simp: keepWrt_def)
    ultimately show ?thesis using sub in_prim True by (auto split: if_splits)
  next
    case False
    let ?i = "if Source e \<in> prim then Target e else Source e"
    let ?j = "if Source e \<in> prim then Source e else Target e"
    have k: "keepWrt g scope prim ex e \<longleftrightarrow> ?R ?i" using False by (auto simp: keepWrt_def)
    have ends: "Source e = i \<or> Target e = i \<longleftrightarrow> i = ?i \<or> i = ?j" by auto
    note st' = st [unfolded filterEdgesStep_one_missing [OF False] Let_def]
    show ?thesis
    proof (cases "?R ?i")
      case True
      then obtain p where p: "gm_get (NodesByID g) ?i = Some p" by blast
      have eqs: "out' = out @ [e]" "nodes' = gm_put ?i p nodes"
        using st' True p by simp_all
      have j: "\<exists>m. gm_get nodes ?j = Some m \<and> gm_get (NodesByID g) ?j = Some m"
        using False by (intro in_prim') auto
      show ?thesis
        unfolding eqs k ends using True p j sub subnodes_put [OF sub p] subnodesD(2) [OF sub, of i n]
        by auto
    next
      case False': False
      have "out' = out" "nodes' = nodes"
        using st' False' by (simp_all only: if_False prod.inject)
      then show ?thesis using sub k False' by simp
    qed
  qed
  then show "out' = out @ (if keepWrt g scope prim ex e then [e] else [])" "subnodes g nodes'"
    "gm_get nodes' i = Some n \<longleftrightarrow> gm_get nodes i = Some n
       \<or> gm_get (NodesByID g) i = Some n \<and> keepWrt g scope prim ex e \<and> (Source e = i \<or> Target e = i)"
    by blast+
qed

lemma filterEdges_fold:
  assumes "subnodes g nodes" and "\<forall>i\<in>prim. gm_get nodes i \<noteq> None"
    and "fold (filterEdgesStep g scope prim ex) es (out, nodes) = (edges, nodes')"
  shows "edges = out @ filter (keepWrt g scope prim ex) es \<and> subnodes g nodes'
    \<and> (\<forall>i n. gm_get nodes' i = Some n \<longleftrightarrow> gm_get nodes i = Some n
          \<or> gm_get (NodesByID g) i = Some n
             \<and> (\<exists>e\<in>set es. keepWrt g scope prim ex e \<and> (Source e = i \<or> Target e = i)))"
  using assms
proof (induction es arbitrary: out nodes)
  case Nil
  then show ?case by simp
next
  case (Cons e es)
  obtain out1 nodes1 where st: "filterEdgesStep g scope prim ex e (out, nodes) = (out1, nodes1)"
    by fastforce
  note one = filterEdgesStep_spec [OF Cons.prems(1,2) st]
  have "\<forall>i\<in>prim. gm_get nodes1 i \<noteq> None"
    using Cons.prems(2) one(3) by (metis not_None_eq)
  moreover have "fold (filterEdgesStep g scope prim ex) es (out1, nodes1) = (edges, nodes')"
    using Cons.prems(3) st by simp
  ultimately have IH: "edges = out1 @ filter (keepWrt g scope prim ex) es \<and> subnodes g nodes'
    \<and> (\<forall>i n. gm_get nodes' i = Some n \<longleftrightarrow> gm_get nodes1 i = Some n
          \<or> gm_get (NodesByID g) i = Some n
             \<and> (\<exists>e\<in>set es. keepWrt g scope prim ex e \<and> (Source e = i \<or> Target e = i)))"
    using one(2) by (intro Cons.IH)
  show ?case using IH one(1,3) by auto
qed

lemma pullNetAppParents_fold:
  assumes "subnodes g m"
  shows "subnodes g (fold (\<lambda>(i, n) m.
         if Type n \<noteq> NodeTypeNetAppAggr then m
         else (case ownerID n of None \<Rightarrow> m
               | Some pid \<Rightarrow> if gm_has m pid then m
                   else (case gm_get (NodesByID g) pid of None \<Rightarrow> m
                         | Some parent \<Rightarrow> gm_put pid parent m))) xs m)
    \<and> (\<forall>i n. gm_get (fold (\<lambda>(i, n) m.
         if Type n \<noteq> NodeTypeNetAppAggr then m
         else (case ownerID n of None \<Rightarrow> m
               | Some pid \<Rightarrow> if gm_has m pid then m
                   else (case gm_get (NodesByID g) pid of None \<Rightarrow> m
                         | Some parent \<Rightarrow> gm_put pid parent m))) xs m) i = Some n
       \<longleftrightarrow> gm_get m i = Some n \<or> gm_get (NodesByID g) i = Some n
            \<and> (\<exists>j a. (j, a) \<in> set xs \<and> Type a = NodeTypeNetAppAggr \<and> ownerID a = Some i))"
  using assms
proof (induction xs arbitrary: m)
  case Nil
  then show ?case by simp
next
  case (Cons x xs)
  obtain j a where x: "x = (j, a)" by fastforce
  define m' where "m' = (if Type a \<noteq> NodeTypeNetAppAggr then m
         else (case ownerID a of None \<Rightarrow> m
               | Some pid \<Rightarrow> if gm_has m pid then m
                   else (case gm_get (NodesByID g) pid of None \<Rightarrow> m
                         | Some parent \<Rightarrow> gm_put pid parent m)))"
  have "subnodes g m'"
    using Cons.prems by (auto simp: m'_def subnodes_put split: option.splits)
  moreover have "gm_get m' i = Some n \<longleftrightarrow> gm_get m i = Some n \<or> gm_get (NodesByID g) i = Some n
        \<and> Type a = NodeTypeNetAppAggr \<and> ownerID a = Some i" for i n
    using subnodesD(2) [OF Cons.prems, of i]
    by (auto simp: m'_def gm_has_get split: option.splits if_splits)
  ultimately show ?case
    using Cons.IH [of m'] by (simp add: x m'_def [symmetric]) blast
qed

lemmas pullNetAppParents_spec =
  pullNetAppParents_fold [of g m m for g m, folded pullNetAppParents_def]


section \<open>Refinement\<close>

lemma keepWrt_keepEdge:
  "keepWrt g scope {i. \<exists>n. primarySpec g scope i n} {i. excludedSpec g scope i} = keepEdge g scope"
  by (rule ext) (simp add: keepWrt_def keepEdge_def readdable_def Let_def)

lemma keys_eq_get: "fst ` set m = {i. \<exists>n. gm_get m i = Some n}"
  unfolding dom_map_of_conv_image_fst [symmetric] dom_def gm_get_def by auto

lemma primarySpec_node: "primarySpec g scope i n \<Longrightarrow> gm_get (NodesByID g) i = Some n"
  by (auto simp: primarySpec_def directSpec_def aggrSpec_def)

lemma partnerSpec_node: "partnerSpec g scope i n \<Longrightarrow> gm_get (NodesByID g) i = Some n"
  by (simp add: partnerSpec_def)

lemma filterEdges_spec:
  assumes wf: "wf_graph g"
    and res: "filterEdges g scope (filterNodes g scope {i. excludedSpec g scope i})
                {i. excludedSpec g scope i} = (edges, nodes)"
  shows "edges = filter (keepEdge g scope) (Edges g)" and "subnodes g nodes"
    and "gm_get nodes i = Some n \<longleftrightarrow> partnerSpec g scope i n"
proof -
  let ?ex = "{i. excludedSpec g scope i}"
  let ?nodes = "filterNodes g scope ?ex"
  have sub: "subnodes g ?nodes" and prim: "\<And>i n. gm_get ?nodes i = Some n \<longleftrightarrow> primarySpec g scope i n"
    using filterNodes_spec [OF wf, of scope] by auto
  have keys: "fst ` set ?nodes = {i. \<exists>n. primarySpec g scope i n}"
    by (simp add: keys_eq_get prim)
  have "\<forall>i\<in>{i. \<exists>n. primarySpec g scope i n}. gm_get ?nodes i \<noteq> None"
    by (auto simp: prim)
  from filterEdges_fold [OF sub this, of scope ?ex "Edges g" "[]" edges nodes] res
  have "edges = filter (keepEdge g scope) (Edges g) \<and> subnodes g nodes
      \<and> (\<forall>i n. gm_get nodes i = Some n \<longleftrightarrow> gm_get ?nodes i = Some n
          \<or> gm_get (NodesByID g) i = Some n
             \<and> (\<exists>e\<in>set (Edges g). keepEdge g scope e \<and> (Source e = i \<or> Target e = i)))"
    by (simp add: filterEdges_def keys keepWrt_keepEdge)
  then show "edges = filter (keepEdge g scope) (Edges g)" "subnodes g nodes"
    "gm_get nodes i = Some n \<longleftrightarrow> partnerSpec g scope i n"
    using primarySpec_node [of g scope i n] by (auto simp: prim partnerSpec_def)
qed

lemma Project_refines:
  assumes wf: "wf_graph g"
  obtains nodes where
    "Project (Some g) scope = \<lparr> view_Nodes = SortNodes (map snd nodes),
       view_Edges = SortEdges (filter (keepEdge g scope) (Edges g)) \<rparr>"
    and "subnodes g nodes" and "\<And>i n. gm_get nodes i = Some n \<longleftrightarrow> viewSpec g scope i n"
proof -
  let ?ex = "{i. excludedSpec g scope i}"
  obtain edges nodes where res: "filterEdges g scope (filterNodes g scope ?ex) ?ex = (edges, nodes)"
    by fastforce
  note fe = filterEdges_spec [OF wf res]
  note pull = pullNetAppParents_spec [OF fe(2)]
  have mem: "(j, a) \<in> set nodes \<longleftrightarrow> partnerSpec g scope j a" for j a
    using gm_in_get_iff [OF subnodesD(1) [OF fe(2)]] fe(3) by simp
  have spec: "gm_get (pullNetAppParents g nodes) i = Some n \<longleftrightarrow> viewSpec g scope i n" for i n
    using pull partnerSpec_node [of g scope i n] unfolding mem fe(3) viewSpec_def by blast
  have "Project (Some g) scope = \<lparr> view_Nodes = SortNodes (map snd (pullNetAppParents g nodes)),
       view_Edges = SortEdges (filter (keepEdge g scope) (Edges g)) \<rparr>"
    by (simp add: Project_def excluded_set [OF wf] res fe(1))
  then show ?thesis using that pull spec by blast
qed

lemma subnodes_ids:
  assumes "wf_graph g" and "subnodes g m"
  shows "map (\<lambda>n. ID n) (map snd m) = map fst m" and "distinct (map (\<lambda>n. ID n) (map snd m))"
proof -
  have "ID n = i" if "(i, n) \<in> set m" for i n
    using that assms subnodesD [OF assms(2)] gm_in_get wf_graphD(3) [OF assms(1)] by metis
  then show eq: "map (\<lambda>n. ID n) (map snd m) = map fst m" by auto
  show "distinct (map (\<lambda>n. ID n) (map snd m))"
    unfolding eq using subnodesD(1) [OF assms(2)] by (simp add: gm_wf_def)
qed

lemma Project_nodes:
  assumes wf: "wf_graph g"
  shows "n \<in> set (view_Nodes (Project (Some g) scope)) \<longleftrightarrow> viewSpec g scope (ID n) n"
    and "sorted (map (\<lambda>n. ID n) (view_Nodes (Project (Some g) scope)))"
    and "distinct (map (\<lambda>n. ID n) (view_Nodes (Project (Some g) scope)))"
    and "view_Edges (Project (Some g) scope) = SortEdges (filter (keepEdge g scope) (Edges g))"
proof -
  from Project_refines [OF wf, of scope] obtain nodes where
    eq: "Project (Some g) scope = \<lparr> view_Nodes = SortNodes (map snd nodes),
       view_Edges = SortEdges (filter (keepEdge g scope) (Edges g)) \<rparr>"
    and sub: "subnodes g nodes" and spec: "\<And>i n. gm_get nodes i = Some n \<longleftrightarrow> viewSpec g scope i n"
    by blast
  have mem: "(i, n) \<in> set nodes \<longleftrightarrow> viewSpec g scope i n" for i n
    using gm_in_get_iff [OF subnodesD(1) [OF sub]] spec by simp
  have "viewSpec g scope i n \<Longrightarrow> ID n = i" for i n
    using wf_graphD(3) [OF wf] by (auto simp: viewSpec_def)
  moreover have "n \<in> snd ` set nodes \<longleftrightarrow> (\<exists>i. viewSpec g scope i n)"
    by (force simp: mem [symmetric] image_iff)
  ultimately show "n \<in> set (view_Nodes (Project (Some g) scope)) \<longleftrightarrow> viewSpec g scope (ID n) n"
    by (simp add: eq) metis
  show "sorted (map (\<lambda>n. ID n) (view_Nodes (Project (Some g) scope)))"
    by (simp only: eq View.select_convs node_sort.srt_sorted)
  show "distinct (map (\<lambda>n. ID n) (view_Nodes (Project (Some g) scope)))"
    using subnodes_ids(2) [OF wf sub] by (simp only: eq View.select_convs node_sort.srt_distinct)
  show "view_Edges (Project (Some g) scope) = SortEdges (filter (keepEdge g scope) (Edges g))"
    by (simp add: eq)
qed

lemma Project_edges:
  "wf_graph g \<Longrightarrow>
   e \<in> set (view_Edges (Project (Some g) scope)) \<longleftrightarrow> e \<in> set (Edges g) \<and> keepEdge g scope e"
  by (simp add: Project_nodes(4))

text \<open>Visiting the inserted controllers again adds nothing, when owners are controllers.\<close>

lemma pullNetAppParents_again:
  assumes "subnodes g m"
    and "\<And>j a c p. gm_get m j = Some a \<Longrightarrow> Type a = NodeTypeNetAppAggr \<Longrightarrow> ownerID a = Some c \<Longrightarrow>
           gm_get (NodesByID g) c = Some p \<Longrightarrow> Type p \<noteq> NodeTypeNetAppAggr"
  shows "gm_get (pullNetAppParents g (pullNetAppParents g m)) = gm_get (pullNetAppParents g m)"
    (is "gm_get ?mm = gm_get ?m")
proof
  fix i
  note one = pullNetAppParents_spec [OF assms(1)]
  note two = pullNetAppParents_spec [OF conjunct1 [OF one]]
  have mem: "(j, a) \<in> set m \<longleftrightarrow> gm_get m j = Some a" for j a
    by (rule gm_in_get_iff [OF subnodesD(1) [OF assms(1)]])
  have mem2: "(j, a) \<in> set ?m \<longleftrightarrow> gm_get ?m j = Some a" for j a
    by (rule gm_in_get_iff [OF subnodesD(1) [OF conjunct1 [OF one]]])
  have "gm_get ?mm i = Some n \<longleftrightarrow> gm_get ?m i = Some n" for n
    using one two assms(2) unfolding mem mem2 by blast
  then show "gm_get ?mm i = gm_get ?m i" by (metis not_Some_eq)
qed


section \<open>What every projection promises its consumer\<close>

text \<open>
  The serialiser reads a view without looking at the graph again: it needs the nodes to be nodes of
  the graph, in id order and without repetition, and every edge to join two nodes of the view.
  \<open>Project\<close>, \<open>ProjectStorage\<close> and \<open>ProjectK8s\<close> are the three providers.
\<close>

locale projection =
  fixes proj :: "'f Graph \<Rightarrow> 's \<Rightarrow> 'f View"
    and ok :: "'f Graph \<Rightarrow> bool"
  assumes ok_wf: "ok g \<Longrightarrow> wf_graph g"
    and nodes_of_graph: "ok g \<Longrightarrow> n \<in> set (view_Nodes (proj g s)) \<Longrightarrow> gm_get (NodesByID g) (ID n) = Some n"
    and edges_closed: "ok g \<Longrightarrow> e \<in> set (view_Edges (proj g s)) \<Longrightarrow>
          Source e \<in> (\<lambda>n. ID n) ` set (view_Nodes (proj g s))
          \<and> Target e \<in> (\<lambda>n. ID n) ` set (view_Nodes (proj g s))"
    and nodes_sorted: "ok g \<Longrightarrow> sorted (map (\<lambda>n. ID n) (view_Nodes (proj g s)))"
    and nodes_distinct: "ok g \<Longrightarrow> distinct (map (\<lambda>n. ID n) (view_Nodes (proj g s)))"
begin

lemma view_lookup:
  assumes "ok g" and "n \<in> set (view_Nodes (proj g s))"
  shows "gm_get (NodesByID (NewGraph (view_Nodes (proj g s)) es t)) (ID n) = Some n"
proof -
  have "\<exists>m. find (\<lambda>m. ID m = ID n) (view_Nodes (proj g s)) = Some m \<and> ID m = ID n
          \<and> m \<in> set (view_Nodes (proj g s))"
    using assms(2) find_key [of "ID n" "\<lambda>n. ID n" "view_Nodes (proj g s)"] by auto
  then obtain m where m: "find (\<lambda>m. ID m = ID n) (view_Nodes (proj g s)) = Some m"
    "ID m = ID n" "m \<in> set (view_Nodes (proj g s))" by blast
  have "m = n" using m assms nodes_of_graph by (metis option.inject)
  with m show ?thesis by (simp add: NewGraph_get)
qed

text \<open>Cross-cluster status is the same whether it is read off the view or off the graph.\<close>

lemma view_cross_cluster:
  assumes "ok g" and "e \<in> set (view_Edges (proj g s))"
  shows "isCrossCluster (NewGraph (view_Nodes (proj g s)) (view_Edges (proj g s)) t) e
           = isCrossCluster g e"
proof -
  let ?v = "NewGraph (view_Nodes (proj g s)) (view_Edges (proj g s)) t"
  obtain a b where ab: "a \<in> set (view_Nodes (proj g s))" "b \<in> set (view_Nodes (proj g s))"
    "Source e = ID a" "Target e = ID b"
    using edges_closed [OF assms] by auto
  have "gm_get (NodesByID ?v) (Source e) = gm_get (NodesByID g) (Source e)"
    "gm_get (NodesByID ?v) (Target e) = gm_get (NodesByID g) (Target e)"
    using ab view_lookup [OF assms(1)] nodes_of_graph [OF assms(1)] by simp_all
  then show ?thesis by (simp add: isCrossCluster_def)
qed

end

lemma keepEdge_ends:
  assumes "keepEdge g scope e" and "e \<in> set (Edges g)" and "i = Source e \<or> i = Target e"
  shows "\<exists>n. viewSpec g scope i n"
proof -
  have "\<exists>n. gm_get (NodesByID g) i = Some n"
    using assms primarySpec_node by (fastforce simp: keepEdge_def readdable_def Let_def)
  then show ?thesis using assms by (auto simp: viewSpec_def partnerSpec_def)
qed

interpretation graph_view: projection "\<lambda>g. Project (Some g)" wf_graph
proof
  fix g :: "'f Graph" and s :: Scope
  assume wf: "wf_graph g"
  show "gm_get (NodesByID g) (ID n) = Some n" if "n \<in> set (view_Nodes (Project (Some g) s))" for n
    using that by (simp add: Project_nodes(1) [OF wf] viewSpec_def)
  show "Source e \<in> (\<lambda>n. ID n) ` set (view_Nodes (Project (Some g) s))
      \<and> Target e \<in> (\<lambda>n. ID n) ` set (view_Nodes (Project (Some g) s))"
    if "e \<in> set (view_Edges (Project (Some g) s))" for e
  proof -
    have e: "e \<in> set (Edges g)" "keepEdge g s e" using that by (simp_all add: Project_edges [OF wf])
    have "i \<in> (\<lambda>n. ID n) ` set (view_Nodes (Project (Some g) s))" if i: "i = Source e \<or> i = Target e" for i
    proof -
      obtain n where n: "viewSpec g s i n" using keepEdge_ends [OF e(2,1) i] by blast
      then have "ID n = i" using wf_graphD(3) [OF wf] by (auto simp: viewSpec_def)
      with n show ?thesis by (force simp: Project_nodes(1) [OF wf] image_iff)
    qed
    then show ?thesis by blast
  qed
qed (simp_all add: Project_nodes)

text \<open>
  The parent of an aggregate is a controller: the id under which the sweep looks up an owner is only
  ever carried by a \<open>netapp-node\<close>.
\<close>

definition typed_owners :: "'f Graph \<Rightarrow> bool" where
  "typed_owners g =
     list_all (\<lambda>(i, a). case ownerID a of
                 None \<Rightarrow> True
               | Some c \<Rightarrow> (case gm_get (NodesByID g) c of None \<Rightarrow> True | Some p \<Rightarrow> Type p = NodeTypeNetAppNode))
       (filter (\<lambda>(i, a). Type a = NodeTypeNetAppAggr) (NodesByID g))"

lemma typed_ownersD:
  assumes "wf_graph g" "typed_owners g" "gm_get (NodesByID g) j = Some a" "Type a = NodeTypeNetAppAggr"
    "ownerID a = Some c" "gm_get (NodesByID g) c = Some p"
  shows "Type p = NodeTypeNetAppNode"
  using assms gm_get_in [OF assms(3)] by (fastforce simp: typed_owners_def list_all_iff)

text \<open>A node of the view other than a controller is primary or a partner of a kept edge.\<close>

lemma viewSpec_cases:
  assumes "wf_graph g" and "typed_owners g" and "viewSpec g scope i n" and "Type n \<noteq> NodeTypeNetAppNode"
  shows "primarySpec g scope i n
    \<or> readdable g scope i \<and> (\<exists>e\<in>set (Edges g). keepEdge g scope e \<and> (Source e = i \<or> Target e = i)
         \<and> (\<exists>m. primarySpec g scope (if Source e = i then Target e else Source e) m))"
proof -
  have part: "partnerSpec g scope i n"
    using assms typed_ownersD [OF assms(1,2)] by (auto simp: viewSpec_def partnerSpec_def)
  show ?thesis
  proof (cases "primarySpec g scope i n")
    case False
    then obtain e where e: "e \<in> set (Edges g)" "keepEdge g scope e" "Source e = i \<or> Target e = i"
      using part by (auto simp: partnerSpec_def)
    have "\<not> (\<exists>m. primarySpec g scope i m)"
      using False part primarySpec_node by (metis option.inject partnerSpec_def)
    then have "readdable g scope i
        \<and> (\<exists>m. primarySpec g scope (if Source e = i then Target e else Source e) m)"
      using e by (auto simp: keepEdge_def Let_def)
    with e show ?thesis by blast
  qed simp
qed

lemma viewSpec_not_excluded:
  assumes "wf_graph g" and "typed_owners g" and "viewSpec g scope i n"
  shows "\<not> excludedSpec g scope i"
proof (cases "Type n = NodeTypeNetAppNode")
  case True
  then show ?thesis using assms(3) by (auto simp: excludedSpec_def viewSpec_def)
next
  case False
  from viewSpec_cases [OF assms False] show ?thesis
  proof
    assume "primarySpec g scope i n"
    then show ?thesis using assms(3)
      by (auto simp: primarySpec_def directSpec_def aggrSpec_def excludedSpec_def)
  qed (simp add: readdable_def)
qed


section \<open>The specification depends on the graph's contents only\<close>

definition same_content :: "'f Graph \<Rightarrow> 'f Graph \<Rightarrow> bool" where
  "same_content g g' =
     (mset (NodesByID g) = mset (NodesByID g') \<and> mset (Edges g) = mset (Edges g')
      \<and> ClusterIdentities g = ClusterIdentities g')"

lemma same_contentD:
  assumes "wf_graph g" and "same_content g g'"
  shows "gm_get (NodesByID g') = gm_get (NodesByID g)" and "set (Edges g') = set (Edges g)"
    and "ClusterRawName (Some g') = ClusterRawName (Some g)" and "wf_graph g'"
proof -
  have m: "mset (NodesByID g) = mset (NodesByID g')" "mset (Edges g) = mset (Edges g')"
    "ClusterIdentities g = ClusterIdentities g'"
    using assms(2) by (simp_all add: same_content_def)
  show "gm_get (NodesByID g') = gm_get (NodesByID g)"
    using gm_get_perm [OF m(1) wf_graphD(1) [OF assms(1)]] by simp
  show "set (Edges g') = set (Edges g)" using mset_eq_setD [OF m(2)] by simp
  show "ClusterRawName (Some g') = ClusterRawName (Some g)"
    by (simp add: ClusterRawName_def fun_eq_iff m(3))
  show "wf_graph g'"
    using assms(1) gm_wf_perm [OF m(1)] mset_eq_setD [OF m(1)] by (simp add: wf_graph_def)
qed

lemma spec_cong:
  assumes get: "gm_get (NodesByID g') = gm_get (NodesByID g)"
    and edg: "set (Edges g') = set (Edges g)"
    and raw: "ClusterRawName (Some g') = ClusterRawName (Some g)"
  shows "viewSpec g' scope = viewSpec g scope" and "keepEdge g' scope = keepEdge g scope"
proof -
  have con: "connected g' = connected g" by (simp add: connected_def fun_eq_iff edg)
  have mnt: "mountedByConnected g' = mountedByConnected g"
    by (simp add: mountedByConnected_def fun_eq_iff edg con)
  have exc: "excludedSpec g' scope = excludedSpec g scope"
    by (simp add: excludedSpec_def fun_eq_iff get con mnt)
  have dir: "directSpec g' scope = directSpec g scope"
    by (simp add: directSpec_def fun_eq_iff get exc raw)
  have hst: "hostIDs g' scope = hostIDs g scope" by (simp add: hostIDs_def dir)
  have srv: "servingAggrs g' scope = servingAggrs g scope" by (simp add: servingAggrs_def dir edg)
  have agg: "aggrSpec g' scope = aggrSpec g scope" by (simp add: aggrSpec_def fun_eq_iff get srv)
  have own: "owningCtrls g' scope = owningCtrls g scope" by (simp add: owningCtrls_def agg)
  have pri: "primarySpec g' scope = primarySpec g scope"
    by (simp add: primarySpec_def fun_eq_iff get dir hst agg own raw)
  have rea: "readdable g' scope = readdable g scope"
    by (simp add: readdable_def fun_eq_iff exc get)
  show kee: "keepEdge g' scope = keepEdge g scope"
    by (simp add: keepEdge_def fun_eq_iff pri rea)
  have par: "partnerSpec g' scope = partnerSpec g scope"
    by (simp add: partnerSpec_def fun_eq_iff get pri kee edg)
  show "viewSpec g' scope = viewSpec g scope" by (simp add: viewSpec_def fun_eq_iff get par)
qed

section \<open>An example graph\<close>

text \<open>
  Three pods on one node, a claim on an ONTAP aggregate and an external peer: \<open>u1\<close> calls \<open>u2\<close>,
  which calls the external \<open>db\<close>; \<open>u3\<close> has no traffic.
\<close>

definition exPod :: "string \<Rightarrow> string \<Rightarrow> nat GraphNode" where
  "exPod uid ns = Pod \<lparr> pod_IDValue = PodID ''a'' uid, pod_NameValue = uid,
     pod_LabelsValue = [(''cluster'', ''a''), (''namespace'', ns), (''node'', ''a/n1'')],
     pod_IPAddressValue = [], pod_OwnerValue = None, pod_ApplicationValue = [],
     pod_ContainersValue = [], pod_AlertsValue = [], pod_StatusValue = [] \<rparr>"

definition exNodes :: "nat GraphNode list" where
  "exNodes = [exPod ''u1'' ''shop'', exPod ''u2'' ''pay'', exPod ''u3'' ''shop'',
     K8s \<lparr> k8s_IDValue = ''a/n1'', k8s_NameValue = ''n1'', k8s_LabelsValue = [(''cluster'', ''a'')],
       k8s_IPAddressValue = [], k8s_ReadyStatusValue = [], k8s_AlertsValue = [], k8s_StatusValue = [] \<rparr>,
     PVC \<lparr> pvc_IDValue = ''a/shop/d'', pvc_NameValue = ''d'',
       pvc_LabelsValue = [(''cluster'', ''a''), (''namespace'', ''shop'')],
       pvc_StorageClassValue = [], pvc_ApplicationValue = [], pvc_UsageValue = None,
       pvc_QoSValue = None, pvc_AlertsValue = [], pvc_StatusValue = [] \<rparr>,
     Aggr \<lparr> aggr_IDValue = NetAppAggrID ''f'' ''g1'', aggr_NameValue = ''g1'',
       aggr_LabelsValue = [(''ontap_cluster'', ''f''), (''node'', ''f1'')], aggr_HealthValue = [],
       aggr_UsageValue = None, aggr_AlertsValue = [], aggr_StatusValue = [] \<rparr>,
     Ctrl \<lparr> ctrl_IDValue = NetAppNodeID ''f'' ''f1'', ctrl_NameValue = ''f1'',
       ctrl_LabelsValue = [(''ontap_cluster'', ''f'')], ctrl_HealthValue = [],
       ctrl_HardwareValue = None, ctrl_PerfValue = None, ctrl_AlertsValue = [], ctrl_StatusValue = [] \<rparr>,
     Ext \<lparr> ext_IDValue = ExternalID ''db'', ext_NameValue = ''db'', ext_LabelsValue = [] \<rparr>]"

definition exEdges :: "nat Edge list" where
  "exEdges = map (\<lambda>(t, s, d). NewEdge (\<lambda>k. k) t s d [])
     [(EdgeTypePodCallsPod, ''a/u1'', ''a/u2''), (EdgeTypePodToNode, ''a/u1'', ''a/n1''),
      (EdgeTypePodToNode, ''a/u3'', ''a/n1''), (EdgeTypePodMountsPVC, ''a/u1'', ''a/shop/d''),
      (EdgeTypePVCToNetAppAggr, ''a/shop/d'', ''netapp/f/aggr/g1''),
      (EdgeTypePodCallsPod, ''a/u2'', ''external/db'')]"

definition exGraph :: "nat Graph" where
  "exGraph = NewGraph exNodes exEdges 0"


lemma exGraph_wf: "wf_graph exGraph" unfolding exGraph_def by (rule NewGraph_wf)

lemma exGraph_typed: "typed_owners exGraph" by code_simp

section \<open>Properties\<close>

text \<open>
  C11: no edge of a view dangles: every edge of \<open>Project\<close>'s view joins two nodes of the view, and
  its cross-cluster status read off the view is the one read off the graph.
\<close>

theorem Project_edges_closed:
  assumes "wf_graph g" and "e \<in> set (view_Edges (Project (Some g) scope))"
  shows "(\<exists>a\<in>set (view_Nodes (Project (Some g) scope)). ID a = Source e)
    \<and> (\<exists>b\<in>set (view_Nodes (Project (Some g) scope)). ID b = Target e)
    \<and> isCrossCluster (NewGraph (view_Nodes (Project (Some g) scope))
           (view_Edges (Project (Some g) scope)) t) e = isCrossCluster g e"
  using graph_view.edges_closed [OF assms] graph_view.view_cross_cluster [OF assms] by auto

theorem Project_edges_closed_witness:
  "\<exists>a\<in>set (view_Nodes (Project (Some exGraph) (NewScope [] [''shop''] False))). ID a = ''a/u1''"
proof -
  let ?e = "NewEdge (\<lambda>k. k) EdgeTypePodToNode ''a/u1'' ''a/n1'' []"
  have "?e \<in> set (view_Edges (Project (Some exGraph) (NewScope [] [''shop''] False)))" by code_simp
  from Project_edges_closed [OF exGraph_wf this] show ?thesis by (simp add: NewEdge_def)
qed

text \<open>
  C1: the connectivity prune is sound: unless the inventory is requested, every pod of a view is
  an endpoint of a connectivity edge of the graph and every claim is mounted by such a pod.
\<close>

theorem Project_prune_sound:
  assumes "wf_graph g" and "typed_owners g" and "\<not> sc_Inventory scope"
    and "n \<in> set (view_Nodes (Project (Some g) scope))"
  shows "(Type n = NodeTypePod \<longrightarrow> connected g (ID n))
    \<and> (Type n = NodeTypePVC \<longrightarrow> mountedByConnected g (ID n))"
proof -
  have v: "viewSpec g scope (ID n) n" using assms(1,4) by (simp add: Project_nodes(1))
  have "\<not> excludedSpec g scope (ID n)" by (rule viewSpec_not_excluded [OF assms(1,2) v])
  with v assms(3) show ?thesis
    by (auto simp: excludedSpec_def viewSpec_def)
qed

theorem Project_prune_sound_witness: "connected exGraph ''a/u1''"
proof -
  have mem: "exPod ''u1'' ''shop'' \<in> set (view_Nodes (Project (Some exGraph) (NewScope [] [] False)))"
    by code_simp
  have inv: "\<not> sc_Inventory (NewScope [] [] False)" by (simp add: NewScope_def)
  have "connected exGraph (ID (exPod ''u1'' ''shop''))"
    using Project_prune_sound [OF exGraph_wf exGraph_typed inv mem] by (simp add: exPod_def)
  then show ?thesis by (simp add: exPod_def PodID_def)
qed

text \<open>
  C12: A namespace filter holds for every namespaced node of the view, re-added partners included.
\<close>

theorem Project_namespace_filter:
  assumes "wf_graph g" and "typed_owners g" and "sc_Namespaces scope \<noteq> []"
    and "n \<in> set (view_Nodes (Project (Some g) scope))"
    and "Type n \<in> {NodeTypePod, NodeTypePVC, NodeTypeService}"
  shows "label n ''namespace'' \<in> set (sc_Namespaces scope)"
proof -
  have v: "viewSpec g scope (ID n) n" using assms(1,4) by (simp add: Project_nodes(1))
  have ty: "Type n \<noteq> NodeTypeNetAppNode" using assms(5) by auto
  from viewSpec_cases [OF assms(1,2) v ty] show ?thesis
  proof
    assume "primarySpec g scope (ID n) n"
    then have "nodePassesFilters n scope (ClusterRawName (Some g))"
      using assms(5) by (auto simp: primarySpec_def directSpec_def aggrSpec_def)
    then show ?thesis using assms(3,5) by (auto simp: nodePassesFilters_def split: if_splits)
  next
    assume "readdable g scope (ID n) \<and> (\<exists>e\<in>set (Edges g). keepEdge g scope e
         \<and> (Source e = ID n \<or> Target e = ID n)
         \<and> (\<exists>m. primarySpec g scope (if Source e = ID n then Target e else Source e) m))"
    then have "nodePassesNonClusterFilters n scope" using v by (auto simp: readdable_def viewSpec_def)
    then show ?thesis using assms(3,5) by (auto simp: nodePassesNonClusterFilters_def split: if_splits)
  qed
qed

theorem Project_namespace_filter_witness:
  "label (exPod ''u1'' ''shop'') ''namespace'' \<in> set (sc_Namespaces (NewScope [] [''shop''] False))"
  by (rule Project_namespace_filter [OF exGraph_wf exGraph_typed])
    (code_simp, code_simp, code_simp)

text \<open>
  Under a cluster filter a node of the view that is not a NetApp node either belongs to a
  selected cluster or is the partner, over an edge of the view, of a primary node: a NetApp
  aggregate or controller, or a node of a selected cluster.
\<close>

theorem Project_cluster_filter:
  assumes "wf_graph g" and "typed_owners g" and "sc_Clusters scope \<noteq> []"
    and "n \<in> set (view_Nodes (Project (Some g) scope))"
    and "Type n \<notin> {NodeTypeNetAppAggr, NodeTypeNetAppNode}"
  shows "ClusterRawName (Some g) (label n ''cluster'') \<in> set (sc_Clusters scope)
    \<or> (\<exists>e\<in>set (view_Edges (Project (Some g) scope)). \<exists>m\<in>set (view_Nodes (Project (Some g) scope)).
         {Source e, Target e} = {ID n, ID m}
         \<and> (Type m \<in> {NodeTypeNetAppAggr, NodeTypeNetAppNode}
            \<or> ClusterRawName (Some g) (label m ''cluster'') \<in> set (sc_Clusters scope)))"
proof -
  have v: "viewSpec g scope (ID n) n" using assms(1,4) by (simp add: Project_nodes(1))
  have ty: "Type n \<noteq> NodeTypeNetAppNode" using assms(5) by auto
  have prim: "Type m \<in> {NodeTypeNetAppAggr, NodeTypeNetAppNode}
      \<or> ClusterRawName (Some g) (label m ''cluster'') \<in> set (sc_Clusters scope)"
    if "primarySpec g scope i m" for i m
    using that assms(3)
    by (auto simp: primarySpec_def directSpec_def aggrSpec_def nodePassesFilters_def
        infraNodePassesFilters_def split: if_splits)
  from viewSpec_cases [OF assms(1,2) v ty] show ?thesis
  proof
    assume "primarySpec g scope (ID n) n"
    from prim [OF this] assms(5) show ?thesis by simp
  next
    assume "readdable g scope (ID n) \<and> (\<exists>e\<in>set (Edges g). keepEdge g scope e
         \<and> (Source e = ID n \<or> Target e = ID n)
         \<and> (\<exists>m. primarySpec g scope (if Source e = ID n then Target e else Source e) m))"
    then obtain e m where e: "e \<in> set (Edges g)" "keepEdge g scope e" "Source e = ID n \<or> Target e = ID n"
      and m: "primarySpec g scope (if Source e = ID n then Target e else Source e) m" by blast
    have idm: "ID m = (if Source e = ID n then Target e else Source e)"
      using primarySpec_node [OF m] wf_graphD(3) [OF assms(1)] by simp
    have "viewSpec g scope (ID m) m"
      using m primarySpec_node [OF m] by (simp add: viewSpec_def partnerSpec_def idm)
    then have "m \<in> set (view_Nodes (Project (Some g) scope))"
      using assms(1) by (simp add: Project_nodes(1))
    moreover have "e \<in> set (view_Edges (Project (Some g) scope))"
      using e assms(1) by (simp add: Project_edges)
    moreover have "{Source e, Target e} = {ID n, ID m}" using e(3) idm by auto
    ultimately show ?thesis using prim [OF m] by blast
  qed
qed

theorem Project_cluster_filter_witness:
  "ClusterRawName (Some exGraph) (label (exPod ''u1'' ''shop'') ''cluster'') \<in> set (sc_Clusters (NewScope [''a''] [] False))
    \<or> (\<exists>e\<in>set (view_Edges (Project (Some exGraph) (NewScope [''a''] [] False))).
       \<exists>m\<in>set (view_Nodes (Project (Some exGraph) (NewScope [''a''] [] False))).
         {Source e, Target e} = {ID (exPod ''u1'' ''shop''), ID m}
         \<and> (Type m \<in> {NodeTypeNetAppAggr, NodeTypeNetAppNode}
            \<or> ClusterRawName (Some exGraph) (label m ''cluster'') \<in> set (sc_Clusters (NewScope [''a''] [] False))))"
  by (rule Project_cluster_filter [OF exGraph_wf exGraph_typed])
    (code_simp, code_simp, code_simp)

text \<open>
  Nothing admitted loses its chain: when a pod or claim that the filters admit has a
  pod-to-node, pod-mounts-pvc or pvc-to-netapp-aggr edge, that edge is in the view together with the
  Kubernetes node or aggregate it leads to, and an aggregate of the view brings its owning
  controller whenever the graph has it.
\<close>

theorem Project_keeps_chain:
  assumes "wf_graph g" and "directSpec g scope (Source e) n" and "e \<in> set (Edges g)"
    and "gm_get (NodesByID g) (Target e) = Some m"
    and "Type m \<in> {NodeTypeK8sNode, NodeTypeNetAppAggr}"
  shows "e \<in> set (view_Edges (Project (Some g) scope))
    \<and> n \<in> set (view_Nodes (Project (Some g) scope))
    \<and> m \<in> set (view_Nodes (Project (Some g) scope))
    \<and> (\<forall>c p. Type m = NodeTypeNetAppAggr \<and> ownerID m = Some c \<and> gm_get (NodesByID g) c = Some p
         \<longrightarrow> p \<in> set (view_Nodes (Project (Some g) scope)))"
proof (intro conjI allI impI)
  have n: "gm_get (NodesByID g) (Source e) = Some n" using assms(2) by (simp add: directSpec_def)
  have ids: "ID n = Source e" "ID m = Target e"
    using n assms(4) wf_graphD(3) [OF assms(1)] by auto
  have prim: "primarySpec g scope (Source e) n" using assms(2) by (simp add: primarySpec_def)
  have "readdable g scope (Target e)"
    using assms(4,5) by (auto simp: readdable_def excludedSpec_def nodePassesNonClusterFilters_def)
  with prim have keep: "keepEdge g scope e" by (auto simp: keepEdge_def Let_def)
  then show "e \<in> set (view_Edges (Project (Some g) scope))" using assms by (simp add: Project_edges)
  have pn: "partnerSpec g scope (Source e) n" and pm: "partnerSpec g scope (Target e) m"
    using n assms(3,4) keep by (auto simp: partnerSpec_def)
  show "n \<in> set (view_Nodes (Project (Some g) scope))"
    using pn n ids by (simp add: Project_nodes(1) [OF assms(1)] viewSpec_def)
  show "m \<in> set (view_Nodes (Project (Some g) scope))"
    using pm assms(4) ids by (simp add: Project_nodes(1) [OF assms(1)] viewSpec_def)
  fix c p
  assume c: "Type m = NodeTypeNetAppAggr \<and> ownerID m = Some c \<and> gm_get (NodesByID g) c = Some p"
  then have "ID p = c" using wf_graphD(3) [OF assms(1)] by blast
  with c pm show "p \<in> set (view_Nodes (Project (Some g) scope))"
    by (auto simp: Project_nodes(1) [OF assms(1)] viewSpec_def)
qed

theorem Project_keeps_chain_witness:
  "NewEdge (\<lambda>k. k) EdgeTypePodToNode ''a/u1'' ''a/n1'' []
     \<in> set (view_Edges (Project (Some exGraph) (NewScope [] [''shop''] True)))"
proof -
  let ?e = "NewEdge (\<lambda>k. k) EdgeTypePodToNode ''a/u1'' ''a/n1'' [] :: nat Edge"
  have "gm_get (NodesByID exGraph) ''a/u1'' = Some (exPod ''u1'' ''shop'')" by code_simp
  moreover have "nodePassesFilters (exPod ''u1'' ''shop'') (NewScope [] [''shop''] True) f" for f
    by (simp add: nodePassesFilters_def NewScope_def stringSet_def exPod_def gm_str_def)
  ultimately have "directSpec exGraph (NewScope [] [''shop''] True) (Source ?e) (exPod ''u1'' ''shop'')"
    by (simp add: directSpec_def excludedSpec_def NewEdge_def NewScope_def exPod_def)
  moreover have "?e \<in> set (Edges exGraph)" by code_simp
  moreover have "gm_get (NodesByID exGraph) (Target ?e) = Some (exNodes ! 3)" by code_simp
  moreover have "Type (exNodes ! 3) \<in> {NodeTypeK8sNode, NodeTypeNetAppAggr}" by code_simp
  ultimately show ?thesis by (rule Project_keeps_chain [OF exGraph_wf, THEN conjunct1])
qed

text \<open>
  Without a cluster filter every external node of the graph is in the view, whatever the
  namespace filter and whether or not an edge of the view reaches it.
\<close>

theorem Project_externals_admitted:
  assumes "wf_graph g" and "sc_Clusters scope = []"
    and "gm_get (NodesByID g) i = Some n" and "Type n = NodeTypeExternal"
  shows "n \<in> set (view_Nodes (Project (Some g) scope))"
proof -
  have "ID n = i" using assms wf_graphD(3) by blast
  moreover have "directSpec g scope i n"
    using assms by (simp add: directSpec_def excludedSpec_def nodePassesFilters_def)
  ultimately show ?thesis
    using assms(3) by (simp add: Project_nodes(1) [OF assms(1)] viewSpec_def partnerSpec_def primarySpec_def)
qed

theorem Project_externals_admitted_witness:
  "exNodes ! 7 \<in> set (view_Nodes (Project (Some exGraph) (NewScope [] [''shop''] False)))
   \<and> filter (\<lambda>e. Target e = ''external/db'')
       (view_Edges (Project (Some exGraph) (NewScope [] [''shop''] False))) = []"
proof
  have "gm_get (NodesByID exGraph) ''external/db'' = Some (exNodes ! 7)" by code_simp
  moreover have "Type (exNodes ! 7) = NodeTypeExternal" by code_simp
  moreover have "sc_Clusters (NewScope [] [''shop''] False) = []"
    by (simp add: NewScope_def stringSet_def)
  ultimately show "exNodes ! 7 \<in> set (view_Nodes (Project (Some exGraph) (NewScope [] [''shop''] False)))"
    by (intro Project_externals_admitted [OF exGraph_wf])
  show "filter (\<lambda>e. Target e = ''external/db'')
       (view_Edges (Project (Some exGraph) (NewScope [] [''shop''] False))) = []" by code_simp
qed

text \<open>
  C13: the view is a function of the graph's contents: neither the iteration order of the node map
  nor the order of the edge slice can change it, as long as edge ids are distinct.
\<close>

theorem Project_deterministic:
  assumes "wf_graph g" and "same_content g g'" and "distinct (map EdgeID (Edges g))"
  shows "Project (Some g) scope = Project (Some g') scope"
proof (rule View.equality)
  note same = same_contentD [OF assms(1,2)]
  note spec = spec_cong [OF same(1-3), of scope]
  have "map (\<lambda>n. ID n) (view_Nodes (Project (Some g) scope))
          = map (\<lambda>n. ID n) (view_Nodes (Project (Some g') scope))
        \<and> set (view_Nodes (Project (Some g) scope)) = set (view_Nodes (Project (Some g') scope))"
    using Project_nodes(1-3) [OF assms(1), where scope = scope]
      Project_nodes(1-3) [OF same(4), where scope = scope]
    by (intro conjI sorted_distinct_set_unique) (auto simp: spec)
  then show "view_Nodes (Project (Some g) scope) = view_Nodes (Project (Some g') scope)"
    using Project_nodes(2,3) [OF assms(1), where scope = scope]
    by (intro map_sorted_distinct_set_unique [where f = "\<lambda>n. ID n"])
      (auto simp: distinct_map)
  have "mset (filter (keepEdge g scope) (Edges g)) = mset (filter (keepEdge g scope) (Edges g'))"
    using assms(2) by (simp add: same_content_def mset_filter)
  then show "view_Edges (Project (Some g) scope) = view_Edges (Project (Some g') scope)"
    unfolding Project_nodes(4) [OF assms(1)] Project_nodes(4) [OF same(4)] spec(2)
    using assms(3) by (intro edge_sort.srt_order_free) (simp_all add: distinct_map_filter)
qed simp

theorem Project_deterministic_witness:
  "Project (Some exGraph) (NewScope [] [''shop''] False)
     = Project (Some (exGraph\<lparr>NodesByID := rev (NodesByID exGraph), Edges := rev (Edges exGraph)\<rparr>))
         (NewScope [] [''shop''] False)"
proof (rule Project_deterministic [OF exGraph_wf])
  show "same_content exGraph (exGraph\<lparr>NodesByID := rev (NodesByID exGraph), Edges := rev (Edges exGraph)\<rparr>)"
    by (simp add: same_content_def)
  show "distinct (map EdgeID (Edges exGraph))" by code_simp
qed

end
