(* ===== verification/StorageScope.thy ===== *)
theory StorageScope
  imports Projection
begin

text \<open>
  The root selection of the storage and Kubernetes views: \<open>pkg/graph/storagescope.go\<close>.

  A request names one root kind and its raw values. \<open>NewStorageScope\<close> parses them into sorted,
  duplicate-free references or fails; failures are the messages of the code's errors, as the left
  side of a sum. \<open>PodRef\<close>, \<open>ClaimRef\<close>, \<open>ONTAPRef\<close> and the unexported \<open>namespacedRef\<close>
  are pairs of strings compared field by field: one datatype with a \<open>linorder\<close> instance, so that
  the library's sorting applies to them.

  The lemmas show which values are accepted, that the parsed selection is canonical (independent of
  order, repetition and empty values), and that printing a reference and parsing it again is the
  identity.
\<close>

section \<open>References\<close>

datatype Ref = Ref (ref_Scope: string) (ref_Name: string)

type_synonym PodRef = Ref
type_synonym ClaimRef = Ref
type_synonym ONTAPRef = Ref

instantiation Ref :: linorder
begin

definition less_eq_Ref :: "Ref \<Rightarrow> Ref \<Rightarrow> bool" where
  "a \<le> b \<longleftrightarrow> (ref_Scope a, ref_Name a) \<le> (ref_Scope b, ref_Name b)"

definition less_Ref :: "Ref \<Rightarrow> Ref \<Rightarrow> bool" where
  "a < b \<longleftrightarrow> (ref_Scope a, ref_Name a) < (ref_Scope b, ref_Name b)"

instance
  by standard (auto simp: less_eq_Ref_def less_Ref_def Ref.expand)

end

definition RefString :: "Ref \<Rightarrow> string" where
  "RefString r = ref_Scope r @ ''/'' @ ref_Name r"

section \<open>Root kinds\<close>

type_synonym StorageRootKind = string

abbreviation StorageRootONTAPCluster :: StorageRootKind where "StorageRootONTAPCluster \<equiv> ''ontap_cluster''"
abbreviation StorageRootONTAPNode :: StorageRootKind where "StorageRootONTAPNode \<equiv> ''ontap_node''"
abbreviation StorageRootAggr :: StorageRootKind where "StorageRootAggr \<equiv> ''aggr''"
abbreviation StorageRootSVM :: StorageRootKind where "StorageRootSVM \<equiv> ''svm''"
abbreviation StorageRootNode :: StorageRootKind where "StorageRootNode \<equiv> ''node''"
abbreviation StorageRootPod :: StorageRootKind where "StorageRootPod \<equiv> ''pod''"
abbreviation StorageRootPVC :: StorageRootKind where "StorageRootPVC \<equiv> ''pvc''"
abbreviation StorageRootPV :: StorageRootKind where "StorageRootPV \<equiv> ''pv''"
abbreviation StorageRootApplication :: StorageRootKind where "StorageRootApplication \<equiv> ''application''"

definition StorageRootKinds :: "StorageRootKind list" where
  "StorageRootKinds = [StorageRootONTAPCluster, StorageRootONTAPNode, StorageRootAggr,
     StorageRootSVM, StorageRootNode, StorageRootPod, StorageRootPVC, StorageRootPV,
     StorageRootApplication]"

record StorageRoots =
  roots_Kind :: StorageRootKind
  roots_Names :: "string list"
  roots_Qualified :: "ONTAPRef list"
  roots_Pods :: "PodRef list"
  roots_Claims :: "ClaimRef list"

definition noRoots :: StorageRoots where
  "noRoots = \<lparr> roots_Kind = [], roots_Names = [], roots_Qualified = [], roots_Pods = [],
     roots_Claims = [] \<rparr>"

definition StorageRoots_Any :: "StorageRoots \<Rightarrow> bool" where
  "StorageRoots_Any r =
     (roots_Kind r \<noteq> [] \<and> (roots_Names r \<noteq> [] \<or> roots_Qualified r \<noteq> []
        \<or> roots_Pods r \<noteq> [] \<or> roots_Claims r \<noteq> []))"

record StorageScope =
  ss_Clusters :: "string list"
  ss_Namespaces :: "string list"
  ss_Roots :: StorageRoots

section \<open>Parsing\<close>

text \<open>The errors of the package; the message text is a function of the parameter and the value.\<close>

datatype ScopeError =
    ValuesRequireKind
  | UnknownRootKind string
  | InvalidRoot StorageRootKind string

definition parseRef :: "string \<Rightarrow> Ref option" where
  "parseRef v =
     (let (ns, name, ok) = Cut v CHR ''/'' in
      if \<not> ok \<or> ns = [] \<or> name = [] \<or> CHR ''/'' \<in> set name then None else Some (Ref ns name))"

fun namespacedRefs_loop ::
  "StorageRootKind \<Rightarrow> Ref set \<Rightarrow> Ref list \<Rightarrow> string list \<Rightarrow> ScopeError + Ref list" where
  "namespacedRefs_loop param seen out [] = Inr out"
| "namespacedRefs_loop param seen out (v # vs) =
     (case parseRef v of
        None \<Rightarrow> Inl (InvalidRoot param v)
      | Some ref \<Rightarrow>
          if ref \<in> seen then namespacedRefs_loop param seen out vs
          else namespacedRefs_loop param (insert ref seen) (out @ [ref]) vs)"

definition namespacedRefs :: "string list \<Rightarrow> StorageRootKind \<Rightarrow> ScopeError + Ref list" where
  "namespacedRefs vals param =
     (case namespacedRefs_loop param {} [] vals of
        Inl err \<Rightarrow> Inl err
      | Inr out \<Rightarrow> Inr (sort out))"

definition podRefs :: "string list \<Rightarrow> ScopeError + PodRef list" where
  "podRefs vals = namespacedRefs vals StorageRootPod"

definition claimRefs :: "string list \<Rightarrow> ScopeError + ClaimRef list" where
  "claimRefs vals = namespacedRefs vals StorageRootPVC"

fun ontapRoots_loop ::
  "StorageRootKind \<Rightarrow> string list \<Rightarrow> ONTAPRef list \<Rightarrow> string list
     \<Rightarrow> ScopeError + string list \<times> ONTAPRef list" where
  "ontapRoots_loop kind bare qualified [] = Inr (bare, qualified)"
| "ontapRoots_loop kind bare qualified (v # vs) =
     (if CHR ''/'' \<notin> set v then ontapRoots_loop kind (bare @ [v]) qualified vs
      else (case parseRef v of
              None \<Rightarrow> Inl (InvalidRoot kind v)
            | Some ref \<Rightarrow> ontapRoots_loop kind bare (qualified @ [ref]) vs))"

definition ontapRoots :: "StorageRootKind \<Rightarrow> string list \<Rightarrow> ScopeError + StorageRoots" where
  "ontapRoots kind vals =
     (case ontapRoots_loop kind [] [] vals of
        Inl err \<Rightarrow> Inl err
      | Inr (bare, qualified) \<Rightarrow>
          let bare = Compact (sort bare);
              qualified = Compact (sort qualified);
              qualified = filter (\<lambda>r. ref_Name r \<notin> set bare) qualified
          in Inr (noRoots\<lparr> roots_Kind := kind, roots_Names := bare, roots_Qualified := qualified \<rparr>))"

definition newStorageRoots :: "StorageRootKind \<Rightarrow> string list \<Rightarrow> ScopeError + StorageRoots" where
  "newStorageRoots kind vals =
     (if kind = [] then (if nonEmpty vals \<noteq> [] then Inl ValuesRequireKind else Inr noRoots)
      else if kind \<notin> set StorageRootKinds then Inl (UnknownRootKind kind)
      else (let kept = nonEmpty vals in
        if kept = [] then Inr noRoots
        else if kind = StorageRootPod then
          (case podRefs kept of
             Inl err \<Rightarrow> Inl err
           | Inr pods \<Rightarrow> Inr (noRoots\<lparr> roots_Kind := kind, roots_Pods := pods \<rparr>))
        else if kind = StorageRootPVC then
          (case claimRefs kept of
             Inl err \<Rightarrow> Inl err
           | Inr claims \<Rightarrow> Inr (noRoots\<lparr> roots_Kind := kind, roots_Claims := claims \<rparr>))
        else if kind = StorageRootAggr \<or> kind = StorageRootSVM then ontapRoots kind kept
        else Inr (noRoots\<lparr> roots_Kind := kind, roots_Names := Compact (sort kept) \<rparr>)))"

definition NewStorageScope ::
  "string list \<Rightarrow> string list \<Rightarrow> StorageRootKind \<Rightarrow> string list \<Rightarrow> ScopeError + StorageScope" where
  "NewStorageScope clusters namespaces kind vals =
     (case newStorageRoots kind vals of
        Inl err \<Rightarrow> Inl err
      | Inr roots \<Rightarrow> Inr \<lparr> ss_Clusters = stringSet clusters, ss_Namespaces = stringSet namespaces,
                          ss_Roots = roots \<rparr>)"

section \<open>What a single value parses to\<close>

definition ref_ok :: "Ref \<Rightarrow> bool" where
  "ref_ok r = (ref_Scope r \<noteq> [] \<and> ref_Name r \<noteq> [] \<and> CHR ''/'' \<notin> set (ref_Scope r)
     \<and> CHR ''/'' \<notin> set (ref_Name r))"

lemma parseRef_RefString: "ref_ok r \<Longrightarrow> parseRef (RefString r) = Some r"
  by (cases r) (simp add: ref_ok_def parseRef_def RefString_def Cut_split)

lemma parseRef_Some: "parseRef v = Some r \<longleftrightarrow> ref_ok r \<and> v = RefString r"
proof
  assume a: "parseRef v = Some r"
  obtain ns name ok where c: "Cut v CHR ''/'' = (ns, name, ok)" by (cases "Cut v CHR ''/''") auto
  with a have "ok" "ns \<noteq> []" "name \<noteq> []" "CHR ''/'' \<notin> set name" "r = Ref ns name"
    by (auto simp: parseRef_def split: if_splits)
  moreover have "v = ns @ CHR ''/'' # name" "CHR ''/'' \<notin> set ns"
    using Cut_True [of v "CHR ''/''" ns name] c \<open>ok\<close> by auto
  ultimately show "ref_ok r \<and> v = RefString r" by (simp add: ref_ok_def RefString_def)
qed (auto simp: parseRef_RefString)

lemma RefString_inj: "ref_ok a \<Longrightarrow> RefString a = RefString b \<Longrightarrow> ref_ok b \<Longrightarrow> a = b"
  using parseRef_RefString by (metis option.inject)

section \<open>The loops\<close>

text \<open>The reference set a list of vals denotes.\<close>

definition parsed :: "string list \<Rightarrow> Ref set" where
  "parsed vs = {r. \<exists>v\<in>set vs. parseRef v = Some r}"

lemma parsed_simps [simp]:
  "parsed [] = {}"
  "parsed (v # vs) = set_option (parseRef v) \<union> parsed vs"
  by (auto simp: parsed_def)

lemma finite_parsed [simp]: "finite (parsed vs)"
  by (induction vs) auto

lemma parsed_map_filter: "parsed vs = set (List.map_filter parseRef vs)"
  by (induction vs) (auto split: option.splits)

lemma namespacedRefs_loop_eq:
  "namespacedRefs_loop param (set out) out vs =
     (case find (\<lambda>v. parseRef v = None) vs of
        Some v \<Rightarrow> Inl (InvalidRoot param v)
      | None \<Rightarrow> Inr (out @ rev (fold (\<lambda>r acc. if r \<in> set out \<union> set acc then acc else r # acc)
                                  (List.map_filter parseRef vs) [])))"
proof -
  let ?step = "\<lambda>r acc. if r \<in> set out \<union> set acc then acc else r # acc"
  have "namespacedRefs_loop param (set out \<union> set acc) (out @ rev acc) vs =
     (case find (\<lambda>v. parseRef v = None) vs of
        Some v \<Rightarrow> Inl (InvalidRoot param v)
      | None \<Rightarrow> Inr (out @ rev (fold ?step (List.map_filter parseRef vs) acc)))" for acc
  proof (induction vs arbitrary: acc)
    case (Cons v vs)
    show ?case
    proof (cases "parseRef v")
      case (Some r)
      then show ?thesis
        using Cons [of acc] Cons [of "r # acc"] by (simp split: option.split)
    qed simp
  qed simp
  from this [of "[]"] show ?thesis by simp
qed

lemma fold_dedup:
  "distinct acc \<Longrightarrow>
   distinct (fold (\<lambda>r acc. if r \<in> set acc then acc else r # acc) rs acc)
   \<and> set (fold (\<lambda>r acc. if r \<in> set acc then acc else r # acc) rs acc) = set acc \<union> set rs"
  by (induction rs arbitrary: acc) (auto simp: insert_absorb)

lemma sort_distinct_unique:
  "distinct xs \<Longrightarrow> sort xs = sorted_list_of_set (set xs)"
  by (metis sorted_list_of_set_sort_remdups distinct_remdups_id)

lemma namespacedRefs_eq:
  "namespacedRefs vals param =
     (case find (\<lambda>v. parseRef v = None) vals of
        Some v \<Rightarrow> Inl (InvalidRoot param v)
      | None \<Rightarrow> Inr (sorted_list_of_set (parsed vals)))"
proof -
  let ?res = "fold (\<lambda>r acc. if r \<in> set acc then acc else r # acc) (List.map_filter parseRef vals) []"
  have "distinct (rev ?res)" "set (rev ?res) = parsed vals"
    using fold_dedup [of "[]" "List.map_filter parseRef vals"] by (auto simp: parsed_map_filter)
  then have "sort (rev ?res) = sorted_list_of_set (parsed vals)"
    using sort_distinct_unique [of "rev ?res"] by (simp del: sorted_list_of_set_sort_remdups)
  then show ?thesis
    using namespacedRefs_loop_eq [of param "[]" vals]
    by (simp add: namespacedRefs_def split: option.splits)
qed

lemma ontapRoots_loop_eq:
  "ontapRoots_loop kind bare qualified vs =
     (case find (\<lambda>v. CHR ''/'' \<in> set v \<and> parseRef v = None) vs of
        Some v \<Rightarrow> Inl (InvalidRoot kind v)
      | None \<Rightarrow> Inr (bare @ filter (\<lambda>v. CHR ''/'' \<notin> set v) vs,
                    qualified @ List.map_filter parseRef vs))"
proof (induction vs arbitrary: bare "qualified")
  case (Cons v vs)
  have none: "CHR ''/'' \<notin> set v \<Longrightarrow> parseRef v = None"
    by (simp add: parseRef_def Cut_none)
  show ?case
  proof (cases "CHR ''/'' \<in> set v")
    case True
    then show ?thesis using Cons [of bare "qualified @ [the (parseRef v)]"]
      by (cases "parseRef v") (simp_all split: option.split)
  next
    case False
    then show ?thesis using Cons [of "bare @ [v]" "qualified"] none
      by (simp split: option.split)
  qed
qed simp

lemma ontapRoots_eq:
  "ontapRoots kind vals =
     (case find (\<lambda>v. CHR ''/'' \<in> set v \<and> parseRef v = None) vals of
        Some v \<Rightarrow> Inl (InvalidRoot kind v)
      | None \<Rightarrow>
          let bare = {v \<in> set vals. CHR ''/'' \<notin> set v} in
          Inr (noRoots\<lparr> roots_Kind := kind, roots_Names := sorted_list_of_set bare,
            roots_Qualified := filter (\<lambda>r. ref_Name r \<notin> bare) (sorted_list_of_set (parsed vals)) \<rparr>))"
proof -
  have "set (Compact (sort (filter (\<lambda>v. CHR ''/'' \<notin> set v) vals))) = {v \<in> set vals. CHR ''/'' \<notin> set v}"
    by auto
  then show ?thesis
    by (simp add: ontapRoots_def ontapRoots_loop_eq Compact_sort_set parsed_map_filter Let_def
        split: option.splits)
qed

section \<open>Root selection as a function of the set of values\<close>

text \<open>A value is malformed for a kind: a namespaced kind needs a reference, an ONTAP kind with a slash too.\<close>

definition malformed :: "StorageRootKind \<Rightarrow> string \<Rightarrow> bool" where
  "malformed kind v =
     ((kind \<in> {StorageRootPod, StorageRootPVC} \<or>
       kind \<in> {StorageRootAggr, StorageRootSVM} \<and> CHR ''/'' \<in> set v)
      \<and> \<not> (\<exists>r. ref_ok r \<and> v = RefString r))"

definition rootsOf :: "StorageRootKind \<Rightarrow> string set \<Rightarrow> StorageRoots" where
  "rootsOf kind V =
     (let refs = {r. ref_ok r \<and> RefString r \<in> V};
          bare = {v \<in> V. CHR ''/'' \<notin> set v} in
      if kind = [] \<or> V = {} then noRoots
      else if kind = StorageRootPod then
        noRoots\<lparr> roots_Kind := kind, roots_Pods := sorted_list_of_set refs \<rparr>
      else if kind = StorageRootPVC then
        noRoots\<lparr> roots_Kind := kind, roots_Claims := sorted_list_of_set refs \<rparr>
      else if kind = StorageRootAggr \<or> kind = StorageRootSVM then
        noRoots\<lparr> roots_Kind := kind, roots_Names := sorted_list_of_set bare,
          roots_Qualified := sorted_list_of_set {r \<in> refs. ref_Name r \<notin> bare} \<rparr>
      else noRoots\<lparr> roots_Kind := kind, roots_Names := sorted_list_of_set V \<rparr>)"

lemma parsed_refs: "parsed vs = {r. ref_ok r \<and> RefString r \<in> set vs}"
  by (auto simp: parsed_def parseRef_Some)

lemma malformed_pod: "kind \<in> {StorageRootPod, StorageRootPVC} \<Longrightarrow> malformed kind v = (parseRef v = None)"
  by (metis malformed_def parseRef_Some option.exhaust option.distinct(1))

lemma malformed_ontap:
  "kind \<in> {StorageRootAggr, StorageRootSVM}
    \<Longrightarrow> malformed kind v = (CHR ''/'' \<in> set v \<and> parseRef v = None)"
proof -
  assume k: "kind \<in> {StorageRootAggr, StorageRootSVM}"
  then have "kind \<notin> {StorageRootPod, StorageRootPVC}" by auto
  with k show ?thesis
    unfolding malformed_def by (metis parseRef_Some option.exhaust option.distinct(1))
qed

lemma malformed_other:
  "kind \<notin> {StorageRootPod, StorageRootPVC, StorageRootAggr, StorageRootSVM} \<Longrightarrow> \<not> malformed kind v"
  by (simp add: malformed_def)

lemma filter_sorted_set:
  "finite A \<Longrightarrow> filter P (sorted_list_of_set A) = sorted_list_of_set {x \<in> A. P x}"
  by (rule sorted_distinct_set_unique) (auto simp: sorted_wrt_filter)

text \<open>
  The parser in one equation: the kind is checked first, then the first malformed value is reported,
  and otherwise the selection depends on the set of non-empty values only.
\<close>

lemma newStorageRoots_eq:
  "newStorageRoots kind vals =
     (if kind = [] \<and> nonEmpty vals \<noteq> [] then Inl ValuesRequireKind
      else if kind \<noteq> [] \<and> kind \<notin> set StorageRootKinds then Inl (UnknownRootKind kind)
      else case find (malformed kind) (nonEmpty vals) of
        Some v \<Rightarrow> Inl (InvalidRoot kind v)
      | None \<Rightarrow> Inr (rootsOf kind (set (nonEmpty vals))))"
proof -
  let ?V = "nonEmpty vals"
  consider "kind = []" | "kind \<noteq> []" "kind \<notin> set StorageRootKinds" | "kind \<in> set StorageRootKinds" "?V = []"
    | "?V \<noteq> []" "kind = StorageRootPod" | "?V \<noteq> []" "kind = StorageRootPVC"
    | "?V \<noteq> []" "kind \<in> {StorageRootAggr, StorageRootSVM}" "kind \<in> set StorageRootKinds"
    | "?V \<noteq> []" "kind \<in> set StorageRootKinds"
      "kind \<notin> {StorageRootPod, StorageRootPVC, StorageRootAggr, StorageRootSVM}"
    by blast
  then show ?thesis
  proof cases
    case 4
    have "find (malformed kind) ?V = find (\<lambda>v. parseRef v = None) ?V"
      using malformed_pod [of kind] 4 by (intro find_cong) auto
    with 4 show ?thesis
      by (simp add: newStorageRoots_def rootsOf_def podRefs_def namespacedRefs_eq parsed_refs
          StorageRootKinds_def split: option.splits)
  next
    case 5
    have "find (malformed kind) ?V = find (\<lambda>v. parseRef v = None) ?V"
      using malformed_pod [of kind] 5 by (intro find_cong) auto
    with 5 show ?thesis
      by (simp add: newStorageRoots_def rootsOf_def claimRefs_def namespacedRefs_eq parsed_refs
          StorageRootKinds_def split: option.splits)
  next
    case 6
    have m: "find (malformed kind) ?V = find (\<lambda>v. CHR ''/'' \<in> set v \<and> parseRef v = None) ?V"
      using malformed_ontap [of kind] 6 by (intro find_cong) auto
    have "newStorageRoots kind vals = ontapRoots kind ?V" "kind \<noteq> []"
      using 6 by (auto simp: newStorageRoots_def StorageRootKinds_def)
    moreover have "rootsOf kind (set ?V) = noRoots\<lparr> roots_Kind := kind,
        roots_Names := sorted_list_of_set {v \<in> set ?V. CHR ''/'' \<notin> set v},
        roots_Qualified := sorted_list_of_set {r \<in> parsed ?V. ref_Name r \<notin> {v \<in> set ?V. CHR ''/'' \<notin> set v}} \<rparr>"
      using 6 by (auto simp: rootsOf_def parsed_refs)
    ultimately show ?thesis using 6 m
      by (simp add: ontapRoots_eq filter_sorted_set Let_def split: option.splits)
  next
    case 7
    have "kind \<noteq> []" using 7 by (auto simp: StorageRootKinds_def)
    moreover have "find (malformed kind) ?V = None"
      using 7 malformed_other [of kind] by (simp add: find_None_iff)
    ultimately show ?thesis
      using 7 by (simp add: newStorageRoots_def rootsOf_def Compact_sort_set)
  qed (auto simp: newStorageRoots_def rootsOf_def StorageRootKinds_def)
qed

definition rootValues :: "StorageRoots \<Rightarrow> string list" where
  "rootValues r = roots_Names r @ map RefString (roots_Qualified r @ roots_Pods r @ roots_Claims r)"

text \<open>An ONTAP value the selection does not keep: its name is asked for on every filer already.\<close>

definition subsumed :: "string set \<Rightarrow> string \<Rightarrow> bool" where
  "subsumed V v = (\<exists>r. ref_ok r \<and> v = RefString r \<and> ref_Name r \<in> V)"

lemma finite_refs: "finite V \<Longrightarrow> finite {r. ref_ok r \<and> RefString r \<in> V}"
  using finite_parsed [of "sorted_list_of_set V"] by (simp add: parsed_refs)

lemma RefString_slash: "CHR ''/'' \<in> set (RefString r)"
  by (simp add: RefString_def)

lemma RefString_not_Nil [simp]: "RefString r \<noteq> []" "[] \<noteq> RefString r"
  by (simp_all add: RefString_def)

lemma set_nonEmpty: "set (nonEmpty vs) = set vs - {[]}"
  by (auto simp: nonEmpty_def)

text \<open>The values a parsed selection prints, kind by kind.\<close>

lemma rootValues_rootsOf:
  assumes V: "finite V" and ok: "\<forall>v\<in>V. \<not> malformed kind v"
    and kind: "kind \<noteq> []"
  shows "set (rootValues (rootsOf kind V)) =
     {v \<in> V. \<not> (kind \<in> {StorageRootAggr, StorageRootSVM} \<and> subsumed V v)}"
proof -
  note fin = finite_refs [OF V]
  consider "V = {}" | "V \<noteq> {}" "kind \<in> {StorageRootPod, StorageRootPVC}"
    | "V \<noteq> {}" "kind \<in> {StorageRootAggr, StorageRootSVM}"
    | "V \<noteq> {}" "kind \<notin> {StorageRootPod, StorageRootPVC, StorageRootAggr, StorageRootSVM}" by blast
  then show ?thesis
  proof cases
    case 2
    then have "V = RefString ` {r. ref_ok r \<and> RefString r \<in> V}"
      using ok by (auto simp: malformed_def)
    moreover have "set (rootValues (rootsOf kind V)) = RefString ` {r. ref_ok r \<and> RefString r \<in> V}"
      using 2 fin kind by (auto simp: rootsOf_def rootValues_def noRoots_def Let_def)
    moreover have "kind \<notin> {StorageRootAggr, StorageRootSVM}" using 2 by auto
    ultimately show ?thesis by auto
  next
    case 3
    let ?refs = "{r. ref_ok r \<and> RefString r \<in> V}" and ?bare = "{v \<in> V. CHR ''/'' \<notin> set v}"
    have "rootsOf kind V = noRoots\<lparr> roots_Kind := kind, roots_Names := sorted_list_of_set ?bare,
        roots_Qualified := sorted_list_of_set {r \<in> ?refs. ref_Name r \<notin> ?bare} \<rparr>"
      using 3 kind by (elim insertE emptyE; simp add: rootsOf_def Let_def)
    moreover have "{r \<in> ?refs. ref_Name r \<notin> ?bare} = {r \<in> ?refs. ref_Name r \<notin> V}"
      by (rule Collect_cong) (auto simp: ref_ok_def)
    ultimately have "set (rootValues (rootsOf kind V)) = ?bare \<union> RefString ` {r \<in> ?refs. ref_Name r \<notin> V}"
      using V rev_finite_subset [OF fin, of "{r \<in> ?refs. ref_Name r \<notin> V}"]
      by (simp add: rootValues_def noRoots_def image_Un Collect_mono_iff)
    moreover have "?bare \<union> RefString ` {r \<in> ?refs. ref_Name r \<notin> V} = {v \<in> V. \<not> subsumed V v}"
    proof (intro set_eqI)
      fix v
      have sub: "subsumed V (RefString r) \<longleftrightarrow> ref_Name r \<in> V" if "ref_ok r" for r
        using that by (auto simp: subsumed_def dest: RefString_inj [OF that])
      show "v \<in> ?bare \<union> RefString ` {r \<in> ?refs. ref_Name r \<notin> V} \<longleftrightarrow> v \<in> {v \<in> V. \<not> subsumed V v}"
      proof (cases "v \<in> V \<and> CHR ''/'' \<in> set v")
        case True
        then obtain r where "ref_ok r" "v = RefString r" using ok 3 by (auto simp: malformed_def)
        then show ?thesis using True sub by (auto dest: RefString_inj [OF \<open>ref_ok r\<close>])
      qed (auto simp: subsumed_def RefString_slash)
    qed
    ultimately show ?thesis using 3 by simp
  qed (use V kind in \<open>auto simp: rootsOf_def rootValues_def noRoots_def\<close>)
qed

lemma newStorageRoots_Inr:
  assumes "newStorageRoots kind vals = Inr r"
  shows "r = rootsOf kind (set (nonEmpty vals))" and "\<forall>v\<in>set (nonEmpty vals). \<not> malformed kind v"
    and "kind = [] \<Longrightarrow> nonEmpty vals = []" and "kind \<noteq> [] \<Longrightarrow> kind \<in> set StorageRootKinds"
  using assms by (auto simp: newStorageRoots_eq find_None_iff split: if_splits option.splits)

text \<open>Dropping subsumed ONTAP values changes nothing.\<close>

lemma rootsOf_subsumed:
  assumes "kind \<in> {StorageRootAggr, StorageRootSVM}"
  shows "rootsOf kind {v \<in> V. \<not> subsumed V v} = rootsOf kind V"
proof -
  let ?V = "{v \<in> V. \<not> subsumed V v}"
  have bare: "v \<in> ?V \<longleftrightarrow> v \<in> V" if "CHR ''/'' \<notin> set v" for v
    using that by (auto simp: subsumed_def RefString_slash)
  have sub: "subsumed V (RefString r) \<longleftrightarrow> ref_Name r \<in> V" if "ref_ok r" for r
    using that by (auto simp: subsumed_def dest: RefString_inj [OF that])
  have b: "{v \<in> ?V. CHR ''/'' \<notin> set v} = {v \<in> V. CHR ''/'' \<notin> set v}"
    using bare by blast
  have q: "{r. (ref_ok r \<and> RefString r \<in> ?V) \<and> ref_Name r \<notin> {v \<in> ?V. CHR ''/'' \<notin> set v}}
      = {r. (ref_ok r \<and> RefString r \<in> V) \<and> ref_Name r \<notin> {v \<in> V. CHR ''/'' \<notin> set v}}"
    unfolding b by (rule Collect_cong) (auto simp: sub ref_ok_def)
  have "?V = {} \<longleftrightarrow> V = {}"
  proof
    assume "?V = {}"
    show "V = {}"
    proof (rule ccontr)
      assume "V \<noteq> {}"
      with \<open>?V = {}\<close> obtain r where "ref_ok r" "ref_Name r \<in> V" by (auto simp: subsumed_def)
      then have "ref_Name r \<in> ?V" using bare [of "ref_Name r"] by (simp add: ref_ok_def)
      with \<open>?V = {}\<close> show False by blast
    qed
  qed auto
  then show ?thesis
    using assms q b by (elim insertE emptyE; simp add: rootsOf_def Let_def)
qed

section \<open>Properties\<close>

text \<open>
  Which requests the root parser rejects, and with what: values without a kind, an unknown kind,
  or, naming it, the first value that is not a reference \<open>a/b\<close> with two non-empty slash-free parts
  (pod and pvc kinds), or that holds a slash without being one (aggr and svm kinds). Nothing else is
  rejected.
\<close>

theorem newStorageRoots_rejects:
  "(newStorageRoots kind vals = Inl err) \<longleftrightarrow>
     (kind = [] \<and> (\<exists>v\<in>set vals. v \<noteq> []) \<and> err = ValuesRequireKind) \<or>
     (kind \<noteq> [] \<and> kind \<notin> set StorageRootKinds \<and> err = UnknownRootKind kind) \<or>
     (kind \<in> set StorageRootKinds \<and>
       (\<exists>pre v post. vals = pre @ v # post \<and> v \<noteq> [] \<and> malformed kind v
          \<and> (\<forall>u\<in>set pre. u = [] \<or> \<not> malformed kind u) \<and> err = InvalidRoot kind v))"
  (is "?L \<longleftrightarrow> ?R")
proof -
  have "find (malformed kind) (nonEmpty vs) = Some v \<longleftrightarrow>
      (\<exists>pre post. vs = pre @ v # post \<and> v \<noteq> [] \<and> malformed kind v
          \<and> (\<forall>u\<in>set pre. u = [] \<or> \<not> malformed kind u))" for v vs
  proof -
    have "find (malformed kind) (nonEmpty vs) = find (\<lambda>v. v \<noteq> [] \<and> malformed kind v) vs"
      by (induction vs) (auto simp: nonEmpty_def)
    then show ?thesis by (auto simp: find_Some_split)
  qed
  note first = this
  have kinds: "[] \<notin> set StorageRootKinds" by (simp add: StorageRootKinds_def)
  have ne: "(\<exists>v\<in>set vals. v \<noteq> []) \<longleftrightarrow> nonEmpty vals \<noteq> []"
    by (auto simp: nonEmpty_def filter_empty_conv)
  show ?thesis
  proof (cases "kind \<in> set StorageRootKinds")
    case True
    then have "newStorageRoots kind vals = Inl err \<longleftrightarrow>
        (\<exists>v. find (malformed kind) (nonEmpty vals) = Some v \<and> err = InvalidRoot kind v)"
      using kinds by (auto simp: newStorageRoots_eq split: option.splits if_splits)
    also have "\<dots> \<longleftrightarrow> ?R" using True kinds unfolding first by blast
    finally show ?thesis .
  next
    case False
    then show ?thesis
      unfolding ne by (cases "nonEmpty vals = []") (auto simp: newStorageRoots_eq)
  qed
qed

theorem newStorageRoots_rejects_witness:
  "newStorageRoots ''pod'' [''shop/a'', [], ''orders'', ''x''] = Inl (InvalidRoot ''pod'' ''orders'')"
proof -
  have "[''shop/a'', [], ''orders'', ''x''] = [''shop/a'', []] @ ''orders'' # [''x'']" by simp
  moreover have "parseRef ''orders'' = None" "parseRef ''shop/a'' \<noteq> None" by code_simp+
  then have "malformed ''pod'' ''orders''" "\<not> malformed ''pod'' ''shop/a''"
    using malformed_pod [of "''pod''"] by auto
  moreover have "''pod'' \<in> set StorageRootKinds" by code_simp
  ultimately show ?thesis
    unfolding newStorageRoots_rejects by (intro disjI2 conjI exI [of _ "[''shop/a'', []]"]) auto
qed

text \<open>
  The selection is canonical. Reordering the values, repeating them or adding empty ones neither
  changes whether a request is accepted nor what it selects, so \<open>?aggr=a&aggr=a&aggr=\<close> and
  \<open>?aggr=a\<close> are indistinguishable; every list of the selection is sorted and duplicate-free.
\<close>

theorem NewStorageScope_canonical:
  assumes "set vals - {[]} = set vals' - {[]}"
  shows "isl (NewStorageScope cs ns kind vals) = isl (NewStorageScope cs ns kind vals') \<and>
    (\<forall>s. NewStorageScope cs ns kind vals = Inr s \<longrightarrow>
       NewStorageScope cs ns kind vals' = Inr s \<and>
       sorted_wrt (<) (roots_Names (ss_Roots s)) \<and> sorted_wrt (<) (roots_Qualified (ss_Roots s)) \<and>
       sorted_wrt (<) (roots_Pods (ss_Roots s)) \<and> sorted_wrt (<) (roots_Claims (ss_Roots s)))"
proof -
  have V: "set (nonEmpty vals) = set (nonEmpty vals')" using assms by (simp add: set_nonEmpty)
  have ne: "(nonEmpty vals = []) = (nonEmpty vals' = [])" using V by (metis set_empty)
  have none: "find (malformed kind) (nonEmpty vals) = None
      \<longleftrightarrow> find (malformed kind) (nonEmpty vals') = None" by (simp add: find_None_iff V)
  have isl: "isl (newStorageRoots kind vals) = isl (newStorageRoots kind vals')"
    using none ne by (auto simp: newStorageRoots_eq split: option.splits)
  have eq: "newStorageRoots kind vals' = Inr r" if "newStorageRoots kind vals = Inr r" for r
    using newStorageRoots_Inr [OF that] isl that
    by (cases "newStorageRoots kind vals'") (auto dest: newStorageRoots_Inr simp: V)
  have "sorted_wrt (<) (roots_Names (rootsOf kind W)) \<and> sorted_wrt (<) (roots_Qualified (rootsOf kind W))
      \<and> sorted_wrt (<) (roots_Pods (rootsOf kind W)) \<and> sorted_wrt (<) (roots_Claims (rootsOf kind W))" for W
    by (simp add: rootsOf_def noRoots_def Let_def)
  then show ?thesis
    using isl eq by (auto simp: NewStorageScope_def dest: newStorageRoots_Inr split: sum.splits)
qed

theorem NewStorageScope_canonical_witness:
  "NewStorageScope [] [] ''aggr'' [''b'', ''f1/a'', [], ''b'', ''a''] =
   NewStorageScope [] [] ''aggr'' [''a'', ''b'', ''f1/a'']"
proof -
  have "NewStorageScope [] [] ''aggr'' [''b'', ''f1/a'', [], ''b'', ''a''] =
      Inr \<lparr> ss_Clusters = [], ss_Namespaces = [],
            ss_Roots = noRoots\<lparr> roots_Kind := ''aggr'', roots_Names := [''a'', ''b''] \<rparr> \<rparr>"
    by code_simp
  moreover have "set [''b'', ''f1/a'', [], ''b'', ''a''] - {[]} = set [''a'', ''b'', ''f1/a''] - {[]}"
    by auto
  from NewStorageScope_canonical [OF this, THEN conjunct2]
  have "\<forall>s. NewStorageScope [] [] ''aggr'' [''b'', ''f1/a'', [], ''b'', ''a''] = Inr s \<longrightarrow>
      NewStorageScope [] [] ''aggr'' [''a'', ''b'', ''f1/a''] = Inr s" by blast
  ultimately show ?thesis by simp
qed

text \<open>
  C34: printing an accepted selection and parsing it again gives it back; what it prints are the
  non-empty values of the request, except an \<open>aggr\<close> or \<open>svm\<close> value \<open>filer/name\<close> whose bare
  \<open>name\<close> is requested too.
\<close>

theorem newStorageRoots_roundtrip:
  assumes "newStorageRoots kind vals = Inr r"
  shows "set (rootValues r) = {v \<in> set vals. v \<noteq> [] \<and>
           \<not> (kind \<in> {StorageRootAggr, StorageRootSVM} \<and> subsumed (set vals) v)}
    \<and> newStorageRoots kind (rootValues r) = Inr r"
proof (cases "kind = []")
  case True
  then show ?thesis
    using newStorageRoots_Inr [OF assms]
    by (auto simp: rootsOf_def rootValues_def noRoots_def newStorageRoots_def nonEmpty_def filter_empty_conv)
next
  case False
  note r = newStorageRoots_Inr [OF assms]
  let ?V = "set (nonEmpty vals)"
  have sub: "subsumed (set vals) v = subsumed ?V v" for v
    by (auto simp: subsumed_def set_nonEmpty ref_ok_def)
  have vals: "set (rootValues r) = {v \<in> ?V. \<not> (kind \<in> {StorageRootAggr, StorageRootSVM} \<and> subsumed ?V v)}"
    using rootValues_rootsOf [of ?V kind] r False by simp
  then have V: "set (nonEmpty (rootValues r)) = set (rootValues r)" by (auto simp: set_nonEmpty)
  have "find (malformed kind) (nonEmpty (rootValues r)) = None"
    using r(2) vals V by (auto simp: find_None_iff)
  moreover have "rootsOf kind (set (rootValues r)) = r"
  proof (cases "kind \<in> {StorageRootAggr, StorageRootSVM}")
    case True
    then have "set (rootValues r) = {v \<in> ?V. \<not> subsumed ?V v}" using vals by simp
    then show ?thesis using rootsOf_subsumed [OF True] r(1) by simp
  next
    case False
    then show ?thesis using vals r(1) by simp
  qed
  ultimately have "newStorageRoots kind (rootValues r) = Inr r"
    using False r(4) V by (simp add: newStorageRoots_eq)
  moreover have "set (rootValues r) = {v \<in> set vals. v \<noteq> [] \<and>
           \<not> (kind \<in> {StorageRootAggr, StorageRootSVM} \<and> subsumed (set vals) v)}"
    unfolding vals sub by (auto simp: set_nonEmpty)
  ultimately show ?thesis by blast
qed

theorem newStorageRoots_roundtrip_witness:
  "newStorageRoots ''pod'' (rootValues (noRoots\<lparr> roots_Kind := ''pod'',
     roots_Pods := [Ref ''shop'' ''a'', Ref ''shop'' ''b''] \<rparr>)) =
   Inr (noRoots\<lparr> roots_Kind := ''pod'', roots_Pods := [Ref ''shop'' ''a'', Ref ''shop'' ''b''] \<rparr>)"
proof -
  have "newStorageRoots ''pod'' [''shop/b'', ''shop/a'', ''shop/b''] =
      Inr (noRoots\<lparr> roots_Kind := ''pod'', roots_Pods := [Ref ''shop'' ''a'', Ref ''shop'' ''b''] \<rparr>)"
    by code_simp
  then show ?thesis by (rule newStorageRoots_roundtrip [THEN conjunct2])
qed

end
