(* ===== verification/Utf8.thy ===== *)
theory Utf8
  imports Prelude
begin

text \<open>
  Text validation shared by the request parser, the label query and the configuration: Go's
  \<open>utf8.ValidString\<close>, the runes a \<open>range\<close> loop over a string visits, and \<open>unicode.IsControl\<close>.

  \<open>runes\<close> decodes a byte string; \<open>None\<close> is what \<open>utf8.ValidString\<close> rejects (overlong forms,
  surrogates, values past U+10FFFF, truncated sequences). The lemma the clients use is that text without
  control runes has no control byte, line breaks included.
\<close>

definition byteAt :: "char \<Rightarrow> nat" where
  "byteAt c = of_char c"

definition isCont :: "char \<Rightarrow> bool" where
  "isCont c = (0x80 \<le> byteAt c \<and> byteAt c \<le> 0xBF)"

text \<open>The range of the second byte, which excludes overlong forms and surrogates.\<close>

definition acceptRange :: "nat \<Rightarrow> nat \<times> nat" where
  "acceptRange b0 =
     (if b0 = 0xE0 then (0xA0, 0xBF)
      else if b0 = 0xED then (0x80, 0x9F)
      else if b0 = 0xF0 then (0x90, 0xBF)
      else if b0 = 0xF4 then (0x80, 0x8F)
      else (0x80, 0xBF))"

definition inRange :: "nat \<times> nat \<Rightarrow> char \<Rightarrow> bool" where
  "inRange r c = (fst r \<le> byteAt c \<and> byteAt c \<le> snd r)"

fun runes :: "string \<Rightarrow> nat list option" where
  "runes [] = Some []"
| "runes (c0 # s) =
     (let b0 = byteAt c0 in
      if b0 < 0x80 then map_option (Cons b0) (runes s)
      else if 0xC2 \<le> b0 \<and> b0 \<le> 0xDF then
        (case s of
           c1 # s' \<Rightarrow> if isCont c1 then map_option (Cons ((b0 - 0xC0) * 64 + (byteAt c1 - 0x80))) (runes s') else None
         | [] \<Rightarrow> None)
      else if 0xE0 \<le> b0 \<and> b0 \<le> 0xEF then
        (case s of
           c1 # c2 # s' \<Rightarrow>
             if inRange (acceptRange b0) c1 \<and> isCont c2
             then map_option (Cons ((b0 - 0xE0) * 4096 + (byteAt c1 - 0x80) * 64 + (byteAt c2 - 0x80))) (runes s')
             else None
         | _ \<Rightarrow> None)
      else if 0xF0 \<le> b0 \<and> b0 \<le> 0xF4 then
        (case s of
           c1 # c2 # c3 # s' \<Rightarrow>
             if inRange (acceptRange b0) c1 \<and> isCont c2 \<and> isCont c3
             then map_option (Cons ((b0 - 0xF0) * 262144 + (byteAt c1 - 0x80) * 4096
                    + (byteAt c2 - 0x80) * 64 + (byteAt c3 - 0x80))) (runes s')
             else None
         | _ \<Rightarrow> None)
      else None)"

definition ValidString :: "string \<Rightarrow> bool" where
  "ValidString s = (runes s \<noteq> None)"

text \<open>\<open>unicode.IsControl\<close>: the category Cc.\<close>

definition IsControl :: "nat \<Rightarrow> bool" where
  "IsControl r = (r \<le> 0x1F \<or> 0x7F \<le> r \<and> r \<le> 0x9F)"

definition hasControl :: "string \<Rightarrow> bool" where
  "hasControl s = (case runes s of None \<Rightarrow> False | Some rs \<Rightarrow> list_ex IsControl rs)"

lemma runes_bytes:
  "runes s = Some rs \<Longrightarrow> c \<in> set s \<Longrightarrow> byteAt c < 0x80 \<Longrightarrow> byteAt c \<in> set rs"
proof (induction s arbitrary: rs rule: runes.induct)
  case (2 c0 s)
  show ?case
    using "2.prems" "2.IH"
    by (fastforce simp: Let_def isCont_def inRange_def acceptRange_def split: if_splits list.splits)
qed simp

text \<open>Valid text without control runes has no control byte.\<close>

lemma no_control_byte:
  assumes "ValidString s" and "\<not> hasControl s" and "c \<in> set s"
  shows "0x20 \<le> byteAt c \<and> byteAt c \<noteq> 0x7F"
proof -
  obtain rs where rs: "runes s = Some rs" using assms(1) by (auto simp: ValidString_def)
  show ?thesis
    using runes_bytes [OF rs assms(3)] assms(2) rs
    by (cases "byteAt c < 0x80") (auto simp: hasControl_def list_ex_iff IsControl_def)
qed

lemma no_newline: "ValidString s \<Longrightarrow> \<not> hasControl s \<Longrightarrow> CHR 0x0A \<notin> set s"
  using no_control_byte [of s "CHR 0x0A"] by (auto simp: byteAt_def)

end
