(* ===== verification/TimeWindow.thy ===== *)
theory TimeWindow
  imports Prelude "HOL-Library.Signed_Division"
begin

text \<open>
  Instants and the alignment of a request window: \<open>pkg/kubegraph/align.go\<close>.

  A \<open>Time\<close> is Go's representation without a monotonic reading: signed 64-bit seconds since January 1,
  year 1, and nanoseconds. \<open>int64\<close> writes out the wrap-around of 64-bit arithmetic; \<open>TimeAdd\<close> saturates
  where \<open>time.Time.Add\<close> does, and \<open>UnixNano\<close> wraps where its documentation leaves the result undefined.
  \<open>instant\<close> is the nanosecond on an unbounded axis a \<open>Time\<close> stands for.

  The lemmas show that alignment keeps the window's length, moves its end back by less than one grid step
  onto the grid, and gives every window ending in one step the same value.
\<close>

definition int64 :: "int \<Rightarrow> int" where
  "int64 x = (x + 2 ^ 63) mod 2 ^ 64 - 2 ^ 63"

lemma int64_id: "- (2 ^ 63) \<le> x \<Longrightarrow> x < 2 ^ 63 \<Longrightarrow> int64 x = x"
  by (simp add: int64_def)

lemma int64_range: "- (2 ^ 63) \<le> int64 x \<and> int64 x < 2 ^ 63"
  using pos_mod_bound [of "2 ^ 64" "x + 2 ^ 63"] pos_mod_sign [of "2 ^ 64" "x + 2 ^ 63"] by (simp add: int64_def)

lemma int64_add_left: "int64 (int64 x + y) = int64 (x + y)"
proof -
  have "((x + 2 ^ 63) mod 2 ^ 64 - 2 ^ 63 + y + 2 ^ 63) mod 2 ^ 64 = (x + 2 ^ 63 + y) mod (2 ^ 64 :: int)"
    using mod_add_left_eq [of "x + 2 ^ 63" "2 ^ 64" y] by (simp add: algebra_simps)
  then show ?thesis by (simp add: int64_def algebra_simps)
qed

record Time =
  t_sec :: int
  t_nsec :: int

abbreviation SecondNs :: int where "SecondNs \<equiv> 1000000000"

definition unixToInternal :: int where
  "unixToInternal = (1969 * 365 + 1969 div 4 - 1969 div 100 + 1969 div 400) * 86400"

definition timeUnix :: "int \<Rightarrow> Time" where
  "timeUnix n = \<lparr> t_sec = int64 (n + unixToInternal), t_nsec = 0 \<rparr>"

definition UnixNano :: "Time \<Rightarrow> int" where
  "UnixNano t = int64 (int64 (int64 (t_sec t - unixToInternal) * SecondNs) + t_nsec t)"

definition After :: "Time \<Rightarrow> Time \<Rightarrow> bool" where
  "After t u = (t_sec t > t_sec u \<or> t_sec t = t_sec u \<and> t_nsec t > t_nsec u)"

definition addSec :: "int \<Rightarrow> int \<Rightarrow> int" where
  "addSec sec d =
     (let sum = int64 (sec + d) in
      if (sum > sec) = (d > 0) then sum else if d > 0 then 2 ^ 63 - 1 else - (2 ^ 63 - 1))"

definition TimeAdd :: "Time \<Rightarrow> int \<Rightarrow> Time" where
  "TimeAdd t d =
     (let dsec = d sdiv SecondNs; nsec = t_nsec t + d smod SecondNs;
          (dsec, nsec) = (if nsec \<ge> SecondNs then (dsec + 1, nsec - SecondNs)
                          else if nsec < 0 then (dsec - 1, nsec + SecondNs)
                          else (dsec, nsec))
      in \<lparr> t_sec = addSec (t_sec t) dsec, t_nsec = nsec \<rparr>)"

section \<open>Alignment\<close>

definition DefaultEndAlign :: int where "DefaultEndAlign = 30 * SecondNs"

definition AlignWindow :: "Time \<Rightarrow> Time \<Rightarrow> int \<Rightarrow> Time \<times> Time" where
  "AlignWindow start end' grid =
     (if grid \<le> 0 then (start, end')
      else
        let ns = UnixNano end'; rem = ns smod grid; rem = (if rem < 0 then rem + grid else rem)
        in (TimeAdd start (- rem), TimeAdd end' (- rem)))"

definition resolveDuration :: "int \<Rightarrow> int \<Rightarrow> int" where
  "resolveDuration v d = (if v = 0 then d else if v < 0 then 0 else v)"

definition resolveInt :: "int \<Rightarrow> int \<Rightarrow> int" where
  "resolveInt v d = (if v = 0 then d else if v < 0 then 0 else v)"

section \<open>Instants\<close>

definition wfTime :: "Time \<Rightarrow> bool" where
  "wfTime t = (0 \<le> t_nsec t \<and> t_nsec t < SecondNs \<and> - (2 ^ 63) \<le> t_sec t \<and> t_sec t < 2 ^ 63)"

definition instant :: "Time \<Rightarrow> int" where
  "instant t = t_sec t * SecondNs + t_nsec t"

text \<open>Nanoseconds since the Unix epoch, on the unbounded axis.\<close>

definition unixNs :: "Time \<Rightarrow> int" where
  "unixNs t = instant t - unixToInternal * SecondNs"

lemma instant_inj:
  assumes "wfTime t" and "wfTime u" and "instant t = instant u"
  shows "t = u"
proof -
  have "t_sec x = instant x div SecondNs \<and> t_nsec x = instant x mod SecondNs" if "wfTime x" for x
    using that by (auto simp: instant_def wfTime_def)
  then show ?thesis using assms by (metis Time.equality old.unit.exhaust)
qed

lemma After_instant: "wfTime t \<Longrightarrow> wfTime u \<Longrightarrow> After t u \<longleftrightarrow> instant u < instant t"
  by (auto simp: After_def instant_def wfTime_def)

lemma div_mod_at:
  "0 \<le> x \<Longrightarrow> x < SecondNs \<Longrightarrow> (a * SecondNs + x) div SecondNs = a"
  "0 \<le> x \<Longrightarrow> x < SecondNs \<Longrightarrow> (a * SecondNs + x) mod SecondNs = x"
  by simp_all

lemma TimeAdd_back:
  assumes "wfTime t" and "0 \<le> d" and "- (2 ^ 63) * SecondNs \<le> instant t - d"
  shows "wfTime (TimeAdd t (- d)) \<and> instant (TimeAdd t (- d)) = instant t - d"
proof -
  have q: "d sdiv SecondNs = d div SecondNs" "d smod SecondNs = d mod SecondNs"
    using assms(2) by (cases "d = 0"; simp add: signed_divide_int_def signed_modulo_int_def)+
  define s where "s = (instant t - d) div SecondNs"
  have range: "- (2 ^ 63) \<le> s" "s \<le> t_sec t" "s < 2 ^ 63"
    using assms by (auto simp: s_def instant_def wfTime_def)
  have add: "addSec (t_sec t) (s - t_sec t) = s"
    using range int64_id [of s] by (auto simp: addSec_def Let_def)
  have "TimeAdd t (- d) = \<lparr> t_sec = s, t_nsec = (instant t - d) mod SecondNs \<rparr>"
  proof (cases "t_nsec t < d mod SecondNs")
    case True
    have "instant t - d = (t_sec t - d div SecondNs - 1) * SecondNs + (t_nsec t - d mod SecondNs + SecondNs)"
      by (simp add: instant_def minus_mod_eq_mult_div [symmetric] algebra_simps)
    then have "s = t_sec t + (- (d div SecondNs) - 1) \<and> (instant t - d) mod SecondNs = t_nsec t - d mod SecondNs + SecondNs"
      using True assms(1) pos_mod_bound [of SecondNs d]
        div_mod_at [of "t_nsec t - d mod SecondNs + SecondNs" "t_sec t - d div SecondNs - 1"]
      unfolding s_def wfTime_def by (smt (verit))
    then show ?thesis using True assms(1) add by (simp add: TimeAdd_def q Let_def wfTime_def)
  next
    case False
    have "instant t - d = (t_sec t - d div SecondNs) * SecondNs + (t_nsec t - d mod SecondNs)"
      by (simp add: instant_def minus_mod_eq_mult_div [symmetric] algebra_simps)
    then have "s = t_sec t + - (d div SecondNs) \<and> (instant t - d) mod SecondNs = t_nsec t - d mod SecondNs"
      using False assms(1) pos_mod_sign [of SecondNs d]
        div_mod_at [of "t_nsec t - d mod SecondNs" "t_sec t - d div SecondNs"]
      unfolding s_def wfTime_def by (smt (verit))
    moreover have "\<not> SecondNs \<le> t_nsec t - d mod SecondNs"
      using assms(1) pos_mod_sign [of SecondNs d] unfolding wfTime_def by (smt (verit))
    ultimately show ?thesis using False assms(1) add
      by (simp add: TimeAdd_def q Let_def wfTime_def)
  qed
  then show ?thesis using range by (simp add: wfTime_def instant_def s_def)
qed

lemma UnixNano_exact:
  assumes "wfTime t" and "- (2 ^ 63) \<le> unixNs t" and "unixNs t < 2 ^ 63"
  shows "UnixNano t = unixNs t"
proof -
  have "int64 (t_sec t - unixToInternal) = t_sec t - unixToInternal"
    using assms by (intro int64_id) (auto simp: unixNs_def instant_def wfTime_def unixToInternal_def)
  moreover have "int64 (int64 ((t_sec t - unixToInternal) * SecondNs) + t_nsec t)
      = int64 ((t_sec t - unixToInternal) * SecondNs + t_nsec t)"
    by (rule int64_add_left)
  moreover have "(t_sec t - unixToInternal) * SecondNs + t_nsec t = unixNs t"
    by (simp add: unixNs_def instant_def algebra_simps)
  ultimately show ?thesis using int64_id [OF assms(2,3)] by (simp add: UnixNano_def)
qed

lemma floor_rem:
  assumes "0 < g"
  shows "(if ns smod g < 0 then ns smod g + g else ns smod g) = ns mod (g :: int)"
proof (cases "0 \<le> ns")
  case True
  then show ?thesis using assms by (simp add: smod_mod_positive not_less)
next
  case False
  then have "ns smod g = - ((- ns) mod g)" using assms by (simp add: smod_int_alt_def)
  then show ?thesis using assms zmod_zminus1_eq_if [of "- ns" g] pos_mod_sign [of g "- ns"] by (smt (verit))
qed

section \<open>What alignment does\<close>

abbreviation alignable :: "Time \<Rightarrow> bool" where
  "alignable t \<equiv> wfTime t \<and> - (2 ^ 63) \<le> unixNs t \<and> unixNs t < 2 ^ 63"

lemma epoch_margin:
  assumes "alignable t" and "0 \<le> d" and "d < 2 ^ 63"
  shows "- (2 ^ 63) * SecondNs \<le> instant t - d"
  using assms by (simp add: unixNs_def unixToInternal_def)

lemma AlignWindow_move:
  assumes "alignable e" and "0 < g" and "g < 2 ^ 63"
    and "wfTime s" and "- (2 ^ 63) * SecondNs \<le> instant s - g"
  shows "wfTime (fst (AlignWindow s e g)) \<and> instant (fst (AlignWindow s e g)) = instant s - unixNs e mod g"
    and "wfTime (snd (AlignWindow s e g)) \<and> instant (snd (AlignWindow s e g)) = instant e - unixNs e mod g"
proof -
  define r where "r = unixNs e mod g"
  have r: "0 \<le> r" "r < g" using assms(2) by (auto simp: r_def)
  have ns: "UnixNano e = unixNs e" using assms(1) by (intro UnixNano_exact) auto
  have align: "AlignWindow s e g = (TimeAdd s (- r), TimeAdd e (- r))"
    using assms(2) floor_rem [OF assms(2), of "unixNs e"] by (simp add: AlignWindow_def ns r_def Let_def)
  show "wfTime (fst (AlignWindow s e g)) \<and> instant (fst (AlignWindow s e g)) = instant s - unixNs e mod g"
    using TimeAdd_back [of s r] assms(4,5) r unfolding align r_def [symmetric] by simp
  show "wfTime (snd (AlignWindow s e g)) \<and> instant (snd (AlignWindow s e g)) = instant e - unixNs e mod g"
    using TimeAdd_back [of e r] epoch_margin [of e r] assms(1,3) r unfolding align r_def [symmetric] by simp
qed

lemma window_value:
  assumes "wfTime t" and "wfTime u" and "unixNs t = unixNs u"
  shows "t = u"
  using assms instant_inj [of t u] by (simp add: unixNs_def)

text \<open>
  C35: alignment floors the end of a window to the grid counted from the Unix epoch, moves it back by less
  than one step, and keeps the window's length exactly, so that two requests whose ends fall in one step and
  whose windows have one length are sent upstream with the same instants.
\<close>

theorem AlignWindow_buckets:
  assumes "alignable e" and "alignable e'" and "0 < g" and "g < 2 ^ 63"
    and "wfTime s" and "- (2 ^ 63) * SecondNs \<le> instant s - g"
    and "wfTime s'" and "- (2 ^ 63) * SecondNs \<le> instant s' - g"
  shows "let (as, ae) = AlignWindow s e g; (as', ae') = AlignWindow s' e' g in
    unixNs ae = unixNs e div g * g \<and> unixNs e - g < unixNs ae \<and> unixNs ae \<le> unixNs e \<and>
    instant ae - instant as = instant e - instant s \<and>
    (unixNs e div g = unixNs e' div g \<longrightarrow>
      ae = ae' \<and> (as = as' \<longleftrightarrow> instant e - instant s = instant e' - instant s'))"
proof -
  note m = AlignWindow_move [OF assms(1,3,4,5,6)] and m' = AlignWindow_move [OF assms(2,3,4,7,8)]
  have r: "0 \<le> unixNs e mod g" "unixNs e mod g < g" using assms(3) by auto
  have floor: "unixNs (snd (AlignWindow s e g)) = unixNs e div g * g"
    using m(2) by (simp add: unixNs_def minus_mod_eq_div_mult [symmetric])
  have floor': "unixNs (snd (AlignWindow s' e' g)) = unixNs e' div g * g"
    using m'(2) by (simp add: unixNs_def minus_mod_eq_div_mult [symmetric])
  have ends: "snd (AlignWindow s e g) = snd (AlignWindow s' e' g)" if "unixNs e div g = unixNs e' div g"
    using that floor floor' m(2) m'(2) by (intro window_value) auto
  have starts: "fst (AlignWindow s e g) = fst (AlignWindow s' e' g) \<longleftrightarrow>
      instant e - instant s = instant e' - instant s'" if "unixNs e div g = unixNs e' div g"
  proof -
    have "instant e - unixNs e mod g = instant e' - unixNs e' mod g"
      using ends [OF that] conjunct2 [OF m(2)] conjunct2 [OF m'(2)] by simp
    then have "instant (fst (AlignWindow s e g)) = instant (fst (AlignWindow s' e' g)) \<longleftrightarrow>
        instant e - instant s = instant e' - instant s'"
      unfolding conjunct2 [OF m(1)] conjunct2 [OF m'(1)] by linarith
    then show ?thesis using instant_inj [OF conjunct1 [OF m(1)] conjunct1 [OF m'(1)]] by metis
  qed
  have bounds: "unixNs e - g < unixNs e div g * g" "unixNs e div g * g \<le> unixNs e"
    using r unfolding minus_mod_eq_div_mult [symmetric] by simp_all
  have len: "instant (snd (AlignWindow s e g)) - instant (fst (AlignWindow s e g)) = instant e - instant s"
    using m by simp
  show ?thesis unfolding case_prod_beta Let_def floor
    by (intro conjI impI) (rule refl bounds len ends starts | assumption)+
qed

theorem AlignWindow_buckets_witness:
  "let (as, ae) = AlignWindow (timeUnix 1000) (timeUnix 1075) DefaultEndAlign;
       (as', ae') = AlignWindow (timeUnix 1010) (timeUnix 1079) DefaultEndAlign in
    unixNs ae = unixNs (timeUnix 1075) div DefaultEndAlign * DefaultEndAlign \<and>
    instant ae - instant as = 75 * SecondNs \<and> ae = ae' \<and> as \<noteq> as'"
proof -
  have "alignable (timeUnix 1075)" "alignable (timeUnix 1079)" "(0 :: int) < DefaultEndAlign"
    "DefaultEndAlign < 2 ^ 63" "wfTime (timeUnix 1000)" "wfTime (timeUnix 1010)"
    "- (2 ^ 63) * SecondNs \<le> instant (timeUnix 1000) - DefaultEndAlign"
    "- (2 ^ 63) * SecondNs \<le> instant (timeUnix 1010) - DefaultEndAlign"
    by code_simp+
  moreover have "unixNs (timeUnix 1075) div DefaultEndAlign = unixNs (timeUnix 1079) div DefaultEndAlign"
    "instant (timeUnix 1075) - instant (timeUnix 1000) = 75 * SecondNs"
    "instant (timeUnix 1079) - instant (timeUnix 1010) \<noteq> 75 * SecondNs"
    by code_simp+
  ultimately show ?thesis
    using AlignWindow_buckets [of "timeUnix 1075" "timeUnix 1079" DefaultEndAlign "timeUnix 1000" "timeUnix 1010"]
    unfolding case_prod_beta Let_def by (smt (verit))
qed

text \<open>
  Outside the range of \<open>UnixNano\<close> the end is not floored to the grid: on January 1, 2300 at midnight, a
  multiple of 30 seconds, alignment moves the end back although nothing is left to floor.
\<close>

lemma AlignWindow_beyond_UnixNano:
  "unixNs (timeUnix 10413792000) mod DefaultEndAlign = 0 \<and>
   snd (AlignWindow (timeUnix 10413791000) (timeUnix 10413792000) DefaultEndAlign) \<noteq> timeUnix 10413792000"
  by code_simp

end
