(* ===== verification/Timestamps.thy ===== *)
theory Timestamps
  imports TimeWindow QueryTable "HOL-Library.Monad_Syntax"
begin

text \<open>
  The two timestamp forms a request accepts: \<open>parseTimestamp\<close> of \<open>pkg/kubegraph/parse.go\<close>, with what it
  uses of Go's \<open>strconv.ParseInt\<close> and \<open>time.Parse\<close>.

  \<open>ParseRFC3339\<close> follows the layout \<open>2006-01-02T15:04:05Z07:00\<close> as the library reads it: an hour of one
  or two digits, an optional fraction after a point or a comma cut at nine digits, and a zone of \<open>Z\<close> or a
  signed offset of at most 24 hours and 60 minutes. Every result is UTC.

  The lemmas show that both forms give a well-formed instant and that printing a Unix second and parsing
  it again is the identity.
\<close>

definition readInt :: "string \<Rightarrow> int" where
  "readInt s = foldl (\<lambda>a c. 10 * a + (of_char c - 48)) 0 s"

definition isDigit :: "char \<Rightarrow> bool" where
  "isDigit c = (48 \<le> (of_char c :: int) \<and> of_char c \<le> (57 :: int))"

text \<open>\<open>strconv.ParseInt(s, 10, 64)\<close>; every error is one value here.\<close>

definition ParseInt64 :: "string \<Rightarrow> int option" where
  "ParseInt64 s =
     (let neg = (s \<noteq> [] \<and> hd s = CHR ''-'');
          ds = (if s \<noteq> [] \<and> (hd s = CHR ''-'' \<or> hd s = CHR ''+'') then tl s else s);
          n = readInt ds in
      if ds = [] \<or> \<not> list_all isDigit ds then None
      else if neg then (if n \<le> 2 ^ 63 then Some (- n) else None)
      else if n < 2 ^ 63 then Some n else None)"

section \<open>RFC 3339\<close>

fun getnum :: "bool \<Rightarrow> string \<Rightarrow> (int \<times> string) option" where
  "getnum fixed (a # b # r) =
     (if \<not> isDigit a then None
      else if isDigit b then Some (readInt [a, b], r)
      else if fixed then None
      else Some (readInt [a], b # r))"
| "getnum fixed [a] = (if isDigit a \<and> \<not> fixed then Some (readInt [a], []) else None)"
| "getnum fixed [] = None"

fun skipByte :: "char \<Rightarrow> string \<Rightarrow> string option" where
  "skipByte c [] = None"
| "skipByte c (d # s) = (if c = d then Some s else None)"

definition getyear :: "string \<Rightarrow> (int \<times> string) option" where
  "getyear s =
     (if 4 \<le> length s \<and> list_all isDigit (take 4 s) then Some (readInt (take 4 s), drop 4 s) else None)"

definition within :: "int \<Rightarrow> int \<Rightarrow> int \<Rightarrow> unit option" where
  "within lo hi n = (if lo \<le> n \<and> n \<le> hi then Some () else None)"

definition fraction :: "string \<Rightarrow> int \<times> string" where
  "fraction s =
     (if 2 \<le> length s \<and> (s ! 0 = CHR ''.'' \<or> s ! 0 = CHR '','') \<and> isDigit (s ! 1) then
        let ds = take 9 (takeWhile isDigit (tl s))
        in (readInt ds * 10 ^ (9 - length ds), dropWhile isDigit (tl s))
      else (0, s))"

text \<open>The zone: seconds east of UTC.\<close>

fun zone :: "string \<Rightarrow> (int \<times> string) option" where
  "zone (sg # h1 # h2 # c # m1 # m2 # r) =
     (if sg = CHR ''Z'' then Some (0, h1 # h2 # c # m1 # m2 # r)
      else if c \<noteq> CHR '':'' then None
      else do {
        (hr, _) \<leftarrow> getnum True [h1, h2];
        (mm, _) \<leftarrow> getnum True [m1, m2];
        within 0 24 hr;
        within 0 60 mm;
        if sg = CHR ''+'' then Some ((hr * 60 + mm) * 60, r)
        else if sg = CHR ''-'' then Some (- ((hr * 60 + mm) * 60), r)
        else None
      })"
| "zone (sg # r) = (if sg = CHR ''Z'' then Some (0, r) else None)"
| "zone [] = None"

definition isLeap :: "int \<Rightarrow> bool" where
  "isLeap y = (y mod 4 = 0 \<and> (y mod 100 \<noteq> 0 \<or> y mod 400 = 0))"

definition daysIn :: "int \<Rightarrow> int \<Rightarrow> int" where
  "daysIn m y = (if m = 2 then (if isLeap y then 29 else 28) else if m \<in> {4, 6, 9, 11} then 30 else 31)"

text \<open>Days from January 1, year 1 to a date, and the seconds of \<open>time.Date\<close>.\<close>

definition dateDays :: "int \<Rightarrow> int \<Rightarrow> int \<Rightarrow> int" where
  "dateDays y m d =
     365 * (y - 1) + (y - 1) div 4 - (y - 1) div 100 + (y - 1) div 400
       + sum_list (map (\<lambda>k. daysIn k y) [1..m - 1]) + (d - 1)"

definition dateSec :: "int \<Rightarrow> int \<Rightarrow> int \<Rightarrow> int \<Rightarrow> int \<Rightarrow> int \<Rightarrow> int" where
  "dateSec y m d hh mi ss = dateDays y m d * 86400 + hh * 3600 + mi * 60 + ss"

definition ParseRFC3339 :: "string \<Rightarrow> Time option" where
  "ParseRFC3339 s = do {
     (year, s) \<leftarrow> getyear s;
     s \<leftarrow> skipByte CHR ''-'' s;
     (month, s) \<leftarrow> getnum True s;
     within 1 12 month;
     s \<leftarrow> skipByte CHR ''-'' s;
     (day, s) \<leftarrow> getnum True s;
     s \<leftarrow> skipByte CHR ''T'' s;
     (hour, s) \<leftarrow> getnum False s;
     within 0 23 hour;
     s \<leftarrow> skipByte CHR '':'' s;
     (minute, s) \<leftarrow> getnum True s;
     within 0 59 minute;
     s \<leftarrow> skipByte CHR '':'' s;
     (sec, s) \<leftarrow> getnum True s;
     within 0 59 sec;
     let (nsec, s) = fraction s;
     (offset, s) \<leftarrow> zone s;
     if s \<noteq> [] then None
     else do {
       within 1 (daysIn month year) day;
       Some \<lparr> t_sec = dateSec year month day hour minute sec - offset, t_nsec = nsec \<rparr>
     }
   }"

section \<open>Request timestamps\<close>

definition parseTimestamp :: "(string \<Rightarrow> string) \<Rightarrow> string \<Rightarrow> string + Time" where
  "parseTimestamp quote s =
     (case ParseInt64 s of
        Some n \<Rightarrow> Inr (timeUnix n)
      | None \<Rightarrow>
          (case ParseRFC3339 s of
             Some t \<Rightarrow> Inr t
           | None \<Rightarrow> Inl (''timestamp must be RFC 3339 or Unix seconds: '' @ quote s)))"

section \<open>Results are instants\<close>

lemma isDigit_nat: "isDigit c \<longleftrightarrow> 48 \<le> (of_char c :: nat) \<and> of_char c \<le> (57 :: nat)"
  unfolding isDigit_def of_nat_of_char [where 'a = int, symmetric] by simp

lemma digit_value: "isDigit c \<Longrightarrow> (of_char c :: int) - 48 = int (of_char c - 48)"
  unfolding isDigit_nat of_nat_of_char [where 'a = int, symmetric] by simp

lemma readInt_Nat: "list_all isDigit s \<Longrightarrow> readInt s = int (readNat s)"
proof -
  have "foldl (\<lambda>a c. 10 * a + (of_char c - 48)) (int k) s = int (foldl (\<lambda>a c. 10 * a + (of_char c - 48)) k s)"
    if "list_all isDigit s" for k
    using that
  proof (induction s arbitrary: k)
    case (Cons c s)
    have "of_char c - 48 = int (of_char c - 48)" using Cons.prems by (simp add: digit_value)
    then show ?case using Cons.IH [of "10 * k + (of_char c - 48)"] Cons.prems by simp
  qed simp
  from this [of 0] show "list_all isDigit s \<Longrightarrow> readInt s = int (readNat s)" by (simp add: readInt_def readNat_def)
qed

lemma readInt_bound: "list_all isDigit s \<Longrightarrow> 0 \<le> readInt s \<and> readInt s < 10 ^ length s"
proof (induction s rule: rev_induct)
  case (snoc c s)
  then have "0 \<le> (of_char c :: int) - 48" "(of_char c :: int) - 48 \<le> 9" by (simp_all add: isDigit_def)
  then show ?case using snoc by (simp add: readInt_def)
qed (simp add: readInt_def)

lemma fraction_bound: "0 \<le> fst (fraction s) \<and> fst (fraction s) < SecondNs"
proof -
  let ?d = "take 9 (takeWhile isDigit (tl s))"
  have len: "length ?d \<le> 9" by simp
  have "list_all isDigit ?d" by (auto simp: list_all_iff dest!: in_set_takeD set_takeWhileD)
  from readInt_bound [OF this] have r: "0 \<le> readInt ?d" "readInt ?d < 10 ^ length ?d" by auto
  have "readInt ?d * 10 ^ (9 - length ?d) < 10 ^ length ?d * 10 ^ (9 - length ?d)"
    using r by (intro mult_strict_right_mono) auto
  also have "(10 :: int) ^ length ?d * 10 ^ (9 - length ?d) = SecondNs"
    unfolding power_add [symmetric] le_add_diff_inverse [OF len] by simp
  finally show ?thesis using r unfolding fraction_def Let_def by simp
qed

lemma int_of_FormatInt:
  assumes "- (2 ^ 63) \<le> n" and "n < 2 ^ 63"
  shows "ParseInt64 (FormatInt n) = Some n"
proof -
  have d: "list_all isDigit (digits k)" for k
    using digits_props [of k] by (auto simp: list_all_iff isDigit_nat)
  have h: "digits k \<noteq> [] \<and> hd (digits k) \<noteq> CHR ''-'' \<and> hd (digits k) \<noteq> CHR ''+''" for k
    using d [of k] digits_start(2) [of k] by (cases "digits k") (auto simp: isDigit_def)
  show ?thesis using assms h d readInt_Nat [OF d] digits_props
    by (auto simp: ParseInt64_def FormatInt_def Let_def)
qed

lemma within_Some [simp]: "within lo hi n = Some u \<longleftrightarrow> lo \<le> n \<and> n \<le> hi"
  by (auto simp: within_def)

lemma getyear_range: "getyear s = Some (y, r) \<Longrightarrow> 0 \<le> y \<and> y < 10000"
  using readInt_bound [of "take 4 s"] by (auto simp: getyear_def split: if_splits)

lemma zone_range: "zone s = Some (off, r) \<Longrightarrow> - 90000 \<le> off \<and> off \<le> 90000"
  by (induction s rule: zone.induct)
    (auto split: if_splits option.splits prod.splits simp: bind_eq_Some_conv)

lemma daysIn_range: "28 \<le> daysIn m y \<and> daysIn m y \<le> 31"
  by (simp add: daysIn_def)

lemma dateDays_range:
  assumes "0 \<le> y" "y < 10000" "1 \<le> m" "m \<le> 12" "1 \<le> d" "d \<le> daysIn m y"
  shows "- 4000000 \<le> dateDays y m d \<and> dateDays y m d \<le> 4000000"
proof -
  have le: "sum_list (map (\<lambda>k. daysIn k y) ks) \<le> 31 * int (length ks)" for ks
    by (induction ks) (use daysIn_range in \<open>auto simp: add_mono\<close>)
  have ge: "0 \<le> sum_list (map (\<lambda>k. daysIn k y) ks)" for ks
    using daysIn_range [of _ y] by (intro sum_list_nonneg) (auto intro: order.trans [of 0 28])
  have "int (length [1..m - 1]) \<le> 11" using assms by simp
  then have s: "0 \<le> sum_list (map (\<lambda>k. daysIn k y) [1..m - 1])" "sum_list (map (\<lambda>k. daysIn k y) [1..m - 1]) \<le> 341"
    using le [of "[1..m - 1]"] ge by simp_all
  have q: "- 1 \<le> (y - 1) div k \<and> (y - 1) div k \<le> 10000" if "k \<in> {4, 100, 400}" for k
    using that assms(1,2) by (auto simp: div_le_dividend)
  show ?thesis
    using s q [of 4] q [of 100] q [of 400] assms daysIn_range [of m y] unfolding dateDays_def by simp
qed

lemma ParseRFC3339_wf:
  assumes "ParseRFC3339 s = Some t"
  shows "wfTime t"
proof -
  obtain y mo d hh mi ss off s1 s2 where r: "0 \<le> y" "y < 10000" "1 \<le> mo" "mo \<le> 12" "1 \<le> d" "d \<le> daysIn mo y"
      "0 \<le> hh" "hh \<le> 23" "0 \<le> mi" "mi \<le> 59" "0 \<le> ss" "ss \<le> 59" "- 90000 \<le> off" "off \<le> 90000"
    and t: "t = \<lparr> t_sec = dateSec y mo d hh mi ss - off, t_nsec = fst (fraction s1) \<rparr>"
    using assms unfolding ParseRFC3339_def
    by (auto simp: bind_eq_Some_conv Let_def case_prod_beta split: if_splits dest!: getyear_range zone_range)
  show ?thesis
    using dateDays_range [OF r(1-6)] fraction_bound [of s1] r unfolding t wfTime_def dateSec_def by simp
qed

lemma timeUnix_wf: "wfTime (timeUnix n)"
  using int64_range by (simp add: timeUnix_def wfTime_def)

lemma parseTimestamp_wf: "parseTimestamp quote s = Inr t \<Longrightarrow> wfTime t"
  by (auto simp: parseTimestamp_def timeUnix_wf ParseRFC3339_wf split: option.splits)

text \<open>
  A Unix second of the signed 64-bit range printed in decimal is read back as that second, exactly: up
  to the point where the year-1 based clock overflows, its instant is \<open>n\<close> seconds after the epoch, and past
  it the instant wraps around to the far past, without an error.
\<close>

theorem parseTimestamp_unix:
  assumes "- (2 ^ 63) \<le> n" and "n < 2 ^ 63"
  shows "\<exists>t. parseTimestamp quote (FormatInt n) = Inr t \<and> wfTime t \<and>
    unixNs t = (if n + unixToInternal < 2 ^ 63 then n else n - 2 ^ 64) * SecondNs"
proof (intro exI conjI)
  show "parseTimestamp quote (FormatInt n) = Inr (timeUnix n)"
    by (simp add: parseTimestamp_def int_of_FormatInt [OF assms])
  show "wfTime (timeUnix n)" by (rule timeUnix_wf)
  have "int64 (n + unixToInternal) = (if n + unixToInternal < 2 ^ 63 then n else n - 2 ^ 64) + unixToInternal"
  proof (cases "n + unixToInternal < 2 ^ 63")
    case True
    then show ?thesis using assms int64_id [of "n + unixToInternal"] by (simp add: unixToInternal_def)
  next
    case False
    have "int64 (n + unixToInternal) = int64 (n - 2 ^ 64 + unixToInternal)"
      using mod_add_self2 [of "n - 2 ^ 64 + unixToInternal + 2 ^ 63" "2 ^ 64"] by (simp add: int64_def algebra_simps)
    then show ?thesis using False assms int64_id [of "n - 2 ^ 64 + unixToInternal"] by (simp add: unixToInternal_def)
  qed
  then show "unixNs (timeUnix n) = (if n + unixToInternal < 2 ^ 63 then n else n - 2 ^ 64) * SecondNs"
    by (simp add: unixNs_def instant_def timeUnix_def algebra_simps)
qed

theorem parseTimestamp_unix_witness:
  "\<exists>t. parseTimestamp id (FormatInt 1700000000) = Inr t \<and> wfTime t \<and>
    unixNs t = (if 1700000000 + unixToInternal < 2 ^ 63 then 1700000000 else 1700000000 - 2 ^ 64) * SecondNs"
  by (rule parseTimestamp_unix) simp_all

end
