(* ===== verification/RequestParse.thy ===== *)
theory RequestParse
  imports StorageScope ScopedQueries Utf8 Timestamps
begin

text \<open>
  The request parsers of the three graph endpoints: \<open>pkg/kubegraph/parse.go\<close>.

  A query string is a map from parameter to values; \<open>query_get\<close> is \<open>url.Values.Get\<close>. Every failure is a
  \<open>ParseError\<close> on the left of a sum, in the order the code checks. \<open>quote\<close> is the \<open>%q\<close> verb of \<open>fmt\<close>.

  The lemmas show what each parser accepts and with which reason it rejects, that an accepted request
  carries only values that render to readable matchers, always a window with a positive length and, for the
  rooted endpoints, a root of an allowed kind and at least one zone, and that order and repetition of
  values do not change the parsed request.
\<close>

type_synonym Values = "(string, string list) gomap"

record ParseError =
  pe_Reason :: string
  pe_Message :: string

definition parseError :: "string \<Rightarrow> string \<Rightarrow> ParseError" where
  "parseError reason message = \<lparr> pe_Reason = reason, pe_Message = message \<rparr>"

definition query_get :: "Values \<Rightarrow> string \<Rightarrow> string" where
  "query_get v k = (case gm_list v k of [] \<Rightarrow> [] | x # _ \<Rightarrow> x)"

section \<open>Windows and values\<close>

definition parseWindow :: "(string \<Rightarrow> string) \<Rightarrow> Values \<Rightarrow> ParseError + Time \<times> Time" where
  "parseWindow quote v =
     (let startStr = query_get v ''start''; endStr = query_get v ''end'' in
      if startStr = [] then Inl (parseError ''missing_start'' ''start query parameter is required'')
      else if endStr = [] then Inl (parseError ''missing_end'' ''end query parameter is required'')
      else case parseTimestamp quote startStr of
        Inl perr \<Rightarrow> Inl (parseError ''invalid_start'' perr)
      | Inr start \<Rightarrow>
          (case parseTimestamp quote endStr of
             Inl perr \<Rightarrow> Inl (parseError ''invalid_end'' perr)
           | Inr end' \<Rightarrow>
               if \<not> After end' start then Inl (parseError ''invalid_range'' ''end must be after start'')
               else Inr (start, end')))"

definition maxSelectorValueLen :: int where "maxSelectorValueLen = 253"

fun validateSelectorValues :: "string \<Rightarrow> string list \<Rightarrow> ParseError option" where
  "validateSelectorValues param [] = None"
| "validateSelectorValues param (val # vals) =
     (if val = [] then validateSelectorValues param vals
      else if maxSelectorValueLen < int (length val) then
        Some (parseError ''invalid_scope'' (param @ '' value exceeds '' @ FormatInt maxSelectorValueLen @ '' bytes''))
      else if \<not> ValidString val then
        Some (parseError ''invalid_scope'' (param @ '' value is not valid UTF-8''))
      else if hasControl val then
        Some (parseError ''invalid_scope'' (param @ '' value contains a control character''))
      else validateSelectorValues param vals)"

fun validateParams :: "Values \<Rightarrow> string list \<Rightarrow> ParseError option" where
  "validateParams v [] = None"
| "validateParams v (p # ps) =
     (case validateSelectorValues p (gm_list v p) of
        Some err \<Rightarrow> Some err
      | None \<Rightarrow> validateParams v ps)"

definition nonEmptySorted :: "string list \<Rightarrow> string list" where
  "nonEmptySorted values = Compact (sort (filter (\<lambda>v. v \<noteq> []) values))"

definition atLeastOne :: "string \<Rightarrow> string list \<Rightarrow> ParseError + string list" where
  "atLeastOne param values =
     (let got = nonEmptySorted values in
      if got = [] then Inl (parseError (''missing_'' @ param) (param @ '' query parameter is required''))
      else Inr got)"

fun hasNonEmpty :: "string list \<Rightarrow> bool" where
  "hasNonEmpty [] = False"
| "hasNonEmpty (v # vs) = (if v \<noteq> [] then True else hasNonEmpty vs)"

definition storageRootParams :: "string list" where
  "storageRootParams =
     [''ontap_cluster'', ''ontap_node'', ''aggr'', ''svm'', ''node'', ''pod'', ''pvc'', ''pv'', ''application'']"

definition k8sRootParams :: "string list" where
  "k8sRootParams = [''node'', ''pod'']"

definition oneStorageRoot ::
  "Values \<Rightarrow> string list \<Rightarrow> string \<Rightarrow> ParseError + StorageRootKind \<times> string list" where
  "oneStorageRoot v params missingMsg =
     (case filter (\<lambda>p. hasNonEmpty (gm_list v p)) params of
        [] \<Rightarrow> Inl (parseError ''missing_root'' missingMsg)
      | [p] \<Rightarrow> Inr (p, gm_list v p)
      | present \<Rightarrow> Inl (parseError ''invalid_scope''
          (''exactly one root kind is allowed, got '' @ Join present '' and '')))"

definition parsePrune :: "(string \<Rightarrow> string) \<Rightarrow> string \<Rightarrow> ParseError + bool" where
  "parsePrune quote raw =
     (if raw = [] then Inr True
      else if raw = ''true'' then Inr True
      else if raw = ''false'' then Inr False
      else Inl (parseError ''invalid_scope'' (''prune must be true or false, got '' @ quote raw)))"

definition parseIODelta :: "(string \<Rightarrow> string) \<Rightarrow> string list \<Rightarrow> ParseError + bool" where
  "parseIODelta quote values =
     (case validateSelectorValues ''io_delta'' values of
        Some err \<Rightarrow> Inl err
      | None \<Rightarrow>
          let got = nonEmptySorted values in
          if got = [] then Inr False
          else if got = [''true''] then Inr True
          else if got = [''false''] then Inr False
          else Inl (parseError ''invalid_scope'' (''io_delta must be true or false, got '' @ quote (Join got '',''))))"

definition parseIORollup :: "(string \<Rightarrow> string) \<Rightarrow> string list \<Rightarrow> ParseError + Rollup" where
  "parseIORollup quote values =
     (case validateSelectorValues ''io_rollup'' values of
        Some err \<Rightarrow> Inl err
      | None \<Rightarrow>
          let invalid = (\<lambda>raw. parseError ''invalid_scope'' (InvalidRollupMessage quote ''io_rollup'' raw)) in
          (case nonEmptySorted values of
             [] \<Rightarrow> Inr RollupLast
           | [x] \<Rightarrow> (case ParseRollup quote x of Inl _ \<Rightarrow> Inl (invalid x) | Inr roll \<Rightarrow> Inr roll)
           | got \<Rightarrow> Inl (invalid (Join got '',''))))"

section \<open>Requests\<close>

record Request =
  req_Start :: Time
  req_End :: Time
  req_Scope :: Scope
  req_Selector :: Selector

definition ParseValues :: "(string \<Rightarrow> string) \<Rightarrow> Values \<Rightarrow> ParseError + Request" where
  "ParseValues quote v =
     (case parseWindow quote v of
        Inl err \<Rightarrow> Inl err
      | Inr (start, end') \<Rightarrow>
          (case validateParams v [''cluster'', ''namespace'', ''az'', ''env''] of
             Some err \<Rightarrow> Inl err
           | None \<Rightarrow>
               (case parsePrune quote (query_get v ''prune'') of
                  Inl err \<Rightarrow> Inl err
                | Inr prune \<Rightarrow>
                    Inr \<lparr> req_Start = start, req_End = end',
                          req_Scope = NewScope (gm_list v ''cluster'') (gm_list v ''namespace'') (\<not> prune),
                          req_Selector = \<lparr> sel_AZ = gm_list v ''az'', sel_Env = gm_list v ''env'',
                            sel_Cluster = gm_list v ''cluster'', sel_Namespace = gm_list v ''namespace'' \<rparr> \<rparr>)))"

text \<open>The message of a \<open>NewStorageScope\<close> error.\<close>

definition scopeErrorMessage :: "(string \<Rightarrow> string) \<Rightarrow> ScopeError \<Rightarrow> string" where
  "scopeErrorMessage quote e =
     (case e of
        ValuesRequireKind \<Rightarrow> ''storage root values require a kind''
      | UnknownRootKind kind \<Rightarrow> ''unknown storage root kind '' @ quote kind
      | InvalidRoot kind v \<Rightarrow>
          ''invalid '' @ kind @ '' root '' @ quote v @
          (if kind = StorageRootPod then '': expected <namespace>/<pod-name>''
           else if kind = StorageRootPVC then '': expected <namespace>/<claim-name>''
           else '': expected <name> or <ontap_cluster>/<name>''))"

record StorageRequest =
  sreq_Start :: Time
  sreq_End :: Time
  sreq_Scope :: StorageScope
  sreq_Selector :: Selector
  sreq_IORollup :: Rollup
  sreq_IODelta :: bool

definition ParseStorageValues :: "(string \<Rightarrow> string) \<Rightarrow> Values \<Rightarrow> ParseError + StorageRequest" where
  "ParseStorageValues quote v =
     (case parseWindow quote v of
        Inl err \<Rightarrow> Inl err
      | Inr (start, end') \<Rightarrow>
     (case atLeastOne ''az'' (gm_list v ''az'') of
        Inl err \<Rightarrow> Inl err
      | Inr az \<Rightarrow>
     (case atLeastOne ''env'' (gm_list v ''env'') of
        Inl err \<Rightarrow> Inl err
      | Inr env \<Rightarrow>
     (case validateParams v [''cluster'', ''namespace'', ''az'', ''env'', ''ontap_cluster'', ''ontap_node'', ''node'',
             ''aggr'', ''svm'', ''pod'', ''pvc'', ''pv'', ''application''] of
        Some err \<Rightarrow> Inl err
      | None \<Rightarrow>
     (case oneStorageRoot v storageRootParams ''a storage-graph request requires exactly one root kind'' of
        Inl rerr \<Rightarrow> Inl rerr
      | Inr (kind, values) \<Rightarrow>
     (case NewStorageScope (gm_list v ''cluster'') (gm_list v ''namespace'') kind values of
        Inl serr \<Rightarrow> Inl (parseError ''invalid_scope'' (scopeErrorMessage quote serr))
      | Inr scope \<Rightarrow>
     (case parseIORollup quote (gm_list v ''io_rollup'') of
        Inl err \<Rightarrow> Inl err
      | Inr ioRollup \<Rightarrow>
     (case parseIODelta quote (gm_list v ''io_delta'') of
        Inl err \<Rightarrow> Inl err
      | Inr ioDelta \<Rightarrow>
          Inr \<lparr> sreq_Start = start, sreq_End = end', sreq_Scope = scope,
            sreq_Selector = \<lparr> sel_AZ = az, sel_Env = env,
              sel_Cluster = gm_list v ''cluster'', sel_Namespace = gm_list v ''namespace'' \<rparr>,
            sreq_IORollup = ioRollup, sreq_IODelta = ioDelta \<rparr>))))))))"

record K8sRequest =
  kreq_Start :: Time
  kreq_End :: Time
  kreq_Scope :: StorageScope
  kreq_Selector :: Selector

definition ParseK8sValues :: "(string \<Rightarrow> string) \<Rightarrow> Values \<Rightarrow> ParseError + K8sRequest" where
  "ParseK8sValues quote v =
     (case parseWindow quote v of
        Inl err \<Rightarrow> Inl err
      | Inr (start, end') \<Rightarrow>
     (case atLeastOne ''cluster'' (gm_list v ''cluster'') of
        Inl err \<Rightarrow> Inl err
      | Inr cluster \<Rightarrow>
     (case atLeastOne ''az'' (gm_list v ''az'') of
        Inl err \<Rightarrow> Inl err
      | Inr az \<Rightarrow>
     (case atLeastOne ''env'' (gm_list v ''env'') of
        Inl err \<Rightarrow> Inl err
      | Inr env \<Rightarrow>
     (case validateParams v ([''cluster'', ''namespace'', ''az'', ''env''] @ k8sRootParams) of
        Some err \<Rightarrow> Inl err
      | None \<Rightarrow>
     (case oneStorageRoot v k8sRootParams ''a k8s-graph request requires exactly one root kind, pod or node'' of
        Inl rerr \<Rightarrow> Inl rerr
      | Inr (kind, values) \<Rightarrow>
     (case NewStorageScope cluster (gm_list v ''namespace'') kind values of
        Inl serr \<Rightarrow> Inl (parseError ''invalid_scope'' (scopeErrorMessage quote serr))
      | Inr scope \<Rightarrow>
          Inr \<lparr> kreq_Start = start, kreq_End = end', kreq_Scope = scope,
            kreq_Selector = \<lparr> sel_AZ = az, sel_Env = env, sel_Cluster = cluster,
              sel_Namespace = gm_list v ''namespace'' \<rparr> \<rparr>)))))))"

section \<open>What the checks accept\<close>

text \<open>A value that may reach an upstream query; an empty value is skipped everywhere.\<close>

definition cleanValue :: "string \<Rightarrow> bool" where
  "cleanValue s = (length s \<le> 253 \<and> ValidString s \<and> \<not> hasControl s)"

lemma cleanValue_Nil [simp]: "cleanValue []"
  by (simp add: cleanValue_def ValidString_def hasControl_def)

lemma cleanValue_newline: "cleanValue s \<Longrightarrow> CHR 0x0A \<notin> set s"
  by (simp add: cleanValue_def no_newline)

lemma validateSelectorValues_None: "validateSelectorValues p vs = None \<longleftrightarrow> (\<forall>s\<in>set vs. cleanValue s)"
  by (induction vs) (auto simp: cleanValue_def maxSelectorValueLen_def ValidString_def hasControl_def)

lemma validateSelectorValues_reason: "validateSelectorValues p vs = Some err \<Longrightarrow> pe_Reason err = ''invalid_scope''"
  by (induction vs) (auto simp: parseError_def split: if_splits)

lemma validateParams_None: "validateParams v ps = None \<longleftrightarrow> (\<forall>p\<in>set ps. \<forall>s\<in>set (gm_list v p). cleanValue s)"
proof (induction ps)
  case (Cons p ps)
  then show ?case
    using validateSelectorValues_None [of p "gm_list v p"] by (cases "validateSelectorValues p (gm_list v p)") auto
qed simp

lemma validateParams_reason: "validateParams v ps = Some err \<Longrightarrow> pe_Reason err = ''invalid_scope''"
  by (induction ps) (auto split: option.splits dest: validateSelectorValues_reason)

lemma nonEmptySorted_set: "nonEmptySorted vs = sorted_list_of_set (set vs - {[]})"
proof -
  have "{x \<in> set vs. x \<noteq> []} = set vs - {[]}" by auto
  then show ?thesis by (simp add: nonEmptySorted_def Compact_sort_set)
qed

lemma set_nonEmptySorted [simp]: "set (nonEmptySorted vs) = set vs - {[]}"
  by (simp add: nonEmptySorted_set)

lemma nonEmptySorted_Nil: "nonEmptySorted vs = [] \<longleftrightarrow> \<not> hasValue vs"
  by (simp add: nonEmptySorted_set hasValue_iff)

lemma hasNonEmpty_iff: "hasNonEmpty vs \<longleftrightarrow> hasValue vs"
  by (induction vs) auto

text \<open>A switch: repeated values are one value, empty ones none.\<close>

definition oneOf :: "string list \<Rightarrow> string set \<Rightarrow> bool" where
  "oneOf vs lits = (\<exists>l\<in>lits. set vs \<subseteq> {[], l})"

lemma nonEmptySorted_single: "nonEmptySorted vs = [x] \<longleftrightarrow> set vs - {[]} = {x}"
proof
  assume "nonEmptySorted vs = [x]"
  then have "set (nonEmptySorted vs) = {x}" by simp
  then show "set vs - {[]} = {x}" by simp
qed (simp add: nonEmptySorted_set)

lemma oneOf_iff:
  assumes "[] \<notin> lits" and "lits \<noteq> {}"
  shows "oneOf vs lits \<longleftrightarrow> nonEmptySorted vs = [] \<or> (\<exists>l\<in>lits. nonEmptySorted vs = [l])"
proof -
  have "set vs \<subseteq> {[], l} \<longleftrightarrow> set vs - {[]} = {} \<or> set vs - {[]} = {l}" for l by blast
  then show ?thesis using assms unfolding oneOf_def nonEmptySorted_single nonEmptySorted_Nil hasValue_iff by blast
qed

lemma oneOf_clean: "\<forall>l\<in>lits. cleanValue l \<Longrightarrow> oneOf vs lits \<Longrightarrow> \<forall>s\<in>set vs. cleanValue s"
  unfolding oneOf_def using cleanValue_Nil by blast

lemma literals_clean: "cleanValue ''true''" "cleanValue ''false''" "cleanValue RollupLast" "cleanValue RollupMax" "cleanValue RollupAvg"
  by (simp_all add: cleanValue_def ValidString_def hasControl_def byteAt_def IsControl_def)

lemma single_value:
  assumes "nonEmptySorted vs = [l]" and "l' \<noteq> []"
  shows "l' \<in> set vs \<longleftrightarrow> l = l'"
proof -
  have "l' \<in> set vs \<longleftrightarrow> l' \<in> set vs - {[]}" using assms(2) by simp
  also have "\<dots> \<longleftrightarrow> l = l'" using assms(1) unfolding nonEmptySorted_single by auto
  finally show ?thesis .
qed

lemma no_value: "nonEmptySorted vs = [] \<Longrightarrow> l' \<noteq> [] \<Longrightarrow> l' \<notin> set vs"
  unfolding nonEmptySorted_Nil hasValue_iff by blast

lemma invalid_values:
  assumes "\<not> (\<forall>s\<in>set vs. cleanValue s)"
  obtains e where "validateSelectorValues p vs = Some e" "pe_Reason e = ''invalid_scope''"
proof -
  obtain e where e: "validateSelectorValues p vs = Some e" using assms validateSelectorValues_None by blast
  show ?thesis by (rule that [OF e validateSelectorValues_reason [OF e]])
qed

lemma reason_parseError [simp]: "pe_Reason (parseError r m) = r"
  by (simp add: parseError_def)

lemma parseIODelta_ok:
  assumes "oneOf vs {''true'', ''false''}"
  shows "parseIODelta quote vs = Inr (''true'' \<in> set vs)"
proof -
  have v: "validateSelectorValues ''io_delta'' vs = None"
    using oneOf_clean [OF _ assms] literals_clean unfolding validateSelectorValues_None by blast
  consider "nonEmptySorted vs = []" | "nonEmptySorted vs = [''true'']" | "nonEmptySorted vs = [''false'']"
    using assms oneOf_iff [of "{''true'', ''false''}" vs] by auto
  then show ?thesis
    by cases (simp_all add: parseIODelta_def v Let_def single_value no_value)
qed

lemma parseIODelta_bad:
  assumes "\<not> oneOf vs {''true'', ''false''}"
  shows "\<exists>e. parseIODelta quote vs = Inl e \<and> pe_Reason e = ''invalid_scope''"
proof (cases "\<forall>s\<in>set vs. cleanValue s")
  case False
  then obtain e where "validateSelectorValues ''io_delta'' vs = Some e" "pe_Reason e = ''invalid_scope''"
    by (rule invalid_values)
  then show ?thesis unfolding parseIODelta_def by simp
next
  case True
  have "nonEmptySorted vs \<noteq> []" "nonEmptySorted vs \<noteq> [''true'']" "nonEmptySorted vs \<noteq> [''false'']"
    using assms oneOf_iff [of "{''true'', ''false''}" vs] by auto
  moreover have "validateSelectorValues ''io_delta'' vs = None" using True by (simp add: validateSelectorValues_None)
  ultimately show ?thesis by (simp add: parseIODelta_def Let_def)
qed

lemma ParseRollup_literals: "ParseRollup quote x = (if x \<in> {[], RollupLast} then Inr RollupLast
    else if x \<in> {RollupMax, RollupAvg} then Inr x else Inl (InvalidRollupMessage quote ''rollup'' x))"
  unfolding ParseRollup_def by simp

abbreviation rollupLits :: "string set" where "rollupLits \<equiv> {RollupLast, RollupMax, RollupAvg}"

lemma parseIORollup_ok:
  assumes "oneOf vs rollupLits"
  shows "parseIORollup quote vs =
    Inr (if RollupMax \<in> set vs then RollupMax else if RollupAvg \<in> set vs then RollupAvg else RollupLast)"
proof -
  have v: "validateSelectorValues ''io_rollup'' vs = None"
    using oneOf_clean [OF _ assms] literals_clean unfolding validateSelectorValues_None by blast
  consider "nonEmptySorted vs = []" | "nonEmptySorted vs = [RollupLast]" | "nonEmptySorted vs = [RollupMax]"
    | "nonEmptySorted vs = [RollupAvg]"
    using assms oneOf_iff [of rollupLits vs] by auto
  then show ?thesis
    by cases (simp_all add: parseIORollup_def v Let_def single_value no_value ParseRollup_literals)
qed

lemma parseIORollup_bad:
  assumes "\<not> oneOf vs rollupLits"
  shows "\<exists>e. parseIORollup quote vs = Inl e \<and> pe_Reason e = ''invalid_scope''"
proof (cases "\<forall>s\<in>set vs. cleanValue s")
  case False
  then obtain e where "validateSelectorValues ''io_rollup'' vs = Some e" "pe_Reason e = ''invalid_scope''"
    by (rule invalid_values)
  then show ?thesis unfolding parseIORollup_def by simp
next
  case True
  then have v: "validateSelectorValues ''io_rollup'' vs = None" by (simp add: validateSelectorValues_None)
  have n: "nonEmptySorted vs \<noteq> []" "nonEmptySorted vs \<noteq> [RollupLast]" "nonEmptySorted vs \<noteq> [RollupMax]"
    "nonEmptySorted vs \<noteq> [RollupAvg]"
    using assms oneOf_iff [of rollupLits vs] by auto
  obtain x xs where got: "nonEmptySorted vs = x # xs" using n(1) by (cases "nonEmptySorted vs") auto
  have "x \<in> set (nonEmptySorted vs)" unfolding got by simp
  then have x: "x \<noteq> []" unfolding set_nonEmptySorted by blast
  show ?thesis
  proof (cases xs)
    case Nil
    then have "x \<noteq> RollupLast" "x \<noteq> RollupMax" "x \<noteq> RollupAvg" using n got by auto
    then show ?thesis using x by (simp add: parseIORollup_def v Let_def got Nil ParseRollup_literals)
  next
    case (Cons y ys)
    then show ?thesis by (simp add: parseIORollup_def v Let_def got)
  qed
qed

section \<open>The reason of a rejection\<close>

text \<open>
  The contract of the three endpoints in terms of the parameter values as sets: the first check that
  fails gives the reason, and a request without one is accepted.
\<close>

definition timeOf :: "string \<Rightarrow> Time option" where
  "timeOf s = (case ParseInt64 s of Some n \<Rightarrow> Some (timeUnix n) | None \<Rightarrow> ParseRFC3339 s)"

definition windowReason :: "Values \<Rightarrow> string option" where
  "windowReason v =
     (let a = query_get v ''start''; b = query_get v ''end'' in
      if a = [] then Some ''missing_start''
      else if b = [] then Some ''missing_end''
      else if timeOf a = None then Some ''invalid_start''
      else if timeOf b = None then Some ''invalid_end''
      else if instant (the (timeOf b)) \<le> instant (the (timeOf a)) then Some ''invalid_range''
      else None)"

definition dirty :: "Values \<Rightarrow> string set \<Rightarrow> bool" where
  "dirty v ps = (\<exists>p\<in>ps. \<exists>s\<in>set (gm_list v p). \<not> cleanValue s)"

definition rootReason :: "Values \<Rightarrow> string list \<Rightarrow> string option" where
  "rootReason v params =
     (let kinds = filter (\<lambda>p. hasValue (gm_list v p)) params in
      if kinds = [] then Some ''missing_root''
      else if length kinds \<noteq> 1 \<or> (\<exists>s\<in>set (gm_list v (hd kinds)) - {[]}. malformed (hd kinds) s)
      then Some ''invalid_scope''
      else None)"

definition graphReason :: "Values \<Rightarrow> string option" where
  "graphReason v =
     (if windowReason v \<noteq> None then windowReason v
      else if dirty v {''cluster'', ''namespace'', ''az'', ''env''} then Some ''invalid_scope''
      else if query_get v ''prune'' \<notin> {[], ''true'', ''false''} then Some ''invalid_scope''
      else None)"

definition storageReason :: "Values \<Rightarrow> string option" where
  "storageReason v =
     (if windowReason v \<noteq> None then windowReason v
      else if \<not> hasValue (gm_list v ''az'') then Some ''missing_az''
      else if \<not> hasValue (gm_list v ''env'') then Some ''missing_env''
      else if dirty v ({''cluster'', ''namespace'', ''az'', ''env''} \<union> set storageRootParams) then Some ''invalid_scope''
      else if rootReason v storageRootParams \<noteq> None then rootReason v storageRootParams
      else if \<not> oneOf (gm_list v ''io_rollup'') {''last'', ''max'', ''avg''} then Some ''invalid_scope''
      else if \<not> oneOf (gm_list v ''io_delta'') {''true'', ''false''} then Some ''invalid_scope''
      else None)"

definition k8sReason :: "Values \<Rightarrow> string option" where
  "k8sReason v =
     (if windowReason v \<noteq> None then windowReason v
      else if \<not> hasValue (gm_list v ''cluster'') then Some ''missing_cluster''
      else if \<not> hasValue (gm_list v ''az'') then Some ''missing_az''
      else if \<not> hasValue (gm_list v ''env'') then Some ''missing_env''
      else if dirty v ({''cluster'', ''namespace'', ''az'', ''env''} \<union> set k8sRootParams) then Some ''invalid_scope''
      else rootReason v k8sRootParams)"

definition reasonOf :: "ParseError + 'r \<Rightarrow> string option" where
  "reasonOf r = (case r of Inl e \<Rightarrow> Some (pe_Reason e) | Inr _ \<Rightarrow> None)"

lemma reasonOf_simps [simp]: "reasonOf (Inl e) = Some (pe_Reason e)" "reasonOf (Inr r) = None"
  by (simp_all add: reasonOf_def)

lemma parseTimestamp_timeOf:
  "parseTimestamp quote s = (case timeOf s of Some t \<Rightarrow> Inr t
     | None \<Rightarrow> Inl (''timestamp must be RFC 3339 or Unix seconds: '' @ quote s))"
  by (simp add: parseTimestamp_def timeOf_def split: option.splits)

lemma timeOf_wf: "timeOf s = Some t \<Longrightarrow> wfTime t"
  using parseTimestamp_wf [of id s t] by (simp add: parseTimestamp_timeOf)

lemma parseWindow_reason: "reasonOf (parseWindow quote v) = windowReason v"
  by (auto simp: parseWindow_def windowReason_def Let_def parseTimestamp_timeOf After_instant timeOf_wf not_less
      split: option.splits)

lemma parseWindow_Inr:
  assumes "parseWindow quote v = Inr (a, b)"
  shows "wfTime a \<and> wfTime b \<and> instant a < instant b \<and>
    timeOf (query_get v ''start'') = Some a \<and> timeOf (query_get v ''end'') = Some b"
  using assms After_instant [of b a] timeOf_wf [of _ a] timeOf_wf [of _ b]
  by (auto simp: parseWindow_def Let_def parseTimestamp_timeOf split: if_splits option.splits)

lemma atLeastOne_eq:
  "atLeastOne p vs = (if hasValue vs then Inr (sorted_list_of_set (set vs - {[]}))
     else Inl (parseError (''missing_'' @ p) (p @ '' query parameter is required'')))"
  using nonEmptySorted_Nil [of vs] by (simp add: atLeastOne_def nonEmptySorted_set)

lemma dirty_eq: "dirty v (set ps) \<longleftrightarrow> validateParams v ps \<noteq> None"
  by (auto simp: dirty_def validateParams_None)

lemma NewStorageScope_eq:
  assumes "kind \<in> set StorageRootKinds"
  shows "(\<exists>e. NewStorageScope cs ns kind vs = Inl e) \<longleftrightarrow> (\<exists>s\<in>set vs - {[]}. malformed kind s)"
    and "NewStorageScope cs ns kind vs = Inr sc \<longleftrightarrow> (\<forall>s\<in>set vs - {[]}. \<not> malformed kind s) \<and>
      sc = \<lparr> ss_Clusters = stringSet cs, ss_Namespaces = stringSet ns, ss_Roots = rootsOf kind (set vs - {[]}) \<rparr>"
proof -
  have k: "kind \<noteq> []" using assms by (auto simp: StorageRootKinds_def)
  have n: "newStorageRoots kind vs = (case find (malformed kind) (nonEmpty vs) of
        Some v \<Rightarrow> Inl (InvalidRoot kind v) | None \<Rightarrow> Inr (rootsOf kind (set vs - {[]})))"
    using assms k unfolding newStorageRoots_eq set_nonEmpty by simp
  have f: "find (malformed kind) (nonEmpty vs) = None \<longleftrightarrow> (\<forall>s\<in>set vs - {[]}. \<not> malformed kind s)"
    by (auto simp: find_None_iff set_nonEmpty)
  show "(\<exists>e. NewStorageScope cs ns kind vs = Inl e) \<longleftrightarrow> (\<exists>s\<in>set vs - {[]}. malformed kind s)"
    using f by (cases "find (malformed kind) (nonEmpty vs)") (auto simp: NewStorageScope_def n)
  show "NewStorageScope cs ns kind vs = Inr sc \<longleftrightarrow> (\<forall>s\<in>set vs - {[]}. \<not> malformed kind s) \<and>
      sc = \<lparr> ss_Clusters = stringSet cs, ss_Namespaces = stringSet ns, ss_Roots = rootsOf kind (set vs - {[]}) \<rparr>"
    using f by (cases "find (malformed kind) (nonEmpty vs)") (auto simp: NewStorageScope_def n)
qed

text \<open>The root of a request: the one kind with a value, unless a value does not parse.\<close>

lemma oneStorageRoot_cases:
  fixes v :: Values and ps :: "string list"
  defines "kinds \<equiv> filter (\<lambda>p. hasValue (gm_list v p)) ps"
  obtains e where "oneStorageRoot v ps msg = Inl e" "length kinds \<noteq> 1" "rootReason v ps = Some (pe_Reason e)"
  | "oneStorageRoot v ps msg = Inr (hd kinds, gm_list v (hd kinds))" "length kinds = 1" "hd kinds \<in> set ps"
    "hasValue (gm_list v (hd kinds))"
    "rootReason v ps = (if \<exists>s\<in>set (gm_list v (hd kinds)) - {[]}. malformed (hd kinds) s then Some ''invalid_scope'' else None)"
proof -
  have present: "filter (\<lambda>p. hasNonEmpty (gm_list v p)) ps = kinds" by (simp add: kinds_def hasNonEmpty_iff)
  have reason: "rootReason v ps = (if kinds = [] then Some ''missing_root''
      else if length kinds \<noteq> 1 \<or> (\<exists>s\<in>set (gm_list v (hd kinds)) - {[]}. malformed (hd kinds) s)
      then Some ''invalid_scope'' else None)"
    unfolding rootReason_def Let_def kinds_def ..
  consider "kinds = []" | p where "kinds = [p]" | p q ks where "kinds = p # q # ks"
    by (cases kinds rule: remdups_adj.cases) auto
  then show ?thesis
  proof cases
    case 1
    show ?thesis by (rule that(1) [of "parseError ''missing_root'' msg"]) (simp_all add: oneStorageRoot_def present reason 1)
  next
    case 2
    then have "p \<in> set kinds" by simp
    then have "p \<in> set ps" "hasValue (gm_list v p)" by (simp_all add: kinds_def)
    then show ?thesis by (intro that(2)) (simp_all add: oneStorageRoot_def present reason 2)
  next
    case 3
    show ?thesis
      by (rule that(1) [of "parseError ''invalid_scope'' (''exactly one root kind is allowed, got '' @ Join kinds '' and '')"])
        (simp_all add: oneStorageRoot_def present reason 3)
  qed
qed

lemma root_params: "set storageRootParams \<subseteq> set StorageRootKinds" "set k8sRootParams \<subseteq> set StorageRootKinds"
  by (simp_all add: storageRootParams_def k8sRootParams_def StorageRootKinds_def)

text \<open>Reading the root and building the scope, for a list of root parameters.\<close>

lemma scope_cases:
  assumes "set ps \<subseteq> set StorageRootKinds"
  obtains e where "oneStorageRoot v ps msg = Inl e" "rootReason v ps = Some (pe_Reason e)"
  | kind vs e where "oneStorageRoot v ps msg = Inr (kind, vs)" "NewStorageScope cs ns kind vs = Inl e"
    "rootReason v ps = Some ''invalid_scope''"
  | kind where "oneStorageRoot v ps msg = Inr (kind, gm_list v kind)" "rootReason v ps = None"
    "kind \<in> set ps" "filter (\<lambda>p. hasValue (gm_list v p)) ps = [kind]"
    "NewStorageScope cs ns kind (gm_list v kind) = Inr \<lparr> ss_Clusters = stringSet cs, ss_Namespaces = stringSet ns,
       ss_Roots = rootsOf kind (set (gm_list v kind) - {[]}) \<rparr>"
    "\<forall>s\<in>set (gm_list v kind) - {[]}. \<not> malformed kind s"
proof (rule oneStorageRoot_cases [of v ps msg])
  fix e assume "oneStorageRoot v ps msg = Inl e" "rootReason v ps = Some (pe_Reason e)"
  then show ?thesis by (rule that(1))
next
  define kinds where "kinds = filter (\<lambda>p. hasValue (gm_list v p)) ps"
  assume one: "oneStorageRoot v ps msg = Inr (hd (filter (\<lambda>p. hasValue (gm_list v p)) ps),
      gm_list v (hd (filter (\<lambda>p. hasValue (gm_list v p)) ps)))"
    and len: "length (filter (\<lambda>p. hasValue (gm_list v p)) ps) = 1"
    and mem: "hd (filter (\<lambda>p. hasValue (gm_list v p)) ps) \<in> set ps"
    and reason: "rootReason v ps = (if \<exists>s\<in>set (gm_list v (hd (filter (\<lambda>p. hasValue (gm_list v p)) ps))) - {[]}.
       malformed (hd (filter (\<lambda>p. hasValue (gm_list v p)) ps)) s then Some ''invalid_scope'' else None)"
  obtain kind where k: "filter (\<lambda>p. hasValue (gm_list v p)) ps = [kind]"
    using len by (cases "filter (\<lambda>p. hasValue (gm_list v p)) ps") auto
  have kind: "kind \<in> set StorageRootKinds" using mem assms k by auto
  note n = NewStorageScope_eq [OF kind, of cs ns "gm_list v kind"]
  show ?thesis
  proof (cases "\<exists>s\<in>set (gm_list v kind) - {[]}. malformed kind s")
    case True
    then obtain e where "NewStorageScope cs ns kind (gm_list v kind) = Inl e" using n(1) by blast
    then show ?thesis using one reason True unfolding k list.sel if_P [OF True] by (intro that(2))
  next
    case False
    then have "\<forall>s\<in>set (gm_list v kind) - {[]}. \<not> malformed kind s" by blast
    then show ?thesis using one reason mem n(2) unfolding k list.sel if_not_P [OF False]
      by (intro that(3) [OF _ _ _ k]) auto
  qed
qed

lemma parsePrune_eq:
  "reasonOf (parsePrune quote raw) = (if raw \<in> {[], ''true'', ''false''} then None else Some ''invalid_scope'')"
  unfolding parsePrune_def by simp

lemma window_reason: "windowReason v = reasonOf (parseWindow quote v)"
  by (simp add: parseWindow_reason)

lemma selector_dirty:
  "dirty v {''cluster'', ''namespace'', ''az'', ''env''}
    \<longleftrightarrow> validateParams v [''cluster'', ''namespace'', ''az'', ''env''] \<noteq> None"
  using dirty_eq [of v "[''cluster'', ''namespace'', ''az'', ''env'']"] by (simp only: list.set)

abbreviation storageParams :: "string list" where
  "storageParams \<equiv> [''cluster'', ''namespace'', ''az'', ''env'', ''ontap_cluster'', ''ontap_node'', ''node'',
     ''aggr'', ''svm'', ''pod'', ''pvc'', ''pv'', ''application'']"

lemma storage_dirty:
  "dirty v ({''cluster'', ''namespace'', ''az'', ''env''} \<union> set storageRootParams) \<longleftrightarrow> validateParams v storageParams \<noteq> None"
proof -
  have "set storageParams = {''cluster'', ''namespace'', ''az'', ''env''} \<union> set storageRootParams"
    unfolding storageRootParams_def list.set by (simp only: Un_insert_left Un_empty_left Un_empty_right insert_commute)
  then show ?thesis using dirty_eq [of v storageParams] by (simp only:)
qed

lemma k8s_dirty:
  "dirty v ({''cluster'', ''namespace'', ''az'', ''env''} \<union> set k8sRootParams)
    \<longleftrightarrow> validateParams v ([''cluster'', ''namespace'', ''az'', ''env''] @ k8sRootParams) \<noteq> None"
  using dirty_eq [of v "[''cluster'', ''namespace'', ''az'', ''env''] @ k8sRootParams"] by (simp only: list.set set_append)

lemma ParseValues_reason: "reasonOf (ParseValues quote v) = graphReason v"
proof (cases "parseWindow quote v")
  case (Inr w)
  have d: "dirty v {''cluster'', ''namespace'', ''az'', ''env''}
      \<longleftrightarrow> validateParams v [''cluster'', ''namespace'', ''az'', ''env''] \<noteq> None"
    using dirty_eq [of v "[''cluster'', ''namespace'', ''az'', ''env'']"] by (simp only: list.set)
  show ?thesis
  proof (cases "validateParams v [''cluster'', ''namespace'', ''az'', ''env'']")
    case None
    then show ?thesis using Inr d window_reason [of v quote] parsePrune_eq [of quote "query_get v ''prune''"]
      unfolding ParseValues_def graphReason_def by (cases "parsePrune quote (query_get v ''prune'')") (auto split: prod.splits if_splits)
  next
    case (Some e)
    then show ?thesis using Inr d window_reason [of v quote] validateParams_reason [OF Some]
      unfolding ParseValues_def graphReason_def by (simp split: prod.splits)
  qed
qed (simp add: ParseValues_def graphReason_def window_reason [of v quote])

lemma first_failure:
  assumes "\<not> (A \<and> B \<and> x = None)"
  obtains "\<not> A" | "A" "\<not> B" | e where "A" "B" "x = Some e"
  using assms by (cases x) auto

lemma first_failure4:
  assumes "\<not> (A \<and> B \<and> C \<and> x = None)"
  obtains "\<not> A" | "A" "\<not> B" | "A" "B" "\<not> C" | e where "A" "B" "C" "x = Some e"
  using assms by (cases x) auto

lemma ParseStorageValues_reason: "reasonOf (ParseStorageValues quote v) = storageReason v"
proof (cases "parseWindow quote v")
  case (Inr w)
  obtain a b where w: "w = (a, b)" by (cases w)
  have win: "windowReason v = None" using Inr by (simp add: window_reason [of v quote])
  show ?thesis
  proof (cases "hasValue (gm_list v ''az'') \<and> hasValue (gm_list v ''env'') \<and> validateParams v storageParams = None")
    case False
    then show ?thesis
    proof (rule first_failure)
      fix e assume e: "hasValue (gm_list v ''az'')" "hasValue (gm_list v ''env'')" "validateParams v storageParams = Some e"
      then show ?thesis using validateParams_reason [OF e(3)]
        unfolding ParseStorageValues_def storageReason_def Inr w storage_dirty atLeastOne_eq by (simp add: win)
    qed (simp_all add: ParseStorageValues_def storageReason_def Inr w win atLeastOne_eq)
  next
    case True
    note pre = Inr w win storage_dirty atLeastOne_eq
    show ?thesis
    proof (rule scope_cases [OF root_params(1), where v = v and msg = "''a storage-graph request requires exactly one root kind''"
          and cs = "gm_list v ''cluster''" and ns = "gm_list v ''namespace''"])
      fix e assume "oneStorageRoot v storageRootParams ''a storage-graph request requires exactly one root kind'' = Inl e"
        "rootReason v storageRootParams = Some (pe_Reason e)"
      then show ?thesis using True unfolding ParseStorageValues_def storageReason_def pre by simp
    next
      fix kind vs e assume "oneStorageRoot v storageRootParams ''a storage-graph request requires exactly one root kind'' = Inr (kind, vs)"
        "NewStorageScope (gm_list v ''cluster'') (gm_list v ''namespace'') kind vs = Inl e"
        "rootReason v storageRootParams = Some ''invalid_scope''"
      then show ?thesis using True unfolding ParseStorageValues_def storageReason_def pre by simp
    next
      fix kind
      assume root: "oneStorageRoot v storageRootParams ''a storage-graph request requires exactly one root kind'' = Inr (kind, gm_list v kind)"
        "rootReason v storageRootParams = None"
        "NewStorageScope (gm_list v ''cluster'') (gm_list v ''namespace'') kind (gm_list v kind) =
          Inr \<lparr> ss_Clusters = stringSet (gm_list v ''cluster''), ss_Namespaces = stringSet (gm_list v ''namespace''),
            ss_Roots = rootsOf kind (set (gm_list v kind) - {[]}) \<rparr>"
      show ?thesis
      proof (cases "oneOf (gm_list v ''io_rollup'') rollupLits")
        case False
        then show ?thesis using True root parseIORollup_bad [OF False, of quote]
          unfolding ParseStorageValues_def storageReason_def pre by (elim exE conjE) simp
      next
        case roll: True
        show ?thesis
        proof (cases "oneOf (gm_list v ''io_delta'') {''true'', ''false''}")
          case False
          then show ?thesis using True root roll parseIORollup_ok [OF roll, of quote] parseIODelta_bad [OF False, of quote]
            unfolding ParseStorageValues_def storageReason_def pre by (elim exE conjE) simp
        next
          case dl: True
          then show ?thesis using True root roll parseIORollup_ok [OF roll, of quote] parseIODelta_ok [OF dl, of quote]
            unfolding ParseStorageValues_def storageReason_def pre by simp
        qed
      qed
    qed
  qed
qed (simp add: ParseStorageValues_def storageReason_def window_reason [of v quote])

lemma ParseK8sValues_reason: "reasonOf (ParseK8sValues quote v) = k8sReason v"
proof (cases "parseWindow quote v")
  case (Inr w)
  obtain a b where w: "w = (a, b)" by (cases w)
  have win: "windowReason v = None" using Inr by (simp add: window_reason [of v quote])
  let ?ps = "[''cluster'', ''namespace'', ''az'', ''env''] @ k8sRootParams"
  let ?has = "\<lambda>p. hasValue (gm_list v p)"
  show ?thesis
  proof (cases "?has ''cluster'' \<and> ?has ''az'' \<and> ?has ''env'' \<and> validateParams v ?ps = None")
    case False
    then show ?thesis
    proof (rule first_failure4)
      fix e assume e: "?has ''cluster''" "?has ''az''" "?has ''env''" "validateParams v ?ps = Some e"
      then show ?thesis using validateParams_reason [OF e(4)]
        unfolding ParseK8sValues_def k8sReason_def Inr w k8s_dirty atLeastOne_eq by (simp add: win)
    qed (simp_all add: ParseK8sValues_def k8sReason_def Inr w win atLeastOne_eq)
  next
    case True
    note pre = Inr w win k8s_dirty atLeastOne_eq
    show ?thesis
      unfolding ParseK8sValues_def k8sReason_def pre
      by (rule scope_cases [OF root_params(2), where v = v
            and msg = "''a k8s-graph request requires exactly one root kind, pod or node''"
            and cs = "sorted_list_of_set (set (gm_list v ''cluster'') - {[]})" and ns = "gm_list v ''namespace''"];
          use True in \<open>simp\<close>)
  qed
qed (simp add: ParseK8sValues_def k8sReason_def window_reason [of v quote])

text \<open>
  C36: what each endpoint of the graph API rejects, and why. The reason of a failed parse is the first check
  of the contract the request breaks, a check on the set of a parameter's values; a request that breaks none
  is accepted. Neither the order of values nor the text of messages matters to it.
\<close>

theorem request_reasons:
  "reasonOf (ParseValues quote v) = graphReason v \<and> reasonOf (ParseStorageValues quote v) = storageReason v \<and>
   reasonOf (ParseK8sValues quote v) = k8sReason v"
  by (intro conjI ParseValues_reason ParseStorageValues_reason ParseK8sValues_reason)

section \<open>What an accepted request carries\<close>

lemma rootsOf_Any:
  assumes "finite V" and "V \<noteq> {}" and "\<forall>v\<in>V. \<not> malformed kind v" and "kind \<noteq> []"
  shows "StorageRoots_Any (rootsOf kind V) \<and> roots_Kind (rootsOf kind V) = kind"
proof -
  obtain w where "w \<in> V" "\<not> subsumed V w"
  proof (cases "\<exists>v\<in>V. subsumed V v")
    case True
    then obtain r where r: "ref_ok r" "ref_Name r \<in> V" unfolding subsumed_def by blast
    moreover have "\<not> subsumed V (ref_Name r)" using r(1) RefString_slash unfolding subsumed_def ref_ok_def by metis
    ultimately show ?thesis using that by blast
  qed (use assms(2) that in blast)
  then have "set (rootValues (rootsOf kind V)) \<noteq> {}"
    unfolding rootValues_rootsOf [OF assms(1,3,4)] by blast
  moreover have k: "roots_Kind (rootsOf kind V) = kind" using assms(2,4) by (simp add: rootsOf_def Let_def)
  ultimately show ?thesis using assms(4) by (auto simp: StorageRoots_Any_def rootValues_def)
qed

lemma selector_exact:
  assumes "wellKeyed keys" and "\<forall>v\<in>selectorValues s. cleanValue v"
  shows "\<exists>ms. parseFragment (render s d keys) = Some ms \<and>
    (\<forall>L. (\<forall>m\<in>set ms. matcherHolds L m) \<longleftrightarrow> selects s d keys L)"
proof -
  have "\<forall>v\<in>selectorValues s. CHR 0x0A \<notin> set v" using assms(2) cleanValue_newline by blast
  from parseFragment_Join [OF fragmentMatchers_readable [OF assms(1) this]] show ?thesis
    using fragmentMatchers_select unfolding render_eq by blast
qed

text \<open>A scope whose root came from one of the given parameters.\<close>

definition rootedScope :: "Values \<Rightarrow> string list \<Rightarrow> StorageScope \<Rightarrow> bool" where
  "rootedScope v params sc = (\<exists>kind\<in>set params.
     filter (\<lambda>p. hasValue (gm_list v p)) params = [kind] \<and>
     ss_Roots sc = rootsOf kind (set (gm_list v kind) - {[]}) \<and>
     StorageRoots_Any (ss_Roots sc) \<and> roots_Kind (ss_Roots sc) = kind)"

lemma scope_rooted:
  assumes "set ps \<subseteq> set StorageRootKinds" and "oneStorageRoot v ps msg = Inr (kind, vs)"
    and "NewStorageScope cs ns kind vs = Inr sc"
  shows "rootedScope v ps sc"
proof (rule scope_cases [OF assms(1), where v = v and msg = msg and cs = cs and ns = ns])
  fix k
  assume one: "oneStorageRoot v ps msg = Inr (k, gm_list v k)"
    and r: "k \<in> set ps" "filter (\<lambda>p. hasValue (gm_list v p)) ps = [k]"
      "\<forall>s\<in>set (gm_list v k) - {[]}. \<not> malformed k s"
    and sc: "NewStorageScope cs ns k (gm_list v k) = Inr \<lparr> ss_Clusters = stringSet cs, ss_Namespaces = stringSet ns,
       ss_Roots = rootsOf k (set (gm_list v k) - {[]}) \<rparr>"
  have "k \<in> set (filter (\<lambda>p. hasValue (gm_list v p)) ps)" using r(2) by simp
  then have has: "set (gm_list v k) - {[]} \<noteq> {}" unfolding hasValue_iff by simp
  have k: "k \<noteq> []" using r(1) assms(1) by (auto simp: StorageRootKinds_def)
  have "StorageRoots_Any (rootsOf k (set (gm_list v k) - {[]})) \<and> roots_Kind (rootsOf k (set (gm_list v k) - {[]})) = k"
    by (rule rootsOf_Any [OF _ has r(3) k]) simp
  moreover have kv: "kind = k" "vs = gm_list v k" using assms(2) one by (metis Inr_inject Pair_inject)+
  moreover have "ss_Roots sc = rootsOf k (set (gm_list v k) - {[]})" using assms(3) sc unfolding kv by auto
  ultimately show ?thesis using r(1,2) unfolding rootedScope_def by (intro bexI [of _ k] conjI) simp_all
qed (use assms in simp_all)

lemma oneOf_rollup: "parseIORollup quote vs = Inr r \<Longrightarrow> r \<in> rollupLits"
  using parseIORollup_bad [of vs quote] parseIORollup_ok [of vs quote] by (cases "oneOf vs rollupLits") (auto split: if_split_asm)

text \<open>
  An accepted request of \<open>/v1/graph\<close> has a window of positive length, and its selector, rendered into
  any query, is read back as exactly the matchers the request asked for: no value can break out of its
  literal or change the query.
\<close>

theorem ParseValues_safe:
  assumes "ParseValues quote v = Inr r" and "wellKeyed keys"
  shows "instant (req_Start r) < instant (req_End r) \<and>
    req_Scope r = NewScope (gm_list v ''cluster'') (gm_list v ''namespace'') (query_get v ''prune'' = ''false'') \<and>
    (\<exists>ms. parseFragment (render (req_Selector r) d keys) = Some ms \<and>
      (\<forall>L. (\<forall>m\<in>set ms. matcherHolds L m) \<longleftrightarrow> selects (req_Selector r) d keys L))"
proof -
  obtain a b prune where p: "parseWindow quote v = Inr (a, b)"
      "validateParams v [''cluster'', ''namespace'', ''az'', ''env''] = None"
      "parsePrune quote (query_get v ''prune'') = Inr prune"
    and r: "r = \<lparr> req_Start = a, req_End = b,
        req_Scope = NewScope (gm_list v ''cluster'') (gm_list v ''namespace'') (\<not> prune),
        req_Selector = \<lparr> sel_AZ = gm_list v ''az'', sel_Env = gm_list v ''env'',
          sel_Cluster = gm_list v ''cluster'', sel_Namespace = gm_list v ''namespace'' \<rparr> \<rparr>"
    using assms(1) unfolding ParseValues_def by (simp split: sum.splits option.splits prod.splits)
  have "\<forall>x\<in>selectorValues (req_Selector r). cleanValue x"
    using p(2) unfolding validateParams_None r selectorValues_def by auto
  moreover have "prune \<longleftrightarrow> query_get v ''prune'' \<noteq> ''false''"
    using p(3) unfolding parsePrune_def by (auto split: if_splits)
  ultimately show ?thesis
    using selector_exact [OF assms(2)] parseWindow_Inr [OF p(1)] unfolding r by (intro conjI) simp_all
qed

lemma sel_sets:
  "set (sorted_list_of_set (set vs - {[]})) = set vs - {[]}" "hasValue (sorted_list_of_set (set vs - {[]})) = hasValue vs"
  by (simp_all add: hasValue_iff)

text \<open>
  C37: an accepted storage request has a window of positive length, at least one zone and one environment,
  exactly one root kind with a usable root, and one of the three rollups; its selector renders to exactly
  the matchers it asked for.
\<close>

theorem ParseStorageValues_safe:
  assumes "ParseStorageValues quote v = Inr r" and "wellKeyed keys"
  shows "instant (sreq_Start r) < instant (sreq_End r) \<and>
    hasValue (sel_AZ (sreq_Selector r)) \<and> hasValue (sel_Env (sreq_Selector r)) \<and>
    rootedScope v storageRootParams (sreq_Scope r) \<and> sreq_IORollup r \<in> {''last'', ''max'', ''avg''} \<and>
    (\<exists>ms. parseFragment (render (sreq_Selector r) d keys) = Some ms \<and>
      (\<forall>L. (\<forall>m\<in>set ms. matcherHolds L m) \<longleftrightarrow> selects (sreq_Selector r) d keys L))"
proof -
  have az: "hasValue (gm_list v ''az'')" "hasValue (gm_list v ''env'')"
    using assms(1) unfolding ParseStorageValues_def atLeastOne_eq by (simp_all split: sum.splits prod.splits if_split_asm)
  obtain a b kind vs scope roll dl where p: "parseWindow quote v = Inr (a, b)" "validateParams v storageParams = None"
      "oneStorageRoot v storageRootParams ''a storage-graph request requires exactly one root kind'' = Inr (kind, vs)"
      "NewStorageScope (gm_list v ''cluster'') (gm_list v ''namespace'') kind vs = Inr scope"
      "parseIORollup quote (gm_list v ''io_rollup'') = Inr roll"
    and r: "r = \<lparr> sreq_Start = a, sreq_End = b, sreq_Scope = scope,
        sreq_Selector = \<lparr> sel_AZ = sorted_list_of_set (set (gm_list v ''az'') - {[]}),
          sel_Env = sorted_list_of_set (set (gm_list v ''env'') - {[]}),
          sel_Cluster = gm_list v ''cluster'', sel_Namespace = gm_list v ''namespace'' \<rparr>,
        sreq_IORollup = roll, sreq_IODelta = dl \<rparr>"
    using assms(1) az unfolding ParseStorageValues_def atLeastOne_eq
    by (auto simp del: validateParams.simps split: sum.splits option.splits prod.splits)
  have "\<forall>x\<in>selectorValues (sreq_Selector r). cleanValue x"
    using p(2) unfolding validateParams_None r selectorValues_def by (auto simp: sel_sets)
  then have "\<exists>ms. parseFragment (render (sreq_Selector r) d keys) = Some ms \<and>
      (\<forall>L. (\<forall>m\<in>set ms. matcherHolds L m) \<longleftrightarrow> selects (sreq_Selector r) d keys L)"
    by (rule selector_exact [OF assms(2)])
  moreover have "sreq_IORollup r \<in> rollupLits" using oneOf_rollup [OF p(5)] unfolding r by simp
  moreover have "rootedScope v storageRootParams (sreq_Scope r)"
    using scope_rooted [OF root_params(1) p(3,4)] unfolding r by simp
  moreover have "instant (sreq_Start r) < instant (sreq_End r)" using parseWindow_Inr [OF p(1)] unfolding r by simp
  moreover have "hasValue (sel_AZ (sreq_Selector r)) \<and> hasValue (sel_Env (sreq_Selector r))"
    using az unfolding r by (simp add: sel_sets)
  ultimately show ?thesis by (intro conjI) simp_all
qed

text \<open>
  An accepted Kubernetes request has a window of positive length, at least one cluster, zone and
  environment, and exactly one usable root, a pod or a node; its selector renders to exactly the matchers it
  asked for.
\<close>

theorem ParseK8sValues_safe:
  assumes "ParseK8sValues quote v = Inr r" and "wellKeyed keys"
  shows "instant (kreq_Start r) < instant (kreq_End r) \<and> hasValue (sel_Cluster (kreq_Selector r)) \<and>
    hasValue (sel_AZ (kreq_Selector r)) \<and> hasValue (sel_Env (kreq_Selector r)) \<and>
    rootedScope v k8sRootParams (kreq_Scope r) \<and>
    (\<exists>ms. parseFragment (render (kreq_Selector r) d keys) = Some ms \<and>
      (\<forall>L. (\<forall>m\<in>set ms. matcherHolds L m) \<longleftrightarrow> selects (kreq_Selector r) d keys L))"
proof -
  have az: "hasValue (gm_list v ''cluster'')" "hasValue (gm_list v ''az'')" "hasValue (gm_list v ''env'')"
    using assms(1) unfolding ParseK8sValues_def atLeastOne_eq by (simp_all split: sum.splits prod.splits if_split_asm)
  define cl where "cl = sorted_list_of_set (set (gm_list v ''cluster'') - {[]})"
  obtain a b kind vs scope where p: "parseWindow quote v = Inr (a, b)"
      "validateParams v ([''cluster'', ''namespace'', ''az'', ''env''] @ k8sRootParams) = None"
      "oneStorageRoot v k8sRootParams ''a k8s-graph request requires exactly one root kind, pod or node'' = Inr (kind, vs)"
      "NewStorageScope cl (gm_list v ''namespace'') kind vs = Inr scope"
    and r: "r = \<lparr> kreq_Start = a, kreq_End = b, kreq_Scope = scope,
        kreq_Selector = \<lparr> sel_AZ = sorted_list_of_set (set (gm_list v ''az'') - {[]}),
          sel_Env = sorted_list_of_set (set (gm_list v ''env'') - {[]}),
          sel_Cluster = cl, sel_Namespace = gm_list v ''namespace'' \<rparr> \<rparr>"
    using assms(1) az unfolding ParseK8sValues_def atLeastOne_eq cl_def
    by (auto simp del: validateParams.simps split: sum.splits option.splits prod.splits)
  have "\<forall>x\<in>selectorValues (kreq_Selector r). cleanValue x"
    using p(2) unfolding validateParams_None r selectorValues_def cl_def by (auto simp: sel_sets)
  then have "\<exists>ms. parseFragment (render (kreq_Selector r) d keys) = Some ms \<and>
      (\<forall>L. (\<forall>m\<in>set ms. matcherHolds L m) \<longleftrightarrow> selects (kreq_Selector r) d keys L)"
    by (rule selector_exact [OF assms(2)])
  moreover have "rootedScope v k8sRootParams (kreq_Scope r)"
    using scope_rooted [OF root_params(2) p(3,4)] unfolding r by simp
  moreover have "instant (kreq_Start r) < instant (kreq_End r)" using parseWindow_Inr [OF p(1)] unfolding r by simp
  moreover have "hasValue (sel_Cluster (kreq_Selector r)) \<and> hasValue (sel_AZ (kreq_Selector r)) \<and> hasValue (sel_Env (kreq_Selector r))"
    using az unfolding r cl_def by (simp add: sel_sets)
  ultimately show ?thesis by (intro conjI) simp_all
qed

text \<open>Two requests that differ in the order, repetition and empty values of their parameters only.\<close>

definition sameRequest :: "Values \<Rightarrow> Values \<Rightarrow> bool" where
  "sameRequest v v' = (query_get v ''start'' = query_get v' ''start'' \<and> query_get v ''end'' = query_get v' ''end'' \<and>
     (\<forall>p. set (gm_list v p) - {[]} = set (gm_list v' p) - {[]}))"

lemma parseIORollup_Inr:
  assumes "parseIORollup quote vs = Inr r"
  shows "r = (if RollupMax \<in> set vs then RollupMax else if RollupAvg \<in> set vs then RollupAvg else RollupLast)"
proof -
  have one: "oneOf vs rollupLits"
  proof (rule ccontr)
    assume n: "\<not> oneOf vs rollupLits"
    from parseIORollup_bad [OF n, of quote] obtain e where "parseIORollup quote vs = Inl e" by (elim exE conjE)
    then show False using assms by simp
  qed
  show ?thesis using assms unfolding parseIORollup_ok [OF one] by (rule Inr_inject [symmetric])
qed

lemma parseIODelta_Inr:
  assumes "parseIODelta quote vs = Inr r"
  shows "r = (''true'' \<in> set vs)"
proof -
  have one: "oneOf vs {''true'', ''false''}"
  proof (rule ccontr)
    assume n: "\<not> oneOf vs {''true'', ''false''}"
    from parseIODelta_bad [OF n, of quote] obtain e where "parseIODelta quote vs = Inl e" by (elim exE conjE)
    then show False using assms by simp
  qed
  show ?thesis using assms unfolding parseIODelta_ok [OF one] by (rule Inr_inject [symmetric])
qed

lemma ParseStorageValues_Inr:
  assumes "ParseStorageValues quote v = Inr r"
  obtains kind where "kind \<in> set storageRootParams"
    "filter (\<lambda>p. hasValue (gm_list v p)) storageRootParams = [kind]"
    "timeOf (query_get v ''start'') = Some (sreq_Start r)" "timeOf (query_get v ''end'') = Some (sreq_End r)"
    "ss_Roots (sreq_Scope r) = rootsOf kind (set (gm_list v kind) - {[]})"
    "sreq_Selector r = \<lparr> sel_AZ = sorted_list_of_set (set (gm_list v ''az'') - {[]}),
       sel_Env = sorted_list_of_set (set (gm_list v ''env'') - {[]}),
       sel_Cluster = gm_list v ''cluster'', sel_Namespace = gm_list v ''namespace'' \<rparr>"
    "sreq_IORollup r = (if RollupMax \<in> set (gm_list v ''io_rollup'') then RollupMax
       else if RollupAvg \<in> set (gm_list v ''io_rollup'') then RollupAvg else RollupLast)"
    "sreq_IODelta r = (''true'' \<in> set (gm_list v ''io_delta''))"
proof -
  have az: "hasValue (gm_list v ''az'')" "hasValue (gm_list v ''env'')"
    using assms(1) unfolding ParseStorageValues_def atLeastOne_eq by (simp_all split: sum.splits prod.splits if_split_asm)
  obtain a b kind vs scope roll dl where p: "parseWindow quote v = Inr (a, b)"
      "oneStorageRoot v storageRootParams ''a storage-graph request requires exactly one root kind'' = Inr (kind, vs)"
      "NewStorageScope (gm_list v ''cluster'') (gm_list v ''namespace'') kind vs = Inr scope"
      "parseIORollup quote (gm_list v ''io_rollup'') = Inr roll" "parseIODelta quote (gm_list v ''io_delta'') = Inr dl"
    and r: "r = \<lparr> sreq_Start = a, sreq_End = b, sreq_Scope = scope,
        sreq_Selector = \<lparr> sel_AZ = sorted_list_of_set (set (gm_list v ''az'') - {[]}),
          sel_Env = sorted_list_of_set (set (gm_list v ''env'') - {[]}),
          sel_Cluster = gm_list v ''cluster'', sel_Namespace = gm_list v ''namespace'' \<rparr>,
        sreq_IORollup = roll, sreq_IODelta = dl \<rparr>"
    using assms(1) az unfolding ParseStorageValues_def atLeastOne_eq
    by (auto simp del: validateParams.simps split: sum.splits option.splits prod.splits)
  obtain k where k: "k \<in> set storageRootParams" "filter (\<lambda>p. hasValue (gm_list v p)) storageRootParams = [k]"
    "ss_Roots (sreq_Scope r) = rootsOf k (set (gm_list v k) - {[]})"
    using scope_rooted [OF root_params(1) p(2,3)] unfolding r rootedScope_def by auto
  have roll: "roll = (if RollupMax \<in> set (gm_list v ''io_rollup'') then RollupMax
       else if RollupAvg \<in> set (gm_list v ''io_rollup'') then RollupAvg else RollupLast)"
    by (rule parseIORollup_Inr [OF p(4)])
  have dl: "dl = (''true'' \<in> set (gm_list v ''io_delta''))" by (rule parseIODelta_Inr [OF p(5)])
  show ?thesis by (rule that [OF k(1,2) _ _ k(3)]) (use parseWindow_Inr [OF p(1)] roll dl in \<open>simp_all add: r\<close>)
qed

lemma sameRequest_facts:
  assumes "sameRequest v v'"
  shows "hasValue (gm_list v p) = hasValue (gm_list v' p)" and "dirty v P = dirty v' P"
    and "oneOf (gm_list v p) L = oneOf (gm_list v' p) L"
    and "x \<noteq> [] \<Longrightarrow> x \<in> set (gm_list v p) \<longleftrightarrow> x \<in> set (gm_list v' p)"
proof -
  have s: "set (gm_list v p) - {[]} = set (gm_list v' p) - {[]}" for p using assms by (simp add: sameRequest_def)
  show "hasValue (gm_list v p) = hasValue (gm_list v' p)" using s by (simp add: hasValue_iff)
  show "x \<noteq> [] \<Longrightarrow> x \<in> set (gm_list v p) \<longleftrightarrow> x \<in> set (gm_list v' p)" using s [of p] by blast
  have "set vs \<subseteq> {[], l} \<longleftrightarrow> set vs - {[]} \<subseteq> {l}" for vs :: "string list" and l by blast
  then show "oneOf (gm_list v p) L = oneOf (gm_list v' p) L" unfolding oneOf_def by (simp only: s)
  have "dirty w P \<longleftrightarrow> (\<exists>p\<in>P. \<exists>x\<in>set (gm_list w p) - {[]}. \<not> cleanValue x)" for w
    unfolding dirty_def using cleanValue_Nil by blast
  then show "dirty v P = dirty v' P" by (simp only: s)
qed

lemma sameRequest_reason:
  assumes "sameRequest v v'"
  shows "storageReason v = storageReason v'"
proof -
  have s: "query_get v ''start'' = query_get v' ''start''" "query_get v ''end'' = query_get v' ''end''"
    "set (gm_list v p) - {[]} = set (gm_list v' p) - {[]}" for p
    using assms by (simp_all add: sameRequest_def)
  show ?thesis
    unfolding storageReason_def windowReason_def rootReason_def Let_def s sameRequest_facts [OF assms] ..
qed

text \<open>
  A storage request is a function of its window and of the set of non-empty values of each parameter.
  Requests that differ otherwise are rejected for the same reason, or parse to the same window, root,
  rollup and delta switch, and render the same matchers into every query.
\<close>

theorem ParseStorageValues_order_free:
  assumes "sameRequest v v'"
  shows "reasonOf (ParseStorageValues quote v) = reasonOf (ParseStorageValues quote v') \<and>
    (\<forall>r r'. ParseStorageValues quote v = Inr r \<and> ParseStorageValues quote v' = Inr r' \<longrightarrow>
      sreq_Start r = sreq_Start r' \<and> sreq_End r = sreq_End r' \<and> ss_Roots (sreq_Scope r) = ss_Roots (sreq_Scope r') \<and>
      sreq_IORollup r = sreq_IORollup r' \<and> sreq_IODelta r = sreq_IODelta r' \<and>
      render (sreq_Selector r) d keys = render (sreq_Selector r') d keys)"
proof (intro conjI)
  show "reasonOf (ParseStorageValues quote v) = reasonOf (ParseStorageValues quote v')"
    by (simp add: ParseStorageValues_reason sameRequest_reason [OF assms])
  note f = sameRequest_facts [OF assms]
  have s: "query_get v ''start'' = query_get v' ''start''" "query_get v ''end'' = query_get v' ''end''"
    "set (gm_list v p) - {[]} = set (gm_list v' p) - {[]}" for p
    using assms by (simp_all add: sameRequest_def)
  have "sreq_Start r = sreq_Start r' \<and> sreq_End r = sreq_End r' \<and> ss_Roots (sreq_Scope r) = ss_Roots (sreq_Scope r') \<and>
      sreq_IORollup r = sreq_IORollup r' \<and> sreq_IODelta r = sreq_IODelta r' \<and>
      render (sreq_Selector r) d keys = render (sreq_Selector r') d keys"
    if "ParseStorageValues quote v = Inr r" and "ParseStorageValues quote v' = Inr r'" for r r'
  proof (rule ParseStorageValues_Inr [OF that(1)], rule ParseStorageValues_Inr [OF that(2)], goal_cases)
    case (1 k k')
    have "k = k'" using 1(2,10) unfolding f(1) by simp
    then have "ss_Roots (sreq_Scope r) = ss_Roots (sreq_Scope r')" using 1(5,13) s(3) by simp
    moreover have "sreq_Start r = sreq_Start r'" "sreq_End r = sreq_End r'" using 1(3,4,11,12) s by simp_all
    moreover have "sreq_IORollup r = sreq_IORollup r'" "sreq_IODelta r = sreq_IODelta r'"
      using 1(7,8,15,16) f(4) by simp_all
    moreover have "render (sreq_Selector r) d keys = render (sreq_Selector r') d keys"
      unfolding 1(6,14) by (rule render_sets) (simp_all add: s(3))
    ultimately show ?case by (intro conjI)
  qed
  then show "\<forall>r r'. ParseStorageValues quote v = Inr r \<and> ParseStorageValues quote v' = Inr r' \<longrightarrow>
      sreq_Start r = sreq_Start r' \<and> sreq_End r = sreq_End r' \<and> ss_Roots (sreq_Scope r) = ss_Roots (sreq_Scope r') \<and>
      sreq_IORollup r = sreq_IORollup r' \<and> sreq_IODelta r = sreq_IODelta r' \<and>
      render (sreq_Selector r) d keys = render (sreq_Selector r') d keys"
    by blast
qed

text \<open>A request of every endpoint, with repeated, empty and odd values.\<close>

definition exQuery :: Values where
  "exQuery = [(''start'', [''1700000000'']), (''end'', [''2023-11-14T23:13:20Z'']), (''cluster'', [''c1'', [], ''a.b|c'']),
     (''az'', [''z2'', [], ''z1'', ''z2'']), (''env'', [''prod'']), (''pod'', [''shop/orders-0'', []]), (''io_rollup'', [''max'', ''max'']),
     (''prune'', [''false''])]"

lemma exQuery_times: "timeOf ''1700000000'' = Some (timeUnix 1700000000)"
  "timeOf ''2023-11-14T23:13:20Z'' = Some (timeUnix 1700003600)"
  by (simp_all add: timeOf_def ParseInt64_def isDigit_def readInt_def ParseRFC3339_def getyear_def within_def
      fraction_def dateSec_def dateDays_def timeUnix_def int64_def unixToInternal_def daysIn_def
      isLeap_def upto_rec1)

lemma exQuery_window: "windowReason exQuery = None"
  by (simp add: windowReason_def Let_def exQuery_def query_get_def gm_list_def gm_get_def exQuery_times)
    (simp add: timeUnix_def instant_def int64_def unixToInternal_def)

lemma exQuery_clean: "\<not> dirty exQuery ps"
proof -
  have c: "cleanValue ''c1''" "cleanValue ''a.b|c''" "cleanValue ''z1''" "cleanValue ''z2''" "cleanValue ''prod''"
    "cleanValue ''shop/orders-0''" "cleanValue ''max''" "cleanValue ''false''" "cleanValue ''1700000000''"
    "cleanValue ''2023-11-14T23:13:20Z''"
    by (simp_all add: cleanValue_def ValidString_def hasControl_def byteAt_def IsControl_def)
  have "\<forall>x\<in>set (gm_list exQuery p). cleanValue x" for p
    unfolding gm_list_def gm_get_def exQuery_def using c by simp
  then show ?thesis unfolding dirty_def by blast
qed

lemma exQuery_values: "hasValue (gm_list exQuery ''cluster'')" "hasValue (gm_list exQuery ''az'')" "hasValue (gm_list exQuery ''env'')"
  "query_get exQuery ''prune'' = ''false''" "gm_list exQuery ''pod'' = [''shop/orders-0'', []]"
  "gm_list exQuery ''io_rollup'' = [''max'', ''max'']" "gm_list exQuery ''io_delta'' = []"
  by (simp_all add: exQuery_def gm_list_def gm_get_def query_get_def)

lemma exQuery_root: "rootReason exQuery storageRootParams = None" "rootReason exQuery k8sRootParams = None"
proof -
  have k: "filter (\<lambda>p. hasValue (gm_list exQuery p)) storageRootParams = [''pod'']"
    "filter (\<lambda>p. hasValue (gm_list exQuery p)) k8sRootParams = [''pod'']"
    by (simp_all add: exQuery_def gm_list_def gm_get_def storageRootParams_def k8sRootParams_def)
  have "parseRef ''shop/orders-0'' = Some (Ref ''shop'' ''orders-0'')" by (simp add: parseRef_def)
  then have "\<not> malformed ''pod'' ''shop/orders-0''" using malformed_pod [of "''pod''" "''shop/orders-0''"] by simp
  then have "\<forall>x\<in>set (gm_list exQuery ''pod'') - {[]}. \<not> malformed ''pod'' x" unfolding exQuery_values by auto
  then show "rootReason exQuery storageRootParams = None" "rootReason exQuery k8sRootParams = None"
    unfolding rootReason_def k Let_def by simp_all
qed

lemma exQuery_accepted: "graphReason exQuery = None" "storageReason exQuery = None" "k8sReason exQuery = None"
proof -
  have "oneOf (gm_list exQuery ''io_rollup'') {''last'', ''max'', ''avg''}" "oneOf (gm_list exQuery ''io_delta'') {''true'', ''false''}"
    unfolding exQuery_values oneOf_def by (simp_all, blast)
  then show "graphReason exQuery = None" "storageReason exQuery = None" "k8sReason exQuery = None"
    using exQuery_window exQuery_clean exQuery_values exQuery_root
    unfolding graphReason_def storageReason_def k8sReason_def by simp_all
qed

lemma reasonOf_None: "reasonOf x = None \<Longrightarrow> \<exists>r. x = Inr r"
  by (cases x) simp_all

lemma exKeys: "wellKeyed DefaultLabelKeys"
  by (simp add: wellKeyed_def DefaultLabelKeys_def)

theorem ParseValues_safe_witness:
  "\<exists>r. ParseValues id exQuery = Inr r \<and> instant (req_Start r) < instant (req_End r)"
proof -
  obtain r where r: "ParseValues id exQuery = Inr r"
    using reasonOf_None [OF ParseValues_reason [THEN trans, OF exQuery_accepted(1)]] ..
  from ParseValues_safe [OF r exKeys] r show ?thesis by blast
qed

theorem ParseStorageValues_safe_witness:
  "\<exists>r. ParseStorageValues id exQuery = Inr r \<and> rootedScope exQuery storageRootParams (sreq_Scope r)"
proof -
  obtain r where r: "ParseStorageValues id exQuery = Inr r"
    using reasonOf_None [OF ParseStorageValues_reason [THEN trans, OF exQuery_accepted(2)]] ..
  from ParseStorageValues_safe [OF r exKeys] r show ?thesis by blast
qed

theorem ParseK8sValues_safe_witness:
  "\<exists>r. ParseK8sValues id exQuery = Inr r \<and> rootedScope exQuery k8sRootParams (kreq_Scope r)"
proof -
  obtain r where r: "ParseK8sValues id exQuery = Inr r"
    using reasonOf_None [OF ParseK8sValues_reason [THEN trans, OF exQuery_accepted(3)]] ..
  from ParseK8sValues_safe [OF r exKeys] r show ?thesis by blast
qed

definition exQuery' :: Values where
  "exQuery' = map (\<lambda>(p, vs). (p, if p \<in> {''start'', ''end''} then vs else rev ([] # vs))) exQuery"

theorem ParseStorageValues_order_free_witness:
  "\<exists>r r'. ParseStorageValues id exQuery = Inr r \<and> ParseStorageValues id exQuery' = Inr r' \<and>
    ss_Roots (sreq_Scope r) = ss_Roots (sreq_Scope r') \<and>
    render (sreq_Selector r) dimsNamespaced DefaultLabelKeys = render (sreq_Selector r') dimsNamespaced DefaultLabelKeys"
proof -
  have "sameRequest exQuery exQuery'"
    unfolding sameRequest_def by (auto simp: exQuery'_def exQuery_def query_get_def gm_list_def gm_get_def)
  note free = ParseStorageValues_order_free [OF this, of id dimsNamespaced DefaultLabelKeys]
  obtain r where r: "ParseStorageValues id exQuery = Inr r"
    using reasonOf_None [OF ParseStorageValues_reason [THEN trans, OF exQuery_accepted(2)]] ..
  then have "reasonOf (ParseStorageValues id exQuery') = None" using free by simp
  then obtain r' where r': "ParseStorageValues id exQuery' = Inr r'" using reasonOf_None by blast
  show ?thesis by (intro exI conjI, rule r, rule r') (use free r r' in blast)+
qed

end
