(* ===== verification/Picks.thy ===== *)
theory Picks
  imports Prelude
begin

text \<open>
  The tie-breaks of the reader: of all rows that offer a value for a key, an index keeps the best one.

  \<open>keepBest\<close> is the Go idiom \<open>if cur, ok := m[k]; !ok || better(v, cur) { m[k] = v }\<close>, \<open>pickAll\<close> the loop
  over the rows that offer something. The locale \<open>tie_break\<close> states what makes such a loop independent of
  the order of the rows: \<open>better\<close> is a strict total order. Its clients are the indexes of the topology
  reader, each with its own order.
\<close>

lemma gm_get_Cons: "gm_get ((j, v) # m) k = (if k = j then Some v else gm_get m k)"
  by (simp add: gm_get_def)

lemma gm_wf_Cons: "gm_wf ((j, v) # m) \<Longrightarrow> gm_wf m \<and> gm_get m j = None"
  by (auto simp: gm_wf_def gm_get_def map_of_eq_None_iff)

definition keepBest :: "('v \<Rightarrow> 'v \<Rightarrow> bool) \<Rightarrow> 'k \<Rightarrow> 'v \<Rightarrow> ('k, 'v) gomap \<Rightarrow> ('k, 'v) gomap" where
  "keepBest better k v m =
     (case gm_get m k of
        None \<Rightarrow> gm_put k v m
      | Some cur \<Rightarrow> if better v cur then gm_put k v m else m)"

definition pickAll ::
  "('v \<Rightarrow> 'v \<Rightarrow> bool) \<Rightarrow> ('a \<Rightarrow> ('k \<times> 'v) option) \<Rightarrow> 'a list \<Rightarrow> ('k, 'v) gomap \<Rightarrow> ('k, 'v) gomap" where
  "pickAll better offer rows m =
     fold (\<lambda>row m. case offer row of None \<Rightarrow> m | Some (k, v) \<Rightarrow> keepBest better k v m) rows m"

definition offers :: "('a \<Rightarrow> ('k \<times> 'v) option) \<Rightarrow> 'a set \<Rightarrow> 'k \<Rightarrow> 'v set" where
  "offers offer A k = {v. \<exists>a\<in>A. offer a = Some (k, v)}"

lemma offers_finite [simp]: "finite A \<Longrightarrow> finite (offers offer A k)"
proof -
  assume "finite A"
  have "offers offer A k \<subseteq> (\<lambda>a. snd (the (offer a))) ` A" by (force simp: offers_def)
  then show ?thesis using \<open>finite A\<close> finite_surj by blast
qed

lemma offers_Nil [simp]: "offers offer {} k = {}"
  by (simp add: offers_def)

lemma pickAll_simps:
  "pickAll better offer [] m = m"
  "pickAll better offer (row # rows) m =
     pickAll better offer rows (case offer row of None \<Rightarrow> m | Some (k, v) \<Rightarrow> keepBest better k v m)"
  by (simp_all add: pickAll_def)

locale tie_break =
  fixes better :: "'v \<Rightarrow> 'v \<Rightarrow> bool"
  assumes better_irrefl: "\<not> better v v"
    and better_trans: "better u v \<Longrightarrow> better v w \<Longrightarrow> better u w"
    and better_total: "u \<noteq> v \<Longrightarrow> better u v \<or> better v u"
begin

definition best :: "'v set \<Rightarrow> 'v \<Rightarrow> bool" where
  "best V v = (v \<in> V \<and> (\<forall>u\<in>V. u = v \<or> better v u))"

lemma best_unique: "best V v \<Longrightarrow> best V u \<Longrightarrow> u = v"
  unfolding best_def using better_irrefl [of v] better_trans [of v u v] by metis

lemma best_insert:
  assumes "best V cur"
  shows "best (insert v V) (if better v cur then v else cur)"
proof (cases "better v cur")
  case True
  have "u = v \<or> better v u" if "u \<in> insert v V" for u
    using that assms better_trans [OF True, of u] True unfolding best_def by auto
  then show ?thesis using True by (simp add: best_def)
next
  case False
  have "v = cur \<or> better cur v" using False better_total [of v cur] by blast
  then show ?thesis using False assms unfolding best_def by auto
qed

lemma best_singleton: "best {v} v"
  by (simp add: best_def)

lemma best_exists: "finite V \<Longrightarrow> V \<noteq> {} \<Longrightarrow> \<exists>v. best V v"
proof (induction rule: finite_ne_induct)
  case (insert v V)
  then show ?case using best_insert by blast
qed (use best_singleton in blast)

text \<open>The entry of a key after the loop: the best of what it held before and what the rows offer.\<close>

lemma pickAll_get:
  "gm_get (pickAll better offer rows m) k =
     (let V = set_option (gm_get m k) \<union> offers offer (set rows) k in if V = {} then None else Some (THE v. best V v))"
proof (induction rows arbitrary: m)
  case Nil
  have "(THE v. best {x} v) = x" for x using best_singleton best_unique by blast
  then show ?case by (cases "gm_get m k") (simp_all add: pickAll_simps)
next
  case (Cons row rows)
  define m' where "m' = (case offer row of None \<Rightarrow> m | Some (k, v) \<Rightarrow> keepBest better k v m)"
  define R where "R = offers offer (set rows) k"
  have old: "offers offer (set (row # rows)) k = offers offer {row} k \<union> R" by (auto simp: offers_def R_def)
  have IH: "gm_get (pickAll better offer (row # rows) m) k =
      (let V = set_option (gm_get m' k) \<union> R in if V = {} then None else Some (THE v. best V v))"
    unfolding pickAll_simps m'_def [symmetric] R_def by (rule Cons.IH)
  have fin: "finite R" by (simp add: R_def)
  have the: "(THE v. best V v) = v" if "best V v" for V v using that best_unique by blast
  show ?case
  proof (cases "\<exists>v. offer row = Some (k, v)")
    case False
    then have "gm_get m' k = gm_get m k" "offers offer {row} k = {}"
      by (auto simp: m'_def keepBest_def offers_def split: option.splits)
    then show ?thesis using IH unfolding old by simp
  next
    case True
    then obtain v where v: "offer row = Some (k, v)" by blast
    then have o: "offers offer {row} k = {v}" by (simp add: offers_def)
    show ?thesis
    proof (cases "gm_get m k")
      case None
      then have "gm_get m' k = Some v" using v by (simp add: m'_def keepBest_def)
      then show ?thesis using IH None unfolding old o by simp
    next
      case (Some cur)
      define w where "w = (if better v cur then v else cur)"
      have w: "gm_get m' k = Some w" using v Some by (simp add: m'_def keepBest_def w_def)
      obtain b where b: "best (insert w R) b" using best_exists [of "insert w R"] fin by blast
      have wb: "best {v, cur} w" using best_insert [OF best_singleton, of v cur] by (simp add: w_def)
      have "best (insert cur (insert v R)) b"
      proof -
        have bw: "b = w \<or> better b w" and bR: "\<forall>u\<in>R. u = b \<or> better b u" using b unfolding best_def by auto
        have w2: "u = b \<or> better b u" if "u \<in> {v, cur}" for u
        proof -
          have "u = w \<or> better w u" using wb that unfolding best_def by blast
          then show ?thesis using bw better_trans [of b w u] by blast
        qed
        have "b \<in> insert cur (insert v R)" using b wb unfolding best_def by blast
        then show ?thesis using bR w2 unfolding best_def by blast
      qed
      then show ?thesis using IH b w Some the unfolding old o by (simp add: insert_commute)
    qed
  qed
qed

lemma pickAll_Some:
  "gm_get (pickAll better offer rows []) k = Some v \<longleftrightarrow> best (offers offer (set rows) k) v"
proof (cases "offers offer (set rows) k = {}")
  case True
  then show ?thesis by (simp add: pickAll_get best_def)
next
  case False
  from best_exists [OF offers_finite [OF finite_set] False] obtain b where b: "best (offers offer (set rows) k) b" ..
  then have the: "(THE v. best (offers offer (set rows) k) v) = b" using best_unique [OF b] by (rule the_equality)
  have "gm_get (pickAll better offer rows []) k = Some b" using False by (simp add: pickAll_get Let_def the)
  then show ?thesis using b best_unique [OF b, of v] by (metis option.inject)
qed

lemma pickAll_None:
  "gm_get (pickAll better offer rows []) k = None \<longleftrightarrow> offers offer (set rows) k = {}"
  by (simp add: pickAll_get Let_def)

lemma pickAll_order_free:
  assumes "set rows = set rows'"
  shows "gm_get (pickAll better offer rows []) = gm_get (pickAll better offer rows' [])"
  by (rule ext) (simp add: pickAll_get assms)

end

lemma pickAll_wf: "gm_wf m \<Longrightarrow> gm_wf (pickAll better offer rows m)"
  by (induction rows arbitrary: m) (auto simp: pickAll_simps keepBest_def split: option.splits)

text \<open>The lexically smallest value, and the latest value with the smallest one on a tie.\<close>

interpretation smallest: tie_break "(<) :: 'a :: linorder \<Rightarrow> 'a \<Rightarrow> bool"
  by unfold_locales auto

lemma best_Min:
  fixes V :: "'a :: linorder set"
  assumes "finite V"
  shows "smallest.best V v \<longleftrightarrow> V \<noteq> {} \<and> v = Min V"
proof (cases "V = {}")
  case False
  then show ?thesis
    using assms Min_in [OF assms False] Min_le [OF assms] unfolding smallest.best_def
    by (metis order.antisym order.strict_implies_order order.order_iff_strict)
qed (simp add: smallest.best_def)

definition least :: "('a :: linorder) set \<Rightarrow> 'a option" where
  "least V = (if V = {} then None else Some (Min V))"

lemma least_in: "finite V \<Longrightarrow> least V = Some p \<Longrightarrow> p \<in> V"
  using Min_in [of V] by (auto simp: least_def simp del: Min_in split: if_splits)

lemma pick_least_from:
  "gm_get (pickAll (<) offer rows m) k = least (set_option (gm_get m k) \<union> offers offer (set rows) k)"
proof -
  define V where "V = set_option (gm_get m k) \<union> offers offer (set rows) k"
  have fin: "finite V" by (simp add: V_def)
  have "(THE v. smallest.best V v) = Min V" if "V \<noteq> {}"
    using best_Min [OF fin] that by simp
  then show ?thesis unfolding smallest.pickAll_get V_def [symmetric] Let_def least_def by simp
qed

lemma pick_least: "gm_get (pickAll (<) offer rows []) k = least (offers offer (set rows) k)"
  by (simp add: pick_least_from)

definition later :: "('f :: linorder \<times> 'a :: linorder) \<Rightarrow> ('f \<times> 'a) \<Rightarrow> bool" where
  "later v cur = (fst cur < fst v \<or> fst v = fst cur \<and> snd v < snd cur)"

interpretation latest: tie_break later
  by unfold_locales (auto simp: later_def prod_eq_iff)

end
