(* ===== verification/ClusterResolver.thy ===== *)
theory ClusterResolver
  imports GraphModel QueryTable
begin

text \<open>
  Cluster identities and zones: \<open>pkg/build/clusteridentity.go\<close> and \<open>pkg/build/zone.go\<close>.

  A \<open>Metric\<close> is the label set of one series. \<open>observe\<close> fills the resolver's identity table in a first
  pass; \<open>identify\<close> runs the ladder compose, adopt, verbatim over one series, \<open>bucket\<close> the same with the
  per-family tallies \<open>warn\<close> logs, \<open>resolveForeign\<close> over a bare cluster name. A set of identities behind one
  raw name is the list of its elements.

  The lemmas show that the ladder is a function of the set of observed series, that identities separate
  clusters as long as zone and environment carry no dash, and that a zone choice is order-free.
\<close>

type_synonym Metric = labels

section \<open>Zones\<close>

datatype zone = Zone (z_az: string) (z_env: string)

definition noZone :: zone where "noZone = Zone [] []"

definition zoneOf :: "Metric \<Rightarrow> LabelKeys \<Rightarrow> zone option" where
  "zoneOf m keys =
     (let az = gm_str m (lk_AZ keys); env = gm_str m (lk_Env keys) in
      if az = [] \<or> env = [] then None else Some (Zone az env))"

definition zoneAdmits :: "zone list \<Rightarrow> zone \<Rightarrow> bool \<Rightarrow> bool" where
  "zoneAdmits candidate z zoned = (\<not> zoned \<or> candidate = [] \<or> z \<in> set candidate)"

definition known :: "zone \<Rightarrow> bool" where
  "known z = (z \<noteq> noZone)"

definition zonesAgree :: "zone \<Rightarrow> zone \<Rightarrow> bool" where
  "zonesAgree a b = (\<not> known a \<or> \<not> known b \<or> a = b)"

text \<open>\<open>compare\<close> orders by \<open>(az, env)\<close>: the instance below.\<close>

instantiation zone :: linorder
begin

definition less_eq_zone :: "zone \<Rightarrow> zone \<Rightarrow> bool" where
  "a \<le> b \<longleftrightarrow> (z_az a, z_env a) \<le> (z_az b, z_env b)"

definition less_zone :: "zone \<Rightarrow> zone \<Rightarrow> bool" where
  "a < b \<longleftrightarrow> (z_az a, z_env a) < (z_az b, z_env b)"

instance
  by standard (auto simp: less_eq_zone_def less_zone_def zone.expand)

end

definition rank :: "zone \<Rightarrow> zone \<Rightarrow> int" where
  "rank claim z = (if known claim \<and> z = claim then 0 else if \<not> known z then 1 else 2)"

definition prefers :: "zone \<Rightarrow> zone \<Rightarrow> zone \<Rightarrow> bool" where
  "prefers claim a b =
     (if rank claim a \<noteq> rank claim b then rank claim a < rank claim b else a < b)"

section \<open>The resolver\<close>

record clusterResolver =
  cr_keys :: LabelKeys
  cr_identities :: "(string, ClusterIdentity) gomap"
  cr_byRaw :: "(string, string list) gomap"
  cr_missing :: "(Query, int) gomap"
  cr_unresolved :: "(Query, int) gomap"

definition newClusterResolver :: "LabelKeys \<Rightarrow> clusterResolver" where
  "newClusterResolver keys =
     \<lparr> cr_keys = OrDefault keys, cr_identities = [], cr_byRaw = [], cr_missing = [], cr_unresolved = [] \<rparr>"

definition bucketCluster :: "string \<Rightarrow> string" where
  "bucketCluster c = (if c = [] then ClusterUnknownValue else c)"

definition compose :: "clusterResolver \<Rightarrow> Metric \<Rightarrow> (string \<times> ClusterIdentity) option" where
  "compose r m =
     (let az = gm_str m (lk_AZ (cr_keys r)); env = gm_str m (lk_Env (cr_keys r)) in
      if az = [] \<or> env = [] then None
      else let raw = bucketCluster (gm_str m ''cluster'') in
        Some (az @ ''-'' @ env @ ''-'' @ raw, \<lparr> ci_AZ = az, ci_Env = env, ci_Name = raw \<rparr>))"

definition observe :: "Metric \<Rightarrow> clusterResolver \<Rightarrow> clusterResolver" where
  "observe m r =
     (case compose r m of
        None \<Rightarrow> r
      | Some (identity, ci) \<Rightarrow>
          r\<lparr> cr_identities := gm_put identity ci (cr_identities r),
             cr_byRaw := gm_put (ci_Name ci) (List.insert identity (gm_list (cr_byRaw r) (ci_Name ci))) (cr_byRaw r) \<rparr>)"

definition adopt :: "clusterResolver \<Rightarrow> string \<Rightarrow> string option" where
  "adopt r raw = (case gm_list (cr_byRaw r) raw of [identity] \<Rightarrow> Some identity | _ \<Rightarrow> None)"

definition identify :: "clusterResolver \<Rightarrow> Metric \<Rightarrow> string" where
  "identify r m =
     (case compose r m of
        Some (identity, _) \<Rightarrow> identity
      | None \<Rightarrow>
          let raw = bucketCluster (gm_str m ''cluster'') in
          (case adopt r raw of Some identity \<Rightarrow> identity | None \<Rightarrow> raw))"

definition bucket :: "Query \<Rightarrow> Metric \<Rightarrow> clusterResolver \<Rightarrow> string \<times> clusterResolver" where
  "bucket metric m r =
     (let raw = gm_str m ''cluster'';
          r = (if raw = [] then r\<lparr> cr_missing := gm_incr metric (cr_missing r) \<rparr> else r);
          identity = identify r m;
          r = (if identity = bucketCluster raw \<and> cr_identities r \<noteq> []
               then r\<lparr> cr_unresolved := gm_incr metric (cr_unresolved r) \<rparr> else r)
      in (identity, r))"

definition resolveForeign :: "clusterResolver \<Rightarrow> string \<Rightarrow> string" where
  "resolveForeign r raw =
     (if raw = [] then raw
      else if gm_has (cr_identities r) raw then raw
      else case adopt r raw of Some identity \<Rightarrow> identity | None \<Rightarrow> raw)"

text \<open>\<open>None\<close> is the nil table of an estate that stamps no pair.\<close>

definition snapshot :: "clusterResolver \<Rightarrow> (string, ClusterIdentity) gomap option" where
  "snapshot r = (if cr_identities r = [] then None else Some (cr_identities r))"

section \<open>The table the first pass builds\<close>

lemma observe_simps [simp]:
  "cr_keys (observe m r) = cr_keys r"
  "cr_missing (observe m r) = cr_missing r" "cr_unresolved (observe m r) = cr_unresolved r"
  by (auto simp: observe_def split: option.splits)

lemma compose_keys: "cr_keys r = cr_keys r' \<Longrightarrow> compose r m = compose r' m"
  by (simp add: compose_def)

lemma fold_observe_keys [simp]: "cr_keys (fold observe ms r) = cr_keys r"
  by (induction ms arbitrary: r) auto

text \<open>What the series compose to, as a set.\<close>

definition composed :: "clusterResolver \<Rightarrow> Metric set \<Rightarrow> (string \<times> ClusterIdentity) set" where
  "composed r M = {x. \<exists>m\<in>M. compose r m = Some x}"

definition behind :: "clusterResolver \<Rightarrow> Metric set \<Rightarrow> string \<Rightarrow> string set" where
  "behind r M raw = {i. \<exists>ci. (i, ci) \<in> composed r M \<and> ci_Name ci = raw}"

lemma gm_list_put: "gm_list (gm_put k v m) k' = (if k' = k then v else gm_list m k')"
  by (simp add: gm_list_def gm_put_def update_conv')

lemma fold_observe_byRaw:
  "set (gm_list (cr_byRaw (fold observe ms r)) raw) = set (gm_list (cr_byRaw r) raw) \<union> behind r (set ms) raw \<and>
   (distinct (gm_list (cr_byRaw r) raw) \<longrightarrow> distinct (gm_list (cr_byRaw (fold observe ms r)) raw))"
proof (induction ms arbitrary: r)
  case Nil
  then show ?case by (simp add: behind_def composed_def)
next
  case (Cons m ms)
  have k: "compose (observe m r) = compose r" by (rule ext, rule compose_keys) simp
  have b: "behind (observe m r) M = behind r M" for M by (simp add: behind_def composed_def k fun_eq_iff)
  have split: "behind r (set (m # ms)) raw = behind r {m} raw \<union> behind r (set ms) raw"
    by (auto simp: behind_def composed_def)
  have one: "set (gm_list (cr_byRaw (observe m r)) raw) = set (gm_list (cr_byRaw r) raw) \<union> behind r {m} raw \<and>
      (distinct (gm_list (cr_byRaw r) raw) \<longrightarrow> distinct (gm_list (cr_byRaw (observe m r)) raw))"
  proof (cases "compose r m")
    case None
    then show ?thesis by (auto simp: observe_def behind_def composed_def)
  next
    case (Some x)
    obtain i ci where x: "x = (i, ci)" by (cases x)
    show ?thesis using Some by (auto simp: x observe_def behind_def composed_def gm_list_put)
  qed
  show ?case using Cons.IH [of "observe m r"] one unfolding fold_simps split b by blast
qed

lemma adopt_eq: "distinct (gm_list (cr_byRaw r) raw) \<Longrightarrow> adopt r raw = Some i \<longleftrightarrow> set (gm_list (cr_byRaw r) raw) = {i}"
  by (cases "gm_list (cr_byRaw r) raw" rule: remdups_adj.cases) (auto simp: adopt_def)

text \<open>The resolver after the first pass over \<open>ms\<close>.\<close>

definition firstPass :: "LabelKeys \<Rightarrow> Metric list \<Rightarrow> clusterResolver" where
  "firstPass keys ms = fold observe ms (newClusterResolver keys)"

lemma firstPass_adopt: "adopt (firstPass keys ms) raw = Some i \<longleftrightarrow> behind (newClusterResolver keys) (set ms) raw = {i}"
proof -
  have "set (gm_list (cr_byRaw (firstPass keys ms)) raw) = behind (newClusterResolver keys) (set ms) raw \<and>
      distinct (gm_list (cr_byRaw (firstPass keys ms)) raw)"
    using fold_observe_byRaw [of ms "newClusterResolver keys" raw]
    by (simp add: firstPass_def newClusterResolver_def gm_list_def)
  then show ?thesis using adopt_eq [of "firstPass keys ms" raw i] by simp
qed

lemma firstPass_adopt_eq:
  "adopt (firstPass keys ms) raw = (let ids = behind (newClusterResolver keys) (set ms) raw in
     if is_singleton ids then Some (the_elem ids) else None)"
  using firstPass_adopt [of keys ms raw] unfolding is_singleton_def Let_def
  by (cases "adopt (firstPass keys ms) raw") auto

lemma firstPass_compose: "compose (firstPass keys ms) = compose (newClusterResolver keys)"
  by (rule ext, rule compose_keys) (simp add: firstPass_def)

section \<open>The ladder\<close>

text \<open>
  The identity of a series is a function of its labels and of the set of series the first pass
  observed, never of their order or number: its own pair composes; otherwise the one identity composed
  from its raw name stands for it; otherwise the raw name, \<open>unknown\<close> without one, is its own cluster.
\<close>

theorem identify_ladder:
  "identify (firstPass keys ms) m =
     (case compose (newClusterResolver keys) m of
        Some (identity, _) \<Rightarrow> identity
      | None \<Rightarrow>
          let raw = bucketCluster (gm_str m ''cluster''); ids = behind (newClusterResolver keys) (set ms) raw in
          if is_singleton ids then the_elem ids else raw)"
proof -
  let ?raw = "bucketCluster (gm_str m ''cluster'')"
  show ?thesis by (simp add: identify_def firstPass_compose firstPass_adopt_eq Let_def split: option.splits)
qed

definition dashFree :: "LabelKeys \<Rightarrow> Metric \<Rightarrow> bool" where
  "dashFree keys m = (CHR ''-'' \<notin> set (gm_str m (lk_AZ (OrDefault keys))) \<and> CHR ''-'' \<notin> set (gm_str m (lk_Env (OrDefault keys))))"

lemma compose_inj:
  assumes "dashFree keys m" and "dashFree keys m'"
    and "compose (newClusterResolver keys) m = Some (i, ci)" and "compose (newClusterResolver keys) m' = Some (i, ci')"
  shows "ci = ci'"
proof -
  let ?k = "OrDefault keys"
  have e: "gm_str m (lk_AZ ?k) @ CHR ''-'' # gm_str m (lk_Env ?k) @ CHR ''-'' # ci_Name ci
      = gm_str m' (lk_AZ ?k) @ CHR ''-'' # gm_str m' (lk_Env ?k) @ CHR ''-'' # ci_Name ci'"
    using assms(3,4) by (auto simp: compose_def newClusterResolver_def Let_def split: if_splits)
  have az: "gm_str m (lk_AZ ?k) = gm_str m' (lk_AZ ?k) \<and>
      gm_str m (lk_Env ?k) @ CHR ''-'' # ci_Name ci = gm_str m' (lk_Env ?k) @ CHR ''-'' # ci_Name ci'"
    by (rule sep_split [OF _ _ e]) (use assms(1,2) in \<open>simp_all add: dashFree_def\<close>)
  have env: "gm_str m (lk_Env ?k) = gm_str m' (lk_Env ?k) \<and> ci_Name ci = ci_Name ci'"
    by (rule sep_split [OF _ _ conjunct2 [OF az]]) (use assms(1,2) in \<open>simp_all add: dashFree_def\<close>)
  show ?thesis using az env assms(3,4)
    by (auto simp: compose_def newClusterResolver_def Let_def split: if_splits)
qed

lemma observe_identities:
  "gm_get (cr_identities (observe m r)) i =
     (case compose r m of Some (j, ci) \<Rightarrow> if i = j then Some ci else gm_get (cr_identities r) i | None \<Rightarrow> gm_get (cr_identities r) i)"
  by (auto simp: observe_def split: option.splits)

lemma fold_observe_identities:
  assumes "\<forall>m\<in>set ms. \<forall>j ci ci'. compose r m = Some (j, ci) \<and> (j, ci') \<in> T \<longrightarrow> ci = ci'"
    and "\<forall>m\<in>set ms. \<forall>j ci. compose r m = Some (j, ci) \<longrightarrow> (j, ci) \<in> T"
    and "\<forall>j ci. gm_get (cr_identities r) j = Some ci \<longrightarrow> (j, ci) \<in> T"
  shows "gm_get (cr_identities (fold observe ms r)) i = Some ci \<longleftrightarrow>
    gm_get (cr_identities r) i = Some ci \<or> (\<exists>m\<in>set ms. compose r m = Some (i, ci))"
  using assms
proof (induction ms arbitrary: r)
  case (Cons m ms)
  have k: "compose (observe m r) = compose r" by (rule ext, rule compose_keys) simp
  have IH: "gm_get (cr_identities (fold observe ms (observe m r))) i = Some ci \<longleftrightarrow>
      gm_get (cr_identities (observe m r)) i = Some ci \<or> (\<exists>m\<in>set ms. compose r m = Some (i, ci))"
  proof -
    have T: "\<forall>j ci. gm_get (cr_identities (observe m r)) j = Some ci \<longrightarrow> (j, ci) \<in> T"
      using Cons.prems(2,3) by (auto simp: observe_identities split: option.split_asm if_split_asm)
    have P1: "\<forall>m\<in>set ms. \<forall>j ci ci'. compose r m = Some (j, ci) \<and> (j, ci') \<in> T \<longrightarrow> ci = ci'"
      and P2: "\<forall>m\<in>set ms. \<forall>j ci. compose r m = Some (j, ci) \<longrightarrow> (j, ci) \<in> T"
      using Cons.prems(1,2) by (meson list.set_intros(2))+
    show ?thesis by (rule Cons.IH [of "observe m r", unfolded k, OF P1 P2 T])
  qed
  have "gm_get (cr_identities (observe m r)) i = Some ci \<longleftrightarrow>
      gm_get (cr_identities r) i = Some ci \<or> compose r m = Some (i, ci)"
  proof (cases "compose r m")
    case (Some x)
    obtain j cj where x: "x = (j, cj)" by (cases x)
    have "gm_get (cr_identities r) j = Some ci \<Longrightarrow> cj = ci"
      using Cons.prems(1,3) Some unfolding x by (meson list.set_intros(1))
    then show ?thesis using Some unfolding x observe_identities by auto
  qed (simp add: observe_identities)
  then show ?case using IH by auto
qed simp

lemma firstPass_identities_None:
  "gm_get (cr_identities (firstPass keys ms)) i = None \<longleftrightarrow> (\<forall>m\<in>set ms. \<forall>ci. compose (newClusterResolver keys) m \<noteq> Some (i, ci))"
proof -
  have "gm_get (cr_identities (fold observe ms r)) i = None \<longleftrightarrow>
      gm_get (cr_identities r) i = None \<and> (\<forall>m\<in>set ms. \<forall>ci. compose r m \<noteq> Some (i, ci))" for r
  proof (induction ms arbitrary: r)
    case (Cons m ms)
    have k: "compose (observe m r) = compose r" by (rule ext, rule compose_keys) simp
    show ?case unfolding fold_simps Cons.IH k by (auto simp: observe_identities split: option.splits if_splits)
  qed simp
  from this [of "newClusterResolver keys"] show ?thesis by (simp add: firstPass_def newClusterResolver_def)
qed

text \<open>
  C27: what the first pass leaves behind. A raw name is adopted, standing for an identity, exactly when that is
  the only identity composed from the name; an identity is in the table exactly when a series composed it; and
  under the condition that no zone and no environment of the series contains a dash (without it two clusters can
  compose to one identity, \<open>identity_collision\<close>), the table maps each identity to the zone, environment and
  raw name of every series that composed it, so that a request's \<open>cluster\<close> filter compares with the name the
  series carried.
\<close>

theorem identity_table_exact:
  "(adopt (firstPass keys ms) raw = Some i \<longleftrightarrow>
     {j. \<exists>m\<in>set ms. \<exists>ci. compose (newClusterResolver keys) m = Some (j, ci) \<and> ci_Name ci = raw} = {i}) \<and>
   (gm_has (cr_identities (firstPass keys ms)) i \<longleftrightarrow> (\<exists>m\<in>set ms. \<exists>ci. compose (newClusterResolver keys) m = Some (i, ci))) \<and>
   ((\<forall>m\<in>set ms. dashFree keys m) \<longrightarrow>
     (gm_get (cr_identities (firstPass keys ms)) i = Some ci \<longleftrightarrow> (\<exists>m\<in>set ms. compose (newClusterResolver keys) m = Some (i, ci))))"
proof (intro conjI impI)
  let ?r = "newClusterResolver keys" and ?T = "{(i, ci). \<exists>m\<in>set ms. compose (newClusterResolver keys) m = Some (i, ci)}"
  have "{j. \<exists>m\<in>set ms. \<exists>ci. compose ?r m = Some (j, ci) \<and> ci_Name ci = raw} = behind ?r (set ms) raw"
    by (auto simp: behind_def composed_def)
  then show "adopt (firstPass keys ms) raw = Some i \<longleftrightarrow>
     {j. \<exists>m\<in>set ms. \<exists>ci. compose ?r m = Some (j, ci) \<and> ci_Name ci = raw} = {i}" by (simp add: firstPass_adopt)
  show "gm_has (cr_identities (firstPass keys ms)) i \<longleftrightarrow> (\<exists>m\<in>set ms. \<exists>ci. compose ?r m = Some (i, ci))"
    unfolding gm_has_get firstPass_identities_None by blast
  assume "\<forall>m\<in>set ms. dashFree keys m"
  then have "\<forall>m\<in>set ms. \<forall>j ci ci'. compose ?r m = Some (j, ci) \<and> (j, ci') \<in> ?T \<longrightarrow> ci = ci'"
    using compose_inj by blast
  moreover have "\<forall>j ci. gm_get (cr_identities ?r) j = Some ci \<longrightarrow> (j, ci) \<in> ?T" by (simp add: newClusterResolver_def)
  ultimately show "gm_get (cr_identities (firstPass keys ms)) i = Some ci \<longleftrightarrow> (\<exists>m\<in>set ms. compose ?r m = Some (i, ci))"
    using fold_observe_identities [of ms ?r ?T i ci] by (auto simp: firstPass_def newClusterResolver_def)
qed

definition exMetric :: "string \<Rightarrow> string \<Rightarrow> string \<Rightarrow> Metric" where
  "exMetric az env c = [(''az'', az), (''env'', env), (''cluster'', c)]"

definition exSeries :: "Metric list" where
  "exSeries = [exMetric ''us'' ''dev'' ''c1'', exMetric ''eu'' ''dev'' ''c1'', exMetric ''eu'' ''dev'' ''c2'', exMetric [] [] ''c1'']"

theorem identity_table_exact_witness:
  "adopt (firstPass DefaultLabelKeys exSeries) ''c2'' = Some ''eu-dev-c2'' \<and>
   gm_get (cr_identities (firstPass DefaultLabelKeys exSeries)) ''eu-dev-c1'' = Some \<lparr> ci_AZ = ''eu'', ci_Env = ''dev'', ci_Name = ''c1'' \<rparr>"
proof
  have "\<forall>m\<in>set exSeries. dashFree DefaultLabelKeys m" by code_simp
  moreover have "\<exists>m\<in>set exSeries. compose (newClusterResolver DefaultLabelKeys) m =
      Some (''eu-dev-c1'', \<lparr> ci_AZ = ''eu'', ci_Env = ''dev'', ci_Name = ''c1'' \<rparr>)" by code_simp
  ultimately show "gm_get (cr_identities (firstPass DefaultLabelKeys exSeries)) ''eu-dev-c1'' = Some \<lparr> ci_AZ = ''eu'', ci_Env = ''dev'', ci_Name = ''c1'' \<rparr>"
    using identity_table_exact [of DefaultLabelKeys exSeries _ "''eu-dev-c1''" "\<lparr> ci_AZ = ''eu'', ci_Env = ''dev'', ci_Name = ''c1'' \<rparr>"] by blast
qed code_simp

text \<open>
  With a dash in a zone or environment two different clusters compose to one identity, and the table
  keeps the later of the two.
\<close>

lemma identity_collision:
  "let a = exMetric ''eu'' ''1-dev'' ''c1''; b = exMetric ''eu-1'' ''dev'' ''c1''; r = firstPass DefaultLabelKeys [a, b] in
   identify r a = identify r b \<and> cr_identities r = [(''eu-1-dev-c1'', \<lparr> ci_AZ = ''eu-1'', ci_Env = ''dev'', ci_Name = ''c1'' \<rparr>)]"
  by code_simp

section \<open>Tallies and foreign names\<close>

lemma bucket_identity [simp]: "fst (bucket q m r) = identify r m"
  by (simp add: bucket_def Let_def identify_def compose_def adopt_def)

text \<open>Bucketing never moves a later identity: it changes the tallies only.\<close>

lemma bucket_table [simp]:
  "cr_keys (snd (bucket q m r)) = cr_keys r" "cr_identities (snd (bucket q m r)) = cr_identities r"
  "cr_byRaw (snd (bucket q m r)) = cr_byRaw r"
  by (simp_all add: bucket_def Let_def)

lemma resolveForeign_adopts:
  "raw \<noteq> [] \<Longrightarrow> \<not> gm_has (cr_identities (firstPass keys ms)) raw \<Longrightarrow>
   resolveForeign (firstPass keys ms) raw =
     (let ids = behind (newClusterResolver keys) (set ms) raw in if is_singleton ids then the_elem ids else raw)"
  by (simp add: resolveForeign_def firstPass_adopt_eq Let_def)

text \<open>A zone choice is a strict total order on zones: it is order-free.\<close>

lemma prefers_irrefl: "\<not> prefers claim a a"
  by (simp add: prefers_def)

lemma prefers_step:
  fixes x y z :: int and a b c :: zone
  shows "(if x \<noteq> y then x < y else a < b) \<Longrightarrow> (if y \<noteq> z then y < z else b < c) \<Longrightarrow> (if x \<noteq> z then x < z else a < c)"
  by (cases "x = y"; cases "y = z") auto

lemma prefers_trans: "prefers claim a b \<Longrightarrow> prefers claim b c \<Longrightarrow> prefers claim a c"
  unfolding prefers_def by (rule prefers_step)

lemma prefers_total: "a \<noteq> b \<Longrightarrow> prefers claim a b \<or> prefers claim b a"
  unfolding prefers_def by (cases "rank claim a = rank claim b") auto

end
