(* ===== verification/TopologyTypes.thy ===== *)
theory TopologyTypes
  imports GraphModel
begin

text \<open>
  The result types of the topology reader the other files of the build exchange:
  \<open>pkg/build/topology_types.go\<close>, and \<open>NetAppInventory\<close> of \<open>pkg/build/netapp.go\<close>.

  \<open>Topology\<close> holds the part of the reader's result the edge builders and the storage-flow assembly
  read. Pointers to nodes are the nodes; \<open>SVMByPVC\<close> is a Go map, its list order one iteration order.
\<close>

record PodPVCBinding =
  PodID_of :: string
  PVCID_of :: string

record SVMRef =
  sr_ONTAPCluster :: string
  sr_SVM :: string

record 'f NetAppInventory =
  inv_Nodes :: "'f NetAppNode list"
  inv_Aggrs :: "'f NetAppAggrNode list"
  inv_SVMs :: "NetAppSVMNode list"

record 'f Topology =
  tp_Pods :: "PodNode list"
  tp_Nodes :: "K8sNode list"
  tp_PVCs :: "'f PVCNode list"
  tp_StorageEdges :: "'f Edge list"
  tp_PodPVCs :: "PodPVCBinding list"
  tp_ClaimSeeded :: bool
  tp_NetAppInventory :: "'f NetAppInventory"
  tp_SVMByPVC :: "(string, SVMRef) gomap"

end
