(* ===== verification/Owners.thy ===== *)
theory Owners
  imports Picks ClusterResolver Routing TopologyTypes
begin

text \<open>
  Controller owners, containers and Applications: \<open>pkg/build/topology_owners.go\<close>.

  A row is a sample with its label set and value; a vector is a list of rows. Each index is a map keyed by
  cluster identity, namespace and name, filled by a loop over a vector; the cluster comes from
  \<open>bucket\<close>, whose tallies are only logged and are dropped here. \<open>resolveOwnerApplication\<close> is generic in
  its source of answers, an \<open>ownerAppSource\<close>, as in the code.

  The lemmas show which row each index keeps and that it does not depend on the order of rows, where that
  holds, and how a pod's Application follows from its owner.
\<close>

type_synonym 'f Row = "(Metric, 'f) Sample"

abbreviation row_str :: "'f Row \<Rightarrow> string \<Rightarrow> string" where
  "row_str s k \<equiv> gm_str (sm_metric s) k"

abbreviation bucketed :: "clusterResolver \<Rightarrow> Query \<Rightarrow> 'f Row \<Rightarrow> string" where
  "bucketed mc q s \<equiv> fst (bucket q (sm_metric s) mc)"

text \<open>Keys: cluster, namespace and name, and for a controller its kind before the name.\<close>

type_synonym podNameKey = "string \<times> string \<times> string"
type_synonym jobKey = "string \<times> string \<times> string"
type_synonym serviceKey = "string \<times> string \<times> string"
type_synonym pvcKey = "string \<times> string \<times> string"
type_synonym controllerKey = "string \<times> string \<times> string \<times> string"

section \<open>Owners\<close>

text \<open>An \<open>ownerRef\<close>: kind and name.\<close>

type_synonym ownerRef = "string \<times> string"

definition ownerLess :: "ownerRef \<Rightarrow> ownerRef \<Rightarrow> bool" where
  "ownerLess v cur = (fst v < fst cur \<or> fst v = fst cur \<and> snd v < snd cur)"

definition rsOffer :: "clusterResolver \<Rightarrow> 'f Row \<Rightarrow> (podNameKey \<times> string) option" where
  "rsOffer mc s =
     (if row_str s ''owner_kind'' \<noteq> ''Deployment'' then None
      else
        let cluster = bucketed mc QReplicaSetOwner s; ns = row_str s ''namespace'';
            rs = row_str s ''replicaset''; dep = row_str s ''owner_name'' in
        if rs = [] \<or> dep = [] then None else Some ((cluster, ns, rs), dep))"

definition rsToDeployment :: "'f Row list \<Rightarrow> clusterResolver \<Rightarrow> (podNameKey, string) gomap" where
  "rsToDeployment rsOwnerVec mc =
     fold (\<lambda>s m. case rsOffer mc s of None \<Rightarrow> m | Some (k, dep) \<Rightarrow> gm_put k dep m) rsOwnerVec []"

definition ownerOffer ::
  "(podNameKey, string) gomap \<Rightarrow> clusterResolver \<Rightarrow> 'f Row \<Rightarrow> (podNameKey \<times> ownerRef) option" where
  "ownerOffer rsDep mc s =
     (if row_str s ''owner_is_controller'' \<noteq> ''true'' then None
      else
        let cluster = bucketed mc QPodOwner s; ns = row_str s ''namespace''; pod = row_str s ''pod'';
            kind = row_str s ''owner_kind''; name = row_str s ''owner_name'' in
        if pod = [] \<or> kind = [] \<or> name = [] then None
        else
          let (kind, name) =
            (if kind = ''ReplicaSet'' then
               (case gm_get rsDep (cluster, ns, name) of Some dep \<Rightarrow> (''Deployment'', dep) | None \<Rightarrow> (kind, name))
             else (kind, name))
          in Some ((cluster, ns, pod), (kind, name)))"

definition resolvePodOwners ::
  "'f Row list \<Rightarrow> 'f Row list \<Rightarrow> clusterResolver \<Rightarrow> (podNameKey, ownerRef) gomap" where
  "resolvePodOwners ownerVec rsOwnerVec mc =
     pickAll ownerLess (ownerOffer (rsToDeployment rsOwnerVec mc) mc) ownerVec []"

section \<open>Containers\<close>

text \<open>The image last seen latest, the smallest on a tie: the value of a row is its last sample time.\<close>

definition containerOffer ::
  "clusterResolver \<Rightarrow> 'f Row \<Rightarrow> ((podNameKey \<times> string) \<times> ('f \<times> string)) option" where
  "containerOffer mc s =
     (let cluster = bucketed mc QPodContainerInfo s; ns = row_str s ''namespace''; pod = row_str s ''pod'';
          name = row_str s ''container''; image = row_str s ''image'' in
      if pod = [] \<or> name = [] \<or> image = [] then None
      else Some (((cluster, ns, pod), name), (sm_value s, image)))"

definition resolvePodContainers ::
  "('f :: linorder) Row list \<Rightarrow> clusterResolver \<Rightarrow> (podNameKey, Container list) gomap" where
  "resolvePodContainers vec mc =
     (let best = pickAll later (containerOffer mc) vec [];
          out = fold (\<lambda>((pod, name), (_, image)). gm_append pod \<lparr> container_Name = name, container_Image = image \<rparr>) best []
      in map (\<lambda>(pod, list). (pod, sort_key (\<lambda>c. (container_Name c, container_Image c)) list)) out)"

section \<open>Applications\<close>

definition argoTrackingIDLabel :: string where
  "argoTrackingIDLabel = ''annotation_argocd_argoproj_io_tracking_id''"

definition argoAppName :: "string \<Rightarrow> string" where
  "argoAppName raw = takeWhile (\<lambda>c. c \<noteq> CHR '':'') raw"

definition usableTrackingID :: "string \<Rightarrow> bool" where
  "usableTrackingID raw = (raw \<noteq> [] \<and> argoAppName raw \<noteq> [])"

definition betterTrackingID :: "string \<Rightarrow> string \<Rightarrow> bool" where
  "betterTrackingID best raw = (usableTrackingID raw \<and> (best = [] \<or> raw < best))"

definition resolveApplications ::
  "'f Row list \<Rightarrow> string \<Rightarrow> ('f Row \<Rightarrow> 'k option) \<Rightarrow> ('k, string) gomap" where
  "resolveApplications vec labelName keyOf =
     (let out = fold (\<lambda>s out.
            let raw = row_str s labelName in
            if \<not> usableTrackingID raw then out
            else case keyOf s of
              None \<Rightarrow> out
            | Some key \<Rightarrow> if betterTrackingID (gm_str out key) raw then gm_put key raw out else out) vec []
      in map (\<lambda>(key, raw). (key, argoAppName raw)) out)"

record 'f controllerAnnotationFamily =
  fam_kind :: string
  fam_query :: Query
  fam_nameLabel :: string
  fam_vec :: "'f Row list"

text \<open>The six families with the vectors a read filled, in the order of the table.\<close>

record 'f controllerVectors =
  DeploymentAnnotations :: "'f Row list"
  StatefulSetAnnotations :: "'f Row list"
  DaemonSetAnnotations :: "'f Row list"
  ReplicaSetAnnotations :: "'f Row list"
  JobAnnotations :: "'f Row list"
  CronJobAnnotations :: "'f Row list"

definition controllerAnnotationFamilies :: "'f controllerVectors \<Rightarrow> 'f controllerAnnotationFamily list" where
  "controllerAnnotationFamilies v =
     [\<lparr> fam_kind = ''Deployment'', fam_query = QDeploymentAnnotations, fam_nameLabel = ''deployment'', fam_vec = DeploymentAnnotations v \<rparr>,
      \<lparr> fam_kind = ''StatefulSet'', fam_query = QStatefulSetAnnotations, fam_nameLabel = ''statefulset'', fam_vec = StatefulSetAnnotations v \<rparr>,
      \<lparr> fam_kind = ''DaemonSet'', fam_query = QDaemonSetAnnotations, fam_nameLabel = ''daemonset'', fam_vec = DaemonSetAnnotations v \<rparr>,
      \<lparr> fam_kind = ''ReplicaSet'', fam_query = QReplicaSetAnnotations, fam_nameLabel = ''replicaset'', fam_vec = ReplicaSetAnnotations v \<rparr>,
      \<lparr> fam_kind = ''Job'', fam_query = QJobAnnotations, fam_nameLabel = ''job_name'', fam_vec = JobAnnotations v \<rparr>,
      \<lparr> fam_kind = ''CronJob'', fam_query = QCronJobAnnotations, fam_nameLabel = ''cronjob'', fam_vec = CronJobAnnotations v \<rparr>]"

definition controllerKeyOf :: "clusterResolver \<Rightarrow> 'f controllerAnnotationFamily \<Rightarrow> 'f Row \<Rightarrow> controllerKey option" where
  "controllerKeyOf mc f s =
     (let name = row_str s (fam_nameLabel f) in
      if name = [] then None
      else Some (bucketed mc (fam_query f) s, row_str s ''namespace'', fam_kind f, name))"

definition resolveControllerApplications ::
  "'f controllerVectors \<Rightarrow> clusterResolver \<Rightarrow> (controllerKey, string) gomap" where
  "resolveControllerApplications v mc =
     fold (\<lambda>f out. fold (\<lambda>(k, app). gm_put k app)
              (resolveApplications (fam_vec f) argoTrackingIDLabel (controllerKeyOf mc f)) out)
       (controllerAnnotationFamilies v) []"

definition jobOffer :: "clusterResolver \<Rightarrow> 'f Row \<Rightarrow> (jobKey \<times> string) option" where
  "jobOffer mc s =
     (if row_str s ''owner_kind'' \<noteq> ''CronJob'' \<or> row_str s ''owner_is_controller'' \<noteq> ''true'' then None
      else
        let job = row_str s ''job_name''; cronJob = row_str s ''owner_name'' in
        if job = [] \<or> cronJob = [] then None
        else Some ((bucketed mc QJobOwner s, row_str s ''namespace'', job), cronJob))"

definition resolveJobCronJobOwners :: "'f Row list \<Rightarrow> clusterResolver \<Rightarrow> (jobKey, string) gomap" where
  "resolveJobCronJobOwners vec mc = pickAll (<) (jobOffer mc) vec []"

definition resolveServiceApplications :: "'f Row list \<Rightarrow> clusterResolver \<Rightarrow> (serviceKey, string) gomap" where
  "resolveServiceApplications vec mc =
     resolveApplications vec argoTrackingIDLabel (\<lambda>s.
       let svc = row_str s ''service'' in
       if svc = [] then None else Some (bucketed mc QServiceAnnotations s, row_str s ''namespace'', svc))"

definition resolvePVCApplications :: "'f Row list \<Rightarrow> clusterResolver \<Rightarrow> (pvcKey, string) gomap" where
  "resolvePVCApplications vec mc =
     resolveApplications vec argoTrackingIDLabel (\<lambda>s.
       let claim = row_str s ''persistentvolumeclaim'' in
       if claim = [] then None
       else Some (bucketed mc QPVCAnnotations s, row_str s ''namespace'', claim))"

section \<open>The Application of an owner\<close>

text \<open>
  The interface: \<open>controllerApp\<close> gives the Application of a controller (\<open>None\<close> is \<open>ok = false\<close>),
  \<open>cronJobOf\<close> the CronJob of a Job; either may fail.
\<close>

record 'e ownerAppSource =
  controllerApp :: "string \<Rightarrow> string \<Rightarrow> 'e + string option"
  cronJobOf :: "string \<Rightarrow> 'e + string option"

definition resolveOwnerApplication :: "'e ownerAppSource \<Rightarrow> string \<Rightarrow> string \<Rightarrow> 'e + string" where
  "resolveOwnerApplication src kind name =
     (case controllerApp src kind name of
        Inl err \<Rightarrow> Inl err
      | Inr (Some app) \<Rightarrow> Inr app
      | Inr None \<Rightarrow>
          if kind \<noteq> ''Job'' then Inr []
          else (case cronJobOf src name of
              Inl err \<Rightarrow> Inl err
            | Inr None \<Rightarrow> Inr []
            | Inr (Some cronJob) \<Rightarrow>
                (case controllerApp src ''CronJob'' cronJob of
                   Inl err \<Rightarrow> Inl err
                 | Inr app \<Rightarrow> Inr (case app of Some a \<Rightarrow> a | None \<Rightarrow> []))))"

definition indexedOwnerApps ::
  "(controllerKey, string) gomap \<Rightarrow> (jobKey, string) gomap \<Rightarrow> bool \<Rightarrow> string \<Rightarrow> string \<Rightarrow> 'e ownerAppSource" where
  "indexedOwnerApps ctrlApps jobCronJobs jobAnnotationsDegraded cluster ns =
     \<lparr> controllerApp = (\<lambda>kind name. Inr (gm_get ctrlApps (cluster, ns, kind, name))),
       cronJobOf = (\<lambda>job. if jobAnnotationsDegraded then Inr None else Inr (gm_get jobCronJobs (cluster, ns, job))) \<rparr>"

definition resolvePodApplications ::
  "(podNameKey, string) gomap \<Rightarrow> (podNameKey, ownerRef) gomap \<Rightarrow> (controllerKey, string) gomap
     \<Rightarrow> (jobKey, string) gomap \<Rightarrow> bool \<Rightarrow> (podNameKey, string) gomap" where
  "resolvePodApplications metricApps owners ctrlApps jobCronJobs jobAnnotationsDegraded =
     (let out = fold (\<lambda>(pod, app) out. if app \<noteq> [] then gm_put pod app out else out) metricApps [] in
      fold (\<lambda>(pod, owner) out.
        if gm_str out pod \<noteq> [] then out
        else case resolveOwnerApplication
               (indexedOwnerApps ctrlApps jobCronJobs jobAnnotationsDegraded (fst pod) (fst (snd pod)) :: unit ownerAppSource)
               (fst owner) (snd owner) of
            Inl _ \<Rightarrow> out
          | Inr app \<Rightarrow> if app \<noteq> [] then gm_put pod app out else out) owners out)"

definition pvcInheritedApps :: "PodPVCBinding list \<Rightarrow> (string, string) gomap \<Rightarrow> (string, string) gomap" where
  "pvcInheritedApps bindings podApp =
     pickAll (<) (\<lambda>b. let app = gm_str podApp (PodID_of b) in
        if app = [] then None else Some (PVCID_of b, app)) bindings []"

section \<open>What the indexes keep\<close>

interpretation owner: tie_break ownerLess
  by unfold_locales (auto simp: ownerLess_def prod_eq_iff)

text \<open>A tracking-id loop is a pick of the smallest usable value.\<close>

definition trackingOffer :: "string \<Rightarrow> ('f Row \<Rightarrow> 'k option) \<Rightarrow> 'f Row \<Rightarrow> ('k \<times> string) option" where
  "trackingOffer labelName keyOf s =
     (if usableTrackingID (row_str s labelName) then map_option (\<lambda>k. (k, row_str s labelName)) (keyOf s) else None)"

lemma usable_not_Nil: "usableTrackingID raw \<Longrightarrow> raw \<noteq> []"
  by (simp add: usableTrackingID_def)

lemma resolveApplications_picks:
  "resolveApplications vec labelName keyOf =
     map (\<lambda>(key, raw). (key, argoAppName raw)) (pickAll (<) (trackingOffer labelName keyOf) vec [])"
proof -
  have "fold (\<lambda>s out.
            let raw = row_str s labelName in
            if \<not> usableTrackingID raw then out
            else case keyOf s of
              None \<Rightarrow> out
            | Some key \<Rightarrow> if betterTrackingID (gm_str out key) raw then gm_put key raw out else out) vec m
      = pickAll (<) (trackingOffer labelName keyOf) vec m"
    if "\<forall>k raw. gm_get m k = Some raw \<longrightarrow> raw \<noteq> []" for m
    using that
  proof (induction vec arbitrary: m)
    case (Cons s vec)
    define m' where "m' = (let raw = row_str s labelName in
            if \<not> usableTrackingID raw then m
            else case keyOf s of
              None \<Rightarrow> m
            | Some key \<Rightarrow> if betterTrackingID (gm_str m key) raw then gm_put key raw m else m)"
    have step: "m' = (case trackingOffer labelName keyOf s of None \<Rightarrow> m | Some (k, v) \<Rightarrow> keepBest (<) k v m)"
      using Cons.prems by (auto simp: m'_def Let_def trackingOffer_def keepBest_def betterTrackingID_def gm_str_get
          split: option.splits)
    have "\<forall>k raw. gm_get m' k = Some raw \<longrightarrow> raw \<noteq> []"
      using Cons.prems usable_not_Nil by (auto simp: m'_def Let_def split: option.splits if_splits)
    from Cons.IH [OF this] show ?case unfolding fold_simps pickAll_simps m'_def [symmetric] step by simp
  qed (simp add: pickAll_simps)
  from this [of "[]"] show ?thesis by (simp add: resolveApplications_def)
qed

lemma gm_get_map_snd: "gm_get (map (\<lambda>(k, v). (k, f v)) m) k = map_option f (gm_get m k)"
  by (induction m) (auto simp: gm_get_def)

lemma resolveApplications_get:
  "gm_get (resolveApplications vec labelName keyOf) k = Some app \<longleftrightarrow>
    (\<exists>raw. smallest.best (offers (trackingOffer labelName keyOf) (set vec) k) raw \<and> app = argoAppName raw)"
  using smallest.pickAll_Some [of "trackingOffer labelName keyOf" vec k]
  unfolding resolveApplications_picks gm_get_map_snd by auto

lemma resolveApplications_key:
  assumes "gm_get (resolveApplications vec labelName keyOf) k = Some app"
  shows "\<exists>s\<in>set vec. keyOf s = Some k \<and> usableTrackingID (row_str s labelName) \<and> app = argoAppName (row_str s labelName)"
  using assms unfolding resolveApplications_get smallest.best_def offers_def
  by (auto simp: trackingOffer_def split: if_splits)

lemma resolveApplications_not_Nil: "gm_get (resolveApplications vec labelName keyOf) k = Some app \<Longrightarrow> app \<noteq> []"
  using resolveApplications_key [of vec labelName keyOf k app] by (auto simp: usableTrackingID_def)

lemma resolveApplications_wf: "gm_wf (resolveApplications vec labelName keyOf)"
proof -
  have "gm_wf (pickAll (<) (trackingOffer labelName keyOf) vec [])" by (rule pickAll_wf) simp
  then show ?thesis by (simp add: resolveApplications_picks gm_wf_def comp_def case_prod_unfold)
qed

text \<open>The merged controller index answers from the one family of the kind.\<close>

lemma get_copy:
  assumes "gm_wf apps"
  shows "gm_get (fold (\<lambda>(k, app). gm_put k app) apps out) k =
    (case gm_get apps k of Some app \<Rightarrow> Some app | None \<Rightarrow> gm_get out k)"
  using assms
proof (induction apps arbitrary: out)
  case (Cons x apps)
  obtain j a where x: "x = (j, a)" by (cases x)
  have "gm_wf apps" "j \<notin> fst ` set apps" using Cons.prems by (auto simp: x gm_wf_def)
  moreover from this have "gm_get apps j = None" by (simp add: gm_get_def map_of_eq_None_iff)
  ultimately show ?case using Cons.IH [of "gm_put j a out"] by (auto simp: x gm_get_def split: option.splits)
qed (simp add: gm_get_def)

lemma controller_get:
  assumes "distinct (map fam_kind fs)"
  shows "gm_get (fold (\<lambda>f out. fold (\<lambda>(k, app). gm_put k app)
        (resolveApplications (fam_vec f) argoTrackingIDLabel (controllerKeyOf mc f)) out) fs out) (c, ns, kind, name) =
    (case find (\<lambda>f. fam_kind f = kind) fs of
       None \<Rightarrow> gm_get out (c, ns, kind, name)
     | Some f \<Rightarrow>
        (case gm_get (resolveApplications (fam_vec f) argoTrackingIDLabel (controllerKeyOf mc f)) (c, ns, kind, name) of
           Some app \<Rightarrow> Some app | None \<Rightarrow> gm_get out (c, ns, kind, name)))"
  using assms
proof (induction fs arbitrary: out)
  case (Cons f fs)
  have other: "gm_get (resolveApplications (fam_vec f) argoTrackingIDLabel (controllerKeyOf mc f)) (c, ns, kind, name) = None"
    if "fam_kind f \<noteq> kind"
    using resolveApplications_key [of "fam_vec f" argoTrackingIDLabel "controllerKeyOf mc f" "(c, ns, kind, name)"] that
    by (cases "gm_get (resolveApplications (fam_vec f) argoTrackingIDLabel (controllerKeyOf mc f)) (c, ns, kind, name)")
      (auto simp: controllerKeyOf_def Let_def split: if_splits)
  have rest: "fam_kind f = kind \<Longrightarrow> find (\<lambda>f. fam_kind f = kind) fs = None"
    using Cons.prems by (auto simp: find_None_iff image_iff)
  define out' where "out' = fold (\<lambda>(k, app). gm_put k app)
    (resolveApplications (fam_vec f) argoTrackingIDLabel (controllerKeyOf mc f)) out"
  have step: "gm_get out' (c, ns, kind, name) =
      (case gm_get (resolveApplications (fam_vec f) argoTrackingIDLabel (controllerKeyOf mc f)) (c, ns, kind, name) of
         Some app \<Rightarrow> Some app | None \<Rightarrow> gm_get out (c, ns, kind, name))"
    unfolding out'_def by (rule get_copy [OF resolveApplications_wf])
  have "distinct (map fam_kind fs)" using Cons.prems by simp
  note IH = Cons.IH [OF this, of out']
  show ?case
  proof (cases "fam_kind f = kind")
    case True
    then show ?thesis using IH rest step unfolding fold_simps out'_def [symmetric] by simp
  next
    case False
    have same: "gm_get out' (c, ns, kind, name) = gm_get out (c, ns, kind, name)" using step other [OF False] by simp
    show ?thesis using IH False unfolding fold_simps out'_def [symmetric] same by simp
  qed
qed simp

definition singleOffer :: "('a \<Rightarrow> ('k \<times> 'v) option) \<Rightarrow> 'a set \<Rightarrow> bool" where
  "singleOffer offer A = (\<forall>k u v. u \<in> offers offer A k \<and> v \<in> offers offer A k \<longrightarrow> u = v)"

lemma rsToDeployment_get:
  assumes "singleOffer (rsOffer mc) (set vec)"
  shows "gm_get (rsToDeployment vec mc) k = Some dep \<longleftrightarrow> dep \<in> offers (rsOffer mc) (set vec) k"
proof -
  let ?step = "\<lambda>s m. case rsOffer mc s of None \<Rightarrow> m | Some (k, dep) \<Rightarrow> gm_put k dep m"
  have one: "offers (rsOffer mc) (set vec) k \<subseteq> {d}" if "d \<in> offers (rsOffer mc) (set vec) k" for d
    using that assms unfolding singleOffer_def by blast
  have "gm_get (fold ?step rows m) k = (if offers (rsOffer mc) (set rows) k = {} then gm_get m k else Some d)"
    if "set rows \<subseteq> set vec" and "offers (rsOffer mc) (set vec) k \<subseteq> {d}" for rows m d
    using that
  proof (induction rows arbitrary: m)
    case (Cons s rows)
    have split: "offers (rsOffer mc) (set (s # rows)) k = offers (rsOffer mc) {s} k \<union> offers (rsOffer mc) (set rows) k"
      by (auto simp: offers_def)
    have "offers (rsOffer mc) {s} k \<subseteq> {d}" using Cons.prems by (auto simp: offers_def)
    then have "gm_get (?step s m) k = (if offers (rsOffer mc) {s} k = {} then gm_get m k else Some d)"
      by (auto simp: offers_def split: option.splits)
    then show ?case using Cons.IH [of "?step s m"] Cons.prems unfolding split by auto
  qed simp
  note loop = this [of vec _ "[]", folded rsToDeployment_def]
  show ?thesis
  proof (cases "offers (rsOffer mc) (set vec) k = {}")
    case True
    then show ?thesis using loop [of undefined] by simp
  next
    case False
    then obtain d where d: "d \<in> offers (rsOffer mc) (set vec) k" by blast
    then have "offers (rsOffer mc) (set vec) k = {d}" using one by blast
    moreover have "gm_get (rsToDeployment vec mc) k = Some d" using loop [OF _ one [OF d]] False by simp
    ultimately show ?thesis by auto
  qed
qed

text \<open>
  A pod's owner does not depend on the order of rows: the smallest (kind, name) among its controller
  rows, read after each ReplicaSet is replaced by its Deployment, provided no ReplicaSet names two.
\<close>

theorem resolvePodOwners_order_free:
  assumes "set ov = set ov'" and "set rv = set rv'"
    and "singleOffer (rsOffer mc) (set rv)"
  shows "gm_get (resolvePodOwners ov rv mc) = gm_get (resolvePodOwners ov' rv' mc) \<and>
    (gm_get (resolvePodOwners ov rv mc) pod = Some o' \<longleftrightarrow>
      o' \<in> offers (ownerOffer (rsToDeployment rv mc) mc) (set ov) pod \<and>
      (\<forall>o''\<in>offers (ownerOffer (rsToDeployment rv mc) mc) (set ov) pod. o'' = o' \<or> ownerLess o' o''))"
proof
  have "gm_get (rsToDeployment rv mc) k = gm_get (rsToDeployment rv' mc) k" for k
    using rsToDeployment_get [OF assms(3), of k] rsToDeployment_get [of mc rv' k] assms(2,3)
    by (cases "gm_get (rsToDeployment rv mc) k"; cases "gm_get (rsToDeployment rv' mc) k") auto
  then have g: "gm_get (rsToDeployment rv mc) = gm_get (rsToDeployment rv' mc)" by (rule ext)
  have E: "ownerOffer (rsToDeployment rv mc) mc = ownerOffer (rsToDeployment rv' mc) mc"
    by (rule ext) (simp only: ownerOffer_def g)
  show "gm_get (resolvePodOwners ov rv mc) = gm_get (resolvePodOwners ov' rv' mc)"
    using owner.pickAll_order_free [OF assms(1), of "ownerOffer (rsToDeployment rv mc) mc"]
    unfolding resolvePodOwners_def E .
  show "gm_get (resolvePodOwners ov rv mc) pod = Some o' \<longleftrightarrow>
      o' \<in> offers (ownerOffer (rsToDeployment rv mc) mc) (set ov) pod \<and>
      (\<forall>o''\<in>offers (ownerOffer (rsToDeployment rv mc) mc) (set ov) pod. o'' = o' \<or> ownerLess o' o'')"
    using owner.pickAll_Some [of "ownerOffer (rsToDeployment rv mc) mc" ov pod o']
    unfolding resolvePodOwners_def owner.best_def .
qed

definition exSample :: "labels \<Rightarrow> nat \<Rightarrow> nat Row" where
  "exSample ls v = \<lparr> sm_metric = (''cluster'', ''c1'') # (''namespace'', ''shop'') # ls, sm_value = v \<rparr>"

definition exResolver :: clusterResolver where
  "exResolver = newClusterResolver DefaultLabelKeys"

definition exPodOwner :: "string \<Rightarrow> string \<Rightarrow> string \<Rightarrow> nat Row" where
  "exPodOwner pod kind name = exSample [(''pod'', pod), (''owner_is_controller'', ''true''), (''owner_kind'', kind), (''owner_name'', name)] 1"

definition exRSOwner :: "string \<Rightarrow> string \<Rightarrow> nat Row" where
  "exRSOwner rs dep = exSample [(''replicaset'', rs), (''owner_kind'', ''Deployment''), (''owner_name'', dep)] 1"

theorem resolvePodOwners_order_free_witness:
  "gm_get (resolvePodOwners [exPodOwner ''p'' ''ReplicaSet'' ''web-1'', exPodOwner ''p'' ''Job'' ''j''] [exRSOwner ''web-1'' ''web''] exResolver)
     = gm_get (resolvePodOwners [exPodOwner ''p'' ''Job'' ''j'', exPodOwner ''p'' ''ReplicaSet'' ''web-1''] [exRSOwner ''web-1'' ''web''] exResolver) \<and>
   gm_get (resolvePodOwners [exPodOwner ''p'' ''ReplicaSet'' ''web-1'', exPodOwner ''p'' ''Job'' ''j''] [exRSOwner ''web-1'' ''web''] exResolver)
     (''c1'', ''shop'', ''p'') = Some (''Deployment'', ''web'')"
proof -
  have o: "rsOffer exResolver (exRSOwner ''web-1'' ''web'') = Some ((''c1'', ''shop'', ''web-1''), ''web'')" by code_simp
  have "singleOffer (rsOffer exResolver) (set [exRSOwner ''web-1'' ''web''])"
    unfolding singleOffer_def offers_def by (simp add: o)
  note free = resolvePodOwners_order_free [OF _ refl this, THEN conjunct1]
  show ?thesis by (intro conjI, rule free, force, code_simp)
qed

text \<open>
  A ReplicaSet whose rows name two Deployments, as after an adoption inside the window, gives its pods the
  Deployment of the row that arrives last.
\<close>

lemma resolvePodOwners_last_deployment:
  "gm_get (resolvePodOwners [exPodOwner ''p'' ''ReplicaSet'' ''rs''] [exRSOwner ''rs'' ''a'', exRSOwner ''rs'' ''b''] exResolver) (''c1'', ''shop'', ''p'')
     = Some (''Deployment'', ''b'')"
  "gm_get (resolvePodOwners [exPodOwner ''p'' ''ReplicaSet'' ''rs''] [exRSOwner ''rs'' ''b'', exRSOwner ''rs'' ''a''] exResolver) (''c1'', ''shop'', ''p'')
     = Some (''Deployment'', ''a'')"
  by code_simp+

section \<open>Pod Applications\<close>

definition ownerApp :: "(controllerKey, string) gomap \<Rightarrow> (jobKey, string) gomap \<Rightarrow> bool \<Rightarrow> podNameKey \<Rightarrow> ownerRef \<Rightarrow> string" where
  "ownerApp ctrlApps jobs degraded pod o' =
     (case gm_get ctrlApps (fst pod, fst (snd pod), fst o', snd o') of
        Some app \<Rightarrow> app
      | None \<Rightarrow>
          if fst o' \<noteq> ''Job'' \<or> degraded then []
          else case gm_get jobs (fst pod, fst (snd pod), snd o') of
            None \<Rightarrow> []
          | Some cronJob \<Rightarrow> gm_str ctrlApps (fst pod, fst (snd pod), ''CronJob'', cronJob))"

lemma indexed_resolves:
  "resolveOwnerApplication (indexedOwnerApps ctrlApps jobs degraded (fst pod) (fst (snd pod))) (fst o') (snd o')
     = Inr (ownerApp ctrlApps jobs degraded pod o')"
  by (simp add: resolveOwnerApplication_def indexedOwnerApps_def ownerApp_def gm_str_get split: option.splits)

lemma keep_nonempty_get:
  assumes "gm_wf m"
  shows "gm_get (fold (\<lambda>(pod, app) out. if app \<noteq> [] then gm_put pod app out else out) m out) pod =
    (if gm_str m pod \<noteq> [] then Some (gm_str m pod) else gm_get out pod)"
  using assms
proof (induction m arbitrary: out)
  case (Cons x m)
  obtain k a where x: "x = (k, a)" by (cases x)
  have wf: "gm_wf m" "gm_get m k = None" using gm_wf_Cons [OF Cons.prems [unfolded x]] by simp_all
  show ?case using Cons.IH [OF wf(1), of "if a \<noteq> [] then gm_put k a out else out"] wf(2)
    by (cases "pod = k") (auto simp: x gm_str_get gm_get_Cons)
qed (simp add: gm_str_get)

definition ownerStep :: "(controllerKey, string) gomap \<Rightarrow> (jobKey, string) gomap \<Rightarrow> bool \<Rightarrow> podNameKey \<times> ownerRef
    \<Rightarrow> (podNameKey, string) gomap \<Rightarrow> (podNameKey, string) gomap" where
  "ownerStep ctrlApps jobs degraded = (\<lambda>(pod, owner) out.
        if gm_str out pod \<noteq> [] then out
        else case resolveOwnerApplication
               (indexedOwnerApps ctrlApps jobs degraded (fst pod) (fst (snd pod)) :: unit ownerAppSource)
               (fst owner) (snd owner) of
            Inl _ \<Rightarrow> out
          | Inr app \<Rightarrow> if app \<noteq> [] then gm_put pod app out else out)"

lemma ownerStep_get:
  "gm_get (ownerStep ctrlApps jobs degraded (k, o') out) pod =
     (if pod = k \<and> gm_str out k = [] \<and> ownerApp ctrlApps jobs degraded k o' \<noteq> [] then Some (ownerApp ctrlApps jobs degraded k o')
      else gm_get out pod)"
  by (simp add: ownerStep_def indexed_resolves)

lemma owners_fold_get:
  assumes "gm_wf owners"
  shows "gm_get (fold (ownerStep ctrlApps jobs degraded) owners out) pod =
    (if gm_str out pod \<noteq> [] then gm_get out pod
     else case gm_get owners pod of
        None \<Rightarrow> gm_get out pod
      | Some o' \<Rightarrow> if ownerApp ctrlApps jobs degraded pod o' = [] then gm_get out pod else Some (ownerApp ctrlApps jobs degraded pod o'))"
  using assms
proof (induction owners arbitrary: out)
  case (Cons x owners)
  obtain k o' where x: "x = (k, o')" by (cases x)
  have wf: "gm_wf owners" "gm_get owners k = None" using gm_wf_Cons [OF Cons.prems [unfolded x]] by simp_all
  show ?case
  proof (cases "pod = k")
    case True
    then show ?thesis using Cons.IH [OF wf(1), of "ownerStep ctrlApps jobs degraded x out"] wf(2)
      by (simp add: x gm_get_Cons ownerStep_get gm_str_get split: option.splits if_splits)
  next
    case False
    then have same: "gm_get (ownerStep ctrlApps jobs degraded (k, o') out) pod = gm_get out pod" by (simp add: ownerStep_get)
    show ?thesis using Cons.IH [OF wf(1), of "ownerStep ctrlApps jobs degraded (k, o') out"] False
      unfolding gm_str_get same x fold_simps by (simp add: gm_get_Cons)
  qed
qed simp

lemma resolvePodApplications_get:
  assumes "gm_wf metricApps" and "gm_wf owners"
  shows "gm_get (resolvePodApplications metricApps owners ctrlApps jobs degraded) pod =
    (if gm_str metricApps pod \<noteq> [] then Some (gm_str metricApps pod)
     else case gm_get owners pod of
        None \<Rightarrow> None
      | Some o' \<Rightarrow> if ownerApp ctrlApps jobs degraded pod o' = [] then None else Some (ownerApp ctrlApps jobs degraded pod o'))"
proof -
  let ?out = "fold (\<lambda>(pod, app) out. if app \<noteq> [] then gm_put pod app out else out) metricApps []"
  have out: "gm_get ?out pod = (if gm_str metricApps pod \<noteq> [] then Some (gm_str metricApps pod) else None)"
    using keep_nonempty_get [OF assms(1), of "[]" pod] by simp
  show ?thesis
    using owners_fold_get [OF assms(2), of ctrlApps jobs degraded ?out pod]
    unfolding resolvePodApplications_def Let_def ownerStep_def gm_str_get [of ?out] out by simp
qed

text \<open>A read whose ReplicaSet or Job annotation leg failed: the vector is empty, the Job flag set.\<close>

definition degrade :: "bool \<Rightarrow> bool \<Rightarrow> 'f controllerVectors \<Rightarrow> 'f controllerVectors" where
  "degrade rs jobs v = v\<lparr> ReplicaSetAnnotations := (if rs then [] else ReplicaSetAnnotations v),
     JobAnnotations := (if jobs then [] else JobAnnotations v) \<rparr>"

definition podApplications ::
  "(podNameKey, string) gomap \<Rightarrow> 'f Row list \<Rightarrow> 'f Row list \<Rightarrow> 'f controllerVectors \<Rightarrow> 'f Row list \<Rightarrow> bool
     \<Rightarrow> clusterResolver \<Rightarrow> (podNameKey, string) gomap" where
  "podApplications metricApps podOwner rsOwner v jobOwner jobAnnotationsDegraded mc =
     resolvePodApplications metricApps (resolvePodOwners podOwner rsOwner mc) (resolveControllerApplications v mc)
       (resolveJobCronJobOwners jobOwner mc) jobAnnotationsDegraded"

lemma resolvePodOwners_wf: "gm_wf (resolvePodOwners ov rv mc)"
  unfolding resolvePodOwners_def by (rule pickAll_wf) simp

lemma resolveControllerApplications_get:
  "gm_get (resolveControllerApplications v mc) (c, ns, kind, name) =
    (case find (\<lambda>f. fam_kind f = kind) (controllerAnnotationFamilies v) of
       None \<Rightarrow> None
     | Some f \<Rightarrow> gm_get (resolveApplications (fam_vec f) argoTrackingIDLabel (controllerKeyOf mc f)) (c, ns, kind, name))"
proof -
  have "distinct (map fam_kind (controllerAnnotationFamilies v))" by (simp add: controllerAnnotationFamilies_def)
  from controller_get [OF this, of mc "[]" c ns kind name] show ?thesis
    unfolding resolveControllerApplications_def by (simp split: option.splits)
qed

lemma resolveApplications_Nil [simp]: "resolveApplications [] labelName keyOf = []"
  by (simp add: resolveApplications_def)

lemma degrade_get:
  "gm_get (resolveControllerApplications (degrade rs jobs v) mc) (c, ns, kind, name) =
    (if rs \<and> kind = ''ReplicaSet'' \<or> jobs \<and> kind = ''Job'' then None
     else gm_get (resolveControllerApplications v mc) (c, ns, kind, name))"
  unfolding resolveControllerApplications_get controllerAnnotationFamilies_def degrade_def controllerKeyOf_def
  by simp

lemma ownerApp_degrade:
  assumes "ownerApp (resolveControllerApplications (degrade rs jobs v) mc) js jobs pod o' = app" and "app \<noteq> []"
  shows "ownerApp (resolveControllerApplications v mc) js False pod o' = app"
  using assms unfolding ownerApp_def gm_str_get degrade_get by (auto split: if_splits option.splits)

text \<open>
  C10: degrading is subtractive. When the ReplicaSet or Job annotation query fails, a pod either keeps the
  Application a complete read gives it or has none; it never gets another one. The flag that a failed Job
  query sets is what keeps a managed Job's pod from taking the Application of its CronJob.
\<close>

theorem podApplications_degrade:
  assumes "gm_wf metricApps"
    and "gm_get (podApplications metricApps podOwner rsOwner (degrade rs jobs v) jobOwner jobs mc) pod = Some app"
  shows "gm_get (podApplications metricApps podOwner rsOwner v jobOwner False mc) pod = Some app"
proof -
  note get = resolvePodApplications_get [OF assms(1) resolvePodOwners_wf]
  show ?thesis
  proof (cases "gm_str metricApps pod = []")
    case True
    then obtain o' where o': "gm_get (resolvePodOwners podOwner rsOwner mc) pod = Some o'"
      "ownerApp (resolveControllerApplications (degrade rs jobs v) mc) (resolveJobCronJobOwners jobOwner mc) jobs pod o' = app"
      "app \<noteq> []"
      using assms(2) unfolding podApplications_def get by (auto split: option.splits if_splits)
    from ownerApp_degrade [OF this(2,3)] show ?thesis using True o'(1,3) unfolding podApplications_def get by simp
  next
    case False
    then show ?thesis using assms(2) unfolding podApplications_def get by simp
  qed
qed

definition exAnnotated :: "string \<Rightarrow> string \<Rightarrow> string \<Rightarrow> nat Row" where
  "exAnnotated labelName name app = exSample [(labelName, name), (argoTrackingIDLabel, app @ '':batch/Job:shop/x'')] 1"

definition exVectors :: "nat controllerVectors" where
  "exVectors = \<lparr> DeploymentAnnotations = [exAnnotated ''deployment'' ''web'' ''site''], StatefulSetAnnotations = [],
     DaemonSetAnnotations = [], ReplicaSetAnnotations = [exAnnotated ''replicaset'' ''bare'' ''old''],
     JobAnnotations = [exAnnotated ''job_name'' ''j1'' ''once''], CronJobAnnotations = [exAnnotated ''cronjob'' ''nightly'' ''cron''] \<rparr>"

definition exOwners :: "nat Row list" where
  "exOwners = [exPodOwner ''p1'' ''ReplicaSet'' ''web-1'', exPodOwner ''p2'' ''Job'' ''j1'', exPodOwner ''p3'' ''ReplicaSet'' ''bare'']"

definition exJobOwners :: "nat Row list" where
  "exJobOwners = [exSample [(''job_name'', ''j1''), (''owner_kind'', ''CronJob''), (''owner_is_controller'', ''true''), (''owner_name'', ''nightly'')] 1]"

theorem podApplications_degrade_witness:
  "gm_get (podApplications [] exOwners [exRSOwner ''web-1'' ''web''] exVectors exJobOwners False exResolver) (''c1'', ''shop'', ''p1'')
     = Some ''site''"
proof -
  have "gm_get (podApplications [] exOwners [exRSOwner ''web-1'' ''web''] (degrade True True exVectors) exJobOwners True exResolver)
      (''c1'', ''shop'', ''p1'') = Some ''site''" by code_simp
  from podApplications_degrade [OF gm_wf_Nil this] show ?thesis .
qed

text \<open>Without the flag the pod of a managed Job would be attributed to its CronJob's Application.\<close>

lemma degrade_needs_flag:
  "gm_get (podApplications [] exOwners [] (degrade False True exVectors) exJobOwners False exResolver) (''c1'', ''shop'', ''p2'') = Some ''cron''"
  "gm_get (podApplications [] exOwners [] exVectors exJobOwners False exResolver) (''c1'', ''shop'', ''p2'') = Some ''once''"
  by code_simp+

end
