(* ===== verification/LabelQuery.thy ===== *)
theory LabelQuery
  imports Router Utf8
begin

text \<open>
  Label queries for embedders: \<open>pkg/promql/labelquery.go\<close>.

  A request names one metric, one query family and label equalities; the answer is the set of matching
  label sets. The lemmas show that a validated request's query selects exactly its equalities, that the
  identity string of a label set is injective, and that the answer is complete, free of duplicates, sorted,
  and never truncated. The evaluation instant is \<open>None\<close> for Go's zero time; the filters are a Go map, so
  which of several invalid filters an error names depends on its iteration order, the order of the list.
\<close>

section \<open>Validation\<close>

definition DefaultLabelQueryLimit :: int where "DefaultLabelQueryLimit = 10000"

definition MaxLabelQueryValueLen :: nat where "MaxLabelQueryValueLen = 1024"

text \<open>\<open>[a-zA-Z_]\<close> and \<open>[a-zA-Z0-9_]\<close>.\<close>

definition labelStart :: "char \<Rightarrow> bool" where
  "labelStart c =
     (0x61 \<le> byteAt c \<and> byteAt c \<le> 0x7A \<or> 0x41 \<le> byteAt c \<and> byteAt c \<le> 0x5A \<or> c = CHR ''_'')"

definition labelRest :: "char \<Rightarrow> bool" where
  "labelRest c = (labelStart c \<or> 0x30 \<le> byteAt c \<and> byteAt c \<le> 0x39)"

definition metricNameRe :: "string \<Rightarrow> bool" where
  "metricNameRe s =
     (case s of [] \<Rightarrow> False
      | c # r \<Rightarrow> (labelStart c \<or> c = CHR '':'') \<and> list_all (\<lambda>c. labelRest c \<or> c = CHR '':'') r)"

definition labelNameRe :: "string \<Rightarrow> bool" where
  "labelNameRe s = (case s of [] \<Rightarrow> False | c # r \<Rightarrow> labelStart c \<and> list_all labelRest r)"

definition MetricNameLabel :: string where "MetricNameLabel = ''__name__''"

record LabelQuery =
  lq_Metric :: string
  lq_Family :: Family
  lq_AZ :: string
  lq_Filters :: "(string, string) gomap"
  lq_At :: "int option"
  lq_Window :: int
  lq_Limit :: int
  lq_LabelKeys :: LabelKeys

datatype ValueError = TooLong | NotUTF8 | ControlCharacter

datatype 'e LabelQueryError =
    UnknownFamily Family
  | InvalidMetric string
  | InvalidAZKey string
  | ReservedKey string
  | InvalidKey string
  | ConflictingKey string
  | InvalidAZValue ValueError
  | InvalidFilterValue string ValueError
  | NoInstant
  | NotZoneRouted Family
  | Unserved Family
  | Upstream "'e FanoutError"
  | LimitExceeded int int

definition validateLabelQueryValue :: "string \<Rightarrow> ValueError option" where
  "validateLabelQueryValue val =
     (if length val > MaxLabelQueryValueLen then Some TooLong
      else if \<not> ValidString val then Some NotUTF8
      else if hasControl val then Some ControlCharacter
      else None)"

definition filterKeyError :: "LabelQuery \<Rightarrow> LabelKeys \<Rightarrow> string \<Rightarrow> 'e LabelQueryError option" where
  "filterKeyError q keys k =
     (if k = MetricNameLabel then Some (ReservedKey k)
      else if \<not> labelNameRe k then Some (InvalidKey k)
      else if lq_AZ q \<noteq> [] \<and> k = lk_AZ keys then Some (ConflictingKey k)
      else None)"

text \<open>The first error of a loop over the filters.\<close>

fun firstError :: "('a \<Rightarrow> 'e option) \<Rightarrow> 'a list \<Rightarrow> 'e option" where
  "firstError f [] = None"
| "firstError f (x # xs) = (case f x of Some e \<Rightarrow> Some e | None \<Rightarrow> firstError f xs)"

definition validate :: "LabelQuery \<Rightarrow> 'e LabelQueryError + Family" where
  "validate q =
     (case ParseFamily (lq_Family q) of
        None \<Rightarrow> Inl (UnknownFamily (lq_Family q))
      | Some fam \<Rightarrow>
          if \<not> metricNameRe (lq_Metric q) then Inl (InvalidMetric (lq_Metric q))
          else
            let keys = OrDefault (lq_LabelKeys q) in
            if \<not> labelNameRe (lk_AZ keys) then Inl (InvalidAZKey (lk_AZ keys))
            else case firstError (filterKeyError q keys) (map fst (lq_Filters q)) of
              Some e \<Rightarrow> Inl e
            | None \<Rightarrow>
               (case (if lq_AZ q \<noteq> [] then validateLabelQueryValue (lq_AZ q) else None) of
                  Some e \<Rightarrow> Inl (InvalidAZValue e)
                | None \<Rightarrow>
                   (case firstError (\<lambda>(k, v). map_option (InvalidFilterValue k) (validateLabelQueryValue v)) (lq_Filters q) of
                      Some e \<Rightarrow> Inl e
                    | None \<Rightarrow>
                        if lq_At q = None then Inl NoInstant
                        else if lq_AZ q \<noteq> [] \<and> \<not> AcceptsAZ fam then Inl (NotZoneRouted fam)
                        else Inr fam)))"

section \<open>Rendering\<close>

definition equalityMatcher :: "string \<Rightarrow> string \<Rightarrow> string" where
  "equalityMatcher k v = k @ ''='' @ [CHR 0x22] @ escapeLiteral v @ [CHR 0x22]"

definition labelQueryMatchers :: "LabelQuery \<Rightarrow> string list" where
  "labelQueryMatchers q =
     (let keys = OrDefault (lq_LabelKeys q);
          matchers = (if lq_AZ q \<noteq> [] \<and> RendersAZ (lq_Family q) then [equalityMatcher (lk_AZ keys) (lq_AZ q)] else [])
      in matchers @ map (\<lambda>k. equalityMatcher k (gm_str (lq_Filters q) k)) (sort (map fst (lq_Filters q))))"

definition labelQueryRender :: "(int \<Rightarrow> int) \<Rightarrow> LabelQuery \<Rightarrow> string" where
  "labelQueryRender trunc q =
     (let matchers = labelQueryMatchers q;
          selector = lq_Metric q @ (if length matchers > 0 then ''{'' @ Join matchers '','' @ ''}'' else [])
      in if lq_Window q > 0 then ''last_over_time('' @ selector @ ''['' @ FormatDuration trunc (lq_Window q) @ ''])''
         else selector)"

section \<open>Label sets\<close>

record labelSetEntry =
  ls_labels :: labels
  ls_keys :: "string list"
  ls_id :: string

definition lengthPrefixed :: "string \<Rightarrow> string" where
  "lengthPrefixed s = FormatInt (int (length s)) @ '':'' @ s"

definition labelSetID :: "labels \<Rightarrow> string list \<Rightarrow> string" where
  "labelSetID m keys = concat (map (\<lambda>k. lengthPrefixed k @ lengthPrefixed (gm_str m k)) keys)"

definition entryOf :: "labels \<Rightarrow> labelSetEntry" where
  "entryOf metric =
     (let m = filter (\<lambda>(k, v). k \<noteq> MetricNameLabel) metric; keys = sort (map fst m)
      in \<lparr> ls_labels = m, ls_keys = keys, ls_id = labelSetID m keys \<rparr>)"

fun labelSetsLoop :: "string set \<Rightarrow> labelSetEntry list \<Rightarrow> (labels, 'f) Sample list \<Rightarrow> labelSetEntry list" where
  "labelSetsLoop seen out [] = out"
| "labelSetsLoop seen out (s # vec) =
     (let e = entryOf (sm_metric s) in
      if ls_id e \<in> seen then labelSetsLoop seen out vec
      else labelSetsLoop (insert (ls_id e) seen) (out @ [e]) vec)"

definition labelSetsOf :: "(labels, 'f) Sample list \<Rightarrow> labelSetEntry list" where
  "labelSetsOf vec = labelSetsLoop {} [] vec"

definition cmpStr :: "string \<Rightarrow> string \<Rightarrow> int" where
  "cmpStr a b = (if a < b then - 1 else if a = b then 0 else 1)"

fun compareLoop :: "labels \<Rightarrow> labels \<Rightarrow> string list \<Rightarrow> string list \<Rightarrow> int" where
  "compareLoop a b (k # ks) (k' # ks') =
     (if cmpStr k k' \<noteq> 0 then cmpStr k k'
      else if cmpStr (gm_str a k) (gm_str b k) \<noteq> 0 then cmpStr (gm_str a k) (gm_str b k)
      else compareLoop a b ks ks')"
| "compareLoop a b [] [] = 0"
| "compareLoop a b [] (k # ks) = - 1"
| "compareLoop a b (k # ks) [] = 1"

definition compareLabelSets :: "labelSetEntry \<Rightarrow> labelSetEntry \<Rightarrow> int" where
  "compareLabelSets a b = compareLoop (ls_labels a) (ls_labels b) (ls_keys a) (ls_keys b)"

text \<open>The sort key \<open>compareLabelSets\<close> compares (\<open>compareLabelSets_key\<close>).\<close>

definition sortKey :: "labelSetEntry \<Rightarrow> (string \<times> string) list" where
  "sortKey e = map (\<lambda>k. (k, gm_str (ls_labels e) k)) (ls_keys e)"

definition sortLabelSets :: "labelSetEntry list \<Rightarrow> labelSetEntry list" where
  "sortLabelSets es = sort_key sortKey es"

section \<open>The query\<close>

text \<open>\<open>ask query\<close> is what each backend answers to the rendered query at the request's instant.\<close>

definition QueryLabels ::
  "(int \<Rightarrow> int) \<Rightarrow> ('f \<Rightarrow> 'f \<Rightarrow> bool) \<Rightarrow> ('f \<Rightarrow> 'f \<Rightarrow> bool) \<Rightarrow> (labels \<Rightarrow> 64 word) \<Rightarrow> (Backend list \<Rightarrow> Backend list)
     \<Rightarrow> 'q Router \<Rightarrow> (string \<Rightarrow> string \<Rightarrow> 'e + (labels, 'f) Vector) \<Rightarrow> LabelQuery \<Rightarrow> 'e LabelQueryError + labels list" where
  "QueryLabels trunc eq gt fp order r ask req =
     (case validate req of
        Inl e \<Rightarrow> Inl e
      | Inr fam \<Rightarrow>
          let req = req\<lparr> lq_Family := fam \<rparr>; st = rt_state r in
          if length (Select (Some (rs_table st)) fam []) = 0 then Inl (Unserved fam)
          else
            let az = (if lq_AZ req \<noteq> [] then [lq_AZ req] else []);
                fq = querier st az
            in case issue eq gt fp order (Some (fq_table fq)) (fst ` set (fq_clients fq)) (fq_az fq) fam
                     (ask (labelQueryRender trunc req)) of
                 Inl e \<Rightarrow> Inl (Upstream e)
               | Inr vec \<Rightarrow>
                   let entries = labelSetsOf vec;
                       limit = (if lq_Limit req \<le> 0 then DefaultLabelQueryLimit else lq_Limit req)
                   in if int (length entries) > limit then Inl (LimitExceeded (int (length entries)) limit)
                      else Inr (map ls_labels (sortLabelSets entries)))"

section \<open>Identity and order of label sets\<close>

lemma FormatInt_no_colon: "CHR '':'' \<notin> set (FormatInt (int n))"
  using digits_props [of n] by (auto simp: FormatInt_def)

lemma lengthPrefixed_split: "lengthPrefixed s @ r = lengthPrefixed s' @ r' \<longleftrightarrow> s = s' \<and> r = r'"
proof
  assume "lengthPrefixed s @ r = lengthPrefixed s' @ r'"
  then have "FormatInt (int (length s)) @ CHR '':'' # (s @ r) = FormatInt (int (length s')) @ CHR '':'' # (s' @ r')"
    by (simp add: lengthPrefixed_def)
  from sep_split [OF FormatInt_no_colon FormatInt_no_colon this]
  have "FormatInt (int (length s)) = FormatInt (int (length s'))" "s @ r = s' @ r'" by simp_all
  then show "s = s' \<and> r = r'" using FormatInt_inj by fastforce
qed simp

lemma lengthPrefixed_not_Nil [simp]: "lengthPrefixed s \<noteq> []"
  by (simp add: lengthPrefixed_def)

lemma pairs_injective:
  "concat (map (\<lambda>(k, v). lengthPrefixed k @ lengthPrefixed v) xs) = concat (map (\<lambda>(k, v). lengthPrefixed k @ lengthPrefixed v) ys)
     \<longleftrightarrow> xs = ys"
proof (induction xs arbitrary: ys)
  case Nil
  show ?case by (cases ys) auto
next
  case (Cons x xs)
  show ?case by (cases ys; cases x) (auto simp: lengthPrefixed_split Cons.IH)
qed

text \<open>The label set of a series, without its metric name.\<close>

definition stripped :: "labels \<Rightarrow> string \<rightharpoonup> string" where
  "stripped metric = (gm_get metric)(MetricNameLabel := None)"

definition canonical :: "labels \<Rightarrow> (string \<times> string) list" where
  "canonical m = map (\<lambda>k. (k, gm_str m k)) (sort (map fst m))"

lemma entryOf_labels: "gm_get (ls_labels (entryOf metric)) = stripped metric"
proof (rule ext)
  fix k
  show "gm_get (ls_labels (entryOf metric)) k = stripped metric k"
    unfolding entryOf_def stripped_def gm_get_def Let_def by (induction metric) auto
qed

lemma entryOf_wf: "gm_wf metric \<Longrightarrow> gm_wf (ls_labels (entryOf metric))"
  by (simp add: entryOf_def gm_wf_def Let_def distinct_map_filter)

lemma canonical_set: "gm_wf m \<Longrightarrow> set (canonical m) = set m"
  by (force simp: canonical_def gm_str_get dest: gm_in_get)

lemma canonical_eq_iff:
  assumes "gm_wf m" and "gm_wf m'"
  shows "canonical m = canonical m' \<longleftrightarrow> gm_get m = gm_get m'"
proof
  assume "canonical m = canonical m'"
  then have "set m = set m'" using canonical_set assms by metis
  then have "gm_get m k = Some v \<longleftrightarrow> gm_get m' k = Some v" for k v
    using gm_in_get_iff [OF assms(1)] gm_in_get_iff [OF assms(2)] by blast
  then show "gm_get m = gm_get m'" by (intro ext) (metis not_None_eq)
next
  assume eq: "gm_get m = gm_get m'"
  have "gm_str m = gm_str m'" using eq by (intro ext) (simp add: gm_str_get)
  moreover have "sort (map fst m) = sort (map fst m')"
  proof (rule sorted_distinct_set_unique)
    have "k \<in> set (map fst m) \<longleftrightarrow> k \<in> set (map fst m')" for k
      using eq by (simp add: gm_has_iff [symmetric] gm_has_get)
    then show "set (sort (map fst m)) = set (sort (map fst m'))" by auto
  qed (use assms in \<open>simp_all add: gm_wf_def\<close>)
  ultimately show "canonical m = canonical m'" by (simp add: canonical_def)
qed

lemma entryOf_sortKey: "sortKey (entryOf metric) = canonical (ls_labels (entryOf metric))"
  by (simp add: sortKey_def entryOf_def canonical_def Let_def)

lemma entryOf_id: "ls_id (entryOf metric) = ls_id (entryOf metric') \<longleftrightarrow> sortKey (entryOf metric) = sortKey (entryOf metric')"
proof -
  have "ls_id (entryOf metric) = concat (map (\<lambda>(k, v). lengthPrefixed k @ lengthPrefixed v) (sortKey (entryOf metric)))" for metric
    by (simp add: entryOf_def sortKey_def labelSetID_def Let_def comp_def)
  then show ?thesis by (simp add: pairs_injective)
qed

lemma compareLabelSets_key:
  "compareLabelSets a b < 0 \<longleftrightarrow> sortKey a < sortKey b"
  "compareLabelSets a b = 0 \<longleftrightarrow> sortKey a = sortKey b"
proof -
  have "(compareLoop la lb ka kb < 0 \<longleftrightarrow>
      map (\<lambda>k. (k, gm_str la k)) ka < map (\<lambda>k. (k, gm_str lb k)) kb) \<and>
    (compareLoop la lb ka kb = 0 \<longleftrightarrow> map (\<lambda>k. (k, gm_str la k)) ka = map (\<lambda>k. (k, gm_str lb k)) kb)" for la lb ka kb
    by (induction la lb ka kb rule: compareLoop.induct) (auto simp: cmpStr_def split: if_splits)
  then show "compareLabelSets a b < 0 \<longleftrightarrow> sortKey a < sortKey b"
    "compareLabelSets a b = 0 \<longleftrightarrow> sortKey a = sortKey b"
    by (simp_all add: compareLabelSets_def sortKey_def)
qed

lemma labelSetsLoop_spec:
  assumes "seen = ls_id ` set out" and "distinct (map ls_id out)"
  shows "distinct (map ls_id (labelSetsLoop seen out vec)) \<and>
    ls_id ` set (labelSetsLoop seen out vec) = seen \<union> (\<lambda>s. ls_id (entryOf (sm_metric s))) ` set vec \<and>
    set (labelSetsLoop seen out vec) \<subseteq> set out \<union> (\<lambda>s. entryOf (sm_metric s)) ` set vec"
  using assms
proof (induction vec arbitrary: seen out)
  case (Cons s vec)
  let ?e = "entryOf (sm_metric s)"
  show ?case
  proof (cases "ls_id ?e \<in> seen")
    case True
    with Cons.IH [OF Cons.prems] show ?thesis by (auto simp: Let_def)
  next
    case False
    then have "insert (ls_id ?e) seen = ls_id ` set (out @ [?e])" "distinct (map ls_id (out @ [?e]))"
      using Cons.prems by auto
    from Cons.IH [OF this] False show ?thesis by (auto simp: Let_def)
  qed
qed simp

section \<open>Properties\<close>

lemma firstError_None: "firstError f xs = None \<longleftrightarrow> (\<forall>x\<in>set xs. f x = None)"
  by (induction xs) (auto split: option.splits)

lemma labelNameRe_key: "labelNameRe k \<Longrightarrow> k \<noteq> [] \<and> CHR ''='' \<notin> set k"
proof -
  assume k: "labelNameRe k"
  then have "\<forall>c\<in>set k. labelRest c"
    by (auto simp: labelNameRe_def labelRest_def list_all_iff split: list.splits)
  moreover have "\<not> labelRest (CHR ''='')" by code_simp
  moreover have "k \<noteq> []" using k by (auto simp: labelNameRe_def)
  ultimately show "k \<noteq> [] \<and> CHR ''='' \<notin> set k" by blast
qed

lemma validateLabelQueryValue_None:
  "validateLabelQueryValue v = None \<Longrightarrow> length v \<le> MaxLabelQueryValueLen \<and> CHR 0x0A \<notin> set v"
  using no_newline [of v] by (auto simp: validateLabelQueryValue_def split: if_splits)

lemma validate_ok:
  assumes "validate q = Inr fam"
  shows "ParseFamily (lq_Family q) = Some fam" "metricNameRe (lq_Metric q)" "labelNameRe (lk_AZ (OrDefault (lq_LabelKeys q)))"
    "\<forall>k\<in>fst ` set (lq_Filters q). k \<noteq> MetricNameLabel \<and> labelNameRe k \<and> (lq_AZ q \<noteq> [] \<longrightarrow> k \<noteq> lk_AZ (OrDefault (lq_LabelKeys q)))"
    "lq_AZ q \<noteq> [] \<longrightarrow> validateLabelQueryValue (lq_AZ q) = None \<and> AcceptsAZ fam"
    "\<forall>(k, v)\<in>set (lq_Filters q). validateLabelQueryValue v = None" "lq_At q \<noteq> None"
proof -
  obtain fam' where f: "ParseFamily (lq_Family q) = Some fam'" using assms by (auto simp: validate_def split: option.splits)
  have m: "metricNameRe (lq_Metric q)" "labelNameRe (lk_AZ (OrDefault (lq_LabelKeys q)))"
    using assms f by (auto simp: validate_def Let_def split: if_splits)
  have keys: "firstError (filterKeyError q (OrDefault (lq_LabelKeys q))) (map fst (lq_Filters q)) = (None :: 'a LabelQueryError option)"
    using assms f m by (auto simp: validate_def Let_def split: option.splits)
  have az: "(if lq_AZ q \<noteq> [] then validateLabelQueryValue (lq_AZ q) else None) = None"
    using assms f m keys by (auto simp: validate_def Let_def split: option.splits)
  have vals: "firstError (\<lambda>(k, v). map_option (InvalidFilterValue k) (validateLabelQueryValue v)) (lq_Filters q)
      = (None :: 'a LabelQueryError option)"
    using assms f m keys az by (auto simp: validate_def Let_def split: option.splits)
  have rest: "lq_At q \<noteq> None" "lq_AZ q \<noteq> [] \<longrightarrow> AcceptsAZ fam'" "fam = fam'"
    using assms f m keys az vals by (auto simp: validate_def Let_def split: if_splits)
  show "ParseFamily (lq_Family q) = Some fam" "metricNameRe (lq_Metric q)"
    "labelNameRe (lk_AZ (OrDefault (lq_LabelKeys q)))" "lq_At q \<noteq> None" using f m rest by simp_all
  show "\<forall>k\<in>fst ` set (lq_Filters q). k \<noteq> MetricNameLabel \<and> labelNameRe k \<and> (lq_AZ q \<noteq> [] \<longrightarrow> k \<noteq> lk_AZ (OrDefault (lq_LabelKeys q)))"
    using keys unfolding firstError_None filterKeyError_def by (auto split: if_splits)
  show "lq_AZ q \<noteq> [] \<longrightarrow> validateLabelQueryValue (lq_AZ q) = None \<and> AcceptsAZ fam" using az rest by auto
  show "\<forall>(k, v)\<in>set (lq_Filters q). validateLabelQueryValue v = None" using vals by (auto simp: firstError_None)
qed

text \<open>
  C32: a label query cannot be widened or broken out of. The query rendered for an accepted request, its window
  positive or not, is the metric with a selector - under a positive window the argument of
  \<open>last_over_time\<close> with that window as its range - and the selector reads back as label matchers and holds
  of a series exactly when every filter's label has the filter's value and, for a family whose queries carry the
  zone label, the zone label has the requested zone.
\<close>

theorem label_query_selects:
  assumes "validate q = (Inr fam :: 'e LabelQueryError + Family)" and "gm_wf (lq_Filters q)"
  shows "\<exists>frag ms selector. selector = lq_Metric q @ (if ms = [] then [] else ''{'' @ frag @ ''}'') \<and>
      labelQueryRender trunc (q\<lparr> lq_Family := fam \<rparr>) =
        (if lq_Window q > 0 then ''last_over_time('' @ selector @ ''['' @ FormatDuration trunc (lq_Window q) @ ''])'' else selector) \<and>
      parseFragment frag = Some ms \<and>
      (\<forall>L. (\<forall>m\<in>set ms. matcherHolds L m) \<longleftrightarrow>
         (\<forall>(k, v)\<in>set (lq_Filters q). L k = v) \<and>
         (lq_AZ q \<noteq> [] \<and> RendersAZ fam \<longrightarrow> L (lk_AZ (OrDefault (lq_LabelKeys q))) = lq_AZ q))"
proof -
  let ?az = "lk_AZ (OrDefault (lq_LabelKeys q))"
  note ok = validate_ok [OF assms(1)]
  define ms where "ms = (if lq_AZ q \<noteq> [] \<and> RendersAZ fam then [Matcher ?az False (lq_AZ q)] else [])
      @ map (\<lambda>k. Matcher k False (gm_str (lq_Filters q) k)) (sort (map fst (lq_Filters q)))"
  have eq: "equalityMatcher k v = renderM (Matcher k False v)" for k v by (simp add: equalityMatcher_def renderM_def)
  have rend: "labelQueryMatchers (q\<lparr> lq_Family := fam \<rparr>) = map renderM ms"
    by (simp add: labelQueryMatchers_def ms_def Let_def eq)
  have str: "(k, v) \<in> set (lq_Filters q) \<Longrightarrow> gm_str (lq_Filters q) k = v" for k v
    using gm_in_get [OF assms(2)] by (simp add: gm_str_get)
  have filt: "readable (Matcher k False (gm_str (lq_Filters q) k))" if "k \<in> fst ` set (lq_Filters q)" for k
  proof -
    from that obtain v where kv: "(k, v) \<in> set (lq_Filters q)" by auto
    then have "CHR 0x0A \<notin> set v" using ok(6) validateLabelQueryValue_None by blast
    moreover have "labelNameRe k" using ok(4) that by blast
    ultimately show ?thesis using str [OF kv] labelNameRe_key by (simp add: readable_def)
  qed
  have az: "lq_AZ q \<noteq> [] \<Longrightarrow> readable (Matcher ?az False (lq_AZ q))"
    using ok(5) labelNameRe_key [OF ok(3)] validateLabelQueryValue_None by (simp add: readable_def)
  have "readable m" if "m \<in> set ms" for m
  proof -
    have "lq_AZ q \<noteq> [] \<and> m = Matcher ?az False (lq_AZ q) \<or>
        (\<exists>k\<in>fst ` set (lq_Filters q). m = Matcher k False (gm_str (lq_Filters q) k))"
      using that unfolding ms_def set_append set_map set_sort by (auto split: if_splits)
    then show ?thesis using filt az by blast
  qed
  then have "\<forall>m\<in>set ms. readable m" by blast
  then have frag: "parseFragment (Join (map renderM ms) '','') = Some ms" by (rule parseFragment_Join)
  have holds: "(\<forall>m\<in>set ms. matcherHolds L m) \<longleftrightarrow> (\<forall>(k, v)\<in>set (lq_Filters q). L k = v) \<and>
      (lq_AZ q \<noteq> [] \<and> RendersAZ fam \<longrightarrow> L ?az = lq_AZ q)" for L
  proof -
    have f1: "(\<forall>k\<in>fst ` set (lq_Filters q). L k = gm_str (lq_Filters q) k) \<longleftrightarrow> (\<forall>(k, v)\<in>set (lq_Filters q). L k = v)"
      using str by fastforce
    have f2: "(\<forall>m\<in>set (map (\<lambda>k. Matcher k False (gm_str (lq_Filters q) k)) (sort (map fst (lq_Filters q)))). matcherHolds L m)
        \<longleftrightarrow> (\<forall>k\<in>fst ` set (lq_Filters q). L k = gm_str (lq_Filters q) k)"
      by (simp add: matcherHolds_def)
    have f3: "(\<forall>m\<in>set (if lq_AZ q \<noteq> [] \<and> RendersAZ fam then [Matcher ?az False (lq_AZ q)] else []). matcherHolds L m)
        \<longleftrightarrow> (lq_AZ q \<noteq> [] \<and> RendersAZ fam \<longrightarrow> L ?az = lq_AZ q)"
      by (simp add: matcherHolds_def)
    show ?thesis unfolding ms_def set_append ball_Un f3 f2 f1 by (rule conj_commute)
  qed
  let ?sel = "lq_Metric q @ (if ms = [] then [] else ''{'' @ Join (map renderM ms) '','' @ ''}'')"
  have "labelQueryRender trunc (q\<lparr> lq_Family := fam \<rparr>) =
      (if lq_Window q > 0 then ''last_over_time('' @ ?sel @ ''['' @ FormatDuration trunc (lq_Window q) @ ''])'' else ?sel)"
    unfolding labelQueryRender_def rend Let_def by simp
  from conjI [OF refl [of ?sel] conjI [OF this conjI [OF frag allI [OF holds]]]] show ?thesis by (intro exI)
qed

text \<open>
  The answer of a label query is exact. When the fan-out answers, the result is the set of matched
  label sets without the metric name, each once, in the order of their sorted labels; it is returned whole
  or, when it exceeds the limit, refused with its size - never truncated.
\<close>

theorem query_labels_exact:
  fixes r :: "'q Router" and ask :: "string \<Rightarrow> string \<Rightarrow> 'e + (labels, 'f) Vector"
  assumes "validate q = (Inr fam :: 'e LabelQueryError + Family)" and "Select (Some (rs_table (rt_state r))) fam [] \<noteq> []"
    and "issue eq gt fp order (Some (rs_table (rt_state r))) (fst ` set (rs_clients (rt_state r)))
           (if lq_AZ q \<noteq> [] then [lq_AZ q] else []) fam (ask (labelQueryRender trunc (q\<lparr> lq_Family := fam \<rparr>))) = Inr vec"
    and "\<forall>s\<in>set vec. gm_wf (sm_metric s)"
    and "limit = (if lq_Limit q \<le> 0 then DefaultLabelQueryLimit else lq_Limit q)"
    and "S = stripped ` sm_metric ` set vec"
  shows "if int (card S) > limit then QueryLabels trunc eq gt fp order r ask q = Inl (LimitExceeded (int (card S)) limit)
    else \<exists>out. QueryLabels trunc eq gt fp order r ask q = Inr out \<and> gm_get ` set out = S \<and>
      distinct (map gm_get out) \<and> sorted (map canonical out)"
proof -
  let ?es = "labelSetsOf vec" and ?f = "\<lambda>s. entryOf (sm_metric s)"
  have spec: "distinct (map ls_id ?es)" "ls_id ` set ?es = (\<lambda>s. ls_id (?f s)) ` set vec" "set ?es \<subseteq> ?f ` set vec"
    using labelSetsLoop_spec [of "{}" "[]" vec] by (auto simp: labelSetsOf_def)
  have wf: "gm_wf (ls_labels e)" if "e \<in> ?f ` set vec" for e using that assms(4) entryOf_wf by auto
  have id_get: "ls_id e = ls_id e' \<longleftrightarrow> gm_get (ls_labels e) = gm_get (ls_labels e')"
    if "e \<in> ?f ` set vec" "e' \<in> ?f ` set vec" for e e'
    using that canonical_eq_iff [OF wf [OF that(1)] wf [OF that(2)]] by (auto simp: entryOf_id entryOf_sortKey)
  have inj: "distinct (map (\<lambda>e. gm_get (ls_labels e)) ?es)"
  proof -
    have "inj_on (\<lambda>e. gm_get (ls_labels e)) (set ?es)"
    proof (rule inj_onI)
      fix e e'
      assume e: "e \<in> set ?es" "e' \<in> set ?es" and eq: "gm_get (ls_labels e) = gm_get (ls_labels e')"
      have "ls_id e = ls_id e'" using id_get [of e e'] spec(3) e eq by blast
      with e show "e = e'" using spec(1) by (simp add: distinct_map inj_on_def)
    qed
    with spec(1) show ?thesis by (simp add: distinct_map)
  qed
  have S: "(\<lambda>e. gm_get (ls_labels e)) ` set ?es = S"
  proof -
    have img: "(\<lambda>e. gm_get (ls_labels e)) ` ?f ` set vec = S"
      unfolding assms(6) by (simp add: image_image entryOf_labels)
    have "gm_get (ls_labels e) \<in> (\<lambda>e. gm_get (ls_labels e)) ` set ?es" if e: "e \<in> ?f ` set vec" for e
    proof -
      have "ls_id e \<in> ls_id ` set ?es" using e spec(2) by auto
      then obtain e' where e': "e' \<in> set ?es" "ls_id e' = ls_id e" by auto
      then have "gm_get (ls_labels e') = gm_get (ls_labels e)" using id_get [OF _ e] spec(3) by blast
      then show ?thesis using e'(1) by (metis imageI)
    qed
    then have "S \<subseteq> (\<lambda>e. gm_get (ls_labels e)) ` set ?es" unfolding img [symmetric] by blast
    moreover have "(\<lambda>e. gm_get (ls_labels e)) ` set ?es \<subseteq> S" unfolding img [symmetric] using spec(3) by (rule image_mono)
    ultimately show ?thesis by (rule subset_antisym [rotated])
  qed
  have card: "length ?es = card S" using distinct_card [OF inj] S by simp
  have Q: "QueryLabels trunc eq gt fp order r ask q =
      (if int (length ?es) > limit then Inl (LimitExceeded (int (length ?es)) limit)
       else Inr (map ls_labels (sortLabelSets ?es)))"
  proof -
    have flds: "lq_AZ (q\<lparr> lq_Family := fam \<rparr>) = lq_AZ q" "lq_Limit (q\<lparr> lq_Family := fam \<rparr>) = lq_Limit q" by simp_all
    show ?thesis
      by (simp only: QueryLabels_def assms(1-3,5) sum.case Let_def flds querier_def fanoutQuerier.select_convs
          length_0_conv if_False)
  qed
  have sorted: "sorted (map canonical (map ls_labels (sortLabelSets ?es)))"
  proof -
    have eq: "map (\<lambda>e. canonical (ls_labels e)) (sortLabelSets ?es) = map sortKey (sortLabelSets ?es)"
      using spec(3) by (auto simp: sortLabelSets_def entryOf_sortKey)
    show ?thesis unfolding map_map comp_def eq unfolding sortLabelSets_def by (rule sorted_sort_key)
  qed
  have "gm_get ` set (map ls_labels (sortLabelSets ?es)) = S" using S by (simp add: sortLabelSets_def image_image)
  moreover have "distinct (map gm_get (map ls_labels (sortLabelSets ?es)))"
    using inj by (simp add: sortLabelSets_def distinct_map inj_on_def)
  ultimately show ?thesis using Q card sorted by auto
qed

definition exLabelQuery :: LabelQuery where
  "exLabelQuery = \<lparr> lq_Metric = ''up:x'', lq_Family = ''ksm'', lq_AZ = ''z1'', lq_Filters = [(''b'', CHR 0x22 # ''},x''), (''a'', [])],
     lq_At = Some 5, lq_Window = 0, lq_Limit = 2, lq_LabelKeys = DefaultLabelKeys \<rparr>"

theorem label_query_selects_witness:
  "\<exists>frag ms selector. selector = ''up:x'' @ (if ms = [] then [] else ''{'' @ frag @ ''}'') \<and>
     labelQueryRender (\<lambda>d. d div Second) (exLabelQuery\<lparr> lq_Window := 300 * Second, lq_Family := ''ksm'' \<rparr>)
       = ''last_over_time('' @ selector @ ''[5m])'' \<and> parseFragment frag = Some ms \<and>
     (\<forall>L. (\<forall>m\<in>set ms. matcherHolds L m) \<longleftrightarrow> L ''a'' = [] \<and> L ''b'' = CHR 0x22 # ''},x'' \<and> L ''az'' = ''z1'')"
proof -
  let ?q = "exLabelQuery\<lparr> lq_Window := 300 * Second \<rparr>"
  have v: "validate ?q = (Inr ''ksm'' :: unit LabelQueryError + Family)" by code_simp
  have w: "gm_wf (lq_Filters ?q)" by code_simp
  have win: "lq_Window ?q > 0" "FormatDuration (\<lambda>d. d div Second) (lq_Window ?q) = ''5m''" "lq_Metric ?q = ''up:x''" by code_simp+
  have eqs: "(\<forall>(k, v)\<in>set (lq_Filters ?q). L k = v) \<and>
         (lq_AZ ?q \<noteq> [] \<and> RendersAZ ''ksm'' \<longrightarrow> L (lk_AZ (OrDefault (lq_LabelKeys ?q))) = lq_AZ ?q)
      \<longleftrightarrow> L ''a'' = [] \<and> L ''b'' = CHR 0x22 # ''},x'' \<and> L ''az'' = ''z1''" for L :: "string \<Rightarrow> string"
  proof -
    have "lq_Filters ?q = [(''b'', CHR 0x22 # ''},x''), (''a'', [])]" "lq_AZ ?q = ''z1''" "RendersAZ ''ksm''"
      "lk_AZ (OrDefault (lq_LabelKeys ?q)) = ''az''" by code_simp+
    then show ?thesis by auto
  qed
  show ?thesis using label_query_selects [OF v w, of "\<lambda>d. d div Second"] unfolding eqs win(2,3) if_P [OF win(1)] by simp
qed

definition exRow :: "string \<Rightarrow> string \<Rightarrow> nat \<Rightarrow> (labels, nat) Sample option" where
  "exRow name pod v = Some \<lparr> sm_metric = [(MetricNameLabel, name), (''pod'', pod)], sm_value = v \<rparr>"

definition exAnswer :: "string \<Rightarrow> string \<Rightarrow> string + (labels, nat) Vector" where
  "exAnswer query name = Inr [exRow ''a'' ''p2'' 1, exRow ''b'' ''p1'' 2, exRow ''b'' ''p2'' 3]"

definition exFp :: "labels \<Rightarrow> 64 word" where
  "exFp m = of_nat (length (concat (map snd m))) + (if gm_str m ''__name__'' = ''a'' then 1 else if gm_str m ''pod'' = ''p1'' then 2 else 3)"

theorem query_labels_exact_witness:
  "\<exists>out. QueryLabels (\<lambda>d. d div Second) (=) (>) exFp id exRouter exAnswer exLabelQuery = (Inr out :: string LabelQueryError + labels list) \<and>
     out = [[(''pod'', ''p1'')], [(''pod'', ''p2'')]] \<and> distinct (map gm_get out)"
proof -
  let ?vec = "[\<lparr> sm_metric = [(MetricNameLabel, ''a''), (''pod'', ''p2'')], sm_value = 1 :: nat \<rparr>,
     \<lparr> sm_metric = [(MetricNameLabel, ''b''), (''pod'', ''p1'')], sm_value = 2 \<rparr>,
     \<lparr> sm_metric = [(MetricNameLabel, ''b''), (''pod'', ''p2'')], sm_value = 3 \<rparr>]"
  have v: "validate exLabelQuery = (Inr ''ksm'' :: string LabelQueryError + Family)" by code_simp
  have sel: "Select (Some (rs_table (rt_state exRouter))) ''ksm'' [] \<noteq> []" by code_simp
  have iss: "issue (=) (>) exFp id (Some (rs_table (rt_state exRouter))) (fst ` set (rs_clients (rt_state exRouter)))
      (if lq_AZ exLabelQuery \<noteq> [] then [lq_AZ exLabelQuery] else []) ''ksm''
      (exAnswer (labelQueryRender (\<lambda>d. d div Second) (exLabelQuery\<lparr> lq_Family := ''ksm'' \<rparr>))) = Inr ?vec" by code_simp
  have wf: "\<forall>s\<in>set ?vec. gm_wf (sm_metric s)" by code_simp
  have out: "QueryLabels (\<lambda>d. d div Second) (=) (>) exFp id exRouter exAnswer exLabelQuery
      = (Inr [[(''pod'', ''p1'')], [(''pod'', ''p2'')]] :: string LabelQueryError + labels list)" by code_simp
  from query_labels_exact [where ask = exAnswer and trunc = "\<lambda>d. d div Second", OF v sel iss wf refl refl] show ?thesis
    unfolding out by (auto split: if_splits)
qed

end
