(* ===== verification/AppMetadata.thy ===== *)
theory AppMetadata
  imports LabelQuery ScopedQueries
begin

text \<open>
  The operator's application-metadata metric: \<open>pkg/promql/appmetadata.go\<close>. The nine label names its rows
  are read through, their defaults, their validation, and the metric's three queries. The lemmas show which
  configurations are accepted and that, under an accepted one, a namespace read selects exactly the rows of
  one cluster and its namespaces inside the request's own selection.
\<close>

record AppMetadataSource =
  am_Metric :: string
  am_App :: string
  am_User :: string
  am_NSOwner :: string
  am_Namespace :: string
  am_Pod :: string
  am_DeployTime :: string
  am_NSGroup :: string
  am_NSGroupOwner :: string
  am_NSAlias :: string

text \<open>\<open>cmp.Or\<close> of two strings.\<close>

definition cmpOr :: "string \<Rightarrow> string \<Rightarrow> string" where
  "cmpOr a b = (if a \<noteq> [] then a else b)"

definition sourceOrDefault :: "AppMetadataSource \<Rightarrow> AppMetadataSource" where
  "sourceOrDefault s =
     s\<lparr> am_App := cmpOr (am_App s) ''argocd_app'',
        am_User := cmpOr (am_User s) ''user'',
        am_NSOwner := cmpOr (am_NSOwner s) ''owner'',
        am_Namespace := cmpOr (am_Namespace s) ''namespace'',
        am_Pod := cmpOr (am_Pod s) ''pod'',
        am_DeployTime := cmpOr (am_DeployTime s) ''deploy_time'',
        am_NSGroup := cmpOr (am_NSGroup s) ''namespace_group'',
        am_NSGroupOwner := cmpOr (am_NSGroupOwner s) ''namespace_group_owner'',
        am_NSAlias := cmpOr (am_NSAlias s) ''namespace_alias'' \<rparr>"

datatype SourceError =
    BadMetric string
  | BadLabel string string
  | CollidingLabel string string
  | SharedLabel string string string

definition sourceFields :: "AppMetadataSource \<Rightarrow> (string \<times> string) list" where
  "sourceFields s =
     [(''app'', am_App s), (''user'', am_User s), (''ns_owner'', am_NSOwner s), (''namespace'', am_Namespace s),
      (''pod'', am_Pod s), (''deploy_time'', am_DeployTime s), (''ns_group'', am_NSGroup s),
      (''ns_group_owner'', am_NSGroupOwner s), (''ns_alias'', am_NSAlias s)]"

fun validateFields :: "LabelKeys \<Rightarrow> (string, string) gomap \<Rightarrow> (string \<times> string) list \<Rightarrow> SourceError option" where
  "validateFields keys used [] = None"
| "validateFields keys used ((field, label) # fs) =
     (if \<not> labelNameRe label then Some (BadLabel field label)
      else if label = ''cluster'' \<or> label = lk_AZ keys \<or> label = lk_Env keys then Some (CollidingLabel field label)
      else case gm_get used label of
        Some other \<Rightarrow> Some (SharedLabel label other field)
      | None \<Rightarrow> validateFields keys (gm_put label field used) fs)"

definition ValidateSource :: "AppMetadataSource \<Rightarrow> LabelKeys \<Rightarrow> SourceError option" where
  "ValidateSource s keys =
     (if \<not> metricNameRe (am_Metric s) then Some (BadMetric (am_Metric s))
      else validateFields (OrDefault keys) [] (sourceFields (sourceOrDefault s)))"

section \<open>Queries\<close>

definition appMetadataRequestMatchers :: "AppMetadataSource \<Rightarrow> LabelKeys \<Rightarrow> Selector \<Rightarrow> string list" where
  "appMetadataRequestMatchers src keys sel =
     (let keys = OrDefault keys;
          out = appendMatcher [] (lk_AZ keys) (sel_AZ sel);
          out = appendMatcher out (lk_Env keys) (sel_Env sel);
          out = appendClusterMatcher out (sel_Cluster sel)
      in if am_Namespace src \<noteq> [] then appendMatcher out (am_Namespace src) (sel_Namespace sel) else out)"

definition appMetadataClusterMatchers :: "AppMetadataSource \<Rightarrow> LabelKeys \<Rightarrow> Selector \<Rightarrow> string \<Rightarrow> string list" where
  "appMetadataClusterMatchers src keys sel cluster =
     appendClusterMatcher (appMetadataRequestMatchers src keys sel) [cluster]"

definition formatAppMetadata :: "(int \<Rightarrow> int) \<Rightarrow> AppMetadataSource \<Rightarrow> int \<Rightarrow> string list \<Rightarrow> string" where
  "formatAppMetadata trunc src window matchers =
     (let body = (if length matchers > 0 then ''{'' @ Join matchers '','' @ ''}'' else [])
      in ''tlast_over_time('' @ am_Metric src @ body @ ''['' @ FormatDuration trunc window @ ''])'')"

definition renderAppMetadata ::
  "(int \<Rightarrow> int) \<Rightarrow> AppMetadataSource \<Rightarrow> int \<Rightarrow> LabelKeys \<Rightarrow> Selector \<Rightarrow> string \<Rightarrow> string list \<Rightarrow> string" where
  "renderAppMetadata trunc src window keys sel restrictKey restrict =
     (let matchers = appMetadataRequestMatchers src keys sel;
          matchers = (if restrictKey \<noteq> [] then appendMatcher matchers restrictKey restrict else matchers)
      in formatAppMetadata trunc src window matchers)"

definition RenderAppMetadata :: "(int \<Rightarrow> int) \<Rightarrow> AppMetadataSource \<Rightarrow> int \<Rightarrow> LabelKeys \<Rightarrow> Selector \<Rightarrow> string" where
  "RenderAppMetadata trunc src window keys sel = renderAppMetadata trunc src window keys sel [] []"

definition RenderAppMetadataByNamespace ::
  "(int \<Rightarrow> int) \<Rightarrow> AppMetadataSource \<Rightarrow> int \<Rightarrow> LabelKeys \<Rightarrow> Selector \<Rightarrow> string \<Rightarrow> string list \<Rightarrow> string option" where
  "RenderAppMetadataByNamespace trunc src window keys sel cluster namespaces =
     (if am_Namespace src = [] \<or> cluster = [] \<or> length (normaliseValues namespaces) = 0 then None
      else
        let matchers = appMetadataClusterMatchers src keys sel cluster
        in Some (formatAppMetadata trunc src window (appendMatcher matchers (am_Namespace src) namespaces)))"

definition RenderAppMetadataByApp ::
  "(int \<Rightarrow> int) \<Rightarrow> AppMetadataSource \<Rightarrow> int \<Rightarrow> LabelKeys \<Rightarrow> Selector \<Rightarrow> string list \<Rightarrow> string option" where
  "RenderAppMetadataByApp trunc src window keys sel apps =
     (if am_App src = [] \<or> length (normaliseValues apps) = 0 then None
      else Some (renderAppMetadata trunc src window keys sel (am_App src) apps))"

definition AppMetadataMatcherCost :: "AppMetadataSource \<Rightarrow> LabelKeys \<Rightarrow> Selector \<Rightarrow> int" where
  "AppMetadataMatcherCost src keys sel = int (length (Join (appMetadataRequestMatchers src keys sel) '',''))"

definition AppMetadataClusterMatcherCost :: "AppMetadataSource \<Rightarrow> LabelKeys \<Rightarrow> Selector \<Rightarrow> string \<Rightarrow> int" where
  "AppMetadataClusterMatcherCost src keys sel cluster =
     int (length (Join (appMetadataClusterMatchers src keys sel cluster) '',''))"

section \<open>Properties\<close>

lemma validateFields_None:
  "validateFields keys used fs = None \<longleftrightarrow>
     (\<forall>l\<in>snd ` set fs. labelNameRe l \<and> l \<noteq> ''cluster'' \<and> l \<noteq> lk_AZ keys \<and> l \<noteq> lk_Env keys \<and> gm_get used l = None) \<and>
     distinct (map snd fs)"
proof (induction keys used fs rule: validateFields.induct)
  case (2 keys used field label fs)
  show ?case
  proof (cases "gm_get used label")
    case None
    have new: "gm_get (gm_put label field used) l = None \<longleftrightarrow> l \<noteq> label \<and> gm_get used l = None" for l by simp
    show ?thesis
      using None "2.IH" unfolding validateFields.simps new by (simp del: gm_get_put) blast
  qed auto
qed simp

text \<open>
  The accepted configurations. \<open>Validate\<close> accepts a source exactly when the metric is a metric name and
  the nine labels, after their defaults, are pairwise different label names, none of them \<open>cluster\<close> or a
  request key; so no two fields of a row are ever read from one label.
\<close>

theorem ValidateSource_accepts:
  "ValidateSource s keys = None \<longleftrightarrow>
     metricNameRe (am_Metric s) \<and> distinct (map snd (sourceFields (sourceOrDefault s))) \<and>
     (\<forall>l\<in>snd ` set (sourceFields (sourceOrDefault s)).
        labelNameRe l \<and> l \<noteq> ''cluster'' \<and> l \<noteq> lk_AZ (OrDefault keys) \<and> l \<noteq> lk_Env (OrDefault keys))"
  unfolding ValidateSource_def using validateFields_None [of "OrDefault keys" "[]" "sourceFields (sourceOrDefault s)"]
  by (auto simp: split_beta)

definition exSource :: AppMetadataSource where
  "exSource = \<lparr> am_Metric = ''app_meta'', am_App = [], am_User = [], am_NSOwner = [], am_Namespace = ''ns'', am_Pod = [],
     am_DeployTime = [], am_NSGroup = [], am_NSGroupOwner = [], am_NSAlias = [] \<rparr>"

theorem ValidateSource_accepts_witness:
  "distinct (map snd (sourceFields (sourceOrDefault exSource))) \<and> ValidateSource exSource DefaultLabelKeys = None"
proof -
  have "ValidateSource exSource DefaultLabelKeys = None" by code_simp
  with ValidateSource_accepts [of exSource DefaultLabelKeys] show ?thesis by simp
qed

text \<open>
  A metadata read by namespace stays inside its cluster and the request. It is issued exactly when the
  namespace label, the cluster and some namespace are given; its selector then reads back as matchers that
  hold of exactly the rows of the request's zones, environments, clusters and namespaces whose cluster is
  the given one - or absent, for the unknown cluster - and whose namespace is one of the given ones.
\<close>

theorem RenderAppMetadataByNamespace_exact:
  assumes "ValidateSource src keys = None" and "wellKeyed keys" and "src = sourceOrDefault src"
    and "\<forall>v\<in>selectorValues sel \<union> {cluster} \<union> set namespaces. CHR 0x0A \<notin> set v"
  shows "(RenderAppMetadataByNamespace trunc src window keys sel cluster namespaces = None \<longleftrightarrow>
      cluster = [] \<or> set namespaces \<subseteq> {[]}) \<and>
    (\<forall>s. RenderAppMetadataByNamespace trunc src window keys sel cluster namespaces = Some s \<longrightarrow>
      (\<exists>frag ms. s = ''tlast_over_time('' @ am_Metric src @ ''{'' @ frag @ ''}['' @ FormatDuration trunc window @ ''])'' \<and>
         parseFragment frag = Some ms \<and>
         (\<forall>L. (\<forall>m\<in>set ms. matcherHolds L m) \<longleftrightarrow>
            (hasValue (sel_AZ sel) \<longrightarrow> L (lk_AZ (OrDefault keys)) \<in> set (sel_AZ sel) - {[]}) \<and>
            (hasValue (sel_Env sel) \<longrightarrow> L (lk_Env (OrDefault keys)) \<in> set (sel_Env sel) - {[]}) \<and>
            (hasValue (sel_Cluster sel) \<longrightarrow> L ''cluster'' \<in> set (sel_Cluster sel) - {[]} \<or>
               ClusterUnknownValue \<in> set (sel_Cluster sel) \<and> L ''cluster'' = []) \<and>
            (hasValue (sel_Namespace sel) \<longrightarrow> L (am_Namespace src) \<in> set (sel_Namespace sel) - {[]}) \<and>
            (L ''cluster'' = cluster \<or> cluster = ClusterUnknownValue \<and> L ''cluster'' = []) \<and>
            L (am_Namespace src) \<in> set namespaces - {[]})))"
proof -
  let ?k = "OrDefault keys" and ?n = "am_Namespace src"
  have n: "labelNameRe ?n" "?n \<noteq> []"
  proof -
    have "?n \<in> snd ` set (sourceFields (sourceOrDefault src))" using assms(3) by (simp add: sourceFields_def)
    moreover have "\<forall>l\<in>snd ` set (sourceFields (sourceOrDefault src)). labelNameRe l"
      using assms(1) validateFields_None [of "?k" "[]" "sourceFields (sourceOrDefault src)"]
      by (auto simp: ValidateSource_def split: if_splits)
    ultimately show "labelNameRe ?n" by blast
    then show "?n \<noteq> []" using labelNameRe_key by blast
  qed
  have none: "RenderAppMetadataByNamespace trunc src window keys sel cluster namespaces = None \<longleftrightarrow>
      cluster = [] \<or> \<not> hasValue namespaces"
    using n(2) by (simp add: RenderAppMetadataByNamespace_def Let_def)
  define ms where "ms = plainMatcher (lk_AZ ?k) (sel_AZ sel) @ plainMatcher (lk_Env ?k) (sel_Env sel)
      @ clusterMatcher (sel_Cluster sel) @ plainMatcher ?n (sel_Namespace sel) @ clusterMatcher [cluster] @ plainMatcher ?n namespaces"
  have k: "CHR ''='' \<notin> set (lk_AZ ?k)" "CHR ''='' \<notin> set (lk_Env ?k)" "CHR ''='' \<notin> set ?n"
    using OrDefault_wellKeyed [OF assms(2)] labelNameRe_key [OF n(1)] by (simp_all add: wellKeyed_def)
  have nl: "\<forall>v\<in>set (sel_AZ sel). CHR 0x0A \<notin> set v" "\<forall>v\<in>set (sel_Env sel). CHR 0x0A \<notin> set v"
    "\<forall>v\<in>set (sel_Cluster sel). CHR 0x0A \<notin> set v" "\<forall>v\<in>set (sel_Namespace sel). CHR 0x0A \<notin> set v"
    "\<forall>v\<in>set namespaces. CHR 0x0A \<notin> set v" "\<forall>v\<in>set [cluster]. CHR 0x0A \<notin> set v"
    using assms(4) by (simp_all add: selectorValues_def)
  note r = matcher_readable [OF OrDefault_keys(1) k(1) nl(1)] matcher_readable [OF OrDefault_keys(2) k(2) nl(2)]
    matcher_readable [of "''cluster''", OF _ _ nl(3)] matcher_readable [OF n(2) k(3) nl(4)]
    matcher_readable [of "''cluster''", OF _ _ nl(6)] matcher_readable [OF n(2) k(3) nl(5)]
  have read: "\<forall>m\<in>set ms. readable m"
    unfolding ms_def clusterMatcher_def set_append ball_Un using r by (simp add: ball_Un)
  have holds: "(\<forall>m\<in>set ms. matcherHolds L m) \<longleftrightarrow>
      (hasValue (sel_AZ sel) \<longrightarrow> L (lk_AZ ?k) \<in> set (sel_AZ sel) - {[]}) \<and>
      (hasValue (sel_Env sel) \<longrightarrow> L (lk_Env ?k) \<in> set (sel_Env sel) - {[]}) \<and>
      (hasValue (sel_Cluster sel) \<longrightarrow> L ''cluster'' \<in> set (sel_Cluster sel) - {[]} \<or>
         ClusterUnknownValue \<in> set (sel_Cluster sel) \<and> L ''cluster'' = []) \<and>
      (hasValue (sel_Namespace sel) \<longrightarrow> L ?n \<in> set (sel_Namespace sel) - {[]}) \<and>
      (hasValue [cluster] \<longrightarrow> L ''cluster'' \<in> set [cluster] - {[]} \<or> ClusterUnknownValue \<in> set [cluster] \<and> L ''cluster'' = []) \<and>
      (hasValue namespaces \<longrightarrow> L ?n \<in> set namespaces - {[]})" for L
    unfolding ms_def set_append ball_Un plainMatcher_holds clusterMatcher_holds by (rule refl)
  have mats: "appendMatcher (appMetadataClusterMatchers src keys sel cluster) ?n namespaces = map renderM ms"
    using n(2) by (simp add: appMetadataClusterMatchers_def appMetadataRequestMatchers_def Let_def ms_def
        appendMatcher_eq appendClusterMatcher_eq)
  have "\<exists>frag ms. s = ''tlast_over_time('' @ am_Metric src @ ''{'' @ frag @ ''}['' @ FormatDuration trunc window @ ''])'' \<and>
         parseFragment frag = Some ms \<and>
         (\<forall>L. (\<forall>m\<in>set ms. matcherHolds L m) \<longleftrightarrow>
            (hasValue (sel_AZ sel) \<longrightarrow> L (lk_AZ ?k) \<in> set (sel_AZ sel) - {[]}) \<and>
            (hasValue (sel_Env sel) \<longrightarrow> L (lk_Env ?k) \<in> set (sel_Env sel) - {[]}) \<and>
            (hasValue (sel_Cluster sel) \<longrightarrow> L ''cluster'' \<in> set (sel_Cluster sel) - {[]} \<or>
               ClusterUnknownValue \<in> set (sel_Cluster sel) \<and> L ''cluster'' = []) \<and>
            (hasValue (sel_Namespace sel) \<longrightarrow> L ?n \<in> set (sel_Namespace sel) - {[]}) \<and>
            (L ''cluster'' = cluster \<or> cluster = ClusterUnknownValue \<and> L ''cluster'' = []) \<and>
            L ?n \<in> set namespaces - {[]})"
    if s: "RenderAppMetadataByNamespace trunc src window keys sel cluster namespaces = Some s" for s
  proof (intro exI conjI allI)
    have v: "cluster \<noteq> []" "hasValue namespaces" using s none by auto
    then have ne: "ms \<noteq> []" by (auto simp: ms_def plainMatcher_def Let_def)
    show "s = ''tlast_over_time('' @ am_Metric src @ ''{'' @ Join (map renderM ms) '','' @ ''}['' @ FormatDuration trunc window @ ''])''"
      using s v n(2) ne by (simp add: RenderAppMetadataByNamespace_def formatAppMetadata_def mats Let_def)
    show "parseFragment (Join (map renderM ms) '','') = Some ms" using read by (rule parseFragment_Join)
    have c: "hasValue [cluster] \<longleftrightarrow> True" using v(1) by (simp add: hasValue_iff)
    show "(\<forall>m\<in>set ms. matcherHolds L m) \<longleftrightarrow>
            (hasValue (sel_AZ sel) \<longrightarrow> L (lk_AZ ?k) \<in> set (sel_AZ sel) - {[]}) \<and>
            (hasValue (sel_Env sel) \<longrightarrow> L (lk_Env ?k) \<in> set (sel_Env sel) - {[]}) \<and>
            (hasValue (sel_Cluster sel) \<longrightarrow> L ''cluster'' \<in> set (sel_Cluster sel) - {[]} \<or>
               ClusterUnknownValue \<in> set (sel_Cluster sel) \<and> L ''cluster'' = []) \<and>
            (hasValue (sel_Namespace sel) \<longrightarrow> L ?n \<in> set (sel_Namespace sel) - {[]}) \<and>
            (L ''cluster'' = cluster \<or> cluster = ClusterUnknownValue \<and> L ''cluster'' = []) \<and>
            L ?n \<in> set namespaces - {[]}" for L
      unfolding holds c using v by (auto simp: ClusterUnknownValue_def)
  qed
  then show ?thesis using none by (auto simp: hasValue_iff)
qed

theorem RenderAppMetadataByNamespace_exact_witness:
  "\<exists>s frag ms. RenderAppMetadataByNamespace (\<lambda>d. d div Second) (sourceOrDefault exSource) 60000000000 DefaultLabelKeys exSelector
        ''c1'' [''shop'', ''a|b''] = Some s \<and>
     parseFragment frag = Some ms \<and>
     (\<forall>L. (\<forall>m\<in>set ms. matcherHolds L m) \<longrightarrow> L ''cluster'' = ''c1'' \<and> L ''ns'' \<in> {''shop'', ''a|b''})"
proof -
  let ?src = "sourceOrDefault exSource"
  have ok: "ValidateSource ?src DefaultLabelKeys = None" "?src = sourceOrDefault ?src" "am_Namespace ?src = ''ns''" by code_simp+
  have w: "wellKeyed DefaultLabelKeys" by (simp add: wellKeyed_def DefaultLabelKeys_def)
  have v: "\<forall>v\<in>selectorValues exSelector \<union> {''c1''} \<union> set [''shop'', ''a|b'']. CHR 0x0A \<notin> set v"
    by (simp add: selectorValues_def exSelector_def)
  have "RenderAppMetadataByNamespace (\<lambda>d. d div Second) ?src 60000000000 DefaultLabelKeys exSelector ''c1'' [''shop'', ''a|b''] \<noteq> None"
    by code_simp
  then obtain s where s: "RenderAppMetadataByNamespace (\<lambda>d. d div Second) ?src 60000000000 DefaultLabelKeys exSelector ''c1''
      [''shop'', ''a|b''] = Some s" unfolding not_None_eq by (elim exE)
  note ex = RenderAppMetadataByNamespace_exact [OF ok(1) w ok(2) v, THEN conjunct2, rule_format, OF s]
  from ex obtain frag ms where f: "parseFragment frag = Some ms"
    and h: "\<And>L. (\<forall>m\<in>set ms. matcherHolds L m) \<Longrightarrow>
      (L ''cluster'' = ''c1'' \<or> ''c1'' = ClusterUnknownValue \<and> L ''cluster'' = []) \<and>
      L (am_Namespace ?src) \<in> set [''shop'', ''a|b''] - {[]}"
    apply (elim exE conjE)
    subgoal for frag ms
      by (rule that, assumption, drule spec, drule (1) iffD1, elim conjE, intro conjI)
    done
  have "(\<forall>m\<in>set ms. matcherHolds L m) \<longrightarrow> L ''cluster'' = ''c1'' \<and> L ''ns'' \<in> {''shop'', ''a|b''}" for L
    using h [of L] unfolding ok(3) by (auto simp: ClusterUnknownValue_def)
  with s f show ?thesis by (intro exI conjI allI)
qed

end
