(* ===== verification/AppIndex.thy ===== *)
theory AppIndex
  imports Owners AppMetadata GraphModel Timestamps
begin

text \<open>
  The application-metadata index of a build: \<open>pkg/build/appmetadata.go\<close> and \<open>pkg/build/deploytime.go\<close>.

  One pass over the metric's rows keeps five picks: the Application of a pod, the owner, the group and the alias
  of a namespace, the deployer of an Application. A candidate is the tuple of what its comparison reads, the
  time of the row first. Deploy times are UTC seconds, in nanoseconds since 1970 as everywhere in the graph.

  The lemmas show what each pick keeps, as a function of the rows regardless of their order.
\<close>

section \<open>Deploy times\<close>

text \<open>A fixed-width pattern: \<open>d\<close> stands for a digit, any other character for itself.\<close>

fun matchesShape :: "string \<Rightarrow> string \<Rightarrow> bool" where
  "matchesShape [] [] = True"
| "matchesShape (p # ps) (c # cs) = ((if p = CHR ''d'' then isDigit c else c = p) \<and> matchesShape ps cs)"
| "matchesShape _ _ = False"

definition slashDeployTime :: "string \<Rightarrow> bool" where
  "slashDeployTime v = matchesShape ''dddd/dd/dd dd:dd:dd'' v"

definition zoneShape :: "string \<Rightarrow> bool" where
  "zoneShape z =
     (z = ''Z'' \<or>
      (case z of
         [sg, h1, h2, c, m1, m2] \<Rightarrow>
           (sg = CHR ''+'' \<or> sg = CHR ''-'') \<and> c = CHR '':''
           \<and> ((h1 = CHR ''0'' \<or> h1 = CHR ''1'') \<and> isDigit h2 \<or> h1 = CHR ''2'' \<and> h2 \<in> set ''0123'')
           \<and> m1 \<in> set ''012345'' \<and> isDigit m2
       | _ \<Rightarrow> False))"

definition rfc3339DeployTime :: "string \<Rightarrow> bool" where
  "rfc3339DeployTime v =
     (matchesShape ''dddd-dd-ddTdd:dd:dd'' (take 19 v) \<and>
      (let rest = drop 19 v in
       if rest \<noteq> [] \<and> hd rest = CHR ''.'' then takeWhile isDigit (tl rest) \<noteq> [] \<and> zoneShape (dropWhile isDigit (tl rest))
       else zoneShape rest))"

text \<open>\<open>time.ParseInLocation\<close> with the layout \<open>2006/01/02 15:04:05\<close> in UTC.\<close>

definition ParseSlash :: "string \<Rightarrow> Time option" where
  "ParseSlash s = do {
     (year, s) \<leftarrow> getyear s;
     s \<leftarrow> skipByte CHR ''/'' s;
     (month, s) \<leftarrow> getnum True s;
     within 1 12 month;
     s \<leftarrow> skipByte CHR ''/'' s;
     (day, s) \<leftarrow> getnum True s;
     s \<leftarrow> skipByte CHR '' '' s;
     (hour, s) \<leftarrow> getnum False s;
     within 0 23 hour;
     s \<leftarrow> skipByte CHR '':'' s;
     (minute, s) \<leftarrow> getnum True s;
     within 0 59 minute;
     s \<leftarrow> skipByte CHR '':'' s;
     (sec, s) \<leftarrow> getnum True s;
     within 0 59 sec;
     let (nsec, s) = fraction s;
     if s \<noteq> [] then None
     else do {
       within 1 (daysIn month year) day;
       Some \<lparr> t_sec = dateSec year month day hour minute sec, t_nsec = nsec \<rparr>
     }
   }"

definition parseDeployTime :: "string \<Rightarrow> int option" where
  "parseDeployTime v =
     map_option (\<lambda>t. (t_sec t - unixToInternal) * SecondNs)
       (if slashDeployTime v then ParseSlash v else if rfc3339DeployTime v then ParseRFC3339 v else None)"

section \<open>The picks\<close>

type_synonym appNamespaceKey = "string \<times> string"
type_synonym appDeployerKey = "string \<times> string \<times> string"

text \<open>Time and value; time, name and owner.\<close>

type_synonym 'f appMetadataSeen = "'f \<times> string"
type_synonym 'f groupCandidate = "'f \<times> string \<times> string"

record 'f deployerCandidate =
  dc_user :: string
  dc_at :: 'f
  dc_when :: int
  dc_ok :: bool
  dc_unparsed :: int

record 'f appMetadataPicks =
  ap_pods :: "(podNameKey, string) gomap"
  ap_owners :: "(appNamespaceKey, 'f appMetadataSeen) gomap"
  ap_aliases :: "(appNamespaceKey, 'f appMetadataSeen) gomap"
  ap_groups :: "(appNamespaceKey, 'f groupCandidate) gomap"
  ap_deployers :: "(appDeployerKey, 'f deployerCandidate) gomap"

definition newAppMetadataPicks :: "'f appMetadataPicks" where
  "newAppMetadataPicks = \<lparr> ap_pods = [], ap_owners = [], ap_aliases = [], ap_groups = [], ap_deployers = [] \<rparr>"

definition metricLabel :: "Metric \<Rightarrow> string \<Rightarrow> string" where
  "metricLabel m name = (if name = [] then [] else gm_str m name)"

definition keepLatest ::
  "('k, ('f :: linorder) appMetadataSeen) gomap \<Rightarrow> 'k \<Rightarrow> string \<Rightarrow> 'f \<Rightarrow> ('k, 'f appMetadataSeen) gomap" where
  "keepLatest dst key val at =
     (case gm_get dst key of
        Some cur \<Rightarrow> if at < fst cur \<or> at = fst cur \<and> val \<ge> snd cur then dst else gm_put key (at, val) dst
      | None \<Rightarrow> gm_put key (at, val) dst)"

definition betterOwner :: "string \<Rightarrow> string \<Rightarrow> bool" where
  "betterOwner next' cur = (if (next' \<noteq> []) \<noteq> (cur \<noteq> []) then next' \<noteq> [] else next' < cur)"

definition keepGroup ::
  "(appNamespaceKey, ('f :: linorder) groupCandidate) gomap \<Rightarrow> appNamespaceKey \<Rightarrow> string \<Rightarrow> string \<Rightarrow> 'f
     \<Rightarrow> (appNamespaceKey, 'f groupCandidate) gomap" where
  "keepGroup dst key name owner at =
     (case gm_get dst key of
        None \<Rightarrow> gm_put key (at, name, owner) dst
      | Some (curAt, curName, curOwner) \<Rightarrow>
          if at < curAt \<or> at = curAt \<and> name > curName then dst
          else if at = curAt \<and> name = curName \<and> \<not> betterOwner owner curOwner then dst
          else gm_put key (at, name, owner) dst)"

definition deployStep :: "string \<Rightarrow> string \<Rightarrow> 'f \<Rightarrow> ('f :: linorder) deployerCandidate option \<Rightarrow> 'f deployerCandidate option" where
  "deployStep user raw at cur =
     (let parsed = (if raw = [] then None else parseDeployTime raw);
          failed = (if raw \<noteq> [] \<and> parsed = None then 1 else 0);
          fresh = \<lparr> dc_user = user, dc_at = at, dc_when = (case parsed of None \<Rightarrow> zeroTime | Some t \<Rightarrow> t),
            dc_ok = (parsed \<noteq> None), dc_unparsed = failed \<rparr>
      in case cur of
           None \<Rightarrow> Some fresh
         | Some c \<Rightarrow>
             if at > dc_at c \<or> at = dc_at c \<and> user < dc_user c then Some fresh
             else if at = dc_at c \<and> user = dc_user c then
               (let c = (case parsed of
                      Some t \<Rightarrow> if \<not> dc_ok c \<or> t > dc_when c then c\<lparr> dc_when := t, dc_ok := True \<rparr> else c
                    | None \<Rightarrow> c)
                in Some (c\<lparr> dc_unparsed := dc_unparsed c + failed \<rparr>))
             else cur)"

definition keepDeployer ::
  "(appDeployerKey, ('f :: linorder) deployerCandidate) gomap \<Rightarrow> appDeployerKey \<Rightarrow> string \<Rightarrow> string \<Rightarrow> 'f
     \<Rightarrow> (appDeployerKey, 'f deployerCandidate) gomap" where
  "keepDeployer dst key user raw at =
     (case deployStep user raw at (gm_get dst key) of None \<Rightarrow> dst | Some c \<Rightarrow> gm_put key c dst)"

definition addMetadata :: "AppMetadataSource \<Rightarrow> string \<Rightarrow> ('f :: linorder) Row \<Rightarrow> 'f appMetadataPicks \<Rightarrow> 'f appMetadataPicks" where
  "addMetadata src cluster s p =
     (let m = sm_metric s; at = sm_value s;
          ns = metricLabel m (am_Namespace src); app = metricLabel m (am_App src); nsKey = (cluster, ns);
          pod = metricLabel m (am_Pod src);
          p = (if pod \<noteq> [] \<and> app \<noteq> [] then p\<lparr> ap_pods := keepBest (<) (cluster, ns, pod) app (ap_pods p) \<rparr> else p);
          owner = metricLabel m (am_NSOwner src);
          p = (if owner \<noteq> [] then p\<lparr> ap_owners := keepLatest (ap_owners p) nsKey owner at \<rparr> else p);
          group = metricLabel m (am_NSGroup src);
          p = (if group \<noteq> [] then p\<lparr> ap_groups := keepGroup (ap_groups p) nsKey group (metricLabel m (am_NSGroupOwner src)) at \<rparr> else p);
          alias = metricLabel m (am_NSAlias src);
          p = (if alias \<noteq> [] then p\<lparr> ap_aliases := keepLatest (ap_aliases p) nsKey alias at \<rparr> else p);
          user = metricLabel m (am_User src)
      in if app \<noteq> [] \<and> user \<noteq> []
         then p\<lparr> ap_deployers := keepDeployer (ap_deployers p) (cluster, ns, app) user (metricLabel m (am_DeployTime src)) at \<rparr>
         else p)"

section \<open>The index\<close>

record appMetadataIndex =
  ai_podApps :: "(podNameKey, string) gomap"
  ai_nsOwners :: "(appNamespaceKey, string) gomap"
  ai_nsGroups :: "(appNamespaceKey, string \<times> string) gomap"
  ai_nsAliases :: "(appNamespaceKey, string) gomap"
  ai_deployers :: "(appDeployerKey, string) gomap"
  ai_deployTimes :: "(appDeployerKey, int) gomap"
  ai_unparsedDeployTimes :: int

definition indexMetadata :: "'f appMetadataPicks \<Rightarrow> appMetadataIndex" where
  "indexMetadata p =
     \<lparr> ai_podApps = ap_pods p,
       ai_nsOwners = map (\<lambda>(key, seen). (key, snd seen)) (ap_owners p),
       ai_nsGroups = map (\<lambda>(key, seen). (key, snd seen)) (ap_groups p),
       ai_nsAliases = map (\<lambda>(key, seen). (key, snd seen)) (ap_aliases p),
       ai_deployers = map (\<lambda>(key, c). (key, dc_user c)) (ap_deployers p),
       ai_deployTimes = List.map_filter (\<lambda>(key, c). if dc_ok c then Some (key, dc_when c) else None) (ap_deployers p),
       ai_unparsedDeployTimes = sum_list (map (\<lambda>(key, c). dc_unparsed c) (ap_deployers p)) \<rparr>"

definition resolveAppMetadata :: "('f :: linorder) Row list \<Rightarrow> AppMetadataSource \<Rightarrow> clusterResolver \<Rightarrow> appMetadataIndex" where
  "resolveAppMetadata vec src mc =
     indexMetadata (fold (\<lambda>s. addMetadata src (bucketed mc QAppMetadata s) s) vec newAppMetadataPicks)"

definition noNamespaceMeta :: NamespaceMeta where
  "noNamespaceMeta = \<lparr> nm_Owner = [], nm_Group = [], nm_GroupOwner = [], nm_Alias = [] \<rparr>"

definition metaAt :: "(NamespaceRef, NamespaceMeta) gomap \<Rightarrow> appNamespaceKey \<Rightarrow> NamespaceMeta" where
  "metaAt out key = (case gm_get out (NamespaceRef (fst key) (snd key)) of None \<Rightarrow> noNamespaceMeta | Some m \<Rightarrow> m)"

definition namespaceMetadataOf :: "appMetadataIndex \<Rightarrow> (NamespaceRef, NamespaceMeta) gomap" where
  "namespaceMetadataOf idx =
     (let ref = (\<lambda>key. NamespaceRef (fst key) (snd key));
          out = fold (\<lambda>(key, owner) out. gm_put (ref key) ((metaAt out key)\<lparr> nm_Owner := owner \<rparr>) out) (ai_nsOwners idx) [];
          out = fold (\<lambda>(key, group) out.
              gm_put (ref key) ((metaAt out key)\<lparr> nm_Group := fst group, nm_GroupOwner := snd group \<rparr>) out) (ai_nsGroups idx) out
      in fold (\<lambda>(key, alias) out. gm_put (ref key) ((metaAt out key)\<lparr> nm_Alias := alias \<rparr>) out) (ai_nsAliases idx) out)"

definition applicationMetadataOf :: "appMetadataIndex \<Rightarrow> (ApplicationRef, ApplicationMeta) gomap" where
  "applicationMetadataOf idx =
     fold (\<lambda>((cluster, ns, app), user).
        gm_put (ApplicationRef cluster ns app)
          \<lparr> am_DeployedBy = user,
            am_DeployedAt = (case gm_get (ai_deployTimes idx) (cluster, ns, app) of None \<Rightarrow> zeroTime | Some t \<Rightarrow> t) \<rparr>)
       (ai_deployers idx) []"

section \<open>What the picks keep\<close>

text \<open>What a row offers to each pick.\<close>

definition podOffer :: "AppMetadataSource \<Rightarrow> clusterResolver \<Rightarrow> 'f Row \<Rightarrow> (podNameKey \<times> string) option" where
  "podOffer src mc s =
     (let m = sm_metric s; app = metricLabel m (am_App src); pod = metricLabel m (am_Pod src) in
      if pod = [] \<or> app = [] then None
      else Some ((bucketed mc QAppMetadata s, metricLabel m (am_Namespace src), pod), app))"

definition latestOffer :: "(AppMetadataSource \<Rightarrow> string) \<Rightarrow> AppMetadataSource \<Rightarrow> clusterResolver \<Rightarrow> 'f Row \<Rightarrow> (appNamespaceKey \<times> 'f appMetadataSeen) option" where
  "latestOffer field src mc s =
     (let m = sm_metric s; v = metricLabel m (field src) in
      if v = [] then None else Some ((bucketed mc QAppMetadata s, metricLabel m (am_Namespace src)), (sm_value s, v)))"

definition groupOffer :: "AppMetadataSource \<Rightarrow> clusterResolver \<Rightarrow> 'f Row \<Rightarrow> (appNamespaceKey \<times> 'f groupCandidate) option" where
  "groupOffer src mc s =
     (let m = sm_metric s; v = metricLabel m (am_NSGroup src) in
      if v = [] then None
      else Some ((bucketed mc QAppMetadata s, metricLabel m (am_Namespace src)), (sm_value s, v, metricLabel m (am_NSGroupOwner src))))"

text \<open>A deployment: time, user and raw deploy time.\<close>

definition deployOffer :: "AppMetadataSource \<Rightarrow> clusterResolver \<Rightarrow> 'f Row \<Rightarrow> (appDeployerKey \<times> 'f \<times> string \<times> string) option" where
  "deployOffer src mc s =
     (let m = sm_metric s; app = metricLabel m (am_App src); user = metricLabel m (am_User src) in
      if app = [] \<or> user = [] then None
      else Some ((bucketed mc QAppMetadata s, metricLabel m (am_Namespace src), app), (sm_value s, user, metricLabel m (am_DeployTime src))))"

definition betterGroup :: "('f :: linorder) groupCandidate \<Rightarrow> 'f groupCandidate \<Rightarrow> bool" where
  "betterGroup v cur = (fst cur < fst v \<or> fst v = fst cur \<and>
     (fst (snd v) < fst (snd cur) \<or> fst (snd v) = fst (snd cur) \<and> betterOwner (snd (snd v)) (snd (snd cur))))"

interpretation owners: tie_break betterOwner
  by unfold_locales (auto simp: betterOwner_def split: if_splits)

interpretation groups: tie_break "betterGroup :: ('f :: linorder) groupCandidate \<Rightarrow> 'f groupCandidate \<Rightarrow> bool"
proof unfold_locales
  show "\<not> betterGroup v v" for v :: "'f groupCandidate" using owners.better_irrefl by (simp add: betterGroup_def)
  show "betterGroup u w" if "betterGroup u v" "betterGroup v w" for u v w :: "'f groupCandidate"
    using that owners.better_trans [of "snd (snd u)" "snd (snd v)" "snd (snd w)"] unfolding betterGroup_def by auto
  show "betterGroup u v \<or> betterGroup v u" if "u \<noteq> v" for u v :: "'f groupCandidate"
    using that owners.better_total [of "snd (snd u)" "snd (snd v)"] unfolding betterGroup_def
    by (cases "fst u = fst v"; cases "fst (snd u) = fst (snd v)") (auto simp: prod_eq_iff)
qed

lemma keepLatest_best: "keepLatest m k v at = keepBest later k (at, v) m"
  by (auto simp: keepLatest_def keepBest_def later_def not_less split: option.split)

lemma keepGroup_best: "keepGroup m k name owner at = keepBest betterGroup k (at, name, owner) m"
  by (auto simp: keepGroup_def keepBest_def betterGroup_def split: option.split)

definition picksOf :: "AppMetadataSource \<Rightarrow> clusterResolver \<Rightarrow> ('f :: linorder) Row list \<Rightarrow> 'f appMetadataPicks \<Rightarrow> 'f appMetadataPicks" where
  "picksOf src mc vec p = fold (\<lambda>s. addMetadata src (bucketed mc QAppMetadata s) s) vec p"

lemma addMetadata_parts:
  "ap_pods (addMetadata src (bucketed mc QAppMetadata s) s p) =
     (case podOffer src mc s of None \<Rightarrow> ap_pods p | Some (k, v) \<Rightarrow> keepBest (<) k v (ap_pods p))"
  "ap_owners (addMetadata src (bucketed mc QAppMetadata s) s p) =
     (case latestOffer am_NSOwner src mc s of None \<Rightarrow> ap_owners p | Some (k, v) \<Rightarrow> keepBest later k v (ap_owners p))"
  "ap_aliases (addMetadata src (bucketed mc QAppMetadata s) s p) =
     (case latestOffer am_NSAlias src mc s of None \<Rightarrow> ap_aliases p | Some (k, v) \<Rightarrow> keepBest later k v (ap_aliases p))"
  "ap_groups (addMetadata src (bucketed mc QAppMetadata s) s p) =
     (case groupOffer src mc s of None \<Rightarrow> ap_groups p | Some (k, v) \<Rightarrow> keepBest betterGroup k v (ap_groups p))"
  "ap_deployers (addMetadata src (bucketed mc QAppMetadata s) s p) =
     (case deployOffer src mc s of None \<Rightarrow> ap_deployers p | Some (k, at, user, raw) \<Rightarrow> keepDeployer (ap_deployers p) k user raw at)"
  unfolding addMetadata_def Let_def podOffer_def latestOffer_def groupOffer_def deployOffer_def keepLatest_best keepGroup_best
  by simp_all

lemma picksOf_parts:
  "ap_pods (picksOf src mc vec p) = pickAll (<) (podOffer src mc) vec (ap_pods p)"
  "ap_owners (picksOf src mc vec p) = pickAll later (latestOffer am_NSOwner src mc) vec (ap_owners p)"
  "ap_aliases (picksOf src mc vec p) = pickAll later (latestOffer am_NSAlias src mc) vec (ap_aliases p)"
  "ap_groups (picksOf src mc vec p) = pickAll betterGroup (groupOffer src mc) vec (ap_groups p)"
proof -
  have "ap_pods (picksOf src mc vec p) = pickAll (<) (podOffer src mc) vec (ap_pods p) \<and>
    ap_owners (picksOf src mc vec p) = pickAll later (latestOffer am_NSOwner src mc) vec (ap_owners p) \<and>
    ap_aliases (picksOf src mc vec p) = pickAll later (latestOffer am_NSAlias src mc) vec (ap_aliases p) \<and>
    ap_groups (picksOf src mc vec p) = pickAll betterGroup (groupOffer src mc) vec (ap_groups p)"
    unfolding picksOf_def by (induction vec arbitrary: p) (simp_all only: fold_simps pickAll_simps addMetadata_parts simp_thms)
  then show "ap_pods (picksOf src mc vec p) = pickAll (<) (podOffer src mc) vec (ap_pods p)"
    "ap_owners (picksOf src mc vec p) = pickAll later (latestOffer am_NSOwner src mc) vec (ap_owners p)"
    "ap_aliases (picksOf src mc vec p) = pickAll later (latestOffer am_NSAlias src mc) vec (ap_aliases p)"
    "ap_groups (picksOf src mc vec p) = pickAll betterGroup (groupOffer src mc) vec (ap_groups p)" by blast+
qed

lemma resolve_index: "resolveAppMetadata vec src mc = indexMetadata (picksOf src mc vec newAppMetadataPicks)"
  by (simp add: resolveAppMetadata_def picksOf_def)

lemma podApps_get: "gm_get (ai_podApps (resolveAppMetadata vec src mc)) k = least (offers (podOffer src mc) (set vec) k)"
  by (simp add: resolve_index indexMetadata_def picksOf_parts newAppMetadataPicks_def pick_least)

lemma podApps_wf: "gm_wf (ai_podApps (resolveAppMetadata vec src mc))"
  by (simp add: resolve_index indexMetadata_def picksOf_parts newAppMetadataPicks_def pickAll_wf)

text \<open>The deployments of an Application in row order, and the candidate they leave.\<close>

definition deploysAt :: "AppMetadataSource \<Rightarrow> clusterResolver \<Rightarrow> 'f Row list \<Rightarrow> appDeployerKey \<Rightarrow> ('f \<times> string \<times> string) list" where
  "deploysAt src mc vec key = map snd (filter (\<lambda>x. fst x = key) (List.map_filter (deployOffer src mc) vec))"

definition cohort :: "('f \<times> string \<times> string) list \<Rightarrow> 'f \<times> string \<Rightarrow> string list" where
  "cohort D w = map (snd \<circ> snd) (filter (\<lambda>d. (fst d, fst (snd d)) = w) D)"

definition deployTimes :: "string list \<Rightarrow> int set" where
  "deployTimes C = {t. \<exists>raw\<in>set C. raw \<noteq> [] \<and> parseDeployTime raw = Some t}"

definition deployed :: "('f \<times> string \<times> string) list \<Rightarrow> ('f :: linorder) deployerCandidate \<Rightarrow> bool" where
  "deployed D c =
     (let C = cohort D (dc_at c, dc_user c) in
      latest.best ((\<lambda>d. (fst d, fst (snd d))) ` set D) (dc_at c, dc_user c) \<and>
      dc_ok c = (deployTimes C \<noteq> {}) \<and> dc_when c = (if deployTimes C = {} then zeroTime else Max (deployTimes C)) \<and>
      dc_unparsed c = int (length (filter (\<lambda>raw. raw \<noteq> [] \<and> parseDeployTime raw = None) C)))"

lemma deployTimes_finite: "finite (deployTimes C)"
proof -
  have "deployTimes C \<subseteq> (\<lambda>raw. the (parseDeployTime raw)) ` set C" by (force simp: deployTimes_def)
  then show ?thesis using finite_surj by blast
qed

lemma deployTimes_snoc:
  "deployTimes (C @ [raw]) = (if raw = [] then {} else set_option (parseDeployTime raw)) \<union> deployTimes C"
  by (auto simp: deployTimes_def split: option.splits)

lemma deployTimes_one: "deployTimes [raw] = set_option (if raw = [] then None else parseDeployTime raw)"
  using deployTimes_snoc [of "[]" raw] by (simp add: deployTimes_def)

lemma cohort_snoc: "cohort (D @ [d]) w = cohort D w @ (if (fst d, fst (snd d)) = w then [snd (snd d)] else [])"
  by (simp add: cohort_def)

lemma cohort_new: "w \<notin> (\<lambda>d. (fst d, fst (snd d))) ` set D \<Longrightarrow> cohort D w = []"
  by (auto simp: cohort_def filter_empty_conv)

lemma deployStep_first: "\<exists>c. deployStep user raw at None = Some c \<and> deployed [(at, user, raw)] c"
proof -
  define parsed where "parsed = (if raw = [] then None else parseDeployTime raw)"
  have unparsed: "raw \<noteq> [] \<and> parseDeployTime raw = None \<longleftrightarrow> raw \<noteq> [] \<and> parsed = None" by (simp add: parsed_def)
  show ?thesis unfolding deployStep_def deployed_def Let_def parsed_def [symmetric]
    using latest.best_singleton [of "(at, user)"] deployTimes_one [of raw, folded parsed_def]
    by (cases parsed) (simp_all add: cohort_def unparsed)
qed

lemma deployStep_deployed:
  assumes "deployed D c" and "D \<noteq> []"
  shows "\<exists>c'. deployStep user raw at (Some c) = Some c' \<and> deployed (D @ [(at, user, raw)]) c'"
proof -
  let ?V = "(\<lambda>d. (fst d, fst (snd d))) ` set D" and ?w = "(dc_at c, dc_user c)"
  define parsed where "parsed = (if raw = [] then None else parseDeployTime raw)"
  have best: "latest.best ?V ?w" using assms(1) by (simp add: deployed_def Let_def)
  have V: "(\<lambda>d. (fst d, fst (snd d))) ` set (D @ [(at, user, raw)]) = insert (at, user) ?V" by simp
  note next' = latest.best_insert [OF best, of "(at, user)"]
  consider (new) "later (at, user) ?w" | (same) "(at, user) = ?w" | (old) "\<not> later (at, user) ?w" "(at, user) \<noteq> ?w" by blast
  then show ?thesis
  proof cases
    case new
    have "(at, user) \<notin> ?V"
    proof
      assume "(at, user) \<in> ?V"
      then have "(at, user) = ?w \<or> later ?w (at, user)" using best unfolding latest.best_def by (elim conjE) (rule bspec)
      then show False using new by (auto simp: later_def)
    qed
    then have one: "cohort (D @ [(at, user, raw)]) (at, user) = [raw]" by (simp add: cohort_snoc cohort_new)
    have unparsed: "raw \<noteq> [] \<and> parseDeployTime raw = None \<longleftrightarrow> raw \<noteq> [] \<and> parsed = None" by (simp add: parsed_def)
    have "deployed (D @ [(at, user, raw)])
        \<lparr> dc_user = user, dc_at = at, dc_when = (case parsed of None \<Rightarrow> zeroTime | Some t \<Rightarrow> t), dc_ok = (parsed \<noteq> None),
          dc_unparsed = (if raw \<noteq> [] \<and> parsed = None then 1 else 0) \<rparr>"
      unfolding deployed_def V Let_def using next' new deployTimes_one [of raw, folded parsed_def]
      by (cases parsed) (simp_all add: one unparsed)
    then show ?thesis using new unfolding deployStep_def Let_def parsed_def [symmetric] by (simp add: later_def)
  next
    case same
    let ?C = "cohort D ?w"
    have C: "cohort (D @ [(at, user, raw)]) ?w = ?C @ [raw]" using same by (simp add: cohort_snoc)
    have ok: "dc_ok c = (deployTimes ?C \<noteq> {})" "dc_when c = (if deployTimes ?C = {} then zeroTime else Max (deployTimes ?C))"
      "dc_unparsed c = int (length (filter (\<lambda>raw. raw \<noteq> [] \<and> parseDeployTime raw = None) ?C))"
      using assms(1) by (simp_all add: deployed_def Let_def)
    have T: "deployTimes (?C @ [raw]) = set_option parsed \<union> deployTimes ?C" by (simp add: deployTimes_snoc parsed_def)
    define c' where "c' = (case parsed of Some t \<Rightarrow> if \<not> dc_ok c \<or> t > dc_when c then c\<lparr> dc_when := t, dc_ok := True \<rparr> else c | None \<Rightarrow> c)"
    have c': "dc_at c' = dc_at c" "dc_user c' = dc_user c" "dc_unparsed c' = dc_unparsed c"
      by (simp_all add: c'_def split: option.split)
    have "dc_ok c' = (deployTimes (?C @ [raw]) \<noteq> {}) \<and>
        dc_when c' = (if deployTimes (?C @ [raw]) = {} then zeroTime else Max (deployTimes (?C @ [raw])))"
    proof (cases parsed)
      case None
      then show ?thesis unfolding T using ok by (simp add: c'_def)
    next
      case (Some t)
      have "Max (insert t (deployTimes ?C)) = (if t > Max (deployTimes ?C) then t else Max (deployTimes ?C))" if "deployTimes ?C \<noteq> {}"
        using that deployTimes_finite [of ?C] by (simp add: max_def del: Max_less_iff Max_le_iff)
      then show ?thesis unfolding T using ok Some by (auto simp: c'_def)
    qed
    note times = this
    let ?c = "c'\<lparr> dc_unparsed := dc_unparsed c' + (if raw \<noteq> [] \<and> parsed = None then 1 else 0) \<rparr>"
    have sel: "dc_at ?c = dc_at c" "dc_user ?c = dc_user c" "dc_ok ?c = dc_ok c'" "dc_when ?c = dc_when c'"
      "dc_unparsed ?c = dc_unparsed c + (if raw \<noteq> [] \<and> parsed = None then 1 else 0)" by (simp_all add: c')
    have V': "insert (at, user) ?V = ?V" using best unfolding same latest.best_def by (simp add: insert_absorb)
    have unparsed: "raw \<noteq> [] \<and> parseDeployTime raw = None \<longleftrightarrow> raw \<noteq> [] \<and> parsed = None" by (simp add: parsed_def)
    have "deployed (D @ [(at, user, raw)]) ?c"
      unfolding deployed_def V V' Let_def sel C using best times by (simp add: ok(3) unparsed)
    moreover have "deployStep user raw at (Some c) = Some (c'\<lparr> dc_unparsed := dc_unparsed c' + (if raw \<noteq> [] \<and> parsed = None then 1 else 0) \<rparr>)"
      using same unfolding deployStep_def Let_def parsed_def [symmetric] c'_def by auto
    ultimately show ?thesis by blast
  next
    case old
    then have "cohort (D @ [(at, user, raw)]) ?w = cohort D ?w" by (simp add: cohort_snoc)
    then have "deployed (D @ [(at, user, raw)]) c" using assms(1) next' old unfolding deployed_def V Let_def by simp
    then show ?thesis using old unfolding deployStep_def Let_def by (auto simp: later_def)
  qed
qed

lemma deploy_fold:
  "D \<noteq> [] \<Longrightarrow> \<exists>c. fold (\<lambda>(at, user, raw). deployStep user raw at) D None = Some c \<and> deployed D c"
proof (induction D rule: rev_induct)
  case (snoc d D)
  obtain at user raw where d: "d = (at, user, raw)" by (cases d)
  show ?case
  proof (cases "D = []")
    case True
    then show ?thesis using deployStep_first by (simp add: d)
  next
    case False
    then obtain c where "fold (\<lambda>(at, user, raw). deployStep user raw at) D None = Some c" "deployed D c" using snoc.IH by blast
    then show ?thesis using deployStep_deployed [OF _ False] by (simp add: d)
  qed
qed simp

lemma deployers_get:
  "gm_get (ap_deployers (picksOf src mc vec p)) key =
     fold (\<lambda>(at, user, raw). deployStep user raw at) (deploysAt src mc vec key) (gm_get (ap_deployers p) key)"
proof (induction vec arbitrary: p)
  case (Cons s vec)
  have step: "picksOf src mc (s # vec) p = picksOf src mc vec (addMetadata src (bucketed mc QAppMetadata s) s p)"
    by (simp add: picksOf_def)
  have nn: "deployStep user raw at cur \<noteq> None" for user raw at and cur :: "'a deployerCandidate option"
    by (auto simp: deployStep_def Let_def split: option.splits)
  have keep: "gm_get (keepDeployer m k user raw at) j = (if j = k then deployStep user raw at (gm_get m k) else gm_get m j)"
    for m k j user raw and at :: 'a
    using nn [of user raw at "gm_get m k"] by (auto simp: keepDeployer_def split: option.splits)
  show ?case unfolding step Cons.IH addMetadata_parts(5)
    by (cases "deployOffer src mc s") (auto simp: deploysAt_def List.map_filter_def keep)
qed (simp add: picksOf_def deploysAt_def List.map_filter_def)

text \<open>
  The metadata of a build. Each pick is decided by the rows alone: a pod gets the smallest Application of its
  rows, a namespace the latest owner and alias and the best group with that row's own owner, an Application
  the latest deployer with the latest parsed deploy time of the rows that share his time and name. An entry
  exists only where some row offers it.
\<close>

theorem metadata_exact:
  assumes "idx = resolveAppMetadata vec src mc"
  shows "gm_get (ai_podApps idx) pod = least (offers (podOffer src mc) (set vec) pod) \<and>
    (gm_get (ai_nsOwners idx) ns = Some v \<longleftrightarrow> (\<exists>at. latest.best (offers (latestOffer am_NSOwner src mc) (set vec) ns) (at, v))) \<and>
    (gm_get (ai_nsAliases idx) ns = Some v \<longleftrightarrow> (\<exists>at. latest.best (offers (latestOffer am_NSAlias src mc) (set vec) ns) (at, v))) \<and>
    (gm_get (ai_nsGroups idx) ns = Some g \<longleftrightarrow> (\<exists>at. groups.best (offers (groupOffer src mc) (set vec) ns) (at, g))) \<and>
    (if deploysAt src mc vec app = [] then gm_get (ai_deployers idx) app = None
     else \<exists>c. deployed (deploysAt src mc vec app) c \<and> gm_get (ai_deployers idx) app = Some (dc_user c))"
proof -
  let ?p = "picksOf src mc vec newAppMetadataPicks"
  have idx: "idx = indexMetadata ?p" by (simp add: assms resolve_index)
  have snd: "gm_get (map (\<lambda>(k, seen). (k, snd seen)) m) k = Some v \<longleftrightarrow> (\<exists>a. gm_get m k = Some (a, v))" for m k v
    unfolding gm_get_map_snd by (auto simp: map_option_eq_Some)
  have D: "gm_get (ai_deployers idx) app = map_option dc_user (fold (\<lambda>(at, user, raw). deployStep user raw at) (deploysAt src mc vec app) None)"
    using deployers_get [of src mc vec newAppMetadataPicks app]
    by (simp add: idx indexMetadata_def gm_get_map_snd newAppMetadataPicks_def)
  have "if deploysAt src mc vec app = [] then gm_get (ai_deployers idx) app = None
     else \<exists>c. deployed (deploysAt src mc vec app) c \<and> gm_get (ai_deployers idx) app = Some (dc_user c)"
    using deploy_fold [of "deploysAt src mc vec app"] unfolding D by auto
  then show ?thesis
    unfolding assms podApps_get unfolding assms [symmetric] idx indexMetadata_def appMetadataIndex.simps snd picksOf_parts
    by (simp add: newAppMetadataPicks_def latest.pickAll_Some groups.pickAll_Some)
qed

end
