(* ===== verification/PodLookup.thy ===== *)
theory PodLookup
  imports AppIndex
begin

text \<open>
  The Application of one pod, on demand: \<open>pkg/build/podapplication.go\<close>.

  \<open>ask\<close> answers a label query (\<open>LabelQuerier\<close>, \<open>QueryLabels\<close> of theory LabelQuery for a router) and
  \<open>fserver\<close> is \<open>FamilyServer\<close> where the querier implements it. The lookup runs its queries one after the
  other; the first failure is its result. A pin is \<open>None\<close> when unset; a set pin may be empty.

  The lemmas show that, when the querier answers from the vectors a build read, the lookup gives the
  Application the build gives the pod.
\<close>

record PodApplicationRequest =
  par_AZ :: string
  par_Env :: string
  par_Cluster :: string
  par_Namespace :: string
  par_Pod :: string
  par_At :: int
  par_Window :: int
  par_LabelKeys :: LabelKeys
  par_AppMetadata :: "AppMetadataSource option"

datatype 'e LookupError =
    Required string
  | InstantRequired
  | WindowNotPositive
  | AppMetadataInvalid SourceError
  | AmbiguousPod
  | LookupFailed string 'e

type_synonym pin = "string option"

definition pinOf :: "string \<Rightarrow> pin" where
  "pinOf v = (if v = [] then None else Some v)"

record podAppLookup =
  pl_req :: PodApplicationRequest
  pl_keys :: LabelKeys
  pl_az :: pin
  pl_env :: pin

definition validateRequest :: "PodApplicationRequest \<Rightarrow> 'e LookupError option" where
  "validateRequest r =
     (if par_Cluster r = [] then Some (Required ''Cluster'')
      else if par_Namespace r = [] then Some (Required ''Namespace'')
      else if par_Pod r = [] then Some (Required ''Pod'')
      else if par_At r = zeroTime then Some InstantRequired
      else if par_Window r \<le> 0 then Some WindowNotPositive
      else case par_AppMetadata r of
          None \<Rightarrow> None
        | Some src \<Rightarrow>
            (case ValidateSource src (par_LabelKeys r) of Some e \<Rightarrow> Some (AppMetadataInvalid e) | None \<Rightarrow> None))"

text \<open>\<open>pinScope\<close> on rows it is never given empty; \<open>None\<close> is \<open>ErrAmbiguousPod\<close>.\<close>

definition pinScope :: "podAppLookup \<Rightarrow> labels list \<Rightarrow> podAppLookup option" where
  "pinScope l owners =
     (let first = hd owners; az = lk_AZ (pl_keys l); env = lk_Env (pl_keys l) in
      if list_ex (\<lambda>s. pl_az l = None \<and> gm_str s az \<noteq> gm_str first az \<or> pl_env l = None \<and> gm_str s env \<noteq> gm_str first env)
           (tl owners)
      then None
      else Some (l\<lparr> pl_az := (case pl_az l of None \<Rightarrow> Some (gm_str first az) | Some v \<Rightarrow> Some v),
                    pl_env := (case pl_env l of None \<Rightarrow> Some (gm_str first env) | Some v \<Rightarrow> Some v) \<rparr>))"

definition applyScope :: "podAppLookup \<Rightarrow> LabelQuery \<Rightarrow> LabelQuery" where
  "applyScope l req =
     (let req = (case pl_az l of
            None \<Rightarrow> req
          | Some az \<Rightarrow> if az \<noteq> [] then req\<lparr> lq_AZ := az \<rparr>
                       else req\<lparr> lq_Filters := gm_put (lk_AZ (pl_keys l)) [] (lq_Filters req) \<rparr>)
      in case pl_env l of
           None \<Rightarrow> req
         | Some env \<Rightarrow> req\<lparr> lq_Filters := gm_put (lk_Env (pl_keys l)) env (lq_Filters req) \<rparr>)"

definition lookupQuery :: "podAppLookup \<Rightarrow> Query \<Rightarrow> (string, string) gomap \<Rightarrow> LabelQuery" where
  "lookupQuery l metric filters =
     (let r = pl_req l;
          req = \<lparr> lq_Metric = metric, lq_Family = FamilyKSM, lq_AZ = [],
            lq_Filters = [(''cluster'', par_Cluster r), (''namespace'', par_Namespace r)],
            lq_At = Some (par_At r), lq_Window = par_Window r, lq_Limit = 0, lq_LabelKeys = par_LabelKeys r \<rparr>;
          req = applyScope l req
      in req\<lparr> lq_Filters := fold (\<lambda>(k, v). gm_put k v) filters (lq_Filters req) \<rparr>)"

definition runQuery ::
  "(LabelQuery \<Rightarrow> 'e + labels list) \<Rightarrow> podAppLookup \<Rightarrow> Query \<Rightarrow> (string, string) gomap \<Rightarrow> 'e LookupError + labels list" where
  "runQuery ask l metric filters =
     (case ask (lookupQuery l metric filters) of Inl e \<Rightarrow> Inl (LookupFailed metric e) | Inr sets \<Rightarrow> Inr sets)"

definition lookupUsesAppMetadata :: "(Family \<Rightarrow> bool) option \<Rightarrow> AppMetadataSource option \<Rightarrow> bool" where
  "lookupUsesAppMetadata fserver src =
     (src \<noteq> None \<and> (case fserver of None \<Rightarrow> False | Some s \<Rightarrow> s FamilyAppMeta))"

definition appMetadataRows ::
  "(LabelQuery \<Rightarrow> 'e + labels list) \<Rightarrow> podAppLookup \<Rightarrow> AppMetadataSource \<Rightarrow> 'e LookupError + labels list" where
  "appMetadataRows ask l src =
     (let r = pl_req l;
          req = \<lparr> lq_Metric = am_Metric src, lq_Family = FamilyAppMeta, lq_AZ = [],
            lq_Filters = fold (\<lambda>(k, v). gm_put k v)
              [(''cluster'', par_Cluster r), (am_Namespace src, par_Namespace r), (am_Pod src, par_Pod r)] [],
            lq_At = Some (par_At r), lq_Window = par_Window r, lq_Limit = 0, lq_LabelKeys = par_LabelKeys r \<rparr>
      in case ask (applyScope l req) of Inl e \<Rightarrow> Inl (LookupFailed ''app_metadata'' e) | Inr sets \<Rightarrow> Inr sets)"

fun minLabelLoop :: "string \<Rightarrow> string \<Rightarrow> labels list \<Rightarrow> string" where
  "minLabelLoop labelName best [] = best"
| "minLabelLoop labelName best (s # sets) =
     (let v = gm_str s labelName in
      minLabelLoop labelName (if v \<noteq> [] \<and> (best = [] \<or> v < best) then v else best) sets)"

text \<open>\<open>None\<close> is \<open>ok = false\<close>.\<close>

definition minLabel :: "labels list \<Rightarrow> string \<Rightarrow> string option" where
  "minLabel sets labelName = (let best = minLabelLoop labelName [] sets in if best = [] then None else Some best)"

definition collapseRef ::
  "(LabelQuery \<Rightarrow> 'e + labels list) \<Rightarrow> podAppLookup \<Rightarrow> ownerRef \<Rightarrow> 'e LookupError + ownerRef" where
  "collapseRef ask l ref =
     (if fst ref = ''ReplicaSet'' then
        (case runQuery ask l QReplicaSetOwner [(''replicaset'', snd ref), (''owner_kind'', ''Deployment'')] of
           Inl e \<Rightarrow> Inl e
         | Inr rsOwners \<Rightarrow>
             (case minLabel rsOwners ''owner_name'' of Some dep \<Rightarrow> Inr (''Deployment'', dep) | None \<Rightarrow> Inr ref))
      else Inr ref)"

fun controllerOwnerLoop ::
  "(LabelQuery \<Rightarrow> 'e + labels list) \<Rightarrow> podAppLookup \<Rightarrow> ownerRef option \<Rightarrow> ownerRef list \<Rightarrow> 'e LookupError + ownerRef option" where
  "controllerOwnerLoop ask l cur [] = Inr cur"
| "controllerOwnerLoop ask l cur (ref # refs) =
     (case collapseRef ask l ref of
        Inl e \<Rightarrow> Inl e
      | Inr ref \<Rightarrow>
          controllerOwnerLoop ask l
            (case cur of None \<Rightarrow> Some ref | Some c \<Rightarrow> if ownerLess ref c then Some ref else cur) refs)"

definition controllerOwner ::
  "(LabelQuery \<Rightarrow> 'e + labels list) \<Rightarrow> podAppLookup \<Rightarrow> labels list \<Rightarrow> 'e LookupError + ownerRef option" where
  "controllerOwner ask l owners =
     (let refs = List.map_filter (\<lambda>s. let k = gm_str s ''owner_kind''; n = gm_str s ''owner_name'' in
            if k \<noteq> [] \<and> n \<noteq> [] then Some (k, n) else None) owners
      in controllerOwnerLoop ask l None (Compact (sort refs)))"

text \<open>The families of \<open>controllerAnnotationFamilies\<close>, without their vectors.\<close>

definition annotationFamilies :: "unit controllerAnnotationFamily list" where
  "annotationFamilies = controllerAnnotationFamilies \<lparr> DeploymentAnnotations = [], StatefulSetAnnotations = [],
     DaemonSetAnnotations = [], ReplicaSetAnnotations = [], JobAnnotations = [], CronJobAnnotations = [] \<rparr>"

definition lookupControllerApp ::
  "(LabelQuery \<Rightarrow> 'e + labels list) \<Rightarrow> podAppLookup \<Rightarrow> string \<Rightarrow> string \<Rightarrow> 'e LookupError + string option" where
  "lookupControllerApp ask l kind name =
     (case find (\<lambda>f. fam_kind f = kind) annotationFamilies of
        None \<Rightarrow> Inr None
      | Some f \<Rightarrow>
          (case runQuery ask l (fam_query f) [(fam_nameLabel f, name)] of
             Inl e \<Rightarrow> Inl e
           | Inr sets \<Rightarrow>
               let best = fold (\<lambda>s best. let raw = gm_str s argoTrackingIDLabel in
                     if betterTrackingID best raw then raw else best) sets []
               in if best = [] then Inr None else Inr (Some (argoAppName best))))"

definition lookupCronJobOf ::
  "(LabelQuery \<Rightarrow> 'e + labels list) \<Rightarrow> podAppLookup \<Rightarrow> string \<Rightarrow> 'e LookupError + string option" where
  "lookupCronJobOf ask l job =
     (case runQuery ask l QJobOwner [(''job_name'', job), (''owner_kind'', ''CronJob''), (''owner_is_controller'', ''true'')] of
        Inl e \<Rightarrow> Inl e
      | Inr jobOwners \<Rightarrow> Inr (minLabel jobOwners ''owner_name''))"

definition lookupSource :: "(LabelQuery \<Rightarrow> 'e + labels list) \<Rightarrow> podAppLookup \<Rightarrow> 'e LookupError ownerAppSource" where
  "lookupSource ask l = \<lparr> controllerApp = lookupControllerApp ask l, cronJobOf = lookupCronJobOf ask l \<rparr>"

definition ResolvePodApplication ::
  "(LabelQuery \<Rightarrow> 'e + labels list) \<Rightarrow> (Family \<Rightarrow> bool) option \<Rightarrow> PodApplicationRequest \<Rightarrow> 'e LookupError + string" where
  "ResolvePodApplication ask fserver req =
     (let req = req\<lparr> par_AppMetadata := map_option sourceOrDefault (par_AppMetadata req) \<rparr> in
      case validateRequest req of
        Some e \<Rightarrow> Inl e
      | None \<Rightarrow>
          let l = \<lparr> pl_req = req, pl_keys = OrDefault (par_LabelKeys req), pl_az = pinOf (par_AZ req), pl_env = pinOf (par_Env req) \<rparr> in
          (case runQuery ask l QPodOwner [(''pod'', par_Pod req), (''owner_is_controller'', ''true'')] of
             Inl e \<Rightarrow> Inl e
           | Inr owners \<Rightarrow>
               let useMetric = lookupUsesAppMetadata fserver (par_AppMetadata req); src = the (par_AppMetadata req) in
               if owners = [] then
                 (if \<not> useMetric then Inr []
                  else case appMetadataRows ask l src of
                    Inl e \<Rightarrow> Inl e
                  | Inr rows \<Rightarrow>
                      if rows = [] then Inr []
                      else case pinScope l rows of
                        None \<Rightarrow> Inl AmbiguousPod
                      | Some _ \<Rightarrow> Inr (case minLabel rows (am_App src) of Some app \<Rightarrow> app | None \<Rightarrow> []))
               else case pinScope l owners of
                 None \<Rightarrow> Inl AmbiguousPod
               | Some l \<Rightarrow>
                   let metric = (if useMetric then
                         (case appMetadataRows ask l src of Inl e \<Rightarrow> Inl e | Inr rows \<Rightarrow> Inr (minLabel rows (am_App src)))
                       else Inr None)
                   in case metric of
                        Inl e \<Rightarrow> Inl e
                      | Inr (Some app) \<Rightarrow> Inr app
                      | Inr None \<Rightarrow>
                          (case controllerOwner ask l owners of
                             Inl e \<Rightarrow> Inl e
                           | Inr None \<Rightarrow> Inr []
                           | Inr (Some ref) \<Rightarrow> resolveOwnerApplication (lookupSource ask l) (fst ref) (snd ref))))"

section \<open>The smallest value\<close>

lemma ownerLess_less: "ownerLess = (<)"
  by (intro ext) (auto simp: ownerLess_def less_prod_def)

lemma minLabelLoop_eq:
  "minLabelLoop n best sets = (let V = (\<lambda>m. gm_str m n) ` set sets \<union> {best} - {[]} in if V = {} then [] else Min V)"
proof (induction sets arbitrary: best)
  case Nil
  then show ?case by (simp add: Let_def insert_Diff_if)
next
  case (Cons s sets)
  define v where "v = gm_str s n"
  define b where "b = (if v \<noteq> [] \<and> (best = [] \<or> v < best) then v else best)"
  define W where "W = (\<lambda>m. gm_str m n) ` set sets - {[]}"
  have fin: "finite W" by (simp add: W_def)
  have l: "(\<lambda>m. gm_str m n) ` set sets \<union> {b} - {[]} = (if b = [] then W else insert b W)"
    and r: "(\<lambda>m. gm_str m n) ` set (s # sets) \<union> {best} - {[]} =
      (if v = [] then {} else {v}) \<union> (if best = [] then {} else {best}) \<union> W"
    by (auto simp: W_def v_def)
  have "minLabelLoop n best (s # sets) = minLabelLoop n b sets" by (simp add: Let_def v_def b_def)
  also have "\<dots> = (let V = (if b = [] then W else insert b W) in if V = {} then [] else Min V)"
    unfolding Cons.IH l ..
  also have "\<dots> = (let V = (if v = [] then {} else {v}) \<union> (if best = [] then {} else {best}) \<union> W in if V = {} then [] else Min V)"
  proof (cases "v = [] \<or> best = []")
    case True
    then show ?thesis by (auto simp: b_def)
  next
    case False
    then have "b = (if v < best then v else best)" by (simp add: b_def)
    also have "\<dots> = min v best" by (simp add: min.absorb3 min.absorb2 not_less)
    finally have "b = min v best" .
    moreover have "Min (insert v (insert best W)) = Min (insert (min v best) W)"
      using fin by (cases "W = {}") (simp_all add: min.assoc)
    ultimately have "Min (insert b W) = Min (insert v (insert best W))" by simp
    moreover have "b \<noteq> []" using False by (simp add: b_def)
    ultimately show ?thesis using False by (simp add: Let_def insert_commute)
  qed
  finally show ?case unfolding r .
qed

lemma minLabel_eq: "minLabel sets n = least ((\<lambda>m. gm_str m n) ` set sets - {[]})"
proof -
  have "Min ((\<lambda>m. gm_str m n) ` set sets - {[]}) \<noteq> []" if "(\<lambda>m. gm_str m n) ` set sets - {[]} \<noteq> {}"
    using Min_in [OF _ that] by auto
  then show ?thesis by (auto simp: minLabel_def minLabelLoop_eq Let_def least_def)
qed

lemma tracking_fold:
  "fold (\<lambda>s best. let raw = gm_str s argoTrackingIDLabel in if betterTrackingID best raw then raw else best) sets best
     = minLabelLoop argoTrackingIDLabel best (filter (\<lambda>s. usableTrackingID (gm_str s argoTrackingIDLabel)) sets)"
  by (induction sets arbitrary: best) (auto simp: Let_def betterTrackingID_def dest: usable_not_Nil)

lemma tracking_least:
  "(let best = fold (\<lambda>s best. let raw = gm_str s argoTrackingIDLabel in if betterTrackingID best raw then raw else best) sets []
    in if best = [] then Inr None else Inr (Some (argoAppName best)))
    = (Inr (map_option argoAppName (least {raw \<in> (\<lambda>m. gm_str m argoTrackingIDLabel) ` set sets. usableTrackingID raw}))
        :: 'e LookupError + string option)"
proof -
  let ?f = "filter (\<lambda>s. usableTrackingID (gm_str s argoTrackingIDLabel)) sets"
  have e: "(\<lambda>m. gm_str m argoTrackingIDLabel) ` set ?f - {[]} = {raw \<in> (\<lambda>m. gm_str m argoTrackingIDLabel) ` set sets. usableTrackingID raw}"
    using usable_not_Nil by auto
  define best where "best = minLabelLoop argoTrackingIDLabel [] ?f"
  have "least {raw \<in> (\<lambda>m. gm_str m argoTrackingIDLabel) ` set sets. usableTrackingID raw} = (if best = [] then None else Some best)"
    using minLabel_eq [of ?f argoTrackingIDLabel] unfolding e minLabel_def best_def Let_def by (rule sym)
  then show ?thesis unfolding tracking_fold unfolding best_def [symmetric] by (simp only: Let_def) auto
qed

section \<open>Answers and scope\<close>

text \<open>The labels a lookup reads of a series, the metric name left out.\<close>

definition strOf :: "Metric \<Rightarrow> string \<Rightarrow> string" where
  "strOf m k = (if k = MetricNameLabel then [] else gm_str m k)"

definition matchesQuery :: "LabelQuery \<Rightarrow> Metric \<Rightarrow> bool" where
  "matchesQuery q m = ((\<forall>(k, v)\<in>set (lq_Filters q). gm_str m k = v) \<and>
     (lq_AZ q \<noteq> [] \<longrightarrow> gm_str m (lk_AZ (OrDefault (lq_LabelKeys q))) = lq_AZ q))"

text \<open>
  The querier answers from the vectors a build read: an answer holds the label sets of the matching series
  of the family, and nothing else (theorems \<open>label_query_selects\<close> and \<open>query_labels_exact\<close>).
\<close>

definition answersFrom :: "(LabelQuery \<Rightarrow> 'e + labels list) \<Rightarrow> (Query \<Rightarrow> 'f Row list) \<Rightarrow> bool" where
  "answersFrom ask rows = (\<forall>q. lq_Family q = FamilyKSM \<longrightarrow> (\<exists>sets. ask q = Inr sets \<and>
     strOf ` set sets = strOf ` sm_metric ` {s \<in> set (rows (lq_Metric q)). matchesQuery q (sm_metric s)}))"

lemma applyScope_keeps [simp]:
  "lq_Family (applyScope l req) = lq_Family req" "lq_Metric (applyScope l req) = lq_Metric req"
  "lq_LabelKeys (applyScope l req) = lq_LabelKeys req"
  by (cases "pl_az l"; cases "pl_env l"; simp add: applyScope_def Let_def)+

lemma answer_values:
  assumes "answersFrom ask rows"
  obtains sets where "runQuery ask l metric fs = Inr sets"
    and "strOf ` set sets = strOf ` sm_metric ` {s \<in> set (rows metric). matchesQuery (lookupQuery l metric fs) (sm_metric s)}"
proof -
  let ?q = "lookupQuery l metric fs"
  have q: "lq_Family ?q = FamilyKSM" "lq_Metric ?q = metric"
    by (simp_all add: lookupQuery_def Let_def)
  obtain sets where "ask ?q = Inr sets" "strOf ` set sets = strOf ` sm_metric ` {s \<in> set (rows metric). matchesQuery ?q (sm_metric s)}"
    using assms [unfolded answersFrom_def, rule_format, OF q(1)] unfolding q(2) by (elim exE conjE)
  then show thesis by (intro that) (simp_all add: runQuery_def)
qed

lemma strOf_label:
  assumes "strOf ` A = strOf ` B" and "n \<noteq> MetricNameLabel" and "n' \<noteq> MetricNameLabel"
  shows "(\<lambda>m. (gm_str m n, gm_str m n')) ` A = (\<lambda>m. (gm_str m n, gm_str m n')) ` B"
    and "(\<lambda>m. gm_str m n) ` A = (\<lambda>m. gm_str m n) ` B"
proof -
  have m: "(\<lambda>m. gm_str m n) ` X = (\<lambda>f. f n) ` strOf ` X" for X
    unfolding image_image by (rule image_cong [OF refl]) (simp add: strOf_def assms(2))
  have m2: "(\<lambda>m. (gm_str m n, gm_str m n')) ` X = (\<lambda>f. (f n, f n')) ` strOf ` X" for X
    unfolding image_image by (rule image_cong [OF refl]) (simp add: strOf_def assms(2,3))
  show "(\<lambda>m. gm_str m n) ` A = (\<lambda>m. gm_str m n) ` B" unfolding m assms(1) ..
  show "(\<lambda>m. (gm_str m n, gm_str m n')) ` A = (\<lambda>m. (gm_str m n, gm_str m n')) ` B" unfolding m2 assms(1) ..
qed

section \<open>The lookup and the build\<close>

definition lookupQueries :: "Query list" where
  "lookupQueries = [QPodOwner, QReplicaSetOwner, QJobOwner, QDeploymentAnnotations, QStatefulSetAnnotations,
     QDaemonSetAnnotations, QReplicaSetAnnotations, QJobAnnotations, QCronJobAnnotations]"

definition vectorsOf :: "(Query \<Rightarrow> 'f Row list) \<Rightarrow> 'f controllerVectors" where
  "vectorsOf rows = \<lparr> DeploymentAnnotations = rows QDeploymentAnnotations, StatefulSetAnnotations = rows QStatefulSetAnnotations,
     DaemonSetAnnotations = rows QDaemonSetAnnotations, ReplicaSetAnnotations = rows QReplicaSetAnnotations,
     JobAnnotations = rows QJobAnnotations, CronJobAnnotations = rows QCronJobAnnotations \<rparr>"

definition scopeLabels :: "LabelKeys \<Rightarrow> 'f Row \<Rightarrow> string \<times> string \<times> string" where
  "scopeLabels k s = (row_str s (lk_AZ k), row_str s (lk_Env k), row_str s ''cluster'')"

text \<open>The identities of the build tell clusters apart exactly as zone, environment and cluster label do.\<close>

definition identifies :: "clusterResolver \<Rightarrow> LabelKeys \<Rightarrow> (Query \<Rightarrow> 'f Row list) \<Rightarrow> bool" where
  "identifies mc k rows = (\<forall>q0\<in>{QPodOwner, QAppMetadata}. \<forall>s0\<in>set (rows q0).
     \<forall>q\<in>set (QAppMetadata # lookupQueries). \<forall>s\<in>set (rows q).
       bucketed mc q s = bucketed mc q0 s0 \<longleftrightarrow> scopeLabels k s = scopeLabels k s0)"

text \<open>Zone and environment keys that no label of the queries uses.\<close>

definition plainKeys :: "LabelKeys \<Rightarrow> bool" where
  "plainKeys k = (lk_AZ k \<noteq> lk_Env k \<and> (\<forall>x\<in>{lk_AZ k, lk_Env k}. x \<noteq> MetricNameLabel \<and>
     x \<notin> set [''cluster'', ''namespace'', ''pod'', ''owner_is_controller'', ''owner_kind'', ''replicaset'', ''job_name'',
       ''deployment'', ''statefulset'', ''daemonset'', ''cronjob'']))"


lemma fold_put_new:
  "distinct (map fst fs) \<Longrightarrow> fst ` set fs \<inter> fst ` set m = {} \<Longrightarrow> fold (\<lambda>(k, v). gm_put k v) fs m = m @ fs"
proof (induction fs arbitrary: m)
  case (Cons f fs)
  obtain k v where f: "f = (k, v)" by (cases f)
  have k: "k \<notin> fst ` set m" using Cons.prems(2) by (auto simp: f)
  have new: "gm_put k v m = m @ [(k, v)]" by (rule gm_put_new [OF k])
  have rest: "distinct (map fst fs)" "fst ` set fs \<inter> fst ` set (m @ [(k, v)]) = {}" using Cons.prems by (auto simp: f)
  show ?case unfolding fold_simps f case_prod_conv new Cons.IH [OF rest] by simp
qed simp

lemma disjoint_mono: "A \<subseteq> F \<Longrightarrow> B \<subseteq> G \<Longrightarrow> F \<inter> G = {} \<Longrightarrow> A \<inter> B = {}"
  by blast

definition holdsAll :: "(string, string) gomap \<Rightarrow> Metric \<Rightarrow> bool" where
  "holdsAll fs m = (\<forall>(k, v)\<in>set fs. gm_str m k = v)"

lemma holdsAll_simps [simp]:
  "holdsAll [] m" "holdsAll ((k, v) # fs) m \<longleftrightarrow> gm_str m k = v \<and> holdsAll fs m"
  "holdsAll (fs @ gs) m \<longleftrightarrow> holdsAll fs m \<and> holdsAll gs m"
  unfolding holdsAll_def set_append list.set by (simp_all add: ball_Un)

definition pinHolds :: "pin \<Rightarrow> string \<Rightarrow> Metric \<Rightarrow> bool" where
  "pinHolds p k m = (case p of None \<Rightarrow> True | Some v \<Rightarrow> gm_str m k = v)"

definition filterNames :: "string set" where
  "filterNames = {''pod'', ''owner_is_controller'', ''owner_kind'', ''replicaset'', ''job_name'', ''deployment'', ''statefulset'', ''daemonset'', ''cronjob''}"

lemma plainKeysD:
  assumes "plainKeys k"
  shows "lk_AZ k \<noteq> lk_Env k" "lk_AZ k \<notin> filterNames" "lk_Env k \<notin> filterNames"
    "lk_AZ k \<noteq> ''cluster''" "lk_AZ k \<noteq> ''namespace''" "lk_Env k \<noteq> ''cluster''" "lk_Env k \<noteq> ''namespace''"
    "lk_AZ k \<noteq> MetricNameLabel" "lk_Env k \<noteq> MetricNameLabel"
  using assms unfolding plainKeys_def filterNames_def list.set by simp_all

lemma lookup_matches:
  assumes keys: "pl_keys l = OrDefault (par_LabelKeys (pl_req l))" and plain: "plainKeys (pl_keys l)"
    and names: "distinct (map fst fs)" "fst ` set fs \<subseteq> filterNames"
  shows "matchesQuery (lookupQuery l metric fs) m \<longleftrightarrow>
    gm_str m ''cluster'' = par_Cluster (pl_req l) \<and> gm_str m ''namespace'' = par_Namespace (pl_req l) \<and>
    pinHolds (pl_az l) (lk_AZ (pl_keys l)) m \<and> pinHolds (pl_env l) (lk_Env (pl_keys l)) m \<and> holdsAll fs m"
proof -
  note pk = plainKeysD [OF plain]
  define base where "base = [(''cluster'', par_Cluster (pl_req l)), (''namespace'', par_Namespace (pl_req l))]"
  define az :: "(string, string) gomap" where "az = (case pl_az l of Some [] \<Rightarrow> [(lk_AZ (pl_keys l), [])] | _ \<Rightarrow> [])"
  define env :: "(string, string) gomap" where "env = (case pl_env l of Some v \<Rightarrow> [(lk_Env (pl_keys l), v)] | _ \<Rightarrow> [])"
  let ?r = "\<lparr> lq_Metric = metric, lq_Family = FamilyKSM, lq_AZ = [], lq_Filters = base,
            lq_At = Some (par_At (pl_req l)), lq_Window = par_Window (pl_req l), lq_Limit = 0, lq_LabelKeys = par_LabelKeys (pl_req l) \<rparr>"
  let ?q = "applyScope l ?r"
  have bk: "lk_AZ (pl_keys l) \<notin> fst ` set base" "lk_Env (pl_keys l) \<notin> fst ` set base" by (simp_all add: base_def pk)
  have azk: "fst ` set az \<subseteq> {lk_AZ (pl_keys l)}" by (auto simp: az_def split: option.splits list.splits)
  have "lk_Env (pl_keys l) \<notin> fst ` set (base @ az)" using bk(2) azk pk(1) by auto
  note putenv = gm_put_new [OF this] and putaz = gm_put_new [OF bk(1)]
  define X where "X = (case pl_az l of None \<Rightarrow> ?r | Some v \<Rightarrow> if v \<noteq> [] then ?r\<lparr> lq_AZ := v \<rparr>
      else ?r\<lparr> lq_Filters := gm_put (lk_AZ (pl_keys l)) [] (lq_Filters ?r) \<rparr>)"
  have one: "lq_Filters X = base @ az"
  proof (cases "pl_az l")
    case (Some v)
    then show ?thesis by (cases v) (simp_all add: X_def az_def putaz)
  qed (simp add: X_def az_def)
  have X: "?q = (case pl_env l of None \<Rightarrow> X | Some env \<Rightarrow> X\<lparr> lq_Filters := gm_put (lk_Env (pl_keys l)) env (lq_Filters X) \<rparr>)"
    unfolding applyScope_def Let_def X_def by (rule refl)
  have f: "lq_Filters ?q = base @ az @ env"
    unfolding X by (cases "pl_env l") (simp_all add: one putenv env_def)
  have a: "lq_AZ ?q = (case pl_az l of None \<Rightarrow> [] | Some v \<Rightarrow> v)"
    by (cases "pl_az l"; cases "pl_env l"; simp add: applyScope_def Let_def)
  have cl: "''cluster'' \<notin> filterNames" "''namespace'' \<notin> filterNames" by (simp_all add: filterNames_def)
  have dom: "fst ` set (base @ az @ env) \<subseteq> {''cluster'', ''namespace'', lk_AZ (pl_keys l), lk_Env (pl_keys l)}"
    using azk by (auto simp: base_def env_def split: option.splits)
  have "filterNames \<inter> {''cluster'', ''namespace'', lk_AZ (pl_keys l), lk_Env (pl_keys l)} = {}"
    by (simp only: Int_insert_right cl pk(2,3) if_False Int_empty_right)
  note disj = disjoint_mono [OF names(2) dom this]
  have F: "lq_Filters (lookupQuery l metric fs) = (base @ az @ env) @ fs"
    using fold_put_new [OF names(1) disj] unfolding lookupQuery_def Let_def base_def [symmetric] by (simp add: f)
  have A: "lq_AZ (lookupQuery l metric fs) = (case pl_az l of None \<Rightarrow> [] | Some v \<Rightarrow> v)"
    unfolding lookupQuery_def Let_def base_def [symmetric] by (simp add: a)
  have K: "OrDefault (lq_LabelKeys (lookupQuery l metric fs)) = pl_keys l"
    unfolding lookupQuery_def Let_def by (simp add: keys)
  have az': "holdsAll az m \<and> (lq_AZ (lookupQuery l metric fs) \<noteq> [] \<longrightarrow> gm_str m (lk_AZ (pl_keys l)) = lq_AZ (lookupQuery l metric fs))
      \<longleftrightarrow> pinHolds (pl_az l) (lk_AZ (pl_keys l)) m"
    unfolding A by (auto simp: az_def pinHolds_def split: option.splits list.splits)
  have env': "holdsAll env m \<longleftrightarrow> pinHolds (pl_env l) (lk_Env (pl_keys l)) m"
    by (simp add: env_def pinHolds_def split: option.splits)
  show ?thesis unfolding matchesQuery_def holdsAll_def [symmetric] F K az' [symmetric] env' [symmetric] by (auto simp: base_def)
qed

text \<open>What a pinned lookup and the build have in common: the rows of one cluster and namespace.\<close>

definition inScope :: "podAppLookup \<Rightarrow> 'f Row \<Rightarrow> bool" where
  "inScope l s = (row_str s ''cluster'' = par_Cluster (pl_req l) \<and> row_str s ''namespace'' = par_Namespace (pl_req l) \<and>
     pl_az l = Some (row_str s (lk_AZ (pl_keys l))) \<and> pl_env l = Some (row_str s (lk_Env (pl_keys l))))"

definition pinned :: "podAppLookup \<Rightarrow> bool" where
  "pinned l = (pl_az l \<noteq> None \<and> pl_env l \<noteq> None)"

lemma pinned_matches:
  assumes "pl_keys l = OrDefault (par_LabelKeys (pl_req l))" and "plainKeys (pl_keys l)" and "pinned l"
    and "distinct (map fst fs)" and "fst ` set fs \<subseteq> filterNames"
  shows "matchesQuery (lookupQuery l metric fs) (sm_metric s) \<longleftrightarrow> inScope l s \<and> holdsAll fs (sm_metric s)"
proof -
  have p: "pl_az l = Some x \<longleftrightarrow> pinHolds (pl_az l) k m" "pl_env l = Some y \<longleftrightarrow> pinHolds (pl_env l) k' m"
    if "gm_str m k = x" "gm_str m k' = y" for k k' m x y
    using assms(3) that unfolding pinned_def pinHolds_def by auto
  show ?thesis
    unfolding lookup_matches [OF assms(1,2,4,5)] inScope_def
      p [of "sm_metric s" "lk_AZ (pl_keys l)" _ "lk_Env (pl_keys l)", OF refl refl] by blast
qed

text \<open>Everything a lookup relies on once its scope is pinned to the cluster \<open>c\<close>.\<close>

definition agrees :: "(LabelQuery \<Rightarrow> 'e + labels list) \<Rightarrow> (Query \<Rightarrow> 'f Row list) \<Rightarrow> clusterResolver \<Rightarrow> podAppLookup \<Rightarrow> string \<Rightarrow> bool" where
  "agrees ask rows mc l c = (answersFrom ask rows \<and> pl_keys l = OrDefault (par_LabelKeys (pl_req l)) \<and> plainKeys (pl_keys l) \<and> pinned l \<and>
     (\<forall>q\<in>set lookupQueries. \<forall>s\<in>set (rows q).
        inScope l s \<longleftrightarrow> bucketed mc q s = c \<and> row_str s ''namespace'' = par_Namespace (pl_req l)))"

lemma agrees_answer:
  assumes "agrees ask rows mc l c" and "metric \<in> set lookupQueries" and "distinct (map fst fs)" and "fst ` set fs \<subseteq> filterNames"
  obtains sets where "runQuery ask l metric fs = Inr sets"
    and "strOf ` set sets = strOf ` sm_metric `
      {s \<in> set (rows metric). (bucketed mc metric s = c \<and> row_str s ''namespace'' = par_Namespace (pl_req l)) \<and> holdsAll fs (sm_metric s)}"
proof -
  note a = assms(1) [unfolded agrees_def]
  have eq: "{s \<in> set (rows metric). inScope l s \<and> holdsAll fs (sm_metric s)} =
    {s \<in> set (rows metric). (bucketed mc metric s = c \<and> row_str s ''namespace'' = par_Namespace (pl_req l)) \<and> holdsAll fs (sm_metric s)}"
    using a assms(2) by blast
  have k: "pl_keys l = OrDefault (par_LabelKeys (pl_req l))" "plainKeys (pl_keys l)" "pinned l"
    by (rule a [THEN conjunct2, THEN conjunct1], rule a [THEN conjunct2, THEN conjunct2, THEN conjunct1],
      rule a [THEN conjunct2, THEN conjunct2, THEN conjunct2, THEN conjunct1])
  obtain sets where "runQuery ask l metric fs = Inr sets"
    "strOf ` set sets = strOf ` sm_metric ` {s \<in> set (rows metric). matchesQuery (lookupQuery l metric fs) (sm_metric s)}"
    using answer_values [OF a [THEN conjunct1]] .
  then show thesis unfolding pinned_matches [OF k assms(3,4)] eq by (rule that)
qed

lemma not_name [simp]: "''owner_name'' \<noteq> MetricNameLabel" "''owner_kind'' \<noteq> MetricNameLabel" "argoTrackingIDLabel \<noteq> MetricNameLabel"
  by (simp_all add: MetricNameLabel_def argoTrackingIDLabel_def)

lemma lookup_cronJobOf:
  assumes "agrees ask rows mc l c" and "job \<noteq> []"
  shows "lookupCronJobOf ask l job = Inr (gm_get (resolveJobCronJobOwners (rows QJobOwner) mc) (c, par_Namespace (pl_req l), job))"
proof -
  let ?fs = "[(''job_name'', job), (''owner_kind'', ''CronJob''), (''owner_is_controller'', ''true'')]"
  have fs: "distinct (map fst ?fs)" "fst ` set ?fs \<subseteq> filterNames" by (simp_all add: filterNames_def)
  have q: "QJobOwner \<in> set lookupQueries" by (simp only: lookupQueries_def list.set) simp
  obtain sets where sets: "runQuery ask l QJobOwner ?fs = Inr sets" and
    vals: "strOf ` set sets = strOf ` sm_metric `
      {s \<in> set (rows QJobOwner). (bucketed mc QJobOwner s = c \<and> row_str s ''namespace'' = par_Namespace (pl_req l)) \<and> holdsAll ?fs (sm_metric s)}"
    using agrees_answer [OF assms(1) q fs] .
  have "(\<lambda>m. gm_str m ''owner_name'') ` set sets - {[]} =
      offers (jobOffer mc) (set (rows QJobOwner)) (c, par_Namespace (pl_req l), job)"
    unfolding strOf_label(2) [OF vals not_name(1) not_name(1)] offers_def
    using assms(2) by (auto simp: jobOffer_def Let_def split: if_splits)
  then show ?thesis unfolding lookupCronJobOf_def sets sum.case minLabel_eq resolveJobCronJobOwners_def pick_least by simp
qed

lemma find_map: "find P (map f xs) = map_option f (find (P \<circ> f) xs)"
  by (induction xs) auto

definition withoutVector :: "'f controllerAnnotationFamily \<Rightarrow> unit controllerAnnotationFamily" where
  "withoutVector f = \<lparr> fam_kind = fam_kind f, fam_query = fam_query f, fam_nameLabel = fam_nameLabel f, fam_vec = [] \<rparr>"

lemma annotationFamilies_eq: "annotationFamilies = map withoutVector (controllerAnnotationFamilies (vectorsOf rows))"
  by (simp add: annotationFamilies_def controllerAnnotationFamilies_def vectorsOf_def withoutVector_def)

lemma families:
  "\<forall>f\<in>set (controllerAnnotationFamilies (vectorsOf rows)). fam_vec f = rows (fam_query f) \<and> fam_query f \<in> set lookupQueries \<and>
     fam_nameLabel f \<in> filterNames"
  unfolding controllerAnnotationFamilies_def vectorsOf_def lookupQueries_def filterNames_def by simp

lemma lookup_controllerApp:
  assumes "agrees ask rows mc l c" and "name \<noteq> []"
  shows "lookupControllerApp ask l kind name =
    Inr (gm_get (resolveControllerApplications (vectorsOf rows) mc) (c, par_Namespace (pl_req l), kind, name))"
proof (cases "find (\<lambda>f. fam_kind f = kind) (controllerAnnotationFamilies (vectorsOf rows))")
  case None
  then have "find (\<lambda>f. fam_kind f = kind) annotationFamilies = None"
    by (simp add: annotationFamilies_eq [of rows] find_map comp_def withoutVector_def)
  then show ?thesis using None by (simp add: lookupControllerApp_def resolveControllerApplications_get)
next
  case (Some f)
  then have fin: "f \<in> set (controllerAnnotationFamilies (vectorsOf rows))" and kind: "fam_kind f = kind"
    by (auto simp: find_Some_iff)
  have f: "fam_vec f = rows (fam_query f)" "fam_query f \<in> set lookupQueries" "fam_nameLabel f \<in> filterNames"
    using families [THEN bspec, OF fin] by simp_all
  have found: "find (\<lambda>f. fam_kind f = kind) annotationFamilies = Some (withoutVector f)"
    using Some by (simp add: annotationFamilies_eq [of rows] find_map comp_def withoutVector_def)
  let ?fs = "[(fam_nameLabel f, name)]"
  have fs: "distinct (map fst ?fs)" "fst ` set ?fs \<subseteq> filterNames" using f(3) by simp_all
  obtain sets where sets: "runQuery ask l (fam_query f) ?fs = Inr sets" and
    vals: "strOf ` set sets = strOf ` sm_metric `
      {s \<in> set (rows (fam_query f)). (bucketed mc (fam_query f) s = c \<and> row_str s ''namespace'' = par_Namespace (pl_req l)) \<and> holdsAll ?fs (sm_metric s)}"
    using agrees_answer [OF assms(1) f(2) fs] .
  have q: "fam_query (withoutVector f) = fam_query f" "fam_nameLabel (withoutVector f) = fam_nameLabel f"
    by (simp_all add: withoutVector_def)
  have "{raw \<in> (\<lambda>m. gm_str m argoTrackingIDLabel) ` set sets. usableTrackingID raw} =
      offers (trackingOffer argoTrackingIDLabel (controllerKeyOf mc f)) (set (fam_vec f)) (c, par_Namespace (pl_req l), kind, name)"
    unfolding strOf_label(2) [OF vals not_name(3) not_name(3)] offers_def f(1) using assms(2) kind
    by (auto simp: trackingOffer_def controllerKeyOf_def Let_def split: if_splits)
  then show ?thesis
    unfolding lookupControllerApp_def found option.case q sets sum.case tracking_least resolveControllerApplications_get Some
      resolveApplications_picks gm_get_map_snd pick_least by simp
qed

definition collapse :: "(podNameKey, string) gomap \<Rightarrow> string \<Rightarrow> string \<Rightarrow> ownerRef \<Rightarrow> ownerRef" where
  "collapse rsDep c ns ref =
     (if fst ref = ''ReplicaSet'' then (case gm_get rsDep (c, ns, snd ref) of Some dep \<Rightarrow> (''Deployment'', dep) | None \<Rightarrow> ref) else ref)"

lemma least_single:
  assumes "\<forall>u v. u \<in> V \<and> v \<in> V \<longrightarrow> u = v"
  shows "least V = Some d \<longleftrightarrow> d \<in> V"
proof (cases "V = {}")
  case False
  then obtain x where "x \<in> V" by blast
  then have "V = {x}" using assms by blast
  then show ?thesis by (auto simp: least_def)
qed (simp add: least_def)

lemma option_same: "(\<And>d. x = Some d \<longleftrightarrow> y = Some d) \<Longrightarrow> x = y"
  by (cases x; cases y) auto

lemma rsToDeployment_least:
  assumes "singleOffer (rsOffer mc) (set vec)"
  shows "gm_get (rsToDeployment vec mc) k = least (offers (rsOffer mc) (set vec) k)"
proof -
  have "least (offers (rsOffer mc) (set vec) k) = Some d \<longleftrightarrow> d \<in> offers (rsOffer mc) (set vec) k" for d
    by (rule least_single) (rule assms [unfolded singleOffer_def, THEN spec])
  then have "gm_get (rsToDeployment vec mc) k = Some d \<longleftrightarrow> least (offers (rsOffer mc) (set vec) k) = Some d" for d
    unfolding rsToDeployment_get [OF assms] by blast
  then show ?thesis by (rule option_same)
qed

lemma rsOffer_Some:
  "rsOffer mc s = Some ((c, ns, rs), dep) \<longleftrightarrow> (bucketed mc QReplicaSetOwner s = c \<and> row_str s ''namespace'' = ns) \<and>
     holdsAll [(''replicaset'', rs), (''owner_kind'', ''Deployment'')] (sm_metric s) \<and>
     row_str s ''owner_name'' = dep \<and> rs \<noteq> [] \<and> dep \<noteq> []"
  by (auto simp: rsOffer_def Let_def)

lemma lookup_collapse:
  assumes "agrees ask rows mc l c" and "singleOffer (rsOffer mc) (set (rows QReplicaSetOwner))" and "snd ref \<noteq> []"
  shows "collapseRef ask l ref = Inr (collapse (rsToDeployment (rows QReplicaSetOwner) mc) c (par_Namespace (pl_req l)) ref)"
proof (cases "fst ref = ''ReplicaSet''")
  case True
  let ?fs = "[(''replicaset'', snd ref), (''owner_kind'', ''Deployment'')]"
  have fs: "distinct (map fst ?fs)" "fst ` set ?fs \<subseteq> filterNames" by (simp_all add: filterNames_def)
  have q: "QReplicaSetOwner \<in> set lookupQueries" by (simp only: lookupQueries_def list.set) simp
  obtain sets where sets: "runQuery ask l QReplicaSetOwner ?fs = Inr sets" and
    vals: "strOf ` set sets = strOf ` sm_metric `
      {s \<in> set (rows QReplicaSetOwner). (bucketed mc QReplicaSetOwner s = c \<and> row_str s ''namespace'' = par_Namespace (pl_req l)) \<and> holdsAll ?fs (sm_metric s)}"
    using agrees_answer [OF assms(1) q fs] .
  have "(\<lambda>m. gm_str m ''owner_name'') ` set sets - {[]} =
      offers (rsOffer mc) (set (rows QReplicaSetOwner)) (c, par_Namespace (pl_req l), snd ref)"
    unfolding strOf_label(2) [OF vals not_name(1) not_name(1)] offers_def rsOffer_Some
    using assms(3) by (auto simp del: holdsAll_simps)
  then show ?thesis
    unfolding collapseRef_def collapse_def if_P [OF True] sets sum.case minLabel_eq rsToDeployment_least [OF assms(2)]
    by (simp split: option.split)
qed (simp add: collapseRef_def collapse_def)

lemma least_insert:
  fixes a b :: "'a :: linorder"
  assumes "finite S"
  shows "least (insert a (insert b S)) = least (insert (if a < b then a else b) S)"
proof -
  have "(if a < b then a else b) = min a b" by (simp add: min.absorb3 min.absorb2 not_less)
  moreover have "Min (insert a (insert b S)) = Min (insert (min a b) S)"
    using assms by (cases "S = {}") (simp_all add: min.assoc)
  ultimately show ?thesis by (simp add: least_def)
qed

lemma controllerOwnerLoop_least:
  assumes "\<forall>ref\<in>set refs. collapseRef ask l ref = Inr (f ref)"
  shows "controllerOwnerLoop ask l cur refs = Inr (least (set_option cur \<union> f ` set refs))"
  using assms
proof (induction refs arbitrary: cur)
  case Nil
  then show ?case by (cases cur) (simp_all add: least_def)
next
  case (Cons ref refs)
  then show ?case using least_insert [of "f ` set refs" "f ref"]
    by (cases cur) (simp_all add: ownerLess_less insert_commute)
qed

lemma offers_image: "{v. \<exists>a\<in>A. P a \<and> Q (f a) \<and> g (f a) = v} = g ` {x \<in> f ` {a \<in> A. P a}. Q x}"
  by auto

lemma ownerOffer_Some:
  "ownerOffer rsDep mc s = Some ((c, ns, pod), o') \<longleftrightarrow>
     ((bucketed mc QPodOwner s = c \<and> row_str s ''namespace'' = ns) \<and>
      holdsAll [(''pod'', pod), (''owner_is_controller'', ''true'')] (sm_metric s)) \<and>
     (pod \<noteq> [] \<and> row_str s ''owner_kind'' \<noteq> [] \<and> row_str s ''owner_name'' \<noteq> []) \<and>
     collapse rsDep c ns (row_str s ''owner_kind'', row_str s ''owner_name'') = o'"
  by (auto simp: ownerOffer_def collapse_def Let_def split: if_splits option.splits)

lemma lookup_owner:
  assumes "agrees ask rows mc l c" and "singleOffer (rsOffer mc) (set (rows QReplicaSetOwner))" and "pod \<noteq> []"
    and "strOf ` set owners = strOf ` sm_metric `
      {s \<in> set (rows QPodOwner). (bucketed mc QPodOwner s = c \<and> row_str s ''namespace'' = par_Namespace (pl_req l)) \<and>
         holdsAll [(''pod'', pod), (''owner_is_controller'', ''true'')] (sm_metric s)}"
  shows "controllerOwner ask l owners =
    Inr (gm_get (resolvePodOwners (rows QPodOwner) (rows QReplicaSetOwner) mc) (c, par_Namespace (pl_req l), pod))"
proof -
  let ?ns = "par_Namespace (pl_req l)" and ?rs = "rsToDeployment (rows QReplicaSetOwner) mc"
  let ?R = "{s \<in> set (rows QPodOwner). (bucketed mc QPodOwner s = c \<and> row_str s ''namespace'' = ?ns) \<and>
         holdsAll [(''pod'', pod), (''owner_is_controller'', ''true'')] (sm_metric s)}"
  define refs where "refs = List.map_filter (\<lambda>s. let k = gm_str s ''owner_kind''; n = gm_str s ''owner_name'' in
            if k \<noteq> [] \<and> n \<noteq> [] then Some (k, n) else None) owners"
  define ok where "ok = (\<lambda>(k, n). k \<noteq> ([] :: string) \<and> n \<noteq> ([] :: string))"
  have "set refs = {x \<in> (\<lambda>m. (gm_str m ''owner_kind'', gm_str m ''owner_name'')) ` set owners. ok x}"
    unfolding refs_def List.map_filter_def ok_def by (auto simp: Let_def)
  also have "\<dots> = {x \<in> (\<lambda>s. (row_str s ''owner_kind'', row_str s ''owner_name'')) ` ?R. ok x}"
    unfolding strOf_label(1) [OF assms(4) not_name(2) not_name(1)] image_image ..
  finally have refs: "set refs = {x \<in> (\<lambda>s. (row_str s ''owner_kind'', row_str s ''owner_name'')) ` ?R. ok x}" .
  have "\<forall>ref\<in>set (Compact (sort refs)). collapseRef ask l ref = Inr (collapse ?rs c ?ns ref)"
    using lookup_collapse [OF assms(1,2)] by (auto simp: refs ok_def)
  from controllerOwnerLoop_least [OF this, of None]
  have loop: "controllerOwner ask l owners = Inr (least (collapse ?rs c ?ns ` set refs))"
    unfolding controllerOwner_def Let_def refs_def [unfolded Let_def, symmetric] by simp
  have offer: "ownerOffer ?rs mc s = Some ((c, ?ns, pod), x) \<longleftrightarrow>
      ((bucketed mc QPodOwner s = c \<and> row_str s ''namespace'' = ?ns) \<and>
       holdsAll [(''pod'', pod), (''owner_is_controller'', ''true'')] (sm_metric s)) \<and>
      ok (row_str s ''owner_kind'', row_str s ''owner_name'') \<and>
      collapse ?rs c ?ns (row_str s ''owner_kind'', row_str s ''owner_name'') = x" for s x
    unfolding ownerOffer_Some ok_def using assms(3) by (simp only: prod.case simp_thms)
  have "offers (ownerOffer ?rs mc) (set (rows QPodOwner)) (c, ?ns, pod) = collapse ?rs c ?ns ` set refs"
    unfolding offers_def offer refs by (rule offers_image)
  then show ?thesis unfolding loop resolvePodOwners_def ownerLess_less pick_least by simp
qed

text \<open>With sources that agree on the names it asks for, the owner's Application is the same.\<close>

lemma lookup_application:
  assumes "agrees ask rows mc l c" and "snd o' \<noteq> []" and "fst pod = c" and "fst (snd pod) = par_Namespace (pl_req l)"
  shows "resolveOwnerApplication (lookupSource ask l) (fst o') (snd o') =
    Inr (ownerApp (resolveControllerApplications (vectorsOf rows) mc) (resolveJobCronJobOwners (rows QJobOwner) mc) False pod o')"
proof -
  have job: "cronJob \<noteq> []" if "gm_get (resolveJobCronJobOwners (rows QJobOwner) mc) k = Some cronJob" for k cronJob
    using that unfolding resolveJobCronJobOwners_def smallest.pickAll_Some smallest.best_def offers_def
    by (auto simp: jobOffer_def Let_def split: if_splits)
  show ?thesis
    unfolding resolveOwnerApplication_def lookupSource_def ownerAppSource.simps lookup_controllerApp [OF assms(1,2)]
      lookup_cronJobOf [OF assms(1,2)] ownerApp_def assms(3,4)
    using lookup_controllerApp [OF assms(1) job, of _ _ "''CronJob''"]
    by (auto simp: gm_str_get split: option.split)
qed

lemma pinScope_spec:
  assumes "owners \<noteq> []" and "m0 \<in> set owners"
    and "\<forall>m\<in>set owners. pinHolds (pl_az l) (lk_AZ (pl_keys l)) m \<and> pinHolds (pl_env l) (lk_Env (pl_keys l)) m"
  shows "pinScope l owners =
    (if \<exists>m\<in>set owners. (gm_str m (lk_AZ (pl_keys l)), gm_str m (lk_Env (pl_keys l))) \<noteq>
           (gm_str m0 (lk_AZ (pl_keys l)), gm_str m0 (lk_Env (pl_keys l)))
     then None
     else Some (l\<lparr> pl_az := Some (gm_str m0 (lk_AZ (pl_keys l))), pl_env := Some (gm_str m0 (lk_Env (pl_keys l))) \<rparr>))"
proof -
  obtain o1 os where o1: "owners = o1 # os" using assms(1) by (cases owners) auto
  let ?h = "\<lambda>m. (gm_str m (lk_AZ (pl_keys l)), gm_str m (lk_Env (pl_keys l)))"
  have same: "pl_az l = None \<and> gm_str m (lk_AZ (pl_keys l)) \<noteq> gm_str o1 (lk_AZ (pl_keys l)) \<or>
      pl_env l = None \<and> gm_str m (lk_Env (pl_keys l)) \<noteq> gm_str o1 (lk_Env (pl_keys l)) \<longleftrightarrow> ?h m \<noteq> ?h o1"
    if "m \<in> set owners" for m
    using assms(3) that unfolding o1 pinHolds_def by (cases "pl_az l"; cases "pl_env l") auto
  have "list_ex (\<lambda>m. pl_az l = None \<and> gm_str m (lk_AZ (pl_keys l)) \<noteq> gm_str o1 (lk_AZ (pl_keys l)) \<or>
      pl_env l = None \<and> gm_str m (lk_Env (pl_keys l)) \<noteq> gm_str o1 (lk_Env (pl_keys l))) os \<longleftrightarrow> (\<exists>m\<in>set owners. ?h m \<noteq> ?h o1)"
    unfolding list_ex_iff using same by (auto simp: o1)
  also have "\<dots> \<longleftrightarrow> (\<exists>m\<in>set owners. ?h m \<noteq> ?h m0)" using assms(2) unfolding o1 by (metis list.set_intros(1))
  finally have ex: "list_ex (\<lambda>m. pl_az l = None \<and> gm_str m (lk_AZ (pl_keys l)) \<noteq> gm_str o1 (lk_AZ (pl_keys l)) \<or>
      pl_env l = None \<and> gm_str m (lk_Env (pl_keys l)) \<noteq> gm_str o1 (lk_Env (pl_keys l))) os \<longleftrightarrow> (\<exists>m\<in>set owners. ?h m \<noteq> ?h m0)" .
  have pins: "(case pl_az l of None \<Rightarrow> Some (gm_str o1 (lk_AZ (pl_keys l))) | Some v \<Rightarrow> Some v) = Some (gm_str o1 (lk_AZ (pl_keys l)))"
    "(case pl_env l of None \<Rightarrow> Some (gm_str o1 (lk_Env (pl_keys l))) | Some v \<Rightarrow> Some v) = Some (gm_str o1 (lk_Env (pl_keys l)))"
    using assms(3) unfolding o1 pinHolds_def by (auto split: option.splits)
  show ?thesis
  proof (cases "\<exists>m\<in>set owners. ?h m \<noteq> ?h m0")
    case True
    then show ?thesis using ex unfolding pinScope_def Let_def by (simp only: o1 list.sel if_P)
  next
    case False
    then have "?h o1 = ?h m0" unfolding o1 by auto
    then show ?thesis using ex False pins unfolding pinScope_def Let_def by (simp only: o1 list.sel if_False prod.inject)
  qed
qed

lemma pinHolds_cong: "gm_str m k = gm_str m' k \<Longrightarrow> pinHolds p k m = pinHolds p k m'"
  by (simp add: pinHolds_def split: option.split)

definition requested :: "PodApplicationRequest \<Rightarrow> 'f Row \<Rightarrow> bool" where
  "requested req s = (let k = OrDefault (par_LabelKeys req) in
     row_str s ''cluster'' = par_Cluster req \<and> row_str s ''namespace'' = par_Namespace req \<and>
     row_str s ''pod'' = par_Pod req \<and> row_str s ''owner_is_controller'' = ''true'' \<and>
     pinHolds (pinOf (par_AZ req)) (lk_AZ k) (sm_metric s) \<and> pinHolds (pinOf (par_Env req)) (lk_Env k) (sm_metric s))"

lemma podApplications_str:
  "gm_str (podApplications [] ov rv v jv False mc) pod =
     (case gm_get (resolvePodOwners ov rv mc) pod of None \<Rightarrow> []
      | Some o' \<Rightarrow> ownerApp (resolveControllerApplications v mc) (resolveJobCronJobOwners jv mc) False pod o')"
  unfolding podApplications_def gm_str_get resolvePodApplications_get [OF gm_wf_Nil resolvePodOwners_wf]
  by (simp split: option.split)

lemma owner_named:
  assumes "singleOffer (rsOffer mc) (set rv)" and "gm_get (resolvePodOwners ov rv mc) (c, ns, pod) = Some o'"
  shows "snd o' \<noteq> []"
proof -
  have "o' \<in> offers (ownerOffer (rsToDeployment rv mc) mc) (set ov) (c, ns, pod)"
    using assms(2) unfolding resolvePodOwners_def owner.pickAll_Some owner.best_def by blast
  then have "\<exists>kind name. name \<noteq> [] \<and> collapse (rsToDeployment rv mc) c ns (kind, name) = o'"
    unfolding offers_def ownerOffer_Some by (elim CollectE bexE conjE) (intro exI conjI, assumption+)
  then obtain kind name where "name \<noteq> []" and o': "collapse (rsToDeployment rv mc) c ns (kind, name) = o'"
    by (elim exE conjE)
  moreover have "dep \<noteq> []" if "gm_get (rsToDeployment rv mc) (c, ns, rs) = Some dep" for rs dep
    using that unfolding rsToDeployment_get [OF assms(1)] offers_def rsOffer_Some by auto
  ultimately show ?thesis unfolding collapse_def by (auto split: if_splits option.splits)
qed

lemma split_request:
  assumes "r = (C \<and> N \<and> P \<and> T \<and> A \<and> E)" and "r \<Longrightarrow> H" and "H \<Longrightarrow> A \<and> E" and "h = (P \<and> T)"
  shows "r \<longleftrightarrow> (H \<and> C) \<and> N \<and> h"
  using assms by blast

lemma collect_same: "(\<And>s. s \<in> A \<Longrightarrow> P s \<longleftrightarrow> Q s) \<Longrightarrow> {s \<in> A. P s} = {s \<in> A. Q s}"
  by blast

lemma ex_image: "(\<exists>a\<in>A. h a \<noteq> y) \<longleftrightarrow> (\<exists>x\<in>h ` A. x \<noteq> y)"
  by auto

lemma lookup_pinned:
  assumes "agrees ask rows mc l c" and "singleOffer (rsOffer mc) (set (rows QReplicaSetOwner))" and "pod \<noteq> []"
    and "strOf ` set owners = strOf ` sm_metric `
      {s \<in> set (rows QPodOwner). (bucketed mc QPodOwner s = c \<and> row_str s ''namespace'' = par_Namespace (pl_req l)) \<and>
         holdsAll [(''pod'', pod), (''owner_is_controller'', ''true'')] (sm_metric s)}"
  shows "(case controllerOwner ask l owners of
      Inl e \<Rightarrow> Inl e
    | Inr None \<Rightarrow> Inr []
    | Inr (Some ref) \<Rightarrow> resolveOwnerApplication (lookupSource ask l) (fst ref) (snd ref)) =
    Inr (gm_str (podApplications [] (rows QPodOwner) (rows QReplicaSetOwner) (vectorsOf rows) (rows QJobOwner) False mc)
      (c, par_Namespace (pl_req l), pod))"
proof (cases "gm_get (resolvePodOwners (rows QPodOwner) (rows QReplicaSetOwner) mc) (c, par_Namespace (pl_req l), pod)")
  case None
  then show ?thesis unfolding lookup_owner [OF assms] podApplications_str by simp
next
  case (Some o')
  note name = owner_named [OF assms(2) Some]
  show ?thesis
    using lookup_application [OF assms(1) name, of "(c, par_Namespace (pl_req l), pod)"]
    unfolding lookup_owner [OF assms] podApplications_str Some by simp
qed

section \<open>The metadata metric\<close>

lemma podApplications_metric:
  assumes "gm_wf m"
  shows "gm_str (podApplications m ov rv v jv False mc) pod =
     (if gm_str m pod \<noteq> [] then gm_str m pod else gm_str (podApplications [] ov rv v jv False mc) pod)"
  unfolding podApplications_def gm_str_get resolvePodApplications_get [OF assms resolvePodOwners_wf]
    resolvePodApplications_get [OF gm_wf_Nil resolvePodOwners_wf]
  by (simp add: gm_str_get)

text \<open>The querier answers the metadata metric from the rows the build read.\<close>

definition answersMetadata :: "(LabelQuery \<Rightarrow> 'e + labels list) \<Rightarrow> AppMetadataSource \<Rightarrow> 'f Row list \<Rightarrow> bool" where
  "answersMetadata ask src rows = (\<forall>q. lq_Family q = FamilyAppMeta \<and> lq_Metric q = am_Metric src \<longrightarrow> (\<exists>sets. ask q = Inr sets \<and>
     strOf ` set sets = strOf ` sm_metric ` {s \<in> set rows. matchesQuery q (sm_metric s)}))"

lemma applyScope_matches:
  assumes keys: "pl_keys l = OrDefault (lq_LabelKeys r)" and "lq_AZ r = []" and "lk_AZ (pl_keys l) \<noteq> lk_Env (pl_keys l)"
    and az: "lk_AZ (pl_keys l) \<notin> fst ` set (lq_Filters r)" and env: "lk_Env (pl_keys l) \<notin> fst ` set (lq_Filters r)"
  shows "matchesQuery (applyScope l r) m \<longleftrightarrow>
    holdsAll (lq_Filters r) m \<and> pinHolds (pl_az l) (lk_AZ (pl_keys l)) m \<and> pinHolds (pl_env l) (lk_Env (pl_keys l)) m"
proof -
  let ?az = "lk_AZ (pl_keys l)" and ?env = "lk_Env (pl_keys l)"
  define X where "X = (case pl_az l of None \<Rightarrow> r | Some v \<Rightarrow> if v \<noteq> [] then r\<lparr> lq_AZ := v \<rparr>
      else r\<lparr> lq_Filters := gm_put ?az [] (lq_Filters r) \<rparr>)"
  have X: "applyScope l r = (case pl_env l of None \<Rightarrow> X | Some v \<Rightarrow> X\<lparr> lq_Filters := gm_put ?env v (lq_Filters X) \<rparr>)"
    unfolding applyScope_def Let_def X_def by (rule refl)
  have envX: "?env \<notin> fst ` set (lq_Filters X)" and keysX: "lq_LabelKeys X = lq_LabelKeys r"
    and holdsX: "holdsAll (lq_Filters X) m \<and> (lq_AZ X \<noteq> [] \<longrightarrow> gm_str m ?az = lq_AZ X) \<longleftrightarrow>
      holdsAll (lq_Filters r) m \<and> pinHolds (pl_az l) ?az m"
    using env assms(2,3) by (auto simp: X_def pinHolds_def gm_put_new [OF az] split: option.split)
  show ?thesis
  proof (cases "pl_env l")
    case None
    then show ?thesis using holdsX unfolding X matchesQuery_def holdsAll_def [symmetric]
      by (simp add: keysX keys [symmetric] pinHolds_def [of None])
  next
    case (Some v)
    have "holdsAll (gm_put ?env v (lq_Filters X)) m \<longleftrightarrow> holdsAll (lq_Filters X) m \<and> gm_str m ?env = v"
      unfolding gm_put_new [OF envX] by auto
    then show ?thesis using holdsX Some unfolding X matchesQuery_def holdsAll_def [symmetric]
      by (auto simp: keysX keys [symmetric] pinHolds_def [of "Some v"])
  qed
qed

definition metadataQuery :: "podAppLookup \<Rightarrow> AppMetadataSource \<Rightarrow> LabelQuery" where
  "metadataQuery l src = applyScope l \<lparr> lq_Metric = am_Metric src, lq_Family = FamilyAppMeta, lq_AZ = [],
     lq_Filters = fold (\<lambda>(k, v). gm_put k v)
       [(''cluster'', par_Cluster (pl_req l)), (am_Namespace src, par_Namespace (pl_req l)), (am_Pod src, par_Pod (pl_req l))] [],
     lq_At = Some (par_At (pl_req l)), lq_Window = par_Window (pl_req l), lq_Limit = 0, lq_LabelKeys = par_LabelKeys (pl_req l) \<rparr>"

lemma appMetadataRows_query:
  "appMetadataRows ask l src = (case ask (metadataQuery l src) of Inl e \<Rightarrow> Inl (LookupFailed ''app_metadata'' e) | Inr sets \<Rightarrow> Inr sets)"
  unfolding appMetadataRows_def metadataQuery_def Let_def ..

text \<open>What validation says of a defaulted source.\<close>

definition plainSource :: "LabelKeys \<Rightarrow> AppMetadataSource \<Rightarrow> bool" where
  "plainSource k src = (am_Namespace src \<noteq> am_Pod src \<and> am_App src \<noteq> [] \<and>
     (\<forall>x\<in>{am_Namespace src, am_Pod src}. x \<noteq> [] \<and> x \<noteq> ''cluster'' \<and> x \<noteq> lk_AZ k \<and> x \<noteq> lk_Env k))"

lemma cmpOr_twice: "cmpOr (cmpOr a b) b = cmpOr a b"
  by (simp add: cmpOr_def)

lemma sourceOrDefault_twice: "sourceOrDefault (sourceOrDefault s) = sourceOrDefault s"
  by (simp add: sourceOrDefault_def cmpOr_twice)

lemma valid_plainSource:
  assumes "ValidateSource (sourceOrDefault s) keys = None"
  shows "plainSource (OrDefault keys) (sourceOrDefault s)"
proof -
  let ?s = "sourceOrDefault s"
  have fields: "\<forall>l\<in>snd ` set (sourceFields ?s). labelNameRe l \<and> l \<noteq> ''cluster'' \<and> l \<noteq> lk_AZ (OrDefault keys) \<and> l \<noteq> lk_Env (OrDefault keys)"
    and distinct: "distinct (map snd (sourceFields ?s))"
    using assms validateFields_None [of "OrDefault keys" "[]" "sourceFields ?s"] unfolding ValidateSource_def sourceOrDefault_twice
    by (auto split: if_splits)
  have "{am_App ?s, am_Namespace ?s, am_Pod ?s} \<subseteq> snd ` set (sourceFields ?s)" by (simp add: sourceFields_def)
  then have sub: "x \<noteq> [] \<and> x \<noteq> ''cluster'' \<and> x \<noteq> lk_AZ (OrDefault keys) \<and> x \<noteq> lk_Env (OrDefault keys)"
    if "x \<in> {am_App ?s, am_Namespace ?s, am_Pod ?s}" for x
    using fields labelNameRe_key that by blast
  have "am_Namespace ?s \<noteq> am_Pod ?s" using distinct by (simp add: sourceFields_def)
  then show ?thesis unfolding plainSource_def using sub by blast
qed

lemma metadata_matches:
  assumes "pl_keys l = OrDefault (par_LabelKeys (pl_req l))" and "lk_AZ (pl_keys l) \<noteq> lk_Env (pl_keys l)"
    and "lk_AZ (pl_keys l) \<noteq> ''cluster''" and "lk_Env (pl_keys l) \<noteq> ''cluster''" and src: "plainSource (pl_keys l) src"
  shows "matchesQuery (metadataQuery l src) m \<longleftrightarrow>
    gm_str m ''cluster'' = par_Cluster (pl_req l) \<and> gm_str m (am_Namespace src) = par_Namespace (pl_req l) \<and>
    gm_str m (am_Pod src) = par_Pod (pl_req l) \<and>
    pinHolds (pl_az l) (lk_AZ (pl_keys l)) m \<and> pinHolds (pl_env l) (lk_Env (pl_keys l)) m"
proof -
  have ne: "am_Namespace src \<noteq> am_Pod src" "am_Namespace src \<noteq> ''cluster''" "am_Pod src \<noteq> ''cluster''"
    "am_Namespace src \<noteq> lk_AZ (pl_keys l)" "am_Pod src \<noteq> lk_AZ (pl_keys l)" "am_Namespace src \<noteq> lk_Env (pl_keys l)" "am_Pod src \<noteq> lk_Env (pl_keys l)"
    using src by (auto simp: plainSource_def)
  have base: "fold (\<lambda>(k, v). gm_put k v)
       [(''cluster'', par_Cluster (pl_req l)), (am_Namespace src, par_Namespace (pl_req l)), (am_Pod src, par_Pod (pl_req l))] []
      = [(''cluster'', par_Cluster (pl_req l)), (am_Namespace src, par_Namespace (pl_req l)), (am_Pod src, par_Pod (pl_req l))]"
    by (subst fold_put_new) (use ne in auto)
  show ?thesis unfolding metadataQuery_def
    by (subst applyScope_matches) (use assms(1-4) ne in \<open>simp_all only: LabelQuery.simps base, auto\<close>)
qed

definition requestedMetadata :: "AppMetadataSource \<Rightarrow> PodApplicationRequest \<Rightarrow> 'f Row \<Rightarrow> bool" where
  "requestedMetadata src req s = (let k = OrDefault (par_LabelKeys req) in
     row_str s ''cluster'' = par_Cluster req \<and> row_str s (am_Namespace src) = par_Namespace req \<and> row_str s (am_Pod src) = par_Pod req \<and>
     pinHolds (pinOf (par_AZ req)) (lk_AZ k) (sm_metric s) \<and> pinHolds (pinOf (par_Env req)) (lk_Env k) (sm_metric s))"

lemma metadata_answer:
  assumes "answersMetadata ask src rows"
  obtains sets where "appMetadataRows ask l src = Inr sets"
    and "strOf ` set sets = strOf ` sm_metric ` {s \<in> set rows. matchesQuery (metadataQuery l src) (sm_metric s)}"
proof -
  have "lq_Family (metadataQuery l src) = FamilyAppMeta \<and> lq_Metric (metadataQuery l src) = am_Metric src"
    by (simp add: metadataQuery_def)
  from assms [unfolded answersMetadata_def, rule_format, OF this] obtain sets where
    "ask (metadataQuery l src) = Inr sets"
    "strOf ` set sets = strOf ` sm_metric ` {s \<in> set rows. matchesQuery (metadataQuery l src) (sm_metric s)}" by blast
  then show thesis by (intro that) (simp_all add: appMetadataRows_query)
qed

text \<open>On the rows of one pod the smallest Application of an answer is the index's.\<close>

lemma metadata_app:
  assumes "strOf ` set sets = strOf ` sm_metric ` {s \<in> set rows. bucketed mc QAppMetadata s = c \<and> row_str s (am_Namespace src) = ns \<and> row_str s (am_Pod src) = pod}"
    and "plainSource k src" and "am_App src \<noteq> MetricNameLabel" and "pod \<noteq> []"
  shows "minLabel sets (am_App src) = gm_get (ai_podApps (resolveAppMetadata rows src mc)) (c, ns, pod)"
proof -
  have ne: "am_Namespace src \<noteq> []" "am_Pod src \<noteq> []" "am_App src \<noteq> []" using assms(2) by (auto simp: plainSource_def)
  have "(\<lambda>m. gm_str m (am_App src)) ` set sets - {[]} = offers (podOffer src mc) (set rows) (c, ns, pod)"
    unfolding strOf_label(2) [OF assms(1,3,3)] offers_def
    using assms(4) ne by (auto simp: podOffer_def metricLabel_def Let_def split: if_splits)
  then show ?thesis by (simp add: minLabel_eq podApps_get)
qed

text \<open>Pinning the scope to the rows of an answer.\<close>

lemma pin_rows:
  assumes vals: "strOf ` set owners = strOf ` sm_metric ` set (s0 # ss)" and plain: "plainKeys (pl_keys l)"
    and cluster: "\<And>s. s \<in> set (s0 # ss) \<Longrightarrow> row_str s ''cluster'' = cl"
    and pins: "\<And>s. s \<in> set (s0 # ss) \<Longrightarrow> pinHolds (pl_az l) (lk_AZ (pl_keys l)) (sm_metric s) \<and> pinHolds (pl_env l) (lk_Env (pl_keys l)) (sm_metric s)"
  shows "owners \<noteq> []" and "pinScope l owners =
      (if list_ex (\<lambda>s. scopeLabels (pl_keys l) s \<noteq> scopeLabels (pl_keys l) s0) ss then None
       else Some (l\<lparr> pl_az := Some (row_str s0 (lk_AZ (pl_keys l))), pl_env := Some (row_str s0 (lk_Env (pl_keys l))) \<rparr>))"
proof -
  let ?k = "pl_keys l"
  let ?h = "\<lambda>m. (gm_str m (lk_AZ ?k), gm_str m (lk_Env ?k))"
  define m0 where "m0 = sm_metric s0"
  note pk = plainKeysD [OF plain]
  have h: "?h ` set owners = ?h ` sm_metric ` set (s0 # ss)" by (rule strOf_label(1) [OF vals pk(8,9)])
  have "?h m0 \<in> ?h ` set owners" unfolding h m0_def by simp
  then obtain m where m: "m \<in> set owners" "?h m = ?h m0" by force
  then show nonempty: "owners \<noteq> []" by auto
  have held: "\<forall>m\<in>set owners. pinHolds (pl_az l) (lk_AZ ?k) m \<and> pinHolds (pl_env l) (lk_Env ?k) m"
  proof
    fix m' assume "m' \<in> set owners"
    then have "?h m' \<in> ?h ` sm_metric ` set (s0 # ss)" unfolding h [symmetric] by (rule imageI)
    then obtain s where s: "s \<in> set (s0 # ss)" "?h m' = ?h (sm_metric s)" by blast
    show "pinHolds (pl_az l) (lk_AZ ?k) m' \<and> pinHolds (pl_env l) (lk_Env ?k) m'"
      using pins [OF s(1)] pinHolds_cong [of m' _ "sm_metric s"] s(2) unfolding prod.inject by blast
  qed
  define amb where "amb = (\<exists>s\<in>set (s0 # ss). ?h (sm_metric s) \<noteq> ?h m0)"
  have ex: "(\<exists>m'\<in>set owners. ?h m' \<noteq> ?h m) \<longleftrightarrow> amb"
    unfolding amb_def m(2) ex_image [of "set owners" ?h] h by auto
  have amb: "list_ex (\<lambda>s. scopeLabels ?k s \<noteq> scopeLabels ?k s0) ss \<longleftrightarrow> amb"
    unfolding amb_def m0_def list_ex_iff scopeLabels_def using cluster by auto
  have "l\<lparr> pl_az := Some (gm_str m (lk_AZ ?k)), pl_env := Some (gm_str m (lk_Env ?k)) \<rparr>
      = l\<lparr> pl_az := Some (row_str s0 (lk_AZ ?k)), pl_env := Some (row_str s0 (lk_Env ?k)) \<rparr>"
    using m(2) by (simp add: m0_def)
  then show "pinScope l owners =
      (if list_ex (\<lambda>s. scopeLabels ?k s \<noteq> scopeLabels ?k s0) ss then None
       else Some (l\<lparr> pl_az := Some (row_str s0 (lk_AZ ?k)), pl_env := Some (row_str s0 (lk_Env ?k)) \<rparr>))"
    using pinScope_spec [OF nonempty m(1) held] unfolding ex amb by simp
qed

text \<open>When all requested rows of a query lie in one scope, they are the rows of the first one's cluster.\<close>

lemma scoped_rows:
  assumes ids: "identifies mc k rows" and q0: "q0 \<in> {QPodOwner, QAppMetadata}" and s0: "s0 \<in> set (rows q0)"
    and q: "q \<in> set (QAppMetadata # lookupQueries)" and s: "s \<in> set (rows q)"
  shows "bucketed mc q s = bucketed mc q0 s0 \<longleftrightarrow>
    row_str s (lk_AZ k) = row_str s0 (lk_AZ k) \<and> row_str s (lk_Env k) = row_str s0 (lk_Env k) \<and> row_str s ''cluster'' = row_str s0 ''cluster''"
  using ids [unfolded identifies_def, THEN bspec, OF q0, THEN bspec, OF s0, THEN bspec, OF q, THEN bspec, OF s]
  unfolding scopeLabels_def prod.inject .

lemma one_scope:
  assumes "\<And>s. s \<in> A \<Longrightarrow> R s \<longleftrightarrow> cl s = C \<and> P s \<and> pinHolds paz az (sm_metric s) \<and> pinHolds penv env (sm_metric s)"
    and "\<And>s. s \<in> A \<Longrightarrow> R s \<Longrightarrow> row_str s az = row_str s0 az \<and> row_str s env = row_str s0 env"
    and "\<And>s. s \<in> A \<Longrightarrow> B s \<longleftrightarrow> row_str s az = row_str s0 az \<and> row_str s env = row_str s0 env \<and> cl s = C"
    and "s0 \<in> A" and "R s0"
  shows "{s \<in> A. R s} = {s \<in> A. B s \<and> P s}"
proof (rule collect_same)
  fix s assume s: "s \<in> A"
  have "pinHolds paz az (sm_metric s) \<and> pinHolds penv env (sm_metric s)" if "row_str s az = row_str s0 az" "row_str s env = row_str s0 env"
    using pinHolds_cong [OF that(1)] pinHolds_cong [OF that(2)] assms(1) [OF assms(4)] assms(5) by simp
  then show "R s \<longleftrightarrow> B s \<and> P s" using assms(1-3) [OF s] by blast
qed

text \<open>The pod Applications of a build that reads the metric exactly when the lookup does, and one pod's.\<close>

definition metricApps :: "(Family \<Rightarrow> bool) option \<Rightarrow> PodApplicationRequest \<Rightarrow> ('f :: linorder) Row list \<Rightarrow> clusterResolver \<Rightarrow> (podNameKey, string) gomap" where
  "metricApps fserver req vec mc =
     (case par_AppMetadata req of
        None \<Rightarrow> []
      | Some src \<Rightarrow> if lookupUsesAppMetadata fserver (Some src) then ai_podApps (resolveAppMetadata vec (sourceOrDefault src) mc) else [])"

definition buildApp ::
  "(Family \<Rightarrow> bool) option \<Rightarrow> PodApplicationRequest \<Rightarrow> (Query \<Rightarrow> ('f :: linorder) Row list) \<Rightarrow> clusterResolver \<Rightarrow> string \<Rightarrow> string" where
  "buildApp fserver req rows mc cluster =
     gm_str (podApplications (metricApps fserver req (rows QAppMetadata) mc) (rows QPodOwner) (rows QReplicaSetOwner) (vectorsOf rows)
         (rows QJobOwner) False mc) (cluster, par_Namespace req, par_Pod req)"

lemma buildApp_steps:
  "buildApp fserver req rows mc c =
     (case gm_get (metricApps fserver req (rows QAppMetadata) mc) (c, par_Namespace req, par_Pod req) of
        Some app \<Rightarrow> app
      | None \<Rightarrow> gm_str (podApplications [] (rows QPodOwner) (rows QReplicaSetOwner) (vectorsOf rows) (rows QJobOwner) False mc)
          (c, par_Namespace req, par_Pod req))"
proof -
  let ?m = "metricApps fserver req (rows QAppMetadata) mc"
  have wf: "gm_wf ?m" by (simp add: metricApps_def podApps_wf split: option.split)
  have "app \<noteq> []" if got: "gm_get ?m k = Some app" for k app
  proof -
    obtain src where "least (offers (podOffer src mc) (set (rows QAppMetadata)) k) = Some app"
      using got by (auto simp: metricApps_def podApps_get split: option.splits if_splits)
    then have "app \<in> offers (podOffer src mc) (set (rows QAppMetadata)) k" by (rule least_in [OF offers_finite [OF finite_set]])
    then show ?thesis by (auto simp: offers_def podOffer_def Let_def split: if_splits)
  qed
  then show ?thesis unfolding buildApp_def podApplications_metric [OF wf] by (simp add: gm_str_get split: option.split)
qed

text \<open>
  C9: the on-demand lookup gives the Application the build gives the pod, with and without an application-metadata
  source, when the querier answers from the rows the build read and the build read the metric exactly when the
  lookup does. Owner rows of several zones or environments are ambiguous, otherwise the answer is the
  build's; a pod without owner rows has no Application unless the metric is read, and then its metric rows
  decide in the same way. Zone and environment keys are none of the labels the queries use, the source's
  application label is not the metric name, and the build's identities tell clusters apart exactly as zone,
  environment and cluster label do. A ReplicaSet owned by two Deployments is excluded: the lookup takes the
  smaller, the build the last (\<open>lookup_not_last_deployment\<close>).
\<close>

theorem lookup_refines_build:
  assumes "answersFrom ask rows"
    and "\<forall>src. par_AppMetadata req = Some src \<longrightarrow>
      answersMetadata ask (sourceOrDefault src) (rows QAppMetadata) \<and> am_App (sourceOrDefault src) \<noteq> MetricNameLabel"
    and "validateRequest (req\<lparr> par_AppMetadata := map_option sourceOrDefault (par_AppMetadata req) \<rparr>) = (None :: 'e LookupError option)"
    and "plainKeys (OrDefault (par_LabelKeys req))" and "identifies mc (OrDefault (par_LabelKeys req)) rows"
    and "singleOffer (rsOffer mc) (set (rows QReplicaSetOwner))"
  shows "(ResolvePodApplication ask fserver req :: 'e LookupError + string) =
    (let differs = (\<lambda>s0 s. scopeLabels (OrDefault (par_LabelKeys req)) s \<noteq> scopeLabels (OrDefault (par_LabelKeys req)) s0) in
     case filter (requested req) (rows QPodOwner) of
       s0 # ss \<Rightarrow> if list_ex (differs s0) ss then Inl AmbiguousPod else Inr (buildApp fserver req rows mc (bucketed mc QPodOwner s0))
     | [] \<Rightarrow>
         if \<not> lookupUsesAppMetadata fserver (par_AppMetadata req) then Inr []
         else case filter (requestedMetadata (sourceOrDefault (the (par_AppMetadata req))) req) (rows QAppMetadata) of
           [] \<Rightarrow> Inr []
         | s0 # ss \<Rightarrow> if list_ex (differs s0) ss then Inl AmbiguousPod else Inr (buildApp fserver req rows mc (bucketed mc QAppMetadata s0)))"
proof -
  let ?k = "OrDefault (par_LabelKeys req)" and ?fs = "[(''pod'', par_Pod req), (''owner_is_controller'', ''true'')]"
  let ?use = "lookupUsesAppMetadata fserver (par_AppMetadata req)"
  define req' where "req' = req\<lparr> par_AppMetadata := map_option sourceOrDefault (par_AppMetadata req) \<rparr>"
  define src where "src = sourceOrDefault (the (par_AppMetadata req))"
  define l where "l = \<lparr> pl_req = req', pl_keys = ?k, pl_az = pinOf (par_AZ req), pl_env = pinOf (par_Env req) \<rparr>"
  have l: "pl_req l = req'" "pl_keys l = ?k" "pl_az l = pinOf (par_AZ req)" "pl_env l = pinOf (par_Env req)" by (simp_all add: l_def)
  have r: "par_Cluster req' = par_Cluster req" "par_Namespace req' = par_Namespace req" "par_Pod req' = par_Pod req"
    "par_LabelKeys req' = par_LabelKeys req" "par_AZ req' = par_AZ req" "par_Env req' = par_Env req" by (simp_all add: req'_def)
  have pod: "par_Pod req \<noteq> []" using assms(3) by (simp add: validateRequest_def split: if_splits)
  note pk = plainKeysD [OF assms(4)]
  have fs: "distinct (map fst ?fs)" "fst ` set ?fs \<subseteq> filterNames" by (simp_all add: filterNames_def)
  have m: "matchesQuery (lookupQuery l QPodOwner ?fs) (sm_metric s) \<longleftrightarrow> requested req s" for s
    using lookup_matches [of l ?fs QPodOwner "sm_metric s"] fs assms(4) unfolding requested_def Let_def l r by auto
  obtain owners where owners: "runQuery ask l QPodOwner ?fs = Inr owners"
    and vals: "strOf ` set owners = strOf ` sm_metric ` {s \<in> set (rows QPodOwner). requested req s}"
    using answer_values [OF assms(1), of l QPodOwner ?fs] unfolding m .
  have use: "lookupUsesAppMetadata fserver (map_option sourceOrDefault (par_AppMetadata req)) = ?use"
    by (simp add: lookupUsesAppMetadata_def)
  have run: "(ResolvePodApplication ask fserver req :: 'e LookupError + string) =
    (if owners = [] then
       (if \<not> ?use then Inr []
        else case appMetadataRows ask l src of
          Inl e \<Rightarrow> Inl e
        | Inr sets \<Rightarrow> if sets = [] then Inr []
            else case pinScope l sets of None \<Rightarrow> Inl AmbiguousPod | Some _ \<Rightarrow> Inr (case minLabel sets (am_App src) of Some app \<Rightarrow> app | None \<Rightarrow> []))
     else case pinScope l owners of
         None \<Rightarrow> Inl AmbiguousPod
       | Some l \<Rightarrow>
           (case (if ?use then (case appMetadataRows ask l src of Inl e \<Rightarrow> Inl e | Inr sets \<Rightarrow> Inr (minLabel sets (am_App src))) else Inr None) of
              Inl e \<Rightarrow> Inl e
            | Inr (Some app) \<Rightarrow> Inr app
            | Inr None \<Rightarrow>
               (case controllerOwner ask l owners of
                  Inl e \<Rightarrow> Inl e
                | Inr None \<Rightarrow> Inr []
                | Inr (Some ref) \<Rightarrow> resolveOwnerApplication (lookupSource ask l) (fst ref) (snd ref))))"
  proof -
    have the: "?use \<Longrightarrow> the (map_option sourceOrDefault (par_AppMetadata req)) = src"
      by (auto simp: src_def lookupUsesAppMetadata_def)
    have sel: "par_AppMetadata req' = map_option sourceOrDefault (par_AppMetadata req)" by (simp add: req'_def)
    show ?thesis
      unfolding ResolvePodApplication_def req'_def [symmetric] Let_def assms(3) [folded req'_def] option.case r sel use l_def [symmetric] owners sum.case
      by (cases ?use) (simp_all only: the if_True if_False simp_thms)
  qed
  have metadata: "answersMetadata ask src (rows QAppMetadata)" "am_App src \<noteq> MetricNameLabel" "plainSource ?k src"
    "metricApps fserver req (rows QAppMetadata) mc = ai_podApps (resolveAppMetadata (rows QAppMetadata) src mc)" if used: "?use"
  proof -
    obtain s where s: "par_AppMetadata req = Some s" using used by (auto simp: lookupUsesAppMetadata_def)
    then have src: "src = sourceOrDefault s" by (simp add: src_def)
    have "ValidateSource src (par_LabelKeys req) = None"
      using assms(3) by (auto simp: validateRequest_def s src split: if_splits option.splits)
    then show "plainSource ?k src" unfolding src by (rule valid_plainSource)
    show "answersMetadata ask src (rows QAppMetadata)" "am_App src \<noteq> MetricNameLabel" using assms(2) s src by simp_all
    show "metricApps fserver req (rows QAppMetadata) mc = ai_podApps (resolveAppMetadata (rows QAppMetadata) src mc)"
      using that by (simp add: metricApps_def s src)
  qed
  have unused: "metricApps fserver req (rows QAppMetadata) mc = []" if "\<not> ?use"
    using that by (cases "par_AppMetadata req") (simp_all add: metricApps_def)
  show ?thesis
  proof (cases "filter (requested req) (rows QPodOwner)")
    case (Cons s0 ss)
    have R: "{s \<in> set (rows QPodOwner). requested req s} = set (s0 # ss)" using arg_cong [OF Cons, of set] by simp
    have s0: "s0 \<in> set (rows QPodOwner)" "requested req s0" using R by auto
    have cl: "row_str s ''cluster'' = par_Cluster req" if "s \<in> set (s0 # ss)" for s
      using that R unfolding requested_def Let_def by (auto simp del: list.set)
    have pins: "pinHolds (pl_az l) (lk_AZ (pl_keys l)) (sm_metric s) \<and> pinHolds (pl_env l) (lk_Env (pl_keys l)) (sm_metric s)"
      if "s \<in> set (s0 # ss)" for s
      using that R unfolding requested_def Let_def l by (auto simp del: list.set)
    note scope = pin_rows [OF vals [unfolded R] assms(4) [folded l(2)] cl pins, unfolded l(2)]
    show ?thesis
    proof (cases "list_ex (\<lambda>s. scopeLabels ?k s \<noteq> scopeLabels ?k s0) ss")
      case True
      have "pinScope l owners = None" using scope(2) unfolding if_P [OF True] .
      then show ?thesis using True scope(1) unfolding run Cons list.case Let_def by simp
    next
      case False
      define l' where "l' = l\<lparr> pl_az := Some (row_str s0 (lk_AZ ?k)), pl_env := Some (row_str s0 (lk_Env ?k)) \<rparr>"
      have pin: "pinScope l owners = Some l'" using scope(2) unfolding if_not_P [OF False] l'_def .
      have l': "pl_req l' = req'" "pl_keys l' = ?k" "pl_az l' = Some (row_str s0 (lk_AZ ?k))" "pl_env l' = Some (row_str s0 (lk_Env ?k))"
        by (simp_all add: l'_def l)
      let ?c = "bucketed mc QPodOwner s0"
      note ids = scoped_rows [OF assms(5) insertI1 s0(1)]
      have "inScope l' s \<longleftrightarrow> bucketed mc q s = ?c \<and> row_str s ''namespace'' = par_Namespace (pl_req l')"
        if "q \<in> set lookupQueries" "s \<in> set (rows q)" for q s
        unfolding inScope_def l' r ids [OF list.set_intros(2) [OF that(1)] that(2)] cl [OF list.set_intros(1)] option.inject by auto
      then have agree: "agrees ask rows mc l' ?c"
        unfolding agrees_def l' r pinned_def using assms(1,4) by (simp only: option.distinct simp_thms) blast
      have same: "row_str s (lk_AZ ?k) = row_str s0 (lk_AZ ?k) \<and> row_str s (lk_Env ?k) = row_str s0 (lk_Env ?k)"
        if "s \<in> set (rows QPodOwner)" "requested req s" for s
      proof -
        have "s \<in> set (s0 # ss)" unfolding R [symmetric] using that by simp
        then show ?thesis using False unfolding list_ex_iff scopeLabels_def by auto
      qed
      have q: "QPodOwner \<in> set (QAppMetadata # lookupQueries)" by (simp only: lookupQueries_def list.set) simp
      have "{s \<in> set (rows QPodOwner). requested req s} =
          {s \<in> set (rows QPodOwner). bucketed mc QPodOwner s = ?c \<and> (row_str s ''namespace'' = par_Namespace req \<and> holdsAll ?fs (sm_metric s))}"
        by (rule one_scope [where R = "requested req" and B = "\<lambda>s. bucketed mc QPodOwner s = ?c"
            and cl = "\<lambda>s. row_str s ''cluster''" and C = "par_Cluster req"
            and P = "\<lambda>s. row_str s ''namespace'' = par_Namespace req \<and> holdsAll ?fs (sm_metric s)"
            and paz = "pinOf (par_AZ req)" and az = "lk_AZ ?k" and penv = "pinOf (par_Env req)" and env = "lk_Env ?k",
            OF _ same _ s0])
          ((auto simp: requested_def Let_def) [1], assumption, assumption, rule trans [OF ids [OF q]], assumption, simp only: cl [OF list.set_intros(1)])
      then have eq: "{s \<in> set (rows QPodOwner). requested req s} =
          {s \<in> set (rows QPodOwner). (bucketed mc QPodOwner s = ?c \<and> row_str s ''namespace'' = par_Namespace (pl_req l')) \<and> holdsAll ?fs (sm_metric s)}"
        unfolding l'(1) r by (simp only: conj_assoc)
      have chain: "(case controllerOwner ask l' owners of
            Inl e \<Rightarrow> Inl e
          | Inr None \<Rightarrow> Inr []
          | Inr (Some ref) \<Rightarrow> resolveOwnerApplication (lookupSource ask l') (fst ref) (snd ref)) =
          (Inr (gm_str (podApplications [] (rows QPodOwner) (rows QReplicaSetOwner) (vectorsOf rows) (rows QJobOwner) False mc)
            (?c, par_Namespace req, par_Pod req)) :: 'e LookupError + string)"
        using lookup_pinned [OF agree assms(6) pod vals [unfolded eq]] unfolding l'(1) r .
      have metric: "(if ?use then (case appMetadataRows ask l' src of Inl e \<Rightarrow> Inl e | Inr sets \<Rightarrow> Inr (minLabel sets (am_App src))) else Inr None)
          = (Inr (gm_get (metricApps fserver req (rows QAppMetadata) mc) (?c, par_Namespace req, par_Pod req)) :: 'e LookupError + string option)"
      proof (cases ?use)
        case True
        obtain sets where sets: "appMetadataRows ask l' src = Inr sets" and
          mv: "strOf ` set sets = strOf ` sm_metric ` {s \<in> set (rows QAppMetadata). matchesQuery (metadataQuery l' src) (sm_metric s)}"
          using metadata_answer [OF metadata(1) [OF True]] .
        have "{s \<in> set (rows QAppMetadata). matchesQuery (metadataQuery l' src) (sm_metric s)} =
            {s \<in> set (rows QAppMetadata). bucketed mc QAppMetadata s = ?c \<and> row_str s (am_Namespace src) = par_Namespace req \<and> row_str s (am_Pod src) = par_Pod req}"
        proof (rule collect_same)
          fix s assume "s \<in> set (rows QAppMetadata)"
          note id = ids [OF list.set_intros(1) this]
          show "matchesQuery (metadataQuery l' src) (sm_metric s) \<longleftrightarrow>
              bucketed mc QAppMetadata s = ?c \<and> row_str s (am_Namespace src) = par_Namespace req \<and> row_str s (am_Pod src) = par_Pod req"
            unfolding id
            by (subst metadata_matches) (use metadata(3) [OF True] pk cl [OF list.set_intros(1)] in \<open>auto simp: l' r pinHolds_def\<close>)
        qed
        from metadata_app [OF mv [unfolded this] metadata(3,2) [OF True] pod] show ?thesis using True sets metadata(4) by simp
      qed (simp add: unused)
      have "(ResolvePodApplication ask fserver req :: 'e LookupError + string) = Inr (buildApp fserver req rows mc ?c)"
        unfolding run using scope(1) unfolding pin option.case metric sum.case chain buildApp_steps by (simp split: option.split)
      then show ?thesis using False unfolding Cons list.case Let_def by simp
    qed
  next
    case Nil
    then have none: "{s \<in> set (rows QPodOwner). requested req s} = {}" by (simp add: filter_empty_conv)
    with vals have empty: "owners = []" by (simp only: image_empty image_is_empty set_empty)
    show ?thesis
    proof (cases ?use)
      case False
      then show ?thesis unfolding run Nil empty by simp
    next
      case True
      note md = metadata [OF True]
      have m: "matchesQuery (metadataQuery l src) (sm_metric s) \<longleftrightarrow> requestedMetadata src req s" for s
        by (subst metadata_matches) (use md(3) pk in \<open>auto simp: l r requestedMetadata_def Let_def\<close>)
      obtain sets where sets: "appMetadataRows ask l src = Inr sets" and
        mv: "strOf ` set sets = strOf ` sm_metric ` {s \<in> set (rows QAppMetadata). requestedMetadata src req s}"
        using metadata_answer [OF md(1), of l] unfolding m .
      show ?thesis
      proof (cases "filter (requestedMetadata src req) (rows QAppMetadata)")
        case no: Nil
        then have "{s \<in> set (rows QAppMetadata). requestedMetadata src req s} = {}" by (simp add: filter_empty_conv)
        with mv have "sets = []" by (simp only: image_empty image_is_empty set_empty)
        then show ?thesis using True no unfolding run Nil empty sets src_def [symmetric] by simp
      next
        case rows: (Cons s0 ss)
        have R: "{s \<in> set (rows QAppMetadata). requestedMetadata src req s} = set (s0 # ss)" using arg_cong [OF rows, of set] by simp
        have s0: "s0 \<in> set (rows QAppMetadata)" "requestedMetadata src req s0" using R by auto
        have cl: "row_str s ''cluster'' = par_Cluster req" if "s \<in> set (s0 # ss)" for s
          using that R unfolding requestedMetadata_def Let_def by (auto simp del: list.set)
        have pins: "pinHolds (pl_az l) (lk_AZ (pl_keys l)) (sm_metric s) \<and> pinHolds (pl_env l) (lk_Env (pl_keys l)) (sm_metric s)"
          if "s \<in> set (s0 # ss)" for s
          using that R unfolding requestedMetadata_def Let_def l by (auto simp del: list.set)
        note scope = pin_rows [OF mv [unfolded R] assms(4) [folded l(2)] cl pins, unfolded l(2)]
        let ?c = "bucketed mc QAppMetadata s0"
        note ids = scoped_rows [OF assms(5) insertI2 [OF singletonI] s0(1)]
        show ?thesis
        proof (cases "list_ex (\<lambda>s. scopeLabels ?k s \<noteq> scopeLabels ?k s0) ss")
          case amb: True
          have "pinScope l sets = None" using scope(2) unfolding if_P [OF amb] .
          then show ?thesis using True amb scope(1) unfolding run Nil empty sets src_def [symmetric] rows list.case Let_def sum.case by simp
        next
          case False
          have same: "row_str s (lk_AZ ?k) = row_str s0 (lk_AZ ?k) \<and> row_str s (lk_Env ?k) = row_str s0 (lk_Env ?k)"
            if "s \<in> set (rows QAppMetadata)" "requestedMetadata src req s" for s
          proof -
            have "s \<in> set (s0 # ss)" unfolding R [symmetric] using that by simp
            then show ?thesis using False unfolding list_ex_iff scopeLabels_def by auto
          qed
          have eq: "{s \<in> set (rows QAppMetadata). requestedMetadata src req s} =
              {s \<in> set (rows QAppMetadata). bucketed mc QAppMetadata s = ?c \<and> (row_str s (am_Namespace src) = par_Namespace req \<and> row_str s (am_Pod src) = par_Pod req)}"
            by (rule one_scope [where R = "requestedMetadata src req" and B = "\<lambda>s. bucketed mc QAppMetadata s = ?c"
            and cl = "\<lambda>s. row_str s ''cluster''" and C = "par_Cluster req"
            and P = "\<lambda>s. row_str s (am_Namespace src) = par_Namespace req \<and> row_str s (am_Pod src) = par_Pod req"
            and paz = "pinOf (par_AZ req)" and az = "lk_AZ ?k" and penv = "pinOf (par_Env req)" and env = "lk_Env ?k",
            OF _ same _ s0])
              ((auto simp: requestedMetadata_def Let_def) [1], assumption, assumption, rule trans [OF ids [OF list.set_intros(1)]], assumption, simp only: cl [OF list.set_intros(1)])
          have app: "minLabel sets (am_App src) = gm_get (metricApps fserver req (rows QAppMetadata) mc) (?c, par_Namespace req, par_Pod req)"
            using metadata_app [OF mv [unfolded eq] md(3,2) pod] unfolding md(4) .
          have "gm_get (resolvePodOwners (rows QPodOwner) (rows QReplicaSetOwner) mc) (?c, par_Namespace req, par_Pod req) = None"
          proof -
            have q: "QPodOwner \<in> set (QAppMetadata # lookupQueries)" by (simp only: lookupQueries_def list.set) simp
            have "ownerOffer (rsToDeployment (rows QReplicaSetOwner) mc) mc s \<noteq> Some ((?c, par_Namespace req, par_Pod req), x)"
              if "s \<in> set (rows QPodOwner)" for s x
            proof
              assume "ownerOffer (rsToDeployment (rows QReplicaSetOwner) mc) mc s = Some ((?c, par_Namespace req, par_Pod req), x)"
              then have o': "bucketed mc QPodOwner s = ?c" "row_str s ''namespace'' = par_Namespace req" "row_str s ''pod'' = par_Pod req"
                "row_str s ''owner_is_controller'' = ''true''" unfolding ownerOffer_Some by auto
              have lab: "row_str s (lk_AZ ?k) = row_str s0 (lk_AZ ?k)" "row_str s (lk_Env ?k) = row_str s0 (lk_Env ?k)" "row_str s ''cluster'' = par_Cluster req"
                using o'(1) cl [OF list.set_intros(1)] unfolding ids [OF q that] by simp_all
              have "requested req s" using s0(2) o' lab pinHolds_cong [OF lab(1)] pinHolds_cong [OF lab(2)]
                unfolding requested_def requestedMetadata_def Let_def by blast
              then show False using none that by blast
            qed
            then have "offers (ownerOffer (rsToDeployment (rows QReplicaSetOwner) mc) mc) (set (rows QPodOwner)) (?c, par_Namespace req, par_Pod req) = {}"
              by (auto simp: offers_def)
            then show ?thesis unfolding resolvePodOwners_def ownerLess_less pick_least by (simp add: least_def)
          qed
          then have "gm_str (podApplications [] (rows QPodOwner) (rows QReplicaSetOwner) (vectorsOf rows) (rows QJobOwner) False mc)
              (?c, par_Namespace req, par_Pod req) = []" by (simp add: podApplications_str)
          then have "buildApp fserver req rows mc ?c = (case minLabel sets (am_App src) of Some app \<Rightarrow> app | None \<Rightarrow> [])"
            unfolding buildApp_steps app by (simp split: option.split)
          moreover obtain l' where "pinScope l sets = Some l'" using scope(2) unfolding if_not_P [OF False] by (rule that)
          ultimately show ?thesis using True False scope(1)
            unfolding run Nil empty sets src_def [symmetric] rows list.case Let_def sum.case by simp
        qed
      qed
    qed
  qed
qed

text \<open>A querier over given vectors.\<close>

definition exAsk :: "(Query \<Rightarrow> nat Row list) \<Rightarrow> LabelQuery \<Rightarrow> unit + labels list" where
  "exAsk rows q = Inr (map sm_metric (filter (\<lambda>s. matchesQuery q (sm_metric s)) (rows (lq_Metric q))))"

lemma exAsk_answers: "answersFrom (exAsk rows) rows"
  by (auto simp: answersFrom_def exAsk_def)

definition exMetaSource :: AppMetadataSource where
  "exMetaSource = exSource\<lparr> am_Metric := QAppMetadata \<rparr>"

lemma exAsk_metadata: "answersMetadata (exAsk rows) (sourceOrDefault exMetaSource) (rows QAppMetadata)"
  by (auto simp: answersMetadata_def exAsk_def sourceOrDefault_def exMetaSource_def)

definition exLookupRows :: "Query \<Rightarrow> nat Row list" where
  "exLookupRows q = map (\<lambda>s. s\<lparr> sm_metric := (''az'', ''z1'') # (''env'', ''prod'') # sm_metric s \<rparr>)
     (if q = QPodOwner then exOwners else if q = QReplicaSetOwner then [exRSOwner ''web-1'' ''web'']
      else if q = QDeploymentAnnotations then [exAnnotated ''deployment'' ''web'' ''site'']
      else if q = QAppMetadata then [exSample [(''ns'', ''shop''), (''pod'', ''p4''), (''argocd_app'', ''batch'')] 1] else [])"

definition exPodRequest :: PodApplicationRequest where
  "exPodRequest = \<lparr> par_AZ = [], par_Env = ''prod'', par_Cluster = ''c1'', par_Namespace = ''shop'', par_Pod = ''p1'', par_At = 100,
     par_Window = 60, par_LabelKeys = DefaultLabelKeys, par_AppMetadata = Some exMetaSource \<rparr>"

text \<open>A pod with owner rows and none in the metric, one with only a row in the metric, and one in neither.\<close>

theorem lookup_refines_build_witness:
  "(ResolvePodApplication (exAsk exLookupRows) (Some (\<lambda>_. True)) (exPodRequest\<lparr> par_Pod := ''p1'' \<rparr>) :: unit LookupError + string) = Inr ''site'' \<and>
   (ResolvePodApplication (exAsk exLookupRows) (Some (\<lambda>_. True)) (exPodRequest\<lparr> par_Pod := ''p4'' \<rparr>) :: unit LookupError + string) = Inr ''batch'' \<and>
   (ResolvePodApplication (exAsk exLookupRows) (Some (\<lambda>_. True)) (exPodRequest\<lparr> par_Pod := ''p5'' \<rparr>) :: unit LookupError + string) = Inr []"
proof -
  let ?req = "\<lambda>pod. exPodRequest\<lparr> par_Pod := pod \<rparr>" and ?F = "Some (\<lambda>_ :: Family. True)"
  have keys: "OrDefault (par_LabelKeys (?req pod)) = DefaultLabelKeys" for pod by (simp add: exPodRequest_def OrDefault_def DefaultLabelKeys_def)
  have src: "par_AppMetadata (?req pod) = Some exMetaSource" for pod by (simp add: exPodRequest_def)
  have meta: "\<forall>src. par_AppMetadata (?req pod) = Some src \<longrightarrow>
      answersMetadata (exAsk exLookupRows) (sourceOrDefault src) (exLookupRows QAppMetadata) \<and> am_App (sourceOrDefault src) \<noteq> MetricNameLabel" for pod
  proof (intro allI impI)
    fix s assume "par_AppMetadata (?req pod) = Some s"
    then have s: "s = exMetaSource" unfolding src by simp
    have "am_App (sourceOrDefault exMetaSource) \<noteq> MetricNameLabel" by code_simp
    then show "answersMetadata (exAsk exLookupRows) (sourceOrDefault s) (exLookupRows QAppMetadata) \<and> am_App (sourceOrDefault s) \<noteq> MetricNameLabel"
      unfolding s using exAsk_metadata by (rule conjI [rotated])
  qed
  have plain: "plainKeys (OrDefault (par_LabelKeys (?req pod)))" for pod unfolding keys by code_simp
  have rs: "rsOffer exResolver (hd (exLookupRows QReplicaSetOwner)) = Some ((''z1-prod-c1'', ''shop'', ''web-1''), ''web'')" by code_simp
  have one: "exLookupRows QReplicaSetOwner = [hd (exLookupRows QReplicaSetOwner)]" by (simp add: exLookupRows_def)
  have single: "singleOffer (rsOffer exResolver) (set (exLookupRows QReplicaSetOwner))"
    unfolding singleOffer_def offers_def by (subst one, subst one) (simp add: rs)
  have idents: "identifies exResolver (OrDefault (par_LabelKeys (?req pod))) exLookupRows" for pod unfolding keys by code_simp
  have "\<forall>pod\<in>{''p1'', ''p4'', ''p5''}. validateRequest ((?req pod)\<lparr> par_AppMetadata := map_option sourceOrDefault (par_AppMetadata (?req pod)) \<rparr>)
      = (None :: unit LookupError option)" by code_simp
  then have v: "validateRequest ((?req pod)\<lparr> par_AppMetadata := map_option sourceOrDefault (par_AppMetadata (?req pod)) \<rparr>) = (None :: unit LookupError option)"
    if "pod \<in> {''p1'', ''p4'', ''p5''}" for pod using that by (rule bspec)
  have "(ResolvePodApplication (exAsk exLookupRows) ?F (?req ''p1'') :: unit LookupError + string) = Inr ''site''"
    by (rule trans [OF lookup_refines_build [OF exAsk_answers meta v plain idents single]]) (simp, code_simp)
  moreover have "(ResolvePodApplication (exAsk exLookupRows) ?F (?req ''p4'') :: unit LookupError + string) = Inr ''batch''"
    by (rule trans [OF lookup_refines_build [OF exAsk_answers meta v plain idents single]]) (simp, code_simp)
  moreover have "(ResolvePodApplication (exAsk exLookupRows) ?F (?req ''p5'') :: unit LookupError + string) = Inr []"
    by (rule trans [OF lookup_refines_build [OF exAsk_answers meta v plain idents single]]) (simp, code_simp)
  ultimately show ?thesis by simp
qed

text \<open>A ReplicaSet whose rows name two Deployments: the lookup takes the smaller, the build the last.\<close>

definition exAdopted :: "Query \<Rightarrow> nat Row list" where
  "exAdopted q = (if q = QPodOwner then [exPodOwner ''p1'' ''ReplicaSet'' ''rs'']
      else if q = QReplicaSetOwner then [exRSOwner ''rs'' ''a'', exRSOwner ''rs'' ''b'']
      else if q = QDeploymentAnnotations then [exAnnotated ''deployment'' ''a'' ''one'', exAnnotated ''deployment'' ''b'' ''two''] else [])"

lemma lookup_not_last_deployment:
  "(ResolvePodApplication (exAsk exAdopted) None (exPodRequest\<lparr> par_Env := [], par_AppMetadata := None \<rparr>) :: unit LookupError + string) = Inr ''one''"
  "gm_str (podApplications [] (exAdopted QPodOwner) (exAdopted QReplicaSetOwner) (vectorsOf exAdopted) [] False exResolver)
     (''c1'', ''shop'', ''p1'') = ''two''"
  by code_simp+

end
