(* ===== verification/Cytoscape.thy ===== *)
theory Cytoscape
  imports Projection
begin

text \<open>
  The response body: \<open>pkg/cytoscape/cytoscape.go\<close>.

  \<open>Serialise\<close> renders a view: the synthetic group nodes, tier by tier, then the nodes and edges of the
  view. A \<open>Node\<close> or \<open>Edge\<close> of the Go shape is its \<open>Data\<close>. Rounding to six significant digits and RFC 3339
  formatting are the standard library's and are parameters: \<open>round6\<close> on figures, \<open>rfc3339\<close> on instants.

  The lemmas show which groups a body has, that every \<open>data.parent\<close> is the id of a node of a lower tier, and
  when ids cannot collide.
\<close>

definition APIVersion :: string where "APIVersion = ''v1''"

section \<open>The shape\<close>

record HardwareDTO =
  dto_Model :: string
  dto_Serial :: string
  dto_Version :: string
  dto_Vendor :: string
  dto_Location :: string

record 'f PerfDTO =
  dto_CPUBusyPct :: "'f option"
  dto_TotalOps :: "'f option"
  dto_TotalLatencyUs :: "'f option"
  dto_TotalBytesPerSec :: "'f option"

record AlertDTO =
  dto_AlertName :: string
  dto_State :: string
  dto_Severity :: string
  dto_Time :: int

record 'f UsageDTO =
  dto_UsedBytes :: "'f option"
  dto_CapacityBytes :: "'f option"

record 'f QoSDTO =
  dto_PolicyGroup :: string
  dto_QoSMaxIOPS :: "'f option"
  dto_QoSMaxBytesPerSec :: "'f option"

record 'f EdgeMetricsDTO =
  dto_Rate :: "'f option"
  dto_ErrorRate :: "'f option"
  dto_P90ServerMs :: "'f option"
  dto_ReadOps :: "'f option"
  dto_WriteOps :: "'f option"
  dto_ReadLatencyUs :: "'f option"
  dto_WriteLatencyUs :: "'f option"
  dto_ReadBytesPerSec :: "'f option"
  dto_WriteBytesPerSec :: "'f option"
  dto_MaxIOPS :: "'f option"
  dto_MaxBytesPerSec :: "'f option"
  dto_ReadOpsDelta :: "'f option"
  dto_WriteOpsDelta :: "'f option"
  dto_ReadLatencyUsDelta :: "'f option"
  dto_WriteLatencyUsDelta :: "'f option"
  dto_ReadBytesPerSecDelta :: "'f option"
  dto_WriteBytesPerSecDelta :: "'f option"

record 'f NodeData =
  nd_ID :: string
  nd_Name :: string
  nd_Type :: string
  nd_Parent :: string
  nd_IPAddress :: "string list"
  nd_Owner :: "Owner option"
  nd_Application :: string
  nd_Containers :: "Container list"
  nd_ReadyStatus :: string
  nd_Health :: string
  nd_Usage :: "'f UsageDTO option"
  nd_StorageClass :: string
  nd_QoS :: "'f QoSDTO option"
  nd_Hardware :: "HardwareDTO option"
  nd_Perf :: "'f PerfDTO option"
  nd_Alerts :: "AlertDTO list"
  nd_Status :: string
  nd_NamespaceOwner :: string
  nd_NamespaceGroup :: string
  nd_NamespaceGroupOwner :: string
  nd_NamespaceAlias :: string
  nd_DeployedBy :: string
  nd_DeployedAt :: string
  nd_Labels :: labels

record 'f EdgeData =
  ed_ID :: string
  ed_Type :: string
  ed_Source :: string
  ed_Target :: string
  ed_Labels :: labels
  ed_Metrics :: "'f EdgeMetricsDTO option"

record 'f Body =
  body_APIVersion :: string
  body_Clusters :: "string list"
  body_Nodes :: "'f NodeData list"
  body_Edges :: "'f EdgeData list"

section \<open>Figures\<close>

definition noMetrics :: "'f EdgeMetricsDTO" where
  "noMetrics = \<lparr> dto_Rate = None, dto_ErrorRate = None, dto_P90ServerMs = None, dto_ReadOps = None, dto_WriteOps = None,
     dto_ReadLatencyUs = None, dto_WriteLatencyUs = None, dto_ReadBytesPerSec = None, dto_WriteBytesPerSec = None,
     dto_MaxIOPS = None, dto_MaxBytesPerSec = None, dto_ReadOpsDelta = None, dto_WriteOpsDelta = None,
     dto_ReadLatencyUsDelta = None, dto_WriteLatencyUsDelta = None, dto_ReadBytesPerSecDelta = None,
     dto_WriteBytesPerSecDelta = None \<rparr>"

definition roundedBeside :: "('f \<Rightarrow> 'f) \<Rightarrow> 'f option \<Rightarrow> 'f option \<Rightarrow> 'f option" where
  "roundedBeside round6 base delta = (if base = None \<or> delta = None then None else map_option round6 delta)"

definition metricsDTO :: "('f \<Rightarrow> 'f) \<Rightarrow> 'f EdgeMetrics option \<Rightarrow> 'f IOMetrics option \<Rightarrow> 'f EdgeMetricsDTO option" where
  "metricsDTO round6 m io =
     (case m of
        Some m \<Rightarrow> Some (noMetrics\<lparr> dto_Rate := Some (round6 (em_Rate m)), dto_ErrorRate := map_option round6 (em_ErrorRate m),
            dto_P90ServerMs := map_option round6 (em_P90ServerMs m) \<rparr>)
      | None \<Rightarrow>
          (case io of
             None \<Rightarrow> None
           | Some io \<Rightarrow>
               let filled = (ReadOps io \<noteq> None \<or> WriteOps io \<noteq> None \<or> ReadLatencyUs io \<noteq> None \<or> WriteLatencyUs io \<noteq> None \<or>
                     ReadBytesPerSec io \<noteq> None \<or> WriteBytesPerSec io \<noteq> None);
                   dto = noMetrics\<lparr> dto_ReadOps := map_option round6 (ReadOps io), dto_WriteOps := map_option round6 (WriteOps io),
                     dto_ReadLatencyUs := map_option round6 (ReadLatencyUs io), dto_WriteLatencyUs := map_option round6 (WriteLatencyUs io),
                     dto_ReadBytesPerSec := map_option round6 (ReadBytesPerSec io),
                     dto_WriteBytesPerSec := map_option round6 (WriteBytesPerSec io),
                     dto_ReadOpsDelta := roundedBeside round6 (ReadOps io) (ReadOpsDelta io),
                     dto_WriteOpsDelta := roundedBeside round6 (WriteOps io) (WriteOpsDelta io),
                     dto_ReadLatencyUsDelta := roundedBeside round6 (ReadLatencyUs io) (ReadLatencyUsDelta io),
                     dto_WriteLatencyUsDelta := roundedBeside round6 (WriteLatencyUs io) (WriteLatencyUsDelta io),
                     dto_ReadBytesPerSecDelta := roundedBeside round6 (ReadBytesPerSec io) (ReadBytesPerSecDelta io),
                     dto_WriteBytesPerSecDelta := roundedBeside round6 (WriteBytesPerSec io) (WriteBytesPerSecDelta io),
                     dto_MaxIOPS := map_option round6 (MaxIOPS io), dto_MaxBytesPerSec := map_option round6 (MaxBytesPerSec io) \<rparr>
               in if filled then Some dto else None))"

definition qosDTO :: "('f \<Rightarrow> 'f) \<Rightarrow> 'f QoSCeiling option \<Rightarrow> 'f QoSDTO option" where
  "qosDTO round6 q =
     (case q of
        None \<Rightarrow> None
      | Some q \<Rightarrow>
          if qos_MaxIOPS q = None \<and> qos_MaxBytesPerSec q = None then None
          else Some \<lparr> dto_PolicyGroup = qos_PolicyGroup q, dto_QoSMaxIOPS = map_option round6 (qos_MaxIOPS q),
                 dto_QoSMaxBytesPerSec = map_option round6 (qos_MaxBytesPerSec q) \<rparr>)"

definition hardwareDTO :: "Hardware option \<Rightarrow> HardwareDTO option" where
  "hardwareDTO h =
     (case h of
        None \<Rightarrow> None
      | Some h \<Rightarrow>
          if Hardware_Empty h then None
          else Some \<lparr> dto_Model = hw_Model h, dto_Serial = hw_Serial h, dto_Version = hw_Version h, dto_Vendor = hw_Vendor h,
                 dto_Location = hw_Location h \<rparr>)"

definition perfDTO :: "('f \<Rightarrow> 'f) \<Rightarrow> 'f NodePerf option \<Rightarrow> 'f PerfDTO option" where
  "perfDTO round6 p =
     (case p of
        None \<Rightarrow> None
      | Some p \<Rightarrow>
          if NodePerf_Empty p then None
          else Some \<lparr> dto_CPUBusyPct = map_option round6 (CPUBusyPct p), dto_TotalOps = map_option round6 (TotalOps p),
                 dto_TotalLatencyUs = map_option round6 (TotalLatencyUs p),
                 dto_TotalBytesPerSec = map_option round6 (TotalBytesPerSec p) \<rparr>)"

text \<open>\<open>Time.Unix\<close> is the floor of the seconds; a zero time leaves the field 0, which \<open>omitempty\<close> drops.\<close>

definition alertsDTO :: "Alert list \<Rightarrow> AlertDTO list" where
  "alertsDTO alerts =
     map (\<lambda>a. \<lparr> dto_AlertName = alert_Name a, dto_State = alert_State a, dto_Severity = alert_Severity a,
        dto_Time = (if alert_Time a = zeroTime then 0 else alert_Time a div 10 ^ 9) \<rparr>) alerts"

definition usageDTO :: "'f UsageBytes option \<Rightarrow> 'f UsageDTO option" where
  "usageDTO u =
     (case u of
        None \<Rightarrow> None
      | Some u \<Rightarrow>
          if UsedBytes u = None \<and> CapacityBytes u = None then None
          else Some \<lparr> dto_UsedBytes = UsedBytes u, dto_CapacityBytes = CapacityBytes u \<rparr>)"

section \<open>Groups\<close>

abbreviation nodeTypeCluster :: string where "nodeTypeCluster \<equiv> ''cluster''"
abbreviation nodeTypeStorageCluster :: string where "nodeTypeStorageCluster \<equiv> ''storage-cluster''"
abbreviation nodeTypeNamespace :: string where "nodeTypeNamespace \<equiv> ''namespace''"
abbreviation nodeTypeApplication :: string where "nodeTypeApplication \<equiv> ''application''"
abbreviation nodeTypeController :: string where "nodeTypeController \<equiv> ''controller''"

definition clusterParentID :: "string \<Rightarrow> string" where
  "clusterParentID cluster = ''cluster/'' @ cluster"

definition storageClusterParentID :: "string \<Rightarrow> string" where
  "storageClusterParentID oc = ''storage-cluster/'' @ oc"

definition namespaceParentID :: "string \<Rightarrow> string \<Rightarrow> string" where
  "namespaceParentID cluster ns = cluster @ ''/namespace/'' @ ns"

definition applicationParentID :: "string \<Rightarrow> string \<Rightarrow> string \<Rightarrow> string" where
  "applicationParentID cluster ns app = namespaceParentID cluster ns @ ''/application/'' @ app"

definition controllerParentID :: "string \<Rightarrow> string \<Rightarrow> string \<Rightarrow> string \<Rightarrow> string \<Rightarrow> string" where
  "controllerParentID cluster ns app kind name =
     (if app \<noteq> [] then applicationParentID cluster ns app else namespaceParentID cluster ns)
       @ ''/controller/'' @ kind @ ''/'' @ name"

type_synonym nsKey = "string \<times> string"
type_synonym appKey = "string \<times> string \<times> string"
type_synonym ctrlKey = "string \<times> string \<times> string \<times> string \<times> string"

text \<open>The five \<open>Seen\<close> sets of the first loop.\<close>

record groupsSeen =
  clusterSeen :: "(string, unit) gomap"
  storageClusterSeen :: "(string, unit) gomap"
  nsSeen :: "(nsKey, unit) gomap"
  appSeen :: "(appKey, unit) gomap"
  ctrlSeen :: "(ctrlKey, unit) gomap"

definition noGroups :: groupsSeen where
  "noGroups = \<lparr> clusterSeen = [], storageClusterSeen = [], nsSeen = [], appSeen = [], ctrlSeen = [] \<rparr>"

definition groupStep :: "'f GraphNode \<Rightarrow> groupsSeen \<Rightarrow> groupsSeen" where
  "groupStep n g =
     (let c = label n ''cluster''; oc = label n ''ontap_cluster''; ns = label n ''namespace''; app = Application n;
          g = (if c \<noteq> [] then g\<lparr> clusterSeen := gm_put c () (clusterSeen g) \<rparr> else g);
          g = (if oc \<noteq> [] then g\<lparr> storageClusterSeen := gm_put oc () (storageClusterSeen g) \<rparr> else g)
      in case Type n of
           NodeTypePod \<Rightarrow>
             if c = [] \<or> ns = [] then g
             else
               let g = g\<lparr> nsSeen := gm_put (c, ns) () (nsSeen g) \<rparr>;
                   g = (if app \<noteq> [] then g\<lparr> appSeen := gm_put (c, ns, app) () (appSeen g) \<rparr> else g)
               in (case mOwner (methods n) of
                     None \<Rightarrow> g
                   | Some o' \<Rightarrow> g\<lparr> ctrlSeen := gm_put (c, ns, app, owner_Kind o', owner_Name o') () (ctrlSeen g) \<rparr>)
         | NodeTypeService \<Rightarrow>
             if c = [] \<or> ns = [] then g
             else
               let g = g\<lparr> nsSeen := gm_put (c, ns) () (nsSeen g) \<rparr>
               in (if app \<noteq> [] then g\<lparr> appSeen := gm_put (c, ns, app) () (appSeen g) \<rparr> else g)
         | NodeTypePVC \<Rightarrow>
             if c = [] \<or> ns = [] then g
             else
               let g = g\<lparr> nsSeen := gm_put (c, ns) () (nsSeen g) \<rparr>
               in (if app \<noteq> [] then g\<lparr> appSeen := gm_put (c, ns, app) () (appSeen g) \<rparr> else g)
         | _ \<Rightarrow> g)"

definition namespaceMeta :: "'f Graph option \<Rightarrow> string \<Rightarrow> string \<Rightarrow> NamespaceMeta" where
  "namespaceMeta g cluster ns =
     (let none = \<lparr> nm_Owner = [], nm_Group = [], nm_GroupOwner = [], nm_Alias = [] \<rparr> in
      case g of
        None \<Rightarrow> none
      | Some g \<Rightarrow> (case gm_get (NamespaceMetadata g) (NamespaceRef cluster ns) of None \<Rightarrow> none | Some m \<Rightarrow> m))"

definition applicationMeta :: "'f Graph option \<Rightarrow> string \<Rightarrow> string \<Rightarrow> string \<Rightarrow> ApplicationMeta" where
  "applicationMeta g cluster ns app =
     (let none = \<lparr> am_DeployedBy = [], am_DeployedAt = zeroTime \<rparr> in
      case g of
        None \<Rightarrow> none
      | Some g \<Rightarrow> (case gm_get (ApplicationMetadata g) (ApplicationRef cluster ns app) of None \<Rightarrow> none | Some m \<Rightarrow> m))"

definition groupNode :: "string \<Rightarrow> string \<Rightarrow> string \<Rightarrow> string \<Rightarrow> 'f NodeData" where
  "groupNode i name typ parent = \<lparr> nd_ID = i, nd_Name = name, nd_Type = typ, nd_Parent = parent, nd_IPAddress = [], nd_Owner = None,
     nd_Application = [], nd_Containers = [], nd_ReadyStatus = [], nd_Health = [], nd_Usage = None, nd_StorageClass = [],
     nd_QoS = None, nd_Hardware = None, nd_Perf = None, nd_Alerts = [], nd_Status = [], nd_NamespaceOwner = [],
     nd_NamespaceGroup = [], nd_NamespaceGroupOwner = [], nd_NamespaceAlias = [], nd_DeployedBy = [], nd_DeployedAt = [],
     nd_Labels = [] \<rparr>"

definition compoundParent :: "'f GraphNode \<Rightarrow> string" where
  "compoundParent n =
     (let c = label n ''cluster''; ns = label n ''namespace''; oc = label n ''ontap_cluster''; app = Application n;
          clusterGroup = (if c \<noteq> [] then clusterParentID c else [])
      in case Type n of
           NodeTypePod \<Rightarrow>
             if c \<noteq> [] \<and> ns \<noteq> [] then
               (case mOwner (methods n) of
                  Some o' \<Rightarrow> controllerParentID c ns app (owner_Kind o') (owner_Name o')
                | None \<Rightarrow> if app \<noteq> [] then applicationParentID c ns app else namespaceParentID c ns)
             else clusterGroup
         | NodeTypeService \<Rightarrow>
             if c \<noteq> [] \<and> ns \<noteq> [] then (if app \<noteq> [] then applicationParentID c ns app else namespaceParentID c ns)
             else clusterGroup
         | NodeTypePVC \<Rightarrow>
             if c \<noteq> [] \<and> ns \<noteq> [] then (if app \<noteq> [] then applicationParentID c ns app else namespaceParentID c ns)
             else clusterGroup
         | NodeTypeNetAppNode \<Rightarrow> if oc \<noteq> [] then storageClusterParentID oc else []
         | NodeTypeNetAppSVM \<Rightarrow> if oc \<noteq> [] then storageClusterParentID oc else []
         | NodeTypeNetAppAggr \<Rightarrow>
             if oc = [] then []
             else if label n ''node'' \<noteq> [] then NetAppNodeID oc (label n ''node'')
             else storageClusterParentID oc
         | _ \<Rightarrow> clusterGroup)"

section \<open>The body\<close>

definition clusterGroups :: "groupsSeen \<Rightarrow> 'f NodeData list" where
  "clusterGroups g = map (\<lambda>c. groupNode (clusterParentID c) c nodeTypeCluster []) (sort (map fst (clusterSeen g)))"

definition storageClusterGroups :: "groupsSeen \<Rightarrow> 'f NodeData list" where
  "storageClusterGroups g =
     map (\<lambda>oc. groupNode (storageClusterParentID oc) oc nodeTypeStorageCluster []) (sort (map fst (storageClusterSeen g)))"

definition namespaceGroups :: "'f Graph option \<Rightarrow> groupsSeen \<Rightarrow> 'f NodeData list" where
  "namespaceGroups gr g =
     map (\<lambda>(c, ns).
        let meta = namespaceMeta gr c ns in
        (groupNode (namespaceParentID c ns) ns nodeTypeNamespace (clusterParentID c))
          \<lparr> nd_NamespaceOwner := nm_Owner meta, nd_NamespaceGroup := nm_Group meta,
            nd_NamespaceGroupOwner := nm_GroupOwner meta, nd_NamespaceAlias := nm_Alias meta \<rparr>)
       (sort_key (\<lambda>(c, ns). namespaceParentID c ns) (map fst (nsSeen g)))"

definition applicationGroups :: "(int \<Rightarrow> string) \<Rightarrow> 'f Graph option \<Rightarrow> groupsSeen \<Rightarrow> 'f NodeData list" where
  "applicationGroups rfc3339 gr g =
     map (\<lambda>(c, ns, app).
        let meta = applicationMeta gr c ns app in
        (groupNode (applicationParentID c ns app) app nodeTypeApplication (namespaceParentID c ns))
          \<lparr> nd_DeployedBy := am_DeployedBy meta,
            nd_DeployedAt := (if am_DeployedAt meta = zeroTime then [] else rfc3339 (am_DeployedAt meta)) \<rparr>)
       (sort_key (\<lambda>(c, ns, app). applicationParentID c ns app) (map fst (appSeen g)))"

definition controllerGroups :: "groupsSeen \<Rightarrow> 'f NodeData list" where
  "controllerGroups g =
     map (\<lambda>(c, ns, app, kind, name).
        groupNode (controllerParentID c ns app kind name) name nodeTypeController
          (if app \<noteq> [] then applicationParentID c ns app else namespaceParentID c ns))
       (sort_key (\<lambda>(c, ns, app, kind, name). controllerParentID c ns app kind name) (map fst (ctrlSeen g)))"

definition viewNode :: "('f \<Rightarrow> 'f) \<Rightarrow> 'f GraphNode \<Rightarrow> 'f NodeData" where
  "viewNode round6 n = (let m = methods n in
     (groupNode (mID m) (mName m) (NodeTypeStr (mType m)) (compoundParent n))
       \<lparr> nd_IPAddress := mIPAddress m, nd_Owner := mOwner m, nd_Application := mApplication m, nd_Containers := mContainers m,
         nd_ReadyStatus := mReadyStatus m, nd_Health := mHealth m, nd_Usage := usageDTO (mUsage m),
         nd_StorageClass := mStorageClass m, nd_QoS := qosDTO round6 (mQoS m), nd_Hardware := hardwareDTO (mHardware m),
         nd_Perf := perfDTO round6 (mPerf m), nd_Alerts := alertsDTO (mAlerts m), nd_Status := mStatus m,
         nd_Labels := mLabels m \<rparr>)"

definition viewEdge :: "('f \<Rightarrow> 'f) \<Rightarrow> 'f Edge \<Rightarrow> 'f EdgeData" where
  "viewEdge round6 e = \<lparr> ed_ID = EdgeID e, ed_Type = EdgeTypeStr (EType e), ed_Source = Source e, ed_Target = Target e,
     ed_Labels = ELabels e, ed_Metrics = metricsDTO round6 (EMetrics e) (EIO e) \<rparr>"

definition Serialise :: "('f \<Rightarrow> 'f) \<Rightarrow> (int \<Rightarrow> string) \<Rightarrow> 'f Graph option \<Rightarrow> 'f View \<Rightarrow> 'f Body" where
  "Serialise round6 rfc3339 gr view =
     (let g = fold groupStep (view_Nodes view) noGroups in
      \<lparr> body_APIVersion = APIVersion,
        body_Clusters = sort (map fst (clusterSeen g)),
        body_Nodes = clusterGroups g @ storageClusterGroups g @ namespaceGroups gr g @ applicationGroups rfc3339 gr g
           @ controllerGroups g @ map (viewNode round6) (view_Nodes view),
        body_Edges = map (viewEdge round6) (view_Edges view) \<rparr>)"

section \<open>Which groups a body has\<close>

definition workload :: "'f GraphNode \<Rightarrow> bool" where
  "workload n = ((Type n = NodeTypePod \<or> Type n = NodeTypeService \<or> Type n = NodeTypePVC) \<and>
     label n ''cluster'' \<noteq> [] \<and> label n ''namespace'' \<noteq> [])"

definition nsOf :: "'f GraphNode \<Rightarrow> nsKey set" where
  "nsOf n = (if workload n then {(label n ''cluster'', label n ''namespace'')} else {})"

definition appOf :: "'f GraphNode \<Rightarrow> appKey set" where
  "appOf n = (if workload n \<and> Application n \<noteq> [] then {(label n ''cluster'', label n ''namespace'', Application n)} else {})"

definition ctrlOf :: "'f GraphNode \<Rightarrow> ctrlKey set" where
  "ctrlOf n = (if workload n \<and> Type n = NodeTypePod then
     (\<lambda>o'. (label n ''cluster'', label n ''namespace'', Application n, owner_Kind o', owner_Name o')) ` set_option (mOwner (methods n))
     else {})"

lemma groupStep_keys:
  "fst ` set (clusterSeen (groupStep n g)) = fst ` set (clusterSeen g) \<union> ({label n ''cluster''} - {[]})"
  "fst ` set (storageClusterSeen (groupStep n g)) = fst ` set (storageClusterSeen g) \<union> ({label n ''ontap_cluster''} - {[]})"
  "fst ` set (nsSeen (groupStep n g)) = fst ` set (nsSeen g) \<union> nsOf n"
  "fst ` set (appSeen (groupStep n g)) = fst ` set (appSeen g) \<union> appOf n"
  "fst ` set (ctrlSeen (groupStep n g)) = fst ` set (ctrlSeen g) \<union> ctrlOf n"
  by (cases "Type n"; cases "mOwner (methods n)"; auto simp: groupStep_def Let_def workload_def nsOf_def appOf_def ctrlOf_def)+

lemma groups_keys:
  "fst ` set (clusterSeen (fold groupStep ns g)) = fst ` set (clusterSeen g) \<union> (\<Union>n\<in>set ns. {label n ''cluster''} - {[]})"
  "fst ` set (storageClusterSeen (fold groupStep ns g)) = fst ` set (storageClusterSeen g) \<union> (\<Union>n\<in>set ns. {label n ''ontap_cluster''} - {[]})"
  "fst ` set (nsSeen (fold groupStep ns g)) = fst ` set (nsSeen g) \<union> (\<Union>n\<in>set ns. nsOf n)"
  "fst ` set (appSeen (fold groupStep ns g)) = fst ` set (appSeen g) \<union> (\<Union>n\<in>set ns. appOf n)"
  "fst ` set (ctrlSeen (fold groupStep ns g)) = fst ` set (ctrlSeen g) \<union> (\<Union>n\<in>set ns. ctrlOf n)"
  by (induction ns arbitrary: g) (simp_all add: groupStep_keys Un_assoc)

definition wf_groups :: "groupsSeen \<Rightarrow> bool" where
  "wf_groups g = (gm_wf (clusterSeen g) \<and> gm_wf (storageClusterSeen g) \<and> gm_wf (nsSeen g) \<and> gm_wf (appSeen g) \<and> gm_wf (ctrlSeen g))"

lemma groupStep_wf: "wf_groups g \<Longrightarrow> wf_groups (groupStep n g)"
  by (cases "Type n"; cases "mOwner (methods n)"; simp add: groupStep_def Let_def wf_groups_def)

lemma groups_wf: "wf_groups (fold groupStep ns noGroups)"
proof -
  have "wf_groups g \<Longrightarrow> wf_groups (fold groupStep ns g)" for g by (induction ns arbitrary: g) (simp_all add: groupStep_wf)
  then show ?thesis by (simp add: wf_groups_def noGroups_def)
qed

definition groupsOf :: "'f View \<Rightarrow> groupsSeen" where
  "groupsOf view = fold groupStep (view_Nodes view) noGroups"

lemma groupsOf_keys:
  "fst ` set (clusterSeen (groupsOf v)) = (\<Union>n\<in>set (view_Nodes v). {label n ''cluster''} - {[]})"
  "fst ` set (storageClusterSeen (groupsOf v)) = (\<Union>n\<in>set (view_Nodes v). {label n ''ontap_cluster''} - {[]})"
  "fst ` set (nsSeen (groupsOf v)) = (\<Union>n\<in>set (view_Nodes v). nsOf n)"
  "fst ` set (appSeen (groupsOf v)) = (\<Union>n\<in>set (view_Nodes v). appOf n)"
  "fst ` set (ctrlSeen (groupsOf v)) = (\<Union>n\<in>set (view_Nodes v). ctrlOf n)"
  unfolding groupsOf_def by (simp_all add: groups_keys noGroups_def)

lemma Serialise_nodes:
  "body_Nodes (Serialise r f gr v) = clusterGroups (groupsOf v) @ storageClusterGroups (groupsOf v) @ namespaceGroups gr (groupsOf v) @
     applicationGroups f gr (groupsOf v) @ controllerGroups (groupsOf v) @ map (viewNode r) (view_Nodes v)"
  by (simp add: Serialise_def groupsOf_def Let_def)

text \<open>Depth of a node type in the nesting: a child is always deeper than its parent.\<close>

definition tierOf :: "string \<Rightarrow> nat" where
  "tierOf typ =
     (if typ = nodeTypeCluster \<or> typ = nodeTypeStorageCluster then 0
      else if typ = nodeTypeNamespace then 1
      else if typ = nodeTypeApplication then 2
      else if typ = nodeTypeController then 3
      else if typ = ''netapp-aggr'' then 5
      else 4)"

text \<open>Id, type and parent of a rendered node, tier by tier.\<close>

definition tag :: "'f NodeData \<Rightarrow> string \<times> string \<times> string" where
  "tag m = (nd_ID m, nd_Type m, nd_Parent m)"

lemma tags:
  "tag ` set (clusterGroups g) = (\<lambda>c. (clusterParentID c, nodeTypeCluster, [])) ` fst ` set (clusterSeen g)"
  "tag ` set (storageClusterGroups g) = (\<lambda>oc. (storageClusterParentID oc, nodeTypeStorageCluster, [])) ` fst ` set (storageClusterSeen g)"
  "tag ` set (namespaceGroups gr g) =
     (\<lambda>(c, ns). (namespaceParentID c ns, nodeTypeNamespace, clusterParentID c)) ` fst ` set (nsSeen g)"
  "tag ` set (applicationGroups f gr g) =
     (\<lambda>(c, ns, app). (applicationParentID c ns app, nodeTypeApplication, namespaceParentID c ns)) ` fst ` set (appSeen g)"
  "tag ` set (controllerGroups g) =
     (\<lambda>(c, ns, app, kind, name). (controllerParentID c ns app kind name, nodeTypeController,
        if app \<noteq> [] then applicationParentID c ns app else namespaceParentID c ns)) ` fst ` set (ctrlSeen g)"
  "tag ` set (map (viewNode r) ns) = (\<lambda>n. (ID n, NodeTypeStr (Type n), compoundParent n)) ` set ns"
  unfolding clusterGroups_def storageClusterGroups_def namespaceGroups_def applicationGroups_def controllerGroups_def
    set_map set_sort image_image
  by (rule image_cong [OF refl], simp add: tag_def groupNode_def viewNode_def Let_def split: prod.split)+

definition hasNode :: "'f Body \<Rightarrow> string \<Rightarrow> nat \<Rightarrow> bool" where
  "hasNode b i t = (\<exists>m\<in>set (body_Nodes b). nd_ID m = i \<and> tierOf (nd_Type m) = t)"

lemma hasNodeI: "(i, typ, p) \<in> tag ` set (body_Nodes b) \<Longrightarrow> tierOf typ = t \<Longrightarrow> hasNode b i t"
  by (auto simp: hasNode_def tag_def)

lemma Serialise_tags:
  fixes v :: "'f View"
  shows "tag ` set (body_Nodes (Serialise r f gr v)) =
     tag ` set (clusterGroups (groupsOf v) :: 'f NodeData list) \<union> (tag ` set (storageClusterGroups (groupsOf v) :: 'f NodeData list) \<union>
     (tag ` set (namespaceGroups gr (groupsOf v)) \<union> (tag ` set (applicationGroups f gr (groupsOf v)) \<union>
     (tag ` set (controllerGroups (groupsOf v) :: 'f NodeData list) \<union> tag ` set (map (viewNode r) (view_Nodes v))))))"
  unfolding Serialise_nodes set_append image_Un ..

lemma tierOf_simps [simp]:
  "tierOf nodeTypeCluster = 0" "tierOf nodeTypeStorageCluster = 0" "tierOf nodeTypeNamespace = 1" "tierOf nodeTypeApplication = 2"
  "tierOf nodeTypeController = 3" "tierOf (NodeTypeStr t) = (if t = NodeTypeNetAppAggr then 5 else 4)"
  by (simp_all add: tierOf_def) (cases t; simp)

lemma hasNode_groups:
  fixes v :: "'f View"
  shows "c \<in> fst ` set (clusterSeen (groupsOf v)) \<Longrightarrow> hasNode (Serialise r f gr v) (clusterParentID c) 0"
    and "oc \<in> fst ` set (storageClusterSeen (groupsOf v)) \<Longrightarrow> hasNode (Serialise r f gr v) (storageClusterParentID oc) 0"
    and "(c, ns) \<in> fst ` set (nsSeen (groupsOf v)) \<Longrightarrow> hasNode (Serialise r f gr v) (namespaceParentID c ns) 1"
    and "(c, ns, app) \<in> fst ` set (appSeen (groupsOf v)) \<Longrightarrow> hasNode (Serialise r f gr v) (applicationParentID c ns app) 2"
    and "(c, ns, app, kind, name) \<in> fst ` set (ctrlSeen (groupsOf v)) \<Longrightarrow>
      hasNode (Serialise r f gr v) (controllerParentID c ns app kind name) 3"
proof -
  have t: "x \<in> tag ` set (body_Nodes (Serialise r f gr v))"
    if "x \<in> tag ` set (clusterGroups (groupsOf v) :: 'f NodeData list) \<or> x \<in> tag ` set (storageClusterGroups (groupsOf v) :: 'f NodeData list) \<or>
      x \<in> tag ` set (namespaceGroups gr (groupsOf v)) \<or> x \<in> tag ` set (applicationGroups f gr (groupsOf v)) \<or>
      x \<in> tag ` set (controllerGroups (groupsOf v) :: 'f NodeData list)" for x
    unfolding Serialise_tags Un_iff using that by (elim disjE) simp_all
  show "hasNode (Serialise r f gr v) (clusterParentID c) 0" if "c \<in> fst ` set (clusterSeen (groupsOf v))"
    by (rule hasNodeI [OF t], rule disjI1, unfold tags, rule imageI [OF that], simp)
  show "hasNode (Serialise r f gr v) (storageClusterParentID oc) 0" if "oc \<in> fst ` set (storageClusterSeen (groupsOf v))"
    by (rule hasNodeI [OF t], rule disjI2, rule disjI1, unfold tags, rule imageI [OF that], simp)
  show "hasNode (Serialise r f gr v) (namespaceParentID c ns) 1" if "(c, ns) \<in> fst ` set (nsSeen (groupsOf v))"
    by (rule hasNodeI [OF t], rule disjI2, rule disjI2, rule disjI1, unfold tags, rule image_eqI [OF _ that], simp, simp)
  show "hasNode (Serialise r f gr v) (applicationParentID c ns app) 2" if "(c, ns, app) \<in> fst ` set (appSeen (groupsOf v))"
    by (rule hasNodeI [OF t], rule disjI2, rule disjI2, rule disjI2, rule disjI1, unfold tags, rule image_eqI [OF _ that], simp, simp)
  show "hasNode (Serialise r f gr v) (controllerParentID c ns app kind name) 3"
    if "(c, ns, app, kind, name) \<in> fst ` set (ctrlSeen (groupsOf v))"
    by (rule hasNodeI [OF t], rule disjI2, rule disjI2, rule disjI2, rule disjI2, unfold tags, rule image_eqI [OF _ that], simp, simp)
qed

definition nested :: "'f Body \<Rightarrow> string \<Rightarrow> string \<Rightarrow> bool" where
  "nested b typ parent = (parent = [] \<or> (\<exists>t. hasNode b parent t \<and> t < tierOf typ))"

lemma group_chain:
  assumes "workload n" and "n \<in> set (view_Nodes v)"
  shows "label n ''cluster'' \<in> fst ` set (clusterSeen (groupsOf v))"
    and "(label n ''cluster'', label n ''namespace'') \<in> fst ` set (nsSeen (groupsOf v))"
    and "Application n \<noteq> [] \<Longrightarrow> (label n ''cluster'', label n ''namespace'', Application n) \<in> fst ` set (appSeen (groupsOf v))"
    and "Type n = NodeTypePod \<Longrightarrow> mOwner (methods n) = Some o' \<Longrightarrow>
      (label n ''cluster'', label n ''namespace'', Application n, owner_Kind o', owner_Name o') \<in> fst ` set (ctrlSeen (groupsOf v))"
  unfolding groupsOf_keys using assms by (intro UN_I [of n], simp, simp add: workload_def nsOf_def appOf_def ctrlOf_def)+

lemma nested_parents:
  fixes v :: "'f View"
  assumes "\<And>a c. a \<in> set (view_Nodes v) \<Longrightarrow> Type a = NodeTypeNetAppAggr \<Longrightarrow> ownerID a = Some c \<Longrightarrow>
      \<exists>p\<in>set (view_Nodes v). ID p = c \<and> Type p = NodeTypeNetAppNode"
    and n: "n \<in> set (view_Nodes v)"
  shows "nested (Serialise r f gr v) (NodeTypeStr (Type n)) (compoundParent n)"
proof -
  let ?b = "Serialise r f gr v"
  have cluster: "label n ''cluster'' \<noteq> [] \<Longrightarrow> hasNode ?b (clusterParentID (label n ''cluster'')) 0"
    by (rule hasNode_groups(1)) (use n in \<open>simp only: groupsOf_keys(1), intro UN_I [of n], simp_all\<close>)
  have storage: "label n ''ontap_cluster'' \<noteq> [] \<Longrightarrow> hasNode ?b (storageClusterParentID (label n ''ontap_cluster'')) 0"
    by (rule hasNode_groups(2)) (use n in \<open>simp only: groupsOf_keys(2), intro UN_I [of n], simp_all\<close>)
  have group: "hasNode ?b (if Application n \<noteq> [] then applicationParentID (label n ''cluster'') (label n ''namespace'') (Application n)
      else namespaceParentID (label n ''cluster'') (label n ''namespace'')) (if Application n \<noteq> [] then 2 else 1)" if "workload n"
    using hasNode_groups(3) [OF group_chain(2) [OF that n]] hasNode_groups(4) [OF group_chain(3) [OF that n]] by simp
  have deep: "nested ?b (NodeTypeStr (Type n)) p" if "hasNode ?b p t" "t < 4" for p t
    using that unfolding nested_def by (intro disjI2 exI [of _ t]) simp
  show ?thesis
  proof (cases "workload n")
    case True
    note g = deep [OF group [OF True]]
    show ?thesis
    proof (cases "Type n = NodeTypePod \<and> mOwner (methods n) \<noteq> None")
      case True
      then obtain o' where o': "mOwner (methods n) = Some o'" by auto
      have "compoundParent n = controllerParentID (label n ''cluster'') (label n ''namespace'') (Application n) (owner_Kind o') (owner_Name o')"
        using True o' \<open>workload n\<close> by (simp add: compoundParent_def workload_def Let_def)
      then show ?thesis using deep [OF hasNode_groups(5) [OF group_chain(4) [OF \<open>workload n\<close> n _ o']]] True by simp
    next
      case False
      then have "compoundParent n = (if Application n \<noteq> [] then applicationParentID (label n ''cluster'') (label n ''namespace'') (Application n)
          else namespaceParentID (label n ''cluster'') (label n ''namespace''))"
        using \<open>workload n\<close> unfolding workload_def by (elim conjE disjE) (simp_all add: compoundParent_def Let_def)
      then show ?thesis using g by simp
    qed
  next
    case False
    show ?thesis
    proof (cases "Type n = NodeTypeNetAppAggr \<and> label n ''ontap_cluster'' \<noteq> [] \<and> label n ''node'' \<noteq> []")
      case True
      then have parent: "compoundParent n = NetAppNodeID (label n ''ontap_cluster'') (label n ''node'')"
        by (simp add: compoundParent_def Let_def)
      obtain p where p: "p \<in> set (view_Nodes v)" "ID p = compoundParent n" "Type p = NodeTypeNetAppNode"
        using assms(1) [OF n, of "compoundParent n"] True unfolding parent by (auto simp: ownerID_def)
      have "(ID p, NodeTypeStr (Type p), compoundParent p) \<in> tag ` set (body_Nodes ?b)"
        unfolding Serialise_tags Un_iff tags by (intro disjI2 imageI p(1))
      then have "hasNode ?b (ID p) 4" by (rule hasNodeI) (simp add: p(3) tierOf_def)
      then show ?thesis using True unfolding nested_def p(2) by (intro disjI2 exI [of _ 4]) (simp add: tierOf_def)
    next
      case low: False
      have "compoundParent n = [] \<or> label n ''cluster'' \<noteq> [] \<and> compoundParent n = clusterParentID (label n ''cluster'') \<or>
          label n ''ontap_cluster'' \<noteq> [] \<and> compoundParent n = storageClusterParentID (label n ''ontap_cluster'')"
        using low False unfolding workload_def by (cases "Type n") (auto simp: compoundParent_def Let_def)
      then show ?thesis using deep [OF cluster] deep [OF storage] by (elim disjE conjE) (simp_all add: nested_def)
    qed
  qed
qed

lemma image_tuples:
  "x \<in> (\<lambda>(a, b). h2 a b) ` S2 \<longleftrightarrow> (\<exists>a b. (a, b) \<in> S2 \<and> x = h2 a b)"
  "x \<in> (\<lambda>(a, b, c). h3 a b c) ` S3 \<longleftrightarrow> (\<exists>a b c. (a, b, c) \<in> S3 \<and> x = h3 a b c)"
  "x \<in> (\<lambda>(a, b, c, d, e). h5 a b c d e) ` S5 \<longleftrightarrow> (\<exists>a b c d e. (a, b, c, d, e) \<in> S5 \<and> x = h5 a b c d e)"
  by (auto simp: image_iff split_beta) force+

lemma Serialise_nested:
  fixes v :: "'f View"
  assumes "\<And>a c. a \<in> set (view_Nodes v) \<Longrightarrow> Type a = NodeTypeNetAppAggr \<Longrightarrow> ownerID a = Some c \<Longrightarrow>
      \<exists>p\<in>set (view_Nodes v). ID p = c \<and> Type p = NodeTypeNetAppNode"
    and "m \<in> set (body_Nodes (Serialise r f gr v))"
  shows "nested (Serialise r f gr v) (nd_Type m) (nd_Parent m)"
proof -
  let ?b = "Serialise r f gr v"
  have ns: "hasNode ?b (clusterParentID c) 0" "hasNode ?b (namespaceParentID c ns) 1" if key: "(c, ns) \<in> fst ` set (nsSeen (groupsOf v))" for c ns
  proof -
    obtain n where "n \<in> set (view_Nodes v)" "workload n" "c = label n ''cluster''" "ns = label n ''namespace''"
      using key unfolding groupsOf_keys by (auto simp: nsOf_def split: if_splits)
    then show "hasNode ?b (clusterParentID c) 0" "hasNode ?b (namespaceParentID c ns) 1"
      using hasNode_groups(1) [OF group_chain(1)] hasNode_groups(3) [OF group_chain(2)] by blast+
  qed
  have app: "(c, ns) \<in> fst ` set (nsSeen (groupsOf v))" if "(c, ns, app) \<in> fst ` set (appSeen (groupsOf v))" for c ns app
    using that unfolding groupsOf_keys by (auto simp: nsOf_def appOf_def split: if_splits)
  have ctrl: "(c, ns) \<in> fst ` set (nsSeen (groupsOf v)) \<and> (app \<noteq> [] \<longrightarrow> (c, ns, app) \<in> fst ` set (appSeen (groupsOf v)))"
    if "(c, ns, app, kind, name) \<in> fst ` set (ctrlSeen (groupsOf v))" for c ns app kind name
    using that unfolding groupsOf_keys by (auto simp: nsOf_def appOf_def ctrlOf_def split: if_splits)
  have "(nd_ID m, nd_Type m, nd_Parent m) \<in> tag ` set (body_Nodes ?b)" using imageI [OF assms(2), of tag] by (simp add: tag_def)
  then consider (top) "nd_Parent m = []" | (nsg) c ns where "(c, ns) \<in> fst ` set (nsSeen (groupsOf v))" "nd_Type m = nodeTypeNamespace"
      "nd_Parent m = clusterParentID c"
    | (appg) c ns app where "(c, ns, app) \<in> fst ` set (appSeen (groupsOf v))" "nd_Type m = nodeTypeApplication" "nd_Parent m = namespaceParentID c ns"
    | (ctrlg) c ns app kind name where "(c, ns, app, kind, name) \<in> fst ` set (ctrlSeen (groupsOf v))" "nd_Type m = nodeTypeController"
      "nd_Parent m = (if app \<noteq> [] then applicationParentID c ns app else namespaceParentID c ns)"
    | (realg) n where "n \<in> set (view_Nodes v)" "nd_Type m = NodeTypeStr (Type n)" "nd_Parent m = compoundParent n"
    unfolding Serialise_tags tags Un_iff unfolding image_tuples(3) unfolding image_tuples(2)
    unfolding image_tuples(1) image_iff [of _ "\<lambda>c. (clusterParentID c, nodeTypeCluster, [])"]
      image_iff [of _ "\<lambda>oc. (storageClusterParentID oc, nodeTypeStorageCluster, [])"]
      image_iff [of _ "\<lambda>n. (ID n, NodeTypeStr (Type n), compoundParent n)"] prod.inject
    by (elim disjE exE bexE conjE)
  then show ?thesis
  proof cases
    case nsg
    show ?thesis unfolding nested_def nsg(2,3) by (intro disjI2 exI [of _ 0] conjI ns(1) [OF nsg(1)]) simp
  next
    case appg
    show ?thesis unfolding nested_def appg(2,3) by (intro disjI2 exI [of _ 1] conjI ns(2) [OF app [OF appg(1)]]) simp
  next
    case ctrlg
    note c = ctrl [OF ctrlg(1)]
    show ?thesis
    proof (cases "app = []")
      case True
      then show ?thesis using ns(2) [OF conjunct1 [OF c]] unfolding nested_def ctrlg(2,3)
        by (intro disjI2 exI [of _ 1] conjI) simp_all
    next
      case False
      then have "(c, ns, app) \<in> fst ` set (appSeen (groupsOf v))" using c by blast
      then show ?thesis using False unfolding nested_def ctrlg(2,3)
        by (intro disjI2 exI [of _ 2] conjI) (simp_all add: hasNode_groups(4))
    qed
  next
    case realg
    show ?thesis unfolding realg(2,3) by (rule nested_parents [OF assms(1) realg(1)])
  qed (simp add: nested_def)
qed

text \<open>Every aggregate of a graph comes with its controller (\<open>buildNetApp\<close> adds both).\<close>

definition ownersLoaded :: "'f Graph \<Rightarrow> bool" where
  "ownersLoaded g = list_all (\<lambda>(i, a). case ownerID a of None \<Rightarrow> True | Some c \<Rightarrow> gm_has (NodesByID g) c)
     (filter (\<lambda>(i, a). Type a = NodeTypeNetAppAggr) (NodesByID g))"

lemma view_owner:
  assumes "wf_graph g" and "typed_owners g" and "ownersLoaded g"
    and "a \<in> set (view_Nodes (Project (Some g) scope))" and "Type a = NodeTypeNetAppAggr" and "ownerID a = Some c"
  shows "\<exists>p\<in>set (view_Nodes (Project (Some g) scope)). ID p = c \<and> Type p = NodeTypeNetAppNode"
proof -
  have a: "viewSpec g scope (ID a) a" using assms(1,4) by (simp add: Project_nodes(1))
  then have get: "gm_get (NodesByID g) (ID a) = Some a" by (simp add: viewSpec_def)
  have "gm_has (NodesByID g) c"
    using assms(3,5,6) gm_get_in [OF get] by (fastforce simp: ownersLoaded_def list_all_iff)
  then obtain p where p: "gm_get (NodesByID g) c = Some p" unfolding gm_has_get by blast
  have ctl: "Type p = NodeTypeNetAppNode" by (rule typed_ownersD [OF assms(1,2) get assms(5,6) p])
  have "partnerSpec g scope (ID a) a"
  proof (rule ccontr)
    assume "\<not> partnerSpec g scope (ID a) a"
    then obtain j b where b: "partnerSpec g scope j b" "Type b = NodeTypeNetAppAggr" "ownerID b = Some (ID a)"
      using a by (auto simp: viewSpec_def)
    have "gm_get (NodesByID g) j = Some b" using b(1) by (simp add: partnerSpec_def)
    from typed_ownersD [OF assms(1,2) this b(2,3) get] assms(5) show False by simp
  qed
  then have "viewSpec g scope c p" using p assms(5,6) unfolding viewSpec_def by blast
  moreover have "ID p = c" using p wf_graphD(3) [OF assms(1)] by blast
  ultimately show ?thesis using ctl by (auto simp: Project_nodes(1) [OF assms(1)])
qed

section \<open>Group ids\<close>

text \<open>A group id is its ancestry joined with slashes.\<close>

definition slashFree :: "string \<Rightarrow> bool" where
  "slashFree s = (CHR ''/'' \<notin> set s)"

lemma Join_inj:
  assumes "list_all slashFree xs" and "list_all slashFree ys" and "xs \<noteq> []" and "ys \<noteq> []"
  shows "Join xs ''/'' = Join ys ''/'' \<longleftrightarrow> xs = ys"
  using assms
proof (induction xs arbitrary: ys)
  case (Cons x xs)
  obtain y ys' where ys: "ys = y # ys'" using Cons.prems by (cases ys) auto
  have x: "CHR ''/'' \<notin> set x" and y: "CHR ''/'' \<notin> set y" using Cons.prems by (simp_all add: slashFree_def ys)
  consider "xs = []" "ys' = []" | z zs where "xs = []" "ys' = z # zs" | z zs where "xs = z # zs" "ys' = []"
    | z zs z' zs' where "xs = z # zs" "ys' = z' # zs'" by (cases xs; cases ys') auto
  then show ?case
  proof cases
    case (2 z zs)
    have "CHR ''/'' \<in> set (Join (y # ys') ''/'')" by (simp add: 2)
    then have "x \<noteq> Join (y # ys') ''/''" using x by metis
    then show ?thesis by (simp add: ys 2)
  next
    case (3 z zs)
    have "CHR ''/'' \<in> set (Join (x # xs) ''/'')" by (simp add: 3)
    then have "Join (x # xs) ''/'' \<noteq> y" using y by metis
    then show ?thesis by (simp add: ys 3)
  next
    case (4 z zs z' zs')
    have "Join (x # xs) ''/'' = Join (y # ys') ''/'' \<longleftrightarrow> x = y \<and> Join xs ''/'' = Join ys' ''/''"
      using split_at_sep [OF _ x y] by (auto simp: 4)
    also have "\<dots> \<longleftrightarrow> x = y \<and> xs = ys'" using Cons.IH [of ys'] Cons.prems by (simp add: ys 4)
    finally show ?thesis by (simp add: ys)
  qed (simp add: ys)
qed simp


definition ctrlPath :: "ctrlKey \<Rightarrow> string list" where
  "ctrlPath = (\<lambda>(c, ns, app, kind, name).
     (if app \<noteq> [] then [c, ''namespace'', ns, ''application'', app] else [c, ''namespace'', ns]) @ [''controller'', kind, name])"

definition groupPaths :: "groupsSeen \<Rightarrow> string list list" where
  "groupPaths g = map (\<lambda>c. [''cluster'', c]) (sort (map fst (clusterSeen g)))
     @ map (\<lambda>oc. [''storage-cluster'', oc]) (sort (map fst (storageClusterSeen g)))
     @ map (\<lambda>(c, ns). [c, ''namespace'', ns]) (sort_key (\<lambda>(c, ns). namespaceParentID c ns) (map fst (nsSeen g)))
     @ map (\<lambda>(c, ns, app). [c, ''namespace'', ns, ''application'', app])
         (sort_key (\<lambda>(c, ns, app). applicationParentID c ns app) (map fst (appSeen g)))
     @ map ctrlPath (sort_key (\<lambda>(c, ns, app, kind, name). controllerParentID c ns app kind name) (map fst (ctrlSeen g)))"

definition groupNodes :: "(int \<Rightarrow> string) \<Rightarrow> 'f Graph option \<Rightarrow> groupsSeen \<Rightarrow> 'f NodeData list" where
  "groupNodes f gr g = clusterGroups g @ storageClusterGroups g @ namespaceGroups gr g @ applicationGroups f gr g @ controllerGroups g"

lemma group_ids: "map nd_ID (groupNodes f gr g) = map (\<lambda>p. Join p ''/'') (groupPaths g)"
  unfolding groupNodes_def groupPaths_def map_append map_map clusterGroups_def storageClusterGroups_def namespaceGroups_def
    applicationGroups_def controllerGroups_def
  by (intro arg_cong2 [where f = "(@)"] map_cong refl)
    (simp_all add: groupNode_def Let_def ctrlPath_def clusterParentID_def storageClusterParentID_def namespaceParentID_def
      applicationParentID_def controllerParentID_def split: prod.splits)

lemma ctrlPath_inj: "inj ctrlPath"
  by (rule injI) (auto simp: ctrlPath_def split: if_splits)

lemma distinct_sort_map: "inj f \<Longrightarrow> distinct (map fst m) \<Longrightarrow> distinct (map f (sort_key k (map fst m)))"
  by (simp add: distinct_map inj_on_subset [OF _ subset_UNIV])

lemma length_disjoint: "(\<forall>x\<in>set xs. P x) \<Longrightarrow> (\<forall>y\<in>set ys. \<not> P y) \<Longrightarrow> set xs \<inter> set ys = {}"
  by blast

lemma groupPaths_distinct:
  assumes "wf_groups g"
  shows "distinct (groupPaths g)"
proof -
  note wf = assms [unfolded wf_groups_def gm_wf_def]
  have d: "distinct (map (\<lambda>c. [''cluster'', c]) (sort (map fst (clusterSeen g))))"
    "distinct (map (\<lambda>oc. [''storage-cluster'', oc]) (sort (map fst (storageClusterSeen g))))"
    "distinct (map (\<lambda>(c, ns). [c, ''namespace'', ns]) (sort_key (\<lambda>(c, ns). namespaceParentID c ns) (map fst (nsSeen g))))"
    "distinct (map (\<lambda>(c, ns, app). [c, ''namespace'', ns, ''application'', app])
         (sort_key (\<lambda>(c, ns, app). applicationParentID c ns app) (map fst (appSeen g))))"
    "distinct (map ctrlPath (sort_key (\<lambda>(c, ns, app, kind, name). controllerParentID c ns app kind name) (map fst (ctrlSeen g))))"
    using wf by (auto intro!: distinct_sort_map ctrlPath_inj injI)
  have len: "length (ctrlPath k) > 5" for k by (auto simp: ctrlPath_def split: prod.splits)
  have long: "[a, b] \<noteq> ctrlPath k" "[a, b, c] \<noteq> ctrlPath k" "[a, b, c, d, e] \<noteq> ctrlPath k" for a b c d e k
    using len [of k] by (auto dest: arg_cong [of _ _ length])
  show ?thesis
    unfolding groupPaths_def distinct_append set_append Int_Un_distrib by (intro conjI d) (auto simp: long)
qed

definition slashFreeNames :: "'f View \<Rightarrow> bool" where
  "slashFreeNames v = list_all (\<lambda>n. slashFree (label n ''cluster'') \<and> slashFree (label n ''namespace'') \<and> slashFree (label n ''ontap_cluster'') \<and>
     slashFree (Application n) \<and>
     (case mOwner (methods n) of None \<Rightarrow> True | Some o' \<Rightarrow> slashFree (owner_Kind o') \<and> slashFree (owner_Name o'))) (view_Nodes v)"

lemma groupPaths_slashFree:
  assumes "slashFreeNames v" and "p \<in> set (groupPaths (groupsOf v))"
  shows "list_all slashFree p \<and> p \<noteq> []"
proof -
  have lit: "slashFree ''cluster''" "slashFree ''storage-cluster''" "slashFree ''namespace''" "slashFree ''application''" "slashFree ''controller''"
    by (simp_all add: slashFree_def)
  have keys: "\<forall>c\<in>fst ` set (clusterSeen (groupsOf v)). slashFree c"
    "\<forall>c\<in>fst ` set (storageClusterSeen (groupsOf v)). slashFree c"
    "\<forall>(c, ns)\<in>fst ` set (nsSeen (groupsOf v)). slashFree c \<and> slashFree ns"
    "\<forall>(c, ns, app)\<in>fst ` set (appSeen (groupsOf v)). slashFree c \<and> slashFree ns \<and> slashFree app"
    "\<forall>(c, ns, app, kind, name)\<in>fst ` set (ctrlSeen (groupsOf v)).
       slashFree c \<and> slashFree ns \<and> slashFree app \<and> slashFree kind \<and> slashFree name"
    using assms(1) unfolding groupsOf_keys slashFreeNames_def list_all_iff
    by (auto simp: nsOf_def appOf_def ctrlOf_def split: if_splits option.splits)
  have p: "p \<in> (\<lambda>c. [''cluster'', c]) ` fst ` set (clusterSeen (groupsOf v)) \<or>
    p \<in> (\<lambda>oc. [''storage-cluster'', oc]) ` fst ` set (storageClusterSeen (groupsOf v)) \<or>
    p \<in> (\<lambda>(c, ns). [c, ''namespace'', ns]) ` fst ` set (nsSeen (groupsOf v)) \<or>
    p \<in> (\<lambda>(c, ns, app). [c, ''namespace'', ns, ''application'', app]) ` fst ` set (appSeen (groupsOf v)) \<or>
    p \<in> ctrlPath ` fst ` set (ctrlSeen (groupsOf v))"
    using assms(2) unfolding groupPaths_def set_append Un_iff set_map set_sort .
  then show ?thesis using keys lit
    by (elim disjE imageE) (auto simp: ctrlPath_def)
qed

text \<open>
  A body is its group nodes followed by the nodes of the view in their order, and for names without a
  slash no two group nodes share an id, across tiers included. Each tier is sorted by id, so the body does not
  depend on the iteration order of the maps the groups are collected in.
\<close>

theorem Serialise_groups_distinct:
  assumes "slashFreeNames v"
  shows "\<exists>rest. body_Nodes (Serialise round6 rfc3339 gr v) = groupNodes rfc3339 gr (groupsOf v) @ rest \<and> map nd_ID rest = map ID (view_Nodes v) \<and>
    distinct (map nd_ID (groupNodes rfc3339 gr (groupsOf v) :: 'f NodeData list))"
proof (intro exI conjI)
  show "body_Nodes (Serialise round6 rfc3339 gr v) = groupNodes rfc3339 gr (groupsOf v) @ map (viewNode round6) (view_Nodes v)"
    by (simp add: Serialise_nodes groupNodes_def)
  show "map nd_ID (map (viewNode round6) (view_Nodes v)) = map ID (view_Nodes v)"
    by (simp add: viewNode_def groupNode_def Let_def)
  have "inj_on (\<lambda>p. Join p ''/'') (set (groupPaths (groupsOf v)))"
    using Join_inj groupPaths_slashFree [OF assms] by (intro inj_onI) blast
  moreover have "distinct (groupPaths (groupsOf v))" unfolding groupsOf_def by (rule groupPaths_distinct [OF groups_wf])
  ultimately show "distinct (map nd_ID (groupNodes rfc3339 gr (groupsOf v) :: 'f NodeData list))"
    unfolding group_ids by (simp add: distinct_map)
qed

definition exOwned :: "nat GraphNode list" where
  "exOwned = [Pod \<lparr> pod_IDValue = ''a/u1'', pod_NameValue = ''web-1'', pod_LabelsValue = [(''cluster'', ''a''), (''namespace'', ''shop'')],
       pod_IPAddressValue = [], pod_OwnerValue = Some \<lparr> owner_Kind = ''Deployment'', owner_Name = ''web'' \<rparr>, pod_ApplicationValue = ''site'',
       pod_ContainersValue = [], pod_AlertsValue = [], pod_StatusValue = [] \<rparr>,
     Aggr \<lparr> aggr_IDValue = ''netapp/oc/aggr/a1'', aggr_NameValue = ''a1'', aggr_LabelsValue = [(''ontap_cluster'', ''oc''), (''node'', ''n1'')],
       aggr_HealthValue = [], aggr_UsageValue = None, aggr_AlertsValue = [], aggr_StatusValue = [] \<rparr>,
     Ctrl \<lparr> ctrl_IDValue = ''netapp/oc/n1'', ctrl_NameValue = ''n1'', ctrl_LabelsValue = [(''ontap_cluster'', ''oc'')], ctrl_HealthValue = [],
       ctrl_HardwareValue = None, ctrl_PerfValue = None, ctrl_AlertsValue = [], ctrl_StatusValue = [] \<rparr>]"

definition exOwnedGraph :: "nat Graph" where
  "exOwnedGraph = NewGraph exOwned [] 0"

definition exBody :: "nat Body" where
  "exBody = Serialise (\<lambda>x. x) (\<lambda>t. []) None (Project (Some exOwnedGraph) (NewScope [] [] True))"

theorem Serialise_groups_distinct_witness:
  "distinct (map nd_ID (groupNodes (\<lambda>t. []) None (groupsOf (Project (Some exOwnedGraph) (NewScope [] [] True))) :: nat NodeData list))"
proof -
  have "slashFreeNames (Project (Some exOwnedGraph) (NewScope [] [] True))" by code_simp
  from Serialise_groups_distinct [OF this, of "\<lambda>x. x" "\<lambda>t. []" None] show ?thesis by blast
qed

section \<open>No cycles\<close>

text \<open>Ids and parents of a body, and the condition under which its ids are unique.\<close>

definition parentRel :: "'f Body \<Rightarrow> (string \<times> string) set" where
  "parentRel b = {(nd_ID m, nd_Parent m) | m. m \<in> set (body_Nodes b) \<and> nd_Parent m \<noteq> []}"

definition idsApart :: "'f View \<Rightarrow> bool" where
  "idsApart v = list_all (\<lambda>n. ID n \<notin> (\<lambda>p. Join p ''/'') ` set (groupPaths (groupsOf v))) (view_Nodes v)"

lemma apart: "\<forall>n\<in>N. h n \<notin> A \<Longrightarrow> A \<inter> h ` N = {}"
  by blast

lemma Serialise_distinct:
  assumes "slashFreeNames v" and "idsApart v" and "distinct (map (\<lambda>n. ID n) (view_Nodes v))"
  shows "distinct (map nd_ID (body_Nodes (Serialise round6 rfc3339 gr v)))"
proof -
  obtain rest where rest: "body_Nodes (Serialise round6 rfc3339 gr v) = groupNodes rfc3339 gr (groupsOf v) @ rest"
      "map nd_ID rest = map ID (view_Nodes v)" "distinct (map nd_ID (groupNodes rfc3339 gr (groupsOf v) :: 'a NodeData list))"
    using Serialise_groups_distinct [OF assms(1)] by blast
  have "set (map nd_ID (groupNodes rfc3339 gr (groupsOf v) :: 'a NodeData list)) \<inter> set (map nd_ID rest) = {}"
    unfolding group_ids rest(2) using assms(2) unfolding idsApart_def list_all_iff set_map by (rule apart)
  then show ?thesis using rest(3) assms(3) unfolding rest(1) map_append distinct_append rest(2) by simp
qed

text \<open>With unique ids the tier is a function of the id, and it falls along every parent.\<close>

lemma tiers_acyclic:
  assumes "distinct (map nd_ID (body_Nodes b))"
    and "\<And>m. m \<in> set (body_Nodes b) \<Longrightarrow> nested b (nd_Type m) (nd_Parent m)"
  shows "acyclic (parentRel b)"
proof -
  let ?m = "map_of (map (\<lambda>m. (nd_ID m, tierOf (nd_Type m))) (body_Nodes b))"
  have tier: "?m (nd_ID m) = Some (tierOf (nd_Type m))" if "m \<in> set (body_Nodes b)" for m
    by (rule map_of_is_SomeI) (use assms(1) that in \<open>auto simp: comp_def\<close>)
  have "the (?m q) < the (?m i)" if "(i, q) \<in> parentRel b" for i q
  proof -
    obtain m where m: "m \<in> set (body_Nodes b)" "i = nd_ID m" "q = nd_Parent m" "nd_Parent m \<noteq> []"
      using \<open>(i, q) \<in> parentRel b\<close> by (auto simp: parentRel_def)
    then obtain p where "p \<in> set (body_Nodes b)" "nd_ID p = q" "tierOf (nd_Type p) < tierOf (nd_Type m)"
      using assms(2) [OF m(1)] by (auto simp: nested_def hasNode_def)
    then show ?thesis using tier m(1,2) by auto
  qed
  then show ?thesis by (rule acyclicI_order)
qed

text \<open>
  C8: nesting in the /v1/graph body of a well-formed graph whose owners are loaded nodes of their type. Whatever
  the filters of the view, no parent dangles: the parent of every node of the body is empty or the id of a
  node of the body of a strictly lower tier (cluster, namespace, application, controller, node, aggregate). And when the names the groups are built from contain no slash and no real node has
  the id of a group, ids are unique in the body and following parents never cycles. The condition is needed: ids of
  groups and of real nodes share one space, and a claim may be its own parent (\<open>claim_own_parent\<close>).
\<close>

theorem graph_body_nested:
  assumes "wf_graph g" and "typed_owners g" and "ownersLoaded g"
    and "b = Serialise round6 rfc3339 gr (Project (Some g) scope)"
  shows "(\<forall>m\<in>set (body_Nodes b). nd_Parent m = [] \<or>
      (\<exists>p\<in>set (body_Nodes b). nd_ID p = nd_Parent m \<and> tierOf (nd_Type p) < tierOf (nd_Type m))) \<and>
    (slashFreeNames (Project (Some g) scope) \<and> idsApart (Project (Some g) scope) \<longrightarrow>
      distinct (map nd_ID (body_Nodes b)) \<and> acyclic (parentRel b))"
proof -
  have nested: "nested b (nd_Type m) (nd_Parent m)" if "m \<in> set (body_Nodes b)" for m
    unfolding assms(4) by (rule Serialise_nested [OF view_owner [OF assms(1-3)] that [unfolded assms(4)]])
  then have "\<forall>m\<in>set (body_Nodes b). nd_Parent m = [] \<or>
      (\<exists>p\<in>set (body_Nodes b). nd_ID p = nd_Parent m \<and> tierOf (nd_Type p) < tierOf (nd_Type m))"
    unfolding nested_def hasNode_def by fastforce
  moreover have "distinct (map nd_ID (body_Nodes b)) \<and> acyclic (parentRel b)"
    if "slashFreeNames (Project (Some g) scope) \<and> idsApart (Project (Some g) scope)"
  proof -
    have "distinct (map nd_ID (body_Nodes b))"
      unfolding assms(4) by (rule Serialise_distinct) (use that Project_nodes(3) [OF assms(1)] in simp_all)
    then show ?thesis using tiers_acyclic nested by blast
  qed
  ultimately show ?thesis by blast
qed

theorem graph_body_nested_witness:
  "acyclic (parentRel exBody) \<and> distinct (map nd_ID (body_Nodes exBody)) \<and>
   (\<exists>p\<in>set (body_Nodes exBody). nd_ID p = ''a/namespace/shop/application/site/controller/Deployment/web'' \<and> tierOf (nd_Type p) < 4)"
proof -
  define m where "m = hd (filter (\<lambda>m. nd_ID m = ''a/u1'') (body_Nodes exBody))"
  have m: "m \<in> set (body_Nodes exBody)" "nd_Parent m = ''a/namespace/shop/application/site/controller/Deployment/web''"
    "tierOf (nd_Type m) = 4"
    unfolding m_def by code_simp+
  have "wf_graph exOwnedGraph" unfolding exOwnedGraph_def by (rule NewGraph_wf)
  moreover have "typed_owners exOwnedGraph" "ownersLoaded exOwnedGraph" by code_simp+
  ultimately have "(\<forall>m\<in>set (body_Nodes exBody). nd_Parent m = [] \<or>
      (\<exists>p\<in>set (body_Nodes exBody). nd_ID p = nd_Parent m \<and> tierOf (nd_Type p) < tierOf (nd_Type m))) \<and>
    (slashFreeNames (Project (Some exOwnedGraph) (NewScope [] [] True)) \<and> idsApart (Project (Some exOwnedGraph) (NewScope [] [] True)) \<longrightarrow>
      distinct (map nd_ID (body_Nodes exBody)) \<and> acyclic (parentRel exBody))"
    by (rule graph_body_nested) (rule exBody_def)
  note body = this
  have "slashFreeNames (Project (Some exOwnedGraph) (NewScope [] [] True))" "idsApart (Project (Some exOwnedGraph) (NewScope [] [] True))"
    by code_simp+
  with body have "acyclic (parentRel exBody) \<and> distinct (map nd_ID (body_Nodes exBody))" by blast
  moreover have "\<exists>p\<in>set (body_Nodes exBody). nd_ID p = nd_Parent m \<and> tierOf (nd_Type p) < tierOf (nd_Type m)"
    using bspec [OF conjunct1 [OF body] m(1)] m(2) by simp
  ultimately show ?thesis unfolding m(2,3) by blast
qed

text \<open>
  The ids of groups and of real nodes are not kept apart: a claim \<open>shop\<close> of the namespace \<open>namespace\<close> has
  the id of the group of the namespace \<open>shop\<close>, although the constructors' comment calls the compound tree
  unambiguous by construction.
\<close>

definition exColliding :: "nat GraphNode list" where
  "exColliding = [PVC \<lparr> pvc_IDValue = PVCID ''a'' ''namespace'' ''shop'', pvc_NameValue = ''shop'',
       pvc_LabelsValue = [(''cluster'', ''a''), (''namespace'', ''namespace'')], pvc_StorageClassValue = [], pvc_ApplicationValue = [],
       pvc_UsageValue = None, pvc_QoSValue = None, pvc_AlertsValue = [], pvc_StatusValue = [] \<rparr>,
     Svc \<lparr> svc_IDValue = ServiceID ''a'' ''shop'' ''web'', svc_NameValue = ''web'', svc_LabelsValue = [(''cluster'', ''a''), (''namespace'', ''shop'')],
       svc_IPAddressValue = [], svc_ApplicationValue = [] \<rparr>]"

lemma group_id_collision:
  "filter (\<lambda>m. nd_ID m = ''a/namespace/shop'')
      (body_Nodes (Serialise (\<lambda>x. x) (\<lambda>t. []) None \<lparr> view_Nodes = exColliding, view_Edges = [] \<rparr>))
    = [(groupNode ''a/namespace/shop'' ''shop'' ''namespace'' ''cluster/a''),
       viewNode (\<lambda>x. x) (hd exColliding)]"
  by code_simp

text \<open>A claim \<open>namespace\<close> of the namespace \<open>namespace\<close> is rendered as its own parent.\<close>

definition exOwnParent :: "nat GraphNode" where
  "exOwnParent = PVC \<lparr> pvc_IDValue = PVCID ''a'' ''namespace'' ''namespace'', pvc_NameValue = ''namespace'',
       pvc_LabelsValue = [(''cluster'', ''a''), (''namespace'', ''namespace'')], pvc_StorageClassValue = [], pvc_ApplicationValue = [],
       pvc_UsageValue = None, pvc_QoSValue = None, pvc_AlertsValue = [], pvc_StatusValue = [] \<rparr>"

lemma claim_own_parent: "nd_ID (viewNode (\<lambda>x. x) exOwnParent) = nd_Parent (viewNode (\<lambda>x. x) exOwnParent)"
  by code_simp

end
