(* ===== verification/TopologyNodes.thy ===== *)
theory TopologyNodes
  imports Owners
begin

text \<open>
  Kubernetes nodes: the node part of \<open>parseTopology\<close> (\<open>pkg/build/topology.go\<close>) and
  \<open>resolveNodeReadyStatus\<close> (\<open>pkg/build/topology_attrs.go\<close>).

  Addresses, labels and the Ready condition are read into maps keyed by cluster and node name, and
  \<open>kube_node_info\<close> mints one node per key from them. A Go map or vector is a list as in theory Owners; the sample
  value 1 is the \<open>1\<close> of the type of values.

  The lemmas show what every attribute is, and that none depends on the order of rows.
\<close>

type_synonym nodeKey = "string \<times> string"

section \<open>Addresses\<close>

record nodeAddrs =
  na_external :: string
  na_internal :: string

definition noAddrs :: nodeAddrs where
  "noAddrs = \<lparr> na_external = [], na_internal = [] \<rparr>"

definition pickAddr :: "nodeAddrs \<Rightarrow> string" where
  "pickAddr a = (if na_external a \<noteq> [] then na_external a else na_internal a)"

definition addrStep :: "clusterResolver \<Rightarrow> 'f Row \<Rightarrow> (nodeKey, nodeAddrs) gomap \<Rightarrow> (nodeKey, nodeAddrs) gomap" where
  "addrStep mc s m =
     (let cluster = bucketed mc QNodeAddresses s; nodeName = row_str s ''node''; typ = row_str s ''type'';
          addr = row_str s ''address'' in
      if addr \<noteq> [] \<and> (typ = ''ExternalIP'' \<or> typ = ''InternalIP'') then
        let key = (cluster, nodeName); cur = (case gm_get m key of Some a \<Rightarrow> a | None \<Rightarrow> noAddrs);
            cur = (if typ = ''ExternalIP'' then
                (if na_external cur = [] \<or> addr < na_external cur then cur\<lparr> na_external := addr \<rparr> else cur)
              else (if na_internal cur = [] \<or> addr < na_internal cur then cur\<lparr> na_internal := addr \<rparr> else cur))
        in gm_put key cur m
      else m)"

definition nodeIPs :: "'f Row list \<Rightarrow> clusterResolver \<Rightarrow> (nodeKey, nodeAddrs) gomap" where
  "nodeIPs vec mc = fold (addrStep mc) vec []"

section \<open>Labels\<close>

text \<open>\<open>strings.ReplaceAll(s, "_", ".")\<close>, then the cut at the last dot when there is an earlier one.\<close>

definition unflattenLabel :: "string \<Rightarrow> string" where
  "unflattenLabel flattened =
     (let s = (if take 6 flattened = ''label_'' then drop 6 flattened else flattened);
          withDots = map (\<lambda>c. if c = CHR ''_'' then CHR ''.'' else c) s;
          tail = takeWhile (\<lambda>c. c \<noteq> CHR ''.'') (rev withDots);
          front = take (length withDots - length tail - 1) withDots
      in if CHR ''.'' \<in> set withDots \<and> CHR ''.'' \<in> set front then front @ ''/'' @ rev tail else withDots)"

definition labelOffer :: "string \<times> string \<Rightarrow> (string \<times> string) option" where
  "labelOffer = (\<lambda>(name, v). if take 6 name = ''label_'' then Some (unflattenLabel name, v) else None)"

definition nodeLabelStep :: "clusterResolver \<Rightarrow> 'f Row \<Rightarrow> (nodeKey, labels) gomap \<Rightarrow> (nodeKey, labels) gomap" where
  "nodeLabelStep mc s m =
     (let key = (bucketed mc QNodeLabels s, row_str s ''node'');
          m = (if gm_has m key then m else gm_put key [] m)
      in gm_put key (pickAll (<) labelOffer (sm_metric s) (case gm_get m key of Some ls \<Rightarrow> ls | None \<Rightarrow> [])) m)"

definition nodeLabels :: "'f Row list \<Rightarrow> clusterResolver \<Rightarrow> (nodeKey, labels) gomap" where
  "nodeLabels vec mc = fold (nodeLabelStep mc) vec []"

section \<open>The Ready condition\<close>

definition readyStatusFromLabel :: "string \<Rightarrow> string" where
  "readyStatusFromLabel status =
     (if status = ''true'' then ReadyStatusReady
      else if status = ''false'' then ReadyStatusNotReady
      else if status = ''unknown'' then ReadyStatusUnknown
      else [])"

definition readyOffer :: "clusterResolver \<Rightarrow> ('f :: one) Row \<Rightarrow> (nodeKey \<times> string) option" where
  "readyOffer mc s =
     (if row_str s ''condition'' \<noteq> ''Ready'' \<or> sm_value s \<noteq> 1 then None
      else
        let status = ToLower (row_str s ''status'') in
        if readyStatusFromLabel status = [] then None
        else
          let cluster = bucketed mc QNodeStatusCondition s; node = row_str s ''node'' in
          if node = [] then None else Some ((cluster, node), status))"

definition resolveNodeReadyStatus :: "('f :: one) Row list \<Rightarrow> clusterResolver \<Rightarrow> (nodeKey, string) gomap" where
  "resolveNodeReadyStatus vec mc =
     map (\<lambda>(key, status). (key, readyStatusFromLabel status)) (pickAll (<) (readyOffer mc) vec [])"

section \<open>Nodes\<close>

definition nodeKeyOf :: "clusterResolver \<Rightarrow> 'f Row \<Rightarrow> nodeKey" where
  "nodeKeyOf mc s = (bucketed mc QNodeInfo s, row_str s ''node'')"

definition k8sNodeOf ::
  "(nodeKey, nodeAddrs) gomap \<Rightarrow> (nodeKey, labels) gomap \<Rightarrow> (nodeKey, string) gomap \<Rightarrow> nodeKey \<Rightarrow> K8sNode" where
  "k8sNodeOf ips labels ready key =
     (let ip = pickAddr (case gm_get ips key of Some a \<Rightarrow> a | None \<Rightarrow> noAddrs) in
      \<lparr> k8s_IDValue = K8sNodeID (fst key) (snd key), k8s_NameValue = snd key,
        k8s_LabelsValue = gm_put ''cluster'' (fst key) (case gm_get labels key of Some ls \<Rightarrow> ls | None \<Rightarrow> []),
        k8s_IPAddressValue = (if ip \<noteq> [] then [ip] else []),
        k8s_ReadyStatusValue = gm_str ready key, k8s_AlertsValue = [], k8s_StatusValue = [] \<rparr>)"

text \<open>The loop over \<open>kube_node_info\<close>; the state is the slice and \<open>seenNodes\<close>.\<close>

definition nodeStep ::
  "(nodeKey, nodeAddrs) gomap \<Rightarrow> (nodeKey, labels) gomap \<Rightarrow> (nodeKey, string) gomap \<Rightarrow> clusterResolver \<Rightarrow> 'f Row
     \<Rightarrow> K8sNode list \<times> nodeKey list \<Rightarrow> K8sNode list \<times> nodeKey list" where
  "nodeStep ips labels ready mc s = (\<lambda>(nodes, seenNodes).
     let key = nodeKeyOf mc s in
     if snd key = [] \<or> key \<in> set seenNodes then (nodes, seenNodes)
     else (nodes @ [k8sNodeOf ips labels ready key], seenNodes @ [key]))"

definition topologyNodes ::
  "'f Row list \<Rightarrow> 'f Row list \<Rightarrow> ('f :: one) Row list \<Rightarrow> 'f Row list \<Rightarrow> clusterResolver \<Rightarrow> K8sNode list" where
  "topologyNodes addr nodeLabelsVec nodeStatus node mc =
     fst (fold (nodeStep (nodeIPs addr mc) (nodeLabels nodeLabelsVec mc) (resolveNodeReadyStatus nodeStatus mc) mc) node ([], []))"

section \<open>What the attributes are\<close>

definition smallestOf :: "string set \<Rightarrow> string" where
  "smallestOf V = (case least V of None \<Rightarrow> [] | Some v \<Rightarrow> v)"

lemma smallestOf_insert:
  assumes "finite V" and "[] \<notin> V" and "a \<noteq> []"
  shows "smallestOf (insert a V) = (if smallestOf V = [] \<or> a < smallestOf V then a else smallestOf V)"
proof (cases "V = {}")
  case False
  then have "Min V \<in> V" using assms(1) by simp
  then have "Min V \<noteq> []" using assms(2) by metis
  moreover have "Min (insert a V) = (if a < Min V then a else Min V)"
    unfolding Min_insert [OF assms(1) False] by (simp add: min.absorb3 min.absorb2 not_less)
  ultimately show ?thesis using False by (simp add: smallestOf_def least_def)
qed (simp add: smallestOf_def least_def)

definition addresses :: "clusterResolver \<Rightarrow> string \<Rightarrow> 'f Row set \<Rightarrow> nodeKey \<Rightarrow> string set" where
  "addresses mc typ A key = (\<lambda>s. row_str s ''address'') ` {s \<in> A. (bucketed mc QNodeAddresses s, row_str s ''node'') = key \<and>
     row_str s ''type'' = typ} - {[]}"

lemma addrStep_get:
  "gm_get (addrStep mc s m) key =
     (if row_str s ''address'' \<noteq> [] \<and> (row_str s ''type'' = ''ExternalIP'' \<or> row_str s ''type'' = ''InternalIP'') \<and>
         (bucketed mc QNodeAddresses s, row_str s ''node'') = key
      then let cur = (case gm_get m key of Some a \<Rightarrow> a | None \<Rightarrow> noAddrs) in
        Some (if row_str s ''type'' = ''ExternalIP'' then
                (if na_external cur = [] \<or> row_str s ''address'' < na_external cur then cur\<lparr> na_external := row_str s ''address'' \<rparr> else cur)
              else (if na_internal cur = [] \<or> row_str s ''address'' < na_internal cur then cur\<lparr> na_internal := row_str s ''address'' \<rparr> else cur))
      else gm_get m key)"
  unfolding addrStep_def Let_def by auto

definition addrsOf :: "(nodeKey, nodeAddrs) gomap \<Rightarrow> nodeKey \<Rightarrow> nodeAddrs" where
  "addrsOf m key = (case gm_get m key of Some a \<Rightarrow> a | None \<Rightarrow> noAddrs)"

lemma addresses_insert:
  "addresses mc typ (insert s A) key =
     (if (bucketed mc QNodeAddresses s, row_str s ''node'') = key \<and> row_str s ''type'' = typ \<and> row_str s ''address'' \<noteq> []
      then insert (row_str s ''address'') (addresses mc typ A key) else addresses mc typ A key)"
  by (auto simp: addresses_def)

lemma addresses_finite: "finite (addresses mc typ (set vec) key)" and addresses_not_Nil: "[] \<notin> addresses mc typ A key"
  by (simp_all add: addresses_def)

lemma nodeIPs_addrs:
  "addrsOf (nodeIPs vec mc) key = \<lparr> na_external = smallestOf (addresses mc ''ExternalIP'' (set vec) key),
     na_internal = smallestOf (addresses mc ''InternalIP'' (set vec) key) \<rparr>"
proof (induction vec rule: rev_induct)
  case Nil
  then show ?case by (simp add: addrsOf_def nodeIPs_def noAddrs_def addresses_def smallestOf_def least_def)
next
  case (snoc s vec)
  let ?E = "addresses mc ''ExternalIP'' (set vec) key" and ?I = "addresses mc ''InternalIP'' (set vec) key"
  have step: "nodeIPs (vec @ [s]) mc = addrStep mc s (nodeIPs vec mc)" by (simp add: nodeIPs_def)
  have ins: "set (vec @ [s]) = insert s (set vec)" by simp
  have small: "smallestOf (insert (row_str s ''address'') ?E) = (if smallestOf ?E = [] \<or> row_str s ''address'' < smallestOf ?E
        then row_str s ''address'' else smallestOf ?E)"
    "smallestOf (insert (row_str s ''address'') ?I) = (if smallestOf ?I = [] \<or> row_str s ''address'' < smallestOf ?I
        then row_str s ''address'' else smallestOf ?I)" if "row_str s ''address'' \<noteq> []"
    by (rule smallestOf_insert [OF addresses_finite addresses_not_Nil that])+
  show ?case
  proof (cases "row_str s ''address'' \<noteq> [] \<and> (row_str s ''type'' = ''ExternalIP'' \<or> row_str s ''type'' = ''InternalIP'') \<and>
         (bucketed mc QNodeAddresses s, row_str s ''node'') = key")
    case True
    then have "addrsOf (addrStep mc s (nodeIPs vec mc)) key =
       (let cur = addrsOf (nodeIPs vec mc) key in
        if row_str s ''type'' = ''ExternalIP'' then
                (if na_external cur = [] \<or> row_str s ''address'' < na_external cur then cur\<lparr> na_external := row_str s ''address'' \<rparr> else cur)
              else (if na_internal cur = [] \<or> row_str s ''address'' < na_internal cur then cur\<lparr> na_internal := row_str s ''address'' \<rparr> else cur))"
      by (simp add: addrsOf_def addrStep_get Let_def)
    then show ?thesis using True small unfolding step ins addresses_insert snoc.IH by (auto simp: Let_def)
  next
    case False
    then have "addrsOf (addrStep mc s (nodeIPs vec mc)) key = addrsOf (nodeIPs vec mc) key"
      unfolding addrsOf_def addrStep_get by (simp only: if_False)
    moreover have "addresses mc k (insert s (set vec)) key = addresses mc k (set vec) key"
      if "k = ''ExternalIP'' \<or> k = ''InternalIP''" for k
      using False that unfolding addresses_insert by auto
    ultimately show ?thesis unfolding step ins using snoc.IH by simp
  qed
qed

text \<open>The values of one label over the label rows of a node.\<close>

definition labelValues :: "clusterResolver \<Rightarrow> 'f Row set \<Rightarrow> nodeKey \<Rightarrow> string \<Rightarrow> string set" where
  "labelValues mc A key lk =
     (\<Union>s\<in>{s \<in> A. (bucketed mc QNodeLabels s, row_str s ''node'') = key}. offers labelOffer (set (sm_metric s)) lk)"

definition labelsAt :: "(nodeKey, labels) gomap \<Rightarrow> nodeKey \<Rightarrow> labels" where
  "labelsAt m key = (case gm_get m key of Some ls \<Rightarrow> ls | None \<Rightarrow> [])"

lemma nodeLabelStep_at:
  "labelsAt (nodeLabelStep mc s m) key =
     (if (bucketed mc QNodeLabels s, row_str s ''node'') = key then pickAll (<) labelOffer (sm_metric s) (labelsAt m key)
      else labelsAt m key)"
  by (auto simp: nodeLabelStep_def labelsAt_def Let_def gm_has_get)

lemma labelValues_insert:
  "labelValues mc (insert s A) key lk =
     (if (bucketed mc QNodeLabels s, row_str s ''node'') = key then offers labelOffer (set (sm_metric s)) lk \<union> labelValues mc A key lk
      else labelValues mc A key lk)"
  by (auto simp: labelValues_def)

lemma labelValues_finite: "finite (labelValues mc (set vec) key lk)"
  by (simp add: labelValues_def)

lemma least_Some: "set_option (least V) = (if V = {} then {} else {Min V})"
  by (simp add: least_def)

lemma least_fold: "finite V \<Longrightarrow> finite W \<Longrightarrow> least (set_option (least V) \<union> W) = least (W \<union> V)"
  by (cases "V = {}"; cases "W = {}") (simp_all add: least_def Min_Un min.commute)

lemma nodeLabels_get: "gm_get (labelsAt (nodeLabels vec mc) key) lk = least (labelValues mc (set vec) key lk)"
proof (induction vec rule: rev_induct)
  case Nil
  then show ?case by (simp add: labelsAt_def nodeLabels_def labelValues_def least_def)
next
  case (snoc s vec)
  have step: "nodeLabels (vec @ [s]) mc = nodeLabelStep mc s (nodeLabels vec mc)" by (simp add: nodeLabels_def)
  have ins: "set (vec @ [s]) = insert s (set vec)" by simp
  show ?case
    unfolding step ins nodeLabelStep_at labelValues_insert
    by (simp add: pick_least_from snoc.IH least_fold labelValues_finite)
qed

lemma ready_get:
  "gm_get (resolveNodeReadyStatus vec mc) key = map_option readyStatusFromLabel (least (offers (readyOffer mc) (set vec) key))"
  unfolding resolveNodeReadyStatus_def gm_get_map_snd pick_least ..

section \<open>The nodes\<close>

definition nodeKeys :: "clusterResolver \<Rightarrow> 'f Row set \<Rightarrow> nodeKey set" where
  "nodeKeys mc A = {key \<in> nodeKeyOf mc ` A. snd key \<noteq> []}"

lemma nodeStep_fold:
  assumes "nodes = map (k8sNodeOf ips labels ready) seen" and "distinct seen"
  shows "case fold (nodeStep ips labels ready mc) vec (nodes, seen) of
     (nodes', seen') \<Rightarrow> nodes' = map (k8sNodeOf ips labels ready) seen' \<and> distinct seen' \<and> set seen' = set seen \<union> nodeKeys mc (set vec)"
  using assms
proof (induction vec arbitrary: nodes seen)
  case (Cons s vec)
  let ?key = "nodeKeyOf mc s"
  show ?case
  proof (cases "snd ?key = [] \<or> ?key \<in> set seen")
    case True
    then have "nodeStep ips labels ready mc s (nodes, seen) = (nodes, seen)" by (simp add: nodeStep_def Let_def)
    moreover have "set seen \<union> nodeKeys mc (set (s # vec)) = set seen \<union> nodeKeys mc (set vec)" using True by (auto simp: nodeKeys_def)
    ultimately show ?thesis using Cons.IH [OF Cons.prems] by simp
  next
    case False
    then have step: "nodeStep ips labels ready mc s (nodes, seen) = (nodes @ [k8sNodeOf ips labels ready ?key], seen @ [?key])"
      by (simp add: nodeStep_def Let_def)
    have "set seen \<union> nodeKeys mc (set (s # vec)) = set (seen @ [?key]) \<union> nodeKeys mc (set vec)" using False by (auto simp: nodeKeys_def)
    then show ?thesis using Cons.IH [of "nodes @ [k8sNodeOf ips labels ready ?key]" "seen @ [?key]"] Cons.prems False
      unfolding fold_simps step by simp
  qed
qed (simp add: nodeKeys_def)

text \<open>What a consumer reads of a node.\<close>

definition nodeFacts :: "K8sNode \<Rightarrow> string \<times> string \<times> (string \<Rightarrow> string option) \<times> string list \<times> string" where
  "nodeFacts n = (k8s_IDValue n, k8s_NameValue n, gm_get (k8s_LabelsValue n), k8s_IPAddressValue n, k8s_ReadyStatusValue n)"

definition nodeSpec :: "'f Row set \<Rightarrow> 'f Row set \<Rightarrow> ('f :: one) Row set \<Rightarrow> clusterResolver \<Rightarrow> nodeKey
    \<Rightarrow> string \<times> string \<times> (string \<Rightarrow> string option) \<times> string list \<times> string" where
  "nodeSpec addr nl status mc key =
     (let ext = smallestOf (addresses mc ''ExternalIP'' addr key); int = smallestOf (addresses mc ''InternalIP'' addr key);
          ip = (if ext \<noteq> [] then ext else int) in
      (K8sNodeID (fst key) (snd key), snd key, (\<lambda>lk. least (labelValues mc nl key lk))(''cluster'' \<mapsto> fst key),
       if ip = [] then [] else [ip],
       case least (offers (readyOffer mc) status key) of None \<Rightarrow> [] | Some v \<Rightarrow> readyStatusFromLabel v))"

lemma k8sNodeOf_facts:
  "nodeFacts (k8sNodeOf (nodeIPs addr mc) (nodeLabels nl mc) (resolveNodeReadyStatus status mc) key) =
     nodeSpec (set addr) (set nl) (set status) mc key"
proof -
  have l: "gm_get (case gm_get (nodeLabels nl mc) key of None \<Rightarrow> [] | Some ls \<Rightarrow> ls) = (\<lambda>lk. least (labelValues mc (set nl) key lk))"
    using nodeLabels_get [of nl mc key] by (simp add: labelsAt_def fun_eq_iff)
  have a: "(case gm_get (nodeIPs addr mc) key of None \<Rightarrow> noAddrs | Some a \<Rightarrow> a) =
      \<lparr> na_external = smallestOf (addresses mc ''ExternalIP'' (set addr) key), na_internal = smallestOf (addresses mc ''InternalIP'' (set addr) key) \<rparr>"
    using nodeIPs_addrs [of addr mc key] by (simp add: addrsOf_def)
  show ?thesis
    unfolding nodeFacts_def k8sNodeOf_def nodeSpec_def Let_def a
    by (simp add: l pickAddr_def gm_str_get ready_get split: option.split)
qed

text \<open>
  C29: there is exactly one node per cluster and named row of \<open>kube_node_info\<close>, and its attributes are
  determined by the sets of rows: the smallest external, else the smallest internal address, the smallest value
  of every label, the \<open>cluster\<close> label always the node's own cluster, and the smallest active Ready status.
  Neither repetition nor order of rows matters.
\<close>

theorem topologyNodes_exact:
  "\<exists>keys. distinct keys \<and> set keys = nodeKeys mc (set node) \<and>
     map nodeFacts (topologyNodes addr nl status node mc) = map (nodeSpec (set addr) (set nl) (set status) mc) keys"
proof -
  obtain nodes keys where res: "fold (nodeStep (nodeIPs addr mc) (nodeLabels nl mc) (resolveNodeReadyStatus status mc) mc) node ([], []) = (nodes, keys)"
    by fastforce
  have "nodes = map (k8sNodeOf (nodeIPs addr mc) (nodeLabels nl mc) (resolveNodeReadyStatus status mc)) keys"
    "distinct keys" "set keys = nodeKeys mc (set node)"
    using nodeStep_fold [of "[]" "nodeIPs addr mc" "nodeLabels nl mc" "resolveNodeReadyStatus status mc" "[]" mc node]
    unfolding res by simp_all
  then show ?thesis by (intro exI [of _ keys]) (simp add: topologyNodes_def res k8sNodeOf_facts)
qed

end
