(* ===== verification/TopologyPods.thy ===== *)
theory TopologyPods
  imports Owners
begin

text \<open>
  Pods: the pod part of \<open>parseTopology\<close> and \<open>mergeSameUIDLabels\<close> (\<open>pkg/build/topology.go\<close>,
  \<open>topology_types.go\<close>).

  A row of \<open>kube_pod_info\<close> comes with its timestamp. Rows are grouped by cluster, namespace and name; the newest
  row of a group names the pod, and rows of the same UID complete its labels and address. The loop over
  \<open>podGroups\<close> ranges over a Go map, so its order is any order of the list.

  The lemmas show which rows a pod is built from and when the order of rows does not matter.
\<close>

type_synonym podKey = "string \<times> string \<times> string"

record podObs =
  po_uid :: string
  po_nodeID :: string
  po_ts :: int
  po_labels :: labels
  po_nodeRaw :: string
  po_podIP :: string

definition podObsOf :: "clusterResolver \<Rightarrow> 'f Row \<times> int \<Rightarrow> (podKey \<times> podObs) option" where
  "podObsOf mc = (\<lambda>(s, ts).
     let cluster = bucketed mc QPodInfo s; ns = row_str s ''namespace''; name = row_str s ''pod''; uid = row_str s ''uid'';
         nodeName = row_str s ''node''; podIP = row_str s ''pod_ip'' in
     if uid = [] then None
     else
       let ls = [(''cluster'', cluster), (''namespace'', ns)];
           ls = (if nodeName \<noteq> [] then gm_put ''node'' (K8sNodeID cluster nodeName) ls else ls)
       in Some ((cluster, ns, name),
           \<lparr> po_uid = uid, po_nodeID = K8sNodeID cluster nodeName, po_ts = ts, po_labels = ls, po_nodeRaw = nodeName,
             po_podIP = podIP \<rparr>))"

definition podGroups :: "('f Row \<times> int) list \<Rightarrow> clusterResolver \<Rightarrow> (podKey, podObs list) gomap" where
  "podGroups vec mc = fold (\<lambda>r m. case podObsOf mc r of None \<Rightarrow> m | Some (k, obs) \<Rightarrow> gm_append k obs m) vec []"

text \<open>\<open>SortStableFunc\<close> by descending timestamp, then descending UID: the stable ascending sort of the reverse, reversed.\<close>

definition sortNewest :: "podObs list \<Rightarrow> podObs list" where
  "sortNewest grp = rev (sort_key (\<lambda>obs. (po_ts obs, po_uid obs)) (rev grp))"

definition fillLabels :: "labels \<Rightarrow> labels \<Rightarrow> labels" where
  "fillLabels ls acc = fold (\<lambda>(k, v) m. if v = [] then m else if gm_has m k then m else gm_put k v m) ls acc"

definition mergeSameUIDLabels :: "podObs list \<Rightarrow> (string, labels) gomap" where
  "mergeSameUIDLabels grp =
     fold (\<lambda>obs out.
        gm_put (po_uid obs) (fillLabels (po_labels obs) (case gm_get out (po_uid obs) of Some m \<Rightarrow> m | None \<Rightarrow> [])) out) grp []"

text \<open>The loop body over one group, already sorted.\<close>

definition canonicalPod ::
  "(podNameKey, ownerRef) gomap \<Rightarrow> (podNameKey, string) gomap \<Rightarrow> (podNameKey, Container list) gomap \<Rightarrow> podKey \<Rightarrow> podObs list
     \<Rightarrow> PodNode" where
  "canonicalPod owners apps containers k grp =
     (let mergedLabels = mergeSameUIDLabels grp; canonical = hd grp;
          ip = (case find (\<lambda>obs. po_uid obs = po_uid canonical \<and> po_podIP obs \<noteq> []) grp of
                  Some obs \<Rightarrow> po_podIP obs | None \<Rightarrow> [])
      in \<lparr> pod_IDValue = PodID (fst k) (po_uid canonical), pod_NameValue = snd (snd k),
           pod_LabelsValue = (case gm_get mergedLabels (po_uid canonical) of Some m \<Rightarrow> m | None \<Rightarrow> []),
           pod_IPAddressValue = (if ip \<noteq> [] then [ip] else []),
           pod_OwnerValue = map_option (\<lambda>o'. \<lparr> owner_Kind = fst o', owner_Name = snd o' \<rparr>) (gm_get owners k),
           pod_ApplicationValue = gm_str apps k, pod_ContainersValue = gm_list containers k,
           pod_AlertsValue = [], pod_StatusValue = [] \<rparr>)"

definition addPodToIndex :: "string \<Rightarrow> PodNode \<Rightarrow> (string, PodNode) gomap \<Rightarrow> (string, PodNode) gomap" where
  "addPodToIndex uid pod m =
     (if uid = [] then m
      else case gm_get m uid of
        Some existing \<Rightarrow> if pod_IDValue existing \<le> pod_IDValue pod then m else gm_put uid pod m
      | None \<Rightarrow> gm_put uid pod m)"

record topologyPods =
  tps_Pods :: "PodNode list"
  tps_PodsByUID :: "(string, PodNode) gomap"
  tps_PodsByNameNS :: "(podNameKey, PodNode) gomap"
  tps_canonicalPodUID :: "(podKey, string) gomap"

text \<open>The two loops over \<open>podGroups\<close>; the sort of a group is in place, so the second sees it sorted.\<close>

definition assemblePods ::
  "(podNameKey, ownerRef) gomap \<Rightarrow> (podNameKey, string) gomap \<Rightarrow> (podNameKey, Container list) gomap
     \<Rightarrow> (podKey, podObs list) gomap \<Rightarrow> topologyPods" where
  "assemblePods owners apps containers groups =
     fold (\<lambda>(k, grp) t.
        let grp = sortNewest grp; pod = canonicalPod owners apps containers k grp in
        \<lparr> tps_Pods = tps_Pods t @ [pod], tps_PodsByUID = addPodToIndex (po_uid (hd grp)) pod (tps_PodsByUID t),
          tps_PodsByNameNS = gm_put k pod (tps_PodsByNameNS t),
          tps_canonicalPodUID = gm_put k (po_uid (hd grp)) (tps_canonicalPodUID t) \<rparr>)
       groups \<lparr> tps_Pods = [], tps_PodsByUID = [], tps_PodsByNameNS = [], tps_canonicalPodUID = [] \<rparr>"

section \<open>Groups\<close>

lemma podGroups_fold:
  "podGroups vec mc = fold (\<lambda>x. gm_append (fst x) (snd x)) (List.map_filter (podObsOf mc) vec) []"
proof -
  have "fold (\<lambda>r m. case podObsOf mc r of None \<Rightarrow> m | Some (k, obs) \<Rightarrow> gm_append k obs m) vec m =
      fold (\<lambda>x. gm_append (fst x) (snd x)) (List.map_filter (podObsOf mc) vec) m" for m
    by (induction vec arbitrary: m) (auto simp: List.map_filter_def split: option.splits)
  then show ?thesis by (simp add: podGroups_def)
qed

lemma podGroups_list:
  "gm_list (podGroups vec mc) k = map snd (filter (\<lambda>x. fst x = k) (List.map_filter (podObsOf mc) vec))"
  unfolding podGroups_fold gm_list_fold_append by (simp add: gm_list_def)

lemma map_filter_mset: "mset xs = mset ys \<Longrightarrow> mset (List.map_filter f xs) = mset (List.map_filter f ys)"
  by (simp add: List.map_filter_def)

lemma podGroups_mset: "mset vec = mset vec' \<Longrightarrow> mset (gm_list (podGroups vec mc) k) = mset (gm_list (podGroups vec' mc) k)"
  unfolding podGroups_list mset_map mset_filter using map_filter_mset [of vec vec' "podObsOf mc"] by simp

lemma append_keys: "fst ` set (fold (\<lambda>x. gm_append (fst x) (snd x)) xs m) = fst ` set m \<union> fst ` set xs"
  by (induction xs arbitrary: m) (auto simp: gm_append_def)

lemma append_wf: "gm_wf m \<Longrightarrow> gm_wf (fold (\<lambda>x. gm_append (fst x) (snd x)) xs m)"
  by (induction xs arbitrary: m) (auto simp: gm_append_def)

lemma podGroups_wf: "gm_wf (podGroups vec mc)"
  unfolding podGroups_fold by (rule append_wf) simp

lemma podGroups_get:
  "gm_get (podGroups vec mc) k = (if gm_list (podGroups vec mc) k = [] then None else Some (gm_list (podGroups vec mc) k))"
proof (cases "gm_get (podGroups vec mc) k")
  case None
  then show ?thesis by (simp add: gm_list_def gm_get_def)
next
  case (Some g)
  then have g: "gm_list (podGroups vec mc) k = g" by (simp add: gm_list_def gm_get_def)
  have "k \<in> fst ` set (podGroups vec mc)" using gm_get_in [OF Some] by force
  then have "k \<in> fst ` set (List.map_filter (podObsOf mc) vec)" unfolding podGroups_fold append_keys by simp
  then have "filter (\<lambda>x. fst x = k) (List.map_filter (podObsOf mc) vec) \<noteq> []" by (auto simp: filter_empty_conv)
  then have "g \<noteq> []" unfolding g [symmetric] podGroups_list by simp
  then show ?thesis using Some g by simp
qed

section \<open>The newest row\<close>

lemma sortNewest_set [simp]: "set (sortNewest g) = set g"
  by (simp add: sortNewest_def)

lemma sortNewest_Nil [simp]: "sortNewest g = [] \<longleftrightarrow> g = []"
  by (metis sortNewest_set set_empty)

lemma sortNewest_hd:
  assumes "obs \<in> set g"
  shows "(po_ts obs, po_uid obs) \<le> (po_ts (hd (sortNewest g)), po_uid (hd (sortNewest g)))"
proof -
  let ?key = "\<lambda>obs. (po_ts obs, po_uid obs)"
  let ?s = "sort_key ?key (rev g)"
  have len: "length ?s = length g" and el: "set ?s = set g" by simp_all
  have ne: "?s \<noteq> []"
  proof
    assume "?s = []"
    then have "set g = {}" unfolding el [symmetric] by simp
    then show False using assms by simp
  qed
  obtain i where i: "i < length ?s" "?s ! i = obs" using assms unfolding el [symmetric] in_set_conv_nth by blast
  have "sorted (map ?key ?s)" by simp
  then have "map ?key ?s ! i \<le> map ?key ?s ! (length ?s - 1)"
    by (rule sorted_nth_mono) (use i ne in simp_all)
  then have "?key obs \<le> ?key (last ?s)" using i ne by (simp add: last_conv_nth)
  then show ?thesis by (simp add: sortNewest_def hd_rev)
qed

lemma sortNewest_order_free:
  assumes "mset g = mset g'" and "distinct (map (\<lambda>obs. (po_ts obs, po_uid obs)) g)"
  shows "sortNewest g = sortNewest g'"
  unfolding sortNewest_def by (rule arg_cong [of _ _ rev], rule sk.srt_order_free) (simp_all add: assms rev_map [symmetric])

section \<open>Labels and address of a pod\<close>

lemma fillLabels_get:
  assumes "gm_wf ls"
  shows "gm_get (fillLabels ls acc) k =
    (case gm_get acc k of Some v \<Rightarrow> Some v | None \<Rightarrow> if gm_str ls k \<noteq> [] then Some (gm_str ls k) else None)"
  using assms
proof (induction ls arbitrary: acc)
  case Nil
  then show ?case by (simp add: fillLabels_def gm_str_get split: option.split)
next
  case (Cons x ls)
  obtain j v where x: "x = (j, v)" by (cases x)
  have wf: "gm_wf ls" "gm_get ls j = None" using gm_wf_Cons [OF Cons.prems [unfolded x]] by simp_all
  have step: "fillLabels (x # ls) acc = fillLabels ls (if v = [] then acc else if gm_has acc j then acc else gm_put j v acc)"
    by (simp add: fillLabels_def x)
  show ?case unfolding step Cons.IH [OF wf(1)]
    using wf(2) by (cases "k = j") (auto simp: x gm_str_get gm_get_Cons gm_has_get split: option.splits)
qed

lemma find_append: "find P (xs @ ys) = (case find P xs of Some x \<Rightarrow> Some x | None \<Rightarrow> find P ys)"
  by (induction xs) auto

lemma merged_get:
  assumes "\<forall>obs\<in>set g. gm_wf (po_labels obs)"
  shows "gm_get (case gm_get (mergeSameUIDLabels g) uid of Some m \<Rightarrow> m | None \<Rightarrow> []) k =
    map_option (\<lambda>obs. gm_str (po_labels obs) k) (find (\<lambda>obs. po_uid obs = uid \<and> gm_str (po_labels obs) k \<noteq> []) g)"
  using assms
proof (induction g rule: rev_induct)
  case (snoc obs g)
  let ?at = "\<lambda>g. gm_get (case gm_get (mergeSameUIDLabels g) uid of Some m \<Rightarrow> m | None \<Rightarrow> []) k"
  let ?m = "case gm_get (mergeSameUIDLabels g) (po_uid obs) of Some m \<Rightarrow> m | None \<Rightarrow> []"
  have wf: "gm_wf (po_labels obs)" "\<forall>obs\<in>set g. gm_wf (po_labels obs)" using snoc.prems by simp_all
  have step: "mergeSameUIDLabels (g @ [obs]) = gm_put (po_uid obs) (fillLabels (po_labels obs) ?m) (mergeSameUIDLabels g)"
    by (simp add: mergeSameUIDLabels_def)
  have at: "?at (g @ [obs]) = (if uid = po_uid obs then gm_get (fillLabels (po_labels obs) ?m) k else ?at g)"
    unfolding step by simp
  show ?case
  proof (cases "uid = po_uid obs")
    case True
    then show ?thesis using snoc.IH [OF wf(2)] unfolding at fillLabels_get [OF wf(1)] find_append by (auto split: option.splits)
  next
    case False
    then show ?thesis using snoc.IH [OF wf(2)] unfolding at find_append by (auto split: option.splits)
  qed
qed (simp add: mergeSameUIDLabels_def)

lemma podObsOf_wf: "podObsOf mc r = Some (k, obs) \<Longrightarrow> gm_wf (po_labels obs)"
  by (cases r) (auto simp: podObsOf_def Let_def gm_wf_def gm_put_def split: if_splits)

lemma group_obs:
  assumes "gm_get (podGroups vec mc) k = Some grp" and "obs \<in> set grp"
  shows "\<exists>r\<in>set vec. podObsOf mc r = Some (k, obs)"
proof -
  have "grp = gm_list (podGroups vec mc) k" using assms(1) unfolding podGroups_get by (simp split: if_splits)
  then have "(k, obs) \<in> set (List.map_filter (podObsOf mc) vec)" using assms(2) unfolding podGroups_list by force
  then show ?thesis unfolding set_map_filter by blast
qed

text \<open>
  C28: a pod is named by the newest row of its cluster, namespace and name, the larger UID on a tie, and every
  label and its address are the newest non-empty ones of that UID: nothing of a pod deleted and recreated under
  the same name leaks into its successor.
\<close>

theorem canonicalPod_exact:
  assumes "gm_get (podGroups vec mc) k = Some grp"
  shows "\<exists>new\<in>set grp. (\<forall>obs\<in>set grp. (po_ts obs, po_uid obs) \<le> (po_ts new, po_uid new)) \<and>
    pod_IDValue (canonicalPod owners apps containers k (sortNewest grp)) = PodID (fst k) (po_uid new) \<and>
    (\<forall>lk. gm_get (pod_LabelsValue (canonicalPod owners apps containers k (sortNewest grp))) lk =
       map_option (\<lambda>obs. gm_str (po_labels obs) lk)
         (find (\<lambda>obs. po_uid obs = po_uid new \<and> gm_str (po_labels obs) lk \<noteq> []) (sortNewest grp))) \<and>
    pod_IPAddressValue (canonicalPod owners apps containers k (sortNewest grp)) =
       (case find (\<lambda>obs. po_uid obs = po_uid new \<and> po_podIP obs \<noteq> []) (sortNewest grp) of None \<Rightarrow> [] | Some obs \<Rightarrow> [po_podIP obs])"
proof -
  have ne: "grp \<noteq> []" using assms unfolding podGroups_get by (auto split: if_splits)
  then have "sortNewest grp \<noteq> []" by simp
  then have new: "hd (sortNewest grp) \<in> set grp" using hd_in_set sortNewest_set by metis
  have wf: "\<forall>obs\<in>set (sortNewest grp). gm_wf (po_labels obs)" using group_obs [OF assms] podObsOf_wf by fastforce
  have ip: "(case find P g of Some obs \<Rightarrow> po_podIP obs | None \<Rightarrow> []) \<noteq> [] \<longleftrightarrow> find P g \<noteq> None"
    if "\<And>obs. P obs \<Longrightarrow> po_podIP obs \<noteq> []" for P and g :: "podObs list"
    using that by (auto dest: find_SomeD split: option.splits)
  show ?thesis
  proof (intro bexI [OF _ new] conjI allI ballI)
    fix obs assume "obs \<in> set grp"
    then show "(po_ts obs, po_uid obs) \<le> (po_ts (hd (sortNewest grp)), po_uid (hd (sortNewest grp)))" by (rule sortNewest_hd)
  next
    fix lk
    show "gm_get (pod_LabelsValue (canonicalPod owners apps containers k (sortNewest grp))) lk =
       map_option (\<lambda>obs. gm_str (po_labels obs) lk)
         (find (\<lambda>obs. po_uid obs = po_uid (hd (sortNewest grp)) \<and> gm_str (po_labels obs) lk \<noteq> []) (sortNewest grp))"
      using merged_get [OF wf, of "po_uid (hd (sortNewest grp))" lk] by (simp add: canonicalPod_def Let_def)
  next
    show "pod_IPAddressValue (canonicalPod owners apps containers k (sortNewest grp)) =
       (case find (\<lambda>obs. po_uid obs = po_uid (hd (sortNewest grp)) \<and> po_podIP obs \<noteq> []) (sortNewest grp) of
          None \<Rightarrow> [] | Some obs \<Rightarrow> [po_podIP obs])"
      using ip [of "\<lambda>obs. po_uid obs = po_uid (hd (sortNewest grp)) \<and> po_podIP obs \<noteq> []" "sortNewest grp"]
      by (auto simp: canonicalPod_def Let_def split: option.splits)
  qed (simp add: canonicalPod_def Let_def)
qed

definition exPodRow :: "string \<Rightarrow> string \<Rightarrow> string \<Rightarrow> int \<Rightarrow> nat Row \<times> int" where
  "exPodRow uid nodeName ip ts = (exSample [(''pod'', ''web''), (''uid'', uid), (''node'', nodeName), (''pod_ip'', ip)] 1, ts)"

theorem canonicalPod_exact_witness:
  "\<exists>grp. gm_get (podGroups [exPodRow ''u1'' ''n1'' ''10.0.0.1'' 5, exPodRow ''u2'' ''n2'' [] 9] exResolver) (''c1'', ''shop'', ''web'') = Some grp \<and>
     pod_IPAddressValue (canonicalPod [] [] [] (''c1'', ''shop'', ''web'') (sortNewest grp)) = []"
proof -
  define grp where "grp = the (gm_get (podGroups [exPodRow ''u1'' ''n1'' ''10.0.0.1'' 5, exPodRow ''u2'' ''n2'' [] 9] exResolver) (''c1'', ''shop'', ''web''))"
  have g: "gm_get (podGroups [exPodRow ''u1'' ''n1'' ''10.0.0.1'' 5, exPodRow ''u2'' ''n2'' [] 9] exResolver) (''c1'', ''shop'', ''web'') = Some grp"
    and all: "list_all (\<lambda>obs. po_uid obs = ''u1'' \<and> po_ts obs = 5 \<or> po_uid obs = ''u2'' \<and> po_ts obs = 9 \<and> po_podIP obs = []) grp"
    and some: "list_ex (\<lambda>obs. po_uid obs = ''u2'' \<and> po_ts obs = 9) grp"
    unfolding grp_def by code_simp+
  obtain new where new: "new \<in> set grp" "\<forall>obs\<in>set grp. (po_ts obs, po_uid obs) \<le> (po_ts new, po_uid new)"
    "pod_IPAddressValue (canonicalPod [] [] [] (''c1'', ''shop'', ''web'') (sortNewest grp)) =
       (case find (\<lambda>obs. po_uid obs = po_uid new \<and> po_podIP obs \<noteq> []) (sortNewest grp) of None \<Rightarrow> [] | Some obs \<Rightarrow> [po_podIP obs])"
    using canonicalPod_exact [OF g, of "[]" "[]" "[]"] by blast
  obtain top where top: "top \<in> set grp" "po_uid top = ''u2''" "po_ts top = 9" using some by (auto simp: list_ex_iff)
  have "po_ts new \<ge> 9" using new(2) top by (metis less_eq_prod_simp order.order_iff_strict)
  then have uid: "po_uid new = ''u2''" using all new(1) by (auto simp: list_all_iff)
  have "find (\<lambda>obs. po_uid obs = po_uid new \<and> po_podIP obs \<noteq> []) (sortNewest grp) = None"
    unfolding find_None_iff uid sortNewest_set using all by (auto simp: list_all_iff)
  then show ?thesis using g new(3) by (intro exI [of _ grp]) simp
qed

section \<open>Order of rows\<close>

lemma assemblePods_fold:
  fixes groups :: "(podKey, podObs list) gomap"
  shows "tps_PodsByNameNS (fold (\<lambda>(k, grp) t.
        let grp = sortNewest grp; pod = canonicalPod owners apps containers k grp in
        \<lparr> tps_Pods = tps_Pods t @ [pod], tps_PodsByUID = addPodToIndex (po_uid (hd grp)) pod (tps_PodsByUID t),
          tps_PodsByNameNS = gm_put k pod (tps_PodsByNameNS t),
          tps_canonicalPodUID = gm_put k (po_uid (hd grp)) (tps_canonicalPodUID t) \<rparr>) groups t) =
      fold (\<lambda>(k, grp). gm_put k (canonicalPod owners apps containers k (sortNewest grp))) groups (tps_PodsByNameNS t)"
    and "tps_Pods (fold (\<lambda>(k, grp) t.
        let grp = sortNewest grp; pod = canonicalPod owners apps containers k grp in
        \<lparr> tps_Pods = tps_Pods t @ [pod], tps_PodsByUID = addPodToIndex (po_uid (hd grp)) pod (tps_PodsByUID t),
          tps_PodsByNameNS = gm_put k pod (tps_PodsByNameNS t),
          tps_canonicalPodUID = gm_put k (po_uid (hd grp)) (tps_canonicalPodUID t) \<rparr>) groups t) =
      tps_Pods t @ map (\<lambda>(k, grp). canonicalPod owners apps containers k (sortNewest grp)) groups"
  by (induction groups arbitrary: t) (auto simp: Let_def)

lemma put_mapped:
  assumes "gm_wf m"
  shows "gm_get (fold (\<lambda>(k, v). gm_put k (f k v)) m out) k = (case gm_get m k of Some v \<Rightarrow> Some (f k v) | None \<Rightarrow> gm_get out k)"
  using assms
proof (induction m arbitrary: out)
  case (Cons x m)
  obtain j v where x: "x = (j, v)" by (cases x)
  have wf: "gm_wf m" "gm_get m j = None" using gm_wf_Cons [OF Cons.prems [unfolded x]] by simp_all
  show ?case using Cons.IH [OF wf(1), of "gm_put j (f j v) out"] wf(2) by (auto simp: x gm_get_Cons split: option.splits)
qed simp

lemma assemblePods_byName:
  assumes "gm_wf groups"
  shows "gm_get (tps_PodsByNameNS (assemblePods owners apps containers groups)) k =
    map_option (\<lambda>grp. canonicalPod owners apps containers k (sortNewest grp)) (gm_get groups k)"
  unfolding assemblePods_def assemblePods_fold by (simp add: put_mapped [OF assms] split: option.split)

lemma image_pairs: "x \<in> set (map (\<lambda>(k, v). f k v) m) \<longleftrightarrow> (\<exists>k v. (k, v) \<in> set m \<and> f k v = x)"
  by auto

lemma assemblePods_set:
  assumes "gm_wf groups"
  shows "set (tps_Pods (assemblePods owners apps containers groups)) =
    {p. \<exists>k. map_option (\<lambda>grp. canonicalPod owners apps containers k (sortNewest grp)) (gm_get groups k) = Some p}"
proof (rule set_eqI)
  fix p
  have pods: "tps_Pods (assemblePods owners apps containers groups) = map (\<lambda>(k, grp). canonicalPod owners apps containers k (sortNewest grp)) groups"
    unfolding assemblePods_def assemblePods_fold by simp
  show "p \<in> set (tps_Pods (assemblePods owners apps containers groups)) \<longleftrightarrow>
      p \<in> {p. \<exists>k. map_option (\<lambda>grp. canonicalPod owners apps containers k (sortNewest grp)) (gm_get groups k) = Some p}"
    unfolding pods image_pairs gm_in_get_iff [OF assms] mem_Collect_eq map_option_eq_Some by (rule refl)
qed

definition noTies :: "('f Row \<times> int) list \<Rightarrow> clusterResolver \<Rightarrow> bool" where
  "noTies vec mc = list_all (\<lambda>(k, grp). distinct (map (\<lambda>obs. (po_ts obs, po_uid obs)) grp)) (podGroups vec mc)"

text \<open>
  The pods do not depend on the order of rows, provided no two rows of a pod share UID and timestamp.
\<close>

theorem pods_order_free:
  assumes "mset vec = mset vec'" and "noTies vec mc"
  shows "gm_get (tps_PodsByNameNS (assemblePods owners apps containers (podGroups vec mc))) =
      gm_get (tps_PodsByNameNS (assemblePods owners apps containers (podGroups vec' mc))) \<and>
    set (tps_Pods (assemblePods owners apps containers (podGroups vec mc))) =
      set (tps_Pods (assemblePods owners apps containers (podGroups vec' mc)))"
proof -
  have same: "map_option sortNewest (gm_get (podGroups vec mc) k) = map_option sortNewest (gm_get (podGroups vec' mc) k)" for k
  proof -
    have m: "mset (gm_list (podGroups vec mc) k) = mset (gm_list (podGroups vec' mc) k)" by (rule podGroups_mset [OF assms(1)])
    have "distinct (map (\<lambda>obs. (po_ts obs, po_uid obs)) (gm_list (podGroups vec mc) k))"
      using assms(2) gm_get_in [of "podGroups vec mc" k]
      by (cases "gm_get (podGroups vec mc) k") (fastforce simp: noTies_def list_all_iff gm_list_def gm_get_def)+
    from sortNewest_order_free [OF m this] show ?thesis using m by (auto simp: podGroups_get)
  qed
  have byName: "map_option (\<lambda>grp. canonicalPod owners apps containers k (sortNewest grp)) (gm_get (podGroups vec mc) k) =
      map_option (\<lambda>grp. canonicalPod owners apps containers k (sortNewest grp)) (gm_get (podGroups vec' mc) k)" for k
    using arg_cong [OF same [of k], of "map_option (canonicalPod owners apps containers k)"] by (simp add: option.map_comp comp_def)
  then show ?thesis
    unfolding assemblePods_set [OF podGroups_wf] by (intro conjI ext) (simp_all only: assemblePods_byName [OF podGroups_wf])
qed

theorem pods_order_free_witness:
  "set (tps_Pods (assemblePods [] [] [] (podGroups [exPodRow ''u1'' ''n1'' ''10.0.0.1'' 5, exPodRow ''u2'' ''n2'' [] 9] exResolver))) =
     set (tps_Pods (assemblePods [] [] [] (podGroups [exPodRow ''u2'' ''n2'' [] 9, exPodRow ''u1'' ''n1'' ''10.0.0.1'' 5] exResolver)))"
proof -
  have "noTies [exPodRow ''u1'' ''n1'' ''10.0.0.1'' 5, exPodRow ''u2'' ''n2'' [] 9] exResolver" by code_simp
  from pods_order_free [OF _ this, of "[exPodRow ''u2'' ''n2'' [] 9, exPodRow ''u1'' ''n1'' ''10.0.0.1'' 5]" "[]" "[]" "[]"]
  show ?thesis by simp
qed

text \<open>
  Two rows of one UID scraped at the same time that disagree, as when a pod was just scheduled: the label of
  whichever arrives first is kept.
\<close>

lemma pod_tie_order:
  "map pod_LabelsValue (tps_Pods (assemblePods [] [] [] (podGroups [exPodRow ''u1'' ''n1'' [] 5, exPodRow ''u1'' ''n2'' [] 5] exResolver))) =
     [[(''cluster'', ''c1''), (''namespace'', ''shop''), (''node'', ''c1/n1'')]]"
  "map pod_LabelsValue (tps_Pods (assemblePods [] [] [] (podGroups [exPodRow ''u1'' ''n2'' [] 5, exPodRow ''u1'' ''n1'' [] 5] exResolver))) =
     [[(''cluster'', ''c1''), (''namespace'', ''shop''), (''node'', ''c1/n2'')]]"
  by code_simp+

end
