(* ===== verification/TopologyClaims.thy ===== *)
theory TopologyClaims
  imports TopologyNodes TopologyPods
begin

text \<open>
  Claims, bindings and services: the rest of the Kubernetes part of \<open>parseTopology\<close> (\<open>pkg/build/topology.go\<close>),
  with \<open>resolvePVCInfo\<close> (\<open>topology_attrs.go\<close>) and \<open>resolvePVCUsage\<close> (\<open>netapp.go\<close>).

  \<open>pvcByID\<close> and the slice \<open>pvcs\<close> hold the same pointers: here one map in insertion order, whose entries are
  updated in place. The NetApp labels and ceilings, set later on the same nodes, are in \<open>NetAppResults\<close>.

  The lemmas show which claims and bindings a parse yields and that the order of rows does not matter for them.
\<close>

section \<open>Claim attributes\<close>

record pvcInfoAttrs =
  pia_storageClass :: string
  pia_volumeName :: string
  pia_zone :: zone

definition noAttrs :: pvcInfoAttrs where
  "noAttrs = \<lparr> pia_storageClass = [], pia_volumeName = [], pia_zone = noZone \<rparr>"

definition pickSmaller :: "string \<Rightarrow> string \<Rightarrow> string" where
  "pickSmaller cur val = (if val = [] then cur else if cur = [] \<or> val < cur then val else cur)"

definition pvcInfoStep :: "clusterResolver \<Rightarrow> 'f Row \<Rightarrow> (pvcKey, pvcInfoAttrs) gomap \<Rightarrow> (pvcKey, pvcInfoAttrs) gomap" where
  "pvcInfoStep mc s out =
     (let claim = row_str s ''persistentvolumeclaim'' in
      if claim = [] then out
      else
        let key = (bucketed mc QPVCInfo s, row_str s ''namespace'', claim);
            attrs = (case gm_get out key of Some a \<Rightarrow> a | None \<Rightarrow> noAttrs)
        in gm_put key \<lparr> pia_storageClass = pickSmaller (pia_storageClass attrs) (row_str s ''storageclass''),
             pia_volumeName = pickSmaller (pia_volumeName attrs) (row_str s ''volumename''),
             pia_zone = (case zoneOf (sm_metric s) (cr_keys mc) of
                 Some z \<Rightarrow> if \<not> known (pia_zone attrs) \<or> z < pia_zone attrs then z else pia_zone attrs
               | None \<Rightarrow> pia_zone attrs) \<rparr> out)"

definition resolvePVCInfo :: "'f Row list \<Rightarrow> clusterResolver \<Rightarrow> (pvcKey, pvcInfoAttrs) gomap" where
  "resolvePVCInfo vec mc = fold (pvcInfoStep mc) vec []"

definition usageOffer :: "Query \<Rightarrow> clusterResolver \<Rightarrow> 'f Row \<Rightarrow> (pvcKey \<times> 'f) option" where
  "usageOffer q mc s =
     (let claim = row_str s ''persistentvolumeclaim'' in
      if claim = [] then None else Some ((bucketed mc q s, row_str s ''namespace'', claim), sm_value s))"

definition resolvePVCUsage :: "('f :: linorder) Row list \<Rightarrow> 'f Row list \<Rightarrow> clusterResolver \<Rightarrow> (pvcKey, 'f UsageBytes) gomap" where
  "resolvePVCUsage used capacity mc =
     (let usedBy = pickAll (<) (usageOffer QKubeletVolumeUsedBytes mc) used [];
          capBy = pickAll (<) (usageOffer QKubeletVolumeCapacityBytes mc) capacity [];
          keys = remdups (map fst usedBy @ map fst capBy)
      in map (\<lambda>k. (k, \<lparr> UsedBytes = gm_get usedBy k, CapacityBytes = gm_get capBy k \<rparr>)) keys)"

section \<open>Claims and bindings\<close>

record 'f claimAttrs =
  ca_pvcInfo :: "(pvcKey, pvcInfoAttrs) gomap"
  ca_pvcApplications :: "(pvcKey, string) gomap"
  ca_pvcUsage :: "(pvcKey, 'f UsageBytes) gomap"

definition newPVC :: "'f claimAttrs \<Rightarrow> string \<Rightarrow> pvcKey \<Rightarrow> 'f PVCNode" where
  "newPVC ca i key =
     (let attrs = (case gm_get (ca_pvcInfo ca) key of Some a \<Rightarrow> a | None \<Rightarrow> noAttrs);
          ls = [(''cluster'', fst key), (''namespace'', fst (snd key))] in
      \<lparr> pvc_IDValue = i, pvc_NameValue = snd (snd key),
        pvc_LabelsValue = (if pia_volumeName attrs \<noteq> [] then gm_put ''volumename'' (pia_volumeName attrs) ls else ls),
        pvc_StorageClassValue = pia_storageClass attrs, pvc_ApplicationValue = gm_str (ca_pvcApplications ca) key,
        pvc_UsageValue = gm_get (ca_pvcUsage ca) key, pvc_QoSValue = None, pvc_AlertsValue = [], pvc_StatusValue = [] \<rparr>)"

definition claimOf :: "'f Row \<Rightarrow> string" where
  "claimOf s = (if row_str s ''persistentvolumeclaim'' \<noteq> [] then row_str s ''persistentvolumeclaim'' else row_str s ''claim_name'')"

record 'f claimState =
  cs_pvcByID :: "(string, 'f PVCNode) gomap"
  cs_bindings :: "PodPVCBinding list"

definition pvcKeyOf :: "clusterResolver \<Rightarrow> 'f Row \<Rightarrow> pvcKey" where
  "pvcKeyOf mc s = (bucketed mc QPVCBindings s, row_str s ''namespace'', claimOf s)"

definition pvcIDOf :: "pvcKey \<Rightarrow> string" where
  "pvcIDOf key = PVCID (fst key) (fst (snd key)) (snd (snd key))"

definition setVolume :: "string \<Rightarrow> 'f PVCNode \<Rightarrow> 'f PVCNode" where
  "setVolume vol node =
     (if vol \<noteq> [] \<and> (case gm_get (pvc_LabelsValue node) ''volume'' of None \<Rightarrow> True | Some cur \<Rightarrow> vol < cur)
      then node\<lparr> pvc_LabelsValue := gm_put ''volume'' vol (pvc_LabelsValue node) \<rparr> else node)"

definition pvcStep ::
  "'f claimAttrs \<Rightarrow> (podKey, string) gomap \<Rightarrow> clusterResolver \<Rightarrow> 'f Row \<Rightarrow> 'f claimState \<Rightarrow> 'f claimState" where
  "pvcStep ca canonicalPodUID mc s st =
     (let key = pvcKeyOf mc s; cluster = fst key; ns = fst (snd key); podName = row_str s ''pod'' in
      if claimOf s = [] then st
      else
        let i = pvcIDOf key;
            node = (case gm_get (cs_pvcByID st) i of Some n \<Rightarrow> n | None \<Rightarrow> newPVC ca i key);
            st = st\<lparr> cs_pvcByID := gm_put i (setVolume (row_str s ''volume'') node) (cs_pvcByID st) \<rparr>
        in if podName = [] then st
           else case gm_get canonicalPodUID (cluster, ns, podName) of
               None \<Rightarrow> st
             | Some uid \<Rightarrow>
                 let b = \<lparr> PodID_of = PodID cluster uid, PVCID_of = i \<rparr> in
                 if b \<in> set (cs_bindings st) then st else st\<lparr> cs_bindings := cs_bindings st @ [b] \<rparr>)"

definition materialiseStep :: "'f claimAttrs \<Rightarrow> pvcKey \<Rightarrow> 'f claimState \<Rightarrow> 'f claimState" where
  "materialiseStep ca k st =
     (if gm_has (cs_pvcByID st) (pvcIDOf k) then st
      else st\<lparr> cs_pvcByID := gm_put (pvcIDOf k) (newPVC ca (pvcIDOf k) k) (cs_pvcByID st) \<rparr>)"

definition claimsOf ::
  "'f claimAttrs \<Rightarrow> (podKey, string) gomap \<Rightarrow> bool \<Rightarrow> 'f Row list \<Rightarrow> clusterResolver \<Rightarrow> 'f claimState" where
  "claimsOf ca canonicalPodUID materialiseUnboundClaims vec mc =
     (let st = fold (pvcStep ca canonicalPodUID mc) vec \<lparr> cs_pvcByID = [], cs_bindings = [] \<rparr>
      in if materialiseUnboundClaims then fold (materialiseStep ca) (sort (map fst (ca_pvcInfo ca))) st else st)"

section \<open>Inherited Applications\<close>

definition podAppByID :: "PodNode list \<Rightarrow> (string, string) gomap" where
  "podAppByID pods =
     pickAll (<) (\<lambda>p. if pod_ApplicationValue p = [] then None else Some (pod_IDValue p, pod_ApplicationValue p)) pods []"

definition inheritApps :: "PodPVCBinding list \<Rightarrow> PodNode list \<Rightarrow> 'f PVCNode list \<Rightarrow> 'f PVCNode list" where
  "inheritApps bindings pods pvcs =
     (let inherited = pvcInheritedApps bindings (podAppByID pods) in
      map (\<lambda>pvc. if pvc_ApplicationValue pvc = [] \<and> gm_str inherited (pvc_IDValue pvc) \<noteq> []
         then pvc\<lparr> pvc_ApplicationValue := gm_str inherited (pvc_IDValue pvc) \<rparr> else pvc) pvcs)"

section \<open>Services\<close>

type_synonym sliceKey = "string \<times> string \<times> string"

text \<open>\<open>ServiceObs\<close> is its cluster address; an \<open>EndpointObs\<close> is its pod.\<close>

definition servicesByNameNS :: "'f Row list \<Rightarrow> clusterResolver \<Rightarrow> (serviceKey, string) gomap" where
  "servicesByNameNS vec mc =
     fold (\<lambda>s m.
        let svc = row_str s ''service'' in
        if svc = [] then m else gm_put (bucketed mc QServiceInfo s, row_str s ''namespace'', svc) (row_str s ''cluster_ip'') m) vec []"

definition sliceToService :: "'f Row list \<Rightarrow> clusterResolver \<Rightarrow> (sliceKey, string) gomap" where
  "sliceToService vec mc =
     fold (\<lambda>s m.
        let slice = row_str s ''endpointslice''; svc = row_str s ''label_kubernetes_io_service_name'' in
        if slice = [] \<or> svc = [] then m
        else gm_put (bucketed mc QEndpointSliceLabels s, row_str s ''namespace'', slice) svc m) vec []"

definition endpointStep ::
  "(sliceKey, string) gomap \<Rightarrow> (podNameKey, PodNode) gomap \<Rightarrow> clusterResolver \<Rightarrow> 'f Row
     \<Rightarrow> (serviceKey, PodNode list) gomap \<Rightarrow> (serviceKey, PodNode list) gomap" where
  "endpointStep slices podsByNameNS mc s m =
     (let cluster = bucketed mc QEndpointSliceEndpoints s; ns = row_str s ''namespace''; slice = row_str s ''endpointslice'' in
      case gm_get slices (cluster, ns, slice) of
        None \<Rightarrow> m
      | Some svc \<Rightarrow>
          let kind = row_str s ''targetref_kind'';
              targetNS = (if row_str s ''targetref_namespace'' = [] then ns else row_str s ''targetref_namespace'');
              targetName = row_str s ''targetref_name'' in
          if kind \<noteq> [] \<and> kind \<noteq> ''Pod'' \<or> targetName = [] then m
          else (case gm_get podsByNameNS (cluster, targetNS, targetName) of
                  None \<Rightarrow> m
                | Some pod \<Rightarrow> gm_append (cluster, ns, svc) pod m))"

definition endpointsByService ::
  "(sliceKey, string) gomap \<Rightarrow> (podNameKey, PodNode) gomap \<Rightarrow> 'f Row list \<Rightarrow> clusterResolver \<Rightarrow> (serviceKey, PodNode list) gomap" where
  "endpointsByService slices podsByNameNS vec mc = fold (endpointStep slices podsByNameNS mc) vec []"

section \<open>What the loop over bindings yields\<close>

text \<open>The indexes \<open>newPVC\<close> reads, as \<open>parseTopology\<close> builds them.\<close>

definition claimIndexes ::
  "('f :: linorder) Row list \<Rightarrow> 'f Row list \<Rightarrow> 'f Row list \<Rightarrow> 'f Row list \<Rightarrow> clusterResolver \<Rightarrow> 'f claimAttrs" where
  "claimIndexes info ann used capacity mc =
     \<lparr> ca_pvcInfo = resolvePVCInfo info mc, ca_pvcApplications = resolvePVCApplications ann mc,
       ca_pvcUsage = resolvePVCUsage used capacity mc \<rparr>"

definition claimRows :: "'f Row list \<Rightarrow> 'f Row set" where
  "claimRows vec = {s \<in> set vec. claimOf s \<noteq> []}"

definition rowID :: "clusterResolver \<Rightarrow> 'f Row \<Rightarrow> string" where
  "rowID mc s = pvcIDOf (pvcKeyOf mc s)"

definition volumesOf :: "clusterResolver \<Rightarrow> 'f Row list \<Rightarrow> pvcKey \<Rightarrow> string set" where
  "volumesOf mc vec key = (\<lambda>s. row_str s ''volume'') ` {s \<in> claimRows vec. pvcKeyOf mc s = key} - {[]}"

definition bindingOf :: "(podKey, string) gomap \<Rightarrow> clusterResolver \<Rightarrow> 'f Row \<Rightarrow> PodPVCBinding set" where
  "bindingOf uids mc s =
     (if row_str s ''pod'' = [] then {}
      else (\<lambda>uid. \<lparr> PodID_of = PodID (fst (pvcKeyOf mc s)) uid, PVCID_of = rowID mc s \<rparr>) `
        set_option (gm_get uids (fst (pvcKeyOf mc s), fst (snd (pvcKeyOf mc s)), row_str s ''pod'')))"

text \<open>The rows of one index that speak of a claim.\<close>

definition rowsAt :: "Query \<Rightarrow> clusterResolver \<Rightarrow> 'f Row set \<Rightarrow> pvcKey \<Rightarrow> 'f Row set" where
  "rowsAt q mc A key = {s \<in> A. row_str s ''persistentvolumeclaim'' \<noteq> [] \<and>
     (bucketed mc q s, row_str s ''namespace'', row_str s ''persistentvolumeclaim'') = key}"

definition infoValues :: "clusterResolver \<Rightarrow> string \<Rightarrow> 'f Row set \<Rightarrow> pvcKey \<Rightarrow> string set" where
  "infoValues mc l A key = (\<lambda>s. row_str s l) ` rowsAt QPVCInfo mc A key - {[]}"

lemma infoValues_insert:
  "infoValues mc l (insert s A) key =
     (if s \<in> rowsAt QPVCInfo mc {s} key \<and> row_str s l \<noteq> [] then insert (row_str s l) (infoValues mc l A key) else infoValues mc l A key)"
  by (auto simp: infoValues_def rowsAt_def)

lemma infoValues_finite: "finite A \<Longrightarrow> finite (infoValues mc l A key)"
  and infoValues_not_Nil: "[] \<notin> infoValues mc l A key"
  by (simp_all add: infoValues_def rowsAt_def)

lemma pickSmaller_insert:
  assumes "finite V" and "[] \<notin> V"
  shows "pickSmaller (smallestOf V) v = (if v = [] then smallestOf V else smallestOf (insert v V))"
  using smallestOf_insert [OF assms, of v] by (auto simp: pickSmaller_def)

definition attrsAt :: "(pvcKey, pvcInfoAttrs) gomap \<Rightarrow> pvcKey \<Rightarrow> pvcInfoAttrs" where
  "attrsAt m key = (case gm_get m key of Some a \<Rightarrow> a | None \<Rightarrow> noAttrs)"

lemma pvcInfo_fields:
  "pia_storageClass (attrsAt (resolvePVCInfo vec mc) key) = smallestOf (infoValues mc ''storageclass'' (set vec) key)"
  "pia_volumeName (attrsAt (resolvePVCInfo vec mc) key) = smallestOf (infoValues mc ''volumename'' (set vec) key)"
  "fst ` set (resolvePVCInfo vec mc) = {k. rowsAt QPVCInfo mc (set vec) k \<noteq> {}}"
proof -
  have "pia_storageClass (attrsAt (resolvePVCInfo vec mc) key) = smallestOf (infoValues mc ''storageclass'' (set vec) key) \<and>
    pia_volumeName (attrsAt (resolvePVCInfo vec mc) key) = smallestOf (infoValues mc ''volumename'' (set vec) key) \<and>
    fst ` set (resolvePVCInfo vec mc) = {k. rowsAt QPVCInfo mc (set vec) k \<noteq> {}}"
  proof (induction vec rule: rev_induct)
    case Nil
    then show ?case by (simp add: resolvePVCInfo_def attrsAt_def noAttrs_def infoValues_def rowsAt_def smallestOf_def least_def)
  next
    case (snoc s vec)
    define k where "k = (bucketed mc QPVCInfo s, row_str s ''namespace'', row_str s ''persistentvolumeclaim'')"
    let ?m = "resolvePVCInfo vec mc"
    have step: "resolvePVCInfo (vec @ [s]) mc = pvcInfoStep mc s ?m" by (simp add: resolvePVCInfo_def)
    have grow: "set (vec @ [s]) = insert s (set vec)" by simp
    note pick = pickSmaller_insert [OF infoValues_finite [OF finite_set] infoValues_not_Nil]
    show ?case
    proof (cases "row_str s ''persistentvolumeclaim'' = []")
      case True
      then have "pvcInfoStep mc s ?m = ?m" "\<And>key. rowsAt QPVCInfo mc (insert s (set vec)) key = rowsAt QPVCInfo mc (set vec) key"
        by (auto simp: pvcInfoStep_def rowsAt_def)
      then show ?thesis using snoc.IH unfolding step grow infoValues_def by simp
    next
      case False
      have at: "attrsAt (pvcInfoStep mc s ?m) key = attrsAt ?m key" if "k \<noteq> key" for key
        using that False by (auto simp: attrsAt_def pvcInfoStep_def Let_def k_def)
      have here: "pia_storageClass (attrsAt (pvcInfoStep mc s ?m) k) = pickSmaller (pia_storageClass (attrsAt ?m k)) (row_str s ''storageclass'')"
        "pia_volumeName (attrsAt (pvcInfoStep mc s ?m) k) = pickSmaller (pia_volumeName (attrsAt ?m k)) (row_str s ''volumename'')"
        using False by (simp_all add: attrsAt_def pvcInfoStep_def Let_def k_def)
      have keys: "fst ` set (pvcInfoStep mc s ?m) = insert k (fst ` set ?m)" using False by (simp add: pvcInfoStep_def Let_def k_def)
      have in_k: "s \<in> rowsAt QPVCInfo mc {s} key \<longleftrightarrow> k = key" for key using False by (auto simp: rowsAt_def k_def)
      have "{k. rowsAt QPVCInfo mc (insert s (set vec)) k \<noteq> {}} = insert k {k. rowsAt QPVCInfo mc (set vec) k \<noteq> {}}"
        using False by (auto simp: rowsAt_def k_def)
      then have K: "fst ` set (resolvePVCInfo (vec @ [s]) mc) = {k. rowsAt QPVCInfo mc (set (vec @ [s])) k \<noteq> {}}"
        using snoc.IH unfolding step keys grow by simp
      show ?thesis
      proof (cases "k = key")
        case True
        have sc: "pia_storageClass (attrsAt ?m k) = smallestOf (infoValues mc ''storageclass'' (set vec) k)"
          and vn: "pia_volumeName (attrsAt ?m k) = smallestOf (infoValues mc ''volumename'' (set vec) k)"
          using snoc.IH True by simp_all
        show ?thesis using K unfolding step True [symmetric] here sc vn pick grow infoValues_insert in_k by simp
      next
        case other: False
        show ?thesis using snoc.IH K unfolding step at [OF other] grow infoValues_insert in_k by (simp add: other)
      qed
    qed
  qed
  then show "pia_storageClass (attrsAt (resolvePVCInfo vec mc) key) = smallestOf (infoValues mc ''storageclass'' (set vec) key)"
    "pia_volumeName (attrsAt (resolvePVCInfo vec mc) key) = smallestOf (infoValues mc ''volumename'' (set vec) key)"
    "fst ` set (resolvePVCInfo vec mc) = {k. rowsAt QPVCInfo mc (set vec) k \<noteq> {}}" by blast+
qed

lemma smallestOf_Nil: "finite V \<Longrightarrow> [] \<notin> V \<Longrightarrow> smallestOf V = [] \<longleftrightarrow> V = {}"
proof (cases "V = {}")
  case False
  assume "finite V" and nn: "[] \<notin> V"
  then have "Min V \<in> V" using False by simp
  then have "Min V \<noteq> []" using nn by metis
  then show ?thesis using False by (simp add: smallestOf_def least_def)
qed (simp add: smallestOf_def least_def)

lemma claim_application:
  "gm_str (resolvePVCApplications ann mc) key =
    (case least {raw \<in> (\<lambda>s. row_str s argoTrackingIDLabel) ` rowsAt QPVCAnnotations mc (set ann) key. usableTrackingID raw} of
       None \<Rightarrow> [] | Some raw \<Rightarrow> argoAppName raw)"
proof -
  let ?keyOf = "\<lambda>s. let claim = row_str s ''persistentvolumeclaim'' in
       if claim = [] then None else Some (bucketed mc QPVCAnnotations s, row_str s ''namespace'', claim)"
  have "offers (trackingOffer argoTrackingIDLabel ?keyOf) (set ann) key =
      {raw \<in> (\<lambda>s. row_str s argoTrackingIDLabel) ` rowsAt QPVCAnnotations mc (set ann) key. usableTrackingID raw}"
    by (auto simp: offers_def trackingOffer_def rowsAt_def Let_def split: if_splits)
  then show ?thesis
    unfolding resolvePVCApplications_def resolveApplications_picks gm_str_get gm_get_map_snd pick_least
    by (simp split: option.split)
qed

lemma claim_usage:
  "gm_get (resolvePVCUsage used capacity mc) key =
    (let u = least (sm_value ` rowsAt QKubeletVolumeUsedBytes mc (set used) key);
         c = least (sm_value ` rowsAt QKubeletVolumeCapacityBytes mc (set capacity) key) in
     if u = None \<and> c = None then None else Some \<lparr> UsedBytes = u, CapacityBytes = c \<rparr>)"
proof -
  have o: "offers (usageOffer q mc) (set rows) key = sm_value ` rowsAt q mc (set rows) key" for q and rows :: "'a Row list"
    by (auto simp: offers_def usageOffer_def rowsAt_def Let_def split: if_splits)
  let ?u = "pickAll (<) (usageOffer QKubeletVolumeUsedBytes mc) used []"
  let ?c = "pickAll (<) (usageOffer QKubeletVolumeCapacityBytes mc) capacity []"
  have copy: "gm_get (map (\<lambda>k. (k, f k)) ks) k = (if k \<in> set ks then Some (f k) else None)" for f :: "pvcKey \<Rightarrow> 'a UsageBytes" and ks k
    by (induction ks) (auto simp: gm_get_Cons)
  have keys: "key \<in> set (remdups (map fst ?u @ map fst ?c)) \<longleftrightarrow> gm_get ?u key \<noteq> None \<or> gm_get ?c key \<noteq> None"
    unfolding set_remdups set_append set_map Un_iff gm_has_iff [symmetric] gm_has_get ..
  show ?thesis unfolding resolvePVCUsage_def Let_def copy keys unfolding pick_least o by simp
qed

text \<open>What is said of a claim, label by label, and what the sets of rows say.\<close>

definition claimFacts :: "'f PVCNode \<Rightarrow> string \<times> string \<times> (string \<rightharpoonup> string) \<times> string \<times> string \<times> 'f UsageBytes option" where
  "claimFacts n = (pvc_IDValue n, pvc_NameValue n, gm_get (pvc_LabelsValue n), pvc_StorageClassValue n, pvc_ApplicationValue n, pvc_UsageValue n)"

definition claimSpec ::
  "clusterResolver \<Rightarrow> ('f :: linorder) Row list \<Rightarrow> 'f Row set \<Rightarrow> 'f Row set \<Rightarrow> 'f Row set \<Rightarrow> 'f Row set \<Rightarrow> pvcKey
     \<Rightarrow> string \<times> string \<times> (string \<rightharpoonup> string) \<times> string \<times> string \<times> 'f UsageBytes option" where
  "claimSpec mc vec info ann used capacity key =
     (case key of (cluster, ns, claim) \<Rightarrow>
       (PVCID cluster ns claim, claim,
        (\<lambda>l. if l = ''cluster'' then Some cluster
             else if l = ''namespace'' then Some ns
             else if l = ''volumename'' then least (infoValues mc ''volumename'' info key)
             else if l = ''volume'' then least (volumesOf mc vec key)
             else None),
        smallestOf (infoValues mc ''storageclass'' info key),
        (case least {raw \<in> (\<lambda>s. row_str s argoTrackingIDLabel) ` rowsAt QPVCAnnotations mc ann key. usableTrackingID raw} of
           None \<Rightarrow> [] | Some raw \<Rightarrow> argoAppName raw),
        (let u = least (sm_value ` rowsAt QKubeletVolumeUsedBytes mc used key);
             c = least (sm_value ` rowsAt QKubeletVolumeCapacityBytes mc capacity key) in
         if u = None \<and> c = None then None else Some \<lparr> UsedBytes = u, CapacityBytes = c \<rparr>)))"

text \<open>The keys a parse makes claims of.\<close>

definition claimKeys :: "clusterResolver \<Rightarrow> 'f Row list \<Rightarrow> bool \<Rightarrow> 'f Row set \<Rightarrow> pvcKey set" where
  "claimKeys mc vec mat info = pvcKeyOf mc ` claimRows vec \<union> (if mat then {k. rowsAt QPVCInfo mc info k \<noteq> {}} else {})"

text \<open>A claim of the state: the node \<open>newPVC\<close> makes, with the smallest volume name seen so far.\<close>

definition claimNode :: "'f claimAttrs \<Rightarrow> string set \<Rightarrow> pvcKey \<Rightarrow> 'f PVCNode" where
  "claimNode ca V key = (let n = newPVC ca (pvcIDOf key) key in
     case least V of None \<Rightarrow> n | Some v \<Rightarrow> n\<lparr> pvc_LabelsValue := gm_put ''volume'' v (pvc_LabelsValue n) \<rparr>)"

lemma newPVC_volume: "gm_get (pvc_LabelsValue (newPVC ca i key)) ''volume'' = None"
  by (simp add: newPVC_def Let_def gm_get_Cons)

lemma gm_put_twice: "gm_put k v (gm_put k w m) = gm_put k v m"
  by (simp add: gm_put_def)

lemma claimNode_empty: "claimNode ca {} key = newPVC ca (pvcIDOf key) key"
  by (simp add: claimNode_def least_def Let_def)

lemma setVolume_claimNode:
  assumes "finite V"
  shows "setVolume vol (claimNode ca V key) = claimNode ca (if vol = [] then V else insert vol V) key"
proof (cases "vol = [] \<or> V = {}")
  case True
  then show ?thesis by (auto simp: setVolume_def claimNode_def least_def Let_def newPVC_volume)
next
  case False
  let ?n = "newPVC ca (pvcIDOf key) key"
  have n: "claimNode ca V key = ?n\<lparr> pvc_LabelsValue := gm_put ''volume'' (Min V) (pvc_LabelsValue ?n) \<rparr>"
    "claimNode ca (insert vol V) key = ?n\<lparr> pvc_LabelsValue := gm_put ''volume'' (Min (insert vol V)) (pvc_LabelsValue ?n) \<rparr>"
    using False by (simp_all add: claimNode_def least_def Let_def)
  have "Min (insert vol V) = (if vol < Min V then vol else Min V)"
    using False assms by (simp add: min.absorb3 min.absorb2 not_less del: Min_gr_iff Min_le_iff)
  then show ?thesis using False unfolding setVolume_def n(1) by (simp add: gm_put_twice n(2))
qed

lemma claimNode_facts:
  "claimFacts (claimNode (claimIndexes info ann used capacity mc) (volumesOf mc vec key) key) =
     claimSpec mc vec (set info) (set ann) (set used) (set capacity) key"
proof -
  let ?ca = "claimIndexes info ann used capacity mc"
  obtain c ns cl where key: "key = (c, ns, cl)" by (cases key)
  have attrs: "(case gm_get (ca_pvcInfo ?ca) key of Some a \<Rightarrow> a | None \<Rightarrow> noAttrs) = attrsAt (resolvePVCInfo info mc) key"
    by (simp add: claimIndexes_def attrsAt_def)
  have vn: "gm_get (pvc_LabelsValue (newPVC ?ca (pvcIDOf key) key)) = (\<lambda>l. if l = ''cluster'' then Some c
             else if l = ''namespace'' then Some ns
             else if l = ''volumename'' then least (infoValues mc ''volumename'' (set info) key) else None)"
    using smallestOf_Nil [OF infoValues_finite [OF finite_set] infoValues_not_Nil, of mc "''volumename''" info key]
    unfolding newPVC_def Let_def attrs pvcInfo_fields
    by (intro ext) (auto simp: key gm_get_Cons smallestOf_def least_def)
  have labels: "gm_get (pvc_LabelsValue (claimNode ?ca V key)) = (\<lambda>l. if l = ''cluster'' then Some c
             else if l = ''namespace'' then Some ns
             else if l = ''volumename'' then least (infoValues mc ''volumename'' (set info) key)
             else if l = ''volume'' then least V else None)" for V
    by (rule ext) (simp add: claimNode_def Let_def vn split: option.split)
  have rest: "pvc_IDValue (claimNode ?ca V key) = PVCID c ns cl" "pvc_NameValue (claimNode ?ca V key) = cl"
    "pvc_StorageClassValue (claimNode ?ca V key) = pia_storageClass (attrsAt (resolvePVCInfo info mc) key)"
    "pvc_ApplicationValue (claimNode ?ca V key) = gm_str (resolvePVCApplications ann mc) key"
    "pvc_UsageValue (claimNode ?ca V key) = gm_get (resolvePVCUsage used capacity mc) key" for V
    unfolding attrs [symmetric] claimNode_def newPVC_def Let_def pvcIDOf_def
    by (simp_all add: key claimIndexes_def split: option.split)
  show ?thesis
    unfolding claimFacts_def labels rest pvcInfo_fields claim_application claim_usage
    unfolding claimSpec_def key prod.case ..
qed

lemma pvcIDOf_inj:
  assumes "CHR ''/'' \<notin> set (fst (snd k))" "CHR ''/'' \<notin> set (snd (snd k))"
    and "CHR ''/'' \<notin> set (fst (snd k'))" "CHR ''/'' \<notin> set (snd (snd k'))" and "pvcIDOf k = pvcIDOf k'"
  shows "k = k'"
proof -
  have "rev (pvcIDOf k) = rev (pvcIDOf k')" using assms(5) by simp
  then have e: "rev (snd (snd k)) @ CHR ''/'' # rev (fst (snd k)) @ CHR ''/'' # rev (fst k)
      = rev (snd (snd k')) @ CHR ''/'' # rev (fst (snd k')) @ CHR ''/'' # rev (fst k')" by (simp add: pvcIDOf_def PVCID_def)
  note one = sep_split [OF _ _ e]
  have two: "rev (fst (snd k)) @ CHR ''/'' # rev (fst k) = rev (fst (snd k')) @ CHR ''/'' # rev (fst k')" and last: "snd (snd k) = snd (snd k')"
    using one assms(2,4) by simp_all
  have "rev (fst (snd k)) = rev (fst (snd k')) \<and> rev (fst k) = rev (fst k')"
    by (rule sep_split [OF _ _ two]) (use assms(1,3) in simp_all)
  then show ?thesis using last by (simp add: prod_eq_iff)
qed

lemma volumesOf_snoc:
  "volumesOf mc (vec @ [s]) key =
     (if claimOf s \<noteq> [] \<and> pvcKeyOf mc s = key \<and> row_str s ''volume'' \<noteq> [] then insert (row_str s ''volume'') (volumesOf mc vec key)
      else volumesOf mc vec key)"
  by (auto simp: volumesOf_def claimRows_def)

lemma claimRows_snoc: "claimRows (vec @ [s]) = (if claimOf s \<noteq> [] then insert s (claimRows vec) else claimRows vec)"
  by (auto simp: claimRows_def)

lemma volumesOf_finite: "finite (volumesOf mc vec key)"
  by (simp add: volumesOf_def claimRows_def)

lemma volumesOf_none: "key \<notin> pvcKeyOf mc ` claimRows vec \<Longrightarrow> volumesOf mc vec key = {}"
  by (auto simp: volumesOf_def)

text \<open>The state holds exactly the claims of the keys \<open>K\<close>, of a universe whose ids do not collide.\<close>

definition holdsClaims :: "'f claimAttrs \<Rightarrow> (pvcKey \<Rightarrow> string set) \<Rightarrow> pvcKey set \<Rightarrow> 'f claimState \<Rightarrow> bool" where
  "holdsClaims ca V K st =
     (gm_wf (cs_pvcByID st) \<and> set (cs_pvcByID st) = (\<lambda>k. (pvcIDOf k, claimNode ca (V k) k)) ` K)"

lemma holdsClaims_get:
  assumes "holdsClaims ca V K st" and "inj_on pvcIDOf U" and "K \<subseteq> U" and "k \<in> U"
  shows "gm_get (cs_pvcByID st) (pvcIDOf k) = (if k \<in> K then Some (claimNode ca (V k) k) else None)"
proof -
  have wf: "gm_wf (cs_pvcByID st)" and set: "set (cs_pvcByID st) = (\<lambda>k. (pvcIDOf k, claimNode ca (V k) k)) ` K"
    using assms(1) by (simp_all add: holdsClaims_def)
  have same: "k' = k" if "k' \<in> K" "pvcIDOf k' = pvcIDOf k" for k'
    using inj_onD [OF assms(2) that(2)] that(1) assms(3,4) by blast
  show ?thesis
  proof (cases "k \<in> K")
    case True
    then have "(pvcIDOf k, claimNode ca (V k) k) \<in> set (cs_pvcByID st)" unfolding set by (rule rev_image_eqI) simp
    then show ?thesis using gm_in_get [OF wf] True by simp
  next
    case False
    then have "pvcIDOf k \<notin> fst ` set (cs_pvcByID st)" unfolding set using same by auto
    then show ?thesis using False by (simp add: gm_has_iff [symmetric] gm_has_get)
  qed
qed

lemma holdsClaims_put:
  assumes "holdsClaims ca V K st" and "inj_on pvcIDOf U" and "insert k K \<subseteq> U" and "\<And>j. j \<noteq> k \<Longrightarrow> W j = V j"
    and "cs_pvcByID st' = gm_put (pvcIDOf k) (claimNode ca (W k) k) (cs_pvcByID st)"
  shows "holdsClaims ca W (insert k K) st'"
proof -
  have wf: "gm_wf (cs_pvcByID st)" and set: "set (cs_pvcByID st) = (\<lambda>k. (pvcIDOf k, claimNode ca (V k) k)) ` K"
    using assms(1) by (simp_all add: holdsClaims_def)
  have wf': "gm_wf (cs_pvcByID st')" unfolding assms(5) by (rule gm_wf_put [OF wf])
  have "(i, n) \<in> set (cs_pvcByID st') \<longleftrightarrow> (i, n) \<in> (\<lambda>k. (pvcIDOf k, claimNode ca (W k) k)) ` insert k K" for i n
  proof (cases "i = pvcIDOf k")
    case True
    have "n = claimNode ca (W k) k" if "j \<in> K" "pvcIDOf j = pvcIDOf k" "n = claimNode ca (W j) j" for j
      using inj_onD [OF assms(2) that(2)] that(1,3) assms(3) by blast
    then show ?thesis unfolding gm_in_get_iff [OF wf'] unfolding assms(5) using True by auto
  next
    case False
    have "(i, n) \<in> set (cs_pvcByID st') \<longleftrightarrow> (i, n) \<in> set (cs_pvcByID st)"
      unfolding gm_in_get_iff [OF wf'] gm_in_get_iff [OF wf] unfolding assms(5) using False by simp
    also have "\<dots> \<longleftrightarrow> (\<exists>j\<in>K. (i, n) = (pvcIDOf j, claimNode ca (V j) j))" unfolding set image_iff ..
    also have "\<dots> \<longleftrightarrow> (\<exists>j\<in>insert k K. (i, n) = (pvcIDOf j, claimNode ca (W j) j))"
    proof -
      have "j \<noteq> k \<and> W j = V j" if "i = pvcIDOf j" for j using that False assms(4) [of j] by metis
      then show ?thesis unfolding prod.inject by (metis insert_iff)
    qed
    also have "\<dots> \<longleftrightarrow> (i, n) \<in> (\<lambda>k. (pvcIDOf k, claimNode ca (W k) k)) ` insert k K" unfolding image_iff ..
    finally show ?thesis .
  qed
  then show ?thesis using wf' by (auto simp: holdsClaims_def)
qed

lemma pvcStep_parts:
  "cs_pvcByID (pvcStep ca uids mc s st) =
     (if claimOf s = [] then cs_pvcByID st
      else gm_put (rowID mc s) (setVolume (row_str s ''volume'')
          (case gm_get (cs_pvcByID st) (rowID mc s) of Some n \<Rightarrow> n | None \<Rightarrow> newPVC ca (rowID mc s) (pvcKeyOf mc s))) (cs_pvcByID st))"
  "set (cs_bindings (pvcStep ca uids mc s st)) = set (cs_bindings st) \<union> (if claimOf s = [] then {} else bindingOf uids mc s)"
  "distinct (cs_bindings st) \<Longrightarrow> distinct (cs_bindings (pvcStep ca uids mc s st))"
  unfolding pvcStep_def rowID_def bindingOf_def Let_def by (auto split: option.splits)

lemma pvcStep_holds:
  assumes "holdsClaims ca (volumesOf mc vec) (pvcKeyOf mc ` claimRows vec) st"
    and "inj_on pvcIDOf U" and "pvcKeyOf mc ` claimRows (vec @ [s]) \<subseteq> U"
  shows "holdsClaims ca (volumesOf mc (vec @ [s])) (pvcKeyOf mc ` claimRows (vec @ [s])) (pvcStep ca uids mc s st)"
proof (cases "claimOf s = []")
  case True
  then have "volumesOf mc (vec @ [s]) = volumesOf mc vec" by (intro ext) (simp add: volumesOf_snoc)
  then show ?thesis using assms(1) True unfolding holdsClaims_def pvcStep_parts(1) claimRows_snoc by simp
next
  case False
  let ?k = "pvcKeyOf mc s" and ?K = "pvcKeyOf mc ` claimRows vec"
  have K: "pvcKeyOf mc ` claimRows (vec @ [s]) = insert ?k ?K" using False by (simp add: claimRows_snoc)
  have sub: "insert ?k ?K \<subseteq> U" using assms(3) unfolding K .
  have get: "gm_get (cs_pvcByID st) (pvcIDOf ?k) = (if ?k \<in> ?K then Some (claimNode ca (volumesOf mc vec ?k) ?k) else None)"
    by (rule holdsClaims_get [OF assms(1,2)]) (use sub in auto)
  have old: "(case gm_get (cs_pvcByID st) (pvcIDOf ?k) of Some n \<Rightarrow> n | None \<Rightarrow> newPVC ca (pvcIDOf ?k) ?k) = claimNode ca (volumesOf mc vec ?k) ?k"
    unfolding get by (simp add: volumesOf_none claimNode_empty)
  have put: "cs_pvcByID (pvcStep ca uids mc s st) = gm_put (pvcIDOf ?k) (claimNode ca (volumesOf mc (vec @ [s]) ?k) ?k) (cs_pvcByID st)"
    unfolding pvcStep_parts(1) rowID_def old setVolume_claimNode [OF volumesOf_finite] volumesOf_snoc using False by simp
  have other: "volumesOf mc (vec @ [s]) j = volumesOf mc vec j" if "j \<noteq> ?k" for j
    using that by (simp add: volumesOf_snoc)
  show ?thesis unfolding K by (rule holdsClaims_put [OF assms(1,2) sub other put])
qed

lemma rows_claims:
  assumes "inj_on pvcIDOf U" and "pvcKeyOf mc ` claimRows vec \<subseteq> U"
  shows "holdsClaims ca (volumesOf mc vec) (pvcKeyOf mc ` claimRows vec) (fold (pvcStep ca uids mc) vec \<lparr> cs_pvcByID = [], cs_bindings = [] \<rparr>)"
  using assms(2)
proof (induction vec rule: rev_induct)
  case Nil
  then show ?case by (simp add: holdsClaims_def claimRows_def)
next
  case (snoc s vec)
  have "pvcKeyOf mc ` claimRows vec \<subseteq> U" using snoc.prems by (auto simp: claimRows_snoc split: if_splits)
  from pvcStep_holds [OF snoc.IH [OF this] assms(1) snoc.prems] show ?case by simp
qed

lemma rows_bindings:
  "distinct (cs_bindings (fold (pvcStep ca uids mc) vec \<lparr> cs_pvcByID = [], cs_bindings = [] \<rparr>)) \<and>
   set (cs_bindings (fold (pvcStep ca uids mc) vec \<lparr> cs_pvcByID = [], cs_bindings = [] \<rparr>)) = (\<Union>s\<in>claimRows vec. bindingOf uids mc s)"
proof (induction vec rule: rev_induct)
  case Nil
  then show ?case by (simp add: claimRows_def)
next
  case (snoc s vec)
  then show ?case unfolding fold_append comp_apply fold_simps by (auto simp: pvcStep_parts(2,3) claimRows_snoc)
qed

lemma materialise_holds:
  assumes "holdsClaims ca V K st" and "inj_on pvcIDOf U" and "K \<union> set ks \<subseteq> U" and "\<And>k. k \<notin> K \<Longrightarrow> V k = {}"
  shows "holdsClaims ca V (set ks \<union> K) (fold (materialiseStep ca) ks st) \<and> cs_bindings (fold (materialiseStep ca) ks st) = cs_bindings st"
  using assms(1,3,4)
proof (induction ks arbitrary: K st)
  case (Cons k ks)
  have get: "gm_get (cs_pvcByID st) (pvcIDOf k) = (if k \<in> K then Some (claimNode ca (V k) k) else None)"
    by (rule holdsClaims_get [OF Cons.prems(1) assms(2)]) (use Cons.prems(2) in auto)
  have sub: "insert k K \<subseteq> U" using Cons.prems(2) by auto
  have "holdsClaims ca V (insert k K) (materialiseStep ca k st)"
  proof (cases "k \<in> K")
    case True
    then show ?thesis using Cons.prems(1) get by (simp add: materialiseStep_def gm_has_get insert_absorb)
  next
    case False
    then have "cs_pvcByID (materialiseStep ca k st) = gm_put (pvcIDOf k) (claimNode ca (V k) k) (cs_pvcByID st)"
      using get Cons.prems(3) [OF False] by (simp add: materialiseStep_def gm_has_get claimNode_empty)
    then show ?thesis by (intro holdsClaims_put [OF Cons.prems(1) assms(2) sub refl])
  qed
  moreover have "cs_bindings (materialiseStep ca k st) = cs_bindings st" by (simp add: materialiseStep_def)
  moreover have "insert k K \<union> set ks \<subseteq> U" using Cons.prems(2) by auto
  moreover have "\<And>j. j \<notin> insert k K \<Longrightarrow> V j = {}" using Cons.prems(3) by simp
  ultimately show ?case using Cons.IH [of "insert k K" "materialiseStep ca k st"] by (simp add: Un_insert_left Un_insert_right)
qed simp

text \<open>
  C30: the claims and bindings of a parse are functions of the sets of rows. Namespaces and claim names contain no
  slash, as Kubernetes guarantees (with one, two claims could share an id). Then every key a binding row names - in
  a claim-seeded build also every key of the claim info - has exactly one node, no other node exists, and
  each node has the id, the name and exactly the labels, the StorageClass, the Application and the usage its rows
  give it: the smallest non-empty bound volume, class and mounted volume name, the Application of the smallest usable
  tracking-id, the smallest figures. And there is one binding, once, per row whose pod is loaded.
\<close>

theorem claims_exact:
  assumes "st = claimsOf (claimIndexes info ann used capacity mc) uids mat vec mc"
    and "\<forall>(cluster, ns, claim)\<in>claimKeys mc vec mat (set info). CHR ''/'' \<notin> set ns \<and> CHR ''/'' \<notin> set claim"
  shows "gm_wf (cs_pvcByID st) \<and>
   (\<lambda>(i, n). (i, claimFacts n)) ` set (cs_pvcByID st) =
     (\<lambda>k. (pvcIDOf k, claimSpec mc vec (set info) (set ann) (set used) (set capacity) k)) ` claimKeys mc vec mat (set info) \<and>
   distinct (cs_bindings st) \<and> set (cs_bindings st) = (\<Union>s\<in>claimRows vec. bindingOf uids mc s)"
proof -
  let ?ca = "claimIndexes info ann used capacity mc" and ?U = "claimKeys mc vec mat (set info)"
  let ?st = "fold (pvcStep ?ca uids mc) vec \<lparr> cs_pvcByID = [], cs_bindings = [] \<rparr>"
  have inj: "inj_on pvcIDOf ?U"
    by (rule inj_onI, rule pvcIDOf_inj) (use assms(2) in \<open>auto simp: case_prod_unfold\<close>)
  have "pvcKeyOf mc ` claimRows vec \<subseteq> ?U" by (simp add: claimKeys_def)
  note rows = rows_claims [OF inj this, of ?ca uids]
  have ks: "fst ` set (ca_pvcInfo ?ca) = {k. rowsAt QPVCInfo mc (set info) k \<noteq> {}}"
    by (simp add: claimIndexes_def pvcInfo_fields(3))
  have "holdsClaims ?ca (volumesOf mc vec) ?U st \<and> cs_bindings st = cs_bindings ?st"
  proof (cases mat)
    case True
    have U: "?U = set (sort (map fst (ca_pvcInfo ?ca))) \<union> pvcKeyOf mc ` claimRows vec" using True ks by (auto simp: claimKeys_def)
    have st: "st = fold (materialiseStep ?ca) (sort (map fst (ca_pvcInfo ?ca))) ?st" using True by (simp add: assms(1) claimsOf_def Let_def)
    show ?thesis unfolding st U
      by (rule materialise_holds [OF rows inj]) (use U in \<open>auto simp: volumesOf_none\<close>)
  next
    case False
    then show ?thesis using rows by (simp add: assms(1) claimsOf_def claimKeys_def)
  qed
  then show ?thesis using rows_bindings [of ?ca uids mc vec]
    by (auto simp: holdsClaims_def image_image claimNode_facts)
qed

definition exInfo :: "nat Row list" where
  "exInfo = [exSample [(''persistentvolumeclaim'', ''d''), (''storageclass'', ''slow''), (''volumename'', ''pvc-1'')] 1,
     exSample [(''persistentvolumeclaim'', ''d''), (''storageclass'', ''fast'')] 1, exSample [(''persistentvolumeclaim'', ''e'')] 1]"

definition exBound :: "nat Row list" where
  "exBound = [exSample [(''persistentvolumeclaim'', ''d''), (''pod'', ''p1''), (''volume'', ''v2'')] 1,
     exSample [(''claim_name'', ''d''), (''pod'', ''p1''), (''volume'', ''v1'')] 1]"

definition exNoted :: "nat Row list" where
  "exNoted = [exSample [(''persistentvolumeclaim'', ''d''), (argoTrackingIDLabel, ''site:apps/Deployment:shop/web'')] 1]"

definition exClaims :: "nat claimState" where
  "exClaims = claimsOf (claimIndexes exInfo exNoted [] [] exResolver) [((''c1'', ''shop'', ''p1''), ''u1'')] True exBound exResolver"

theorem claims_exact_witness:
  "map (\<lambda>(i, n). (i, pvc_StorageClassValue n, pvc_ApplicationValue n, gm_str (pvc_LabelsValue n) ''volumename'', gm_str (pvc_LabelsValue n) ''volume''))
     (cs_pvcByID exClaims) = [(''c1/shop/d'', ''fast'', ''site'', ''pvc-1'', ''v1''), (''c1/shop/e'', [], [], [], [])] \<and>
   distinct (cs_bindings exClaims) \<and>
   (''c1/shop/d'', claimSpec exResolver exBound (set exInfo) (set exNoted) {} {} (''c1'', ''shop'', ''d''))
     \<in> (\<lambda>(i, n). (i, claimFacts n)) ` set (cs_pvcByID exClaims)"
proof (intro conjI)
  have keys: "claimKeys exResolver exBound True (set exInfo) = pvcKeyOf exResolver ` set exBound \<union> fst ` set (resolvePVCInfo exInfo exResolver)"
  proof -
    have "claimRows exBound = set exBound" by (auto simp: claimRows_def exBound_def exSample_def claimOf_def gm_str_def)
    then show ?thesis by (simp add: claimKeys_def pvcInfo_fields(3))
  qed
  have plain: "\<forall>(cluster, ns, claim)\<in>claimKeys exResolver exBound True (set exInfo). CHR ''/'' \<notin> set ns \<and> CHR ''/'' \<notin> set claim"
    unfolding keys by code_simp
  note exact = claims_exact [OF exClaims_def plain]
  show "distinct (cs_bindings exClaims)" using exact by blast
  have key: "(''c1'', ''shop'', ''d'') \<in> claimKeys exResolver exBound True (set exInfo)" unfolding keys by code_simp
  have i: "pvcIDOf (''c1'', ''shop'', ''d'') = ''c1/shop/d''" by code_simp
  show "(''c1/shop/d'', claimSpec exResolver exBound (set exInfo) (set exNoted) {} {} (''c1'', ''shop'', ''d''))
     \<in> (\<lambda>(i, n). (i, claimFacts n)) ` set (cs_pvcByID exClaims)"
    unfolding exact [THEN conjunct2, THEN conjunct1, unfolded list.set(1)] i [symmetric] by (rule imageI [OF key])
qed code_simp

section \<open>Whose Application a claim takes\<close>

lemma least_of_mins:
  assumes "finite X" and "\<And>x. x \<in> X \<Longrightarrow> finite (A x)"
  shows "least {Min (A x) | x. x \<in> X \<and> A x \<noteq> {}} = least (\<Union>x\<in>X. A x)"
proof (cases "\<forall>x\<in>X. A x = {}")
  case True
  then have e: "{Min (A x) | x. x \<in> X \<and> A x \<noteq> {}} = {}" "(\<Union>x\<in>X. A x) = {}" by auto
  show ?thesis unfolding e ..
next
  case False
  let ?M = "{Min (A x) | x. x \<in> X \<and> A x \<noteq> {}}" and ?U = "\<Union>x\<in>X. A x"
  have fin: "finite ?M" "finite ?U" using assms by simp_all
  have ne: "?M \<noteq> {}" "?U \<noteq> {}" using False by auto
  have "Min ?M = Min ?U"
  proof (rule order.antisym)
    obtain x where x: "x \<in> X" "Min ?U \<in> A x" using Min_in [OF fin(2) ne(2)] by blast
    then have "Min (A x) \<in> ?M" by blast
    then have "Min ?M \<le> Min (A x)" by (rule Min_le [OF fin(1)])
    also have "\<dots> \<le> Min ?U" using Min_le [OF assms(2) [OF x(1)] x(2)] .
    finally show "Min ?M \<le> Min ?U" .
    obtain y where y: "y \<in> X" "A y \<noteq> {}" "Min ?M = Min (A y)" using Min_in [OF fin(1) ne(1)] by blast
    then have "Min (A y) \<in> ?U" using Min_in [OF assms(2) [OF y(1)] y(2)] by blast
    then show "Min ?U \<le> Min ?M" unfolding y(3) by (rule Min_le [OF fin(2)])
  qed
  then show ?thesis using ne unfolding least_def by simp
qed

definition podAppsAt :: "PodNode list \<Rightarrow> string \<Rightarrow> string set" where
  "podAppsAt pods i = pod_ApplicationValue ` {p \<in> set pods. pod_IDValue p = i} - {[]}"

lemma podAppByID_str: "gm_str (podAppByID pods) i = smallestOf (podAppsAt pods i)"
proof -
  have "offers (\<lambda>p. if pod_ApplicationValue p = [] then None else Some (pod_IDValue p, pod_ApplicationValue p)) (set pods) i = podAppsAt pods i"
    by (auto simp: offers_def podAppsAt_def)
  then show ?thesis by (simp add: podAppByID_def gm_str_get pick_least smallestOf_def)
qed

lemma podAppsAt_finite: "finite (podAppsAt pods i)" and podAppsAt_not_Nil: "[] \<notin> podAppsAt pods i"
  by (simp_all add: podAppsAt_def)

lemma inherited_str:
  "gm_str (pvcInheritedApps bindings (podAppByID pods)) i =
     smallestOf (\<Union>b\<in>{b \<in> set bindings. PVCID_of b = i}. podAppsAt pods (PodID_of b))"
proof -
  have "offers (\<lambda>b. let app = gm_str (podAppByID pods) (PodID_of b) in if app = [] then None else Some (PVCID_of b, app)) (set bindings) i
      = {Min (podAppsAt pods x) | x. x \<in> PodID_of ` {b \<in> set bindings. PVCID_of b = i} \<and> podAppsAt pods x \<noteq> {}}"
    unfolding offers_def podAppByID_str Let_def using smallestOf_Nil [OF podAppsAt_finite podAppsAt_not_Nil]
    by (auto simp: smallestOf_def least_def split: if_splits)
  then show ?thesis
    unfolding pvcInheritedApps_def gm_str_get pick_least smallestOf_def
    by (simp add: least_of_mins podAppsAt_finite)
qed

text \<open>
  A claim keeps the Application of its own annotation; without one it takes the smallest Application of the pods
  that mount it, and none when they have none. Nothing else about the claims changes.
\<close>

theorem inheritApps_spec:
  "inheritApps bindings pods pvcs = map (\<lambda>pvc. pvc\<lparr> pvc_ApplicationValue :=
     (if pvc_ApplicationValue pvc \<noteq> [] then pvc_ApplicationValue pvc
      else smallestOf (\<Union>b\<in>{b \<in> set bindings. PVCID_of b = pvc_IDValue pvc}. podAppsAt pods (PodID_of b))) \<rparr>) pvcs"
  unfolding inheritApps_def Let_def inherited_str by (rule map_cong [OF refl]) auto

section \<open>Services\<close>

text \<open>
  The service indexes keep the row that arrives last: a service recreated inside the window has two rows, and its
  address, hence whether it counts as headless, depends on their order.
\<close>

lemma service_last_row:
  "gm_get (servicesByNameNS [exSample [(''service'', ''db''), (''cluster_ip'', ''None'')] 1, exSample [(''service'', ''db''), (''cluster_ip'', ''10.0.0.9'')] 1] exResolver)
     (''c1'', ''shop'', ''db'') = Some ''10.0.0.9''"
  "gm_get (servicesByNameNS [exSample [(''service'', ''db''), (''cluster_ip'', ''10.0.0.9'')] 1, exSample [(''service'', ''db''), (''cluster_ip'', ''None'')] 1] exResolver)
     (''c1'', ''shop'', ''db'') = Some ''None''"
  by code_simp+

definition endpointOf ::
  "(sliceKey, string) gomap \<Rightarrow> (podNameKey, PodNode) gomap \<Rightarrow> clusterResolver \<Rightarrow> 'f Row \<Rightarrow> (serviceKey \<times> PodNode) option" where
  "endpointOf slices pods mc s =
     (let cluster = bucketed mc QEndpointSliceEndpoints s; ns = row_str s ''namespace'';
          targetNS = (if row_str s ''targetref_namespace'' = [] then ns else row_str s ''targetref_namespace'') in
      if row_str s ''targetref_kind'' \<in> {[], ''Pod''} \<and> row_str s ''targetref_name'' \<noteq> [] then
        (case (gm_get slices (cluster, ns, row_str s ''endpointslice''), gm_get pods (cluster, targetNS, row_str s ''targetref_name'')) of
           (Some svc, Some pod) \<Rightarrow> Some ((cluster, ns, svc), pod)
         | _ \<Rightarrow> None)
      else None)"

lemma endpointStep_eq:
  "endpointStep slices pods mc s m = (case endpointOf slices pods mc s of None \<Rightarrow> m | Some (k, pod) \<Rightarrow> gm_append k pod m)"
  by (auto simp: endpointStep_def endpointOf_def Let_def split: option.splits)

text \<open>
  The backing pods of a service are, in row order, exactly the loaded pods its endpoint rows refer to through an
  EndpointSlice known to belong to it; they are pods of the service's own cluster.
\<close>

theorem endpointsByService_exact:
  "gm_list (endpointsByService slices pods vec mc) key =
     map snd (filter (\<lambda>x. fst x = key) (List.map_filter (endpointOf slices pods mc) vec))"
proof -
  have "fold (endpointStep slices pods mc) vec m = fold (\<lambda>x. gm_append (fst x) (snd x)) (List.map_filter (endpointOf slices pods mc) vec) m" for m
    by (induction vec arbitrary: m) (auto simp: endpointStep_eq List.map_filter_def split: option.splits)
  from this [of "[]"] have "endpointsByService slices pods vec mc = fold (\<lambda>x. gm_append (fst x) (snd x)) (List.map_filter (endpointOf slices pods mc) vec) []"
    unfolding endpointsByService_def .
  moreover have "gm_list [] key = []" by (simp add: gm_list_def)
  ultimately show ?thesis by (simp add: gm_list_fold_append)
qed

end
