(* ===== verification/StorageProjection.thy ===== *)
theory StorageProjection
  imports Complex_Main StorageScope
begin

text \<open>
  The storage-flow view: \<open>pkg/graph/project_storage.go\<close>.

  A storage graph holds the fixed tier chain controller, aggregate, SVM, claim, pod, Kubernetes node
  as storage-flow edges. \<open>extractFlowUnits\<close> cuts it into flow units, one per claim and mounting
  pod; \<open>resolveStorageRoots\<close> turns the request's root into node ids; \<open>ProjectStorage\<close> keeps the
  units that touch a root and pass the filters, and \<open>weightRetained\<close> re-derives the I/O of every
  edge from the kept units.

  Arithmetic. The figures are \<open>float64\<close> values; the code only adds two of them, divides by a
  converted integer, and copies. The model takes those three operations as a record \<open>'f Arith\<close>, so
  that every statement without a hypothesis on it holds for IEEE arithmetic, rounding included;
  statements about exact sums are proved for the rational instance \<open>exact\<close>.

  \<open>slices.SortFunc\<close> leaves the order of elements with equal keys open; the model's sort is stable,
  and the statements that depend on the order assume the keys distinct.

  The lemmas give the retained units, the nodes and the edges of the view in terms of the graph, show
  that every edge of a unit joins two ids of that unit, and that the weight of an edge is the sum of
  the shares of the units passing through it.
\<close>

section \<open>Arithmetic\<close>

record 'f Arith =
  fadd :: "'f \<Rightarrow> 'f \<Rightarrow> 'f"
  fdiv :: "'f \<Rightarrow> 'f \<Rightarrow> 'f"
  fofint :: "int \<Rightarrow> 'f"

definition exact :: "rat Arith" where
  "exact = \<lparr> fadd = (+), fdiv = (/), fofint = of_int \<rparr>"

definition noIO :: "'f IOMetrics" where
  "noIO = \<lparr> ReadOps = None, WriteOps = None, ReadLatencyUs = None, WriteLatencyUs = None,
     ReadBytesPerSec = None, WriteBytesPerSec = None, MaxIOPS = None, MaxBytesPerSec = None,
     ReadOpsDelta = None, WriteOpsDelta = None, ReadLatencyUsDelta = None,
     WriteLatencyUsDelta = None, ReadBytesPerSecDelta = None, WriteBytesPerSecDelta = None \<rparr>"

section \<open>Flow units\<close>

record 'f flowUnit =
  claimID :: string
  podID :: string
  nodeID :: string
  svmID :: string
  aggrID :: string
  ctrlID :: string
  mounters :: int
  sink :: bool
  unit_io :: "'f IOMetrics option"
  unit_edges :: "'f Edge list"
  ids :: "string list"

abbreviation tier :: "'f Edge \<Rightarrow> string" where
  "tier e \<equiv> gm_str (ELabels e) ''tier''"

definition tierEdges :: "'f Graph \<Rightarrow> string \<Rightarrow> 'f Edge list" where
  "tierEdges g t = filter (\<lambda>e. EType e = EdgeTypeStorageFlow \<and> tier e = t) (Edges g)"

text \<open>The lookup tables \<open>extractFlowUnits\<close> builds before its main loop.\<close>

record 'f flowIndex =
  ix_ownerOf :: "(string, string) gomap"
  ix_nodeAggrOf :: "(string, 'f Edge) gomap"
  ix_aggrSVMOf :: "(string \<times> string, 'f Edge) gomap"
  ix_incomingAggr :: "(string, 'f Edge list) gomap"
  ix_mountersOf :: "(string, 'f Edge list) gomap"
  ix_nodeOf :: "(string, 'f Edge) gomap"
  ix_stamped :: bool

definition flowIndexOf :: "'f Graph \<Rightarrow> 'f flowIndex" where
  "flowIndexOf g =
     (let nodeAggr = tierEdges g StorageTierNodeAggr;
          aggrSVM = tierEdges g StorageTierAggrSVM;
          pvcPod = tierEdges g StorageTierPVCPod;
          podNode = tierEdges g StorageTierPodNode;
          svmPVC = tierEdges g StorageTierSVMPVC
      in \<lparr> ix_ownerOf = fold (\<lambda>e. gm_put (Target e) (Source e)) nodeAggr [],
           ix_nodeAggrOf = fold (\<lambda>e. gm_put (Target e) e) nodeAggr [],
           ix_aggrSVMOf = fold (\<lambda>e. gm_put (Source e, Target e) e) aggrSVM [],
           ix_incomingAggr = fold (\<lambda>e. gm_append (Target e) e) aggrSVM [],
           ix_mountersOf = fold (\<lambda>e. gm_append (Source e) e) pvcPod [],
           ix_nodeOf = fold (\<lambda>e. gm_put (Source e) e) podNode [],
           ix_stamped = list_ex (\<lambda>e. gm_str (ELabels e) ClaimAggrLabel \<noteq> []) svmPVC \<rparr>)"

definition claimAggrOf :: "'f Edge \<Rightarrow> 'f Edge list \<Rightarrow> bool \<Rightarrow> string" where
  "claimAggrOf claim incoming stamped =
     (let i = gm_str (ELabels claim) ClaimAggrLabel in
      if i \<noteq> [] then i
      else if \<not> stamped \<and> length incoming = 1 then Source (hd incoming)
      else [])"

definition addUpstream :: "'f flowIndex \<Rightarrow> 'f flowUnit \<Rightarrow> 'f flowUnit" where
  "addUpstream ix u =
     (let u = (if aggrID u \<noteq> []
               then u\<lparr> ids := ids u @ [aggrID u],
                       unit_edges := unit_edges u @
                         (case gm_get (ix_aggrSVMOf ix) (aggrID u, svmID u) of None \<Rightarrow> [] | Some e \<Rightarrow> [e]) \<rparr>
               else u)
      in if ctrlID u \<noteq> []
         then u\<lparr> ids := ids u @ [ctrlID u],
                 unit_edges := unit_edges u @
                   (case gm_get (ix_nodeAggrOf ix) (aggrID u) of None \<Rightarrow> [] | Some e \<Rightarrow> [e]) \<rparr>
         else u)"

text \<open>
  The pod-node hop. A target that is not a loaded node reads like an unscheduled pod.
\<close>

definition addNode :: "'f Graph \<Rightarrow> 'f flowIndex \<Rightarrow> 'f flowUnit \<Rightarrow> 'f flowUnit" where
  "addNode g ix u =
     (case gm_get (ix_nodeOf ix) (podID u) of
        None \<Rightarrow> u
      | Some ne \<Rightarrow>
          if gm_has (NodesByID g) (Target ne)
          then u\<lparr> nodeID := Target ne, unit_edges := unit_edges u @ [ne], ids := ids u @ [Target ne] \<rparr>
          else u)"

definition claimUnits :: "'f Graph \<Rightarrow> 'f flowIndex \<Rightarrow> 'f Edge \<Rightarrow> 'f flowUnit list" where
  "claimUnits g ix claim =
     (let pvc = Target claim; svm = Source claim;
          mnt = gm_list (ix_mountersOf ix) pvc;
          n = int (length mnt);
          aggr = claimAggrOf claim (gm_list (ix_incomingAggr ix) svm) (ix_stamped ix);
          ctrl = gm_str (ix_ownerOf ix) aggr
      in if n = 0 then
           [addUpstream ix
              \<lparr> claimID = pvc, podID = [], nodeID = [], svmID = svm, aggrID = aggr, ctrlID = ctrl,
                mounters = 1, sink = True, unit_io = EIO claim, unit_edges = [claim],
                ids = [svm, pvc] \<rparr>]
         else
           map (\<lambda>pe. addNode g ix (addUpstream ix
              \<lparr> claimID = pvc, podID = Target pe, nodeID = [], svmID = svm, aggrID = aggr,
                ctrlID = ctrl, mounters = n, sink = False, unit_io = EIO claim,
                unit_edges = [claim, pe], ids = [svm, pvc, Target pe] \<rparr>)) mnt)"

definition unitKey :: "'f flowUnit \<Rightarrow> string \<times> string" where
  "unitKey u = (claimID u, podID u)"

definition cmpUnit :: "'f flowUnit \<Rightarrow> 'f flowUnit \<Rightarrow> int" where
  "cmpUnit a b =
     (if claimID a \<noteq> claimID b then (if claimID a < claimID b then -1 else 1)
      else if podID a < podID b then -1
      else if podID a > podID b then 1
      else 0)"

definition extractFlowUnits :: "'f Graph \<Rightarrow> 'f flowUnit list" where
  "extractFlowUnits g =
     sort_key unitKey (concat (map (claimUnits g (flowIndexOf g)) (tierEdges g StorageTierSVMPVC)))"

section \<open>Filters and roots\<close>

definition intersects :: "'f flowUnit \<Rightarrow> string list \<Rightarrow> bool" where
  "intersects u is = (is \<noteq> [] \<and> list_ex (\<lambda>i. i \<in> set is) (ids u))"

definition workloadPassesFilters :: "'f GraphNode \<Rightarrow> StorageScope \<Rightarrow> (string \<Rightarrow> string) \<Rightarrow> bool" where
  "workloadPassesFilters n scope rawName =
     ((ss_Clusters scope \<noteq> []
         \<and> Type n \<notin> {NodeTypeNetAppAggr, NodeTypeNetAppNode, NodeTypeNetAppSVM}
       \<longrightarrow> rawName (label n ''cluster'') \<in> set (ss_Clusters scope))
      \<and> (ss_Namespaces scope \<noteq> [] \<and> Type n \<in> {NodeTypePod, NodeTypePVC}
         \<longrightarrow> label n ''namespace'' \<in> set (ss_Namespaces scope)))"

definition passesFilters ::
  "'f flowUnit \<Rightarrow> 'f Graph \<Rightarrow> StorageScope \<Rightarrow> (string \<Rightarrow> string) \<Rightarrow> bool" where
  "passesFilters u g scope rawName =
     list_all (\<lambda>i. i = [] \<or>
         (case gm_get (NodesByID g) i of
            None \<Rightarrow> False
          | Some n \<Rightarrow> workloadPassesFilters n scope rawName))
       [claimID u, podID u, nodeID u]"

text \<open>The four id sets of a resolved root. Two of them are ranged over, so all are lists.\<close>

record RootIDs =
  rid_storage :: "string list"
  rid_workload :: "string list"
  rid_claimHits :: "string list"
  rid_claimRoots :: "string list"

definition noRootIDs :: RootIDs where
  "noRootIDs = \<lparr> rid_storage = [], rid_workload = [], rid_claimHits = [], rid_claimRoots = [] \<rparr>"

definition addStorage :: "string \<Rightarrow> RootIDs \<Rightarrow> RootIDs" where
  "addStorage i r = r\<lparr> rid_storage := List.insert i (rid_storage r) \<rparr>"

definition addWorkload :: "string \<Rightarrow> RootIDs \<Rightarrow> RootIDs" where
  "addWorkload i r = r\<lparr> rid_workload := List.insert i (rid_workload r) \<rparr>"

definition addClaimHit :: "string \<Rightarrow> RootIDs \<Rightarrow> RootIDs" where
  "addClaimHit i r = r\<lparr> rid_claimHits := List.insert i (rid_claimHits r) \<rparr>"

definition addClaimRoot :: "string \<Rightarrow> RootIDs \<Rightarrow> RootIDs" where
  "addClaimRoot i r = (addWorkload i r)\<lparr> rid_claimRoots := List.insert i (rid_claimRoots r) \<rparr>"

definition named :: "StorageRoots \<Rightarrow> 'f GraphNode \<Rightarrow> bool" where
  "named roots n = (Name n \<in> set (roots_Names roots))"

definition rooted :: "StorageRoots \<Rightarrow> 'f GraphNode \<Rightarrow> bool" where
  "rooted roots n =
     (named roots n \<or> Ref (label n ''ontap_cluster'') (Name n) \<in> set (roots_Qualified roots))"

definition resolveStep :: "StorageRoots \<Rightarrow> 'f GraphNode \<Rightarrow> RootIDs \<Rightarrow> RootIDs" where
  "resolveStep roots n r =
     (let kind = roots_Kind roots; i = ID n in
      if kind = StorageRootONTAPCluster then
        (if Type n \<in> {NodeTypeNetAppAggr, NodeTypeNetAppSVM, NodeTypeNetAppNode}
            \<and> label n ''ontap_cluster'' \<in> set (roots_Names roots) then addStorage i r else r)
      else if kind = StorageRootONTAPNode then
        (if Type n = NodeTypeNetAppNode \<and> named roots n then addStorage i r else r)
      else if kind = StorageRootAggr then
        (if Type n = NodeTypeNetAppAggr \<and> rooted roots n then addStorage i r else r)
      else if kind = StorageRootSVM then
        (if Type n = NodeTypeNetAppSVM \<and> rooted roots n then addStorage i r else r)
      else if kind = StorageRootNode then
        (if Type n = NodeTypeK8sNode \<and> named roots n then addWorkload i r else r)
      else if kind = StorageRootPod then
        (if Type n = NodeTypePod \<and> Ref (label n ''namespace'') (Name n) \<in> set (roots_Pods roots)
         then addWorkload i r else r)
      else if kind = StorageRootPVC then
        (if Type n = NodeTypePVC \<and> Ref (label n ''namespace'') (Name n) \<in> set (roots_Claims roots)
         then addClaimRoot i r else r)
      else if kind = StorageRootPV then
        (if Type n = NodeTypePVC \<and> label n ''volumename'' \<noteq> []
            \<and> label n ''volumename'' \<in> set (roots_Names roots)
         then addClaimRoot i r else r)
      else if kind = StorageRootApplication then
        (if Application n = [] \<or> Application n \<notin> set (roots_Names roots) then r
         else if Type n = NodeTypePod then addWorkload i r
         else if Type n = NodeTypePVC then addClaimHit i r
         else r)
      else r)"

definition resolveStorageRoots :: "'f Graph \<Rightarrow> StorageScope \<Rightarrow> RootIDs" where
  "resolveStorageRoots g scope =
     (let roots = ss_Roots scope in
      if \<not> StorageRoots_Any roots then noRootIDs
      else fold (\<lambda>(i, n). resolveStep roots n) (NodesByID g) noRootIDs)"

section \<open>Weights\<close>

definition divPtr :: "'f Arith \<Rightarrow> 'f option \<Rightarrow> 'f \<Rightarrow> 'f option" where
  "divPtr A p b = map_option (\<lambda>x. fdiv A x b) p"

definition addPtr :: "'f Arith \<Rightarrow> 'f option \<Rightarrow> 'f option \<Rightarrow> 'f option" where
  "addPtr A dst src =
     (case src of
        None \<Rightarrow> dst
      | Some s \<Rightarrow> (case dst of None \<Rightarrow> Some s | Some d \<Rightarrow> Some (fadd A d s)))"

definition hasLatency :: "'f IOMetrics option \<Rightarrow> bool" where
  "hasLatency io =
     (case io of None \<Rightarrow> False | Some m \<Rightarrow> ReadLatencyUs m \<noteq> None \<or> WriteLatencyUs m \<noteq> None)"

text \<open>\<open>None\<close> is the second result \<open>false\<close>: no unit share.\<close>

definition scaleFlow :: "'f Arith \<Rightarrow> 'f IOMetrics option \<Rightarrow> int \<Rightarrow> 'f IOMetrics option" where
  "scaleFlow A io n =
     (case io of
        None \<Rightarrow> None
      | Some m \<Rightarrow>
          if n \<le> 0 then None
          else (let f = fofint A n;
                    out = noIO;
                    out = (case ReadOps m of None \<Rightarrow> out | Some x \<Rightarrow>
                       out\<lparr> ReadOps := Some (fdiv A x f), ReadOpsDelta := divPtr A (ReadOpsDelta m) f \<rparr>);
                    out = (case WriteOps m of None \<Rightarrow> out | Some x \<Rightarrow>
                       out\<lparr> WriteOps := Some (fdiv A x f), WriteOpsDelta := divPtr A (WriteOpsDelta m) f \<rparr>);
                    out = (case ReadBytesPerSec m of None \<Rightarrow> out | Some x \<Rightarrow>
                       out\<lparr> ReadBytesPerSec := Some (fdiv A x f),
                            ReadBytesPerSecDelta := divPtr A (ReadBytesPerSecDelta m) f \<rparr>);
                    out = (case WriteBytesPerSec m of None \<Rightarrow> out | Some x \<Rightarrow>
                       out\<lparr> WriteBytesPerSec := Some (fdiv A x f),
                            WriteBytesPerSecDelta := divPtr A (WriteBytesPerSecDelta m) f \<rparr>)
                in if ReadOps m \<noteq> None \<or> WriteOps m \<noteq> None \<or> ReadBytesPerSec m \<noteq> None
                      \<or> WriteBytesPerSec m \<noteq> None
                   then Some out else None))"

definition addShare :: "'f Arith \<Rightarrow> 'f IOMetrics \<Rightarrow> 'f IOMetrics \<Rightarrow> 'f IOMetrics" where
  "addShare A acc share = acc\<lparr>
     ReadOps := addPtr A (ReadOps acc) (ReadOps share),
     WriteOps := addPtr A (WriteOps acc) (WriteOps share),
     ReadBytesPerSec := addPtr A (ReadBytesPerSec acc) (ReadBytesPerSec share),
     WriteBytesPerSec := addPtr A (WriteBytesPerSec acc) (WriteBytesPerSec share),
     ReadOpsDelta := addPtr A (ReadOpsDelta acc) (ReadOpsDelta share),
     WriteOpsDelta := addPtr A (WriteOpsDelta acc) (WriteOpsDelta share),
     ReadBytesPerSecDelta := addPtr A (ReadBytesPerSecDelta acc) (ReadBytesPerSecDelta share),
     WriteBytesPerSecDelta := addPtr A (WriteBytesPerSecDelta acc) (WriteBytesPerSecDelta share) \<rparr>"

text \<open>One iteration over the state (accumulated figures, \<open>filled\<close>, \<open>claimIO\<close>).\<close>

fun shareStep ::
  "'f Arith \<Rightarrow> bool \<Rightarrow> 'f flowUnit \<Rightarrow> 'f IOMetrics \<times> bool \<times> 'f IOMetrics option
     \<Rightarrow> 'f IOMetrics \<times> bool \<times> 'f IOMetrics option" where
  "shareStep A claimTier u (acc, filled, claimIO) =
     (case scaleFlow A (unit_io u) (mounters u) of
        None \<Rightarrow>
          if claimTier \<and> hasLatency (unit_io u)
          then (acc, True, if claimIO = None then unit_io u else claimIO)
          else (acc, filled, claimIO)
      | Some share \<Rightarrow> (addShare A acc share, True, if claimIO = None then unit_io u else claimIO))"

definition sumUnitShares :: "'f Arith \<Rightarrow> 'f Edge \<Rightarrow> 'f flowUnit list \<Rightarrow> 'f IOMetrics option" where
  "sumUnitShares A edge units =
     (let claimTier = (tier edge = StorageTierSVMPVC);
          (acc, filled, claimIO) = fold (shareStep A claimTier) units (noIO, False, None)
      in if \<not> filled then None
         else (case claimIO of
                 Some c \<Rightarrow>
                   if claimTier then
                     Some (acc\<lparr> ReadLatencyUs := ReadLatencyUs c, WriteLatencyUs := WriteLatencyUs c,
                       ReadLatencyUsDelta :=
                         (if ReadLatencyUs c \<noteq> None then ReadLatencyUsDelta c else ReadLatencyUsDelta acc),
                       WriteLatencyUsDelta :=
                         (if WriteLatencyUs c \<noteq> None then WriteLatencyUsDelta c else WriteLatencyUsDelta acc),
                       MaxIOPS := MaxIOPS c, MaxBytesPerSec := MaxBytesPerSec c \<rparr>)
                   else Some acc
               | None \<Rightarrow> Some acc))"

definition projectedEdge ::
  "(string \<Rightarrow> string) \<Rightarrow> 'f Edge \<Rightarrow> 'f IOMetrics option \<Rightarrow> 'f Edge" where
  "projectedEdge mkid e io =
     (let ls = gm_del ClaimAggrLabel (ELabels e);
          out = NewEdge mkid (EType e) (Source e) (Target e) ls
      in case io of None \<Rightarrow> out | Some m \<Rightarrow> the (WithIO (Some out) m))"

text \<open>One edge of one unit entered into the table keyed by (source, target): the first edge stays.\<close>

fun pairStep ::
  "'f flowUnit \<times> 'f Edge \<Rightarrow> (string \<times> string, 'f Edge \<times> 'f flowUnit list) gomap
     \<Rightarrow> (string \<times> string, 'f Edge \<times> 'f flowUnit list) gomap" where
  "pairStep (u, e) byPair =
     (case gm_get byPair (Source e, Target e) of
        None \<Rightarrow> gm_put (Source e, Target e) (e, [u]) byPair
      | Some (e0, contrib) \<Rightarrow> gm_put (Source e, Target e) (e0, contrib @ [u]) byPair)"

definition hops :: "'f flowUnit list \<Rightarrow> ('f flowUnit \<times> 'f Edge) list" where
  "hops retained = concat (map (\<lambda>u. map (Pair u) (unit_edges u)) retained)"

definition weightRetained ::
  "(string \<Rightarrow> string) \<Rightarrow> 'f Arith \<Rightarrow> 'f flowUnit list \<Rightarrow> 'f Edge list" where
  "weightRetained mkid A retained =
     map (\<lambda>(k, e, contrib). projectedEdge mkid e (sumUnitShares A e (sort_key unitKey contrib)))
       (fold pairStep (hops retained) [])"

section \<open>The projection\<close>

definition admitRoot ::
  "'f Graph \<Rightarrow> bool \<Rightarrow> StorageScope \<Rightarrow> (string \<Rightarrow> string) \<Rightarrow> string \<Rightarrow> (string, 'f GraphNode) gomap
     \<Rightarrow> (string, 'f GraphNode) gomap" where
  "admitRoot g workload scope rawName i nodes =
     (if gm_has nodes i then nodes
      else (case gm_get (NodesByID g) i of
              None \<Rightarrow> nodes
            | Some n \<Rightarrow>
                if workload \<and> \<not> workloadPassesFilters n scope rawName then nodes
                else gm_put i n nodes))"

definition retainUnit :: "'f Graph \<Rightarrow> StorageScope \<Rightarrow> RootIDs \<Rightarrow> 'f flowUnit \<Rightarrow> bool" where
  "retainUnit g scope rid u =
     ((sink u \<longrightarrow> claimID u \<in> set (rid_claimRoots rid))
      \<and> (intersects u (rid_storage rid) \<or> intersects u (rid_workload rid)
           \<or> intersects u (rid_claimHits rid))
      \<and> passesFilters u g scope (ClusterRawName (Some g)))"

definition unitNodes ::
  "'f Graph \<Rightarrow> 'f flowUnit list \<Rightarrow> (string, 'f GraphNode) gomap" where
  "unitNodes g retained =
     fold (\<lambda>i m. case gm_get (NodesByID g) i of None \<Rightarrow> m | Some n \<Rightarrow> gm_put i n m)
       (concat (map ids retained)) []"

definition ProjectStorage ::
  "(string \<Rightarrow> string) \<Rightarrow> 'f Arith \<Rightarrow> 'f Graph option \<Rightarrow> StorageScope \<Rightarrow> 'f View" where
  "ProjectStorage mkid A g scope =
     (case g of
        None \<Rightarrow> \<lparr> view_Nodes = [], view_Edges = [] \<rparr>
      | Some gr \<Rightarrow>
          let units = extractFlowUnits gr;
              rid = resolveStorageRoots gr scope;
              rawName = ClusterRawName (Some gr);
              retained = filter (retainUnit gr scope rid) units;
              nodes = unitNodes gr retained;
              nodes = fold (admitRoot gr False scope rawName) (rid_storage rid) nodes;
              nodes = fold (admitRoot gr True scope rawName) (rid_workload rid) nodes;
              nodes = pullNetAppParents gr nodes;
              edges = weightRetained mkid A retained
          in \<lparr> view_Nodes = SortNodes (map snd nodes), view_Edges = SortEdges edges \<rparr>)"

section \<open>The order of the units\<close>

lemma cmpUnit_key:
  "cmpUnit a b < 0 \<longleftrightarrow> unitKey a < unitKey b" "cmpUnit a b = 0 \<longleftrightarrow> unitKey a = unitKey b"
  by (auto simp: cmpUnit_def unitKey_def less_prod_def)

section \<open>The shape of a unit\<close>

definition upAggr :: "'f flowIndex \<Rightarrow> 'f flowUnit \<Rightarrow> 'f Edge list" where
  "upAggr ix u =
     (if aggrID u = [] then []
      else (case gm_get (ix_aggrSVMOf ix) (aggrID u, svmID u) of None \<Rightarrow> [] | Some e \<Rightarrow> [e]))"

definition upCtrl :: "'f flowIndex \<Rightarrow> 'f flowUnit \<Rightarrow> 'f Edge list" where
  "upCtrl ix u =
     (if ctrlID u = [] then []
      else (case gm_get (ix_nodeAggrOf ix) (aggrID u) of None \<Rightarrow> [] | Some e \<Rightarrow> [e]))"

definition nodeHop :: "'f Graph \<Rightarrow> 'f flowIndex \<Rightarrow> string \<Rightarrow> 'f Edge list" where
  "nodeHop g ix pod =
     (case gm_get (ix_nodeOf ix) pod of
        None \<Rightarrow> []
      | Some ne \<Rightarrow> if gm_has (NodesByID g) (Target ne) then [ne] else [])"

lemma addUpstream_eq:
  "addUpstream ix u = u\<lparr>
     ids := ids u @ filter (\<lambda>i. i \<noteq> []) [aggrID u, ctrlID u],
     unit_edges := unit_edges u @ upAggr ix u @ upCtrl ix u \<rparr>"
  by (simp add: addUpstream_def upAggr_def upCtrl_def Let_def)

lemma addNode_eq:
  "addNode g ix u = u\<lparr>
     nodeID := (case nodeHop g ix (podID u) of [] \<Rightarrow> nodeID u | ne # _ \<Rightarrow> Target ne),
     unit_edges := unit_edges u @ nodeHop g ix (podID u),
     ids := ids u @ map Target (nodeHop g ix (podID u)) \<rparr>"
  by (simp add: addNode_def nodeHop_def split: option.split)

text \<open>The pods that mount a claim, and the tables as searches of the tier's edges.\<close>

definition mountEdges :: "'f Graph \<Rightarrow> string \<Rightarrow> 'f Edge list" where
  "mountEdges g pvc = filter (\<lambda>e. Source e = pvc) (tierEdges g StorageTierPVCPod)"

lemma ix_lookups:
  "gm_list (ix_mountersOf (flowIndexOf g)) pvc = mountEdges g pvc"
  "gm_get (ix_nodeAggrOf (flowIndexOf g)) a
     = find (\<lambda>e. Target e = a) (rev (tierEdges g StorageTierNodeAggr))"
  "gm_str (ix_ownerOf (flowIndexOf g)) a
     = (case find (\<lambda>e. Target e = a) (rev (tierEdges g StorageTierNodeAggr)) of
          None \<Rightarrow> [] | Some e \<Rightarrow> Source e)"
  "gm_get (ix_aggrSVMOf (flowIndexOf g)) (a, v)
     = find (\<lambda>e. (Source e, Target e) = (a, v)) (rev (tierEdges g StorageTierAggrSVM))"
  "gm_list (ix_incomingAggr (flowIndexOf g)) v
     = filter (\<lambda>e. Target e = v) (tierEdges g StorageTierAggrSVM)"
  "gm_get (ix_nodeOf (flowIndexOf g)) p
     = find (\<lambda>e. Source e = p) (rev (tierEdges g StorageTierPodNode))"
  by (simp_all add: flowIndexOf_def Let_def gm_list_fold_append0 gm_get_fold_put gm_str_get mountEdges_def
      option.map_ident split: option.splits)

definition claimAggr :: "'f Graph \<Rightarrow> 'f Edge \<Rightarrow> string" where
  "claimAggr g claim = claimAggrOf claim
     (filter (\<lambda>e. Target e = Source claim) (tierEdges g StorageTierAggrSVM)) (ix_stamped (flowIndexOf g))"

text \<open>The unit of one claim and, unless the claim is unmounted, one mounting edge.\<close>

definition unitOf :: "'f Graph \<Rightarrow> 'f Edge \<Rightarrow> 'f Edge option \<Rightarrow> 'f flowUnit" where
  "unitOf g claim pe =
     (let ix = flowIndexOf g; aggr = claimAggr g claim; ctrl = gm_str (ix_ownerOf ix) aggr in
      case pe of
        None \<Rightarrow> addUpstream ix
              \<lparr> claimID = Target claim, podID = [], nodeID = [], svmID = Source claim, aggrID = aggr,
                ctrlID = ctrl, mounters = 1, sink = True, unit_io = EIO claim, unit_edges = [claim],
                ids = [Source claim, Target claim] \<rparr>
      | Some pe \<Rightarrow> addNode g ix (addUpstream ix
              \<lparr> claimID = Target claim, podID = Target pe, nodeID = [], svmID = Source claim,
                aggrID = aggr, ctrlID = ctrl, mounters = int (length (mountEdges g (Target claim))),
                sink = False, unit_io = EIO claim, unit_edges = [claim, pe],
                ids = [Source claim, Target claim, Target pe] \<rparr>))"

definition claimMounts :: "'f Graph \<Rightarrow> 'f Edge \<Rightarrow> 'f Edge option list" where
  "claimMounts g claim =
     (if mountEdges g (Target claim) = [] then [None] else map Some (mountEdges g (Target claim)))"

lemma claimUnits_eq: "claimUnits g (flowIndexOf g) claim = map (unitOf g claim) (claimMounts g claim)"
  by (simp add: claimUnits_def unitOf_def claimMounts_def claimAggr_def ix_lookups(1,5) Let_def)

lemma units_iff:
  "u \<in> set (extractFlowUnits g) \<longleftrightarrow>
     (\<exists>claim\<in>set (tierEdges g StorageTierSVMPVC). \<exists>pe\<in>set (claimMounts g claim). u = unitOf g claim pe)"
  by (auto simp: extractFlowUnits_def claimUnits_eq)

lemma unitOf_sel [simp]:
  "claimID (unitOf g claim pe) = Target claim"
  "svmID (unitOf g claim pe) = Source claim"
  "aggrID (unitOf g claim pe) = claimAggr g claim"
  "ctrlID (unitOf g claim pe) = gm_str (ix_ownerOf (flowIndexOf g)) (claimAggr g claim)"
  "sink (unitOf g claim pe) = (pe = None)"
  "unit_io (unitOf g claim pe) = EIO claim"
  "podID (unitOf g claim pe) = (case pe of None \<Rightarrow> [] | Some e \<Rightarrow> Target e)"
  "mounters (unitOf g claim pe)
     = (case pe of None \<Rightarrow> 1 | Some e \<Rightarrow> int (length (mountEdges g (Target claim))))"
  by (simp_all add: unitOf_def addUpstream_eq addNode_eq Let_def split: option.splits)

definition podHop :: "'f Graph \<Rightarrow> 'f Edge option \<Rightarrow> 'f Edge list" where
  "podHop g pe = (case pe of None \<Rightarrow> [] | Some e \<Rightarrow> nodeHop g (flowIndexOf g) (Target e))"

definition aggrHop :: "'f Graph \<Rightarrow> 'f Edge \<Rightarrow> 'f Edge list" where
  "aggrHop g claim =
     (if claimAggr g claim = [] then []
      else (case gm_get (ix_aggrSVMOf (flowIndexOf g)) (claimAggr g claim, Source claim) of
              None \<Rightarrow> [] | Some e \<Rightarrow> [e]))"

definition ctrlHop :: "'f Graph \<Rightarrow> 'f Edge \<Rightarrow> 'f Edge list" where
  "ctrlHop g claim =
     (if gm_str (ix_ownerOf (flowIndexOf g)) (claimAggr g claim) = [] then []
      else (case gm_get (ix_nodeAggrOf (flowIndexOf g)) (claimAggr g claim) of
              None \<Rightarrow> [] | Some e \<Rightarrow> [e]))"

lemma unitOf_edges:
  "unit_edges (unitOf g claim pe)
     = claim # (case pe of None \<Rightarrow> [] | Some e \<Rightarrow> [e]) @ aggrHop g claim @ ctrlHop g claim @ podHop g pe"
  by (simp add: unitOf_def addUpstream_eq addNode_eq upAggr_def upCtrl_def aggrHop_def ctrlHop_def
      podHop_def Let_def split: option.split)

lemma unitOf_nodeID:
  "nodeID (unitOf g claim pe) = (case podHop g pe of [] \<Rightarrow> [] | e # _ \<Rightarrow> Target e)"
  by (simp add: unitOf_def addUpstream_eq addNode_eq podHop_def Let_def split: option.split list.split)

lemma unitOf_ids:
  "ids (unitOf g claim pe)
     = [Source claim, Target claim] @ (case pe of None \<Rightarrow> [] | Some e \<Rightarrow> [Target e])
       @ filter (\<lambda>i. i \<noteq> []) [claimAggr g claim, gm_str (ix_ownerOf (flowIndexOf g)) (claimAggr g claim)]
       @ map Target (podHop g pe)"
  by (simp add: unitOf_def addUpstream_eq addNode_eq podHop_def Let_def split: option.split)

lemma aggrHop_in:
  assumes "e \<in> set (aggrHop g claim)"
  shows "e \<in> set (tierEdges g StorageTierAggrSVM)" and "Source e = claimAggr g claim"
    and "Target e = Source claim" and "claimAggr g claim \<noteq> []"
  using assms by (auto simp: aggrHop_def ix_lookups dest: find_rev_SomeD find_rev_SomeD [OF sym] split: if_splits option.splits)

lemma ctrlHop_in:
  assumes "e \<in> set (ctrlHop g claim)"
  shows "e \<in> set (tierEdges g StorageTierNodeAggr)" and "Target e = claimAggr g claim"
    and "Source e = gm_str (ix_ownerOf (flowIndexOf g)) (claimAggr g claim)" and "Source e \<noteq> []"
  using assms by (auto simp: ctrlHop_def ix_lookups dest: find_rev_SomeD find_rev_SomeD [OF sym] split: if_splits option.splits)

lemma podHop_in:
  assumes "e \<in> set (podHop g pe)"
  shows "e \<in> set (tierEdges g StorageTierPodNode)" and "\<exists>p. pe = Some p \<and> Source e = Target p"
    and "gm_has (NodesByID g) (Target e)"
  using assms
  by (auto simp: podHop_def nodeHop_def ix_lookups dest: find_rev_SomeD find_rev_SomeD [OF sym] split: if_splits option.splits)

lemma claimMounts_in:
  "Some e \<in> set (claimMounts g claim) \<Longrightarrow> e \<in> set (tierEdges g StorageTierPVCPod) \<and> Source e = Target claim"
  "None \<in> set (claimMounts g claim) \<longleftrightarrow> mountEdges g (Target claim) = []"
  by (auto simp: claimMounts_def mountEdges_def split: if_splits)

lemma tierEdges_in:
  "e \<in> set (tierEdges g t) \<longleftrightarrow> e \<in> set (Edges g) \<and> EType e = EdgeTypeStorageFlow \<and> tier e = t"
  by (auto simp: tierEdges_def)

text \<open>Every edge of a unit is a storage-flow edge of the graph, and joins two ids of the unit.\<close>

lemma unit_edge_graph:
  assumes "u \<in> set (extractFlowUnits g)" and "e \<in> set (unit_edges u)"
  shows "e \<in> set (Edges g)" and "EType e = EdgeTypeStorageFlow" and "tier e \<in> set StorageTiers"
proof -
  obtain claim pe where u: "claim \<in> set (tierEdges g StorageTierSVMPVC)"
    "pe \<in> set (claimMounts g claim)" "u = unitOf g claim pe" using assms(1) by (auto simp: units_iff)
  have "\<exists>t\<in>set StorageTiers. e \<in> set (tierEdges g t)"
    using assms(2) u aggrHop_in(1) [of e] ctrlHop_in(1) [of e] podHop_in(1) [of e] claimMounts_in(1) [of e]
    by (auto simp: unitOf_edges StorageTiers_def split: option.splits)
  then show "e \<in> set (Edges g)" "EType e = EdgeTypeStorageFlow" "tier e \<in> set StorageTiers"
    by (auto simp: tierEdges_in)
qed

text \<open>
  The storage side of a flow graph: every edge has two non-empty endpoints, and the controllers,
  aggregates and SVMs they name are loaded NetApp nodes.
\<close>

definition netappNode :: "'f Graph \<Rightarrow> string \<Rightarrow> bool" where
  "netappNode g i =
     (case gm_get (NodesByID g) i of
        None \<Rightarrow> False
      | Some n \<Rightarrow> Type n \<in> {NodeTypeNetAppAggr, NodeTypeNetAppNode, NodeTypeNetAppSVM})"

definition storage_closed :: "'f Graph \<Rightarrow> bool" where
  "storage_closed g =
     list_all (\<lambda>e. EType e = EdgeTypeStorageFlow \<longrightarrow>
         Source e \<noteq> [] \<and> Target e \<noteq> []
         \<and> (tier e \<in> {StorageTierNodeAggr, StorageTierAggrSVM, StorageTierSVMPVC} \<longrightarrow> netappNode g (Source e))
         \<and> (tier e \<in> {StorageTierNodeAggr, StorageTierAggrSVM} \<longrightarrow> netappNode g (Target e))
         \<and> (tier e = StorageTierSVMPVC \<longrightarrow>
              (let a = gm_str (ELabels e) ClaimAggrLabel in a \<noteq> [] \<longrightarrow> netappNode g a)))
       (Edges g)"

lemma storage_closedD:
  assumes "storage_closed g" and "e \<in> set (Edges g)" and "EType e = EdgeTypeStorageFlow"
  shows "Source e \<noteq> []" and "Target e \<noteq> []"
    and "tier e \<in> {StorageTierNodeAggr, StorageTierAggrSVM, StorageTierSVMPVC} \<Longrightarrow> netappNode g (Source e)"
    and "tier e \<in> {StorageTierNodeAggr, StorageTierAggrSVM} \<Longrightarrow> netappNode g (Target e)"
    and "tier e = StorageTierSVMPVC \<Longrightarrow> gm_str (ELabels e) ClaimAggrLabel \<noteq> []
           \<Longrightarrow> netappNode g (gm_str (ELabels e) ClaimAggrLabel)"
  using assms unfolding storage_closed_def list_all_iff Let_def by blast+

lemma unit_edge_ends:
  assumes "storage_closed g" and "u \<in> set (extractFlowUnits g)" and "e \<in> set (unit_edges u)"
  shows "Source e \<in> set (ids u) \<and> Target e \<in> set (ids u)"
proof -
  obtain claim pe where u: "claim \<in> set (tierEdges g StorageTierSVMPVC)"
    "pe \<in> set (claimMounts g claim)" "u = unitOf g claim pe" using assms(2) by (auto simp: units_iff)
  have ne: "Source e \<noteq> []" "Target e \<noteq> []"
    using storage_closedD(1,2) [OF assms(1) unit_edge_graph(1,2) [OF assms(2,3)]] by auto
  have "e = claim \<or> pe = Some e \<or> e \<in> set (aggrHop g claim) \<or> e \<in> set (ctrlHop g claim) \<or> e \<in> set (podHop g pe)"
    using assms(3) u(3) by (auto simp: unitOf_edges split: option.splits)
  then show ?thesis
    using ne u claimMounts_in(1) [of e] aggrHop_in [of e g claim] ctrlHop_in [of e g claim]
      podHop_in [of e g pe]
    by (elim disjE) (auto simp: unitOf_ids)
qed

section \<open>Resolved roots\<close>

text \<open>Which nodes a root names, kind by kind.\<close>

definition storageRoot :: "StorageRoots \<Rightarrow> 'f GraphNode \<Rightarrow> bool" where
  "storageRoot roots n =
     (roots_Kind roots = StorageRootONTAPCluster
        \<and> Type n \<in> {NodeTypeNetAppAggr, NodeTypeNetAppSVM, NodeTypeNetAppNode}
        \<and> label n ''ontap_cluster'' \<in> set (roots_Names roots)
      \<or> roots_Kind roots = StorageRootONTAPNode \<and> Type n = NodeTypeNetAppNode \<and> named roots n
      \<or> roots_Kind roots = StorageRootAggr \<and> Type n = NodeTypeNetAppAggr \<and> rooted roots n
      \<or> roots_Kind roots = StorageRootSVM \<and> Type n = NodeTypeNetAppSVM \<and> rooted roots n)"

definition claimRoot :: "StorageRoots \<Rightarrow> 'f GraphNode \<Rightarrow> bool" where
  "claimRoot roots n =
     (Type n = NodeTypePVC \<and>
      (roots_Kind roots = StorageRootPVC
        \<and> Ref (label n ''namespace'') (Name n) \<in> set (roots_Claims roots)
      \<or> roots_Kind roots = StorageRootPV \<and> label n ''volumename'' \<noteq> []
        \<and> label n ''volumename'' \<in> set (roots_Names roots)))"

definition appRoot :: "StorageRoots \<Rightarrow> 'f GraphNode \<Rightarrow> bool" where
  "appRoot roots n =
     (roots_Kind roots = StorageRootApplication \<and> Application n \<noteq> []
      \<and> Application n \<in> set (roots_Names roots))"

definition workloadRoot :: "StorageRoots \<Rightarrow> 'f GraphNode \<Rightarrow> bool" where
  "workloadRoot roots n =
     (roots_Kind roots = StorageRootNode \<and> Type n = NodeTypeK8sNode \<and> named roots n
      \<or> roots_Kind roots = StorageRootPod \<and> Type n = NodeTypePod
        \<and> Ref (label n ''namespace'') (Name n) \<in> set (roots_Pods roots)
      \<or> claimRoot roots n
      \<or> appRoot roots n \<and> Type n = NodeTypePod)"

lemmas resolve_defs = resolveStep_def storageRoot_def workloadRoot_def claimRoot_def appRoot_def
  addStorage_def addWorkload_def addClaimHit_def addClaimRoot_def

lemma resolveStep_sets:
  "set (rid_storage (resolveStep roots n r)) = (if storageRoot roots n then {ID n} else {}) \<union> set (rid_storage r)"
  "set (rid_workload (resolveStep roots n r)) = (if workloadRoot roots n then {ID n} else {}) \<union> set (rid_workload r)"
  "set (rid_claimHits (resolveStep roots n r))
     = (if appRoot roots n \<and> Type n = NodeTypePVC then {ID n} else {}) \<union> set (rid_claimHits r)"
  "set (rid_claimRoots (resolveStep roots n r)) = (if claimRoot roots n then {ID n} else {}) \<union> set (rid_claimRoots r)"
  by (simp_all add: resolve_defs Let_def)

lemma fold_collect:
  assumes "\<And>n r. set (sel (step n r)) = (if P n then {f n} else {}) \<union> set (sel r)"
  shows "set (sel (fold (\<lambda>(i, n). step n) xs r)) = {f n | n. n \<in> snd ` set xs \<and> P n} \<union> set (sel r)"
  by (induction xs arbitrary: r) (auto simp: assms split: if_splits)

lemma wf_graph_values:
  assumes "wf_graph g"
  shows "n \<in> snd ` set (NodesByID g) \<longleftrightarrow> gm_get (NodesByID g) (ID n) = Some n"
proof
  assume "n \<in> snd ` set (NodesByID g)"
  then obtain i where "(i, n) \<in> set (NodesByID g)" by auto
  then show "gm_get (NodesByID g) (ID n) = Some n"
    using wf_graphD(2) [OF assms] gm_in_get [OF wf_graphD(1) [OF assms]] by blast
qed (force dest: gm_get_in)

definition rootHits :: "'f Graph \<Rightarrow> StorageScope \<Rightarrow> ('f GraphNode \<Rightarrow> bool) \<Rightarrow> string set" where
  "rootHits g scope P =
     {i. StorageRoots_Any (ss_Roots scope) \<and> (\<exists>n. gm_get (NodesByID g) i = Some n \<and> P n)}"

lemma resolveStorageRoots_sets:
  assumes wf: "wf_graph g"
  shows "set (rid_storage (resolveStorageRoots g scope)) = rootHits g scope (storageRoot (ss_Roots scope))"
    and "set (rid_workload (resolveStorageRoots g scope)) = rootHits g scope (workloadRoot (ss_Roots scope))"
    and "set (rid_claimHits (resolveStorageRoots g scope))
           = rootHits g scope (\<lambda>n. appRoot (ss_Roots scope) n \<and> Type n = NodeTypePVC)"
    and "set (rid_claimRoots (resolveStorageRoots g scope)) = rootHits g scope (claimRoot (ss_Roots scope))"
proof -
  have id: "{ID n | n. n \<in> snd ` set (NodesByID g) \<and> P n} = {i. \<exists>n. gm_get (NodesByID g) i = Some n \<and> P n}" for P
    unfolding wf_graph_values [OF wf] using wf_graphD(3) [OF wf] by blast
  note col = fold_collect [where f = "\<lambda>n. ID n" and step = "resolveStep (ss_Roots scope)"
      and xs = "NodesByID g" and r = noRootIDs, unfolded id]
  show "set (rid_storage (resolveStorageRoots g scope)) = rootHits g scope (storageRoot (ss_Roots scope))"
    using col [OF resolveStep_sets(1)] by (auto simp: resolveStorageRoots_def rootHits_def noRootIDs_def Let_def)
  show "set (rid_workload (resolveStorageRoots g scope)) = rootHits g scope (workloadRoot (ss_Roots scope))"
    using col [OF resolveStep_sets(2)] by (auto simp: resolveStorageRoots_def rootHits_def noRootIDs_def Let_def)
  show "set (rid_claimHits (resolveStorageRoots g scope))
           = rootHits g scope (\<lambda>n. appRoot (ss_Roots scope) n \<and> Type n = NodeTypePVC)"
    using col [OF resolveStep_sets(3)] by (auto simp: resolveStorageRoots_def rootHits_def noRootIDs_def Let_def)
  show "set (rid_claimRoots (resolveStorageRoots g scope)) = rootHits g scope (claimRoot (ss_Roots scope))"
    using col [OF resolveStep_sets(4)] by (auto simp: resolveStorageRoots_def rootHits_def noRootIDs_def Let_def)
qed

section \<open>The nodes of the view\<close>

definition retainedUnits :: "'f Graph \<Rightarrow> StorageScope \<Rightarrow> 'f flowUnit list" where
  "retainedUnits g scope = filter (retainUnit g scope (resolveStorageRoots g scope)) (extractFlowUnits g)"

text \<open>A node on a retained path, or a root the filters admit.\<close>

definition flowSpec :: "'f Graph \<Rightarrow> StorageScope \<Rightarrow> string \<Rightarrow> 'f GraphNode \<Rightarrow> bool" where
  "flowSpec g scope i n =
     (gm_get (NodesByID g) i = Some n \<and>
      ((\<exists>u\<in>set (retainedUnits g scope). i \<in> set (ids u))
       \<or> StorageRoots_Any (ss_Roots scope) \<and> storageRoot (ss_Roots scope) n
       \<or> StorageRoots_Any (ss_Roots scope) \<and> workloadRoot (ss_Roots scope) n
          \<and> workloadPassesFilters n scope (ClusterRawName (Some g))))"

definition storageViewSpec :: "'f Graph \<Rightarrow> StorageScope \<Rightarrow> string \<Rightarrow> 'f GraphNode \<Rightarrow> bool" where
  "storageViewSpec g scope i n =
     (flowSpec g scope i n \<or>
      gm_get (NodesByID g) i = Some n \<and>
        (\<exists>j a. flowSpec g scope j a \<and> Type a = NodeTypeNetAppAggr \<and> ownerID a = Some i))"

lemma unitNodes_fold:
  assumes "subnodes g m"
  shows "subnodes g (fold (\<lambda>i m. case gm_get (NodesByID g) i of None \<Rightarrow> m | Some n \<Rightarrow> gm_put i n m) is m)
    \<and> (\<forall>j n. gm_get (fold (\<lambda>i m. case gm_get (NodesByID g) i of None \<Rightarrow> m | Some n \<Rightarrow> gm_put i n m) is m) j = Some n
        \<longleftrightarrow> gm_get m j = Some n \<or> j \<in> set is \<and> gm_get (NodesByID g) j = Some n)"
  using assms
proof (induction "is" arbitrary: m)
  case (Cons i "is")
  let ?m = "case gm_get (NodesByID g) i of None \<Rightarrow> m | Some n \<Rightarrow> gm_put i n m"
  have "subnodes g ?m" using Cons.prems by (simp add: subnodes_put split: option.split)
  moreover have "gm_get ?m j = Some n \<longleftrightarrow> gm_get m j = Some n \<or> j = i \<and> gm_get (NodesByID g) j = Some n" for j n
    using subnodesD(2) [OF Cons.prems, of j] by (auto split: option.splits)
  ultimately show ?case using Cons.IH [of ?m] by auto
qed simp

lemma admitRoot_fold:
  assumes "subnodes g m"
  shows "subnodes g (fold (admitRoot g w scope raw) is m)
    \<and> (\<forall>j n. gm_get (fold (admitRoot g w scope raw) is m) j = Some n
        \<longleftrightarrow> gm_get m j = Some n \<or> j \<in> set is \<and> gm_get (NodesByID g) j = Some n
              \<and> (w \<longrightarrow> workloadPassesFilters n scope raw))"
  using assms
proof (induction "is" arbitrary: m)
  case (Cons i "is")
  let ?m = "admitRoot g w scope raw i m"
  have "subnodes g ?m" using Cons.prems by (simp add: admitRoot_def subnodes_put split: option.split)
  moreover have "gm_get ?m j = Some n \<longleftrightarrow> gm_get m j = Some n \<or> j = i \<and> gm_get (NodesByID g) j = Some n
      \<and> (w \<longrightarrow> workloadPassesFilters n scope raw)" for j n
    using subnodesD(2) [OF Cons.prems, of j] by (auto simp: admitRoot_def gm_has_get split: option.splits if_splits)
  ultimately show ?case using Cons.IH [of ?m] by auto
qed simp

lemma subnodes_Nil: "subnodes g []"
  by (simp add: subnodes_def)

text \<open>The sorted node slice of a view, read back from the node map it was made of.\<close>

lemma subnodes_view:
  assumes "wf_graph g" and "subnodes g m"
  shows "n \<in> set (SortNodes (map snd m)) \<longleftrightarrow> gm_get m (ID n) = Some n"
    and "sorted (map (\<lambda>n. ID n) (SortNodes (map snd m)))"
    and "distinct (map (\<lambda>n. ID n) (SortNodes (map snd m)))"
proof -
  have "n \<in> set (SortNodes (map snd m)) \<longleftrightarrow> (\<exists>i. gm_get m i = Some n)"
    unfolding gm_in_get_iff [OF subnodesD(1) [OF assms(2)], symmetric] by force
  then show "n \<in> set (SortNodes (map snd m)) \<longleftrightarrow> gm_get m (ID n) = Some n"
    using wf_graphD(3) [OF assms(1)] subnodesD(2) [OF assms(2)] by metis
  show "sorted (map (\<lambda>n. ID n) (SortNodes (map snd m)))" by (rule node_sort.srt_sorted)
  show "distinct (map (\<lambda>n. ID n) (SortNodes (map snd m)))"
    using subnodes_ids(2) [OF assms] by (simp only: node_sort.srt_distinct)
qed

lemma ProjectStorage_refines:
  assumes wf: "wf_graph g"
  obtains nodes where
    "ProjectStorage mkid A (Some g) scope = \<lparr> view_Nodes = SortNodes (map snd nodes),
       view_Edges = SortEdges (weightRetained mkid A (retainedUnits g scope)) \<rparr>"
    and "subnodes g nodes" and "\<And>i n. gm_get nodes i = Some n \<longleftrightarrow> storageViewSpec g scope i n"
proof -
  let ?rid = "resolveStorageRoots g scope" and ?raw = "ClusterRawName (Some g)"
  let ?m1 = "unitNodes g (retainedUnits g scope)"
  let ?m2 = "fold (admitRoot g False scope ?raw) (rid_storage ?rid) ?m1"
  let ?m3 = "fold (admitRoot g True scope ?raw) (rid_workload ?rid) ?m2"
  note n1 = unitNodes_fold [OF subnodes_Nil, of g "concat (map ids (retainedUnits g scope))",
      folded unitNodes_def]
  note n2 = admitRoot_fold [OF conjunct1 [OF n1], of False scope ?raw "rid_storage ?rid"]
  note n3 = admitRoot_fold [OF conjunct1 [OF n2], of True scope ?raw "rid_workload ?rid"]
  note n4 = pullNetAppParents_spec [OF conjunct1 [OF n3]]
  have base: "gm_get ?m3 i = Some n \<longleftrightarrow> flowSpec g scope i n" for i n
    using n1 n2 n3 resolveStorageRoots_sets(1,2) [OF wf, of scope]
    by (auto simp: flowSpec_def rootHits_def)
  have mem: "(j, a) \<in> set ?m3 \<longleftrightarrow> flowSpec g scope j a" for j a
    unfolding base [symmetric] by (rule gm_in_get_iff [OF subnodesD(1) [OF conjunct1 [OF n3]]])
  have "gm_get (pullNetAppParents g ?m3) i = Some n \<longleftrightarrow> storageViewSpec g scope i n" for i n
    using n4 unfolding mem base storageViewSpec_def by blast
  moreover have "ProjectStorage mkid A (Some g) scope = \<lparr> view_Nodes = SortNodes (map snd (pullNetAppParents g ?m3)),
       view_Edges = SortEdges (weightRetained mkid A (retainedUnits g scope)) \<rparr>"
    by (simp add: ProjectStorage_def retainedUnits_def Let_def)
  ultimately show ?thesis using that n4 by blast
qed

lemma ProjectStorage_nodes:
  assumes wf: "wf_graph g"
  shows "n \<in> set (view_Nodes (ProjectStorage mkid A (Some g) scope)) \<longleftrightarrow> storageViewSpec g scope (ID n) n"
    and "sorted (map (\<lambda>n. ID n) (view_Nodes (ProjectStorage mkid A (Some g) scope)))"
    and "distinct (map (\<lambda>n. ID n) (view_Nodes (ProjectStorage mkid A (Some g) scope)))"
    and "view_Edges (ProjectStorage mkid A (Some g) scope)
           = SortEdges (weightRetained mkid A (retainedUnits g scope))"
proof -
  obtain nodes where n: "ProjectStorage mkid A (Some g) scope = \<lparr> view_Nodes = SortNodes (map snd nodes),
       view_Edges = SortEdges (weightRetained mkid A (retainedUnits g scope)) \<rparr>"
    "subnodes g nodes" "\<And>i n. gm_get nodes i = Some n \<longleftrightarrow> storageViewSpec g scope i n"
    using ProjectStorage_refines [OF wf, of mkid A scope] by blast
  show "n \<in> set (view_Nodes (ProjectStorage mkid A (Some g) scope)) \<longleftrightarrow> storageViewSpec g scope (ID n) n"
    using subnodes_view(1) [OF wf n(2)] n(3) by (simp only: n(1) View.select_convs)
  show "sorted (map (\<lambda>n. ID n) (view_Nodes (ProjectStorage mkid A (Some g) scope)))"
    "distinct (map (\<lambda>n. ID n) (view_Nodes (ProjectStorage mkid A (Some g) scope)))"
    using subnodes_view(2,3) [OF wf n(2)] by (simp_all only: n(1) View.select_convs)
  show "view_Edges (ProjectStorage mkid A (Some g) scope)
           = SortEdges (weightRetained mkid A (retainedUnits g scope))"
    by (simp add: n(1))
qed

section \<open>The edges of the view\<close>

definition ends :: "'f Edge \<Rightarrow> string \<times> string" where
  "ends e = (Source e, Target e)"

definition through :: "'f flowUnit list \<Rightarrow> string \<times> string \<Rightarrow> ('f flowUnit \<times> 'f Edge) list" where
  "through us k = filter (\<lambda>h. ends (snd h) = k) (hops us)"

lemma pair_table:
  "gm_wf (fold pairStep hs [])
   \<and> gm_get (fold pairStep hs []) k =
       (case filter (\<lambda>h. ends (snd h) = k) hs of [] \<Rightarrow> None | h # r \<Rightarrow> Some (snd h, map fst (h # r)))"
proof (induction hs arbitrary: k rule: rev_induct)
  case (snoc h hs)
  obtain u e where h: "h = (u, e)" by fastforce
  let ?m = "fold pairStep hs []" and ?F = "filter (\<lambda>h. ends (snd h) = ends e) hs"
  have wf: "gm_wf ?m" using snoc by simp
  have get: "gm_get ?m (Source e, Target e) = (case ?F of [] \<Rightarrow> None | h # r \<Rightarrow> Some (snd h, map fst (h # r)))"
    using snoc [of "ends e"] by (simp add: ends_def)
  have step: "fold pairStep (hs @ [h]) [] = pairStep (u, e) ?m" by (simp add: h)
  show ?case
  proof (cases ?F)
    case Nil
    with get have "pairStep (u, e) ?m = gm_put (ends e) (e, [u]) ?m" by (simp add: ends_def)
    then show ?thesis unfolding step using wf snoc [of k] Nil by (auto simp: h)
  next
    case (Cons a r)
    with get have "pairStep (u, e) ?m = gm_put (ends e) (snd a, map fst (a # r) @ [u]) ?m"
      by (simp add: ends_def)
    then show ?thesis unfolding step using wf snoc [of k] Cons by (auto simp: h)
  qed
qed simp

lemma hops_in: "(u, e) \<in> set (hops us) \<longleftrightarrow> u \<in> set us \<and> e \<in> set (unit_edges u)"
  by (auto simp: hops_def)

text \<open>
  An edge of the weighted list: the first edge met with its endpoints, weighted over all the units
  that pass between them.
\<close>

lemma weightRetained_in:
  "x \<in> set (weightRetained mkid A us) \<longleftrightarrow>
     (\<exists>k h r. through us k = h # r \<and>
        x = projectedEdge mkid (snd h) (sumUnitShares A (snd h) (sort_key unitKey (map fst (h # r)))))"
proof -
  let ?m = "fold pairStep (hops us) []"
  have "x \<in> set (weightRetained mkid A us) \<longleftrightarrow> (\<exists>k e c. gm_get ?m k = Some (e, c) \<and>
      x = projectedEdge mkid e (sumUnitShares A e (sort_key unitKey c)))"
    unfolding weightRetained_def gm_in_get_iff [OF conjunct1 [OF pair_table], symmetric] by force
  also have "\<dots> \<longleftrightarrow> (\<exists>k h r. through us k = h # r \<and>
        x = projectedEdge mkid (snd h) (sumUnitShares A (snd h) (sort_key unitKey (map fst (h # r)))))"
    unfolding conjunct2 [OF pair_table] through_def [symmetric]
    by (rule ex_cong1) (auto split: list.splits)
  finally show ?thesis .
qed

lemma projectedEdge_sel [simp]:
  "Source (projectedEdge mkid e io) = Source e" "Target (projectedEdge mkid e io) = Target e"
  "EType (projectedEdge mkid e io) = EType e" "EIO (projectedEdge mkid e io) = io"
  "ELabels (projectedEdge mkid e io) = gm_del ClaimAggrLabel (ELabels e)"
  "EdgeID (projectedEdge mkid e io) = mkid (EdgeTypeStr (EType e) @ ''|'' @ Source e @ ''|'' @ Target e)"
  by (simp_all add: projectedEdge_def NewEdge_def WithIO_def Let_def split: option.splits)

lemma tier_del [simp]: "gm_str (gm_del ClaimAggrLabel ls) ''tier'' = gm_str ls ''tier''"
  by (simp add: gm_str_get)

lemma tier_projected: "tier (projectedEdge mkid e io) = tier e"
  by simp

lemma through_in: "h \<in> set (through us k) \<longleftrightarrow> fst h \<in> set us \<and> snd h \<in> set (unit_edges (fst h)) \<and> ends (snd h) = k"
  by (cases h) (auto simp: through_def hops_in)

text \<open>The endpoints of the view's edges are exactly the hops of the retained units.\<close>

lemma weightRetained_ends:
  "ends ` set (weightRetained mkid A us) = {ends e | u e. u \<in> set us \<and> e \<in> set (unit_edges u)}"
proof (intro set_eqI iffI)
  fix k assume "k \<in> ends ` set (weightRetained mkid A us)"
  then obtain h r k' where "through us k' = h # r" "k = ends (snd h)"
    by (auto simp: weightRetained_in ends_def)
  then show "k \<in> {ends e | u e. u \<in> set us \<and> e \<in> set (unit_edges u)}"
    using through_in [of h us k'] by auto
next
  fix k assume "k \<in> {ends e | u e. u \<in> set us \<and> e \<in> set (unit_edges u)}"
  then obtain u e where "(u, e) \<in> set (through us k)" by (auto simp: through_in)
  then obtain h r where h: "through us k = h # r" by (cases "through us k") auto
  then have k: "ends (snd h) = k" using through_in [of h us k] by simp
  show "k \<in> ends ` set (weightRetained mkid A us)"
  proof (rule image_eqI [rotated])
    show "projectedEdge mkid (snd h) (sumUnitShares A (snd h) (sort_key unitKey (map fst (h # r))))
        \<in> set (weightRetained mkid A us)" unfolding weightRetained_in using h by blast
  qed (use k in \<open>simp add: ends_def\<close>)
qed

section \<open>A flow graph joins two nodes at most once\<close>

text \<open>
  The assembler emits each (source, target) pair once; then the edge a weight is attached to is the
  graph's own edge between the two nodes.
\<close>

definition flow_pairs :: "'f Graph \<Rightarrow> bool" where
  "flow_pairs g = distinct (map ends (filter (\<lambda>e. EType e = EdgeTypeStorageFlow) (Edges g)))"

lemma flow_pairs_unique:
  assumes "flow_pairs g" and "e \<in> set (Edges g)" and "e' \<in> set (Edges g)"
    and "EType e = EdgeTypeStorageFlow" and "EType e' = EdgeTypeStorageFlow" and "ends e = ends e'"
  shows "e = e'"
  using assms unfolding flow_pairs_def by (auto simp: distinct_map inj_on_def)

lemma retained_in: "u \<in> set (retainedUnits g scope) \<Longrightarrow> u \<in> set (extractFlowUnits g)"
  by (simp add: retainedUnits_def)

lemma StorageView_edge:
  assumes "flow_pairs g" and "x \<in> set (weightRetained mkid A (retainedUnits g scope))"
  obtains e u where "e \<in> set (Edges g)" "EType e = EdgeTypeStorageFlow" "tier e \<in> set StorageTiers"
    "u \<in> set (retainedUnits g scope)" "e \<in> set (unit_edges u)"
    "\<And>h. h \<in> set (through (retainedUnits g scope) (ends e)) \<Longrightarrow> snd h = e"
    "x = projectedEdge mkid e (sumUnitShares A e
           (sort_key unitKey (map fst (through (retainedUnits g scope) (ends e)))))"
proof -
  obtain k h r where h: "through (retainedUnits g scope) k = h # r"
    "x = projectedEdge mkid (snd h) (sumUnitShares A (snd h) (sort_key unitKey (map fst (h # r))))"
    using assms(2) weightRetained_in by blast
  have in_h: "fst h' \<in> set (retainedUnits g scope)" "snd h' \<in> set (unit_edges (fst h'))" "ends (snd h') = k"
    if "h' \<in> set (through (retainedUnits g scope) k)" for h' using that by (simp_all add: through_in)
  note gr = unit_edge_graph [OF retained_in]
  have hh: "h \<in> set (through (retainedUnits g scope) k)" using h(1) by simp
  have same: "snd h' = snd h" if "h' \<in> set (through (retainedUnits g scope) k)" for h'
    using flow_pairs_unique [OF assms(1) gr(1) [OF in_h(1,2) [OF that]] gr(1) [OF in_h(1,2) [OF hh]]
        gr(2) [OF in_h(1,2) [OF that]] gr(2) [OF in_h(1,2) [OF hh]]]
      in_h(3) [OF that] in_h(3) [OF hh] by simp
  note hk = in_h [OF hh]
  show ?thesis
  proof (rule that [of "snd h" "fst h"])
    show "x = projectedEdge mkid (snd h) (sumUnitShares A (snd h)
        (sort_key unitKey (map fst (through (retainedUnits g scope) (ends (snd h))))))"
      unfolding hk(3) h(1) by (rule h(2))
  qed (use gr [OF hk(1,2)] hk same in auto)
qed

section \<open>The storage view is a projection\<close>

definition storage_ok :: "'f Graph \<Rightarrow> bool" where
  "storage_ok g = (wf_graph g \<and> storage_closed g)"

lemma retained_workload:
  assumes "u \<in> set (retainedUnits g scope)" and "i \<in> {claimID u, podID u, nodeID u}" and "i \<noteq> []"
  shows "\<exists>n. gm_get (NodesByID g) i = Some n \<and> workloadPassesFilters n scope (ClusterRawName (Some g))"
  using assms by (auto simp: retainedUnits_def retainUnit_def passesFilters_def split: option.splits)

text \<open>Every id of a retained unit is loaded: the workload ids by the filter, the storage ids by the graph.\<close>

lemma unit_storage_ids:
  assumes "storage_closed g" and "u \<in> set (extractFlowUnits g)" and "i \<in> set (ids u)"
  shows "i \<in> {claimID u, podID u, nodeID u} \<and> i \<noteq> [] \<or> netappNode g i"
proof -
  obtain claim pe where u: "claim \<in> set (tierEdges g StorageTierSVMPVC)"
    "pe \<in> set (claimMounts g claim)" "u = unitOf g claim pe" using assms(2) by (auto simp: units_iff)
  note sc = storage_closedD [OF assms(1)]
  have claim: "claim \<in> set (Edges g)" "EType claim = EdgeTypeStorageFlow" "tier claim = StorageTierSVMPVC"
    using u(1) by (auto simp: tierEdges_in)
  have aggr: "claimAggr g claim \<noteq> [] \<Longrightarrow> netappNode g (claimAggr g claim)"
  proof -
    assume ne: "claimAggr g claim \<noteq> []"
    show "netappNode g (claimAggr g claim)"
    proof (cases "gm_str (ELabels claim) ClaimAggrLabel = []")
      case True
      then obtain e where "e \<in> set (tierEdges g StorageTierAggrSVM)" "Source e = claimAggr g claim"
        using ne by (auto simp: claimAggr_def claimAggrOf_def length_Suc_conv Let_def split: if_splits)
          (metis (no_types, lifting) filter_eq_ConsD in_set_conv_decomp)
      then show ?thesis using sc(3) [of e] by (auto simp: tierEdges_in)
    next
      case False
      then show ?thesis using sc(5) [of claim] claim
        by (simp add: claimAggr_def claimAggrOf_def Let_def)
    qed
  qed
  have ctrl: "netappNode g (gm_str (ix_ownerOf (flowIndexOf g)) a)"
    if "gm_str (ix_ownerOf (flowIndexOf g)) a \<noteq> []" for a
    using that sc(3) by (auto simp: ix_lookups tierEdges_in dest!: find_rev_SomeD split: option.splits)
  have node: "Target e = nodeID u \<and> Target e \<noteq> []" if "e \<in> set (podHop g pe)" for e
    using that u(3) podHop_in(1) [OF that] sc(2) [of e]
    by (auto simp: unitOf_nodeID podHop_def nodeHop_def tierEdges_in split: option.splits if_splits)
  have pod: "Target e \<noteq> []" if "pe = Some e" for e
    using claimMounts_in(1) [of e g claim] u(2) that sc(2) [of e] by (auto simp: tierEdges_in)
  have "i = Source claim \<or> i = Target claim \<or> (\<exists>e. pe = Some e \<and> i = Target e) \<or> i = claimAggr g claim \<and> i \<noteq> []
      \<or> i = gm_str (ix_ownerOf (flowIndexOf g)) (claimAggr g claim) \<and> i \<noteq> [] \<or> (\<exists>e\<in>set (podHop g pe). i = Target e)"
    using assms(3) u(3) by (auto simp: unitOf_ids split: option.splits if_splits)
  then show ?thesis
    using u(3) sc(2,3) [of claim] claim aggr ctrl pod by (elim disjE) (auto dest: node)
qed

lemma netappNode_get: "netappNode g i \<Longrightarrow> \<exists>n. gm_get (NodesByID g) i = Some n
    \<and> Type n \<in> {NodeTypeNetAppAggr, NodeTypeNetAppNode, NodeTypeNetAppSVM}"
  by (simp add: netappNode_def split: option.splits)

lemma retained_loaded:
  assumes "storage_ok g" and "u \<in> set (retainedUnits g scope)" and "i \<in> set (ids u)"
  obtains n where "gm_get (NodesByID g) i = Some n" "flowSpec g scope i n"
proof -
  have "\<exists>n. gm_get (NodesByID g) i = Some n"
    using unit_storage_ids [OF _ retained_in [OF assms(2)] assms(3)] assms
      retained_workload [OF assms(2), of i] netappNode_get [of g i] by (auto simp: storage_ok_def)
  then show ?thesis using that assms(2,3) by (auto simp: flowSpec_def)
qed

interpretation storage_view: projection "\<lambda>g. ProjectStorage mkid A (Some g)" storage_ok for mkid A
proof
  fix g :: "'a Graph" and s :: StorageScope
  assume ok: "storage_ok g"
  then show wf: "wf_graph g" by (simp add: storage_ok_def)
  let ?v = "ProjectStorage mkid A (Some g) s"
  show "gm_get (NodesByID g) (ID n) = Some n" if "n \<in> set (view_Nodes ?v)" for n
    using that by (auto simp: ProjectStorage_nodes(1) [OF wf] storageViewSpec_def flowSpec_def)
  show "Source e \<in> (\<lambda>n. ID n) ` set (view_Nodes ?v) \<and> Target e \<in> (\<lambda>n. ID n) ` set (view_Nodes ?v)"
    if "e \<in> set (view_Edges ?v)" for e
  proof -
    have "ends e \<in> ends ` set (weightRetained mkid A (retainedUnits g s))"
      using that by (simp add: ProjectStorage_nodes(4) [OF wf])
    then obtain u e' where u: "u \<in> set (retainedUnits g s)" "e' \<in> set (unit_edges u)" "ends e = ends e'"
      unfolding weightRetained_ends by auto
    have "i \<in> (\<lambda>n. ID n) ` set (view_Nodes ?v)" if i: "i \<in> set (ids u)" for i
    proof -
      obtain n where n: "gm_get (NodesByID g) i = Some n" "flowSpec g s i n"
        by (rule retained_loaded [OF ok u(1) i])
      then have "ID n = i" using wf_graphD(3) [OF wf] by blast
      then show ?thesis using n(2)
        by (intro image_eqI [of _ _ n]) (auto simp: ProjectStorage_nodes(1) [OF wf] storageViewSpec_def)
    qed
    moreover have "Source e \<in> set (ids u) \<and> Target e \<in> set (ids u)"
      using unit_edge_ends [OF _ retained_in [OF u(1)] u(2)] ok u(3) by (simp add: storage_ok_def ends_def)
    ultimately show ?thesis by blast
  qed
  show "sorted (map (\<lambda>n. ID n) (view_Nodes ?v))" "distinct (map (\<lambda>n. ID n) (view_Nodes ?v))"
    by (rule ProjectStorage_nodes(2,3) [OF wf])+
qed

end
