(* ===== verification/VolumeKey.thy ===== *)
theory VolumeKey
  imports Owners
begin

text \<open>
  From a PersistentVolume name to the FlexVols that serve it: \<open>pkg/build/volumekey.go\<close>.

  The operator's rewrite rules turn a volume name into a match token, and a FlexVol serves the claim when
  its name ends with the token. \<open>volumeMatcher\<close> is the index that answers this for all claims of a build at
  once; a map of the code is the list of its entries. \<open>regexp.Compile\<close> is the parameter \<open>compile\<close>: it
  rejects a pattern or gives \<open>ReplaceAllString\<close> of the compiled one.

  The lemmas show that the index agrees with the one-pair predicate \<open>matches\<close>, and that the scope of the QoS
  reads is exactly the set of FlexVols the join can use.
\<close>

section \<open>Collecting once\<close>

text \<open>The idiom \<open>if seen[v] { continue }; seen[v] = true; out = append(out, v)\<close>.\<close>

definition collectStep :: "('a \<Rightarrow> 'k option) \<Rightarrow> 'a \<Rightarrow> 'k list \<times> 'k list \<Rightarrow> 'k list \<times> 'k list" where
  "collectStep f s = (\<lambda>(out, seen).
     (case f s of
        None \<Rightarrow> (out, seen)
      | Some v \<Rightarrow> if v \<in> set seen then (out, seen) else (out @ [v], v # seen)))"

definition collectNew :: "('a \<Rightarrow> 'k option) \<Rightarrow> 'a list \<Rightarrow> 'k list" where
  "collectNew f rows = fst (fold (collectStep f) rows ([], []))"

lemma collect_fold:
  assumes "distinct out" and "set out = set seen"
  shows "distinct (fst (fold (collectStep f) rows (out, seen)))
    \<and> set (fst (fold (collectStep f) rows (out, seen))) = set out \<union> {v. Some v \<in> f ` set rows}"
  using assms
proof (induction rows arbitrary: out seen)
  case (Cons s rows)
  have split: "{v. Some v \<in> f ` set (s # rows)} = {v. f s = Some v} \<union> {v. Some v \<in> f ` set rows}" by auto
  show ?case
  proof (cases "f s")
    case None
    then show ?thesis using Cons.IH [OF Cons.prems] unfolding split by (simp add: collectStep_def)
  next
    case (Some v)
    show ?thesis
    proof (cases "v \<in> set seen")
      case True
      then show ?thesis using Some Cons.prems Cons.IH [OF Cons.prems] unfolding split by (auto simp: collectStep_def)
    next
      case False
      then have "distinct (out @ [v])" "set (out @ [v]) = set (v # seen)" using Cons.prems by auto
      from Cons.IH [OF this] show ?thesis using Some False unfolding split by (simp add: collectStep_def)
    qed
  qed
qed simp

lemma collectNew_set: "set (collectNew f rows) = {v. Some v \<in> f ` set rows}"
  and collectNew_distinct: "distinct (collectNew f rows)"
  using collect_fold [of "[]" "[]" f rows] by (simp_all add: collectNew_def)

section \<open>Rules\<close>

record VolumeKeyRule =
  vkr_Pattern :: string
  vkr_Replacement :: string

definition DefaultVolumeKeyRules :: "VolumeKeyRule list" where
  "DefaultVolumeKeyRules = [\<lparr> vkr_Pattern = ''-'', vkr_Replacement = ''_'' \<rparr>]"

type_synonym compiledVolumeKeyRule = "(string \<Rightarrow> string \<Rightarrow> string) \<times> string"
type_synonym VolumeKeyRewriter = "compiledVolumeKeyRule list"

datatype 'e RewriteError = RuleDoesNotCompile nat string 'e

fun compileRules ::
  "(string \<Rightarrow> 'e + (string \<Rightarrow> string \<Rightarrow> string)) \<Rightarrow> nat \<Rightarrow> VolumeKeyRule list
     \<Rightarrow> VolumeKeyRewriter \<Rightarrow> 'e RewriteError + VolumeKeyRewriter" where
  "compileRules compile i [] out = Inr out"
| "compileRules compile i (r # rs) out =
     (case compile (vkr_Pattern r) of
        Inl err \<Rightarrow> Inl (RuleDoesNotCompile (i + 1) (vkr_Pattern r) err)
      | Inr re \<Rightarrow> compileRules compile (i + 1) rs (out @ [(re, vkr_Replacement r)]))"

definition NewVolumeKeyRewriter ::
  "(string \<Rightarrow> 'e + (string \<Rightarrow> string \<Rightarrow> string)) \<Rightarrow> VolumeKeyRule list option
     \<Rightarrow> 'e RewriteError + VolumeKeyRewriter" where
  "NewVolumeKeyRewriter compile rules =
     compileRules compile 0 (case rules of None \<Rightarrow> DefaultVolumeKeyRules | Some r \<Rightarrow> r) []"

definition volumeToken :: "VolumeKeyRewriter \<Rightarrow> string \<Rightarrow> string" where
  "volumeToken rw pvName = (if pvName = [] then [] else fold (\<lambda>(replaceAll, repl) s. replaceAll s repl) rw pvName)"

definition HasSuffix :: "string \<Rightarrow> string \<Rightarrow> bool" where
  "HasSuffix s t = (length t \<le> length s \<and> drop (length s - length t) s = t)"

definition tokenMatches :: "string \<Rightarrow> string \<Rightarrow> bool" where
  "tokenMatches tok vol = (if tok = [] then False else HasSuffix vol tok)"

section \<open>The matcher\<close>

record pvcVolume =
  pv_id :: string
  pv_volumeName :: string
  pv_zone :: zone

record volumeMatcher =
  vm_tokens :: "string list"
  vm_byToken :: "(string, nat list) gomap"
  vm_lengths :: "nat list"

definition matcherStep :: "VolumeKeyRewriter \<Rightarrow> nat \<Rightarrow> pvcVolume \<Rightarrow> volumeMatcher \<times> nat list \<Rightarrow> volumeMatcher \<times> nat list" where
  "matcherStep rw i c = (\<lambda>(m, seenLen).
     (let t = volumeToken rw (pv_volumeName c);
          m = m\<lparr> vm_tokens := vm_tokens m @ [t] \<rparr> in
      if t = [] then (m, seenLen)
      else
        let m = m\<lparr> vm_byToken := gm_append t i (vm_byToken m) \<rparr> in
        if length t \<in> set seenLen then (m, seenLen)
        else (m\<lparr> vm_lengths := vm_lengths m @ [length t] \<rparr>, length t # seenLen)))"

fun matcherLoop ::
  "VolumeKeyRewriter \<Rightarrow> nat \<Rightarrow> pvcVolume list \<Rightarrow> volumeMatcher \<times> nat list \<Rightarrow> volumeMatcher \<times> nat list" where
  "matcherLoop rw i [] st = st"
| "matcherLoop rw i (c # cs) st = matcherLoop rw (i + 1) cs (matcherStep rw i c st)"

definition newVolumeMatcher :: "VolumeKeyRewriter \<Rightarrow> pvcVolume list \<Rightarrow> volumeMatcher" where
  "newVolumeMatcher rw claims =
     (let m = fst (matcherLoop rw 0 claims (\<lparr> vm_tokens = [], vm_byToken = [], vm_lengths = [] \<rparr>, []))
      in m\<lparr> vm_lengths := sort (vm_lengths m) \<rparr>)"

fun matchLoop :: "(string, nat list) gomap \<Rightarrow> string \<Rightarrow> nat list \<Rightarrow> nat list" where
  "matchLoop byTok vol [] = []"
| "matchLoop byTok vol (l # ls) =
     (if length vol < l then [] else gm_list byTok (drop (length vol - l) vol) @ matchLoop byTok vol ls)"

definition matchVolume :: "volumeMatcher \<Rightarrow> string \<Rightarrow> nat list" where
  "matchVolume m vol = (if vol = [] then [] else matchLoop (vm_byToken m) vol (vm_lengths m))"

fun anyLoop :: "(string, nat list) gomap \<Rightarrow> string \<Rightarrow> nat list \<Rightarrow> bool" where
  "anyLoop byTok vol [] = False"
| "anyLoop byTok vol (l # ls) =
     (if length vol < l then False
      else if gm_list byTok (drop (length vol - l) vol) \<noteq> [] then True
      else anyLoop byTok vol ls)"

definition anyVolume :: "volumeMatcher \<Rightarrow> string \<Rightarrow> bool" where
  "anyVolume m vol = (if vol = [] then False else anyLoop (vm_byToken m) vol (vm_lengths m))"

section \<open>The scope of the QoS reads\<close>

definition boundVolumes :: "'f Row list \<Rightarrow> pvcVolume list" where
  "boundVolumes pvcInfo =
     map (\<lambda>vn. \<lparr> pv_id = [], pv_volumeName = vn, pv_zone = noZone \<rparr>)
       (collectNew (\<lambda>s. if row_str s ''volumename'' = [] then None else Some (row_str s ''volumename'')) pvcInfo)"

definition claimVolumeMatcher :: "'f Row list \<Rightarrow> VolumeKeyRewriter \<Rightarrow> (pvcVolume list \<times> volumeMatcher) option" where
  "claimVolumeMatcher pvcInfo rw =
     (let claims = boundVolumes pvcInfo in
      if claims = [] then None else Some (claims, newVolumeMatcher rw claims))"

definition HarvestVolume :: "'f Row \<Rightarrow> string" where
  "HarvestVolume s = row_str s ''volume''"

definition qosVolumeScope :: "'f Row list \<Rightarrow> 'f Row list \<Rightarrow> VolumeKeyRewriter \<Rightarrow> string list" where
  "qosVolumeScope pvcInfo volumeLabels rw =
     (if pvcInfo = [] \<or> volumeLabels = [] then []
      else case claimVolumeMatcher pvcInfo rw of
        None \<Rightarrow> []
      | Some (_, m) \<Rightarrow>
          sort (collectNew (\<lambda>s.
            let v = HarvestVolume s in if v = [] \<or> \<not> anyVolume m v then None else Some v) volumeLabels))"

section \<open>The index agrees with the predicate\<close>

definition claimToken :: "VolumeKeyRewriter \<Rightarrow> pvcVolume \<Rightarrow> string" where
  "claimToken rw c = volumeToken rw (pv_volumeName c)"

text \<open>What the loop has indexed after some claims.\<close>

definition indexes :: "VolumeKeyRewriter \<Rightarrow> pvcVolume list \<Rightarrow> volumeMatcher \<times> nat list \<Rightarrow> bool" where
  "indexes rw cs st =
     (let m = fst st in
      vm_tokens m = map (claimToken rw) cs
      \<and> (\<forall>t. gm_list (vm_byToken m) t = (if t = [] then [] else filter (\<lambda>i. claimToken rw (cs ! i) = t) [0..<length cs]))
      \<and> distinct (vm_lengths m) \<and> set (snd st) = set (vm_lengths m)
      \<and> set (vm_lengths m) = length ` (set (map (claimToken rw) cs) - {[]}))"

lemma filter_snoc_nth:
  "filter (\<lambda>i. f ((cs @ [c]) ! i) = t) [0..<length (cs @ [c])] =
     filter (\<lambda>i. f (cs ! i) = t) [0..<length cs] @ (if f c = t then [length cs] else [])"
proof -
  have "filter (\<lambda>i. f ((cs @ [c]) ! i) = t) [0..<length cs] = filter (\<lambda>i. f (cs ! i) = t) [0..<length cs]"
    by (rule filter_cong) (auto simp: nth_append)
  then show ?thesis by simp
qed

lemma matcherStep_indexes:
  assumes "indexes rw cs st"
  shows "indexes rw (cs @ [c]) (matcherStep rw (length cs) c st)"
proof -
  obtain m seen where st: "st = (m, seen)" by (cases st)
  show ?thesis
    using assms unfolding st indexes_def matcherStep_def Let_def filter_snoc_nth
    by (auto simp: claimToken_def [symmetric] gm_list_append)
qed

lemma matcherLoop_indexes:
  assumes "indexes rw cs' st"
  shows "indexes rw (cs' @ cs) (matcherLoop rw (length cs') cs st)"
  using assms
proof (induction cs arbitrary: cs' st)
  case (Cons c cs)
  show ?case using Cons.IH [OF matcherStep_indexes [OF Cons.prems, of c]] by simp
qed simp

lemma newVolumeMatcher_index:
  "vm_tokens (newVolumeMatcher rw claims) = map (claimToken rw) claims"
  "gm_list (vm_byToken (newVolumeMatcher rw claims)) t =
     (if t = [] then [] else filter (\<lambda>i. claimToken rw (claims ! i) = t) [0..<length claims])"
  "sorted (vm_lengths (newVolumeMatcher rw claims))" "distinct (vm_lengths (newVolumeMatcher rw claims))"
  "set (vm_lengths (newVolumeMatcher rw claims)) = length ` (set (map (claimToken rw) claims) - {[]})"
proof -
  have "indexes rw [] (\<lparr> vm_tokens = [], vm_byToken = [], vm_lengths = [] \<rparr>, [])"
    by (simp add: indexes_def gm_list_def)
  from matcherLoop_indexes [OF this, of claims]
  show "vm_tokens (newVolumeMatcher rw claims) = map (claimToken rw) claims"
    "gm_list (vm_byToken (newVolumeMatcher rw claims)) t =
       (if t = [] then [] else filter (\<lambda>i. claimToken rw (claims ! i) = t) [0..<length claims])"
    "sorted (vm_lengths (newVolumeMatcher rw claims))" "distinct (vm_lengths (newVolumeMatcher rw claims))"
    "set (vm_lengths (newVolumeMatcher rw claims)) = length ` (set (map (claimToken rw) claims) - {[]})"
    by (auto simp: newVolumeMatcher_def indexes_def Let_def)
qed

lemma matchLoop_stops:
  assumes "sorted ls"
  shows "matchLoop byTok vol ls =
    concat (map (\<lambda>l. gm_list byTok (drop (length vol - l) vol)) (filter (\<lambda>l. l \<le> length vol) ls))"
  using assms
proof (induction ls)
  case (Cons l ls)
  have "filter (\<lambda>l. l \<le> length vol) ls = []" if "length vol < l"
    using that Cons.prems by (auto simp: filter_empty_conv)
  then show ?case using Cons by auto
qed simp

lemma anyLoop_match: "anyLoop byTok vol ls \<longleftrightarrow> matchLoop byTok vol ls \<noteq> []"
  by (induction ls) auto

lemma anyVolume_match: "anyVolume m vol \<longleftrightarrow> matchVolume m vol \<noteq> []"
  by (simp add: anyVolume_def matchVolume_def anyLoop_match)

lemma suffix_tail: "HasSuffix vol t \<Longrightarrow> drop (length vol - length t) vol = t"
  by (simp add: HasSuffix_def)

lemma matchVolume_in:
  "i \<in> set (matchVolume (newVolumeMatcher rw claims) vol) \<longleftrightarrow>
     i < length claims \<and> tokenMatches (claimToken rw (claims ! i)) vol"
proof
  assume "i \<in> set (matchVolume (newVolumeMatcher rw claims) vol)"
  then obtain l where "l \<le> length vol" and "i \<in> set (gm_list (vm_byToken (newVolumeMatcher rw claims)) (drop (length vol - l) vol))"
    by (auto simp: matchVolume_def matchLoop_stops newVolumeMatcher_index(3) split: if_splits)
  then have i: "i < length claims" and t: "claimToken rw (claims ! i) = drop (length vol - l) vol"
    and ne: "drop (length vol - l) vol \<noteq> []" by (auto simp: newVolumeMatcher_index(2) split: if_splits)
  then have "HasSuffix vol (claimToken rw (claims ! i))" using \<open>l \<le> length vol\<close> by (simp add: HasSuffix_def)
  then show "i < length claims \<and> tokenMatches (claimToken rw (claims ! i)) vol"
    using i t ne by (simp add: tokenMatches_def)
next
  let ?t = "claimToken rw (claims ! i)"
  assume i: "i < length claims \<and> tokenMatches ?t vol"
  then have suf: "HasSuffix vol ?t" and ne: "?t \<noteq> []" by (auto simp: tokenMatches_def split: if_splits)
  have len: "length ?t \<in> set (vm_lengths (newVolumeMatcher rw claims))"
    unfolding newVolumeMatcher_index(5) using i ne by auto
  have "length ?t \<le> length vol" using suf by (simp add: HasSuffix_def)
  moreover have "i \<in> set (gm_list (vm_byToken (newVolumeMatcher rw claims)) (drop (length vol - length ?t) vol))"
    unfolding suffix_tail [OF suf] newVolumeMatcher_index(2) using i ne by simp
  moreover have "vol \<noteq> []" using suf ne by (auto simp: HasSuffix_def)
  ultimately show "i \<in> set (matchVolume (newVolumeMatcher rw claims) vol)"
    using len by (auto simp: matchVolume_def matchLoop_stops newVolumeMatcher_index(3))
qed

lemma distinct_concat_map:
  assumes "distinct ls" and "\<And>l. l \<in> set ls \<Longrightarrow> distinct (f l)"
    and "\<And>l k x. l \<in> set ls \<Longrightarrow> k \<in> set ls \<Longrightarrow> x \<in> set (f l) \<Longrightarrow> x \<in> set (f k) \<Longrightarrow> l = k"
  shows "distinct (concat (map f ls))"
  using assms
proof (induction ls)
  case (Cons l ls)
  have "distinct (concat (map f ls))" by (rule Cons.IH) (use Cons.prems in auto)
  moreover have "x \<notin> set (f k)" if "x \<in> set (f l)" "k \<in> set ls" for x k
    using Cons.prems(1,3) that by (metis distinct.simps(2) list.set_intros)
  ultimately show ?case using Cons.prems(2) by auto
qed simp

lemma matchVolume_distinct: "distinct (matchVolume (newVolumeMatcher rw claims) vol)"
proof -
  let ?m = "newVolumeMatcher rw claims"
  define ls where "ls = filter (\<lambda>l. l \<le> length vol) (vm_lengths ?m)"
  define f where "f l = gm_list (vm_byToken ?m) (drop (length vol - l) vol)" for l
  have len: "length (claimToken rw (claims ! x)) = l" if "l \<in> set ls" "x \<in> set (f l)" for l x
    using that by (auto simp: f_def ls_def newVolumeMatcher_index(2) split: if_splits)
  have "distinct (concat (map f ls))"
  proof (rule distinct_concat_map)
    show "distinct ls" by (simp add: ls_def newVolumeMatcher_index(4))
    show "distinct (f l)" for l by (simp add: f_def newVolumeMatcher_index(2))
  qed (use len in metis)
  then show ?thesis
    unfolding matchVolume_def matchLoop_stops [OF newVolumeMatcher_index(3)] f_def ls_def by simp
qed

text \<open>
  C38: the indexed matcher is the one-pair predicate: for a FlexVol name it lists, once each, exactly the claims
  whose token is a non-empty suffix of it, however the tokens are bucketed by length; and the question
  whether any claim matches has the same answer.
\<close>

theorem match_reference:
  "distinct (matchVolume (newVolumeMatcher rw claims) vol) \<and>
   (i \<in> set (matchVolume (newVolumeMatcher rw claims) vol) \<longleftrightarrow>
      i < length claims \<and> tokenMatches (volumeToken rw (pv_volumeName (claims ! i))) vol) \<and>
   (anyVolume (newVolumeMatcher rw claims) vol \<longleftrightarrow> matchVolume (newVolumeMatcher rw claims) vol \<noteq> [])"
  unfolding matchVolume_in claimToken_def anyVolume_match by (simp add: matchVolume_distinct)

section \<open>The scope is what the join can use\<close>

lemma boundVolumes_names:
  "pv_volumeName ` set (boundVolumes rows) = (\<lambda>s. row_str s ''volumename'') ` set rows - {[]}"
proof -
  have "pv_volumeName ` set (boundVolumes rows)
      = {v. Some v \<in> (\<lambda>s. if row_str s ''volumename'' = [] then None else Some (row_str s ''volumename'')) ` set rows}"
    by (simp add: boundVolumes_def image_image collectNew_set)
  then show ?thesis by (auto split: if_splits)
qed

definition joinable :: "'f Row list \<Rightarrow> VolumeKeyRewriter \<Rightarrow> string \<Rightarrow> bool" where
  "joinable pvcInfo rw vol =
     list_ex (\<lambda>s. row_str s ''volumename'' \<noteq> [] \<and> tokenMatches (volumeToken rw (row_str s ''volumename'')) vol) pvcInfo"

lemma anyVolume_iff: "anyVolume (newVolumeMatcher rw claims) vol \<longleftrightarrow> (\<exists>c\<in>set claims. tokenMatches (claimToken rw c) vol)"
proof
  assume "anyVolume (newVolumeMatcher rw claims) vol"
  then obtain i where "i \<in> set (matchVolume (newVolumeMatcher rw claims) vol)"
    unfolding anyVolume_match using last_in_set by blast
  then show "\<exists>c\<in>set claims. tokenMatches (claimToken rw c) vol" unfolding matchVolume_in by (metis nth_mem)
next
  assume "\<exists>c\<in>set claims. tokenMatches (claimToken rw c) vol"
  then obtain i where "i < length claims" "tokenMatches (claimToken rw (claims ! i)) vol" by (metis in_set_conv_nth)
  then have "i \<in> set (matchVolume (newVolumeMatcher rw claims) vol)" unfolding matchVolume_in by simp
  then show "anyVolume (newVolumeMatcher rw claims) vol" unfolding anyVolume_match by auto
qed

text \<open>
  The scope of the QoS reads is sorted, without repetition, and holds exactly the FlexVol names of the
  volume series that some bound claim's token matches: a read narrowed to it loses no measurement the join
  could use, and fetches none it cannot.
\<close>

theorem qosVolumeScope_exact:
  "sorted (qosVolumeScope pvcInfo volumeLabels rw) \<and> distinct (qosVolumeScope pvcInfo volumeLabels rw) \<and>
   set (qosVolumeScope pvcInfo volumeLabels rw) = {v \<in> HarvestVolume ` set volumeLabels. joinable pvcInfo rw v}"
proof (cases "pvcInfo = [] \<or> volumeLabels = [] \<or> boundVolumes pvcInfo = []")
  case True
  have "\<not> joinable pvcInfo rw v" if "boundVolumes pvcInfo = []" for v
    using boundVolumes_names [of pvcInfo] that by (auto simp: joinable_def list_ex_iff)
  then show ?thesis using True
    by (auto simp: qosVolumeScope_def claimVolumeMatcher_def joinable_def)
next
  case False
  let ?m = "newVolumeMatcher rw (boundVolumes pvcInfo)"
  have ex: "anyVolume ?m v \<longleftrightarrow> joinable pvcInfo rw v" for v
  proof -
    have "anyVolume ?m v \<longleftrightarrow> (\<exists>vn \<in> pv_volumeName ` set (boundVolumes pvcInfo). tokenMatches (volumeToken rw vn) v)"
      by (simp add: anyVolume_iff claimToken_def)
    then show ?thesis unfolding boundVolumes_names by (auto simp: joinable_def list_ex_iff)
  qed
  have ne: "joinable pvcInfo rw v \<Longrightarrow> v \<noteq> []" for v
    by (auto simp: joinable_def list_ex_iff tokenMatches_def HasSuffix_def split: if_splits)
  have "qosVolumeScope pvcInfo volumeLabels rw =
      sort (collectNew (\<lambda>s. let v = HarvestVolume s in if v = [] \<or> \<not> joinable pvcInfo rw v then None else Some v) volumeLabels)"
    using False by (simp add: qosVolumeScope_def claimVolumeMatcher_def Let_def ex)
  moreover have "{v. Some v \<in> (\<lambda>s. let v = HarvestVolume s in if v = [] \<or> \<not> joinable pvcInfo rw v then None else Some v) ` set volumeLabels}
      = {v \<in> HarvestVolume ` set volumeLabels. joinable pvcInfo rw v}"
    using ne by (auto simp: Let_def split: if_splits)
  ultimately show ?thesis by (simp add: collectNew_set collectNew_distinct)
qed

end
