(* ===== verification/NetAppQoS.thy ===== *)
theory NetAppQoS
  imports TopologyClaims StorageProjection VolumeKey
begin

text \<open>
  Hops B and C of the storage join (\<open>pkg/build/netapp.go\<close>): which QoS workload rows measure a claim, what
  they sum to, how they change over the window, and which declared ceiling applies.

  \<open>fp\<close> is the client library's fingerprint of a label set. Figures are an abstract ordered type with the
  arithmetic record of the projections; \<open>zero\<close> is the float 0 and \<open>perMB\<close> the product with
  \<open>bytesPerMB\<close>.
\<close>

section \<open>Candidates\<close>

datatype ioFamily = ioReadOps | ioWriteOps | ioReadLat | ioWriteLat | ioReadData | ioWriteData

record volumeLabelCandidate =
  vl_ontapCluster :: string
  vl_node :: string
  vl_aggr :: string
  vl_svm :: string
  vl_zone :: zone

record 'f qosCandidate =
  qw_ontapCluster :: string
  qw_svm :: string
  qw_policyGroup :: string
  qw_lun :: string
  qw_volume :: string
  qw_family :: ioFamily
  qw_value :: 'f
  qw_zone :: zone
  qw_series :: "64 word"

record qosWorkload =
  wl_ontapCluster :: string
  wl_svm :: string
  wl_volume :: string
  wl_lun :: string
  wl_family :: ioFamily

definition workloadOf :: "'f qosCandidate \<Rightarrow> qosWorkload" where
  "workloadOf c =
     \<lparr> wl_ontapCluster = qw_ontapCluster c, wl_svm = qw_svm c, wl_volume = qw_volume c, wl_lun = qw_lun c,
       wl_family = qw_family c \<rparr>"

definition zoneOrNone :: "Metric \<Rightarrow> LabelKeys \<Rightarrow> zone" where
  "zoneOrNone m keys = (case zoneOf m keys of None \<Rightarrow> noZone | Some z \<Rightarrow> z)"

definition seriesFingerprint :: "(Metric \<Rightarrow> 64 word) \<Rightarrow> Metric \<Rightarrow> 64 word" where
  "seriesFingerprint fp m = (if \<not> gm_has m ''__name__'' then fp m else fp (gm_del ''__name__'' m))"

definition qosCandidateOf ::
  "(Metric \<Rightarrow> 64 word) \<Rightarrow> ioFamily \<Rightarrow> LabelKeys \<Rightarrow> bool \<Rightarrow> 'f Row \<Rightarrow> 'f qosCandidate option" where
  "qosCandidateOf fp fam keys withSeries s =
     (let vol = HarvestVolume s; oc = row_str s ''cluster'' in
      if vol = [] \<or> oc = [] then None
      else Some
        \<lparr> qw_ontapCluster = oc, qw_svm = row_str s ''svm'', qw_policyGroup = row_str s ''policy_group'',
          qw_lun = row_str s ''lun'', qw_volume = vol, qw_family = fam, qw_value = sm_value s,
          qw_zone = zoneOrNone (sm_metric s) keys,
          qw_series = (if withSeries then seriesFingerprint fp (sm_metric s) else 0) \<rparr>)"

type_synonym 'f qosIndex = "(string, 'f qosCandidate list) gomap"

definition indexQoSFamily ::
  "(Metric \<Rightarrow> 64 word) \<Rightarrow> LabelKeys \<Rightarrow> bool \<Rightarrow> 'f Row list \<times> ioFamily \<Rightarrow> 'f qosIndex \<Rightarrow> 'f qosIndex" where
  "indexQoSFamily fp keys withSeries = (\<lambda>(vec, fam) dst.
     fold (\<lambda>s dst. case qosCandidateOf fp fam keys withSeries s of
         None \<Rightarrow> dst
       | Some c \<Rightarrow> gm_append (qw_volume c) c dst) vec dst)"

record 'f qosVectors =
  qv_ReadOps :: "'f Row list"
  qv_WriteOps :: "'f Row list"
  qv_ReadLatency :: "'f Row list"
  qv_WriteLatency :: "'f Row list"
  qv_ReadData :: "'f Row list"
  qv_WriteData :: "'f Row list"

definition qosFamilies :: "'f qosVectors \<Rightarrow> ('f Row list \<times> ioFamily) list" where
  "qosFamilies q =
     [(qv_ReadOps q, ioReadOps), (qv_WriteOps q, ioWriteOps), (qv_ReadLatency q, ioReadLat),
      (qv_WriteLatency q, ioWriteLat), (qv_ReadData q, ioReadData), (qv_WriteData q, ioWriteData)]"

definition qosRead :: "'f qosVectors \<Rightarrow> bool" where
  "qosRead q = (sum_list (map (\<lambda>(vec, fam). length vec) (qosFamilies q)) > 0)"

definition indexQoS :: "(Metric \<Rightarrow> 64 word) \<Rightarrow> LabelKeys \<Rightarrow> bool \<Rightarrow> 'f qosVectors \<Rightarrow> 'f qosIndex" where
  "indexQoS fp keys withSeries q = fold (indexQoSFamily fp keys withSeries) (qosFamilies q) []"

definition qosCandidatesFor :: "string list \<Rightarrow> 'f qosIndex \<Rightarrow> 'f qosCandidate list" where
  "qosCandidatesFor volumes index =
     (if length volumes = 1 then gm_list index (volumes ! 0)
      else fold (\<lambda>v out. out @ gm_list index v) volumes [])"

section \<open>One zone per workload\<close>

definition qosInScope :: "'f qosCandidate \<Rightarrow> string \<Rightarrow> string \<Rightarrow> bool" where
  "qosInScope c oc svm =
     (if qw_ontapCluster c \<noteq> oc then False else svm = [] \<or> qw_svm c = [] \<or> qw_svm c = svm)"

definition chosenZones :: "'f qosCandidate list \<Rightarrow> zone \<Rightarrow> string \<Rightarrow> string \<Rightarrow> (qosWorkload, zone) gomap" where
  "chosenZones cands claim oc svm =
     pickAll (prefers claim)
       (\<lambda>c. if \<not> qosInScope c oc svm then None else Some (workloadOf c, qw_zone c)) cands []"

definition preferQoSZone :: "'f qosCandidate list \<Rightarrow> zone \<Rightarrow> string \<Rightarrow> string \<Rightarrow> 'f qosCandidate list" where
  "preferQoSZone cands claim oc svm =
     (if cands = [] then []
      else
        let chosen = chosenZones cands claim oc svm in
        filter (\<lambda>c. case gm_get chosen (workloadOf c) of None \<Rightarrow> False | Some z \<Rightarrow> qw_zone c = z) cands)"

section \<open>Ceilings\<close>

type_synonym policyKey = "string \<times> string \<times> string"

definition policyOffer :: "'f Row \<Rightarrow> (policyKey \<times> 'f) option" where
  "policyOffer s =
     (let oc = row_str s ''cluster''; svm = row_str s ''svm'';
          policy = (if row_str s ''name'' = [] then row_str s ''policy_group'' else row_str s ''name'') in
      if oc = [] \<or> svm = [] \<or> policy = [] then None else Some ((oc, svm, policy), sm_value s))"

definition indexPolicyCeilings ::
  "('f \<Rightarrow> 'f) \<Rightarrow> ('f :: linorder) Row list \<Rightarrow> 'f Row list \<Rightarrow> (policyKey, 'f IOMetrics) gomap" where
  "indexPolicyCeilings perMB maxIOPS maxMBps =
     (let iops = pickAll (<) policyOffer maxIOPS []; mbps = pickAll (<) policyOffer maxMBps [];
          keys = remdups (map fst iops @ map fst mbps) in
      map (\<lambda>k. (k, noIO\<lparr> MaxIOPS := gm_get iops k, MaxBytesPerSec := map_option perMB (gm_get mbps k) \<rparr>)) keys)"

definition pickPolicy ::
  "'f qosCandidate list \<Rightarrow> (policyKey, 'f IOMetrics) gomap \<Rightarrow> string \<Rightarrow> string \<Rightarrow> string" where
  "pickPolicy cands index oc svm =
     (let (resolving, any) = fold (\<lambda>c (resolving, any).
          let p = qw_policyGroup c in
          if p = [] then (resolving, any)
          else
            let any = (if any = [] \<or> p < any then p else any) in
            if \<not> gm_has index (oc, svm, p) then (resolving, any)
            else (if resolving = [] \<or> p < resolving then p else resolving, any)) cands ([], [])
      in if resolving \<noteq> [] then resolving else any)"

definition resolveCeiling ::
  "'f qosCandidate list \<Rightarrow> (policyKey, 'f IOMetrics) gomap \<Rightarrow> string \<Rightarrow> string \<Rightarrow> 'f QoSCeiling option" where
  "resolveCeiling cands index oc svm =
     (if oc = [] \<or> svm = [] then None
      else
        let policy = pickPolicy cands index oc svm in
        if policy = [] then None
        else case gm_get index (oc, svm, policy) of
          None \<Rightarrow> None
        | Some c \<Rightarrow>
            if MaxIOPS c = None \<and> MaxBytesPerSec c = None then None
            else Some \<lparr> qos_PolicyGroup = policy, qos_MaxIOPS = MaxIOPS c, qos_MaxBytesPerSec = MaxBytesPerSec c \<rparr>)"

definition applyCeiling :: "'f QoSCeiling option \<Rightarrow> 'f IOMetrics \<Rightarrow> 'f IOMetrics" where
  "applyCeiling q io =
     (case q of
        None \<Rightarrow> io
      | Some c \<Rightarrow>
          let io = (case qos_MaxIOPS c of None \<Rightarrow> io | Some v \<Rightarrow> io\<lparr> MaxIOPS := Some v \<rparr>) in
          (case qos_MaxBytesPerSec c of None \<Rightarrow> io | Some v \<Rightarrow> io\<lparr> MaxBytesPerSec := Some v \<rparr>))"

section \<open>Sums and changes\<close>

definition sumIOFamily :: "('f :: linorder) Arith \<Rightarrow> 'f \<Rightarrow> 'f list \<Rightarrow> 'f option" where
  "sumIOFamily A zero vals = (if vals = [] then None else Some (foldl (fadd A) zero (sort vals)))"

definition familyValues :: "'f qosCandidate list \<Rightarrow> ioFamily \<Rightarrow> 'f list" where
  "familyValues cands fam = map qw_value (filter (\<lambda>c. qw_lun c = [] \<and> qw_family c = fam) cands)"

definition sumQoSIO :: "('f :: linorder) Arith \<Rightarrow> 'f \<Rightarrow> 'f qosCandidate list \<Rightarrow> 'f IOMetrics option" where
  "sumQoSIO A zero cands =
     (let readOps = familyValues cands ioReadOps; writeOps = familyValues cands ioWriteOps;
          readLat = familyValues cands ioReadLat; writeLat = familyValues cands ioWriteLat;
          readData = familyValues cands ioReadData; writeData = familyValues cands ioWriteData in
      if length readOps + length writeOps + length readLat + length writeLat + length readData + length writeData = 0
      then None
      else Some (noIO
        \<lparr> ReadOps := sumIOFamily A zero readOps, WriteOps := sumIOFamily A zero writeOps,
          ReadLatencyUs := sumIOFamily A zero readLat, WriteLatencyUs := sumIOFamily A zero writeLat,
          ReadBytesPerSec := sumIOFamily A zero readData, WriteBytesPerSec := sumIOFamily A zero writeData \<rparr>))"

definition beside :: "'f option \<Rightarrow> 'f option \<Rightarrow> 'f option \<Rightarrow> 'f option" where
  "beside base delta old = (if base \<noteq> None then delta else old)"

definition applyDelta :: "'f IOMetrics option \<Rightarrow> 'f IOMetrics \<Rightarrow> 'f IOMetrics" where
  "applyDelta d io =
     (case d of
        None \<Rightarrow> io
      | Some delta \<Rightarrow> io
          \<lparr> ReadOpsDelta := beside (ReadOps io) (ReadOps delta) (ReadOpsDelta io),
            WriteOpsDelta := beside (WriteOps io) (WriteOps delta) (WriteOpsDelta io),
            ReadLatencyUsDelta := beside (ReadLatencyUs io) (ReadLatencyUs delta) (ReadLatencyUsDelta io),
            WriteLatencyUsDelta := beside (WriteLatencyUs io) (WriteLatencyUs delta) (WriteLatencyUsDelta io),
            ReadBytesPerSecDelta := beside (ReadBytesPerSec io) (ReadBytesPerSec delta) (ReadBytesPerSecDelta io),
            WriteBytesPerSecDelta := beside (WriteBytesPerSec io) (WriteBytesPerSec delta) (WriteBytesPerSecDelta io) \<rparr>)"

text \<open>\<open>deltaGateKey\<close>: ONTAP cluster, volume, LUN and family.\<close>

type_synonym deltaGateKey = "string \<times> string \<times> string \<times> ioFamily"

definition deltaGate :: "'f qosCandidate \<Rightarrow> deltaGateKey" where
  "deltaGate c = (qw_ontapCluster c, qw_volume c, qw_lun c, qw_family c)"

definition seriesByGate :: "'f qosCandidate list \<Rightarrow> (deltaGateKey, 64 word set) gomap" where
  "seriesByGate rows =
     fold (\<lambda>c out.
        let k = deltaGate c in
        gm_put k (insert (qw_series c) (case gm_get out k of None \<Rightarrow> {} | Some S \<Rightarrow> S)) out) rows []"

definition seriesOf :: "(deltaGateKey, 64 word set) gomap \<Rightarrow> deltaGateKey \<Rightarrow> 64 word set" where
  "seriesOf m k = (case gm_get m k of None \<Rightarrow> {} | Some S \<Rightarrow> S)"

definition keepUnchangedDeltaRows :: "'f qosIndex \<Rightarrow> 'f qosIndex \<Rightarrow> 'f qosIndex" where
  "keepUnchangedDeltaRows delta measured =
     List.map_filter (\<lambda>(vol, rows).
        let want = seriesByGate (gm_list measured vol); got = seriesByGate rows;
            kept = filter (\<lambda>c. seriesOf want (deltaGate c) = seriesOf got (deltaGate c)) rows in
        if kept = [] then None else Some (vol, kept)) delta"

section \<open>The zone choice\<close>

interpretation zone_pick: tie_break "prefers claim" for claim
  by unfold_locales (auto simp: prefers_irrefl prefers_total intro: prefers_trans)

definition preferredZone :: "zone \<Rightarrow> zone set \<Rightarrow> zone \<Rightarrow> bool" where
  "preferredZone claim Z z = (z \<in> Z \<and> (\<forall>u\<in>Z. u = z \<or> prefers claim z u))"

lemma preferredZone_unique: "preferredZone claim Z z \<Longrightarrow> preferredZone claim Z u \<Longrightarrow> u = z"
  using zone_pick.best_unique [of claim Z z u] unfolding preferredZone_def zone_pick.best_def by blast

definition zonesSeen :: "'f qosCandidate set \<Rightarrow> string \<Rightarrow> string \<Rightarrow> qosWorkload \<Rightarrow> zone set" where
  "zonesSeen C oc svm w = qw_zone ` {c \<in> C. qosInScope c oc svm \<and> workloadOf c = w}"

definition measures :: "'f qosCandidate set \<Rightarrow> zone \<Rightarrow> string \<Rightarrow> string \<Rightarrow> 'f qosCandidate \<Rightarrow> bool" where
  "measures C claim oc svm c =
     (qosInScope c oc svm \<and> preferredZone claim (zonesSeen C oc svm (workloadOf c)) (qw_zone c))"

lemma scope_workload:
  "workloadOf c = workloadOf d \<Longrightarrow> qosInScope c oc svm = qosInScope d oc svm"
  by (simp add: workloadOf_def qosInScope_def)

lemma chosenZones_get:
  "gm_get (chosenZones cands claim oc svm) w = Some z \<longleftrightarrow> preferredZone claim (zonesSeen (set cands) oc svm w) z"
proof -
  have "offers (\<lambda>c. if \<not> qosInScope c oc svm then None else Some (workloadOf c, qw_zone c)) (set cands) w
      = zonesSeen (set cands) oc svm w"
    by (auto simp: offers_def zonesSeen_def)
  then show ?thesis
    unfolding chosenZones_def zone_pick.pickAll_Some zone_pick.best_def preferredZone_def by simp
qed

lemma preferQoSZone_filter:
  "preferQoSZone cands claim oc svm = filter (measures (set cands) claim oc svm) cands"
proof -
  have "(case gm_get (chosenZones cands claim oc svm) (workloadOf c) of None \<Rightarrow> False | Some z \<Rightarrow> qw_zone c = z)
      \<longleftrightarrow> measures (set cands) claim oc svm c" if "c \<in> set cands" for c
  proof -
    have "preferredZone claim (zonesSeen (set cands) oc svm (workloadOf c)) (qw_zone c) \<Longrightarrow> qosInScope c oc svm"
      using scope_workload [of _ c oc svm] by (auto simp: preferredZone_def zonesSeen_def)
    moreover have "(case gm_get (chosenZones cands claim oc svm) (workloadOf c) of None \<Rightarrow> False | Some z \<Rightarrow> qw_zone c = z)
        \<longleftrightarrow> gm_get (chosenZones cands claim oc svm) (workloadOf c) = Some (qw_zone c)"
      by (auto split: option.splits)
    ultimately show ?thesis unfolding chosenZones_get measures_def by blast
  qed
  then show ?thesis by (auto simp: preferQoSZone_def Let_def intro!: filter_cong)
qed

lemma zonesSeen_finite: "finite C \<Longrightarrow> finite (zonesSeen C oc svm w)"
  by (simp add: zonesSeen_def)

text \<open>
  C39: What measures a claim: a sublist of the rows in which every workload of the claim's filer and SVM appears,
  in exactly one zone: the claim's own if the workload is seen there, else no zone, else the smallest one.
  So a workload scraped by two pollers is counted once, and none is lost.
\<close>

theorem preferQoSZone_exact:
  "preferQoSZone cands claim oc svm = filter (measures (set cands) claim oc svm) cands \<and>
   workloadOf ` set (preferQoSZone cands claim oc svm) = workloadOf ` {c \<in> set cands. qosInScope c oc svm} \<and>
   card (qw_zone ` {c \<in> set (preferQoSZone cands claim oc svm). workloadOf c = w}) \<le> 1"
proof (intro conjI preferQoSZone_filter)
  show "workloadOf ` set (preferQoSZone cands claim oc svm) = workloadOf ` {c \<in> set cands. qosInScope c oc svm}"
  proof
    show "workloadOf ` {c \<in> set cands. qosInScope c oc svm} \<subseteq> workloadOf ` set (preferQoSZone cands claim oc svm)"
    proof
      fix w assume "w \<in> workloadOf ` {c \<in> set cands. qosInScope c oc svm}"
      then have "zonesSeen (set cands) oc svm w \<noteq> {}" by (auto simp: zonesSeen_def)
      then obtain z where "zone_pick.best claim (zonesSeen (set cands) oc svm w) z"
        using zone_pick.best_exists [of "zonesSeen (set cands) oc svm w" claim] zonesSeen_finite [of "set cands"] by blast
      then have z: "preferredZone claim (zonesSeen (set cands) oc svm w) z" by (simp add: preferredZone_def zone_pick.best_def)
      then obtain c where "c \<in> set cands" "qosInScope c oc svm" "workloadOf c = w" "z = qw_zone c"
        by (auto simp: preferredZone_def zonesSeen_def)
      then show "w \<in> workloadOf ` set (preferQoSZone cands claim oc svm)"
        using z by (auto simp: preferQoSZone_filter measures_def)
    qed
  qed (auto simp: preferQoSZone_filter measures_def)
  have "z = u" if "z \<in> qw_zone ` {c \<in> set (preferQoSZone cands claim oc svm). workloadOf c = w}"
    "u \<in> qw_zone ` {c \<in> set (preferQoSZone cands claim oc svm). workloadOf c = w}" for z u
    using that preferredZone_unique [of claim _ u z] by (auto simp: preferQoSZone_filter measures_def)
  then show "card (qw_zone ` {c \<in> set (preferQoSZone cands claim oc svm). workloadOf c = w}) \<le> 1"
    by (simp only: One_nat_def) (intro card_le_Suc0_iff_eq [THEN iffD2], simp, blast)
qed

section \<open>The indexes\<close>

definition familyRows :: "(Metric \<Rightarrow> 64 word) \<Rightarrow> LabelKeys \<Rightarrow> bool \<Rightarrow> 'f Row list \<times> ioFamily \<Rightarrow> 'f qosCandidate list" where
  "familyRows fp keys ws = (\<lambda>(vec, fam). List.map_filter (qosCandidateOf fp fam keys ws) vec)"

definition qosRows :: "(Metric \<Rightarrow> 64 word) \<Rightarrow> LabelKeys \<Rightarrow> bool \<Rightarrow> 'f qosVectors \<Rightarrow> 'f qosCandidate list" where
  "qosRows fp keys ws q = concat (map (familyRows fp keys ws) (qosFamilies q))"

lemma map_filter_Cons: "List.map_filter f (x # xs) = (case f x of None \<Rightarrow> List.map_filter f xs | Some y \<Rightarrow> y # List.map_filter f xs)"
  by (simp add: List.map_filter_def split: option.split)

lemma indexQoSFamily_append:
  "indexQoSFamily fp keys ws vf dst = fold (\<lambda>c. gm_append (qw_volume c) c) (familyRows fp keys ws vf) dst"
proof -
  obtain vec fam where vf: "vf = (vec, fam)" by fastforce
  have "fold (\<lambda>s dst. case qosCandidateOf fp fam keys ws s of None \<Rightarrow> dst | Some c \<Rightarrow> gm_append (qw_volume c) c dst) vec dst
      = fold (\<lambda>c. gm_append (qw_volume c) c) (List.map_filter (qosCandidateOf fp fam keys ws) vec) dst"
    by (induction vec arbitrary: dst) (simp_all add: map_filter_Cons List.map_filter_def split: option.split)
  then show ?thesis by (simp add: vf indexQoSFamily_def familyRows_def)
qed

lemma indexQoS_append: "indexQoS fp keys ws q = fold (\<lambda>c. gm_append (qw_volume c) c) (qosRows fp keys ws q) []"
proof -
  have "fold (indexQoSFamily fp keys ws) vfs dst = fold (\<lambda>c. gm_append (qw_volume c) c) (concat (map (familyRows fp keys ws) vfs)) dst" for vfs dst
    by (induction vfs arbitrary: dst) (simp_all add: indexQoSFamily_append)
  then show ?thesis by (simp add: indexQoS_def qosRows_def)
qed

lemma indexQoS_list: "gm_list (indexQoS fp keys ws q) vol = filter (\<lambda>c. qw_volume c = vol) (qosRows fp keys ws q)"
  unfolding indexQoS_append by (rule gm_list_fold_append0)

lemma append_get_nonempty:
  "gm_wf m \<Longrightarrow> (\<And>k vs. (k, vs) \<in> set m \<Longrightarrow> vs \<noteq> []) \<Longrightarrow>
     gm_wf (fold (\<lambda>x. gm_append (f x) x) xs m) \<and> (\<forall>(k, vs) \<in> set (fold (\<lambda>x. gm_append (f x) x) xs m). vs \<noteq> [])"
proof (induction xs arbitrary: m)
  case (Cons x xs)
  have wf: "gm_wf (gm_append (f x) x m)" using Cons.prems(1) by (simp add: gm_append_def)
  have "vs \<noteq> []" if "(k, vs) \<in> set (gm_append (f x) x m)" for k vs
  proof -
    have "gm_get (gm_append (f x) x m) k = Some vs" using gm_in_get [OF wf that] .
    then show ?thesis using Cons.prems(2) gm_get_in [of m k vs] by (auto simp: gm_append_def split: if_splits)
  qed
  from Cons.IH [OF wf this] show ?case by simp
qed auto

lemma indexQoS_wf:
  "gm_wf (indexQoS fp keys ws q)" "(vol, rows) \<in> set (indexQoS fp keys ws q) \<Longrightarrow> rows \<noteq> []"
  using append_get_nonempty [of "[]" qw_volume "qosRows fp keys ws q"] unfolding indexQoS_append by auto

lemma seriesByGate_of: "seriesOf (seriesByGate rows) k = qw_series ` {c \<in> set rows. deltaGate c = k}"
proof -
  have "seriesOf (fold (\<lambda>c out. let k = deltaGate c in
        gm_put k (insert (qw_series c) (case gm_get out k of None \<Rightarrow> {} | Some S \<Rightarrow> S)) out) rows m) k
      = seriesOf m k \<union> qw_series ` {c \<in> set rows. deltaGate c = k}" for m
  proof (induction rows arbitrary: m)
    case (Cons c rows)
    have "{d \<in> set (c # rows). deltaGate d = k} = (if deltaGate c = k then {c} else {}) \<union> {d \<in> set rows. deltaGate d = k}" by auto
    moreover have "seriesOf (let k = deltaGate c in
        gm_put k (insert (qw_series c) (case gm_get m k of None \<Rightarrow> {} | Some S \<Rightarrow> S)) m) k
      = (if deltaGate c = k then insert (qw_series c) (seriesOf m k) else seriesOf m k)"
      by (simp add: seriesOf_def Let_def)
    ultimately show ?case using Cons by simp
  qed simp
  from this [of "[]"] show ?thesis by (simp add: seriesByGate_def seriesOf_def)
qed

definition unchanged :: "'f qosCandidate set \<Rightarrow> 'f qosCandidate set \<Rightarrow> 'f qosCandidate \<Rightarrow> bool" where
  "unchanged D M c = (qw_series ` {d \<in> M. deltaGate d = deltaGate c} = qw_series ` {d \<in> D. deltaGate d = deltaGate c})"

lemma gm_list_Cons: "gm_list ((k, vs) # m) j = (if j = k then vs else gm_list m j)"
  by (simp add: gm_list_def)

lemma map_filter_list:
  assumes "gm_wf m" and "\<And>v. F v [] = []"
  shows "gm_list (List.map_filter (\<lambda>(v, rows). if F v rows = [] then None else Some (v, F v rows)) m) k = F k (gm_list m k)"
  using assms(1)
proof (induction m)
  case Nil
  then show ?case by (simp add: gm_list_def List.map_filter_def assms(2))
next
  case (Cons e m)
  obtain v rows where e: "e = (v, rows)" by fastforce
  have wf: "gm_wf m" and none: "gm_get m v = None" using gm_wf_Cons [OF Cons.prems [unfolded e]] by simp_all
  have "gm_list m v = []" using none by (simp add: gm_list_def gm_get_def)
  then have rest: "gm_list (List.map_filter (\<lambda>(v, rows). if F v rows = [] then None else Some (v, F v rows)) m) k
      = (if k = v then [] else F k (gm_list m k))" using Cons.IH [OF wf] by (simp add: assms(2))
  show ?case
  proof (cases "F v rows = []")
    case True
    then show ?thesis unfolding e map_filter_Cons gm_list_Cons by (simp add: rest)
  next
    case False
    then show ?thesis unfolding e map_filter_Cons by (simp add: rest gm_list_Cons)
  qed
qed

lemma keep_list:
  assumes "gm_wf delta"
  shows "gm_list (keepUnchangedDeltaRows delta measured) vol =
    filter (unchanged (set (gm_list delta vol)) (set (gm_list measured vol))) (gm_list delta vol)"
proof -
  define F where "F v rows = filter (unchanged (set rows) (set (gm_list measured v))) rows" for v and rows :: "'a qosCandidate list"
  have F: "filter (\<lambda>c. seriesOf (seriesByGate (gm_list measured v)) (deltaGate c) = seriesOf (seriesByGate rows) (deltaGate c)) rows
      = F v rows" for v and rows :: "'a qosCandidate list"
    unfolding F_def unchanged_def [abs_def] seriesByGate_of ..
  have "keepUnchangedDeltaRows delta measured
      = List.map_filter (\<lambda>(v, rows). if F v rows = [] then None else Some (v, F v rows)) delta"
    unfolding keepUnchangedDeltaRows_def Let_def F ..
  then show ?thesis using map_filter_list [OF assms, of F vol] by (simp add: F_def)
qed

lemma keep_nonempty:
  "keepUnchangedDeltaRows delta measured \<noteq> [] \<longleftrightarrow> (\<exists>v. gm_list (keepUnchangedDeltaRows delta measured) v \<noteq> [])"
proof
  assume "keepUnchangedDeltaRows delta measured \<noteq> []"
  then obtain v rows rest where e: "keepUnchangedDeltaRows delta measured = (v, rows) # rest"
    by (metis list.exhaust surj_pair)
  then have "(v, rows) \<in> set (keepUnchangedDeltaRows delta measured)" by simp
  then have "rows \<noteq> []" unfolding keepUnchangedDeltaRows_def set_map_filter by (auto simp: Let_def split: if_splits)
  then show "\<exists>v. gm_list (keepUnchangedDeltaRows delta measured) v \<noteq> []" unfolding e by (auto simp: gm_list_Cons)
qed (auto simp: gm_list_def)

text \<open>
  A row of the change index survives exactly when its gate group (filer, volume, LUN and family, over every
  SVM and zone) has the same set of series among the change rows as among the measured rows: a workload
  relabelled or joined by a second poller inside the window contributes no change, and the other groups of
  the claim keep theirs.
\<close>

theorem delta_gate_exact:
  "gm_list (keepUnchangedDeltaRows (indexQoS fp keys True dq) (indexQoS fp keys True q)) vol =
     filter (\<lambda>c. qw_volume c = vol \<and>
         qw_series ` {d \<in> set (qosRows fp keys True q). deltaGate d = deltaGate c}
       = qw_series ` {d \<in> set (qosRows fp keys True dq). deltaGate d = deltaGate c}) (qosRows fp keys True dq)"
proof -
  let ?all = "\<lambda>r c. {d \<in> set (qosRows fp keys True r). deltaGate d = deltaGate c}"
  have eq: "{d \<in> set (filter (\<lambda>c. qw_volume c = vol) (qosRows fp keys True r)). deltaGate d = deltaGate c} = ?all r c"
    if "qw_volume c = vol" for r :: "'a qosVectors" and c
    using that by (auto simp: deltaGate_def)
  have "unchanged (set (filter (\<lambda>c. qw_volume c = vol) (qosRows fp keys True dq)))
       (set (filter (\<lambda>c. qw_volume c = vol) (qosRows fp keys True q))) c
      \<longleftrightarrow> qw_series ` ?all q c = qw_series ` ?all dq c" if "qw_volume c = vol" for c
    unfolding unchanged_def eq [OF that] ..
  then show ?thesis unfolding keep_list [OF indexQoS_wf(1)] indexQoS_list filter_filter by (intro filter_cong) auto
qed

section \<open>The figures do not depend on the order of rows\<close>

lemma map_filter_mset': "mset xs = mset ys \<Longrightarrow> mset (List.map_filter f xs) = mset (List.map_filter f ys)"
  unfolding List.map_filter_def by (metis mset_filter mset_map)

definition sameRows :: "'f qosVectors \<Rightarrow> 'f qosVectors \<Rightarrow> bool" where
  "sameRows q q' = (map (\<lambda>(vec, fam). (mset vec, fam)) (qosFamilies q) = map (\<lambda>(vec, fam). (mset vec, fam)) (qosFamilies q'))"

lemma sameRows_rows: "sameRows q q' \<Longrightarrow> mset (qosRows fp keys ws q) = mset (qosRows fp keys ws q')"
  by (simp add: sameRows_def qosRows_def qosFamilies_def familyRows_def map_filter_mset' [of "qv_ReadOps q"]
      map_filter_mset' [of "qv_WriteOps q"] map_filter_mset' [of "qv_ReadLatency q"] map_filter_mset' [of "qv_WriteLatency q"]
      map_filter_mset' [of "qv_ReadData q"] map_filter_mset' [of "qv_WriteData q"])

lemma sameRows_read: "sameRows q q' \<Longrightarrow> qosRead q = qosRead q'"
  by (auto simp: sameRows_def qosRead_def qosFamilies_def dest!: mset_eq_length)

lemma qosCandidatesFor_mset:
  assumes "\<And>v. mset (gm_list i v) = mset (gm_list i' v)"
  shows "mset (qosCandidatesFor vols i) = mset (qosCandidatesFor vols i')"
proof -
  have "mset (fold (\<lambda>v out. out @ gm_list i v) vols out) = mset (fold (\<lambda>v out. out @ gm_list i' v) vols out')"
    if "mset out = mset out'" for out out'
    using that by (induction vols arbitrary: out out') (simp_all add: assms)
  then show ?thesis by (simp add: qosCandidatesFor_def assms)
qed

lemma preferQoSZone_mset:
  assumes "mset C = mset C'"
  shows "mset (preferQoSZone C claim oc svm) = mset (preferQoSZone C' claim oc svm)"
  unfolding preferQoSZone_filter mset_eq_setD [OF assms] mset_filter assms ..

lemma sumQoSIO_mset:
  assumes "mset C = mset C'"
  shows "sumQoSIO A zero C = sumQoSIO A zero C'"
proof -
  have fv: "mset (familyValues C fam) = mset (familyValues C' fam)" for fam
    unfolding familyValues_def mset_map mset_filter assms ..
  have "length (familyValues C fam) = length (familyValues C' fam)" for fam using fv by (rule mset_eq_length)
  moreover have "sumIOFamily A zero (familyValues C fam) = sumIOFamily A zero (familyValues C' fam)" for fam
    using sort_perm [OF fv, of fam] mset_eq_length [OF fv, of fam] by (auto simp: sumIOFamily_def)
  ultimately show ?thesis unfolding sumQoSIO_def Let_def by (simp only:)
qed

text \<open>The policy: the smallest group with a declared ceiling, else the smallest group.\<close>

definition policiesOf :: "'f qosCandidate set \<Rightarrow> (string \<Rightarrow> bool) \<Rightarrow> string set" where
  "policiesOf C P = {p \<in> qw_policyGroup ` C. p \<noteq> [] \<and> P p}"

lemma pickPolicy_eq:
  "pickPolicy cands index oc svm =
     (let R = policiesOf (set cands) (\<lambda>p. gm_has index (oc, svm, p)) in
      if R \<noteq> {} then smallestOf R else smallestOf (policiesOf (set cands) (\<lambda>_. True)))"
proof -
  define go where "go = (\<lambda>(c :: 'a qosCandidate) (resolving, any).
          let p = qw_policyGroup c in
          if p = [] then (resolving, any)
          else
            let any = (if any = [] \<or> p < any then p else any) in
            if \<not> gm_has index (oc, svm, p) then (resolving, any)
            else (if resolving = [] \<or> p < resolving then p else resolving, any))"
  let ?R = "\<lambda>C. policiesOf C (\<lambda>p. gm_has index (oc, svm, p))"
  let ?A = "\<lambda>C. policiesOf C (\<lambda>_. True)"
  have ins: "policiesOf (insert c C) P =
      (if qw_policyGroup c \<noteq> [] \<and> P (qw_policyGroup c) then insert (qw_policyGroup c) (policiesOf C P) else policiesOf C P)"
    for c :: "'a qosCandidate" and C P by (auto simp: policiesOf_def)
  have fin: "finite C \<Longrightarrow> finite (policiesOf C P)" "[] \<notin> policiesOf C P" for C :: "'a qosCandidate set" and P
    by (auto simp: policiesOf_def)
  have "fold go cands ([], []) = (smallestOf (?R (set cands)), smallestOf (?A (set cands)))"
  proof (induction cands rule: rev_induct)
    case Nil
    then show ?case by (simp add: policiesOf_def smallestOf_def least_def)
  next
    case (snoc c cands)
    then show ?case
      using smallestOf_insert [OF fin(1) fin(2), of "set cands" "qw_policyGroup c"]
      by (simp add: go_def ins Let_def)
  qed
  moreover have "smallestOf (?R (set cands)) \<noteq> [] \<longleftrightarrow> ?R (set cands) \<noteq> {}"
    using smallestOf_Nil [of "?R (set cands)"] fin(1) [of "set cands"] fin(2) by auto
  ultimately show ?thesis by (simp add: pickPolicy_def go_def Let_def)
qed

lemma resolveCeiling_set:
  assumes "set C = set C'" and "gm_get index = gm_get index'"
  shows "resolveCeiling C index oc svm = resolveCeiling C' index' oc svm"
proof -
  have "pickPolicy C index oc svm = pickPolicy C' index' oc svm"
    unfolding pickPolicy_eq gm_has_get assms ..
  then show ?thesis unfolding resolveCeiling_def assms(2) by (simp only:)
qed

lemma indexPolicyCeilings_get:
  "gm_get (indexPolicyCeilings perMB iops mbps) k =
     (let a = least (offers policyOffer (set iops) k); b = least (offers policyOffer (set mbps) k) in
      if a = None \<and> b = None then None
      else Some (noIO\<lparr> MaxIOPS := a, MaxBytesPerSec := map_option perMB b \<rparr>))"
proof -
  have keys: "k \<in> fst ` set (pickAll (<) policyOffer rows []) \<longleftrightarrow> least (offers policyOffer (set rows) k) \<noteq> None" for rows :: "'a Row list"
    by (metis pick_least gm_has_get gm_has_iff)
  have copy: "gm_get (map (\<lambda>k. (k, f k)) ks) k = (if k \<in> set ks then Some (f k) else None)" for f ks
    by (simp add: gm_get_def map_of_map_restrict restrict_map_def)
  show ?thesis
    unfolding indexPolicyCeilings_def Let_def copy
    by (simp add: keys pick_least)
qed

end
