(* ===== verification/NetAppNodes.thy ===== *)
theory NetAppNodes
  imports NetAppQoS
begin

text \<open>
  The NetApp inventory (\<open>buildNetAppIndexes\<close> of \<open>pkg/build/netapp.go\<close>): every controller, aggregate and SVM
  any Harvest series names, built once with its health, usage, hardware and load.

  A map used as a set is the list of its keys. \<open>harvestVectors\<close> is the Harvest part of \<open>topologyVectors\<close>.
  The lemmas show that the inventory is a function of the sets of samples and that an aggregate's owner is
  always inventoried with it.
\<close>

section \<open>Keys and vectors\<close>

type_synonym aggrKey = "string \<times> string"
type_synonym svmKey = "string \<times> string"
type_synonym netappNodeKey = "string \<times> string"

definition harvestNodeKeyOf :: "'f Row \<Rightarrow> netappNodeKey option" where
  "harvestNodeKeyOf s =
     (let oc = row_str s ''cluster''; node = row_str s ''node'' in
      if oc = [] \<or> node = [] then None else Some (oc, node))"

definition aggrKeyOf :: "'f Row \<Rightarrow> aggrKey option" where
  "aggrKeyOf s =
     (let oc = row_str s ''cluster''; aggr = row_str s ''aggr'' in
      if oc = [] \<or> aggr = [] then None else Some (oc, aggr))"

record 'f harvestVectors =
  hv_VolumeLabels :: "'f Row list"
  hv_VolumeLabelsRestricted :: bool
  hv_QoS :: "'f qosVectors"
  hv_QoSDelta :: "'f qosVectors"
  hv_PolicyMaxIOPS :: "'f Row list"
  hv_PolicyMaxMBps :: "'f Row list"
  hv_AggrStatus :: "'f Row list"
  hv_AggrSpaceUsed :: "'f Row list"
  hv_AggrSpaceTotal :: "'f Row list"
  hv_NodeStatus :: "'f Row list"
  hv_NodeLabels :: "'f Row list"
  hv_NodeCPUBusy :: "'f Row list"
  hv_NodeTotalOps :: "'f Row list"
  hv_NodeTotalLatency :: "'f Row list"
  hv_NodeTotalData :: "'f Row list"

section \<open>Attributes\<close>

definition healthFromSamples :: "('f :: one) list \<Rightarrow> string" where
  "healthFromSamples vals =
     (if vals = [] then [] else if list_ex (\<lambda>v. v \<noteq> 1) vals then HealthDegraded else HealthOnline)"

definition healthBy :: "('f Row \<Rightarrow> 'k option) \<Rightarrow> ('f :: one) Row list \<Rightarrow> ('k, string) gomap" where
  "healthBy keyOf vec =
     map (\<lambda>(k, vals). (k, healthFromSamples vals))
       (fold (\<lambda>s raw. case keyOf s of None \<Rightarrow> raw | Some k \<Rightarrow> gm_append k (sm_value s) raw) vec [])"

definition healthByAggr :: "('f :: one) Row list \<Rightarrow> (aggrKey, string) gomap" where
  "healthByAggr = healthBy aggrKeyOf"

definition healthByNode :: "('f :: one) Row list \<Rightarrow> (netappNodeKey, string) gomap" where
  "healthByNode = healthBy harvestNodeKeyOf"

definition noHardware :: Hardware where
  "noHardware = \<lparr> hw_Model = [], hw_Serial = [], hw_Version = [], hw_Vendor = [], hw_Location = [] \<rparr>"

definition hardwareStep :: "'f Row \<Rightarrow> (netappNodeKey, Hardware) gomap \<Rightarrow> (netappNodeKey, Hardware) gomap" where
  "hardwareStep s acc =
     (case harvestNodeKeyOf s of
        None \<Rightarrow> acc
      | Some k \<Rightarrow>
          let h = (case gm_get acc k of None \<Rightarrow> noHardware | Some h \<Rightarrow> h) in
          gm_put k
            \<lparr> hw_Model = pickSmaller (hw_Model h) (row_str s ''model''),
              hw_Serial = pickSmaller (hw_Serial h) (row_str s ''serial''),
              hw_Version = pickSmaller (hw_Version h) (row_str s ''version''),
              hw_Vendor = pickSmaller (hw_Vendor h) (row_str s ''vendor''),
              hw_Location = pickSmaller (hw_Location h) (row_str s ''location'') \<rparr> acc)"

text \<open>A nil map and an empty one answer every lookup alike.\<close>

definition hardwareByNode :: "'f Row list \<Rightarrow> (netappNodeKey, Hardware) gomap" where
  "hardwareByNode vec = filter (\<lambda>(k, h). \<not> Hardware_Empty h) (fold hardwareStep vec [])"

definition noPerf :: "'f NodePerf" where
  "noPerf = \<lparr> CPUBusyPct = None, TotalOps = None, TotalLatencyUs = None, TotalBytesPerSec = None \<rparr>"

definition smallerOf :: "('f :: linorder) option \<Rightarrow> 'f \<Rightarrow> 'f option" where
  "smallerOf cur v = (case cur of None \<Rightarrow> Some v | Some c \<Rightarrow> if v < c then Some v else Some c)"

definition perfLegs :: "('f :: linorder) harvestVectors \<Rightarrow> ('f Row list \<times> ('f \<Rightarrow> 'f NodePerf \<Rightarrow> 'f NodePerf)) list" where
  "perfLegs v =
     [(hv_NodeCPUBusy v, \<lambda>x p. p\<lparr> CPUBusyPct := smallerOf (CPUBusyPct p) x \<rparr>),
      (hv_NodeTotalOps v, \<lambda>x p. p\<lparr> TotalOps := smallerOf (TotalOps p) x \<rparr>),
      (hv_NodeTotalLatency v, \<lambda>x p. p\<lparr> TotalLatencyUs := smallerOf (TotalLatencyUs p) x \<rparr>),
      (hv_NodeTotalData v, \<lambda>x p. p\<lparr> TotalBytesPerSec := smallerOf (TotalBytesPerSec p) x \<rparr>)]"

definition perfStep ::
  "('f \<Rightarrow> 'f NodePerf \<Rightarrow> 'f NodePerf) \<Rightarrow> 'f Row \<Rightarrow> (netappNodeKey, 'f NodePerf) gomap \<Rightarrow> (netappNodeKey, 'f NodePerf) gomap" where
  "perfStep store s acc =
     (case harvestNodeKeyOf s of
        None \<Rightarrow> acc
      | Some k \<Rightarrow> gm_put k (store (sm_value s) (case gm_get acc k of None \<Rightarrow> noPerf | Some p \<Rightarrow> p)) acc)"

definition perfByNode :: "('f :: linorder) harvestVectors \<Rightarrow> (netappNodeKey, 'f NodePerf) gomap" where
  "perfByNode v =
     filter (\<lambda>(k, p). \<not> NodePerf_Empty p) (fold (\<lambda>(vec, store). fold (perfStep store) vec) (perfLegs v) [])"

definition spaceOffer :: "'f Row \<Rightarrow> (aggrKey \<times> 'f) option" where
  "spaceOffer s = (case aggrKeyOf s of None \<Rightarrow> None | Some k \<Rightarrow> Some (k, sm_value s))"

definition usageByAggr :: "('f :: linorder) Row list \<Rightarrow> 'f Row list \<Rightarrow> (aggrKey, 'f UsageBytes) gomap" where
  "usageByAggr used cap =
     (let u = pickAll (<) spaceOffer used []; c = pickAll (<) spaceOffer cap [];
          keys = remdups (map fst u @ map fst c) in
      map (\<lambda>k. (k, \<lparr> UsedBytes = gm_get u k, CapacityBytes = gm_get c k \<rparr>)) keys)"

section \<open>Picks over the volume rows\<close>

definition pickAggr :: "volumeLabelCandidate list \<Rightarrow> string \<times> string" where
  "pickAggr cands =
     fold (\<lambda>c (oc, aggr).
        if vl_aggr c = [] \<or> vl_ontapCluster c = [] then (oc, aggr)
        else if oc = [] \<or> vl_ontapCluster c < oc \<or> vl_ontapCluster c = oc \<and> vl_aggr c < aggr
        then (vl_ontapCluster c, vl_aggr c) else (oc, aggr)) cands ([], [])"

definition pickOwner :: "volumeLabelCandidate list \<Rightarrow> string \<Rightarrow> string \<Rightarrow> string" where
  "pickOwner cands oc aggr =
     fold (\<lambda>c node.
        if vl_ontapCluster c \<noteq> oc \<or> vl_aggr c \<noteq> aggr \<or> vl_node c = [] then node
        else if node = [] \<or> vl_node c < node then vl_node c else node) cands []"

definition pickSVM :: "volumeLabelCandidate list \<Rightarrow> string \<Rightarrow> string \<times> string" where
  "pickSVM cands oc =
     fold (\<lambda>c (svmOC, svm).
        if vl_svm c = [] \<or> oc \<noteq> [] \<and> vl_ontapCluster c \<noteq> oc then (svmOC, svm)
        else if svm = [] \<or> vl_svm c < svm then (vl_ontapCluster c, vl_svm c)
        else if vl_svm c = svm \<and> vl_ontapCluster c < svmOC then (vl_ontapCluster c, svm)
        else (svmOC, svm)) cands ([], [])"

section \<open>The inventory\<close>

type_synonym volIndex = "(string, volumeLabelCandidate list) gomap"

record 'f netappIndexes =
  ni_aggrByKey :: "(aggrKey, 'f NetAppAggrNode) gomap"
  ni_nodeByKey :: "(netappNodeKey, 'f NetAppNode) gomap"
  ni_inventory :: "'f NetAppInventory"

definition entityStep ::
  "volumeLabelCandidate \<Rightarrow> netappNodeKey list \<times> aggrKey list \<times> svmKey list \<Rightarrow> netappNodeKey list \<times> aggrKey list \<times> svmKey list" where
  "entityStep c = (\<lambda>(nodes, aggrs, svms).
     if vl_ontapCluster c = [] then (nodes, aggrs, svms)
     else
       (if vl_node c \<noteq> [] then List.insert (vl_ontapCluster c, vl_node c) nodes else nodes,
        if vl_aggr c \<noteq> [] then List.insert (vl_ontapCluster c, vl_aggr c) aggrs else aggrs,
        if vl_svm c \<noteq> [] then List.insert (vl_ontapCluster c, vl_svm c) svms else svms))"

definition volumeEntities :: "volIndex \<Rightarrow> netappNodeKey list \<times> aggrKey list \<times> svmKey list" where
  "volumeEntities vi = fold (\<lambda>(_, cands). fold entityStep cands) vi ([], [], [])"

definition controllerLegs :: "'f harvestVectors \<Rightarrow> 'f Row list list" where
  "controllerLegs v =
     [hv_NodeStatus v, hv_NodeLabels v, hv_NodeCPUBusy v, hv_NodeTotalOps v, hv_NodeTotalLatency v, hv_NodeTotalData v]"

definition aggrLegs :: "'f harvestVectors \<Rightarrow> 'f Row list list" where
  "aggrLegs v = [hv_AggrStatus v, hv_AggrSpaceUsed v, hv_AggrSpaceTotal v]"

definition controllerLegStep :: "'f Row \<Rightarrow> netappNodeKey list \<Rightarrow> netappNodeKey list" where
  "controllerLegStep s nodes = (case harvestNodeKeyOf s of None \<Rightarrow> nodes | Some k \<Rightarrow> List.insert k nodes)"

definition aggrLegStep ::
  "'f Row \<Rightarrow> netappNodeKey list \<times> aggrKey list \<times> (aggrKey, string) gomap \<Rightarrow> netappNodeKey list \<times> aggrKey list \<times> (aggrKey, string) gomap" where
  "aggrLegStep s = (\<lambda>(nodes, aggrs, gaugeOwner).
     (case aggrKeyOf s of
        None \<Rightarrow> (nodes, aggrs, gaugeOwner)
      | Some k \<Rightarrow>
          let aggrs = List.insert k aggrs; node = row_str s ''node'' in
          if node \<noteq> [] then (List.insert (fst k, node) nodes, aggrs, keepBest (<) k node gaugeOwner)
          else (nodes, aggrs, gaugeOwner)))"

definition controllerNode ::
  "(netappNodeKey, string) gomap \<Rightarrow> (netappNodeKey, Hardware) gomap \<Rightarrow> (netappNodeKey, 'f NodePerf) gomap \<Rightarrow> netappNodeKey \<Rightarrow> 'f NetAppNode" where
  "controllerNode health hardware perf k =
     \<lparr> ctrl_IDValue = NetAppNodeID (fst k) (snd k), ctrl_NameValue = snd k, ctrl_LabelsValue = [(''ontap_cluster'', fst k)],
       ctrl_HealthValue = gm_str health k, ctrl_HardwareValue = gm_get hardware k, ctrl_PerfValue = gm_get perf k,
       ctrl_AlertsValue = [], ctrl_StatusValue = [] \<rparr>"

definition aggrOwner ::
  "(aggrKey, volumeLabelCandidate list) gomap \<Rightarrow> (aggrKey, string) gomap \<Rightarrow> aggrKey \<Rightarrow> string" where
  "aggrOwner allByAggr gaugeOwner k =
     (let owner = pickOwner (gm_list allByAggr k) (fst k) (snd k) in
      if owner = [] then gm_str gaugeOwner k else owner)"

definition aggrNode ::
  "(aggrKey, string) gomap \<Rightarrow> (aggrKey, 'f UsageBytes) gomap \<Rightarrow> string \<Rightarrow> aggrKey \<Rightarrow> 'f NetAppAggrNode" where
  "aggrNode health usage owner k =
     \<lparr> aggr_IDValue = NetAppAggrID (fst k) (snd k), aggr_NameValue = snd k,
       aggr_LabelsValue = (if owner \<noteq> [] then gm_put ''node'' owner [(''ontap_cluster'', fst k)] else [(''ontap_cluster'', fst k)]),
       aggr_HealthValue = gm_str health k, aggr_UsageValue = gm_get usage k, aggr_AlertsValue = [], aggr_StatusValue = [] \<rparr>"

definition svmNode :: "svmKey \<Rightarrow> NetAppSVMNode" where
  "svmNode k =
     \<lparr> svm_IDValue = NetAppSVMID (fst k) (snd k), svm_NameValue = snd k, svm_LabelsValue = [(''ontap_cluster'', fst k)] \<rparr>"

definition ownerVotes :: "volIndex \<Rightarrow> (aggrKey, volumeLabelCandidate list) gomap" where
  "ownerVotes vi =
     fold (\<lambda>(_, cands). fold (\<lambda>c m.
        if vl_aggr c = [] \<or> vl_ontapCluster c = [] then m else gm_append (vl_ontapCluster c, vl_aggr c) c m) cands) vi []"

definition netappEntities ::
  "volIndex \<Rightarrow> 'f harvestVectors \<Rightarrow> netappNodeKey list \<times> aggrKey list \<times> svmKey list \<times> (aggrKey, string) gomap" where
  "netappEntities vi v =
     (let (nodes, aggrs, svms) = volumeEntities vi;
          nodes = fold (fold controllerLegStep) (controllerLegs v) nodes;
          (nodes, aggrs, gaugeOwner) = fold (fold aggrLegStep) (aggrLegs v) (nodes, aggrs, [])
      in (nodes, aggrs, svms, gaugeOwner))"

definition buildNetAppIndexes ::
  "volIndex \<Rightarrow> (aggrKey, volumeLabelCandidate list) gomap \<Rightarrow> ('f :: {linorder, one}) harvestVectors \<Rightarrow> 'f netappIndexes" where
  "buildNetAppIndexes vi allByAggr v =
     (let aggrHealth = healthByAggr (hv_AggrStatus v);
          aggrUsage = usageByAggr (hv_AggrSpaceUsed v) (hv_AggrSpaceTotal v);
          nodeHealth = healthByNode (hv_NodeStatus v);
          nodeHardware = hardwareByNode (hv_NodeLabels v);
          nodePerf = perfByNode v;
          (nodes, aggrs, svms, gaugeOwner) = netappEntities vi v;
          nodeByKey = map (\<lambda>k. (k, controllerNode nodeHealth nodeHardware nodePerf k)) nodes;
          aggrByKey = map (\<lambda>k. (k, aggrNode aggrHealth aggrUsage (aggrOwner allByAggr gaugeOwner k) k)) aggrs
      in \<lparr> ni_aggrByKey = aggrByKey, ni_nodeByKey = nodeByKey,
           ni_inventory =
             \<lparr> inv_Nodes = sort_key ctrl_IDValue (map snd nodeByKey),
               inv_Aggrs = sort_key aggr_IDValue (map snd aggrByKey),
               inv_SVMs = sort_key svm_IDValue (map svmNode svms) \<rparr> \<rparr>)"

section \<open>The attributes as functions of the samples\<close>

lemma appendBy_get:
  "gm_get (fold (\<lambda>s raw. case keyOf s of None \<Rightarrow> raw | Some k \<Rightarrow> gm_append k (val s) raw) vec m) k =
     (let vs = map val (filter (\<lambda>s. keyOf s = Some k) vec) in if vs = [] then gm_get m k else Some (gm_list m k @ vs))"
proof (induction vec arbitrary: m)
  case (Cons s vec)
  show ?case
  proof (cases "keyOf s")
    case None
    then show ?thesis using Cons by simp
  next
    case (Some j)
    have "gm_get (gm_append j (val s) m) k = (if k = j then Some (gm_list m j @ [val s]) else gm_get m k)"
      by (simp add: gm_append_def)
    then show ?thesis using Some Cons [of "gm_append j (val s) m"] by (auto simp: gm_list_append Let_def)
  qed
qed simp

definition valuesAt :: "('f Row \<Rightarrow> 'k option) \<Rightarrow> 'f Row set \<Rightarrow> 'k \<Rightarrow> 'f set" where
  "valuesAt keyOf S k = sm_value ` {s \<in> S. keyOf s = Some k}"

definition healthOf :: "('f :: one) set \<Rightarrow> string" where
  "healthOf V = (if V = {} then [] else if V \<subseteq> {1} then HealthOnline else HealthDegraded)"

lemma healthBy_str: "gm_str (healthBy keyOf vec) k = healthOf (valuesAt keyOf (set vec) k)"
proof -
  let ?vs = "map sm_value (filter (\<lambda>s. keyOf s = Some k) vec)"
  have "gm_get (fold (\<lambda>s raw. case keyOf s of None \<Rightarrow> raw | Some k \<Rightarrow> gm_append k (sm_value s) raw) vec []) k
      = (if ?vs = [] then None else Some ?vs)"
    using appendBy_get [where keyOf = keyOf and val = sm_value and vec = vec and m = "[]" and k = k] by (simp add: Let_def gm_list_def)
  then have "gm_get (healthBy keyOf vec) k = (if ?vs = [] then None else Some (healthFromSamples ?vs))"
    unfolding healthBy_def gm_get_map_snd by simp
  moreover have "set ?vs = valuesAt keyOf (set vec) k" by (simp add: valuesAt_def)
  ultimately show ?thesis
    unfolding gm_str_get healthOf_def healthFromSamples_def by (cases ?vs) (auto simp: list_ex_iff)
qed

lemma pickSmaller_smallest:
  assumes "finite V"
  shows "pickSmaller (smallestOf (V - {[]})) v = smallestOf (insert v V - {[]})"
  using smallestOf_insert [of "V - {[]}" v] assms by (simp add: pickSmaller_def insert_Diff_if)

definition labelsSeen :: "('f Row \<Rightarrow> 'k option) \<Rightarrow> 'f Row set \<Rightarrow> 'k \<Rightarrow> string \<Rightarrow> string set" where
  "labelsSeen keyOf S k name = (\<lambda>s. row_str s name) ` {s \<in> S. keyOf s = Some k} - {[]}"

definition hardwareOf :: "'f Row set \<Rightarrow> netappNodeKey \<Rightarrow> Hardware" where
  "hardwareOf S k =
     (let pick = \<lambda>name. smallestOf (labelsSeen harvestNodeKeyOf S k name) in
      \<lparr> hw_Model = pick ''model'', hw_Serial = pick ''serial'', hw_Version = pick ''version'',
        hw_Vendor = pick ''vendor'', hw_Location = pick ''location'' \<rparr>)"

definition hardwareAt :: "(netappNodeKey, Hardware) gomap \<Rightarrow> netappNodeKey \<Rightarrow> Hardware" where
  "hardwareAt acc k = (case gm_get acc k of None \<Rightarrow> noHardware | Some h \<Rightarrow> h)"

lemma labelsSeen_insert:
  "labelsSeen keyOf (insert s S) k name =
     (if keyOf s = Some k then insert (row_str s name) ((\<lambda>s. row_str s name) ` {s \<in> S. keyOf s = Some k}) - {[]}
      else labelsSeen keyOf S k name)"
proof -
  have "{t \<in> insert s S. keyOf t = Some k} = (if keyOf s = Some k then insert s {t \<in> S. keyOf t = Some k} else {t \<in> S. keyOf t = Some k})"
    by auto
  then show ?thesis by (simp add: labelsSeen_def)
qed

lemma pick_label:
  assumes "finite S" and "keyOf s = Some k"
  shows "pickSmaller (smallestOf (labelsSeen keyOf S k name)) (row_str s name) = smallestOf (labelsSeen keyOf (insert s S) k name)"
  using assms pickSmaller_smallest [of "(\<lambda>s. row_str s name) ` {s \<in> S. keyOf s = Some k}"]
  by (simp add: labelsSeen_insert) (simp add: labelsSeen_def)

lemma hardware_fold: "hardwareAt (fold hardwareStep vec []) k = hardwareOf (set vec) k \<and> gm_wf (fold hardwareStep vec [])"
proof (induction vec arbitrary: k rule: rev_induct)
  case Nil
  then show ?case by (simp add: hardwareAt_def hardwareOf_def labelsSeen_def smallestOf_def least_def noHardware_def)
next
  case (snoc s vec)
  let ?acc = "fold hardwareStep vec []"
  show ?case
  proof (cases "harvestNodeKeyOf s")
    case None
    then show ?thesis using snoc by (simp add: hardwareStep_def hardwareOf_def labelsSeen_insert)
  next
    case (Some j)
    have at: "hardwareAt ?acc j = hardwareOf (set vec) j" using snoc by blast
    have wf: "gm_wf ?acc" using snoc [of k] by blast
    have "hardwareAt (hardwareStep s ?acc) k =
       (if k = j then (let h = hardwareAt ?acc j in
            \<lparr> hw_Model = pickSmaller (hw_Model h) (row_str s ''model''), hw_Serial = pickSmaller (hw_Serial h) (row_str s ''serial''),
              hw_Version = pickSmaller (hw_Version h) (row_str s ''version''), hw_Vendor = pickSmaller (hw_Vendor h) (row_str s ''vendor''),
              hw_Location = pickSmaller (hw_Location h) (row_str s ''location'') \<rparr>)
        else hardwareAt ?acc k)"
      by (simp add: hardwareAt_def hardwareStep_def Some Let_def)
    also have "\<dots> = hardwareOf (set (vec @ [s])) k"
    proof (cases "k = j")
      case True
      then show ?thesis unfolding at using Some by (simp add: hardwareOf_def Let_def pick_label)
    next
      case False
      then show ?thesis using snoc Some by (simp add: hardwareOf_def labelsSeen_insert)
    qed
    finally have "hardwareAt (hardwareStep s ?acc) k = hardwareOf (set (vec @ [s])) k" .
    moreover have "gm_wf (hardwareStep s ?acc)" using wf by (simp add: hardwareStep_def Some Let_def)
    ultimately show ?thesis by simp
  qed
qed

lemma filter_get:
  assumes "gm_wf m"
  shows "gm_get (filter (\<lambda>(k, v). P v) m) k = (case gm_get m k of None \<Rightarrow> None | Some v \<Rightarrow> if P v then Some v else None)"
  using assms
proof (induction m)
  case (Cons e m)
  obtain j v where e: "e = (j, v)" by fastforce
  have wf: "gm_wf m" and none: "gm_get m j = None" using gm_wf_Cons [OF Cons.prems [unfolded e]] by simp_all
  show ?case using Cons.IH [OF wf] none by (cases "k = j"; cases "P v") (simp_all add: e gm_get_Cons)
qed simp

lemma hardwareByNode_get:
  "gm_get (hardwareByNode vec) k =
     (let h = hardwareOf (set vec) k in if Hardware_Empty h then None else Some h)"
proof -
  have wf: "gm_wf (fold hardwareStep vec [])" and at: "hardwareOf (set vec) k = hardwareAt (fold hardwareStep vec []) k"
    using hardware_fold [of vec k] by simp_all
  show ?thesis unfolding at hardwareByNode_def filter_get [OF wf] hardwareAt_def
    by (simp add: noHardware_def Hardware_Empty_def split: option.split)
qed

lemma smallerOf_least: "finite V \<Longrightarrow> smallerOf (least V) x = least (insert x V)"
proof (cases "V = {}")
  case False
  assume "finite V"
  then have "Min (insert x V) = min x (Min V)" using False by (rule Min_insert)
  then have "Min (insert x V) = (if x < Min V then x else Min V)" by (metis min.absorb3 min.absorb2 not_less)
  then show ?thesis using False by (simp add: smallerOf_def least_def)
qed (simp add: smallerOf_def least_def)

definition perfOf :: "('f :: linorder) Row set \<Rightarrow> 'f Row set \<Rightarrow> 'f Row set \<Rightarrow> 'f Row set \<Rightarrow> netappNodeKey \<Rightarrow> 'f NodePerf" where
  "perfOf cpu ops lat dat k =
     \<lparr> CPUBusyPct = least (valuesAt harvestNodeKeyOf cpu k), TotalOps = least (valuesAt harvestNodeKeyOf ops k),
       TotalLatencyUs = least (valuesAt harvestNodeKeyOf lat k), TotalBytesPerSec = least (valuesAt harvestNodeKeyOf dat k) \<rparr>"

definition perfAt :: "(netappNodeKey, 'f NodePerf) gomap \<Rightarrow> netappNodeKey \<Rightarrow> 'f NodePerf" where
  "perfAt acc k = (case gm_get acc k of None \<Rightarrow> noPerf | Some p \<Rightarrow> p)"

lemma perfStep_at:
  "perfAt (perfStep f s acc) k = (if harvestNodeKeyOf s = Some k then f (sm_value s) (perfAt acc k) else perfAt acc k)"
  by (auto simp: perfAt_def perfStep_def split: option.split)

lemma perfStep_wf: "gm_wf acc \<Longrightarrow> gm_wf (fold (perfStep f) vec acc)"
  by (induction vec arbitrary: acc) (auto simp: perfStep_def split: option.split)

lemma valuesAt_insert:
  "valuesAt keyOf (insert s S) k = (if keyOf s = Some k then insert (sm_value s) (valuesAt keyOf S k) else valuesAt keyOf S k)"
  by (auto simp: valuesAt_def)

text \<open>One leg fills its own field and leaves the others.\<close>

lemma leg_fold:
  assumes sel: "\<And>x p. sel (f x p) = smallerOf (sel p) x" and other: "\<And>x p. other (f x p) = other p"
  shows "sel (perfAt acc k) = None \<Longrightarrow> sel (perfAt (fold (perfStep f) vec acc) k) = least (valuesAt harvestNodeKeyOf (set vec) k)"
    and "other (perfAt (fold (perfStep f) vec acc) k) = other (perfAt acc k)"
proof -
  show "other (perfAt (fold (perfStep f) vec acc) k) = other (perfAt acc k)"
    by (induction vec rule: rev_induct) (simp_all add: perfStep_at other)
  assume none: "sel (perfAt acc k) = None"
  show "sel (perfAt (fold (perfStep f) vec acc) k) = least (valuesAt harvestNodeKeyOf (set vec) k)"
  proof (induction vec rule: rev_induct)
    case Nil
    then show ?case using none by (simp add: valuesAt_def least_def)
  next
    case (snoc s vec)
    have "finite (valuesAt harvestNodeKeyOf (set vec) k)" by (simp add: valuesAt_def)
    from smallerOf_least [OF this, of "sm_value s"] show ?case using snoc by (simp add: perfStep_at sel valuesAt_insert)
  qed
qed

lemma perfByNode_get:
  "gm_get (perfByNode v) k =
     (let p = perfOf (set (hv_NodeCPUBusy v)) (set (hv_NodeTotalOps v)) (set (hv_NodeTotalLatency v)) (set (hv_NodeTotalData v)) k in
      if NodePerf_Empty p then None else Some p)"
proof -
  define acc where "acc = fold (\<lambda>(vec, store). fold (perfStep store) vec) (perfLegs v) []"
  have wf: "gm_wf acc" by (simp add: acc_def perfLegs_def perfStep_wf)
  have start: "perfAt [] k = noPerf" by (simp add: perfAt_def)
  have at: "perfOf (set (hv_NodeCPUBusy v)) (set (hv_NodeTotalOps v)) (set (hv_NodeTotalLatency v)) (set (hv_NodeTotalData v)) k
      = perfAt acc k"
    unfolding acc_def perfLegs_def perfOf_def
    by (rule sym, rule NodePerf.equality)
      (simp_all add: leg_fold [where sel = CPUBusyPct] leg_fold [where sel = TotalOps] leg_fold [where sel = TotalLatencyUs]
        leg_fold [where sel = TotalBytesPerSec] start noPerf_def)
  show ?thesis unfolding at perfByNode_def acc_def [symmetric] filter_get [OF wf] perfAt_def
    by (simp add: noPerf_def NodePerf_Empty_def split: option.split)
qed

lemma copy_get: "gm_get (map (\<lambda>k. (k, f k)) ks) k = (if k \<in> set ks then Some (f k) else None)"
  by (simp add: gm_get_def map_of_map_restrict restrict_map_def)

lemma picked_keys: "k \<in> fst ` set (pickAll (<) offer rows []) \<longleftrightarrow> least (offers offer (set rows) k) \<noteq> None"
  by (metis pick_least gm_has_get gm_has_iff)

lemma usageByAggr_get:
  "gm_get (usageByAggr used cap) k =
     (let u = least (offers spaceOffer (set used) k); c = least (offers spaceOffer (set cap) k) in
      if u = None \<and> c = None then None else Some \<lparr> UsedBytes = u, CapacityBytes = c \<rparr>)"
  unfolding usageByAggr_def Let_def copy_get by (simp add: picked_keys pick_least)

section \<open>The picks as functions of the candidates\<close>

lemma pickOwner_eq:
  "pickOwner cands oc aggr =
     smallestOf (vl_node ` {c \<in> set cands. vl_ontapCluster c = oc \<and> vl_aggr c = aggr} - {[]})"
proof (induction cands rule: rev_induct)
  case Nil
  then show ?case by (simp add: pickOwner_def smallestOf_def least_def)
next
  case (snoc c cands)
  let ?S = "{d \<in> set cands. vl_ontapCluster d = oc \<and> vl_aggr d = aggr}"
  have step: "pickOwner (cands @ [c]) oc aggr =
      (if vl_ontapCluster c = oc \<and> vl_aggr c = aggr then pickSmaller (pickOwner cands oc aggr) (vl_node c) else pickOwner cands oc aggr)"
    by (simp add: pickOwner_def pickSmaller_def)
  have "{d \<in> set (cands @ [c]). vl_ontapCluster d = oc \<and> vl_aggr d = aggr}
      = (if vl_ontapCluster c = oc \<and> vl_aggr c = aggr then insert c ?S else ?S)" by auto
  then show ?case unfolding step snoc using pickSmaller_smallest [of "vl_node ` ?S" "vl_node c"] by simp
qed

definition leastPair :: "(string \<times> string) set \<Rightarrow> string \<times> string" where
  "leastPair V = (case least V of None \<Rightarrow> ([], []) | Some p \<Rightarrow> p)"

definition aggrsOffered :: "volumeLabelCandidate set \<Rightarrow> (string \<times> string) set" where
  "aggrsOffered C = {p. \<exists>c\<in>C. p = (vl_ontapCluster c, vl_aggr c) \<and> vl_ontapCluster c \<noteq> [] \<and> vl_aggr c \<noteq> []}"

definition svmsOffered :: "volumeLabelCandidate set \<Rightarrow> string \<Rightarrow> (string \<times> string) set" where
  "svmsOffered C oc = {p. \<exists>c\<in>C. p = (vl_svm c, vl_ontapCluster c) \<and> vl_svm c \<noteq> [] \<and> (oc = [] \<or> vl_ontapCluster c = oc)}"

lemma least_insert': "finite V \<Longrightarrow> least (insert x V) = (case least V of None \<Rightarrow> Some x | Some y \<Rightarrow> if x < y then Some x else Some y)"
  using smallerOf_least [of V x] by (simp add: smallerOf_def)

lemma offered_finite: "finite C \<Longrightarrow> finite (aggrsOffered C)" "finite C \<Longrightarrow> finite (svmsOffered C oc)"
proof -
  assume fin: "finite C"
  show "finite (aggrsOffered C)"
    by (rule finite_subset [of _ "(\<lambda>c. (vl_ontapCluster c, vl_aggr c)) ` C"]) (auto simp: aggrsOffered_def fin)
  show "finite (svmsOffered C oc)"
    by (rule finite_subset [of _ "(\<lambda>c. (vl_svm c, vl_ontapCluster c)) ` C"]) (auto simp: svmsOffered_def fin)
qed

lemma pickAggr_eq: "pickAggr cands = leastPair (aggrsOffered (set cands))"
proof (induction cands rule: rev_induct)
  case Nil
  then show ?case by (simp add: pickAggr_def leastPair_def aggrsOffered_def least_def)
next
  case (snoc c cands)
  let ?V = "aggrsOffered (set cands)"
  have V: "aggrsOffered (set (cands @ [c])) =
      (if vl_ontapCluster c \<noteq> [] \<and> vl_aggr c \<noteq> [] then insert (vl_ontapCluster c, vl_aggr c) ?V else ?V)"
    by (auto simp: aggrsOffered_def)
  have fin: "finite ?V" by (simp add: offered_finite)
  have ne: "fst p \<noteq> []" if "least ?V = Some p" for p using least_in [OF fin that] by (auto simp: aggrsOffered_def)
  have step: "pickAggr (cands @ [c]) = (case pickAggr cands of (oc, aggr) \<Rightarrow>
        if vl_aggr c = [] \<or> vl_ontapCluster c = [] then (oc, aggr)
        else if oc = [] \<or> vl_ontapCluster c < oc \<or> vl_ontapCluster c = oc \<and> vl_aggr c < aggr
        then (vl_ontapCluster c, vl_aggr c) else (oc, aggr))"
    by (simp add: pickAggr_def)
  show ?case unfolding step V snoc using ne
    by (cases "least ?V") (auto simp: leastPair_def least_insert' [OF fin] less_prod_def split: prod.splits)
qed

lemma pickSVM_eq: "pickSVM cands oc = prod.swap (leastPair (svmsOffered (set cands) oc))"
proof (induction cands rule: rev_induct)
  case Nil
  then show ?case by (simp add: pickSVM_def leastPair_def svmsOffered_def least_def)
next
  case (snoc c cands)
  let ?V = "svmsOffered (set cands) oc"
  have V: "svmsOffered (set (cands @ [c])) oc =
      (if vl_svm c \<noteq> [] \<and> (oc = [] \<or> vl_ontapCluster c = oc) then insert (vl_svm c, vl_ontapCluster c) ?V else ?V)"
    by (auto simp: svmsOffered_def)
  have fin: "finite ?V" by (simp add: offered_finite)
  have ne: "fst p \<noteq> []" if "least ?V = Some p" for p using least_in [OF fin that] by (auto simp: svmsOffered_def)
  have step: "pickSVM (cands @ [c]) oc = (case pickSVM cands oc of (svmOC, svm) \<Rightarrow>
        if vl_svm c = [] \<or> oc \<noteq> [] \<and> vl_ontapCluster c \<noteq> oc then (svmOC, svm)
        else if svm = [] \<or> vl_svm c < svm then (vl_ontapCluster c, vl_svm c)
        else if vl_svm c = svm \<and> vl_ontapCluster c < svmOC then (vl_ontapCluster c, svm)
        else (svmOC, svm))"
    by (simp add: pickSVM_def)
  show ?case unfolding step V snoc using ne
    by (cases "least ?V") (auto simp: leastPair_def least_insert' [OF fin] less_prod_def split: prod.splits)
qed


section \<open>The inventory as a function of the samples\<close>

definition volumeCands :: "volIndex \<Rightarrow> volumeLabelCandidate set" where
  "volumeCands vi = set (concat (map snd vi))"

lemma fold_entries: "fold (\<lambda>(_, cands). fold f cands) vi st = fold f (concat (map snd vi)) st"
  by (induction vi arbitrary: st) auto

lemma fold_legs: "fold (fold f) legs st = fold f (concat legs) st"
  by (induction legs arbitrary: st) auto

definition volumeNodes :: "volumeLabelCandidate set \<Rightarrow> netappNodeKey set" where
  "volumeNodes C = {(oc, n). oc \<noteq> [] \<and> n \<noteq> [] \<and> (oc, n) \<in> (\<lambda>c. (vl_ontapCluster c, vl_node c)) ` C}"

definition volumeAggrs :: "volumeLabelCandidate set \<Rightarrow> aggrKey set" where
  "volumeAggrs C = {(oc, a). oc \<noteq> [] \<and> a \<noteq> [] \<and> (oc, a) \<in> (\<lambda>c. (vl_ontapCluster c, vl_aggr c)) ` C}"

definition volumeSVMs :: "volumeLabelCandidate set \<Rightarrow> svmKey set" where
  "volumeSVMs C = {(oc, s). oc \<noteq> [] \<and> s \<noteq> [] \<and> (oc, s) \<in> (\<lambda>c. (vl_ontapCluster c, vl_svm c)) ` C}"

lemma entityStep_sets:
  assumes "entityStep c (nodes, aggrs, svms) = (nodes', aggrs', svms')"
  shows "set nodes' = set nodes \<union> volumeNodes {c}" "set aggrs' = set aggrs \<union> volumeAggrs {c}"
    "set svms' = set svms \<union> volumeSVMs {c}" "distinct nodes' = distinct nodes" "distinct aggrs' = distinct aggrs"
    "distinct svms' = distinct svms"
  using assms by (auto simp: entityStep_def volumeNodes_def volumeAggrs_def volumeSVMs_def split: if_splits)

lemma volume_sets_insert:
  "volumeNodes (insert c C) = volumeNodes {c} \<union> volumeNodes C" "volumeAggrs (insert c C) = volumeAggrs {c} \<union> volumeAggrs C"
  "volumeSVMs (insert c C) = volumeSVMs {c} \<union> volumeSVMs C"
  by (auto simp: volumeNodes_def volumeAggrs_def volumeSVMs_def)

lemma entity_fold:
  "fold entityStep cs (nodes, aggrs, svms) = (nodes', aggrs', svms') \<Longrightarrow>
     set nodes' = set nodes \<union> volumeNodes (set cs) \<and> set aggrs' = set aggrs \<union> volumeAggrs (set cs)
     \<and> set svms' = set svms \<union> volumeSVMs (set cs)
     \<and> distinct nodes' = distinct nodes \<and> distinct aggrs' = distinct aggrs \<and> distinct svms' = distinct svms"
proof (induction cs arbitrary: nodes aggrs svms)
  case Nil
  then show ?case by (simp add: volumeNodes_def volumeAggrs_def volumeSVMs_def)
next
  case (Cons c cs)
  obtain n a v where st: "entityStep c (nodes, aggrs, svms) = (n, a, v)" by (metis prod_cases3)
  have "fold entityStep cs (n, a, v) = (nodes', aggrs', svms')" using Cons.prems st by simp
  from Cons.IH [OF this] show ?case
    unfolding list.set volume_sets_insert [of c "set cs"] using entityStep_sets [OF st] by (simp only: Un_assoc simp_thms)
qed

definition legNodes :: "'f harvestVectors \<Rightarrow> netappNodeKey set" where
  "legNodes v = {k. Some k \<in> harvestNodeKeyOf ` set (concat (controllerLegs v))}"

definition legAggrs :: "'f harvestVectors \<Rightarrow> aggrKey set" where
  "legAggrs v = {k. Some k \<in> aggrKeyOf ` set (concat (aggrLegs v))}"

text \<open>What an aggregate gauge says about an owner.\<close>

definition gaugeOffer :: "'f Row \<Rightarrow> (aggrKey \<times> string) option" where
  "gaugeOffer s =
     (case aggrKeyOf s of None \<Rightarrow> None | Some k \<Rightarrow> if row_str s ''node'' = [] then None else Some (k, row_str s ''node''))"

definition gaugeOwners :: "'f harvestVectors \<Rightarrow> aggrKey \<Rightarrow> string set" where
  "gaugeOwners v k = offers gaugeOffer (set (concat (aggrLegs v))) k"

definition gaugeNodes :: "'f harvestVectors \<Rightarrow> netappNodeKey set" where
  "gaugeNodes v = {(oc, n). \<exists>a. n \<in> gaugeOwners v (oc, a)}"

lemma controllerLeg_fold:
  "set (fold controllerLegStep rows nodes) = set nodes \<union> {k. Some k \<in> harvestNodeKeyOf ` set rows}
   \<and> distinct (fold controllerLegStep rows nodes) = distinct nodes"
proof (induction rows arbitrary: nodes)
  case (Cons s rows)
  have "set (controllerLegStep s nodes) = set nodes \<union> {k. harvestNodeKeyOf s = Some k}"
    "distinct (controllerLegStep s nodes) = distinct nodes"
    by (auto simp: controllerLegStep_def split: option.splits)
  then show ?case using Cons [of "controllerLegStep s nodes"] by auto
qed simp

lemma aggrLeg_fold:
  "fold aggrLegStep rows (nodes, aggrs, g) = (nodes', aggrs', g') \<Longrightarrow>
     set nodes' = set nodes \<union> {(oc, n). \<exists>a. n \<in> offers gaugeOffer (set rows) (oc, a)}
     \<and> set aggrs' = set aggrs \<union> {k. Some k \<in> aggrKeyOf ` set rows}
     \<and> g' = pickAll (<) gaugeOffer rows g \<and> distinct nodes' = distinct nodes \<and> distinct aggrs' = distinct aggrs"
proof (induction rows arbitrary: nodes aggrs g)
  case Nil
  then show ?case by (auto simp: pickAll_simps)
next
  case (Cons s rows)
  obtain n a h where st: "aggrLegStep s (nodes, aggrs, g) = (n, a, h)" by (metis prod_cases3)
  have 1: "set n = set nodes \<union> {(oc, n). \<exists>a. gaugeOffer s = Some ((oc, a), n)}" "set a = set aggrs \<union> {k. aggrKeyOf s = Some k}"
    "h = (case gaugeOffer s of None \<Rightarrow> g | Some (k, v) \<Rightarrow> keepBest (<) k v g)"
    "distinct n = distinct nodes" "distinct a = distinct aggrs"
    using st by (auto simp: aggrLegStep_def gaugeOffer_def Let_def split: option.splits if_splits)
  have "fold aggrLegStep rows (n, a, h) = (nodes', aggrs', g')" using Cons.prems st by simp
  note IH = Cons.IH [OF this]
  have o: "offers gaugeOffer (set (s # rows)) k = {v. gaugeOffer s = Some (k, v)} \<union> offers gaugeOffer (set rows) k" for k
    by (auto simp: offers_def)
  have i: "{k. Some k \<in> aggrKeyOf ` set (s # rows)} = {k. aggrKeyOf s = Some k} \<union> {k. Some k \<in> aggrKeyOf ` set rows}" by auto
  show ?case unfolding o i pickAll_simps using IH 1 by auto
qed

definition namedNodes :: "volumeLabelCandidate set \<Rightarrow> 'f harvestVectors \<Rightarrow> netappNodeKey set" where
  "namedNodes C v = volumeNodes C \<union> legNodes v \<union> gaugeNodes v"

definition namedAggrs :: "volumeLabelCandidate set \<Rightarrow> 'f harvestVectors \<Rightarrow> aggrKey set" where
  "namedAggrs C v = volumeAggrs C \<union> legAggrs v"

lemma netappEntities_sets:
  assumes "netappEntities vi v = (nodes, aggrs, svms, g)"
  shows "set nodes = namedNodes (volumeCands vi) v" "set aggrs = namedAggrs (volumeCands vi) v"
    "set svms = volumeSVMs (volumeCands vi)" "distinct nodes" "distinct aggrs" "distinct svms"
    "gm_get g k = least (gaugeOwners v k)"
proof -
  obtain n a s where vol: "volumeEntities vi = (n, a, s)" by (metis prod_cases3)
  define n' where "n' = fold controllerLegStep (concat (controllerLegs v)) n"
  obtain n2 a2 g2 where leg: "fold aggrLegStep (concat (aggrLegs v)) (n', a, []) = (n2, a2, g2)" by (metis prod_cases3)
  have e: "nodes = n2" "aggrs = a2" "svms = s" "g = g2"
    using assms leg by (simp_all add: netappEntities_def vol fold_legs n'_def Let_def)
  have 1: "set n = volumeNodes (volumeCands vi)" "set a = volumeAggrs (volumeCands vi)" "set s = volumeSVMs (volumeCands vi)"
    "distinct n" "distinct a" "distinct s"
    using entity_fold [of "concat (map snd vi)" "[]" "[]" "[]" n a s] vol
    by (simp_all add: volumeEntities_def fold_entries volumeCands_def)
  have 2: "set n' = set n \<union> legNodes v" "distinct n' = distinct n"
    using controllerLeg_fold [of "concat (controllerLegs v)" n] by (simp_all only: n'_def legNodes_def)
  note 3 = aggrLeg_fold [OF leg]
  show "set nodes = namedNodes (volumeCands vi) v" using 1(1) 2(1) 3 by (simp add: e namedNodes_def gaugeNodes_def gaugeOwners_def)
  show "set aggrs = namedAggrs (volumeCands vi) v" using 1(2) 3 by (simp add: e namedAggrs_def legAggrs_def)
  show "set svms = volumeSVMs (volumeCands vi)" "distinct svms" using 1(3,6) by (simp_all add: e)
  show "distinct nodes" "distinct aggrs" using 1(4,5) 2(2) 3 by (simp_all add: e)
  show "gm_get g k = least (gaugeOwners v k)" using 3 by (simp add: e pick_least gaugeOwners_def)
qed

lemma ownerVotes_list:
  assumes "fst k \<noteq> []" and "snd k \<noteq> []"
  shows "set (gm_list (ownerVotes vi) k) = {c \<in> volumeCands vi. (vl_ontapCluster c, vl_aggr c) = k}"
proof -
  have "gm_list (fold (\<lambda>c m. if vl_aggr c = [] \<or> vl_ontapCluster c = [] then m else gm_append (vl_ontapCluster c, vl_aggr c) c m) cs m) k
      = gm_list m k @ filter (\<lambda>c. (vl_ontapCluster c, vl_aggr c) = k) cs" for cs m
    using assms by (induction cs arbitrary: m) (auto simp: gm_list_append)
  from this [of "concat (map snd vi)" "[]"]
  have "gm_list (ownerVotes vi) k = filter (\<lambda>c. (vl_ontapCluster c, vl_aggr c) = k) (concat (map snd vi))"
    unfolding ownerVotes_def fold_entries by (simp add: gm_list_def [of "[]"])
  then show ?thesis unfolding volumeCands_def by simp
qed

text \<open>The owner: the smallest controller the volume rows name, else the smallest the gauges name.\<close>

definition ownerOf :: "volumeLabelCandidate set \<Rightarrow> 'f harvestVectors \<Rightarrow> aggrKey \<Rightarrow> string" where
  "ownerOf C v k =
     (let votes = vl_node ` {c \<in> C. (vl_ontapCluster c, vl_aggr c) = k} - {[]} in
      if votes = {} then smallestOf (gaugeOwners v k) else smallestOf votes)"

lemma smallestOf_in: "finite V \<Longrightarrow> V \<noteq> {} \<Longrightarrow> smallestOf V \<in> V"
  using Min_in [of V] by (simp add: smallestOf_def least_def del: Min_in)

lemma gaugeOwners_finite: "finite (gaugeOwners v k)"
  unfolding gaugeOwners_def by (rule offers_finite [OF finite_set])

lemma aggrOwner_eq:
  assumes "fst k \<noteq> []" and "snd k \<noteq> []" and g: "gm_get g k = least (gaugeOwners v k)"
  shows "aggrOwner (ownerVotes vi) g k = ownerOf (volumeCands vi) v k"
proof -
  let ?votes = "vl_node ` {c \<in> volumeCands vi. (vl_ontapCluster c, vl_aggr c) = k} - {[]}"
  have "{c \<in> set (gm_list (ownerVotes vi) k). vl_ontapCluster c = fst k \<and> vl_aggr c = snd k}
      = {c \<in> volumeCands vi. (vl_ontapCluster c, vl_aggr c) = k}"
    unfolding ownerVotes_list [OF assms(1,2)] by auto
  then have pick: "pickOwner (gm_list (ownerVotes vi) k) (fst k) (snd k) = smallestOf ?votes" unfolding pickOwner_eq by simp
  have "finite ?votes" by (simp add: volumeCands_def)
  then have "smallestOf ?votes = [] \<longleftrightarrow> ?votes = {}" by (rule smallestOf_Nil) simp
  moreover have "gm_str g k = smallestOf (gaugeOwners v k)" by (simp add: gm_str_get g smallestOf_def)
  ultimately show ?thesis by (simp add: aggrOwner_def pick ownerOf_def Let_def)
qed

lemma owner_is_named:
  assumes "fst k \<noteq> []" and "snd k \<noteq> []" and "finite C" and "ownerOf C v k \<noteq> []"
  shows "(fst k, ownerOf C v k) \<in> namedNodes C v"
proof (cases "vl_node ` {c \<in> C. (vl_ontapCluster c, vl_aggr c) = k} - {[]} = {}")
  case True
  then have o: "ownerOf C v k = smallestOf (gaugeOwners v k)" by (simp add: ownerOf_def)
  then have "gaugeOwners v k \<noteq> {}" using assms(4) by (auto simp: smallestOf_def least_def)
  then have "ownerOf C v k \<in> gaugeOwners v k" unfolding o by (rule smallestOf_in [OF gaugeOwners_finite])
  then show ?thesis by (auto simp: namedNodes_def gaugeNodes_def intro: exI [of _ "snd k"])
next
  case False
  let ?votes = "vl_node ` {c \<in> C. (vl_ontapCluster c, vl_aggr c) = k} - {[]}"
  have "ownerOf C v k = smallestOf ?votes" using False by (simp add: ownerOf_def Let_def)
  then have "ownerOf C v k \<in> ?votes" using smallestOf_in [OF _ False] assms(3) by simp
  then show ?thesis using assms(1) by (auto simp: namedNodes_def volumeNodes_def)
qed

text \<open>The entities as the samples describe them.\<close>

definition controllerSpec :: "('f :: {linorder, one}) harvestVectors \<Rightarrow> netappNodeKey \<Rightarrow> 'f NetAppNode" where
  "controllerSpec v k =
     \<lparr> ctrl_IDValue = NetAppNodeID (fst k) (snd k), ctrl_NameValue = snd k, ctrl_LabelsValue = [(''ontap_cluster'', fst k)],
       ctrl_HealthValue = healthOf (valuesAt harvestNodeKeyOf (set (hv_NodeStatus v)) k),
       ctrl_HardwareValue = (let h = hardwareOf (set (hv_NodeLabels v)) k in if Hardware_Empty h then None else Some h),
       ctrl_PerfValue = (let p = perfOf (set (hv_NodeCPUBusy v)) (set (hv_NodeTotalOps v)) (set (hv_NodeTotalLatency v))
           (set (hv_NodeTotalData v)) k in if NodePerf_Empty p then None else Some p),
       ctrl_AlertsValue = [], ctrl_StatusValue = [] \<rparr>"

definition aggrSpec :: "volumeLabelCandidate set \<Rightarrow> ('f :: {linorder, one}) harvestVectors \<Rightarrow> aggrKey \<Rightarrow> 'f NetAppAggrNode" where
  "aggrSpec C v k =
     \<lparr> aggr_IDValue = NetAppAggrID (fst k) (snd k), aggr_NameValue = snd k,
       aggr_LabelsValue = (''ontap_cluster'', fst k) # (if ownerOf C v k = [] then [] else [(''node'', ownerOf C v k)]),
       aggr_HealthValue = healthOf (valuesAt aggrKeyOf (set (hv_AggrStatus v)) k),
       aggr_UsageValue = (let u = least (offers spaceOffer (set (hv_AggrSpaceUsed v)) k);
           c = least (offers spaceOffer (set (hv_AggrSpaceTotal v)) k) in
         if u = None \<and> c = None then None else Some \<lparr> UsedBytes = u, CapacityBytes = c \<rparr>),
       aggr_AlertsValue = [], aggr_StatusValue = [] \<rparr>"

lemma named_keys:
  "k \<in> namedAggrs C v \<Longrightarrow> fst k \<noteq> [] \<and> snd k \<noteq> []" "k \<in> namedNodes C v \<Longrightarrow> fst k \<noteq> [] \<and> snd k \<noteq> []"
  by (auto simp: namedAggrs_def namedNodes_def volumeAggrs_def volumeNodes_def legAggrs_def legNodes_def gaugeNodes_def
      gaugeOwners_def offers_def gaugeOffer_def aggrKeyOf_def harvestNodeKeyOf_def Let_def split: if_splits option.splits)

lemma controllerSpec_id: "ctrl_IDValue (controllerSpec v k) = NetAppNodeID (fst k) (snd k)"
  by (simp add: controllerSpec_def)

lemma ownerID_aggrSpec:
  "ownerID (Aggr (aggrSpec C v k)) = (if fst k \<noteq> [] \<and> ownerOf C v k \<noteq> [] then Some (NetAppNodeID (fst k) (ownerOf C v k)) else None)"
  by (simp add: ownerID_def aggrSpec_def gm_str_def)

lemma owner_inventoried:
  assumes "k \<in> namedAggrs C v" and "finite C" and "ownerOf C v k \<noteq> []"
  shows "NetAppNodeID (fst k) (ownerOf C v k) \<in> ctrl_IDValue ` controllerSpec v ` namedNodes C v"
proof (rule image_eqI)
  show "NetAppNodeID (fst k) (ownerOf C v k) = ctrl_IDValue (controllerSpec v (fst k, ownerOf C v k))"
    by (simp add: controllerSpec_id)
  show "controllerSpec v (fst k, ownerOf C v k) \<in> controllerSpec v ` namedNodes C v"
    using owner_is_named [OF _ _ assms(2,3)] named_keys(1) [OF assms(1)] by blast
qed

lemma indexes_eq:
  obtains nodes aggrs svms where
    "buildNetAppIndexes vi (ownerVotes vi) v =
       \<lparr> ni_aggrByKey = map (\<lambda>k. (k, aggrSpec (volumeCands vi) v k)) aggrs, ni_nodeByKey = map (\<lambda>k. (k, controllerSpec v k)) nodes,
         ni_inventory =
           \<lparr> inv_Nodes = sort_key ctrl_IDValue (map (controllerSpec v) nodes),
             inv_Aggrs = sort_key aggr_IDValue (map (aggrSpec (volumeCands vi) v) aggrs),
             inv_SVMs = sort_key svm_IDValue (map svmNode svms) \<rparr> \<rparr>"
    "set nodes = namedNodes (volumeCands vi) v" "set aggrs = namedAggrs (volumeCands vi) v"
    "set svms = volumeSVMs (volumeCands vi)" "distinct nodes" "distinct aggrs" "distinct svms"
proof -
  obtain nodes aggrs svms g where e: "netappEntities vi v = (nodes, aggrs, svms, g)" by (metis prod_cases4)
  note E = netappEntities_sets [OF e]
  have ctrl: "controllerNode (healthByNode (hv_NodeStatus v)) (hardwareByNode (hv_NodeLabels v)) (perfByNode v) k = controllerSpec v k" for k
    by (simp add: controllerNode_def controllerSpec_def healthByNode_def healthBy_str hardwareByNode_get perfByNode_get)
  have aggr: "aggrNode (healthByAggr (hv_AggrStatus v)) (usageByAggr (hv_AggrSpaceUsed v) (hv_AggrSpaceTotal v))
      (aggrOwner (ownerVotes vi) g k) k = aggrSpec (volumeCands vi) v k" if "k \<in> set aggrs" for k
  proof -
    have "fst k \<noteq> []" "snd k \<noteq> []" using named_keys(1) [of k "volumeCands vi" v] that E(2) by simp_all
    then have "aggrOwner (ownerVotes vi) g k = ownerOf (volumeCands vi) v k" by (rule aggrOwner_eq [OF _ _ E(7)])
    then show ?thesis by (simp add: aggrNode_def aggrSpec_def healthByAggr_def healthBy_str usageByAggr_get gm_put_new)
  qed
  show ?thesis
  proof (rule that)
    show "buildNetAppIndexes vi (ownerVotes vi) v =
       \<lparr> ni_aggrByKey = map (\<lambda>k. (k, aggrSpec (volumeCands vi) v k)) aggrs, ni_nodeByKey = map (\<lambda>k. (k, controllerSpec v k)) nodes,
         ni_inventory =
           \<lparr> inv_Nodes = sort_key ctrl_IDValue (map (controllerSpec v) nodes),
             inv_Aggrs = sort_key aggr_IDValue (map (aggrSpec (volumeCands vi) v) aggrs),
             inv_SVMs = sort_key svm_IDValue (map svmNode svms) \<rparr> \<rparr>"
      using aggr by (simp add: buildNetAppIndexes_def e ctrl Let_def comp_def cong: map_cong)
  qed (use E in simp_all)
qed

text \<open>
  C40: the inventory is a function of the sets of samples: one controller, aggregate and SVM per pair of names
  any series carries, with every attribute computed from the samples of that pair alone; an aggregate's owner
  is the smallest controller its volumes name, else the smallest its gauges name, and that controller is
  always inventoried, so the aggregate's parent never dangles.
\<close>

theorem inventory_exact:
  "let held = ni_inventory (buildNetAppIndexes vi (ownerVotes vi) v) in
    set (inv_Nodes held) = controllerSpec v ` namedNodes (volumeCands vi) v \<and>
    set (inv_Aggrs held) = aggrSpec (volumeCands vi) v ` namedAggrs (volumeCands vi) v \<and>
    set (inv_SVMs held) = svmNode ` volumeSVMs (volumeCands vi) \<and>
    {c. Some c \<in> (\<lambda>a. ownerID (Aggr a)) ` set (inv_Aggrs held)} \<subseteq> ctrl_IDValue ` set (inv_Nodes held)"
proof -
  obtain nodes aggrs svms where E: "buildNetAppIndexes vi (ownerVotes vi) v =
       \<lparr> ni_aggrByKey = map (\<lambda>k. (k, aggrSpec (volumeCands vi) v k)) aggrs, ni_nodeByKey = map (\<lambda>k. (k, controllerSpec v k)) nodes,
         ni_inventory =
           \<lparr> inv_Nodes = sort_key ctrl_IDValue (map (controllerSpec v) nodes),
             inv_Aggrs = sort_key aggr_IDValue (map (aggrSpec (volumeCands vi) v) aggrs),
             inv_SVMs = sort_key svm_IDValue (map svmNode svms) \<rparr> \<rparr>"
    and sets: "set nodes = namedNodes (volumeCands vi) v" "set aggrs = namedAggrs (volumeCands vi) v"
      "set svms = volumeSVMs (volumeCands vi)"
    by (rule indexes_eq)
  let ?C = "volumeCands vi"
  have fin: "finite ?C" by (simp add: volumeCands_def)
  have "{c. Some c \<in> (\<lambda>a. ownerID (Aggr a)) ` aggrSpec ?C v ` namedAggrs ?C v} \<subseteq> ctrl_IDValue ` controllerSpec v ` namedNodes ?C v"
  proof
    fix c assume "c \<in> {c. Some c \<in> (\<lambda>a. ownerID (Aggr a)) ` aggrSpec ?C v ` namedAggrs ?C v}"
    then obtain k where k: "k \<in> namedAggrs ?C v" "Some c = ownerID (Aggr (aggrSpec ?C v k))" by blast
    then have "ownerOf ?C v k \<noteq> []" "c = NetAppNodeID (fst k) (ownerOf ?C v k)" by (simp_all add: ownerID_aggrSpec split: if_splits)
    then show "c \<in> ctrl_IDValue ` controllerSpec v ` namedNodes ?C v" using owner_inventoried [OF k(1) fin] by simp
  qed
  then show ?thesis unfolding E Let_def by (simp add: sets)
qed

end
