(* ===== verification/StorageWeights.thy ===== *)
theory StorageWeights
  imports StorageProjection
begin

text \<open>
  What the weights and the contents of the storage-flow view mean: the correctness of
  \<open>sumUnitShares\<close>, \<open>weightRetained\<close> and \<open>ProjectStorage\<close> (\<open>pkg/graph/project_storage.go\<close>).

  The figures of an edge are, for every arithmetic, the left-to-right sum of the shares of the units
  passing through it in (claim, pod) order. In exact arithmetic the sums are conserved from tier to
  tier: what flows into a claim, a pod, an SVM or an aggregate of the view flows out of it.
\<close>

section \<open>Shares\<close>

definition flowFigures :: "('f IOMetrics \<Rightarrow> 'f option) set" where
  "flowFigures = {ReadOps, WriteOps, ReadBytesPerSec, WriteBytesPerSec}"

definition changeOf :: "(('f IOMetrics \<Rightarrow> 'f option) \<times> ('f IOMetrics \<Rightarrow> 'f option)) set" where
  "changeOf = {(ReadOps, ReadOpsDelta), (WriteOps, WriteOpsDelta),
     (ReadBytesPerSec, ReadBytesPerSecDelta), (WriteBytesPerSec, WriteBytesPerSecDelta)}"

lemma scaleFlow_eq:
  "scaleFlow A (Some m) n =
     (if n > 0 \<and> (ReadOps m \<noteq> None \<or> WriteOps m \<noteq> None \<or> ReadBytesPerSec m \<noteq> None \<or> WriteBytesPerSec m \<noteq> None)
      then (let f = fofint A n in Some (noIO\<lparr>
        ReadOps := divPtr A (ReadOps m) f, WriteOps := divPtr A (WriteOps m) f,
        ReadBytesPerSec := divPtr A (ReadBytesPerSec m) f, WriteBytesPerSec := divPtr A (WriteBytesPerSec m) f,
        ReadOpsDelta := (if ReadOps m = None then None else divPtr A (ReadOpsDelta m) f),
        WriteOpsDelta := (if WriteOps m = None then None else divPtr A (WriteOpsDelta m) f),
        ReadBytesPerSecDelta := (if ReadBytesPerSec m = None then None else divPtr A (ReadBytesPerSecDelta m) f),
        WriteBytesPerSecDelta := (if WriteBytesPerSec m = None then None else divPtr A (WriteBytesPerSecDelta m) f) \<rparr>))
      else None)"
  by (cases "ReadOps m"; cases "WriteOps m"; cases "ReadBytesPerSec m"; cases "WriteBytesPerSec m")
    (simp_all add: scaleFlow_def divPtr_def noIO_def Let_def)

definition shareOf :: "'f Arith \<Rightarrow> ('f IOMetrics \<Rightarrow> 'f option) \<Rightarrow> 'f flowUnit \<Rightarrow> 'f option" where
  "shareOf A sel u = Option.bind (scaleFlow A (unit_io u) (mounters u)) sel"

lemma shareOf_figure:
  assumes "sel \<in> flowFigures" and "mounters u > 0"
  shows "shareOf A sel u = divPtr A (Option.bind (unit_io u) sel) (fofint A (mounters u))"
proof (cases "unit_io u")
  case (Some m)
  then show ?thesis using assms
    by (auto simp: shareOf_def flowFigures_def scaleFlow_eq Let_def divPtr_def)
qed (simp add: shareOf_def scaleFlow_def divPtr_def)

text \<open>A change is never shared out without its base figure.\<close>

lemma shareOf_change:
  assumes "(sel, dlt) \<in> changeOf" and "shareOf A sel u = None"
  shows "shareOf A dlt u = None"
proof (cases "unit_io u")
  case (Some m)
  then show ?thesis using assms
    by (auto simp: shareOf_def changeOf_def scaleFlow_eq Let_def divPtr_def noIO_def split: if_splits)
qed (simp add: shareOf_def scaleFlow_def)

definition summed :: "('f IOMetrics \<Rightarrow> 'f option) set" where
  "summed = flowFigures \<union> snd ` changeOf"

lemma summed_simps:
  assumes "sel \<in> summed"
  shows "sel noIO = None" and "sel (addShare A acc m) = addPtr A (sel acc) (sel m)"
    and "sel (acc\<lparr> ReadLatencyUs := a, WriteLatencyUs := b, ReadLatencyUsDelta := c, WriteLatencyUsDelta := d,
               MaxIOPS := i, MaxBytesPerSec := j \<rparr>) = sel acc"
  using assms
  by (auto simp: summed_def flowFigures_def changeOf_def addShare_def noIO_def)

lemma addPtr_None [simp]: "addPtr A d None = d"
  by (simp add: addPtr_def)

lemma shareStep_sum:
  assumes "sel \<in> summed"
  shows "sel (fst (fold (shareStep A t) us st)) = fold (\<lambda>u d. addPtr A d (shareOf A sel u)) us (sel (fst st))"
proof (induction us arbitrary: st)
  case (Cons u us)
  have "sel (fst (shareStep A t u st)) = addPtr A (sel (fst st)) (shareOf A sel u)"
    by (cases st) (simp add: shareOf_def summed_simps(2) [OF assms] split: option.split)
  then show ?case using Cons.IH by simp
qed simp

lemma shareStep_filled:
  "fst (snd (fold (shareStep A t) us st)) =
     (fst (snd st) \<or> (\<exists>u\<in>set us. scaleFlow A (unit_io u) (mounters u) \<noteq> None \<or> t \<and> hasLatency (unit_io u)))"
proof (induction us arbitrary: st)
  case (Cons u us)
  have "fst (snd (shareStep A t u st)) =
      (fst (snd st) \<or> scaleFlow A (unit_io u) (mounters u) \<noteq> None \<or> t \<and> hasLatency (unit_io u))"
    by (cases st) (auto split: option.split)
  then show ?case using Cons.IH by auto
qed simp

text \<open>
  The sum of an edge, for every arithmetic: the shares are added one by one in the order of the
  units, starting from no figure at all.
\<close>

lemma sumUnitShares_figure:
  assumes "sel \<in> summed"
  shows "Option.bind (sumUnitShares A e us) sel = fold (\<lambda>u d. addPtr A d (shareOf A sel u)) us None"
proof -
  let ?r = "fold (shareStep A (tier e = StorageTierSVMPVC)) us (noIO, False, None)"
  obtain acc fl c where r: "?r = (acc, fl, c)" by (metis surj_pair)
  have sum: "sel acc = fold (\<lambda>u d. addPtr A d (shareOf A sel u)) us None"
    using shareStep_sum [OF assms, of A "tier e = StorageTierSVMPVC" us "(noIO, False, None)"] r
      summed_simps(1) [OF assms] by simp
  show ?thesis
  proof (cases fl)
    case True
    then show ?thesis using r sum
      by (simp add: sumUnitShares_def summed_simps(3) [OF assms] split: option.split)
  next
    case False
    then have "\<forall>u\<in>set us. shareOf A sel u = None"
      using shareStep_filled [of A "tier e = StorageTierSVMPVC" us "(noIO, False, None)"] r
      by (simp add: shareOf_def)
    then have "fold (\<lambda>u d. addPtr A d (shareOf A sel u)) us None = None"
      by (induction us) auto
    then show ?thesis using r False by (simp add: sumUnitShares_def)
  qed
qed

section \<open>Exact sums\<close>

definition figure :: "(rat IOMetrics \<Rightarrow> rat option) \<Rightarrow> rat IOMetrics option \<Rightarrow> rat" where
  "figure sel io = (case Option.bind io sel of None \<Rightarrow> 0 | Some x \<Rightarrow> x)"

definition share :: "(rat IOMetrics \<Rightarrow> rat option) \<Rightarrow> rat flowUnit \<Rightarrow> rat" where
  "share sel u = figure sel (unit_io u) / of_int (mounters u)"

lemma fold_addPtr_exact:
  "(case fold (\<lambda>u d. addPtr exact d (f u)) us d0 of None \<Rightarrow> 0 | Some x \<Rightarrow> x)
     = (case d0 of None \<Rightarrow> 0 | Some x \<Rightarrow> x) + sum_list (map (\<lambda>u. case f u of None \<Rightarrow> 0 | Some x \<Rightarrow> x) us)"
proof (induction us arbitrary: d0)
  case (Cons u us)
  then show ?case
    by (auto simp: addPtr_def exact_def split: option.splits)
qed simp

lemma sumUnitShares_exact:
  assumes "sel \<in> flowFigures" and "\<forall>u\<in>set us. mounters u > 0"
  shows "figure sel (sumUnitShares exact e us) = sum_list (map (share sel) us)"
proof -
  have "sel \<in> summed" using assms(1) by (simp add: summed_def)
  then have "figure sel (sumUnitShares exact e us)
      = sum_list (map (\<lambda>u. case shareOf exact sel u of None \<Rightarrow> 0 | Some x \<Rightarrow> x) us)"
    using fold_addPtr_exact [of "shareOf exact sel" us None]
    by (simp add: figure_def sumUnitShares_figure)
  moreover have "(case shareOf exact sel u of None \<Rightarrow> 0 | Some x \<Rightarrow> x) = share sel u" if "u \<in> set us" for u
    using that assms by (cases "Option.bind (unit_io u) sel")
      (simp_all add: shareOf_figure share_def figure_def divPtr_def exact_def)
  ultimately show ?thesis by (simp cong: map_cong)
qed

lemma sum_list_by_key:
  assumes "finite K" and "key ` set hs \<subseteq> K"
  shows "(\<Sum>k\<in>K. sum_list (map f (filter (\<lambda>h. key h = k) hs))) = (sum_list (map f hs) :: rat)"
  using assms
proof (induction hs)
  case (Cons h hs)
  have "(\<Sum>k\<in>K. sum_list (map f (filter (\<lambda>h. key h = k) (h # hs))))
      = (\<Sum>k\<in>K. (if k = key h then f h else 0) + sum_list (map f (filter (\<lambda>h. key h = k) hs)))"
    by (rule sum.cong) auto
  also have "\<dots> = f h + sum_list (map f hs)"
    using Cons by (simp add: sum.distrib)
  finally show ?case by simp
qed simp

lemma through_same:
  assumes "flow_pairs g" and "h \<in> set (through (retainedUnits g scope) k)"
    and "h' \<in> set (through (retainedUnits g scope) k)"
  shows "snd h = snd h'"
proof -
  have h: "fst h \<in> set (extractFlowUnits g)" "snd h \<in> set (unit_edges (fst h))" "ends (snd h) = k"
    and h': "fst h' \<in> set (extractFlowUnits g)" "snd h' \<in> set (unit_edges (fst h'))" "ends (snd h') = k"
    using assms(2,3) by (auto simp: through_in intro: retained_in)
  show ?thesis
    using flow_pairs_unique [OF assms(1) unit_edge_graph(1) [OF h(1,2)] unit_edge_graph(1) [OF h'(1,2)]
        unit_edge_graph(2) [OF h(1,2)] unit_edge_graph(2) [OF h'(1,2)]] h(3) h'(3) by simp
qed

lemma mounters_pos: "u \<in> set (extractFlowUnits g) \<Longrightarrow> mounters u > 0"
  by (auto simp: units_iff claimMounts_def split: if_splits option.splits)

text \<open>
  The figures of a selection of edges of the view add up to the shares of the retained units, once
  for every selected edge of the unit's path.
\<close>

lemma flow_sum:
  fixes g :: "rat Graph" and scope :: StorageScope
  assumes pairs: "flow_pairs g" and sel: "sel \<in> flowFigures"
    and Q: "\<And>mkid e io. Q (projectedEdge mkid e io) = Q e"
  defines "R \<equiv> retainedUnits g scope"
  shows "sum_list (map (\<lambda>x. figure sel (EIO x)) (filter Q (weightRetained mkid exact R)))
     = sum_list (map (\<lambda>u. of_nat (length (filter Q (unit_edges u))) * share sel u) R)"
proof -
  let ?T = "fold pairStep (hops R) []"
  let ?F = "\<lambda>(k, e, c). projectedEdge mkid e (sumUnitShares exact e (sort_key unitKey c))"
  let ?w = "\<lambda>x. if Q x then figure sel (EIO x) else 0"
  let ?hs = "filter (\<lambda>h. Q (snd h)) (hops R)"
  let ?G = "\<lambda>k. sum_list (map (\<lambda>h. share sel (fst h)) (filter (\<lambda>h. ends (snd h) = k) ?hs))"
  have dist: "distinct (map fst ?T)" using conjunct1 [OF pair_table] by (simp add: gm_wf_def)
  have entry: "?w (?F t) = ?G (fst t)" if t: "t \<in> set ?T" for t
  proof -
    obtain k e c where kec: "t = (k, e, c)" by (cases t) auto
    have "gm_get ?T k = Some (e, c)" using gm_in_get [OF conjunct1 [OF pair_table]] t kec by blast
    then obtain h r where h: "through R k = h # r" "e = snd h" "c = map fst (through R k)"
      unfolding conjunct2 [OF pair_table] through_def by (auto split: list.splits)
    have all: "\<forall>h'\<in>set (through R k). Q (snd h') = Q e"
      using through_same [OF pairs, of h scope k] h(1,2) by (force simp: R_def)
    have "filter (\<lambda>h. ends (snd h) = k) ?hs = filter (\<lambda>h. Q (snd h)) (through R k)"
      by (simp add: through_def conj_commute)
    also have "\<dots> = (if Q e then through R k else [])"
      using all by (simp add: filter_id_conv filter_empty_conv)
    finally have G: "?G k = (if Q e then sum_list (map (share sel) c) else 0)"
      by (simp add: h(3) comp_def)
    have "\<forall>u\<in>set c. mounters u > 0"
      using h(3) mounters_pos retained_in by (fastforce simp: through_in R_def)
    then have "figure sel (sumUnitShares exact e (sort_key unitKey c)) = sum_list (map (share sel) (sort_key unitKey c))"
      using sel by (intro sumUnitShares_exact) auto
    also have "\<dots> = sum_list (map (share sel) c)"
      by (metis mset_map mset_sort sum_mset_sum_list)
    finally show ?thesis using G Q by (simp add: kec)
  qed
  have "sum_list (map (\<lambda>x. figure sel (EIO x)) (filter Q (weightRetained mkid exact R))) = sum_list (map (\<lambda>t. ?w (?F t)) ?T)"
    unfolding weightRetained_def by (simp add: sum_list_map_filter' comp_def)
  also have "\<dots> = sum_list (map (\<lambda>t. ?G (fst t)) ?T)" using entry by (simp cong: map_cong)
  also have "\<dots> = (\<Sum>k\<in>fst ` set ?T. ?G k)"
    using dist sum_list_distinct_conv_sum_set [of "map fst ?T" ?G] by (simp add: comp_def)
  also have "\<dots> = sum_list (map (\<lambda>h. share sel (fst h)) ?hs)"
  proof (rule sum_list_by_key)
    show "(\<lambda>h. ends (snd h)) ` set ?hs \<subseteq> fst ` set ?T"
    proof (rule image_subsetI)
      fix h assume "h \<in> set ?hs"
      then have "filter (\<lambda>h'. ends (snd h') = ends (snd h)) (hops R) \<noteq> []"
        by (auto simp: filter_empty_conv)
      then obtain v where "gm_get ?T (ends (snd h)) = Some v"
        using conjunct2 [OF pair_table, of "hops R" "ends (snd h)"]
        by (cases "filter (\<lambda>h'. ends (snd h') = ends (snd h)) (hops R)") auto
      then show "ends (snd h) \<in> fst ` set ?T" by (force dest: gm_get_in)
    qed
  qed simp
  also have "\<dots> = sum_list (map (\<lambda>u. of_nat (length (filter Q (unit_edges u))) * share sel u) R)"
    unfolding hops_def by (induction R) (simp_all add: filter_map comp_def sum_list_triv)
  finally show ?thesis .
qed

section \<open>What flows into and out of a node of the view\<close>

definition inflow :: "(rat IOMetrics \<Rightarrow> rat option) \<Rightarrow> string \<Rightarrow> string \<Rightarrow> rat View \<Rightarrow> rat" where
  "inflow sel t i v =
     sum_list (map (\<lambda>x. figure sel (EIO x)) (filter (\<lambda>x. tier x = t \<and> Target x = i) (view_Edges v)))"

definition outflow :: "(rat IOMetrics \<Rightarrow> rat option) \<Rightarrow> string \<Rightarrow> string \<Rightarrow> rat View \<Rightarrow> rat" where
  "outflow sel t i v =
     sum_list (map (\<lambda>x. figure sel (EIO x)) (filter (\<lambda>x. tier x = t \<and> Source x = i) (view_Edges v)))"

text \<open>The hop of a unit on one tier.\<close>

definition tierHop :: "'f Graph \<Rightarrow> 'f Edge \<Rightarrow> 'f Edge option \<Rightarrow> string \<Rightarrow> 'f Edge list" where
  "tierHop g claim pe t =
     (if t = StorageTierSVMPVC then [claim]
      else if t = StorageTierPVCPod then (case pe of None \<Rightarrow> [] | Some e \<Rightarrow> [e])
      else if t = StorageTierAggrSVM then aggrHop g claim
      else if t = StorageTierNodeAggr then ctrlHop g claim
      else if t = StorageTierPodNode then podHop g pe
      else [])"

lemma unit_tier_hop:
  assumes "claim \<in> set (tierEdges g StorageTierSVMPVC)" and "pe \<in> set (claimMounts g claim)"
  shows "filter (\<lambda>e. tier e = t \<and> P e) (unit_edges (unitOf g claim pe)) = filter P (tierHop g claim pe t)"
proof -
  have const: "filter (\<lambda>e. tier e = t \<and> P e) xs = (if t = t' then filter P xs else [])"
    if "\<forall>e\<in>set xs. tier e = t'" for xs :: "'a Edge list" and t'
    using that by (induction xs) auto
  have tiers: "\<forall>e\<in>set (aggrHop g claim). tier e = StorageTierAggrSVM"
    "\<forall>e\<in>set (ctrlHop g claim). tier e = StorageTierNodeAggr"
    "\<forall>e\<in>set (podHop g pe). tier e = StorageTierPodNode"
    "\<forall>e\<in>set (case pe of None \<Rightarrow> [] | Some e \<Rightarrow> [e]). tier e = StorageTierPVCPod"
    "\<forall>e\<in>set [claim]. tier e = StorageTierSVMPVC"
    using assms claimMounts_in(1) [of _ g claim] aggrHop_in(1) [of _ g claim] ctrlHop_in(1) [of _ g claim]
      podHop_in(1) [of _ g pe]
    by (auto simp: tierEdges_in split: option.splits)
  have "unit_edges (unitOf g claim pe)
      = [claim] @ (case pe of None \<Rightarrow> [] | Some e \<Rightarrow> [e]) @ aggrHop g claim @ ctrlHop g claim @ podHop g pe"
    by (simp add: unitOf_edges)
  then show ?thesis
    unfolding filter_append by (simp only: filter_append const [OF tiers(1)] const [OF tiers(2)]
        const [OF tiers(3)] const [OF tiers(4)] const [OF tiers(5)] tierHop_def) simp
qed

lemma sum_list_perm:
  fixes f :: "'a \<Rightarrow> rat"
  assumes "mset xs = mset ys"
  shows "sum_list (map f xs) = sum_list (map f ys)"
proof -
  have "sum_mset (mset (map f xs)) = sum_mset (mset (map f ys))" using assms by simp
  then show ?thesis by (simp only: sum_mset_sum_list)
qed

lemma view_sum:
  fixes g :: "rat Graph"
  assumes wf: "wf_graph g" and pairs: "flow_pairs g" and sel: "sel \<in> flowFigures"
    and P: "\<And>mkid e io. P (projectedEdge mkid e io) = P e"
  shows "sum_list (map (\<lambda>x. figure sel (EIO x))
           (filter (\<lambda>x. tier x = t \<and> P x) (view_Edges (ProjectStorage mkid exact (Some g) scope))))
     = sum_list (map (\<lambda>u. of_nat (length (filter (\<lambda>x. tier x = t \<and> P x) (unit_edges u))) * share sel u)
           (retainedUnits g scope))"
proof -
  let ?W = "weightRetained mkid exact (retainedUnits g scope)" and ?Q = "\<lambda>x. tier x = t \<and> P x"
  have "mset (view_Edges (ProjectStorage mkid exact (Some g) scope)) = mset ?W"
    by (simp add: ProjectStorage_nodes(4) [OF wf] edge_sort.srt_mset)
  then have "sum_list (map (\<lambda>x. figure sel (EIO x)) (filter ?Q (view_Edges (ProjectStorage mkid exact (Some g) scope))))
      = sum_list (map (\<lambda>x. figure sel (EIO x)) (filter ?Q ?W))"
    by (intro sum_list_perm) simp
  also have "\<dots> = sum_list (map (\<lambda>u. of_nat (length (filter ?Q (unit_edges u))) * share sel u)
           (retainedUnits g scope))"
    by (rule flow_sum [OF pairs sel]) (simp only: tier_projected P)
  finally show ?thesis .
qed

lemma inflow_units:
  fixes g :: "rat Graph"
  assumes "wf_graph g" and "flow_pairs g" and "sel \<in> flowFigures"
  shows "inflow sel t i (ProjectStorage mkid exact (Some g) scope)
     = sum_list (map (\<lambda>u. of_nat (length (filter (\<lambda>e. tier e = t \<and> Target e = i) (unit_edges u))) * share sel u)
           (retainedUnits g scope))"
  unfolding inflow_def by (rule view_sum [OF assms]) simp

lemma outflow_units:
  fixes g :: "rat Graph"
  assumes "wf_graph g" and "flow_pairs g" and "sel \<in> flowFigures"
  shows "outflow sel t i (ProjectStorage mkid exact (Some g) scope)
     = sum_list (map (\<lambda>u. of_nat (length (filter (\<lambda>e. tier e = t \<and> Source e = i) (unit_edges u))) * share sel u)
           (retainedUnits g scope))"
  unfolding outflow_def by (rule view_sum [OF assms]) simp

text \<open>
  A node through which every unit that enters on one tier leaves on another conserves its flow.
\<close>

lemma conserved:
  fixes g :: "rat Graph"
  assumes g: "wf_graph g" "flow_pairs g" "sel \<in> flowFigures"
    and hop: "\<And>claim pe. claim \<in> set (tierEdges g StorageTierSVMPVC) \<Longrightarrow> pe \<in> set (claimMounts g claim) \<Longrightarrow>
       length (filter (\<lambda>e. Target e = i) (tierHop g claim pe t))
         = length (filter (\<lambda>e. Source e = i) (tierHop g claim pe t'))"
  shows "inflow sel t i (ProjectStorage mkid exact (Some g) scope)
       = outflow sel t' i (ProjectStorage mkid exact (Some g) scope)"
proof -
  have "length (filter (\<lambda>e. tier e = t \<and> Target e = i) (unit_edges u))
      = length (filter (\<lambda>e. tier e = t' \<and> Source e = i) (unit_edges u))"
    if u: "u \<in> set (retainedUnits g scope)" for u
  proof -
    obtain claim pe where c: "claim \<in> set (tierEdges g StorageTierSVMPVC)"
      "pe \<in> set (claimMounts g claim)" "u = unitOf g claim pe"
      using retained_in [OF u] by (auto simp: units_iff)
    show ?thesis using hop [OF c(1,2)] by (simp only: c(3) unit_tier_hop [OF c(1,2)])
  qed
  then show ?thesis unfolding inflow_units [OF g] outflow_units [OF g] by (simp cong: map_cong)
qed

lemma claimAggr_hop:
  assumes "claimAggr g claim \<noteq> []"
    and "\<exists>e\<in>set (tierEdges g StorageTierAggrSVM). ends e = (claimAggr g claim, Source claim)"
  shows "\<exists>e. aggrHop g claim = [e]"
proof -
  have "find (\<lambda>e. (Source e, Target e) = (claimAggr g claim, Source claim))
      (rev (tierEdges g StorageTierAggrSVM)) \<noteq> None"
    using assms(2) by (auto simp: find_None_iff ends_def)
  then show ?thesis using assms(1) by (auto simp: aggrHop_def ix_lookups)
qed

lemma claimAggr_ctrlHop:
  assumes "storage_closed g" and "\<exists>e\<in>set (tierEdges g StorageTierNodeAggr). Target e = claimAggr g claim"
  shows "\<exists>e. ctrlHop g claim = [e]"
proof -
  have "find (\<lambda>e. Target e = claimAggr g claim) (rev (tierEdges g StorageTierNodeAggr)) \<noteq> None"
    using assms(2) by (auto simp: find_None_iff)
  then obtain e where e: "find (\<lambda>e. Target e = claimAggr g claim) (rev (tierEdges g StorageTierNodeAggr)) = Some e"
    by blast
  then have "Source e \<noteq> []"
    using storage_closedD(1) [OF assms(1)] find_rev_SomeD [OF e] by (auto simp: tierEdges_in)
  with e show ?thesis by (auto simp: ctrlHop_def ix_lookups)
qed

definition scheduled :: "'f Graph \<Rightarrow> string \<Rightarrow> bool" where
  "scheduled g p =
     (let es = filter (\<lambda>e. Source e = p) (tierEdges g StorageTierPodNode)
      in es \<noteq> [] \<and> list_all (\<lambda>e. gm_has (NodesByID g) (Target e)) es)"

lemma scheduled_hop:
  assumes "scheduled g (Target e)"
  shows "\<exists>ne. podHop g (Some e) = [ne]"
proof -
  have "find (\<lambda>ne. Source ne = Target e) (rev (tierEdges g StorageTierPodNode)) \<noteq> None"
    using assms by (auto simp: scheduled_def Let_def find_None_iff filter_empty_conv)
  then obtain ne where ne: "find (\<lambda>ne. Source ne = Target e) (rev (tierEdges g StorageTierPodNode)) = Some ne"
    by blast
  then have "gm_has (NodesByID g) (Target ne)"
    using assms find_rev_SomeD [OF ne] by (auto simp: scheduled_def Let_def list_all_iff)
  with ne show ?thesis by (simp add: podHop_def nodeHop_def ix_lookups)
qed

text \<open>An aggregate owned by a controller, and an SVM, every claim of which has its aggr-svm hop.\<close>

definition chained :: "'f Graph \<Rightarrow> 'f Edge \<Rightarrow> bool" where
  "chained g claim =
     (claimAggr g claim \<noteq> []
      \<and> list_ex (\<lambda>e. ends e = (claimAggr g claim, Source claim)) (tierEdges g StorageTierAggrSVM))"

definition svm_chained :: "'f Graph \<Rightarrow> string \<Rightarrow> bool" where
  "svm_chained g s = list_all (chained g) (filter (\<lambda>c. Source c = s) (tierEdges g StorageTierSVMPVC))"

definition aggr_chained :: "'f Graph \<Rightarrow> string \<Rightarrow> bool" where
  "aggr_chained g a =
     (list_ex (\<lambda>e. Target e = a) (tierEdges g StorageTierNodeAggr)
      \<and> list_all (chained g) (filter (\<lambda>c. claimAggr g c = a) (tierEdges g StorageTierSVMPVC)))"

lemma tierHop_simps:
  "tierHop g claim pe StorageTierSVMPVC = [claim]"
  "tierHop g claim pe StorageTierPVCPod = (case pe of None \<Rightarrow> [] | Some e \<Rightarrow> [e])"
  "tierHop g claim pe StorageTierAggrSVM = aggrHop g claim"
  "tierHop g claim pe StorageTierNodeAggr = ctrlHop g claim"
  "tierHop g claim pe StorageTierPodNode = podHop g pe"
  by (simp_all add: tierHop_def)

lemma hop_count:
  "\<forall>e\<in>set xs. P e = b \<Longrightarrow> length (filter P xs) = (if b then length xs else 0)"
  by (induction xs) auto

section \<open>The edges of the view, one by one\<close>

lemma view_edge_in:
  assumes "wf_graph g" and "x \<in> set (view_Edges (ProjectStorage mkid A (Some g) scope))"
  shows "x \<in> set (weightRetained mkid A (retainedUnits g scope))"
  using assms by (simp add: ProjectStorage_nodes(4))

lemma StorageView_edge_sum:
  assumes "wf_graph g" and "flow_pairs g"
    and "x \<in> set (view_Edges (ProjectStorage mkid A (Some g) scope))"
  obtains e us where "e \<in> set (Edges g)" "EType e = EdgeTypeStorageFlow" "tier e \<in> set StorageTiers"
    "mset us = mset (filter (\<lambda>u. e \<in> set (unit_edges u)) (retainedUnits g scope))"
    "us \<noteq> []" "sorted (map unitKey us)"
    "x = projectedEdge mkid e (sumUnitShares A e us)"
proof -
  let ?R = "retainedUnits g scope"
  obtain e u where e: "e \<in> set (Edges g)" "EType e = EdgeTypeStorageFlow" "tier e \<in> set StorageTiers"
    "u \<in> set ?R" "e \<in> set (unit_edges u)"
    "\<And>h. h \<in> set (through ?R (ends e)) \<Longrightarrow> snd h = e"
    "x = projectedEdge mkid e (sumUnitShares A e (sort_key unitKey (map fst (through ?R (ends e)))))"
    using StorageView_edge [OF assms(2) view_edge_in [OF assms(1,3)]] by blast
  have count: "length (filter (\<lambda>e'. ends e' = ends e) (unit_edges v)) = (if e \<in> set (unit_edges v) then 1 else 0)"
    if v: "v \<in> set ?R" for v
  proof -
    obtain claim pe where c: "claim \<in> set (tierEdges g StorageTierSVMPVC)"
      "pe \<in> set (claimMounts g claim)" "v = unitOf g claim pe"
      using retained_in [OF v] by (auto simp: units_iff)
    have same: "e' \<in> set (unit_edges v) \<Longrightarrow> ends e' = ends e \<longleftrightarrow> e' = e" for e'
      using e(6) [of "(v, e')"] v by (auto simp: through_in)
    have "filter (\<lambda>e'. ends e' = ends e) (unit_edges v) = filter (\<lambda>e'. e' = e) (unit_edges v)"
      by (rule filter_cong) (simp_all add: same)
    also have "\<dots> = filter (\<lambda>e'. tier e' = tier e \<and> e' = e) (unit_edges v)"
      by (rule filter_cong) auto
    also have "\<dots> = filter (\<lambda>e'. e' = e) (tierHop g claim pe (tier e))"
      by (simp only: c(3) unit_tier_hop [OF c(1,2)])
    finally have f: "filter (\<lambda>e'. ends e' = ends e) (unit_edges v) = filter (\<lambda>e'. e' = e) (tierHop g claim pe (tier e))" .
    have "length (tierHop g claim pe (tier e)) \<le> 1"
      by (auto simp: tierHop_def aggrHop_def ctrlHop_def podHop_def nodeHop_def split: option.split)
    then have "length (filter (\<lambda>e'. ends e' = ends e) (unit_edges v)) \<le> 1"
      unfolding f by (meson length_filter_le le_trans)
    moreover have "filter (\<lambda>e'. ends e' = ends e) (unit_edges v) = [] \<longleftrightarrow> e \<notin> set (unit_edges v)"
      using same by (auto simp: filter_empty_conv)
    ultimately show ?thesis by (cases "filter (\<lambda>e'. ends e' = ends e) (unit_edges v)") auto
  qed
  have "map fst (filter (\<lambda>h. ends (snd h) = ends e) (hops us)) = filter (\<lambda>u. e \<in> set (unit_edges u)) us"
    if "set us \<subseteq> set ?R" for us
    using that
  proof (induction us)
    case (Cons v us)
    have "map fst (filter (\<lambda>h. ends (snd h) = ends e) (map (Pair v) es)) = replicate (length (filter (\<lambda>e'. ends e' = ends e) es)) v" for es
      by (induction es) auto
    from this [of "unit_edges v"] count [of v] Cons
    show ?case by (cases "e \<in> set (unit_edges v)") (simp_all add: hops_def)
  qed (simp add: hops_def)
  then have us: "map fst (through ?R (ends e)) = filter (\<lambda>u. e \<in> set (unit_edges u)) ?R"
    by (simp add: through_def)
  show ?thesis
  proof (rule that [OF e(1,2,3)])
    show "mset (sort_key unitKey (filter (\<lambda>u. e \<in> set (unit_edges u)) ?R))
        = mset (filter (\<lambda>u. e \<in> set (unit_edges u)) ?R)" by simp
    show "x = projectedEdge mkid e (sumUnitShares A e (sort_key unitKey (filter (\<lambda>u. e \<in> set (unit_edges u)) ?R)))"
      using e(7) us by simp
    show "sort_key unitKey (filter (\<lambda>u. e \<in> set (unit_edges u)) ?R) \<noteq> []"
      using e(4,5) by (metis (mono_tags, lifting) filter_empty_conv set_empty set_sort)
  qed (simp only: sk.srt_sorted)
qed

text \<open>A claim-level edge lies on the units of its own claim only.\<close>

lemma claim_edge_units:
  assumes "u \<in> set (extractFlowUnits g)" and "e \<in> set (unit_edges u)" and "tier e = StorageTierSVMPVC"
  shows "\<exists>pe\<in>set (claimMounts g e). u = unitOf g e pe"
proof -
  obtain claim pe where c: "claim \<in> set (tierEdges g StorageTierSVMPVC)"
    "pe \<in> set (claimMounts g claim)" "u = unitOf g claim pe" using assms(1) by (auto simp: units_iff)
  have "e \<in> set (filter (\<lambda>e. tier e = StorageTierSVMPVC \<and> True) (unit_edges u))" using assms by simp
  then have "e = claim" unfolding c(3) unit_tier_hop [OF c(1,2)] by (simp add: tierHop_simps)
  with c show ?thesis by blast
qed

lemma claimIO_first:
  assumes "\<forall>u\<in>set us. unit_io u = io" and "fold (shareStep A t) us (acc0, fl, c) = (acc, fl', c')"
    and "c = None \<or> c = io"
  shows "c' = None \<or> c' = io" and "fl' \<Longrightarrow> \<not> fl \<Longrightarrow> c' = io"
proof -
  have "(c' = None \<or> c' = io) \<and> (fl' \<and> (\<not> fl \<or> c = io) \<longrightarrow> c' = io)"
    using assms
  proof (induction us arbitrary: acc0 fl c)
    case (Cons u us)
    obtain a1 f1 c1 where st: "shareStep A t u (acc0, fl, c) = (a1, f1, c1)" by (metis surj_pair)
    have "c1 = None \<or> c1 = io" "f1 \<Longrightarrow> \<not> fl \<or> c = io \<Longrightarrow> c1 = io"
      using st Cons.prems(1,3) by (auto split: option.splits if_splits)
    moreover have "\<not> f1 \<Longrightarrow> \<not> fl" using st by (auto split: option.splits if_splits)
    ultimately show ?case using Cons.IH [of a1 f1 c1] Cons.prems(1,2) st by auto
  qed auto
  then show "c' = None \<or> c' = io" "fl' \<Longrightarrow> \<not> fl \<Longrightarrow> c' = io" by auto
qed

text \<open>Latency and ceilings: the claim's own on its claim-level edge, absent elsewhere.\<close>

lemma sumUnitShares_static:
  assumes "sumUnitShares A e us = Some y" and "\<forall>u\<in>set us. unit_io u = io"
    and "tier e = StorageTierSVMPVC"
  shows "\<exists>m. io = Some m \<and> ReadLatencyUs y = ReadLatencyUs m \<and> WriteLatencyUs y = WriteLatencyUs m
     \<and> MaxIOPS y = MaxIOPS m \<and> MaxBytesPerSec y = MaxBytesPerSec m"
proof -
  obtain acc fl c where r: "fold (shareStep A True) us (noIO, False, None) = (acc, fl, c)"
    by (metis surj_pair)
  have fl: "fl" using assms(1,3) r by (auto simp: sumUnitShares_def split: if_splits)
  then have c: "c = io" using claimIO_first(2) [OF assms(2) r] by simp
  have "io \<noteq> None"
  proof
    assume "io = None"
    then have "\<forall>u\<in>set us. scaleFlow A (unit_io u) (mounters u) = None \<and> \<not> hasLatency (unit_io u)"
      using assms(2) by (simp add: scaleFlow_def hasLatency_def)
    then show False using shareStep_filled [of A True us "(noIO, False, None)"] r fl by auto
  qed
  then show ?thesis using assms(1,3) r fl c by (auto simp: sumUnitShares_def)
qed

lemma addShare_keeps:
  "ReadLatencyUs (addShare A acc m) = ReadLatencyUs acc" "WriteLatencyUs (addShare A acc m) = WriteLatencyUs acc"
  "ReadLatencyUsDelta (addShare A acc m) = ReadLatencyUsDelta acc"
  "WriteLatencyUsDelta (addShare A acc m) = WriteLatencyUsDelta acc"
  "MaxIOPS (addShare A acc m) = MaxIOPS acc" "MaxBytesPerSec (addShare A acc m) = MaxBytesPerSec acc"
  by (simp_all add: addShare_def)

definition staticFields :: "('f IOMetrics \<Rightarrow> 'f option) set" where
  "staticFields = {ReadLatencyUs, WriteLatencyUs, ReadLatencyUsDelta, WriteLatencyUsDelta, MaxIOPS, MaxBytesPerSec}"

lemma shareStep_static:
  assumes "sel \<in> staticFields"
  shows "sel (fst (fold (shareStep A t) us st)) = sel (fst st)"
proof (induction us arbitrary: st)
  case (Cons u us)
  have "sel (fst (shareStep A t u st)) = sel (fst st)"
    using assms by (cases st) (auto simp: staticFields_def addShare_keeps split: option.split)
  then show ?case using Cons.IH by simp
qed simp

lemma static_noIO: "sel \<in> staticFields \<Longrightarrow> sel noIO = None"
  by (auto simp: staticFields_def noIO_def)

lemma sumUnitShares_wire:
  assumes "sumUnitShares A e us = Some y"
  shows "tier e \<noteq> StorageTierSVMPVC \<Longrightarrow> sel \<in> staticFields \<Longrightarrow> sel y = None"
    and "ReadLatencyUs y = None \<Longrightarrow> ReadLatencyUsDelta y = None"
    and "WriteLatencyUs y = None \<Longrightarrow> WriteLatencyUsDelta y = None"
proof -
  obtain acc fl c where r: "fold (shareStep A (tier e = StorageTierSVMPVC)) us (noIO, False, None) = (acc, fl, c)"
    by (metis surj_pair)
  have st: "sel \<in> staticFields \<Longrightarrow> sel acc = None" for sel
    using shareStep_static [of sel A "tier e = StorageTierSVMPVC" us "(noIO, False, None)"] r
    by (simp add: static_noIO)
  then have d: "ReadLatencyUsDelta acc = None" "WriteLatencyUsDelta acc = None"
    by (simp_all add: staticFields_def)
  show "tier e \<noteq> StorageTierSVMPVC \<Longrightarrow> sel \<in> staticFields \<Longrightarrow> sel y = None"
    using assms r st by (auto simp: sumUnitShares_def split: if_splits option.splits)
  show "ReadLatencyUs y = None \<Longrightarrow> ReadLatencyUsDelta y = None"
    "WriteLatencyUs y = None \<Longrightarrow> WriteLatencyUsDelta y = None"
    using assms r d by (auto simp: sumUnitShares_def split: if_splits option.splits)
qed

text \<open>Every share of an edge keeps the rule that a change needs its base figure.\<close>

lemma sumUnitShares_change:
  assumes "(sel, dlt) \<in> changeOf" and "Option.bind (sumUnitShares A e us) sel = None"
  shows "Option.bind (sumUnitShares A e us) dlt = None"
proof -
  have s: "sel \<in> summed" "dlt \<in> summed"
    using assms(1) by (auto simp: summed_def changeOf_def flowFigures_def)
  have none: "fold (\<lambda>u d. addPtr A d (f u)) us d0 = None \<longleftrightarrow> d0 = None \<and> (\<forall>u\<in>set us. f u = None)" for f d0
    by (induction us arbitrary: d0) (auto simp: addPtr_def split: option.splits)
  show ?thesis
    using assms(2) shareOf_change [OF assms(1)] by (simp add: sumUnitShares_figure s none)
qed

text \<open>The units of a claim in a graph without double edges, counted once per mounting edge.\<close>

lemma filter_one: "distinct xs \<Longrightarrow> e \<in> set xs \<Longrightarrow> filter (\<lambda>c. c = e) xs = [e]"
  by (induction xs) (auto simp: filter_empty_conv)

lemma concat_if: "concat (map (\<lambda>c. if c = e then f c else []) xs) = concat (map f (filter (\<lambda>c. c = e) xs))"
  by (induction xs) auto

lemma claim_units_count:
  assumes "flow_pairs g" and "e \<in> set (tierEdges g StorageTierSVMPVC)"
    and "\<forall>pe\<in>set (claimMounts g e). retainUnit g scope (resolveStorageRoots g scope) (unitOf g e pe)"
  shows "mset (filter (\<lambda>u. e \<in> set (unit_edges u)) (retainedUnits g scope)) = mset (map (unitOf g e) (claimMounts g e))"
proof -
  let ?S = "tierEdges g StorageTierSVMPVC"
  have e: "tier e = StorageTierSVMPVC" using assms(2) by (simp add: tierEdges_in)
  have "distinct (filter (\<lambda>e. EType e = EdgeTypeStorageFlow) (Edges g))"
    using assms(1) by (auto simp: flow_pairs_def distinct_map)
  then have dist: "distinct ?S" by (simp add: tierEdges_def flip: filter_filter)
  have own: "e \<in> set (unit_edges (unitOf g c pe)) \<longleftrightarrow> e = c"
    if "c \<in> set ?S" "pe \<in> set (claimMounts g c)" for c pe
  proof -
    have "e \<in> set (unit_edges (unitOf g c pe))
        \<longleftrightarrow> e \<in> set (filter (\<lambda>x. tier x = StorageTierSVMPVC \<and> True) (unit_edges (unitOf g c pe)))"
      using e by simp
    then show ?thesis unfolding unit_tier_hop [OF that] by (simp add: tierHop_simps)
  qed
  let ?F = "filter (\<lambda>u. e \<in> set (unit_edges u) \<and> retainUnit g scope (resolveStorageRoots g scope) u)"
  have "?F (map (unitOf g c) (claimMounts g c)) = (if c = e then map (unitOf g e) (claimMounts g e) else [])"
    if "c \<in> set ?S" for c
    using own [OF that] assms(3) by (auto simp: filter_id_conv filter_empty_conv)
  then have "concat (map (\<lambda>c. ?F (map (unitOf g c) (claimMounts g c))) ?S)
      = concat (map (\<lambda>c. if c = e then map (unitOf g c) (claimMounts g c) else []) ?S)"
    by (intro arg_cong [of _ _ concat] map_cong) auto
  also have "\<dots> = concat (map (\<lambda>c. map (unitOf g c) (claimMounts g c)) (filter (\<lambda>c. c = e) ?S))"
    by (rule concat_if)
  also have "filter (\<lambda>c. c = e) ?S = [e]" using dist assms(2) by (rule filter_one)
  finally have "mset (?F (concat (map (\<lambda>c. map (unitOf g c) (claimMounts g c)) ?S))) = mset (map (unitOf g e) (claimMounts g e))"
    by (simp add: filter_concat comp_def)
  moreover have "claimUnits g (flowIndexOf g) = (\<lambda>c. map (unitOf g c) (claimMounts g c))"
    by (rule ext) (rule claimUnits_eq)
  ultimately show ?thesis
    by (simp add: retainedUnits_def extractFlowUnits_def conj_commute)
qed

section \<open>An example flow graph\<close>

text \<open>
  One filer with a controller, an aggregate and an SVM; the claim \<open>d\<close>, mounted by two pods of which
  one is scheduled, and the claim \<open>z\<close>, which no pod mounts.
\<close>

definition fxPod :: "string \<Rightarrow> rat GraphNode" where
  "fxPod uid = Pod \<lparr> pod_IDValue = PodID ''a'' uid, pod_NameValue = uid,
     pod_LabelsValue = [(''cluster'', ''a''), (''namespace'', ''shop'')],
     pod_IPAddressValue = [], pod_OwnerValue = None, pod_ApplicationValue = ''orders'',
     pod_ContainersValue = [], pod_AlertsValue = [], pod_StatusValue = [] \<rparr>"

definition fxClaim :: "string \<Rightarrow> rat GraphNode" where
  "fxClaim name = PVC \<lparr> pvc_IDValue = PVCID ''a'' ''shop'' name, pvc_NameValue = name,
     pvc_LabelsValue = [(''cluster'', ''a''), (''namespace'', ''shop''), (''volumename'', ''pv-'' @ name)],
     pvc_StorageClassValue = [], pvc_ApplicationValue = [], pvc_UsageValue = None,
     pvc_QoSValue = None, pvc_AlertsValue = [], pvc_StatusValue = [] \<rparr>"

definition fxNodes :: "rat GraphNode list" where
  "fxNodes = [fxPod ''u1'', fxPod ''u2'', fxClaim ''d'', fxClaim ''z'',
     K8s \<lparr> k8s_IDValue = ''a/n1'', k8s_NameValue = ''n1'', k8s_LabelsValue = [(''cluster'', ''a'')],
       k8s_IPAddressValue = [], k8s_ReadyStatusValue = [], k8s_AlertsValue = [], k8s_StatusValue = [] \<rparr>,
     Aggr \<lparr> aggr_IDValue = NetAppAggrID ''f'' ''g1'', aggr_NameValue = ''g1'',
       aggr_LabelsValue = [(''ontap_cluster'', ''f''), (''node'', ''f1'')], aggr_HealthValue = [],
       aggr_UsageValue = None, aggr_AlertsValue = [], aggr_StatusValue = [] \<rparr>,
     Ctrl \<lparr> ctrl_IDValue = NetAppNodeID ''f'' ''f1'', ctrl_NameValue = ''f1'',
       ctrl_LabelsValue = [(''ontap_cluster'', ''f'')], ctrl_HealthValue = [],
       ctrl_HardwareValue = None, ctrl_PerfValue = None, ctrl_AlertsValue = [], ctrl_StatusValue = [] \<rparr>,
     SVM \<lparr> svm_IDValue = NetAppSVMID ''f'' ''s1'', svm_NameValue = ''s1'',
       svm_LabelsValue = [(''ontap_cluster'', ''f'')] \<rparr>]"

definition fxEdge :: "string \<Rightarrow> string \<Rightarrow> string \<Rightarrow> labels \<Rightarrow> rat Edge" where
  "fxEdge t src tgt ls = NewEdge (\<lambda>k. k) EdgeTypeStorageFlow src tgt ((''tier'', t) # ls)"

definition fxClaimEdge :: "string \<Rightarrow> rat Edge" where
  "fxClaimEdge name =
     (fxEdge StorageTierSVMPVC (NetAppSVMID ''f'' ''s1'') (PVCID ''a'' ''shop'' name)
       [(ClaimAggrLabel, NetAppAggrID ''f'' ''g1'')])
     \<lparr> EIO := Some (noIO\<lparr> ReadOps := Some 10, ReadLatencyUs := Some 7, ReadOpsDelta := Some 3 \<rparr>) \<rparr>"

definition fxEdges :: "rat Edge list" where
  "fxEdges =
     [fxEdge StorageTierNodeAggr (NetAppNodeID ''f'' ''f1'') (NetAppAggrID ''f'' ''g1'') [],
      fxEdge StorageTierAggrSVM (NetAppAggrID ''f'' ''g1'') (NetAppSVMID ''f'' ''s1'') [],
      fxClaimEdge ''d'', fxClaimEdge ''z'',
      fxEdge StorageTierPVCPod (PVCID ''a'' ''shop'' ''d'') (PodID ''a'' ''u1'') [],
      fxEdge StorageTierPVCPod (PVCID ''a'' ''shop'' ''d'') (PodID ''a'' ''u2'') [],
      fxEdge StorageTierPodNode (PodID ''a'' ''u1'') ''a/n1'' []]"

definition fxGraph :: "rat Graph" where
  "fxGraph = NewGraph fxNodes fxEdges 0"

definition fxScope :: "StorageRootKind \<Rightarrow> string list \<Rightarrow> StorageScope" where
  "fxScope kind vals = (case NewStorageScope [] [] kind vals of Inr s \<Rightarrow> s | Inl e \<Rightarrow>
     \<lparr> ss_Clusters = [], ss_Namespaces = [], ss_Roots = noRoots \<rparr>)"

lemma fx_wf: "wf_graph fxGraph" unfolding fxGraph_def by (rule NewGraph_wf)

lemma fx_closed: "storage_closed fxGraph" by code_simp

lemma fx_pairs: "flow_pairs fxGraph" by code_simp

lemma fx_ok: "storage_ok fxGraph" by (simp add: storage_ok_def fx_wf fx_closed)

text \<open>The view of a Kubernetes node: the path of its one pod, at half of the claim's figure.\<close>

definition fxView :: "StorageRootKind \<Rightarrow> string list \<Rightarrow> rat View" where
  "fxView kind vals = ProjectStorage (\<lambda>k. k) exact (Some fxGraph) (fxScope kind vals)"

lemma fx_edges:
  "set (map ends (view_Edges (fxView ''svm'' [''s1''])))
     = set (map ends (filter (\<lambda>e. e \<noteq> fxClaimEdge ''z'') fxEdges))"
  "map (\<lambda>x. figure ReadOps (EIO x)) (view_Edges (fxView ''node'' [''n1''])) = [5, 5, 5, 5, 5]"
  by code_simp+

section \<open>Properties\<close>

text \<open>
  C5: flow is conserved at every inner node of the storage view, for each of the four flow figures and
  in exact arithmetic: what enters a mounted claim leaves it for the retained pods; what enters a
  scheduled pod leaves it for its node; what enters an SVM, all of whose claims have their aggr-svm
  hop, leaves it for the claims; likewise an owned aggregate. Filters and roots may drop any units:
  the weights are summed over the retained ones, so the balance survives them.
\<close>

theorem storage_flow_conserved:
  fixes g :: "rat Graph"
  assumes "storage_ok g" and "flow_pairs g" and "sel \<in> flowFigures"
  shows "let v = ProjectStorage mkid exact (Some g) scope in
    (mountEdges g i \<noteq> [] \<longrightarrow> inflow sel StorageTierSVMPVC i v = outflow sel StorageTierPVCPod i v) \<and>
    (scheduled g i \<longrightarrow> inflow sel StorageTierPVCPod i v = outflow sel StorageTierPodNode i v) \<and>
    (svm_chained g i \<longrightarrow> inflow sel StorageTierAggrSVM i v = outflow sel StorageTierSVMPVC i v) \<and>
    (aggr_chained g i \<longrightarrow> inflow sel StorageTierNodeAggr i v = outflow sel StorageTierAggrSVM i v)"
proof -
  have g: "wf_graph g" "storage_closed g" using assms(1) by (simp_all add: storage_ok_def)
  note con = conserved [OF g(1) assms(2,3)]
  have claim: "length (filter (\<lambda>e. Target e = i) (tierHop g claim pe StorageTierSVMPVC))
      = length (filter (\<lambda>e. Source e = i) (tierHop g claim pe StorageTierPVCPod))"
    if "mountEdges g i \<noteq> []" "pe \<in> set (claimMounts g claim)" for claim pe
    using that claimMounts_in(1) [of _ g claim] claimMounts_in(2) [of g claim]
    by (auto simp: tierHop_simps split: option.split)
  have pod: "length (filter (\<lambda>e. Target e = i) (tierHop g claim pe StorageTierPVCPod))
      = length (filter (\<lambda>e. Source e = i) (tierHop g claim pe StorageTierPodNode))"
    if "scheduled g i" for claim pe
  proof (cases pe)
    case (Some e)
    have "\<forall>ne\<in>set (podHop g pe). (Source ne = i) = (Target e = i)"
      using podHop_in(2) [of _ g pe] Some by auto
    from hop_count [OF this] show ?thesis
      using scheduled_hop [where g = g and e = e] that by (cases "Target e = i") (auto simp: tierHop_simps Some)
  qed (simp add: tierHop_simps podHop_def)
  have svm: "length (filter (\<lambda>e. Target e = i) (tierHop g claim pe StorageTierAggrSVM))
      = length (filter (\<lambda>e. Source e = i) (tierHop g claim pe StorageTierSVMPVC))"
    if "svm_chained g i" "claim \<in> set (tierEdges g StorageTierSVMPVC)" for claim pe
  proof -
    have "\<forall>e\<in>set (aggrHop g claim). (Target e = i) = (Source claim = i)"
      using aggrHop_in(3) [of _ g claim] by auto
    from hop_count [OF this] show ?thesis using that claimAggr_hop [of g claim]
      by (auto simp: tierHop_simps svm_chained_def chained_def list_all_iff list_ex_iff)
  qed
  have aggr: "length (filter (\<lambda>e. Target e = i) (tierHop g claim pe StorageTierNodeAggr))
      = length (filter (\<lambda>e. Source e = i) (tierHop g claim pe StorageTierAggrSVM))"
    if "aggr_chained g i" "claim \<in> set (tierEdges g StorageTierSVMPVC)" for claim pe
  proof -
    have "\<forall>e\<in>set (ctrlHop g claim). (Target e = i) = (claimAggr g claim = i)"
      "\<forall>e\<in>set (aggrHop g claim). (Source e = i) = (claimAggr g claim = i)"
      using ctrlHop_in(2) [of _ g claim] aggrHop_in(2) [of _ g claim] by auto
    note count = hop_count [OF this(1)] hop_count [OF this(2)]
    show ?thesis
    proof (cases "claimAggr g claim = i")
      case True
      then have "\<exists>e. aggrHop g claim = [e]" "\<exists>e. ctrlHop g claim = [e]"
        using that True claimAggr_hop [of g claim] claimAggr_ctrlHop [OF g(2), of claim]
        by (auto simp: aggr_chained_def chained_def list_all_iff list_ex_iff)
      then show ?thesis using count True by (auto simp: tierHop_simps)
    qed (use count in \<open>simp add: tierHop_simps\<close>)
  qed
  show ?thesis
    unfolding Let_def by (intro conjI impI; rule con; use claim pod svm aggr in blast)
qed

theorem storage_flow_conserved_witness:
  "inflow ReadOps StorageTierSVMPVC (PVCID ''a'' ''shop'' ''d'') (fxView ''svm'' [''s1''])
     = outflow ReadOps StorageTierPVCPod (PVCID ''a'' ''shop'' ''d'') (fxView ''svm'' [''s1''])
   \<and> outflow ReadOps StorageTierPVCPod (PVCID ''a'' ''shop'' ''d'') (fxView ''svm'' [''s1'']) = 10"
proof
  have "mountEdges fxGraph (PVCID ''a'' ''shop'' ''d'') \<noteq> []" by code_simp
  moreover have "ReadOps \<in> flowFigures" by (simp add: flowFigures_def)
  ultimately show "inflow ReadOps StorageTierSVMPVC (PVCID ''a'' ''shop'' ''d'') (fxView ''svm'' [''s1''])
     = outflow ReadOps StorageTierPVCPod (PVCID ''a'' ''shop'' ''d'') (fxView ''svm'' [''s1''])"
    unfolding fxView_def using storage_flow_conserved [OF fx_ok fx_pairs] by (metis (no_types))
  show "outflow ReadOps StorageTierPVCPod (PVCID ''a'' ''shop'' ''d'') (fxView ''svm'' [''s1'']) = 10"
    by code_simp
qed

text \<open>
  The weight of an edge of the view, for every arithmetic. Each edge stands for one edge of the
  graph, with its endpoints and labels (the internal claim_aggr label removed); each flow figure and
  each change is the sum, added one at a time in (claim, pod) order, of the shares of exactly the
  retained units whose path uses that edge, and is absent when none of them has it.
\<close>

theorem storage_edge_weight:
  assumes "wf_graph g" and "flow_pairs g"
    and "x \<in> set (view_Edges (ProjectStorage mkid A (Some g) scope))"
  shows "\<exists>e us. e \<in> set (Edges g) \<and> ends x = ends e \<and> ELabels x = gm_del ClaimAggrLabel (ELabels e)
     \<and> mset us = mset (filter (\<lambda>u. e \<in> set (unit_edges u)) (retainedUnits g scope)) \<and> us \<noteq> []
     \<and> sorted (map unitKey us)
     \<and> (\<forall>sel\<in>summed. Option.bind (EIO x) sel = fold (\<lambda>u d. addPtr A d (shareOf A sel u)) us None)"
proof -
  obtain e us where e: "e \<in> set (Edges g)" "EType e = EdgeTypeStorageFlow" "tier e \<in> set StorageTiers"
    "mset us = mset (filter (\<lambda>u. e \<in> set (unit_edges u)) (retainedUnits g scope))"
    "us \<noteq> []" "sorted (map unitKey us)" "x = projectedEdge mkid e (sumUnitShares A e us)"
    by (rule StorageView_edge_sum [OF assms])
  then show ?thesis by (intro exI [of _ e] exI [of _ us]) (simp add: ends_def sumUnitShares_figure)
qed

theorem storage_edge_weight_witness:
  "\<exists>e us. e \<in> set (Edges fxGraph) \<and> ends (hd (view_Edges (fxView ''node'' [''n1'']))) = ends e
     \<and> us \<noteq> [] \<and> Option.bind (EIO (hd (view_Edges (fxView ''node'' [''n1''])))) ReadOps
          = fold (\<lambda>u d. addPtr exact d (shareOf exact ReadOps u)) us None"
proof -
  have "hd (view_Edges (fxView ''node'' [''n1''])) \<in> set (view_Edges (fxView ''node'' [''n1'']))"
    by (rule hd_in_set) code_simp
  moreover have "ReadOps \<in> summed" by (simp add: summed_def flowFigures_def)
  ultimately show ?thesis
    using storage_edge_weight [OF fx_wf fx_pairs] unfolding fxView_def by blast
qed

text \<open>
  A claim whose every path is retained shows its own measurement on its claim-level edge. Each of
  its mounting pods carries an equal share and in exact arithmetic the shares add up to the claim's
  figure; latencies and ceilings are the claim's own, copied and not divided.
\<close>

theorem claim_weight_exact:
  fixes g :: "rat Graph"
  assumes "wf_graph g" and "flow_pairs g" and "e \<in> set (tierEdges g StorageTierSVMPVC)"
    and "\<forall>pe\<in>set (claimMounts g e). retainUnit g scope (resolveStorageRoots g scope) (unitOf g e pe)"
    and "x \<in> set (view_Edges (ProjectStorage mkid exact (Some g) scope))" and "ends x = ends e"
  shows "(\<forall>sel\<in>flowFigures. figure sel (EIO x) = figure sel (EIO e)) \<and>
    (\<forall>y. EIO x = Some y \<longrightarrow> (\<exists>m. EIO e = Some m \<and> ReadLatencyUs y = ReadLatencyUs m
       \<and> WriteLatencyUs y = WriteLatencyUs m \<and> MaxIOPS y = MaxIOPS m \<and> MaxBytesPerSec y = MaxBytesPerSec m))"
proof -
  obtain e' us where e': "e' \<in> set (Edges g)" "EType e' = EdgeTypeStorageFlow" "tier e' \<in> set StorageTiers"
    "mset us = mset (filter (\<lambda>u. e' \<in> set (unit_edges u)) (retainedUnits g scope))"
    "us \<noteq> []" "sorted (map unitKey us)" "x = projectedEdge mkid e' (sumUnitShares exact e' us)"
    by (rule StorageView_edge_sum [OF assms(1,2,5)])
  have "e' = e"
    using flow_pairs_unique [OF assms(2) e'(1) _ e'(2)] assms(3,6) e'(7) by (simp add: tierEdges_in ends_def)
  with e'(4) claim_units_count [OF assms(2-4)] have us: "mset us = mset (map (unitOf g e) (claimMounts g e))"
    by simp
  have set_us: "set us = unitOf g e ` set (claimMounts g e)" using mset_eq_setD [OF us] by simp
  have io: "\<forall>u\<in>set us. unit_io u = EIO e" by (auto simp: set_us)
  have pos: "\<forall>u\<in>set us. mounters u > 0"
    using assms(3) mounters_pos [of _ g] by (force simp: set_us units_iff)
  have "figure sel (EIO x) = figure sel (EIO e)" if "sel \<in> flowFigures" for sel
  proof -
    have n: "mounters (unitOf g e pe) = int (length (claimMounts g e))" if "pe \<in> set (claimMounts g e)" for pe
      using that by (auto simp: claimMounts_def split: if_splits)
    have "figure sel (EIO x) = sum_list (map (share sel) us)"
      using sumUnitShares_exact [OF that pos] e'(7) \<open>e' = e\<close> by simp
    also have "\<dots> = sum_list (map (share sel) (map (unitOf g e) (claimMounts g e)))"
      by (rule sum_list_perm [OF us])
    also have "\<dots> = sum_list (map (\<lambda>pe. figure sel (EIO e) / of_nat (length (claimMounts g e))) (claimMounts g e))"
      unfolding map_map by (intro arg_cong [of _ _ sum_list] map_cong) (auto simp: share_def n simp del: unitOf_sel(8))
    also have "\<dots> = figure sel (EIO e)"
      by (simp add: sum_list_triv claimMounts_def)
    finally show ?thesis .
  qed
  moreover have "\<exists>m. EIO e = Some m \<and> ReadLatencyUs y = ReadLatencyUs m
       \<and> WriteLatencyUs y = WriteLatencyUs m \<and> MaxIOPS y = MaxIOPS m \<and> MaxBytesPerSec y = MaxBytesPerSec m"
    if "EIO x = Some y" for y
    using sumUnitShares_static [OF _ io, of exact e y] that e'(7) \<open>e' = e\<close> assms(3) by (simp add: tierEdges_in)
  ultimately show ?thesis by blast
qed

theorem claim_weight_exact_witness:
  "let x = the (find (\<lambda>x. ends x = ends (fxClaimEdge ''d'')) (view_Edges (fxView ''svm'' [''s1''])))
   in figure ReadOps (EIO x) = figure ReadOps (EIO (fxClaimEdge ''d''))"
proof -
  let ?v = "ProjectStorage (\<lambda>k. k) exact (Some fxGraph) (fxScope ''svm'' [''s1''])"
  let ?x = "the (find (\<lambda>x. ends x = ends (fxClaimEdge ''d'')) (view_Edges ?v))"
  have "fxClaimEdge ''d'' \<in> set (tierEdges fxGraph StorageTierSVMPVC)" by code_simp
  moreover have "list_all (\<lambda>pe. retainUnit fxGraph (fxScope ''svm'' [''s1''])
      (resolveStorageRoots fxGraph (fxScope ''svm'' [''s1''])) (unitOf fxGraph (fxClaimEdge ''d'') pe))
      (claimMounts fxGraph (fxClaimEdge ''d''))" by code_simp
  moreover have "find (\<lambda>x. ends x = ends (fxClaimEdge ''d'')) (view_Edges ?v) \<noteq> None" by code_simp
  then obtain y where y: "find (\<lambda>x. ends x = ends (fxClaimEdge ''d'')) (view_Edges ?v) = Some y" by blast
  then have "y \<in> set (view_Edges ?v) \<and> ends y = ends (fxClaimEdge ''d'')"
    by (auto simp: find_Some_split)
  then have "?x \<in> set (view_Edges ?v)" "ends ?x = ends (fxClaimEdge ''d'')" by (simp_all add: y)
  moreover have "ReadOps \<in> flowFigures" by (simp add: flowFigures_def)
  ultimately show ?thesis
    using claim_weight_exact [OF fx_wf fx_pairs] unfolding fxView_def Let_def list_all_iff by blast
qed

text \<open>
  What an edge of the view may carry on the wire: it is a storage-flow edge of one of the five
  tiers, the internal claim_aggr label is gone, latencies and ceilings appear on the claim-level tier
  only, and no change appears without its base figure.
\<close>

theorem storage_edge_wire:
  assumes "wf_graph g" and "x \<in> set (view_Edges (ProjectStorage mkid A (Some g) scope))"
  shows "EType x = EdgeTypeStorageFlow \<and> tier x \<in> set StorageTiers \<and> gm_get (ELabels x) ClaimAggrLabel = None
    \<and> (tier x \<noteq> StorageTierSVMPVC \<longrightarrow> (\<forall>sel\<in>staticFields. Option.bind (EIO x) sel = None))
    \<and> (\<forall>(sel, dlt)\<in>changeOf \<union> {(ReadLatencyUs, ReadLatencyUsDelta), (WriteLatencyUs, WriteLatencyUsDelta)}.
         Option.bind (EIO x) sel = None \<longrightarrow> Option.bind (EIO x) dlt = None)"
proof -
  obtain k h r where h: "through (retainedUnits g scope) k = h # r"
    "x = projectedEdge mkid (snd h) (sumUnitShares A (snd h) (sort_key unitKey (map fst (h # r))))"
    using view_edge_in [OF assms] unfolding weightRetained_in by blast
  define us where "us = sort_key unitKey (map fst (h # r))"
  have x: "x = projectedEdge mkid (snd h) (sumUnitShares A (snd h) us)" using h(2) by (simp only: us_def)
  have "h \<in> set (through (retainedUnits g scope) k)" using h(1) by simp
  then have e: "fst h \<in> set (extractFlowUnits g)" "snd h \<in> set (unit_edges (fst h))"
    by (auto simp: through_in intro: retained_in)
  have static: "Option.bind (EIO x) sel = None" if "tier x \<noteq> StorageTierSVMPVC" "sel \<in> staticFields" for sel
  proof (cases "EIO x")
    case (Some y)
    have "tier x = tier (snd h)" unfolding x by (rule tier_projected)
    then show ?thesis using that sumUnitShares_wire(1) [of A "snd h" us y sel] Some by (simp add: x)
  qed simp
  have change: "Option.bind (EIO x) dlt = None" if "(sel, dlt) \<in> changeOf" "Option.bind (EIO x) sel = None" for sel dlt
    using sumUnitShares_change [OF that(1), of A "snd h" us] that(2) by (simp add: x)
  have lat: "Option.bind (EIO x) ReadLatencyUs = None \<Longrightarrow> Option.bind (EIO x) ReadLatencyUsDelta = None"
    "Option.bind (EIO x) WriteLatencyUs = None \<Longrightarrow> Option.bind (EIO x) WriteLatencyUsDelta = None"
    using sumUnitShares_wire(2,3) [of A "snd h" us] by (cases "sumUnitShares A (snd h) us"; simp add: x)+
  show ?thesis
    using unit_edge_graph [OF e] static change lat by (auto simp: x)
qed

theorem storage_edge_wire_witness:
  "gm_get (ELabels (hd (view_Edges (fxView ''node'' [''n1''])))) ClaimAggrLabel = None"
proof -
  have "hd (view_Edges (fxView ''node'' [''n1''])) \<in> set (view_Edges (fxView ''node'' [''n1'']))"
    by (rule hd_in_set) code_simp
  then show ?thesis using storage_edge_wire [OF fx_wf] unfolding fxView_def by blast
qed

end
