(* ===== verification/StorageContents.thy ===== *)
theory StorageContents
  imports StorageWeights
begin

text \<open>
  Which nodes and edges a storage-flow view holds (\<open>ProjectStorage\<close>, \<open>pkg/graph/project_storage.go\<close>):
  the roots, the filters, the unmounted claims, the empty view, and the independence of the view from
  map iteration order and from the order of the edge slice.
\<close>

section \<open>Typed chains\<close>

text \<open>
  The tiers join nodes of fixed kinds, as the assembler builds them; an endpoint that is not loaded is
  unconstrained.
\<close>

definition loadedAs :: "'f Graph \<Rightarrow> NodeType \<Rightarrow> string \<Rightarrow> bool" where
  "loadedAs g t i = (case gm_get (NodesByID g) i of None \<Rightarrow> True | Some n \<Rightarrow> Type n = t)"

definition flow_typed :: "'f Graph \<Rightarrow> bool" where
  "flow_typed g =
     (list_all (\<lambda>e. loadedAs g NodeTypePVC (Target e)) (tierEdges g StorageTierSVMPVC)
      \<and> list_all (\<lambda>e. loadedAs g NodeTypePod (Target e)) (tierEdges g StorageTierPVCPod)
      \<and> list_all (\<lambda>e. loadedAs g NodeTypeK8sNode (Target e)) (tierEdges g StorageTierPodNode))"

lemma flow_typedD:
  assumes "flow_typed g" and "gm_get (NodesByID g) (Target e) = Some n"
  shows "e \<in> set (tierEdges g StorageTierSVMPVC) \<Longrightarrow> Type n = NodeTypePVC"
    and "e \<in> set (tierEdges g StorageTierPVCPod) \<Longrightarrow> Type n = NodeTypePod"
    and "e \<in> set (tierEdges g StorageTierPodNode) \<Longrightarrow> Type n = NodeTypeK8sNode"
  using assms by (force simp: flow_typed_def loadedAs_def list_all_iff)+

text \<open>A claim on a retained path is the claim of that path.\<close>

lemma unit_claim:
  assumes ok: "storage_ok g" and ty: "flow_typed g" and u: "u \<in> set (retainedUnits g scope)"
    and i: "i \<in> set (ids u)" and n: "gm_get (NodesByID g) i = Some n" "Type n = NodeTypePVC"
  shows "i = claimID u"
proof -
  have sc: "storage_closed g" using ok by (simp add: storage_ok_def)
  obtain claim pe where c: "claim \<in> set (tierEdges g StorageTierSVMPVC)"
    "pe \<in> set (claimMounts g claim)" "u = unitOf g claim pe"
    using retained_in [OF u] by (auto simp: units_iff)
  have "\<not> netappNode g i" using n by (simp add: netappNode_def)
  then have "i = claimID u \<or> i = podID u \<or> i = nodeID u" and "i \<noteq> []"
    using unit_storage_ids [OF sc retained_in [OF u] i] by auto
  moreover have "i \<noteq> podID u"
    using flow_typedD(2) [OF ty, of _ n] claimMounts_in(1) [of _ g claim] c n \<open>i \<noteq> []\<close>
    by (auto split: option.splits)
  moreover have "i \<noteq> nodeID u"
  proof
    assume "i = nodeID u"
    then obtain e r where "podHop g pe = e # r" "i = Target e"
      using c(3) \<open>i \<noteq> []\<close> by (auto simp: unitOf_nodeID split: list.splits)
    then show False using flow_typedD(3) [OF ty, of e n] podHop_in(1) [of e g pe] n by auto
  qed
  ultimately show ?thesis by blast
qed

text \<open>A node other than a controller is in the view for its own sake.\<close>

lemma storageView_flow:
  assumes "wf_graph g" and "typed_owners g" and "storageViewSpec g scope i n" and "Type n \<noteq> NodeTypeNetAppNode"
  shows "flowSpec g scope i n"
proof (rule ccontr)
  assume "\<not> flowSpec g scope i n"
  then obtain j a where a: "gm_get (NodesByID g) i = Some n" "flowSpec g scope j a"
    "Type a = NodeTypeNetAppAggr" "ownerID a = Some i"
    using assms(3) unfolding storageViewSpec_def by blast
  have "gm_get (NodesByID g) j = Some a" using a(2) unfolding flowSpec_def by blast
  from typed_ownersD [OF assms(1,2) this a(3,4,1)] assms(4) show False by blast
qed

section \<open>Independence of the input order\<close>

text \<open>
  What the assembler guarantees beyond unique pairs: a claim has one SVM, an aggregate one owner, a
  pod one node.
\<close>

definition flow_functional :: "'f Graph \<Rightarrow> bool" where
  "flow_functional g =
     (flow_pairs g
      \<and> distinct (map Target (tierEdges g StorageTierSVMPVC))
      \<and> distinct (map Target (tierEdges g StorageTierNodeAggr))
      \<and> distinct (map Source (tierEdges g StorageTierPodNode)))"

lemma find_perm:
  assumes "mset xs = mset ys" and "\<And>x y. x \<in> set xs \<Longrightarrow> y \<in> set xs \<Longrightarrow> P x \<Longrightarrow> P y \<Longrightarrow> x = y"
  shows "find P xs = find P ys"
proof -
  have "find P zs = Some x \<longleftrightarrow> x \<in> set zs \<and> P x" if "set zs = set xs" for zs x
  proof
    show "find P zs = Some x \<Longrightarrow> x \<in> set zs \<and> P x" by (auto simp: find_Some_split)
    assume x: "x \<in> set zs \<and> P x"
    then obtain y where "find P zs = Some y" by (cases "find P zs") (auto simp: find_None_iff)
    moreover then have "y \<in> set zs \<and> P y" by (auto simp: find_Some_split)
    ultimately show "find P zs = Some x" using x assms(2) that by blast
  qed
  note iff = this
  have "find P xs = Some x \<longleftrightarrow> find P ys = Some x" for x
    using iff [of xs x] iff [of ys x] mset_eq_setD [OF assms(1)] by simp
  then show ?thesis by (metis option.exhaust)
qed

lemma tierEdges_perm: "same_content g g' \<Longrightarrow> mset (tierEdges g t) = mset (tierEdges g' t)"
  by (simp add: same_content_def tierEdges_def)

lemma distinct_key_unique: "distinct (map f xs) \<Longrightarrow> x \<in> set xs \<Longrightarrow> y \<in> set xs \<Longrightarrow> f x = f y \<Longrightarrow> x = y"
  by (auto simp: distinct_map inj_on_def)

lemma claimAggrOf_perm:
  assumes "mset xs = mset ys"
  shows "claimAggrOf c xs b = claimAggrOf c ys b"
proof -
  have "length xs = length ys" using assms by (metis size_mset)
  moreover have "xs = [x] \<Longrightarrow> ys = [x]" for x
    using assms by (metis mset_single_iff_right)
  ultimately show ?thesis
    by (auto simp: claimAggrOf_def Let_def length_Suc_conv)
qed

lemma lookups_perm:
  assumes "flow_functional g" and "same_content g g'"
  shows "gm_str (ix_ownerOf (flowIndexOf g')) a = gm_str (ix_ownerOf (flowIndexOf g)) a"
    and "gm_get (ix_nodeAggrOf (flowIndexOf g')) a = gm_get (ix_nodeAggrOf (flowIndexOf g)) a"
    and "gm_get (ix_aggrSVMOf (flowIndexOf g')) (a, v) = gm_get (ix_aggrSVMOf (flowIndexOf g)) (a, v)"
    and "gm_get (ix_nodeOf (flowIndexOf g')) p = gm_get (ix_nodeOf (flowIndexOf g)) p"
    and "ix_stamped (flowIndexOf g') = ix_stamped (flowIndexOf g)"
    and "claimAggr g' claim = claimAggr g claim"
    and "mset (mountEdges g' c) = mset (mountEdges g c)"
proof -
  note perm = tierEdges_perm [OF assms(2)]
  have d: "distinct (map Target (tierEdges g StorageTierNodeAggr))"
    "distinct (map Source (tierEdges g StorageTierPodNode))"
    "flow_pairs g" using assms(1) by (simp_all add: flow_functional_def)
  have na: "find (\<lambda>e. Target e = a) (rev (tierEdges g' StorageTierNodeAggr))
      = find (\<lambda>e. Target e = a) (rev (tierEdges g StorageTierNodeAggr))"
    using perm distinct_key_unique [OF d(1)] by (intro find_perm [symmetric]) auto
  then show "gm_str (ix_ownerOf (flowIndexOf g')) a = gm_str (ix_ownerOf (flowIndexOf g)) a"
    "gm_get (ix_nodeAggrOf (flowIndexOf g')) a = gm_get (ix_nodeAggrOf (flowIndexOf g)) a"
    by (simp_all add: ix_lookups)
  have "find (\<lambda>e. (Source e, Target e) = (a, v)) (rev (tierEdges g' StorageTierAggrSVM))
      = find (\<lambda>e. (Source e, Target e) = (a, v)) (rev (tierEdges g StorageTierAggrSVM))"
    using perm flow_pairs_unique [OF d(3)]
    by (intro find_perm [symmetric]) (auto simp: tierEdges_in ends_def)
  then show "gm_get (ix_aggrSVMOf (flowIndexOf g')) (a, v) = gm_get (ix_aggrSVMOf (flowIndexOf g)) (a, v)"
    by (simp add: ix_lookups)
  have "find (\<lambda>e. Source e = p) (rev (tierEdges g' StorageTierPodNode))
      = find (\<lambda>e. Source e = p) (rev (tierEdges g StorageTierPodNode))"
    using perm distinct_key_unique [OF d(2)] by (intro find_perm [symmetric]) auto
  then show "gm_get (ix_nodeOf (flowIndexOf g')) p = gm_get (ix_nodeOf (flowIndexOf g)) p"
    by (simp add: ix_lookups)
  show st: "ix_stamped (flowIndexOf g') = ix_stamped (flowIndexOf g)"
    using mset_eq_setD [OF perm [of StorageTierSVMPVC]] by (simp add: flowIndexOf_def Let_def list_ex_iff)
  show "claimAggr g' claim = claimAggr g claim"
    unfolding claimAggr_def st using perm [of StorageTierAggrSVM] by (intro claimAggrOf_perm) simp
  show "mset (mountEdges g' c) = mset (mountEdges g c)"
    using perm [of StorageTierPVCPod] by (simp add: mountEdges_def)
qed

lemma unitOf_perm:
  assumes "wf_graph g" and "flow_functional g" and "same_content g g'"
  shows "unitOf g' claim pe = unitOf g claim pe"
proof -
  note look = lookups_perm [OF assms(2,3)]
  have n: "length (mountEdges g' c) = length (mountEdges g c)" for c using look(7) [of c] by (metis size_mset)
  have has: "gm_has (NodesByID g') = gm_has (NodesByID g)"
    by (simp add: gm_has_get fun_eq_iff same_contentD(1) [OF assms(1,3)])
  have hop: "nodeHop g' (flowIndexOf g') p = nodeHop g (flowIndexOf g) p" for p
    by (simp add: nodeHop_def look(4) has split: option.split)
  have up: "upAggr (flowIndexOf g') u = upAggr (flowIndexOf g) u" "upCtrl (flowIndexOf g') u = upCtrl (flowIndexOf g) u"
    for u by (simp_all add: upAggr_def upCtrl_def look(2,3))
  show ?thesis
    by (simp add: unitOf_def addUpstream_eq addNode_eq look(1,6) n hop up Let_def split: option.split)
qed

lemma mset_concat_map:
  fixes f h :: "'x \<Rightarrow> 'y list"
  assumes "mset xs = mset ys" and "\<And>x. mset (f x) = mset (h x)"
  shows "mset (concat (map f xs)) = mset (concat (map h ys))"
proof -
  have sum: "mset (concat (map k zs)) = (\<Sum>x\<in>#mset zs. mset (k x))" for k :: "'x \<Rightarrow> 'y list" and zs
    by (induction zs) auto
  show ?thesis by (simp only: sum assms)
qed

lemma units_mset:
  fixes g g' :: "'f Graph"
  assumes "wf_graph g" and "flow_functional g" and "same_content g g'"
  shows "mset (concat (map (claimUnits g' (flowIndexOf g')) (tierEdges g' StorageTierSVMPVC)))
       = mset (concat (map (claimUnits g (flowIndexOf g)) (tierEdges g StorageTierSVMPVC)))"
proof (rule mset_concat_map)
  show "mset (tierEdges g' StorageTierSVMPVC) = mset (tierEdges g StorageTierSVMPVC)"
    using tierEdges_perm [OF assms(3)] by simp
  fix c :: "'f Edge"
  have m: "mset (mountEdges g' (Target c)) = mset (mountEdges g (Target c))" by (rule lookups_perm(7) [OF assms(2,3)])
  then have "(mountEdges g' (Target c) = []) = (mountEdges g (Target c) = [])"
    by (metis mset_zero_iff)
  then have "mset (claimMounts g' c) = mset (claimMounts g c)" using m by (simp add: claimMounts_def)
  then show "mset (claimUnits g' (flowIndexOf g') c) = mset (claimUnits g (flowIndexOf g) c)"
    unfolding claimUnits_eq by (simp add: unitOf_perm [OF assms, abs_def])
qed

lemma unit_keys_distinct:
  fixes g :: "'f Graph"
  assumes "flow_functional g" and "storage_closed g"
  shows "distinct (map unitKey (concat (map (claimUnits g (flowIndexOf g)) (tierEdges g StorageTierSVMPVC))))"
proof -
  let ?key = "\<lambda>c pe. (Target c, case pe of None \<Rightarrow> [] | Some e \<Rightarrow> Target e)"
  have key: "unitKey (unitOf g c pe) = ?key c pe" for c pe by (simp add: unitKey_def)
  have one: "distinct (map (?key c) (claimMounts g c))" for c :: "'f Edge"
  proof -
    have "tierEdges g StorageTierPVCPod
        = filter (\<lambda>e. tier e = StorageTierPVCPod) (filter (\<lambda>e. EType e = EdgeTypeStorageFlow) (Edges g))"
      by (simp add: tierEdges_def conj_commute)
    then have "distinct (map ends (tierEdges g StorageTierPVCPod))"
      using assms(1) by (simp only: flow_functional_def flow_pairs_def distinct_map_filter)
    then have "distinct (map ends (mountEdges g (Target c)))"
      unfolding mountEdges_def by (rule distinct_map_filter)
    then have "distinct (map Target (mountEdges g (Target c)))"
      by (auto simp: distinct_map inj_on_def mountEdges_def ends_def)
    then show ?thesis by (auto simp: claimMounts_def distinct_map inj_on_def)
  qed
  have "distinct (map Target cs) \<Longrightarrow> distinct (concat (map (\<lambda>c. map (?key c) (claimMounts g c)) cs))" for cs
  proof (induction cs)
    case (Cons c cs)
    have "set (map (?key c) (claimMounts g c)) \<inter> set (concat (map (\<lambda>c. map (?key c) (claimMounts g c)) cs)) = {}"
      using Cons.prems by auto
    then show ?case using Cons one [of c] by (simp only: list.map concat.simps distinct_append distinct.simps)
  qed simp
  moreover have "map unitKey (concat (map (claimUnits g (flowIndexOf g)) cs))
      = concat (map (\<lambda>c. map (?key c) (claimMounts g c)) cs)" for cs
    unfolding map_concat map_map comp_def claimUnits_eq key ..
  ultimately show ?thesis using assms(1) by (simp add: flow_functional_def)
qed

lemma extractFlowUnits_perm:
  assumes "storage_ok g" and "flow_functional g" and "same_content g g'"
  shows "extractFlowUnits g' = extractFlowUnits g"
  unfolding extractFlowUnits_def
  using assms units_mset [of g g'] unit_keys_distinct [of g]
  by (intro sk.srt_order_free [symmetric]) (auto simp: storage_ok_def)

lemma fx_typed: "flow_typed fxGraph" "typed_owners fxGraph" "flow_functional fxGraph"
  by code_simp+

text \<open>The example graph with its nodes and edges listed in the opposite order.\<close>

definition fxShuffled :: "rat Graph" where
  "fxShuffled = fxGraph\<lparr> NodesByID := rev (NodesByID fxGraph), Edges := rev (Edges fxGraph) \<rparr>"

lemma fx_same: "same_content fxGraph fxShuffled"
  by (simp add: same_content_def fxShuffled_def)

section \<open>Properties\<close>

text \<open>
  C2: the view holds what the specification says: the nodes on the retained paths, the roots and the
  controllers owning an admitted aggregate; and between two ids there is an edge exactly when a
  retained path has that hop. A path is retained when it touches a root, its claim, pod and node are
  loaded and pass the filters, and, if no pod mounts its claim, the claim itself is a root.
\<close>

theorem ProjectStorage_refines_spec:
  assumes "wf_graph g"
  shows "(n \<in> set (view_Nodes (ProjectStorage mkid A (Some g) scope)) \<longleftrightarrow> storageViewSpec g scope (ID n) n) \<and>
    ((\<exists>x\<in>set (view_Edges (ProjectStorage mkid A (Some g) scope)). ends x = k) \<longleftrightarrow>
      (\<exists>u\<in>set (extractFlowUnits g). \<exists>e\<in>set (unit_edges u). ends e = k \<and>
         (sink u \<longrightarrow> claimID u \<in> rootHits g scope (claimRoot (ss_Roots scope))) \<and>
         (\<exists>i\<in>set (ids u). i \<in> rootHits g scope (\<lambda>n. storageRoot (ss_Roots scope) n
             \<or> workloadRoot (ss_Roots scope) n \<or> appRoot (ss_Roots scope) n \<and> Type n = NodeTypePVC)) \<and>
         (\<forall>i\<in>{claimID u, podID u, nodeID u} - {[]}. \<exists>n. gm_get (NodesByID g) i = Some n
             \<and> workloadPassesFilters n scope (ClusterRawName (Some g)))))"
proof -
  let ?rid = "resolveStorageRoots g scope"
  have hit: "intersects u is \<longleftrightarrow> (\<exists>i\<in>set (ids u). i \<in> set is)" for u :: "'a flowUnit" and "is"
    by (auto simp: intersects_def list_ex_iff)
  have pass: "passesFilters u g scope raw \<longleftrightarrow> (\<forall>i\<in>{claimID u, podID u, nodeID u} - {[]}.
      \<exists>n. gm_get (NodesByID g) i = Some n \<and> workloadPassesFilters n scope raw)" for u raw
  proof -
    have "(case gm_get (NodesByID g) i of None \<Rightarrow> False | Some n \<Rightarrow> workloadPassesFilters n scope raw)
        \<longleftrightarrow> (\<exists>n. gm_get (NodesByID g) i = Some n \<and> workloadPassesFilters n scope raw)" for i
      by (simp split: option.split)
    then show ?thesis unfolding passesFilters_def by auto
  qed
  have retain: "retainUnit g scope ?rid u \<longleftrightarrow>
      (sink u \<longrightarrow> claimID u \<in> rootHits g scope (claimRoot (ss_Roots scope))) \<and>
      (\<exists>i\<in>set (ids u). i \<in> rootHits g scope (\<lambda>n. storageRoot (ss_Roots scope) n
          \<or> workloadRoot (ss_Roots scope) n \<or> appRoot (ss_Roots scope) n \<and> Type n = NodeTypePVC)) \<and>
      passesFilters u g scope (ClusterRawName (Some g))" for u
    unfolding retainUnit_def hit resolveStorageRoots_sets [OF assms] by (auto simp: rootHits_def)
  have "(\<exists>x\<in>set (view_Edges (ProjectStorage mkid A (Some g) scope)). ends x = k)
      \<longleftrightarrow> k \<in> ends ` set (weightRetained mkid A (retainedUnits g scope))"
    by (auto simp: ProjectStorage_nodes(4) [OF assms])
  also have "\<dots> \<longleftrightarrow> (\<exists>u\<in>set (extractFlowUnits g). \<exists>e\<in>set (unit_edges u). ends e = k \<and> retainUnit g scope ?rid u)"
    unfolding weightRetained_ends by (auto simp: retainedUnits_def)
  finally show ?thesis
    unfolding retain pass using ProjectStorage_nodes(1) [OF assms] by blast
qed

theorem ProjectStorage_refines_spec_witness:
  "storageViewSpec fxGraph (fxScope ''pv'' [''pv-z'']) (PVCID ''a'' ''shop'' ''z'') (fxClaim ''z'')"
proof -
  have i: "ID (fxClaim ''z'') = PVCID ''a'' ''shop'' ''z''" by code_simp
  have "fxClaim ''z'' \<in> set (view_Nodes (ProjectStorage (\<lambda>k. k) exact (Some fxGraph) (fxScope ''pv'' [''pv-z''])))"
    by code_simp
  then have "storageViewSpec fxGraph (fxScope ''pv'' [''pv-z'']) (ID (fxClaim ''z'')) (fxClaim ''z'')"
    by (rule ProjectStorage_refines_spec [OF fx_wf, THEN conjunct1, THEN iffD1])
  then show ?thesis by (simp only: i)
qed

text \<open>
  The cluster and namespace filters hold for the Kubernetes side of the view: every pod, claim and
  Kubernetes node of it, whether it lies on a path or is a root, is in a selected cluster, and every
  pod and claim in a selected namespace.
\<close>

theorem ProjectStorage_filters:
  assumes "storage_ok g" and "typed_owners g" and "flow_typed g"
    and "n \<in> set (view_Nodes (ProjectStorage mkid A (Some g) scope))"
    and "Type n \<in> {NodeTypePod, NodeTypePVC, NodeTypeK8sNode}"
  shows "(ss_Clusters scope \<noteq> [] \<longrightarrow>
           ClusterRawName (Some g) (label n ''cluster'') \<in> set (ss_Clusters scope)) \<and>
    (ss_Namespaces scope \<noteq> [] \<and> Type n \<noteq> NodeTypeK8sNode \<longrightarrow>
           label n ''namespace'' \<in> set (ss_Namespaces scope))"
proof -
  have wf: "wf_graph g" and sc: "storage_closed g" using assms(1) by (simp_all add: storage_ok_def)
  have spec: "storageViewSpec g scope (ID n) n" using assms(4) by (simp add: ProjectStorage_nodes(1) [OF wf])
  then have get: "gm_get (NodesByID g) (ID n) = Some n"
    by (auto simp: storageViewSpec_def flowSpec_def)
  have "flowSpec g scope (ID n) n"
    using assms(5) by (intro storageView_flow [OF wf assms(2) spec]) auto
  then consider u where "u \<in> set (retainedUnits g scope)" "ID n \<in> set (ids u)"
    | "workloadPassesFilters n scope (ClusterRawName (Some g))"
    using assms(5) by (auto simp: flowSpec_def storageRoot_def)
  then have "workloadPassesFilters n scope (ClusterRawName (Some g))"
  proof cases
    case 1
    have "\<not> netappNode g (ID n)" using get assms(5) by (auto simp: netappNode_def)
    then have "ID n \<in> {claimID u, podID u, nodeID u}" "ID n \<noteq> []"
      using unit_storage_ids [OF sc retained_in [OF 1(1)] 1(2)] by blast+
    from retained_workload [OF 1(1) this] show ?thesis using get by simp
  qed
  then show ?thesis using assms(5) by (auto simp: workloadPassesFilters_def)
qed

theorem ProjectStorage_filters_witness:
  "label (fxClaim ''d'') ''namespace'' \<in> set (ss_Namespaces (fxScope ''svm'' [''s1'']\<lparr> ss_Namespaces := [''shop''] \<rparr>))"
proof -
  have "fxClaim ''d'' \<in> set (view_Nodes (ProjectStorage (\<lambda>k. k) exact (Some fxGraph)
      (fxScope ''svm'' [''s1'']\<lparr> ss_Namespaces := [''shop''] \<rparr>)))" by code_simp
  moreover have "Type (fxClaim ''d'') \<in> {NodeTypePod, NodeTypePVC, NodeTypeK8sNode}"
    and "Type (fxClaim ''d'') \<noteq> NodeTypeK8sNode" by (simp_all add: fxClaim_def)
  moreover have "ss_Namespaces (fxScope ''svm'' [''s1'']\<lparr> ss_Namespaces := [''shop''] \<rparr>) \<noteq> []" by simp
  ultimately show ?thesis using ProjectStorage_filters [OF fx_ok fx_typed(2,1)] by blast
qed

text \<open>
  C33: a claim no retained pod mounts is drawn for a claim root only. Every claim of the view either is
  named by the pvc or pv root of the request, or has an edge of the view to a pod that mounts it.
\<close>

theorem ProjectStorage_claims_mounted:
  assumes "storage_ok g" and "typed_owners g" and "flow_typed g"
    and "n \<in> set (view_Nodes (ProjectStorage mkid A (Some g) scope))" and "Type n = NodeTypePVC"
  shows "claimRoot (ss_Roots scope) n \<or>
    (\<exists>x\<in>set (view_Edges (ProjectStorage mkid A (Some g) scope)).
       Source x = ID n \<and> (\<exists>e\<in>set (mountEdges g (ID n)). Target x = Target e))"
proof -
  have wf: "wf_graph g" using assms(1) by (simp add: storage_ok_def)
  have spec: "storageViewSpec g scope (ID n) n" using assms(4) by (simp add: ProjectStorage_nodes(1) [OF wf])
  then have get: "gm_get (NodesByID g) (ID n) = Some n" by (auto simp: storageViewSpec_def flowSpec_def)
  have "flowSpec g scope (ID n) n"
    using assms(5) by (intro storageView_flow [OF wf assms(2) spec]) auto
  then consider u where "u \<in> set (retainedUnits g scope)" "ID n \<in> set (ids u)" | "claimRoot (ss_Roots scope) n"
    using assms(5) by (auto simp: flowSpec_def storageRoot_def workloadRoot_def)
  then show ?thesis
  proof cases
    case 1
    have c: "ID n = claimID u" by (rule unit_claim [OF assms(1,3) 1 get assms(5)])
    obtain claim pe where u: "claim \<in> set (tierEdges g StorageTierSVMPVC)"
      "pe \<in> set (claimMounts g claim)" "u = unitOf g claim pe"
      using retained_in [OF 1(1)] by (auto simp: units_iff)
    show ?thesis
    proof (cases pe)
      case None
      then have "claimID u \<in> set (rid_claimRoots (resolveStorageRoots g scope))"
        using 1(1) u(3) by (auto simp: retainedUnits_def retainUnit_def)
      then have "ID n \<in> rootHits g scope (claimRoot (ss_Roots scope))"
        unfolding c [symmetric] by (simp only: resolveStorageRoots_sets(4) [OF wf])
      then show ?thesis using get unfolding rootHits_def by auto
    next
      case (Some e)
      have e: "e \<in> set (unit_edges u)" using u(3) Some by (simp add: unitOf_edges)
      have "Source e = ID n" "e \<in> set (mountEdges g (ID n))"
        using claimMounts_in(1) [of e g claim] u(2,3) Some c by (auto simp: mountEdges_def)
      moreover have "ends e \<in> ends ` set (view_Edges (ProjectStorage mkid A (Some g) scope))"
        unfolding ProjectStorage_nodes(4) [OF wf] edge_sort.srt_set weightRetained_ends using 1(1) e by blast
      ultimately show ?thesis by (force simp: ends_def)
    qed
  qed simp
qed

theorem ProjectStorage_claims_mounted_witness:
  "\<exists>x\<in>set (view_Edges (fxView ''svm'' [''s1''])). Source x = ID (fxClaim ''d'')
     \<and> (\<exists>e\<in>set (mountEdges fxGraph (ID (fxClaim ''d''))). Target x = Target e)"
proof -
  have "fxClaim ''d'' \<in> set (view_Nodes (fxView ''svm'' [''s1'']))" by code_simp
  moreover have "Type (fxClaim ''d'') = NodeTypePVC" by (simp add: fxClaim_def)
  moreover have "\<not> claimRoot (ss_Roots (fxScope ''svm'' [''s1''])) (fxClaim ''d'')" by code_simp
  ultimately show ?thesis
    using ProjectStorage_claims_mounted [OF fx_ok fx_typed(2,1)] unfolding fxView_def by blast
qed

text \<open>
  A root that names nothing draws nothing. When no node of the graph is hit by the request's root,
  be it absent, misspelt or of another kind, the view is empty.
\<close>

theorem ProjectStorage_no_root_empty:
  assumes "wf_graph g"
    and "rootHits g scope (\<lambda>n. storageRoot (ss_Roots scope) n \<or> workloadRoot (ss_Roots scope) n
           \<or> appRoot (ss_Roots scope) n \<and> Type n = NodeTypePVC) = {}"
  shows "ProjectStorage mkid A (Some g) scope = \<lparr> view_Nodes = [], view_Edges = [] \<rparr>"
proof -
  let ?v = "ProjectStorage mkid A (Some g) scope"
  have none: "\<not> (StorageRoots_Any (ss_Roots scope) \<and> gm_get (NodesByID g) i = Some n \<and>
      (storageRoot (ss_Roots scope) n \<or> workloadRoot (ss_Roots scope) n
        \<or> appRoot (ss_Roots scope) n \<and> Type n = NodeTypePVC))" for i n
    using assms(2) by (auto simp: rootHits_def)
  have "\<not> retainUnit g scope (resolveStorageRoots g scope) u" for u
  proof -
    have "set (rid_storage (resolveStorageRoots g scope)) = {}" "set (rid_workload (resolveStorageRoots g scope)) = {}"
      "set (rid_claimHits (resolveStorageRoots g scope)) = {}"
      unfolding resolveStorageRoots_sets [OF assms(1)] rootHits_def using none by blast+
    then show ?thesis by (simp add: retainUnit_def intersects_def)
  qed
  then have R: "retainedUnits g scope = []" by (simp add: retainedUnits_def)
  then have "view_Edges ?v = []"
    by (simp add: ProjectStorage_nodes(4) [OF assms(1)] weightRetained_def hops_def SortEdges_def)
  moreover have "\<not> flowSpec g scope i n" for i n
    unfolding flowSpec_def R using none [of i n] by auto
  then have "view_Nodes ?v = []"
    using ProjectStorage_nodes(1) [OF assms(1), of _ mkid A scope] unfolding storageViewSpec_def
    by (metis list.set_intros(1) neq_Nil_conv)
  ultimately show ?thesis by simp
qed

theorem ProjectStorage_no_root_empty_witness:
  "fxView ''aggr'' [''typo''] = \<lparr> view_Nodes = [], view_Edges = [] \<rparr>"
  unfolding fxView_def
proof (rule ProjectStorage_no_root_empty [OF fx_wf])
  let ?P = "\<lambda>n. storageRoot (ss_Roots (fxScope ''aggr'' [''typo''])) n
     \<or> workloadRoot (ss_Roots (fxScope ''aggr'' [''typo''])) n
     \<or> appRoot (ss_Roots (fxScope ''aggr'' [''typo''])) n \<and> Type n = NodeTypePVC"
  have "list_all (\<lambda>(i, n). \<not> ?P n) (NodesByID fxGraph)" by code_simp
  then show "rootHits fxGraph (fxScope ''aggr'' [''typo'']) ?P = {}"
    by (fastforce simp: rootHits_def list_all_iff dest: gm_get_in)
qed

text \<open>
  C14: the storage view is a function of the graph's contents. Neither the iteration order of the node
  map nor the order of the edge slice changes it, and neither does the order in which the table of
  weighted edges is ranged over, provided their ids differ. This holds for every arithmetic, rounding
  included, because the shares of an edge are added in (claim, pod) order.
\<close>

theorem ProjectStorage_deterministic:
  assumes "storage_ok g" and "flow_functional g" and "same_content g g'"
    and "distinct (map EdgeID (view_Edges (ProjectStorage mkid A (Some g) scope)))"
  shows "ProjectStorage mkid A (Some g') scope = ProjectStorage mkid A (Some g) scope \<and>
    (\<forall>es. mset es = mset (weightRetained mkid A (retainedUnits g scope)) \<longrightarrow>
       SortEdges es = view_Edges (ProjectStorage mkid A (Some g') scope))"
proof -
  have wf: "wf_graph g" using assms(1) by (simp add: storage_ok_def)
  note same = same_contentD [OF wf assms(3)]
  have hits: "rootHits g' scope P = rootHits g scope P" for P by (simp add: rootHits_def same(1))
  have rid: "set (sel (resolveStorageRoots g' scope)) = set (sel (resolveStorageRoots g scope))"
    if "sel \<in> {rid_storage, rid_workload, rid_claimHits, rid_claimRoots}" for sel
    using that by (auto simp: resolveStorageRoots_sets [OF wf] resolveStorageRoots_sets [OF same(4)] hits)
  have retain: "retainUnit g' scope (resolveStorageRoots g' scope) = retainUnit g scope (resolveStorageRoots g scope)"
  proof
    fix u :: "'a flowUnit"
    have "intersects u is = intersects u is'" if "set is = set is'" for "is" is'
      using that by (auto simp: intersects_def)
    then have "intersects u (sel (resolveStorageRoots g' scope)) = intersects u (sel (resolveStorageRoots g scope))"
      if "sel \<in> {rid_storage, rid_workload, rid_claimHits, rid_claimRoots}" for sel
      using rid [OF that] by blast
    then show "retainUnit g' scope (resolveStorageRoots g' scope) u = retainUnit g scope (resolveStorageRoots g scope) u"
      using rid [of rid_claimRoots] by (simp add: retainUnit_def passesFilters_def same(1,3))
  qed
  have R: "retainedUnits g' scope = retainedUnits g scope"
    by (simp add: retainedUnits_def retain extractFlowUnits_perm [OF assms(1-3)])
  have flow: "flowSpec g' scope = flowSpec g scope"
    by (simp add: flowSpec_def fun_eq_iff same(1,3) R)
  have spec: "storageViewSpec g' scope = storageViewSpec g scope"
    by (simp add: storageViewSpec_def fun_eq_iff same(1) flow)
  let ?v = "ProjectStorage mkid A (Some g) scope" and ?v' = "ProjectStorage mkid A (Some g') scope"
  have "view_Nodes ?v' = view_Nodes ?v"
  proof (rule map_sorted_distinct_set_unique [of "\<lambda>n. ID n"])
    show "set (view_Nodes ?v') = set (view_Nodes ?v)"
      by (auto simp: ProjectStorage_nodes(1) [OF wf] ProjectStorage_nodes(1) [OF same(4)] spec)
    then show "inj_on (\<lambda>n. ID n) (set (view_Nodes ?v') \<union> set (view_Nodes ?v))"
      using ProjectStorage_nodes(3) [OF wf, of mkid A scope] by (simp add: distinct_map)
  qed (rule ProjectStorage_nodes [OF wf] ProjectStorage_nodes [OF same(4)])+
  moreover have "view_Edges ?v' = view_Edges ?v"
    by (simp add: ProjectStorage_nodes(4) [OF wf] ProjectStorage_nodes(4) [OF same(4)] R)
  ultimately have "?v' = ?v" by (metis (full_types) View.surjective unit.exhaust)
  moreover have "SortEdges es = view_Edges ?v" if es: "mset es = mset (weightRetained mkid A (retainedUnits g scope))" for es
  proof -
    have "distinct (map EdgeID (weightRetained mkid A (retainedUnits g scope)))"
      using assms(4) by (simp add: ProjectStorage_nodes(4) [OF wf] edge_sort.srt_distinct)
    then have "distinct (map EdgeID es)" using es by (metis mset_map mset_eq_imp_distinct_iff)
    then show ?thesis using edge_sort.srt_order_free [OF es] by (simp add: ProjectStorage_nodes(4) [OF wf])
  qed
  ultimately show ?thesis by simp
qed

theorem ProjectStorage_deterministic_witness:
  "ProjectStorage (\<lambda>k. k) exact (Some fxShuffled) (fxScope ''svm'' [''s1''])
     = ProjectStorage (\<lambda>k. k) exact (Some fxGraph) (fxScope ''svm'' [''s1''])"
proof -
  have "distinct (map EdgeID (view_Edges (ProjectStorage (\<lambda>k. k) exact (Some fxGraph) (fxScope ''svm'' [''s1'']))))"
    by code_simp
  then show ?thesis by (rule ProjectStorage_deterministic [OF fx_ok fx_typed(3) fx_same, THEN conjunct1])
qed

end
