(* ===== verification/K8sProjection.thy ===== *)
theory K8sProjection
  imports StorageContents
begin

text \<open>
  The Kubernetes-only view: \<open>pkg/graph/project_k8s.go\<close>.

  \<open>ProjectK8s\<close> keeps the pods that are roots or run on a root node, the claims they mount and the
  nodes they run on. The lemmas give the kept pods, the edges and the nodes of the view in terms of
  the graph; the view is the third provider of the \<open>projection\<close> interface.

  The code reads \<open>g.NodesByID[id]\<close> for a resolved root without testing it; in a well-formed graph a
  resolved root is loaded, and the model skips the missing case.
\<close>

section \<open>The projection\<close>

definition resolveK8sRoots :: "'f Graph \<Rightarrow> StorageScope \<Rightarrow> string list \<times> string list" where
  "resolveK8sRoots g scope =
     (if roots_Kind (ss_Roots scope) \<notin> {StorageRootNode, StorageRootPod} then ([], [])
      else fold (\<lambda>i (nodeRoots, podRoots).
             case gm_get (NodesByID g) i of
               None \<Rightarrow> (nodeRoots, podRoots)
             | Some n \<Rightarrow>
                 if \<not> workloadPassesFilters n scope (ClusterRawName (Some g)) then (nodeRoots, podRoots)
                 else if Type n = NodeTypeK8sNode then (List.insert i nodeRoots, podRoots)
                 else if Type n = NodeTypePod then (nodeRoots, List.insert i podRoots)
                 else (nodeRoots, podRoots))
           (rid_workload (resolveStorageRoots g scope)) ([], []))"

text \<open>The scan of the edges: those a pod owns, and the pods that run on a root node.\<close>

fun podEdgeStep :: "string list \<Rightarrow> 'f Edge \<Rightarrow> 'f Edge list \<times> string list \<Rightarrow> 'f Edge list \<times> string list" where
  "podEdgeStep nodeRoots e (podEdges, runsOnRoot) =
     (case EType e of
        EdgeTypePodToNode \<Rightarrow>
          (podEdges @ [e], if Target e \<in> set nodeRoots then List.insert (Source e) runsOnRoot else runsOnRoot)
      | EdgeTypePodMountsPVC \<Rightarrow> (podEdges @ [e], runsOnRoot)
      | _ \<Rightarrow> (podEdges, runsOnRoot))"

fun keepEdgeStep ::
  "'f Graph \<Rightarrow> StorageScope \<Rightarrow> (string, 'f GraphNode) gomap \<Rightarrow> 'f Edge
     \<Rightarrow> (string, 'f GraphNode) gomap \<times> 'f Edge list \<Rightarrow> (string, 'f GraphNode) gomap \<times> 'f Edge list" where
  "keepEdgeStep g scope pods e (nodes, edges) =
     (if \<not> gm_has pods (Source e) then (nodes, edges)
      else (case gm_get (NodesByID g) (Target e) of
              None \<Rightarrow> (nodes, edges)
            | Some target \<Rightarrow>
                if \<not> workloadPassesFilters target scope (ClusterRawName (Some g)) then (nodes, edges)
                else (gm_put (Target e) target nodes, edges @ [e])))"

definition putNode ::
  "'f Graph \<Rightarrow> ('f GraphNode \<Rightarrow> bool) \<Rightarrow> string \<Rightarrow> (string, 'f GraphNode) gomap \<Rightarrow> (string, 'f GraphNode) gomap" where
  "putNode g P i m =
     (case gm_get (NodesByID g) i of None \<Rightarrow> m | Some n \<Rightarrow> if P n then gm_put i n m else m)"

definition ProjectK8s :: "'f Graph option \<Rightarrow> StorageScope \<Rightarrow> 'f View" where
  "ProjectK8s g scope =
     (case g of
        None \<Rightarrow> \<lparr> view_Nodes = [], view_Edges = [] \<rparr>
      | Some gr \<Rightarrow>
          let (nodeRoots, podRoots) = resolveK8sRoots gr scope in
          if length nodeRoots + length podRoots = 0 then \<lparr> view_Nodes = [], view_Edges = [] \<rparr>
          else
            let rawName = ClusterRawName (Some gr);
                (podEdges, runsOnRoot) = fold (podEdgeStep nodeRoots) (Edges gr) ([], []);
                pods = fold (putNode gr (\<lambda>n. True)) podRoots [];
                pods = fold (putNode gr (\<lambda>n. Type n = NodeTypePod \<and> workloadPassesFilters n scope rawName))
                         runsOnRoot pods;
                nodes = fold (\<lambda>(i, n). gm_put i n) pods [];
                (nodes, edges) = fold (keepEdgeStep gr scope pods) podEdges (nodes, []);
                nodes = fold (putNode gr (\<lambda>n. True)) nodeRoots nodes
            in \<lparr> view_Nodes = SortNodes (map snd nodes), view_Edges = SortEdges edges \<rparr>)"

section \<open>Specification\<close>

definition k8sRoot :: "'f Graph \<Rightarrow> StorageScope \<Rightarrow> NodeType \<Rightarrow> string \<Rightarrow> 'f GraphNode \<Rightarrow> bool" where
  "k8sRoot g scope t i n =
     (gm_get (NodesByID g) i = Some n \<and> Type n = t \<and> StorageRoots_Any (ss_Roots scope)
      \<and> roots_Kind (ss_Roots scope) \<in> {StorageRootNode, StorageRootPod}
      \<and> workloadRoot (ss_Roots scope) n
      \<and> workloadPassesFilters n scope (ClusterRawName (Some g)))"

definition keptPod :: "'f Graph \<Rightarrow> StorageScope \<Rightarrow> string \<Rightarrow> 'f GraphNode \<Rightarrow> bool" where
  "keptPod g scope i n =
     (k8sRoot g scope NodeTypePod i n
      \<or> gm_get (NodesByID g) i = Some n \<and> Type n = NodeTypePod
        \<and> workloadPassesFilters n scope (ClusterRawName (Some g))
        \<and> (\<exists>e\<in>set (Edges g). EType e = EdgeTypePodToNode \<and> Source e = i
             \<and> (\<exists>m. k8sRoot g scope NodeTypeK8sNode (Target e) m)))"

definition keptEdge :: "'f Graph \<Rightarrow> StorageScope \<Rightarrow> 'f Edge \<Rightarrow> bool" where
  "keptEdge g scope e =
     (EType e \<in> {EdgeTypePodToNode, EdgeTypePodMountsPVC} \<and> (\<exists>p. keptPod g scope (Source e) p)
      \<and> (\<exists>t. gm_get (NodesByID g) (Target e) = Some t
             \<and> workloadPassesFilters t scope (ClusterRawName (Some g))))"

definition k8sViewSpec :: "'f Graph \<Rightarrow> StorageScope \<Rightarrow> string \<Rightarrow> 'f GraphNode \<Rightarrow> bool" where
  "k8sViewSpec g scope i n =
     (gm_get (NodesByID g) i = Some n \<and>
      (keptPod g scope i n \<or> k8sRoot g scope NodeTypeK8sNode i n
       \<or> (\<exists>e\<in>set (Edges g). keptEdge g scope e \<and> Target e = i)))"

section \<open>The steps\<close>

lemma resolveK8sRoots_sets:
  assumes wf: "wf_graph g"
  shows "set (fst (resolveK8sRoots g scope)) = {i. \<exists>n. k8sRoot g scope NodeTypeK8sNode i n}"
    and "set (snd (resolveK8sRoots g scope)) = {i. \<exists>n. k8sRoot g scope NodeTypePod i n}"
proof -
  let ?pass = "\<lambda>n. workloadPassesFilters n scope (ClusterRawName (Some g))"
  let ?step = "\<lambda>i (nodeRoots, podRoots).
             case gm_get (NodesByID g) i of
               None \<Rightarrow> (nodeRoots, podRoots)
             | Some n \<Rightarrow>
                 if \<not> ?pass n then (nodeRoots, podRoots)
                 else if Type n = NodeTypeK8sNode then (List.insert i nodeRoots, podRoots)
                 else if Type n = NodeTypePod then (nodeRoots, List.insert i podRoots)
                 else (nodeRoots, podRoots)"
  have one: "set (fst (?step i st)) = set (fst st) \<union>
        {j. j = i \<and> (\<exists>n. gm_get (NodesByID g) j = Some n \<and> ?pass n \<and> Type n = NodeTypeK8sNode)}"
    "set (snd (?step i st)) = set (snd st) \<union>
        {j. j = i \<and> (\<exists>n. gm_get (NodesByID g) j = Some n \<and> ?pass n \<and> Type n = NodeTypePod)}" for i st
    by (cases st; auto split: option.splits)+
  have all: "set (fst (fold ?step is st)) = set (fst st) \<union>
        {j. j \<in> set is \<and> (\<exists>n. gm_get (NodesByID g) j = Some n \<and> ?pass n \<and> Type n = NodeTypeK8sNode)}"
    "set (snd (fold ?step is st)) = set (snd st) \<union>
        {j. j \<in> set is \<and> (\<exists>n. gm_get (NodesByID g) j = Some n \<and> ?pass n \<and> Type n = NodeTypePod)}" for "is" st
  proof (induction "is" arbitrary: st)
    case (Cons i "is")
    {
      case 1 show ?case using Cons(1) [of "?step i st"] unfolding fold_simps one by auto
    next
      case 2 show ?case using Cons(2) [of "?step i st"] unfolding fold_simps one by auto
    }
  qed auto
  show "set (fst (resolveK8sRoots g scope)) = {i. \<exists>n. k8sRoot g scope NodeTypeK8sNode i n}"
  proof (cases "roots_Kind (ss_Roots scope) \<in> {StorageRootNode, StorageRootPod}")
    case True
    then have "resolveK8sRoots g scope = fold ?step (rid_workload (resolveStorageRoots g scope)) ([], [])"
      by (simp only: resolveK8sRoots_def if_not_P not_not)
    then show ?thesis using True
      by (simp only: all resolveStorageRoots_sets(2) [OF wf]) (auto simp: k8sRoot_def rootHits_def)
  qed (auto simp: resolveK8sRoots_def k8sRoot_def)
  show "set (snd (resolveK8sRoots g scope)) = {i. \<exists>n. k8sRoot g scope NodeTypePod i n}"
  proof (cases "roots_Kind (ss_Roots scope) \<in> {StorageRootNode, StorageRootPod}")
    case True
    then have "resolveK8sRoots g scope = fold ?step (rid_workload (resolveStorageRoots g scope)) ([], [])"
      by (simp only: resolveK8sRoots_def if_not_P not_not)
    then show ?thesis using True
      by (simp only: all resolveStorageRoots_sets(2) [OF wf]) (auto simp: k8sRoot_def rootHits_def)
  qed (auto simp: resolveK8sRoots_def k8sRoot_def)
qed

lemma podEdge_scan_fst:
  "fst (fold (podEdgeStep nr) es st)
     = fst st @ filter (\<lambda>e. EType e \<in> {EdgeTypePodToNode, EdgeTypePodMountsPVC}) es"
proof (induction es arbitrary: st)
  case (Cons e es)
  have "fst (podEdgeStep nr e st) = fst st @ filter (\<lambda>e. EType e \<in> {EdgeTypePodToNode, EdgeTypePodMountsPVC}) [e]"
    by (cases st; cases "EType e") auto
  then show ?case using Cons.IH [of "podEdgeStep nr e st"] by simp
qed simp

lemma podEdge_scan_snd:
  "set (snd (fold (podEdgeStep nr) es st))
     = set (snd st) \<union> {Source e | e. e \<in> set es \<and> EType e = EdgeTypePodToNode \<and> Target e \<in> set nr}"
proof (induction es arbitrary: st)
  case (Cons e es)
  have "set (snd (podEdgeStep nr e st))
      = set (snd st) \<union> (if EType e = EdgeTypePodToNode \<and> Target e \<in> set nr then {Source e} else {})"
    by (cases st; cases "EType e") auto
  then show ?case using Cons.IH [of "podEdgeStep nr e st"] by auto
qed simp

lemma putNode_fold:
  assumes "subnodes g m"
  shows "subnodes g (fold (putNode g P) is m)
    \<and> (\<forall>j n. gm_get (fold (putNode g P) is m) j = Some n
        \<longleftrightarrow> gm_get m j = Some n \<or> j \<in> set is \<and> gm_get (NodesByID g) j = Some n \<and> P n)"
  using assms
proof (induction "is" arbitrary: m)
  case (Cons i "is")
  let ?m = "putNode g P i m"
  have "subnodes g ?m" using Cons.prems by (simp add: putNode_def subnodes_put split: option.split)
  moreover have "gm_get ?m j = Some n \<longleftrightarrow> gm_get m j = Some n \<or> j = i \<and> gm_get (NodesByID g) j = Some n \<and> P n" for j n
    using subnodesD(2) [OF Cons.prems, of j] by (auto simp: putNode_def split: option.splits)
  ultimately show ?case using Cons.IH [of ?m] by auto
qed simp

text \<open>The loop that keeps an edge and files its target.\<close>

definition keepable :: "'f Graph \<Rightarrow> StorageScope \<Rightarrow> (string, 'f GraphNode) gomap \<Rightarrow> 'f Edge \<Rightarrow> bool" where
  "keepable g scope pods e =
     (gm_has pods (Source e) \<and> (\<exists>t. gm_get (NodesByID g) (Target e) = Some t
        \<and> workloadPassesFilters t scope (ClusterRawName (Some g))))"

lemma keepEdgeStep_eq:
  "keepEdgeStep g scope pods e (m, out) =
     (if keepable g scope pods e then (gm_put (Target e) (the (gm_get (NodesByID g) (Target e))) m, out @ [e])
      else (m, out))"
  by (auto simp: keepable_def split: option.split)

lemma keepEdge_scan_edges:
  "snd (fold (keepEdgeStep g scope pods) es (m, out)) = out @ filter (keepable g scope pods) es"
  by (induction es arbitrary: m out) (simp_all add: keepEdgeStep_eq del: keepEdgeStep.simps)

lemma keepEdge_scan_nodes:
  assumes "subnodes g m"
  shows "subnodes g (fst (fold (keepEdgeStep g scope pods) es (m, out)))
    \<and> (\<forall>j n. gm_get (fst (fold (keepEdgeStep g scope pods) es (m, out))) j = Some n \<longleftrightarrow> gm_get m j = Some n
         \<or> gm_get (NodesByID g) j = Some n \<and> (\<exists>e\<in>set es. keepable g scope pods e \<and> Target e = j))"
  using assms
proof (induction es arbitrary: m out)
  case (Cons e es)
  show ?case
  proof (cases "keepable g scope pods e")
    case True
    then obtain t where t: "gm_get (NodesByID g) (Target e) = Some t" by (auto simp: keepable_def)
    have step: "keepEdgeStep g scope pods e (m, out) = (gm_put (Target e) t m, out @ [e])"
      using True t by (simp only: keepEdgeStep_eq if_True option.sel)
    have sub: "subnodes g (gm_put (Target e) t m)" using Cons.prems t by (rule subnodes_put)
    have one: "gm_get (gm_put (Target e) t m) j = Some n
        \<longleftrightarrow> gm_get m j = Some n \<or> gm_get (NodesByID g) j = Some n \<and> Target e = j" for j n
      using t subnodesD(2) [OF Cons.prems, of j] by auto
    show ?thesis
      unfolding fold_simps step using Cons.IH [OF sub, of "out @ [e]"] True by (auto simp only: one list.set)
  next
    case False
    have "keepEdgeStep g scope pods e (m, out) = (m, out)" using False by (simp only: keepEdgeStep_eq if_False)
    then show ?thesis unfolding fold_simps using Cons.IH [OF Cons.prems, of out] False by auto
  qed
qed simp

lemma fold_put_copy: "gm_wf (acc @ m) \<Longrightarrow> fold (\<lambda>(i, n). gm_put i n) m acc = acc @ m"
proof (induction m arbitrary: acc)
  case (Cons x m)
  obtain i n where x: "x = (i, n)" by fastforce
  have "gm_put i n acc = acc @ [(i, n)]"
    using Cons.prems x by (intro gm_put_new) (auto simp: gm_wf_def)
  then show ?case using Cons.IH [of "acc @ [(i, n)]"] Cons.prems x by simp
qed simp

section \<open>Refinement\<close>

lemma k8sRoot_node: "k8sRoot g scope t i n \<Longrightarrow> gm_get (NodesByID g) i = Some n"
  by (simp add: k8sRoot_def)

lemma k8sRoot_unique:
  "i \<in> {i. \<exists>n. k8sRoot g scope t i n} \<and> gm_get (NodesByID g) i = Some n \<and> True \<longleftrightarrow> k8sRoot g scope t i n"
  by (auto simp: k8sRoot_def)

lemma keptPod_node:
  "keptPod g scope i n \<Longrightarrow> gm_get (NodesByID g) i = Some n \<and> Type n = NodeTypePod
     \<and> workloadPassesFilters n scope (ClusterRawName (Some g))"
  by (auto simp: keptPod_def k8sRoot_def)

lemma ProjectK8s_refines:
  assumes wf: "wf_graph g"
  obtains nodes where
    "ProjectK8s (Some g) scope = \<lparr> view_Nodes = SortNodes (map snd nodes),
       view_Edges = SortEdges (filter (keptEdge g scope) (Edges g)) \<rparr>"
    and "subnodes g nodes" and "\<And>i n. gm_get nodes i = Some n \<longleftrightarrow> k8sViewSpec g scope i n"
proof -
  obtain nr pr where roots: "resolveK8sRoots g scope = (nr, pr)" by fastforce
  have nr: "set nr = {i. \<exists>n. k8sRoot g scope NodeTypeK8sNode i n}"
    and pr: "set pr = {i. \<exists>n. k8sRoot g scope NodeTypePod i n}"
    using resolveK8sRoots_sets [OF wf, of scope] by (simp_all add: roots)
  show ?thesis
  proof (cases "nr = [] \<and> pr = []")
    case True
    then have no: "\<not> k8sRoot g scope NodeTypeK8sNode i n" "\<not> k8sRoot g scope NodeTypePod i n" for i n
      using nr pr by auto
    then have "\<not> keptPod g scope i n" for i n by (simp add: keptPod_def)
    then have "\<not> keptEdge g scope e" "\<not> k8sViewSpec g scope i n" for e i n
      using no by (auto simp: keptEdge_def k8sViewSpec_def)
    then show ?thesis using True
      by (intro that [of "[]"]) (simp_all add: ProjectK8s_def roots SortNodes_def SortEdges_def subnodes_Nil)
  next
    case False
    let ?pass = "\<lambda>n. Type n = NodeTypePod \<and> workloadPassesFilters n scope (ClusterRawName (Some g))"
    obtain pe ror where scan: "fold (podEdgeStep nr) (Edges g) ([], []) = (pe, ror)" by fastforce
    have pe: "pe = filter (\<lambda>e. EType e \<in> {EdgeTypePodToNode, EdgeTypePodMountsPVC}) (Edges g)"
      using podEdge_scan_fst [of nr "Edges g" "([], [])"] scan by simp
    have ror: "set ror = {Source e | e. e \<in> set (Edges g) \<and> EType e = EdgeTypePodToNode \<and> Target e \<in> set nr}"
      using podEdge_scan_snd [of nr "Edges g" "([], [])"] scan by simp
    let ?p1 = "fold (putNode g (\<lambda>n. True)) pr []" and ?pods = "fold (putNode g ?pass) ror (fold (putNode g (\<lambda>n. True)) pr [])"
    note p1 = putNode_fold [OF subnodes_Nil, of g "\<lambda>n. True" pr]
    note p2 = putNode_fold [OF conjunct1 [OF p1], of ?pass ror]
    have pods: "gm_get ?pods i = Some n \<longleftrightarrow> keptPod g scope i n" for i n
      using p1 p2 k8sRoot_node [of g scope NodeTypePod i] unfolding keptPod_def ror pr nr by auto
    have copy: "fold (\<lambda>(i, n). gm_put i n) ?pods [] = ?pods"
      using fold_put_copy [of "[]" ?pods] subnodesD(1) [OF conjunct1 [OF p2]] by simp
    obtain nodes edges where keep: "fold (keepEdgeStep g scope ?pods) pe (?pods, []) = (nodes, edges)" by fastforce
    have kp: "keepable g scope ?pods e \<and> EType e \<in> {EdgeTypePodToNode, EdgeTypePodMountsPVC} \<longleftrightarrow> keptEdge g scope e" for e
      unfolding keepable_def keptEdge_def gm_has_get pods [symmetric] by auto
    have edges: "edges = filter (keptEdge g scope) (Edges g)"
      using keepEdge_scan_edges [of g scope ?pods pe ?pods "[]"] keep unfolding kp [symmetric]
      by (simp add: pe conj_commute)
    note k = keepEdge_scan_nodes [OF conjunct1 [OF p2], of scope ?pods pe "[]", unfolded keep fst_conv]
    have kn: "gm_get nodes i = Some n \<longleftrightarrow> keptPod g scope i n \<or> gm_get (NodesByID g) i = Some n
        \<and> (\<exists>e\<in>set (Edges g). keptEdge g scope e \<and> Target e = i)" for i n
      using k unfolding pods kp [symmetric] by (auto simp: pe)
    note n3 = putNode_fold [OF conjunct1 [OF k], of "\<lambda>n. True" nr]
    have "gm_get (fold (putNode g (\<lambda>n. True)) nr nodes) i = Some n \<longleftrightarrow> k8sViewSpec g scope i n" for i n
      using n3 keptPod_node [of g scope i n] k8sRoot_node [of g scope NodeTypeK8sNode i n]
      unfolding kn k8sViewSpec_def nr k8sRoot_unique by blast
    moreover have "ProjectK8s (Some g) scope = \<lparr> view_Nodes = SortNodes (map snd (fold (putNode g (\<lambda>n. True)) nr nodes)),
       view_Edges = SortEdges (filter (keptEdge g scope) (Edges g)) \<rparr>"
      using False by (auto simp: ProjectK8s_def roots scan copy keep edges Let_def)
    ultimately show ?thesis using that n3 by blast
  qed
qed

lemma ProjectK8s_nodes:
  assumes wf: "wf_graph g"
  shows "n \<in> set (view_Nodes (ProjectK8s (Some g) scope)) \<longleftrightarrow> k8sViewSpec g scope (ID n) n"
    and "sorted (map (\<lambda>n. ID n) (view_Nodes (ProjectK8s (Some g) scope)))"
    and "distinct (map (\<lambda>n. ID n) (view_Nodes (ProjectK8s (Some g) scope)))"
    and "view_Edges (ProjectK8s (Some g) scope) = SortEdges (filter (keptEdge g scope) (Edges g))"
proof -
  obtain nodes where n: "ProjectK8s (Some g) scope = \<lparr> view_Nodes = SortNodes (map snd nodes),
       view_Edges = SortEdges (filter (keptEdge g scope) (Edges g)) \<rparr>"
    "subnodes g nodes" "\<And>i n. gm_get nodes i = Some n \<longleftrightarrow> k8sViewSpec g scope i n"
    using ProjectK8s_refines [OF wf, of scope] by blast
  show "n \<in> set (view_Nodes (ProjectK8s (Some g) scope)) \<longleftrightarrow> k8sViewSpec g scope (ID n) n"
    using subnodes_view(1) [OF wf n(2)] n(3) by (simp only: n(1) View.select_convs)
  show "sorted (map (\<lambda>n. ID n) (view_Nodes (ProjectK8s (Some g) scope)))"
    "distinct (map (\<lambda>n. ID n) (view_Nodes (ProjectK8s (Some g) scope)))"
    using subnodes_view(2,3) [OF wf n(2)] by (simp_all only: n(1) View.select_convs)
  show "view_Edges (ProjectK8s (Some g) scope) = SortEdges (filter (keptEdge g scope) (Edges g))"
    by (simp add: n(1))
qed

lemma keptEdge_ends:
  assumes "keptEdge g scope e" and "e \<in> set (Edges g)" and "i = Source e \<or> i = Target e"
  shows "\<exists>n. k8sViewSpec g scope i n"
  using assms(3)
proof
  assume "i = Source e"
  then show ?thesis using assms(1) keptPod_node by (fastforce simp: keptEdge_def k8sViewSpec_def)
next
  assume i: "i = Target e"
  then obtain t where "gm_get (NodesByID g) i = Some t" using assms(1) by (auto simp: keptEdge_def)
  then show ?thesis using assms(1,2) i by (auto simp: k8sViewSpec_def)
qed

interpretation k8s_view: projection "\<lambda>g. ProjectK8s (Some g)" wf_graph
proof
  fix g :: "'a Graph" and s :: StorageScope
  assume wf: "wf_graph g"
  let ?v = "ProjectK8s (Some g) s"
  show "gm_get (NodesByID g) (ID n) = Some n" if "n \<in> set (view_Nodes ?v)" for n
    using that by (simp add: ProjectK8s_nodes(1) [OF wf] k8sViewSpec_def)
  show "Source e \<in> (\<lambda>n. ID n) ` set (view_Nodes ?v) \<and> Target e \<in> (\<lambda>n. ID n) ` set (view_Nodes ?v)"
    if "e \<in> set (view_Edges ?v)" for e
  proof -
    have e: "keptEdge g s e" "e \<in> set (Edges g)" using that by (simp_all add: ProjectK8s_nodes(4) [OF wf])
    have "i \<in> (\<lambda>n. ID n) ` set (view_Nodes ?v)" if i: "i = Source e \<or> i = Target e" for i
    proof -
      obtain n where n: "k8sViewSpec g s i n" using keptEdge_ends [OF e i] by blast
      then have "ID n = i" using wf_graphD(3) [OF wf] by (auto simp: k8sViewSpec_def)
      with n show ?thesis by (intro image_eqI [of _ _ n]) (auto simp: ProjectK8s_nodes(1) [OF wf])
    qed
    then show ?thesis by blast
  qed
  show "sorted (map (\<lambda>n. ID n) (view_Nodes ?v))" "distinct (map (\<lambda>n. ID n) (view_Nodes ?v))"
    by (rule ProjectK8s_nodes(2,3) [OF wf])+
qed (auto simp: wf_graph_def)

section \<open>Properties\<close>

text \<open>
  C15: the Kubernetes view holds exactly what its contract names: the pods that are roots or run on a
  root node and pass the filters, the root nodes, and whatever passing node or claim such a pod points
  at; its edges are exactly the pod-to-node and pod-mounts-pvc edges of the graph from a kept pod to a
  loaded, passing target.
\<close>

theorem ProjectK8s_refines_spec:
  assumes "wf_graph g"
  shows "(n \<in> set (view_Nodes (ProjectK8s (Some g) scope)) \<longleftrightarrow> k8sViewSpec g scope (ID n) n) \<and>
    mset (view_Edges (ProjectK8s (Some g) scope)) = mset (filter (keptEdge g scope) (Edges g))"
  using ProjectK8s_nodes(1,4) [OF assms] by (simp add: edge_sort.srt_mset)

theorem ProjectK8s_refines_spec_witness:
  "k8sViewSpec exGraph (fxScope ''node'' [''n1'']) ''a/n1'' (exNodes ! 3)
   \<and> size (mset (view_Edges (ProjectK8s (Some exGraph) (fxScope ''node'' [''n1''])))) = 3"
proof
  have i: "ID (exNodes ! 3) = ''a/n1''" by code_simp
  have "exNodes ! 3 \<in> set (view_Nodes (ProjectK8s (Some exGraph) (fxScope ''node'' [''n1''])))" by code_simp
  then have "k8sViewSpec exGraph (fxScope ''node'' [''n1'']) (ID (exNodes ! 3)) (exNodes ! 3)"
    by (rule ProjectK8s_refines_spec [OF exGraph_wf, THEN conjunct1, THEN iffD1])
  then show "k8sViewSpec exGraph (fxScope ''node'' [''n1'']) ''a/n1'' (exNodes ! 3)" by (simp only: i)
  have "length (view_Edges (ProjectK8s (Some exGraph) (fxScope ''node'' [''n1'']))) = 3" by code_simp
  then show "size (mset (view_Edges (ProjectK8s (Some exGraph) (fxScope ''node'' [''n1''])))) = 3" by simp
qed

text \<open>
  No claim is drawn without a pod of the view that mounts it, and no pod of another node slips in:
  every pod of the view is a pod root, or has an edge of the view to a root node; only node and pod
  roots draw anything.
\<close>

theorem ProjectK8s_reachable:
  assumes "wf_graph g" and "n \<in> set (view_Nodes (ProjectK8s (Some g) scope))"
    and "\<forall>e\<in>set (Edges g). EType e = EdgeTypePodToNode \<longrightarrow> loadedAs g NodeTypeK8sNode (Target e)"
    and "\<forall>e\<in>set (Edges g). EType e = EdgeTypePodMountsPVC \<longrightarrow> loadedAs g NodeTypePVC (Target e)"
  shows "(Type n = NodeTypePVC \<longrightarrow> (\<exists>e\<in>set (view_Edges (ProjectK8s (Some g) scope)).
            EType e = EdgeTypePodMountsPVC \<and> Target e = ID n)) \<and>
    (Type n = NodeTypePod \<longrightarrow> workloadRoot (ss_Roots scope) n \<or>
       (\<exists>e\<in>set (view_Edges (ProjectK8s (Some g) scope)). EType e = EdgeTypePodToNode \<and> Source e = ID n \<and>
          (\<exists>m\<in>set (view_Nodes (ProjectK8s (Some g) scope)). ID m = Target e \<and> workloadRoot (ss_Roots scope) m))) \<and>
    roots_Kind (ss_Roots scope) \<in> {StorageRootNode, StorageRootPod}"
proof -
  note nodes = ProjectK8s_nodes(1) [OF assms(1)]
  have edge: "e \<in> set (view_Edges (ProjectK8s (Some g) scope)) \<longleftrightarrow> keptEdge g scope e \<and> e \<in> set (Edges g)" for e
    by (auto simp: ProjectK8s_nodes(4) [OF assms(1)])
  have spec: "k8sViewSpec g scope (ID n) n" using assms(2) by (simp only: nodes)
  then have get: "gm_get (NodesByID g) (ID n) = Some n" by (simp add: k8sViewSpec_def)
  have tgt: "Type n = (if EType e = EdgeTypePodToNode then NodeTypeK8sNode else NodeTypePVC)"
    if "keptEdge g scope e" "e \<in> set (Edges g)" "Target e = ID n" for e
    using that assms(3,4) get by (auto simp: keptEdge_def loadedAs_def)
  have pvc: "\<exists>e\<in>set (view_Edges (ProjectK8s (Some g) scope)). EType e = EdgeTypePodMountsPVC \<and> Target e = ID n"
    if "Type n = NodeTypePVC"
  proof -
    have "\<not> keptPod g scope (ID n) n" "\<not> k8sRoot g scope NodeTypeK8sNode (ID n) n"
      using that keptPod_node [of g scope "ID n" n] by (auto simp: k8sRoot_def)
    then obtain e where e: "e \<in> set (Edges g)" "keptEdge g scope e" "Target e = ID n"
      using spec unfolding k8sViewSpec_def by blast
    have "EType e \<in> {EdgeTypePodToNode, EdgeTypePodMountsPVC}" using e(2) unfolding keptEdge_def by blast
    moreover have "EType e \<noteq> EdgeTypePodToNode"
      using tgt [OF e(2,1,3)] that by (cases "EType e = EdgeTypePodToNode") simp_all
    ultimately have "EType e = EdgeTypePodMountsPVC" by blast
    moreover have "e \<in> set (view_Edges (ProjectK8s (Some g) scope))" using e(1,2) by (simp only: edge)
    ultimately show ?thesis using e(3) by blast
  qed
  have pod: "workloadRoot (ss_Roots scope) n \<or>
       (\<exists>e\<in>set (view_Edges (ProjectK8s (Some g) scope)). EType e = EdgeTypePodToNode \<and> Source e = ID n \<and>
          (\<exists>m\<in>set (view_Nodes (ProjectK8s (Some g) scope)). ID m = Target e \<and> workloadRoot (ss_Roots scope) m))"
    if "Type n = NodeTypePod"
  proof -
    have "\<not> (\<exists>e\<in>set (Edges g). keptEdge g scope e \<and> Target e = ID n)"
      using tgt that by (fastforce split: if_splits)
    then have kp: "keptPod g scope (ID n) n" using spec that by (auto simp: k8sViewSpec_def k8sRoot_def)
    show ?thesis
    proof (cases "k8sRoot g scope NodeTypePod (ID n) n")
      case False
      then obtain e m where e: "e \<in> set (Edges g)" "EType e = EdgeTypePodToNode" "Source e = ID n"
        "k8sRoot g scope NodeTypeK8sNode (Target e) m" using kp by (auto simp: keptPod_def)
      have m: "gm_get (NodesByID g) (Target e) = Some m" "workloadRoot (ss_Roots scope) m"
        "workloadPassesFilters m scope (ClusterRawName (Some g))" using e(4) by (auto simp: k8sRoot_def)
      have "ID m = Target e" using m(1) wf_graphD(3) [OF assms(1)] by blast
      moreover have "m \<in> set (view_Nodes (ProjectK8s (Some g) scope))"
        using e(4) m(1) calculation by (simp add: nodes k8sViewSpec_def)
      moreover have "keptEdge g scope e" using e kp m by (auto simp: keptEdge_def)
      then have "e \<in> set (view_Edges (ProjectK8s (Some g) scope))" using e(1) by (simp only: edge)
      ultimately show ?thesis using e(2,3) m(2) by blast
    qed (simp add: k8sRoot_def)
  qed
  have kr: "k8sRoot g scope t i m \<Longrightarrow> roots_Kind (ss_Roots scope) \<in> {StorageRootNode, StorageRootPod}" for t i m
    by (simp add: k8sRoot_def)
  have kp: "keptPod g scope i m \<Longrightarrow> roots_Kind (ss_Roots scope) \<in> {StorageRootNode, StorageRootPod}" for i m
    using kr unfolding keptPod_def by blast
  have "roots_Kind (ss_Roots scope) \<in> {StorageRootNode, StorageRootPod}"
    using spec kr kp unfolding k8sViewSpec_def keptEdge_def by blast
  with pvc pod show ?thesis by blast
qed

theorem ProjectK8s_reachable_witness:
  "\<exists>e\<in>set (view_Edges (ProjectK8s (Some exGraph) (fxScope ''pod'' [''shop/u1'']))).
     EType e = EdgeTypePodMountsPVC \<and> Target e = ID (exNodes ! 4)"
proof -
  have "exNodes ! 4 \<in> set (view_Nodes (ProjectK8s (Some exGraph) (fxScope ''pod'' [''shop/u1''])))" by code_simp
  moreover have "list_all (\<lambda>e. EType e = EdgeTypePodToNode \<longrightarrow> loadedAs exGraph NodeTypeK8sNode (Target e)) (Edges exGraph)"
    "list_all (\<lambda>e. EType e = EdgeTypePodMountsPVC \<longrightarrow> loadedAs exGraph NodeTypePVC (Target e)) (Edges exGraph)"
    by code_simp+
  moreover have "Type (exNodes ! 4) = NodeTypePVC" by code_simp
  ultimately show ?thesis
    using ProjectK8s_reachable [OF exGraph_wf] unfolding list_all_iff by blast
qed

end
