(* ===== verification/StorageFlow.thy ===== *)
theory StorageFlow
  imports K8sProjection TopologyTypes
begin

text \<open>
  Assembling edges from a parsed topology: \<open>pkg/build/storageflow.go\<close> (the storage-flow graph) and
  \<open>pkg/build/topology_edges.go\<close> (pod-mounts-pvc and pod-to-node).

  The lemmas describe the edge list as one emission per distinct pair of endpoints, show that it does
  not depend on the order of the map or of the bindings, and that the assembled graph satisfies the
  conditions under which the storage projection conserves flow.
\<close>

section \<open>Topology edges\<close>

fun podNodeStep ::
  "(string \<Rightarrow> string) \<Rightarrow> PodNode \<Rightarrow> 'f Edge list \<times> (string \<times> string) set \<Rightarrow> 'f Edge list \<times> (string \<times> string) set"
where
  "podNodeStep mkid p (edges, seenPodNode) =
     (let nid = gm_str (pod_LabelsValue p) ''node''; key = (pod_IDValue p, nid) in
      if nid = [] then (edges, seenPodNode)
      else if key \<in> seenPodNode then (edges, seenPodNode)
      else (edges @ [NewEdge mkid EdgeTypePodToNode (pod_IDValue p) nid []], insert key seenPodNode))"

definition TopologyEdges :: "(string \<Rightarrow> string) \<Rightarrow> 'f Topology \<Rightarrow> 'f Edge list" where
  "TopologyEdges mkid t =
     (let pvcByID = fold (\<lambda>pv. gm_put (pvc_IDValue pv) pv) (tp_PVCs t) [];
          mounts = List.map_filter (\<lambda>b. case gm_get pvcByID (PVCID_of b) of
              None \<Rightarrow> None
            | Some pv \<Rightarrow> Some (NewEdge mkid EdgeTypePodMountsPVC (PodID_of b) (PVCID_of b)
                          [(''claim_name'', pvc_NameValue pv)])) (tp_PodPVCs t)
      in fst (fold (podNodeStep mkid) (tp_Pods t) (mounts, {})))"

section \<open>Chains\<close>

record 'f storageChain =
  sc_pvcID :: string
  sc_svmID :: string
  sc_aggrID :: string
  sc_ctrlID :: string
  sc_io :: "'f IOMetrics option"

definition storageChains :: "'f Topology \<Rightarrow> 'f storageChain list" where
  "storageChains t =
     (let byPVC = fold (\<lambda>e. gm_put (Source e) (Target e, EIO e))
                    (filter (\<lambda>e. EType e = EdgeTypePVCToNetAppAggr) (tp_StorageEdges t)) [];
          ownerOf = fold (\<lambda>a m.
              let oc = gm_str (aggr_LabelsValue a) ''ontap_cluster''; node = gm_str (aggr_LabelsValue a) ''node'' in
              if oc \<noteq> [] \<and> node \<noteq> [] then gm_put (aggr_IDValue a) (NetAppNodeID oc node) m else m)
            (inv_Aggrs (tp_NetAppInventory t)) [];
          out = List.map_filter (\<lambda>(pvcID, ref).
              if sr_SVM ref = [] \<or> sr_ONTAPCluster ref = [] then None
              else Some (case gm_get byPVC pvcID of
                  None \<Rightarrow> \<lparr> sc_pvcID = pvcID, sc_svmID = NetAppSVMID (sr_ONTAPCluster ref) (sr_SVM ref),
                            sc_aggrID = [], sc_ctrlID = [], sc_io = None \<rparr>
                | Some (aid, hio) \<Rightarrow>
                          \<lparr> sc_pvcID = pvcID, sc_svmID = NetAppSVMID (sr_ONTAPCluster ref) (sr_SVM ref),
                            sc_aggrID = aid, sc_ctrlID = gm_str ownerOf aid, sc_io = hio \<rparr>))
            (tp_SVMByPVC t)
      in sort_key sc_pvcID out)"

definition podNodeIDs :: "'f Topology \<Rightarrow> (string, string) gomap" where
  "podNodeIDs t =
     fold (\<lambda>p m. let nid = gm_str (pod_LabelsValue p) ''node'' in
             if nid \<noteq> [] then gm_put (pod_IDValue p) nid m else m) (tp_Pods t) []"

section \<open>Storage-flow edges\<close>

text \<open>The closure \<open>emit\<close> over its captured \<open>out\<close> and \<open>seen\<close>.\<close>

fun emit ::
  "(string \<Rightarrow> string) \<Rightarrow> string \<Rightarrow> string \<Rightarrow> string \<Rightarrow> labels \<Rightarrow> 'f IOMetrics option
     \<Rightarrow> 'f Edge list \<times> (string \<times> string) set \<Rightarrow> 'f Edge list \<times> (string \<times> string) set" where
  "emit mkid source target tr ls io (out, seen) =
     (if source = [] \<or> target = [] then (out, seen)
      else if (source, target) \<in> seen then (out, seen)
      else (let l = fold (\<lambda>(k, v). gm_put k v) ls [(''tier'', tr)];
                e = NewEdge mkid EdgeTypeStorageFlow source target l;
                e = (case io of None \<Rightarrow> e | Some m \<Rightarrow> the (WithIO (Some e) m))
            in (out @ [e], insert (source, target) seen)))"

definition mountersByPVC :: "PodPVCBinding list \<Rightarrow> (string, string list) gomap" where
  "mountersByPVC bindings =
     map (\<lambda>(pvcID, pods). (pvcID, sort pods))
       (fold (\<lambda>b. gm_append (PVCID_of b) (PodID_of b)) bindings [])"

definition emitChain ::
  "(string \<Rightarrow> string) \<Rightarrow> (string, string list) gomap \<Rightarrow> (string, string) gomap \<Rightarrow> bool \<Rightarrow> 'f storageChain
     \<Rightarrow> 'f Edge list \<times> (string \<times> string) set \<Rightarrow> 'f Edge list \<times> (string \<times> string) set" where
  "emitChain mkid mountersOf nodeOf sinkUnmounted c st =
     (let mnt = gm_list mountersOf (sc_pvcID c) in
      if mnt = [] \<and> \<not> sinkUnmounted then st
      else
        let st = emit mkid (sc_ctrlID c) (sc_aggrID c) StorageTierNodeAggr [] None st;
            st = emit mkid (sc_aggrID c) (sc_svmID c) StorageTierAggrSVM [] None st;
            claimLabels = (if sc_aggrID c \<noteq> [] then [(ClaimAggrLabel, sc_aggrID c)] else []);
            st = emit mkid (sc_svmID c) (sc_pvcID c) StorageTierSVMPVC claimLabels (sc_io c) st;
            podLabels = (if length mnt > 1 then [(''attribution'', AttributionSplit)] else [])
        in fold (\<lambda>pod st.
              let st = emit mkid (sc_pvcID c) pod StorageTierPVCPod podLabels None st
              in emit mkid pod (gm_str nodeOf pod) StorageTierPodNode [] None st) mnt st)"

definition storageFlowEdges ::
  "(string \<Rightarrow> string) \<Rightarrow> 'f storageChain list \<Rightarrow> PodPVCBinding list \<Rightarrow> (string, string) gomap \<Rightarrow> bool
     \<Rightarrow> 'f Edge list" where
  "storageFlowEdges mkid scs bindings nodeOf sinkUnmounted =
     fst (fold (emitChain mkid (mountersByPVC bindings) nodeOf sinkUnmounted) scs ([], {}))"

definition storageFlowNodes :: "'f Topology \<Rightarrow> 'f GraphNode list" where
  "storageFlowNodes t =
     (let inv = tp_NetAppInventory t in
      map Pod (tp_Pods t) @ map K8s (tp_Nodes t) @ map PVC (tp_PVCs t)
      @ map Ctrl (inv_Nodes inv) @ map Aggr (inv_Aggrs inv) @ map SVM (inv_SVMs inv))"

definition assembleStorageFlow ::
  "(string \<Rightarrow> string) \<Rightarrow> 'f Topology \<Rightarrow> 'f GraphNode list \<times> 'f Edge list" where
  "assembleStorageFlow mkid t =
     (let nodes = storageFlowNodes t;
          scs = storageChains t;
          edges = storageFlowEdges mkid scs (tp_PodPVCs t) (podNodeIDs t) (tp_ClaimSeeded t)
      in (SortNodes nodes, SortEdges edges))"

section \<open>Emission\<close>

text \<open>What one call of \<open>emit\<close> asks for, and the edge it makes.\<close>

record 'f Emission =
  em_source :: string
  em_target :: string
  em_tier :: string
  em_labels :: labels
  em_io :: "'f IOMetrics option"

definition em_ends :: "'f Emission \<Rightarrow> string \<times> string" where
  "em_ends m = (em_source m, em_target m)"

definition em_edge :: "(string \<Rightarrow> string) \<Rightarrow> 'f Emission \<Rightarrow> 'f Edge" where
  "em_edge mkid m =
     (NewEdge mkid EdgeTypeStorageFlow (em_source m) (em_target m)
        (fold (\<lambda>(k, v). gm_put k v) (em_labels m) [(''tier'', em_tier m)]))\<lparr> EIO := em_io m \<rparr>"

definition emissions ::
  "(string, string list) gomap \<Rightarrow> (string, string) gomap \<Rightarrow> bool \<Rightarrow> 'f storageChain \<Rightarrow> 'f Emission list" where
  "emissions mountersOf nodeOf sinkUnmounted c =
     (let mnt = gm_list mountersOf (sc_pvcID c);
          mk = (\<lambda>s t tr ls io. \<lparr> em_source = s, em_target = t, em_tier = tr, em_labels = ls, em_io = io \<rparr>) in
      if mnt = [] \<and> \<not> sinkUnmounted then []
      else mk (sc_ctrlID c) (sc_aggrID c) StorageTierNodeAggr [] None
         # mk (sc_aggrID c) (sc_svmID c) StorageTierAggrSVM [] None
         # mk (sc_svmID c) (sc_pvcID c) StorageTierSVMPVC
             (if sc_aggrID c \<noteq> [] then [(ClaimAggrLabel, sc_aggrID c)] else []) (sc_io c)
         # concat (map (\<lambda>p. [mk (sc_pvcID c) p StorageTierPVCPod
                (if length mnt > 1 then [(''attribution'', AttributionSplit)] else []) None,
              mk p (gm_str nodeOf p) StorageTierPodNode [] None]) mnt))"

definition emitOne :: "(string \<Rightarrow> string) \<Rightarrow> 'f Emission
     \<Rightarrow> 'f Edge list \<times> (string \<times> string) set \<Rightarrow> 'f Edge list \<times> (string \<times> string) set" where
  "emitOne mkid m = emit mkid (em_source m) (em_target m) (em_tier m) (em_labels m) (em_io m)"

lemma emitChain_eq:
  "emitChain mkid mo nodeOf su c st = fold (emitOne mkid) (emissions mo nodeOf su c) st"
proof -
  have "fold (\<lambda>p st. emit mkid p (gm_str nodeOf p) StorageTierPodNode [] None
          (emit mkid (sc_pvcID c) p StorageTierPVCPod ls None st)) ps st
      = fold (emitOne mkid) (concat (map (\<lambda>p.
          [\<lparr> em_source = sc_pvcID c, em_target = p, em_tier = StorageTierPVCPod, em_labels = ls, em_io = None \<rparr>,
           \<lparr> em_source = p, em_target = gm_str nodeOf p, em_tier = StorageTierPodNode, em_labels = [], em_io = None \<rparr>]) ps)) st"
    for ps ls and st :: "'a Edge list \<times> (string \<times> string) set"
    by (induction ps arbitrary: st) (simp_all add: emitOne_def del: emit.simps)
  then show ?thesis
    by (simp add: emitChain_def emissions_def emitOne_def Let_def del: emit.simps)
qed

lemma storageFlowEdges_eq:
  "storageFlowEdges mkid scs bindings nodeOf su =
     fst (fold (emitOne mkid) (concat (map (emissions (mountersByPVC bindings) nodeOf su) scs)) ([], {}))"
proof -
  have "fold (emitChain mkid mo nodeOf su) cs st = fold (emitOne mkid) (concat (map (emissions mo nodeOf su) cs)) st"
    for mo cs and st :: "'a Edge list \<times> (string \<times> string) set"
    by (induction cs arbitrary: st) (simp_all add: emitChain_eq)
  then show ?thesis by (simp add: storageFlowEdges_def)
qed

text \<open>The edges emitted: the first emission of every pair of non-empty endpoints, in order.\<close>

fun firsts :: "(string \<times> string) set \<Rightarrow> 'f Emission list \<Rightarrow> 'f Emission list" where
  "firsts seen [] = []"
| "firsts seen (m # ms) =
     (if em_source m = [] \<or> em_target m = [] \<or> em_ends m \<in> seen then firsts seen ms
      else m # firsts (insert (em_ends m) seen) ms)"

lemma emitOne_eq:
  "emitOne mkid m (out, seen) =
     (if em_source m = [] \<or> em_target m = [] \<or> em_ends m \<in> seen then (out, seen)
      else (out @ [em_edge mkid m], insert (em_ends m) seen))"
  by (auto simp: emitOne_def em_ends_def em_edge_def NewEdge_def WithIO_def Let_def split: option.split)

lemma emit_firsts: "fst (fold (emitOne mkid) ms (out, seen)) = out @ map (em_edge mkid) (firsts seen ms)"
  by (induction ms arbitrary: out seen) (simp_all add: emitOne_eq)

lemma firsts_props:
  "distinct (map em_ends (firsts seen ms))"
  "set (firsts seen ms) \<subseteq> set ms"
  "m \<in> set (firsts seen ms) \<Longrightarrow> em_source m \<noteq> [] \<and> em_target m \<noteq> [] \<and> em_ends m \<notin> seen"
  "m \<in> set ms \<Longrightarrow> em_source m \<noteq> [] \<Longrightarrow> em_target m \<noteq> [] \<Longrightarrow> em_ends m \<notin> seen
     \<Longrightarrow> em_ends m \<in> em_ends ` set (firsts seen ms)"
proof -
  show in3: "m \<in> set (firsts seen ms) \<Longrightarrow> em_source m \<noteq> [] \<and> em_target m \<noteq> [] \<and> em_ends m \<notin> seen" for m :: "'a Emission" and seen ms
    by (induction seen ms rule: firsts.induct) (auto split: if_splits)
  show "distinct (map em_ends (firsts seen ms))"
    by (induction seen ms rule: firsts.induct) (auto dest: in3)
  show "set (firsts seen ms) \<subseteq> set ms"
    by (induction seen ms rule: firsts.induct) auto
  show "m \<in> set ms \<Longrightarrow> em_source m \<noteq> [] \<Longrightarrow> em_target m \<noteq> [] \<Longrightarrow> em_ends m \<notin> seen
     \<Longrightarrow> em_ends m \<in> em_ends ` set (firsts seen ms)"
    by (induction seen ms rule: firsts.induct) auto
qed

lemma em_edge_sel [simp]:
  "Source (em_edge mkid m) = em_source m" "Target (em_edge mkid m) = em_target m"
  "EType (em_edge mkid m) = EdgeTypeStorageFlow" "EIO (em_edge mkid m) = em_io m"
  "ELabels (em_edge mkid m) = fold (\<lambda>(k, v). gm_put k v) (em_labels m) [(''tier'', em_tier m)]"
  by (simp_all add: em_edge_def NewEdge_def)

text \<open>The labels of the emissions never touch the tier.\<close>

lemma emission_labels:
  assumes "m \<in> set (emissions mo nodeOf su c)"
  shows "tier (em_edge mkid m) = em_tier m" and "em_tier m \<in> set StorageTiers"
    and "em_io m \<noteq> None \<Longrightarrow> em_tier m = StorageTierSVMPVC"
    and "gm_str (ELabels (em_edge mkid m)) ClaimAggrLabel = (if em_tier m = StorageTierSVMPVC then sc_aggrID c else [])"
  using assms
  by (auto simp: emissions_def StorageTiers_def gm_str_get gm_get_def gm_put_def Let_def split: if_splits)

text \<open>The mounting pods of a claim, in order.\<close>

lemma mounters_sorted: "gm_list (mountersByPVC bs) i = sort (map PodID_of (filter (\<lambda>b. PVCID_of b = i) bs))"
proof -
  have "gm_list (map (\<lambda>(k, ps). (k, sort ps)) m) i = sort (gm_list m i)" for m :: "(string, string list) gomap"
    by (induction m) (auto simp: gm_list_def)
  then show ?thesis
    using gm_list_fold_append [of PVCID_of PodID_of bs "[]" i] by (simp add: mountersByPVC_def gm_list_def)
qed

definition drawn :: "PodPVCBinding list \<Rightarrow> bool \<Rightarrow> 'f storageChain \<Rightarrow> bool" where
  "drawn bs su c = (su \<or> (\<exists>b\<in>set bs. PVCID_of b = sc_pvcID c))"

lemma emission_ends:
  "em_ends ` set (emissions (mountersByPVC bs) nodeOf su c) =
     (if drawn bs su c then
        {(sc_ctrlID c, sc_aggrID c), (sc_aggrID c, sc_svmID c), (sc_svmID c, sc_pvcID c)}
        \<union> (\<Union>b \<in> {b \<in> set bs. PVCID_of b = sc_pvcID c}.
             {(sc_pvcID c, PodID_of b), (PodID_of b, gm_str nodeOf (PodID_of b))})
      else {})"
proof (cases "drawn bs su c")
  case True
  let ?mnt = "gm_list (mountersByPVC bs) (sc_pvcID c)"
  have mnt: "set ?mnt = PodID_of ` {b \<in> set bs. PVCID_of b = sc_pvcID c}" by (simp add: mounters_sorted)
  have "?mnt = [] \<longleftrightarrow> \<not> (\<exists>b\<in>set bs. PVCID_of b = sc_pvcID c)"
    using mnt by (metis (mono_tags, lifting) empty_Collect_eq image_is_empty set_empty)
  then have "\<not> (?mnt = [] \<and> \<not> su)" using True by (auto simp: drawn_def)
  then have "em_ends ` set (emissions (mountersByPVC bs) nodeOf su c) =
      {(sc_ctrlID c, sc_aggrID c), (sc_aggrID c, sc_svmID c), (sc_svmID c, sc_pvcID c)}
        \<union> (\<Union>p \<in> set ?mnt. {(sc_pvcID c, p), (p, gm_str nodeOf p)})"
    by (auto simp: emissions_def em_ends_def image_Un image_UN Let_def)
  then show ?thesis using True unfolding mnt by simp
next
  case False
  then have "gm_list (mountersByPVC bs) (sc_pvcID c) = []" "\<not> su"
    by (auto simp: mounters_sorted drawn_def filter_empty_conv)
  then show ?thesis using False by (simp add: emissions_def Let_def)
qed

definition allEmissions ::
  "'f storageChain list \<Rightarrow> PodPVCBinding list \<Rightarrow> (string, string) gomap \<Rightarrow> bool \<Rightarrow> 'f Emission list" where
  "allEmissions scs bs nodeOf su = concat (map (emissions (mountersByPVC bs) nodeOf su) scs)"

lemma storageFlowEdges_firsts:
  "storageFlowEdges mkid scs bs nodeOf su = map (em_edge mkid) (firsts {} (allEmissions scs bs nodeOf su))"
  by (simp add: storageFlowEdges_eq emit_firsts allEmissions_def)

lemma ends_em_edge: "ends (em_edge mkid m) = em_ends m"
  by (simp add: ends_def em_ends_def)

lemma storageFlowEdges_in:
  assumes "e \<in> set (storageFlowEdges mkid scs bs nodeOf su)"
  obtains c m where "c \<in> set scs" "m \<in> set (emissions (mountersByPVC bs) nodeOf su c)" "e = em_edge mkid m"
    "em_source m \<noteq> []" "em_target m \<noteq> []"
  using assms firsts_props(2) [of "{}" "allEmissions scs bs nodeOf su"] firsts_props(3) [of _ "{}" "allEmissions scs bs nodeOf su"]
  by (fastforce simp: storageFlowEdges_firsts allEmissions_def)

section \<open>Chains, in id order\<close>

lemma storageChains_in:
  assumes "c \<in> set (storageChains t)"
  shows "\<exists>ref. (sc_pvcID c, ref) \<in> set (tp_SVMByPVC t) \<and> sr_SVM ref \<noteq> [] \<and> sr_ONTAPCluster ref \<noteq> []
       \<and> sc_svmID c = NetAppSVMID (sr_ONTAPCluster ref) (sr_SVM ref)"
    and "sc_aggrID c \<noteq> [] \<Longrightarrow> \<exists>e\<in>set (tp_StorageEdges t). EType e = EdgeTypePVCToNetAppAggr
       \<and> Source e = sc_pvcID c \<and> Target e = sc_aggrID c \<and> EIO e = sc_io c"
    and "sc_ctrlID c \<noteq> [] \<Longrightarrow> \<exists>a\<in>set (inv_Aggrs (tp_NetAppInventory t)). aggr_IDValue a = sc_aggrID c
       \<and> ownerID (Aggr a) = Some (sc_ctrlID c)"
proof -
  let ?es = "filter (\<lambda>e. EType e = EdgeTypePVCToNetAppAggr) (tp_StorageEdges t)"
  let ?byPVC = "fold (\<lambda>e. gm_put (Source e) (Target e, EIO e)) ?es []"
  let ?step = "\<lambda>a m. let oc = gm_str (aggr_LabelsValue a) ''ontap_cluster''; node = gm_str (aggr_LabelsValue a) ''node'' in
              if oc \<noteq> [] \<and> node \<noteq> [] then gm_put (aggr_IDValue a) (NetAppNodeID oc node) m else m"
  let ?ownerOf = "fold ?step (inv_Aggrs (tp_NetAppInventory t)) []"
  have hit: "\<exists>e\<in>set ?es. Source e = i \<and> Target e = aid \<and> EIO e = hio" if "gm_get ?byPVC i = Some (aid, hio)" for i aid hio
    using that by (auto simp: gm_get_fold_put dest!: find_rev_SomeD)
  have own: "\<exists>a\<in>set as. aggr_IDValue a = i \<and> ownerID (Aggr a) = Some d"
    if "gm_get (fold ?step as m) i = Some d" "\<not> gm_get m i = Some d" for as m i d
    using that
  proof (induction as arbitrary: m)
    case (Cons a as)
    show ?case
    proof (cases "gm_get (?step a m) i = Some d")
      case True
      then have "aggr_IDValue a = i \<and> ownerID (Aggr a) = Some d"
        using Cons.prems(2) by (auto simp: ownerID_def Let_def split: if_splits)
      then show ?thesis by simp
    next
      case False
      then show ?thesis using Cons.IH [of "?step a m"] Cons.prems(1) by simp
    qed
  qed simp
  obtain ref where c: "(sc_pvcID c, ref) \<in> set (tp_SVMByPVC t)" "sr_SVM ref \<noteq> []" "sr_ONTAPCluster ref \<noteq> []"
    "sc_svmID c = NetAppSVMID (sr_ONTAPCluster ref) (sr_SVM ref)"
    "case gm_get ?byPVC (sc_pvcID c) of None \<Rightarrow> sc_aggrID c = [] \<and> sc_ctrlID c = [] \<and> sc_io c = None
       | Some (aid, hio) \<Rightarrow> sc_aggrID c = aid \<and> sc_ctrlID c = gm_str ?ownerOf aid \<and> sc_io c = hio"
    using assms unfolding storageChains_def Let_def
    by (fastforce simp: set_map_filter split: if_splits option.splits prod.splits)
  from c(1-4) show "\<exists>ref. (sc_pvcID c, ref) \<in> set (tp_SVMByPVC t) \<and> sr_SVM ref \<noteq> [] \<and> sr_ONTAPCluster ref \<noteq> []
       \<and> sc_svmID c = NetAppSVMID (sr_ONTAPCluster ref) (sr_SVM ref)" by blast
  show "sc_aggrID c \<noteq> [] \<Longrightarrow> \<exists>e\<in>set (tp_StorageEdges t). EType e = EdgeTypePVCToNetAppAggr
       \<and> Source e = sc_pvcID c \<and> Target e = sc_aggrID c \<and> EIO e = sc_io c"
    using c(5) by (auto split: option.splits dest!: hit)
  show "sc_ctrlID c \<noteq> [] \<Longrightarrow> \<exists>a\<in>set (inv_Aggrs (tp_NetAppInventory t)). aggr_IDValue a = sc_aggrID c
       \<and> ownerID (Aggr a) = Some (sc_ctrlID c)"
    using c(5) own [of "inv_Aggrs (tp_NetAppInventory t)" "[]"] by (auto simp: gm_str_get split: option.splits)
qed

text \<open>Neither the order of the map nor that of the bindings matters.\<close>

lemma map_filter_perm: "mset xs = mset ys \<Longrightarrow> mset (List.map_filter f xs) = mset (List.map_filter f ys)"
  by (simp add: map_filter_def)

lemma storageChains_perm:
  assumes "mset (tp_SVMByPVC t) = mset (tp_SVMByPVC t')" and "gm_wf (tp_SVMByPVC t)"
    and "tp_StorageEdges t = tp_StorageEdges t'" and "tp_NetAppInventory t = tp_NetAppInventory t'"
  shows "storageChains t = storageChains t'"
proof -
  have keys: "distinct (map sc_pvcID (List.map_filter f m))"
    if "distinct (map fst m)" "\<And>p c. f p = Some c \<Longrightarrow> sc_pvcID c = fst p"
    for f :: "string \<times> SVMRef \<Rightarrow> 'a storageChain option" and m
    using that(1)
  proof (induction m)
    case (Cons p m)
    have "sc_pvcID c \<in> fst ` set m" if "c \<in> set (List.map_filter f m)" for c
      using that that(1) \<open>\<And>p c. f p = Some c \<Longrightarrow> sc_pvcID c = fst p\<close> by (force simp: set_map_filter)
    then show ?case using Cons \<open>\<And>p c. f p = Some c \<Longrightarrow> sc_pvcID c = fst p\<close> by (auto split: option.splits)
  qed simp
  show ?thesis
    unfolding storageChains_def Let_def assms(3,4)
    by (rule sk.srt_order_free [OF map_filter_perm [OF assms(1)] keys])
      (use assms(2) in \<open>auto simp: gm_wf_def split: if_splits option.splits prod.splits\<close>)
qed

lemma mountersByPVC_perm:
  assumes "mset bs = mset bs'"
  shows "gm_list (mountersByPVC bs) i = gm_list (mountersByPVC bs') i"
  unfolding mounters_sorted by (rule sort_perm) (simp add: assms)

lemma storageFlowEdges_perm:
  fixes scs :: "'f storageChain list"
  assumes "mset bs = mset bs'"
  shows "storageFlowEdges mkid scs bs nodeOf su = storageFlowEdges mkid scs bs' nodeOf su"
proof -
  have "emissions (mountersByPVC bs) nodeOf su = (emissions (mountersByPVC bs') nodeOf su :: 'f storageChain \<Rightarrow> _)"
    by (simp add: emissions_def fun_eq_iff mountersByPVC_perm [OF assms])
  then show ?thesis by (simp add: storageFlowEdges_eq)
qed

section \<open>The assembled graph\<close>

text \<open>
  What the reader guarantees of a parsed topology: Kubernetes ids differ from NetApp ids, and the
  inventory holds every SVM, aggregate and owning controller that a claim's join names.
\<close>

definition inventoryIDs :: "'f Topology \<Rightarrow> string set" where
  "inventoryIDs t = ctrl_IDValue ` set (inv_Nodes (tp_NetAppInventory t))
     \<union> aggr_IDValue ` set (inv_Aggrs (tp_NetAppInventory t)) \<union> svm_IDValue ` set (inv_SVMs (tp_NetAppInventory t))"

definition topology_ok :: "'f Topology \<Rightarrow> bool" where
  "topology_ok t =
     ((\<forall>i \<in> pod_IDValue ` set (tp_Pods t) \<union> k8s_IDValue ` set (tp_Nodes t) \<union> pvc_IDValue ` set (tp_PVCs t).
         i \<notin> inventoryIDs t)
      \<and> (\<forall>(i, ref) \<in> set (tp_SVMByPVC t). sr_SVM ref \<noteq> [] \<and> sr_ONTAPCluster ref \<noteq> []
           \<longrightarrow> NetAppSVMID (sr_ONTAPCluster ref) (sr_SVM ref) \<in> inventoryIDs t)
      \<and> (\<forall>e \<in> set (tp_StorageEdges t). EType e = EdgeTypePVCToNetAppAggr \<longrightarrow> Target e \<in> inventoryIDs t)
      \<and> (\<forall>a \<in> set (inv_Aggrs (tp_NetAppInventory t)). \<forall>c. ownerID (Aggr a) = Some c \<longrightarrow> c \<in> inventoryIDs t))"

definition storageFlowGraph :: "(string \<Rightarrow> string) \<Rightarrow> 'f Topology \<Rightarrow> int \<Rightarrow> 'f Graph" where
  "storageFlowGraph mkid t now = (case assembleStorageFlow mkid t of (nodes, edges) \<Rightarrow> NewGraph nodes edges now)"

lemma inventory_netapp:
  assumes "topology_ok t" and "i \<in> inventoryIDs t"
  shows "netappNode (storageFlowGraph mkid t now) i"
proof -
  let ?ns = "SortNodes (storageFlowNodes t)"
  have types: "Type n \<in> {NodeTypeNetAppAggr, NodeTypeNetAppNode, NodeTypeNetAppSVM}"
    if "n \<in> set ?ns" "ID n = i" for n
    using that assms by (auto simp: storageFlowNodes_def topology_ok_def Let_def)
  have "\<exists>n\<in>set ?ns. ID n = i"
    using assms(2) by (auto simp: storageFlowNodes_def inventoryIDs_def Let_def bex_Un)
  then have "find (\<lambda>n. ID n = i) ?ns \<noteq> None" unfolding find_None_iff by blast
  then obtain n where n: "find (\<lambda>n. ID n = i) ?ns = Some n" by blast
  from find_SomeD [OF n] have "n \<in> set ?ns" "ID n = i" by blast+
  then show ?thesis using n types
    by (simp add: netappNode_def storageFlowGraph_def assembleStorageFlow_def Let_def NewGraph_get)
qed

lemma storageFlowGraph_Edges:
  "set (Edges (storageFlowGraph mkid t now)) =
     set (storageFlowEdges mkid (storageChains t) (tp_PodPVCs t) (podNodeIDs t) (tp_ClaimSeeded t))"
  by (simp add: storageFlowGraph_def assembleStorageFlow_def NewGraph_def Let_def)

text \<open>The NetApp ends of every emission of a chain are in the inventory.\<close>

lemma chain_inventory:
  assumes "topology_ok t" and "c \<in> set (storageChains t)"
  shows "sc_svmID c \<in> inventoryIDs t" and "sc_aggrID c \<noteq> [] \<Longrightarrow> sc_aggrID c \<in> inventoryIDs t"
    and "sc_ctrlID c \<noteq> [] \<Longrightarrow> sc_ctrlID c \<in> inventoryIDs t"
  using storageChains_in [OF assms(2)] assms(1) by (fastforce simp: topology_ok_def)+

section \<open>Topology edges\<close>

text \<open>The pairs the pod-to-node loop emits, without the edges.\<close>

definition podNodePair :: "PodNode \<Rightarrow> string \<times> string" where
  "podNodePair p = (pod_IDValue p, gm_str (pod_LabelsValue p) ''node'')"

fun pairKeyStep :: "PodNode \<Rightarrow> (string \<times> string) list \<Rightarrow> (string \<times> string) list" where
  "pairKeyStep p out = (if snd (podNodePair p) = [] \<or> podNodePair p \<in> set out then out else out @ [podNodePair p])"

lemma podNode_scan:
  "fold (podNodeStep mkid) ps (es @ map (\<lambda>(p, n). NewEdge mkid EdgeTypePodToNode p n []) out, set out)
     = (es @ map (\<lambda>(p, n). NewEdge mkid EdgeTypePodToNode p n []) (fold pairKeyStep ps out),
        set (fold pairKeyStep ps out))"
proof (induction ps arbitrary: out)
  case (Cons p ps)
  have "podNodeStep mkid p (es @ map (\<lambda>(p, n). NewEdge mkid EdgeTypePodToNode p n []) out, set out)
      = (es @ map (\<lambda>(p, n). NewEdge mkid EdgeTypePodToNode p n []) (pairKeyStep p out), set (pairKeyStep p out))"
    by (simp add: podNodePair_def Let_def)
  then show ?case using Cons [of "pairKeyStep p out"] by (simp del: pairKeyStep.simps podNodeStep.simps)
qed simp

lemma podNode_keys:
  "distinct out \<Longrightarrow> distinct (fold pairKeyStep ps out)
     \<and> set (fold pairKeyStep ps out) = set out \<union> {podNodePair p | p. p \<in> set ps \<and> snd (podNodePair p) \<noteq> []}"
proof (induction ps arbitrary: out)
  case (Cons p ps)
  have "distinct (pairKeyStep p out)"
    "set (pairKeyStep p out) = set out \<union> (if snd (podNodePair p) = [] then {} else {podNodePair p})"
    using Cons.prems by auto
  then show ?case using Cons.IH [of "pairKeyStep p out"] by (auto simp del: pairKeyStep.simps)
qed simp

text \<open>
  A cluster named \<open>netapp\<close> breaks the separation of id spaces the assembler relies on: the id of one
  of its claims is the id of an ONTAP controller, and the node list has two nodes under one id.
\<close>

lemma netapp_cluster_collision:
  assumes "p \<in> set (tp_PVCs t)" and "pvc_IDValue p = PVCID ''netapp'' oc nd"
    and "c \<in> set (inv_Nodes (tp_NetAppInventory t))" and "ctrl_IDValue c = NetAppNodeID oc nd"
  shows "\<not> distinct (map (\<lambda>n. ID n) (storageFlowNodes t))"
proof -
  have "ID (PVC p) = ID (Ctrl c)" using assms(2,4) by (simp add: PVCID_def NetAppNodeID_def)
  moreover have "PVC p \<in> set (storageFlowNodes t)" "Ctrl c \<in> set (storageFlowNodes t)"
    using assms(1,3) by (simp_all add: storageFlowNodes_def Let_def)
  ultimately show ?thesis unfolding distinct_map inj_on_def by blast
qed

section \<open>An example topology\<close>

definition sxPod :: "string \<Rightarrow> string \<Rightarrow> PodNode" where
  "sxPod uid nd = \<lparr> pod_IDValue = PodID ''a'' uid, pod_NameValue = uid,
     pod_LabelsValue = [(''cluster'', ''a''), (''namespace'', ''shop''), (''node'', nd)],
     pod_IPAddressValue = [], pod_OwnerValue = None, pod_ApplicationValue = [],
     pod_ContainersValue = [], pod_AlertsValue = [], pod_StatusValue = [] \<rparr>"

definition sxTopology :: "rat Topology" where
  "sxTopology = \<lparr> tp_Pods = [sxPod ''u1'' ''a/n1'', sxPod ''u2'' []],
     tp_Nodes = [\<lparr> k8s_IDValue = ''a/n1'', k8s_NameValue = ''n1'', k8s_LabelsValue = [(''cluster'', ''a'')],
       k8s_IPAddressValue = [], k8s_ReadyStatusValue = [], k8s_AlertsValue = [], k8s_StatusValue = [] \<rparr>],
     tp_PVCs = [\<lparr> pvc_IDValue = PVCID ''a'' ''shop'' ''d'', pvc_NameValue = ''d'',
       pvc_LabelsValue = [(''cluster'', ''a''), (''namespace'', ''shop'')],
       pvc_StorageClassValue = [], pvc_ApplicationValue = [], pvc_UsageValue = None,
       pvc_QoSValue = None, pvc_AlertsValue = [], pvc_StatusValue = [] \<rparr>],
     tp_StorageEdges = [(NewEdge (\<lambda>k. k) EdgeTypePVCToNetAppAggr (PVCID ''a'' ''shop'' ''d'') (NetAppAggrID ''f'' ''g1'') [])
       \<lparr> EIO := Some (noIO\<lparr> ReadOps := Some 10 \<rparr>) \<rparr>],
     tp_PodPVCs = [\<lparr> PodID_of = PodID ''a'' ''u2'', PVCID_of = PVCID ''a'' ''shop'' ''d'' \<rparr>,
       \<lparr> PodID_of = PodID ''a'' ''u1'', PVCID_of = PVCID ''a'' ''shop'' ''d'' \<rparr>],
     tp_ClaimSeeded = False,
     tp_NetAppInventory = \<lparr> inv_Nodes = [\<lparr> ctrl_IDValue = NetAppNodeID ''f'' ''f1'', ctrl_NameValue = ''f1'',
         ctrl_LabelsValue = [(''ontap_cluster'', ''f'')], ctrl_HealthValue = [],
         ctrl_HardwareValue = None, ctrl_PerfValue = None, ctrl_AlertsValue = [], ctrl_StatusValue = [] \<rparr>],
       inv_Aggrs = [\<lparr> aggr_IDValue = NetAppAggrID ''f'' ''g1'', aggr_NameValue = ''g1'',
         aggr_LabelsValue = [(''ontap_cluster'', ''f''), (''node'', ''f1'')], aggr_HealthValue = [],
         aggr_UsageValue = None, aggr_AlertsValue = [], aggr_StatusValue = [] \<rparr>],
       inv_SVMs = [\<lparr> svm_IDValue = NetAppSVMID ''f'' ''s1'', svm_NameValue = ''s1'',
         svm_LabelsValue = [(''ontap_cluster'', ''f'')] \<rparr>] \<rparr>,
     tp_SVMByPVC = [(PVCID ''a'' ''shop'' ''d'', \<lparr> sr_ONTAPCluster = ''f'', sr_SVM = ''s1'' \<rparr>)] \<rparr>"

lemma sx_ok: "topology_ok sxTopology"
  by (simp add: topology_ok_def sxTopology_def inventoryIDs_def ownerID_def gm_str_def sxPod_def
      PodID_def PVCID_def NetAppAggrID_def NetAppNodeID_def NetAppSVMID_def NewEdge_def)

section \<open>Properties\<close>

text \<open>
  The tier edges. Two nodes are joined exactly when a drawn chain has that hop with both ends
  known: owner to aggregate, aggregate to SVM, SVM to claim, claim to each mounting pod, pod to its
  node; a chain is drawn when its claim is mounted or the build is claim-seeded. However many chains
  share a hop it is emitted once, with one of the five tiers, and only a claim-level edge carries I/O
  or names the claim's aggregate.
\<close>

theorem storageFlowEdges_spec:
  "distinct (map ends (storageFlowEdges mkid scs bs nodeOf su)) \<and>
   ends ` set (storageFlowEdges mkid scs bs nodeOf su) =
     {k. fst k \<noteq> [] \<and> snd k \<noteq> [] \<and> (\<exists>c\<in>set scs. drawn bs su c \<and>
        (k \<in> {(sc_ctrlID c, sc_aggrID c), (sc_aggrID c, sc_svmID c), (sc_svmID c, sc_pvcID c)} \<or>
         (\<exists>b\<in>set bs. PVCID_of b = sc_pvcID c \<and>
            k \<in> {(sc_pvcID c, PodID_of b), (PodID_of b, gm_str nodeOf (PodID_of b))})))} \<and>
   (\<forall>e\<in>set (storageFlowEdges mkid scs bs nodeOf su).
      EType e = EdgeTypeStorageFlow \<and> tier e \<in> set StorageTiers \<and>
      (EIO e \<noteq> None \<or> gm_str (ELabels e) ClaimAggrLabel \<noteq> [] \<longrightarrow> tier e = StorageTierSVMPVC))"
proof (intro conjI ballI)
  let ?all = "allEmissions scs bs nodeOf su"
  show "distinct (map ends (storageFlowEdges mkid scs bs nodeOf su))"
    using firsts_props(1) [of "{}" ?all] by (simp add: storageFlowEdges_firsts comp_def ends_em_edge)
  have "ends ` set (storageFlowEdges mkid scs bs nodeOf su) = em_ends ` set (firsts {} ?all)"
    by (simp add: storageFlowEdges_firsts image_image ends_em_edge)
  also have "\<dots> = {k \<in> em_ends ` set ?all. fst k \<noteq> [] \<and> snd k \<noteq> []}"
    using firsts_props(2) [of "{}" ?all] firsts_props(3,4) [where seen = "{}" and ms = ?all] by (fastforce simp: em_ends_def)
  also have "em_ends ` set ?all = (\<Union>c\<in>set scs. em_ends ` set (emissions (mountersByPVC bs) nodeOf su c))"
    by (auto simp: allEmissions_def)
  finally show "ends ` set (storageFlowEdges mkid scs bs nodeOf su) =
     {k. fst k \<noteq> [] \<and> snd k \<noteq> [] \<and> (\<exists>c\<in>set scs. drawn bs su c \<and>
        (k \<in> {(sc_ctrlID c, sc_aggrID c), (sc_aggrID c, sc_svmID c), (sc_svmID c, sc_pvcID c)} \<or>
         (\<exists>b\<in>set bs. PVCID_of b = sc_pvcID c \<and>
            k \<in> {(sc_pvcID c, PodID_of b), (PodID_of b, gm_str nodeOf (PodID_of b))})))}"
    unfolding emission_ends by (auto split: if_splits)
next
  fix e assume "e \<in> set (storageFlowEdges mkid scs bs nodeOf su)"
  then obtain c m where m: "m \<in> set (emissions (mountersByPVC bs) nodeOf su c)" "e = em_edge mkid m"
    by (rule storageFlowEdges_in)
  show "EType e = EdgeTypeStorageFlow" by (simp add: m(2))
  show "tier e \<in> set StorageTiers" using emission_labels(1) [OF m(1), of mkid] emission_labels(2) [OF m(1)] by (simp only: m(2))
  show "EIO e \<noteq> None \<or> gm_str (ELabels e) ClaimAggrLabel \<noteq> [] \<longrightarrow> tier e = StorageTierSVMPVC"
    using emission_labels(1,4) [OF m(1), of mkid] emission_labels(3) [OF m(1)] by (simp only: m(2) em_edge_sel(4)) (auto split: if_splits)
qed

theorem storageFlowEdges_spec_witness:
  "distinct (map ends (storageFlowEdges (\<lambda>k. k) (storageChains sxTopology) (tp_PodPVCs sxTopology)
     (podNodeIDs sxTopology) False)) \<and>
   (NetAppSVMID ''f'' ''s1'', PVCID ''a'' ''shop'' ''d'') \<in> ends ` set (storageFlowEdges (\<lambda>k. k)
     (storageChains sxTopology) (tp_PodPVCs sxTopology) (podNodeIDs sxTopology) False)"
proof
  show "distinct (map ends (storageFlowEdges (\<lambda>k. k) (storageChains sxTopology) (tp_PodPVCs sxTopology)
     (podNodeIDs sxTopology) False))"
    by (rule storageFlowEdges_spec [THEN conjunct1])
qed code_simp

text \<open>
  The assembled graph is deterministic: the order in which the map of resolved SVMs is ranged over
  and the order of the pod bindings do not reach the result.
\<close>

theorem assembleStorageFlow_order_free:
  assumes "mset (tp_SVMByPVC t) = mset m" and "gm_wf (tp_SVMByPVC t)" and "mset (tp_PodPVCs t) = mset bs"
  shows "assembleStorageFlow mkid (t\<lparr> tp_SVMByPVC := m, tp_PodPVCs := bs \<rparr>) = assembleStorageFlow mkid t"
proof -
  let ?t = "t\<lparr> tp_SVMByPVC := m, tp_PodPVCs := bs \<rparr>"
  have "storageChains t = storageChains ?t" by (rule storageChains_perm) (use assms in simp_all)
  moreover have "podNodeIDs ?t = podNodeIDs t" by (simp add: podNodeIDs_def)
  moreover have "storageFlowNodes ?t = storageFlowNodes t" by (simp add: storageFlowNodes_def)
  ultimately show ?thesis
    by (simp add: assembleStorageFlow_def storageFlowEdges_perm [OF assms(3)])
qed

theorem assembleStorageFlow_order_free_witness:
  "assembleStorageFlow (\<lambda>k. k) (sxTopology\<lparr> tp_SVMByPVC := tp_SVMByPVC sxTopology,
     tp_PodPVCs := rev (tp_PodPVCs sxTopology) \<rparr>) = assembleStorageFlow (\<lambda>k. k) sxTopology"
  by (rule assembleStorageFlow_order_free) (simp_all add: sxTopology_def gm_wf_def)

text \<open>
  From topology to view. The graph assembled from a topology whose inventory names every joined
  SVM, aggregate and owner satisfies the conditions of the storage projection: ids are unique, every
  storage-side endpoint is a loaded NetApp node, and no two edges join the same pair. So the flow
  figures of every projected view of it balance at each mounted claim.
\<close>

theorem storageFlowGraph_conserves:
  fixes t :: "rat Topology"
  assumes "topology_ok t" and "sel \<in> flowFigures"
  shows "let g = storageFlowGraph mkid t now; v = ProjectStorage mkid exact (Some g) scope in
    storage_ok g \<and> flow_pairs g \<and>
    (mountEdges g i \<noteq> [] \<longrightarrow> inflow sel StorageTierSVMPVC i v = outflow sel StorageTierPVCPod i v)"
proof -
  let ?g = "storageFlowGraph mkid t now"
  let ?es = "storageFlowEdges mkid (storageChains t) (tp_PodPVCs t) (podNodeIDs t) (tp_ClaimSeeded t)"
  note inv = inventory_netapp [OF assms(1), of _ mkid now]
  have wf: "wf_graph ?g" by (simp add: storageFlowGraph_def assembleStorageFlow_def Let_def NewGraph_wf)
  have "Source e \<noteq> [] \<and> Target e \<noteq> []
      \<and> (tier e \<in> {StorageTierNodeAggr, StorageTierAggrSVM, StorageTierSVMPVC} \<longrightarrow> netappNode ?g (Source e))
      \<and> (tier e \<in> {StorageTierNodeAggr, StorageTierAggrSVM} \<longrightarrow> netappNode ?g (Target e))
      \<and> (gm_str (ELabels e) ClaimAggrLabel \<noteq> [] \<longrightarrow> netappNode ?g (gm_str (ELabels e) ClaimAggrLabel))"
    if e: "e \<in> set (Edges ?g)" for e
  proof -
    obtain c m where m: "c \<in> set (storageChains t)"
      "m \<in> set (emissions (mountersByPVC (tp_PodPVCs t)) (podNodeIDs t) (tp_ClaimSeeded t) c)"
      "e = em_edge mkid m" "em_source m \<noteq> []" "em_target m \<noteq> []"
      using e unfolding storageFlowGraph_Edges by (rule storageFlowEdges_in)
    note chain = chain_inventory [OF assms(1) m(1)]
    have "em_tier m \<in> {StorageTierNodeAggr, StorageTierAggrSVM, StorageTierSVMPVC} \<Longrightarrow> em_source m \<in> inventoryIDs t"
      "em_tier m \<in> {StorageTierNodeAggr, StorageTierAggrSVM} \<Longrightarrow> em_target m \<in> inventoryIDs t"
      using m(2,4,5) chain by (auto simp: emissions_def Let_def split: if_splits)
    then show ?thesis
      using m(4,5) inv chain(2) emission_labels(1,4) [OF m(2), of mkid] unfolding m(3) em_edge_sel(1,2)
      by (metis (no_types, lifting))
  qed
  then have closed: "storage_closed ?g" by (auto simp: storage_closed_def list_all_iff Let_def)
  have "mset (Edges ?g) = mset ?es"
    by (simp add: storageFlowGraph_def assembleStorageFlow_def NewGraph_def Let_def edge_sort.srt_mset)
  then have "distinct (map ends (Edges ?g))"
    using firsts_props(1) [of "{}" "allEmissions (storageChains t) (tp_PodPVCs t) (podNodeIDs t) (tp_ClaimSeeded t)"]
    by (metis (no_types, lifting) mset_map mset_eq_imp_distinct_iff map_map comp_def ends_em_edge
        map_cong storageFlowEdges_firsts)
  then have pairs: "flow_pairs ?g" by (simp add: flow_pairs_def distinct_map_filter)
  have "length (filter (\<lambda>e. Target e = i) (tierHop ?g claim pe StorageTierSVMPVC))
      = length (filter (\<lambda>e. Source e = i) (tierHop ?g claim pe StorageTierPVCPod))"
    if "mountEdges ?g i \<noteq> []" "pe \<in> set (claimMounts ?g claim)" for claim pe
    using that claimMounts_in(1) [of _ ?g claim] claimMounts_in(2) [of ?g claim]
    by (auto simp: tierHop_simps split: option.split)
  then have "mountEdges ?g i \<noteq> [] \<Longrightarrow> inflow sel StorageTierSVMPVC i (ProjectStorage mkid exact (Some ?g) scope)
      = outflow sel StorageTierPVCPod i (ProjectStorage mkid exact (Some ?g) scope)"
    by (intro conserved [OF wf pairs assms(2)]) blast
  then show ?thesis using wf closed pairs by (simp add: storage_ok_def Let_def)
qed

theorem storageFlowGraph_conserves_witness:
  "flow_pairs (storageFlowGraph (\<lambda>k. k) sxTopology 0)
   \<and> outflow ReadOps StorageTierPVCPod (PVCID ''a'' ''shop'' ''d'')
       (ProjectStorage (\<lambda>k. k) exact (Some (storageFlowGraph (\<lambda>k. k) sxTopology 0)) (fxScope ''svm'' [''s1''])) = 10"
proof
  have "ReadOps \<in> flowFigures" by (simp add: flowFigures_def)
  then show "flow_pairs (storageFlowGraph (\<lambda>k. k) sxTopology 0)"
    using storageFlowGraph_conserves [OF sx_ok] unfolding Let_def by blast
qed code_simp

text \<open>
  The topology relations of the default graph: a pod-mounts-pvc edge for every binding whose claim
  was loaded, and exactly one pod-to-node edge for every scheduled pod and its node, however often the
  pod is listed.
\<close>

theorem TopologyEdges_spec:
  fixes t :: "'f Topology"
  shows "map ends (filter (\<lambda>e. EType e = EdgeTypePodMountsPVC) (TopologyEdges mkid t))
     = map (\<lambda>b. (PodID_of b, PVCID_of b))
         (filter (\<lambda>b. PVCID_of b \<in> pvc_IDValue ` set (tp_PVCs t)) (tp_PodPVCs t)) \<and>
   distinct (map ends (filter (\<lambda>e. EType e = EdgeTypePodToNode) (TopologyEdges mkid t))) \<and>
   ends ` set (filter (\<lambda>e. EType e = EdgeTypePodToNode) (TopologyEdges mkid t))
     = {(pod_IDValue p, gm_str (pod_LabelsValue p) ''node'') | p.
         p \<in> set (tp_Pods t) \<and> gm_str (pod_LabelsValue p) ''node'' \<noteq> []}"
proof -
  let ?pvcByID = "fold (\<lambda>pv. gm_put (pvc_IDValue pv) pv) (tp_PVCs t) []"
  let ?mk = "\<lambda>b. case gm_get ?pvcByID (PVCID_of b) of None \<Rightarrow> None
            | Some pv \<Rightarrow> Some (NewEdge mkid EdgeTypePodMountsPVC (PodID_of b) (PVCID_of b) [(''claim_name'', pvc_NameValue pv)] :: 'f Edge)"
  let ?keys = "fold pairKeyStep (tp_Pods t) []"
  have keys: "distinct ?keys" "set ?keys = {(pod_IDValue p, gm_str (pod_LabelsValue p) ''node'') | p.
         p \<in> set (tp_Pods t) \<and> gm_str (pod_LabelsValue p) ''node'' \<noteq> []}"
    using podNode_keys [of "[]" "tp_Pods t"] by (simp_all add: podNodePair_def)
  have has: "gm_get ?pvcByID i = None \<longleftrightarrow> i \<notin> pvc_IDValue ` set (tp_PVCs t)" for i
    by (auto simp: gm_get_fold_put find_None_iff)
  have mounts: "filter (\<lambda>e. EType e = ty) (List.map_filter ?mk bs)
      = (if ty = EdgeTypePodMountsPVC then List.map_filter ?mk bs else [])" for ty bs
    by (induction bs) (auto simp: NewEdge_def split: option.splits)
  have podEdges: "filter (\<lambda>e. EType e = ty) (map (\<lambda>(p, n). NewEdge mkid EdgeTypePodToNode p n [] :: 'f Edge) ks)
      = (if ty = EdgeTypePodToNode then map (\<lambda>(p, n). NewEdge mkid EdgeTypePodToNode p n []) ks else [])" for ty ks
    by (induction ks) (auto simp: NewEdge_def)
  have eq: "TopologyEdges mkid t = List.map_filter ?mk (tp_PodPVCs t)
      @ map (\<lambda>(p, n). NewEdge mkid EdgeTypePodToNode p n []) ?keys"
    using podNode_scan [of mkid "tp_Pods t" "List.map_filter ?mk (tp_PodPVCs t)" "[]"]
    by (simp add: TopologyEdges_def Let_def)
  have "filter (\<lambda>e. EType e = EdgeTypePodMountsPVC) (TopologyEdges mkid t) = List.map_filter ?mk (tp_PodPVCs t)"
    unfolding eq filter_append podEdges mounts by simp
  moreover have "map ends (List.map_filter ?mk bs) = map (\<lambda>b. (PodID_of b, PVCID_of b))
         (filter (\<lambda>b. PVCID_of b \<in> pvc_IDValue ` set (tp_PVCs t)) bs)" for bs
  proof (induction bs)
    case (Cons b bs)
    then show ?case
      using has [of "PVCID_of b"] by (cases "gm_get ?pvcByID (PVCID_of b)") (simp_all add: ends_def NewEdge_def)
  qed simp
  moreover have "filter (\<lambda>e. EType e = EdgeTypePodToNode) (TopologyEdges mkid t)
      = map (\<lambda>(p, n). NewEdge mkid EdgeTypePodToNode p n []) ?keys"
    unfolding eq filter_append podEdges mounts by simp
  moreover have "map ends (map (\<lambda>(p, n). NewEdge mkid EdgeTypePodToNode p n [] :: 'f Edge) ks) = ks" for ks
    by (induction ks) (auto simp: ends_def NewEdge_def)
  ultimately have m: "map ends (filter (\<lambda>e. EType e = EdgeTypePodMountsPVC) (TopologyEdges mkid t))
       = map (\<lambda>b. (PodID_of b, PVCID_of b)) (filter (\<lambda>b. PVCID_of b \<in> pvc_IDValue ` set (tp_PVCs t)) (tp_PodPVCs t))"
    and n: "map ends (filter (\<lambda>e. EType e = EdgeTypePodToNode) (TopologyEdges mkid t)) = ?keys"
    by simp_all
  have "ends ` set (filter (\<lambda>e. EType e = EdgeTypePodToNode) (TopologyEdges mkid t)) = set ?keys"
    unfolding set_map [symmetric] n ..
  then show ?thesis using m n keys by simp
qed

end
