(* ===== verification/NetAppJoin.thy ===== *)
theory NetAppJoin
  imports NetAppNodes StorageFlow
begin

text \<open>
  The storage join: \<open>resolveNetAppStorage\<close> (\<open>pkg/build/netapp.go\<close>). What it promises, and how
  \<open>parseTopology\<close> feeds it and stamps its result, is \<open>NetAppResults\<close>.
\<close>

section \<open>Hop A\<close>

record claimMatch =
  cm_cand :: volumeLabelCandidate
  cm_vol :: string
  cm_agrees :: bool

definition volumeCandidateOf :: "LabelKeys \<Rightarrow> 'f Row \<Rightarrow> (string \<times> volumeLabelCandidate) option" where
  "volumeCandidateOf keys s =
     (let vol = HarvestVolume s; oc = row_str s ''cluster'' in
      if vol = [] \<or> oc = [] then None
      else Some (vol,
        \<lparr> vl_ontapCluster = oc, vl_node = row_str s ''node'', vl_aggr = row_str s ''aggr'', vl_svm = row_str s ''svm'',
          vl_zone = zoneOrNone (sm_metric s) keys \<rparr>))"

definition volumeStep ::
  "LabelKeys \<Rightarrow> pvcVolume list \<Rightarrow> volumeMatcher \<Rightarrow> 'f Row
     \<Rightarrow> volIndex \<times> claimMatch list list \<Rightarrow> volIndex \<times> claimMatch list list" where
  "volumeStep keys claims matcher s = (\<lambda>(vi, matches).
     (case volumeCandidateOf keys s of
        None \<Rightarrow> (vi, matches)
      | Some (vol, cand) \<Rightarrow>
          (gm_append vol cand vi,
           fold (\<lambda>ci matches. matches[ci := matches ! ci @
               [\<lparr> cm_cand = cand, cm_vol = vol, cm_agrees = zonesAgree (pv_zone (claims ! ci)) (vl_zone cand) \<rparr>]])
             (matchVolume matcher vol) matches)))"

definition volumePass ::
  "LabelKeys \<Rightarrow> VolumeKeyRewriter \<Rightarrow> pvcVolume list \<Rightarrow> 'f Row list \<Rightarrow> volIndex \<times> claimMatch list list" where
  "volumePass keys rw claims volumeLabels =
     fold (volumeStep keys claims (newVolumeMatcher rw claims)) volumeLabels ([], replicate (length claims) [])"

definition preferAgreeing :: "claimMatch list \<Rightarrow> claimMatch list" where
  "preferAgreeing matches =
     (let prefer = list_ex cm_agrees matches in filter (\<lambda>m. \<not> (prefer \<and> \<not> cm_agrees m)) matches)"

definition candsOf :: "claimMatch list \<Rightarrow> volumeLabelCandidate list" where
  "candsOf matches = map cm_cand (preferAgreeing matches)"

definition volsOf :: "claimMatch list \<Rightarrow> string list" where
  "volsOf matches = sort (collectNew (\<lambda>m. Some (cm_vol m)) (preferAgreeing matches))"

section \<open>The join\<close>

record 'f joinHit =
  jh_oc :: string
  jh_aggr :: string
  jh_io :: "'f IOMetrics option"

record 'f joinState =
  js_svmByPVC :: "(string, SVMRef) gomap"
  js_qosByPVC :: "(string, 'f QoSCeiling) gomap"
  js_hits :: "(string, 'f joinHit) gomap"
  js_topoMisses :: nat
  js_qosMisses :: nat

record 'f joinInput =
  ji_qosIndex :: "'f qosIndex"
  ji_deltaIndex :: "'f qosIndex"
  ji_policyIndex :: "(policyKey, 'f IOMetrics) gomap"
  ji_topoPresent :: bool
  ji_restricted :: bool
  ji_qosPresent :: bool

definition joinClaim ::
  "('f :: linorder) Arith \<Rightarrow> 'f \<Rightarrow> 'f joinInput \<Rightarrow> pvcVolume \<times> claimMatch list \<Rightarrow> 'f joinState \<Rightarrow> 'f joinState" where
  "joinClaim A zero inp = (\<lambda>(c, matches) js.
     let cands = candsOf matches; vols = volsOf matches;
         (oc, aggr) = pickAggr cands;
         (svmOC, svm) = pickSVM cands oc;
         js = (if svm \<noteq> [] then js\<lparr> js_svmByPVC := gm_put (pv_id c) \<lparr> sr_ONTAPCluster = svmOC, sr_SVM = svm \<rparr> (js_svmByPVC js) \<rparr> else js);
         keyOC = (if oc = [] then svmOC else oc);
         qcands = preferQoSZone (qosCandidatesFor vols (ji_qosIndex inp)) (pv_zone c) keyOC svm;
         ceiling = resolveCeiling qcands (ji_policyIndex inp) keyOC svm;
         js = (case ceiling of None \<Rightarrow> js | Some q \<Rightarrow> js\<lparr> js_qosByPVC := gm_put (pv_id c) q (js_qosByPVC js) \<rparr>)
     in if oc = [] \<or> aggr = [] then
          (if ji_topoPresent inp \<and> (\<not> ji_restricted inp \<or> cands \<noteq> [])
           then js\<lparr> js_topoMisses := js_topoMisses js + 1 \<rparr> else js)
        else
          let measured = sumQoSIO A zero qcands;
              js = (if measured = None \<and> ji_qosPresent inp then js\<lparr> js_qosMisses := js_qosMisses js + 1 \<rparr> else js);
              io = map_option (\<lambda>m.
                let m = applyCeiling ceiling m in
                if ji_deltaIndex inp \<noteq> [] then
                  applyDelta (sumQoSIO A zero
                    (preferQoSZone (qosCandidatesFor vols (ji_deltaIndex inp)) (pv_zone c) keyOC svm)) m
                else m) measured
          in js\<lparr> js_hits := gm_put (pv_id c) \<lparr> jh_oc = oc, jh_aggr = aggr, jh_io = io \<rparr> (js_hits js) \<rparr>)"

definition joinedAggrs ::
  "(string, 'f joinHit) gomap \<Rightarrow> (aggrKey, 'f NetAppAggrNode) gomap \<Rightarrow> (aggrKey, 'f NetAppAggrNode) gomap" where
  "joinedAggrs hits aggrByKey =
     fold (\<lambda>(_, hit) seen.
        case gm_get aggrByKey (jh_oc hit, jh_aggr hit) of
          None \<Rightarrow> seen
        | Some a \<Rightarrow> gm_put (jh_oc hit, jh_aggr hit) a seen) hits []"

definition joinedNodes ::
  "(aggrKey, 'f NetAppAggrNode) gomap \<Rightarrow> (netappNodeKey, 'f NetAppNode) gomap \<Rightarrow> (netappNodeKey, 'f NetAppNode) gomap" where
  "joinedNodes aggrSeen nodeByKey =
     fold (\<lambda>(_, a) seen.
        let oc = gm_str (aggr_LabelsValue a) ''ontap_cluster''; node = gm_str (aggr_LabelsValue a) ''node'' in
        if oc = [] \<or> node = [] then seen
        else case gm_get nodeByKey (oc, node) of None \<Rightarrow> seen | Some n \<Rightarrow> gm_put (oc, node) n seen) aggrSeen []"

definition joinEdges :: "(string \<Rightarrow> string) \<Rightarrow> pvcVolume list \<Rightarrow> (string, 'f joinHit) gomap \<Rightarrow> 'f Edge list" where
  "joinEdges mkid claims hits =
     SortEdges (fst (fold (\<lambda>c (edges, seen).
        case gm_get hits (pv_id c) of
          None \<Rightarrow> (edges, seen)
        | Some hit \<Rightarrow>
            let tgt = NetAppAggrID (jh_oc hit) (jh_aggr hit) in
            if (pv_id c, tgt) \<in> set seen then (edges, seen)
            else
              let e = NewEdge mkid EdgeTypePVCToNetAppAggr (pv_id c) tgt [];
                  e = (case jh_io hit of None \<Rightarrow> e | Some io \<Rightarrow> the (WithIO (Some e) io))
              in (edges @ [e], (pv_id c, tgt) # seen)) claims ([], [])))"

record 'f netappResult =
  nr_svmByPVC :: "(string, SVMRef) gomap"
  nr_qosByPVC :: "(string, 'f QoSCeiling) gomap"
  nr_aggrs :: "'f NetAppAggrNode list"
  nr_nodes :: "'f NetAppNode list"
  nr_edges :: "'f Edge list"
  nr_inventory :: "'f NetAppInventory"

definition joinInputOf ::
  "('f \<Rightarrow> 'f) \<Rightarrow> (Metric \<Rightarrow> 64 word) \<Rightarrow> LabelKeys \<Rightarrow> ('f :: linorder) harvestVectors \<Rightarrow> 'f joinInput" where
  "joinInputOf perMB fp keys v =
     (let qosIndex = indexQoS fp keys (qosRead (hv_QoSDelta v)) (hv_QoS v) in
      \<lparr> ji_qosIndex = qosIndex,
        ji_deltaIndex = keepUnchangedDeltaRows (indexQoS fp keys True (hv_QoSDelta v)) qosIndex,
        ji_policyIndex = indexPolicyCeilings perMB (hv_PolicyMaxIOPS v) (hv_PolicyMaxMBps v),
        ji_topoPresent = (hv_VolumeLabels v \<noteq> []), ji_restricted = hv_VolumeLabelsRestricted v,
        ji_qosPresent = qosRead (hv_QoS v) \<rparr>)"

definition noJoin :: "'f joinState" where
  "noJoin = \<lparr> js_svmByPVC = [], js_qosByPVC = [], js_hits = [], js_topoMisses = 0, js_qosMisses = 0 \<rparr>"

definition joinAll ::
  "('f :: linorder) Arith \<Rightarrow> 'f \<Rightarrow> ('f \<Rightarrow> 'f) \<Rightarrow> (Metric \<Rightarrow> 64 word) \<Rightarrow> VolumeKeyRewriter \<Rightarrow> LabelKeys
     \<Rightarrow> pvcVolume list \<Rightarrow> 'f harvestVectors \<Rightarrow> 'f joinState" where
  "joinAll A zero perMB fp rw keys claims v =
     fold (joinClaim A zero (joinInputOf perMB fp keys v))
       (zip claims (snd (volumePass keys rw claims (hv_VolumeLabels v)))) noJoin"

definition resolveNetAppStorage ::
  "(string \<Rightarrow> string) \<Rightarrow> ('f :: {linorder, one}) Arith \<Rightarrow> 'f \<Rightarrow> ('f \<Rightarrow> 'f) \<Rightarrow> (Metric \<Rightarrow> 64 word) \<Rightarrow> VolumeKeyRewriter
     \<Rightarrow> LabelKeys \<Rightarrow> pvcVolume list \<Rightarrow> 'f harvestVectors \<Rightarrow> 'f netappResult" where
  "resolveNetAppStorage mkid A zero perMB fp rw keys claims v =
     (let keys = OrDefault keys;
          volIndex = fst (volumePass keys rw claims (hv_VolumeLabels v));
          js = joinAll A zero perMB fp rw keys claims v;
          idx = buildNetAppIndexes volIndex (ownerVotes volIndex) v;
          aggrSeen = joinedAggrs (js_hits js) (ni_aggrByKey idx);
          nodeSeen = joinedNodes aggrSeen (ni_nodeByKey idx)
      in \<lparr> nr_svmByPVC = js_svmByPVC js, nr_qosByPVC = js_qosByPVC js,
           nr_aggrs = sort_key aggr_IDValue (map snd aggrSeen),
           nr_nodes = sort_key ctrl_IDValue (map snd nodeSeen),
           nr_edges = joinEdges mkid claims (js_hits js), nr_inventory = ni_inventory idx \<rparr>)"

section \<open>What one claim contributes\<close>

definition pickedAggr :: "claimMatch list \<Rightarrow> aggrKey" where
  "pickedAggr ms = pickAggr (candsOf ms)"

definition pickedSVM :: "claimMatch list \<Rightarrow> string \<times> string" where
  "pickedSVM ms = pickSVM (candsOf ms) (fst (pickedAggr ms))"

definition keyCluster :: "claimMatch list \<Rightarrow> string" where
  "keyCluster ms = (if fst (pickedAggr ms) = [] then fst (pickedSVM ms) else fst (pickedAggr ms))"

definition measuredRows :: "'f qosIndex \<Rightarrow> pvcVolume \<Rightarrow> claimMatch list \<Rightarrow> 'f qosCandidate list" where
  "measuredRows idx c ms = preferQoSZone (qosCandidatesFor (volsOf ms) idx) (pv_zone c) (keyCluster ms) (snd (pickedSVM ms))"

definition claimSVM :: "claimMatch list \<Rightarrow> SVMRef option" where
  "claimSVM ms =
     (if snd (pickedSVM ms) = [] then None
      else Some \<lparr> sr_ONTAPCluster = fst (pickedSVM ms), sr_SVM = snd (pickedSVM ms) \<rparr>)"

definition claimCeiling :: "'f joinInput \<Rightarrow> pvcVolume \<Rightarrow> claimMatch list \<Rightarrow> 'f QoSCeiling option" where
  "claimCeiling inp c ms =
     resolveCeiling (measuredRows (ji_qosIndex inp) c ms) (ji_policyIndex inp) (keyCluster ms) (snd (pickedSVM ms))"

definition claimIO :: "('f :: linorder) Arith \<Rightarrow> 'f \<Rightarrow> 'f joinInput \<Rightarrow> pvcVolume \<Rightarrow> claimMatch list \<Rightarrow> 'f IOMetrics option" where
  "claimIO A zero inp c ms =
     map_option (\<lambda>m.
       let m = applyCeiling (claimCeiling inp c ms) m in
       if ji_deltaIndex inp \<noteq> [] then applyDelta (sumQoSIO A zero (measuredRows (ji_deltaIndex inp) c ms)) m else m)
     (sumQoSIO A zero (measuredRows (ji_qosIndex inp) c ms))"

definition claimHit :: "('f :: linorder) Arith \<Rightarrow> 'f \<Rightarrow> 'f joinInput \<Rightarrow> pvcVolume \<Rightarrow> claimMatch list \<Rightarrow> 'f joinHit option" where
  "claimHit A zero inp c ms =
     (if fst (pickedAggr ms) = [] \<or> snd (pickedAggr ms) = [] then None
      else Some \<lparr> jh_oc = fst (pickedAggr ms), jh_aggr = snd (pickedAggr ms), jh_io = claimIO A zero inp c ms \<rparr>)"

definition putEntry :: "string \<Rightarrow> 'v option \<Rightarrow> (string, 'v) gomap \<Rightarrow> (string, 'v) gomap" where
  "putEntry i x m = (case x of None \<Rightarrow> m | Some v \<Rightarrow> gm_put i v m)"

lemma joinClaim_sel:
  "js_svmByPVC (joinClaim A zero inp (c, ms) js) = putEntry (pv_id c) (claimSVM ms) (js_svmByPVC js)"
  "js_qosByPVC (joinClaim A zero inp (c, ms) js) = putEntry (pv_id c) (claimCeiling inp c ms) (js_qosByPVC js)"
  "js_hits (joinClaim A zero inp (c, ms) js) = putEntry (pv_id c) (claimHit A zero inp c ms) (js_hits js)"
proof -
  obtain oc aggr where a: "pickAggr (candsOf ms) = (oc, aggr)" by fastforce
  obtain svmOC svm where v: "pickSVM (candsOf ms) oc = (svmOC, svm)" by fastforce
  have sel: "pickedAggr ms = (oc, aggr)" "pickedSVM ms = (svmOC, svm)" "keyCluster ms = (if oc = [] then svmOC else oc)"
    unfolding pickedAggr_def pickedSVM_def keyCluster_def a fst_conv v snd_conv by simp_all
  define q where "q = resolveCeiling (measuredRows (ji_qosIndex inp) c ms) (ji_policyIndex inp) (keyCluster ms) svm"
  have q: "claimCeiling inp c ms = q" by (simp add: claimCeiling_def q_def sel(2))
  note rows = measuredRows_def [of _ c ms, unfolded sel(2) sel(3) snd_conv]
  have step: "joinClaim A zero inp (c, ms) js =
     (let js = (if svm \<noteq> [] then js\<lparr> js_svmByPVC := gm_put (pv_id c) \<lparr> sr_ONTAPCluster = svmOC, sr_SVM = svm \<rparr> (js_svmByPVC js) \<rparr> else js);
          js = (case q of None \<Rightarrow> js | Some q \<Rightarrow> js\<lparr> js_qosByPVC := gm_put (pv_id c) q (js_qosByPVC js) \<rparr>)
      in if oc = [] \<or> aggr = [] then
           (if ji_topoPresent inp \<and> (\<not> ji_restricted inp \<or> candsOf ms \<noteq> [])
            then js\<lparr> js_topoMisses := js_topoMisses js + 1 \<rparr> else js)
         else
           (let js = (if sumQoSIO A zero (measuredRows (ji_qosIndex inp) c ms) = None \<and> ji_qosPresent inp
               then js\<lparr> js_qosMisses := js_qosMisses js + 1 \<rparr> else js)
            in js\<lparr> js_hits := gm_put (pv_id c) \<lparr> jh_oc = oc, jh_aggr = aggr, jh_io = claimIO A zero inp c ms \<rparr> (js_hits js) \<rparr>))"
    unfolding joinClaim_def claimIO_def q rows q_def sel(3) by (simp only: prod.case Let_def a v)
  show "js_svmByPVC (joinClaim A zero inp (c, ms) js) = putEntry (pv_id c) (claimSVM ms) (js_svmByPVC js)"
    unfolding step by (cases q) (simp_all add: Let_def putEntry_def claimSVM_def sel)
  show "js_qosByPVC (joinClaim A zero inp (c, ms) js) = putEntry (pv_id c) (claimCeiling inp c ms) (js_qosByPVC js)"
    unfolding step q by (cases q) (simp_all add: Let_def putEntry_def)
  show "js_hits (joinClaim A zero inp (c, ms) js) = putEntry (pv_id c) (claimHit A zero inp c ms) (js_hits js)"
    unfolding step by (cases q) (simp_all add: Let_def putEntry_def claimHit_def sel)
qed

section \<open>The matches of a claim\<close>

definition volumeRows :: "LabelKeys \<Rightarrow> 'f Row list \<Rightarrow> (string \<times> volumeLabelCandidate) list" where
  "volumeRows keys rows = List.map_filter (volumeCandidateOf keys) rows"

definition matchOf :: "VolumeKeyRewriter \<Rightarrow> pvcVolume \<Rightarrow> string \<times> volumeLabelCandidate \<Rightarrow> claimMatch option" where
  "matchOf rw c = (\<lambda>(vol, cand).
     if tokenMatches (claimToken rw c) vol
     then Some \<lparr> cm_cand = cand, cm_vol = vol, cm_agrees = zonesAgree (pv_zone c) (vl_zone cand) \<rparr> else None)"

definition matchesOf :: "LabelKeys \<Rightarrow> VolumeKeyRewriter \<Rightarrow> 'f Row list \<Rightarrow> pvcVolume \<Rightarrow> claimMatch list" where
  "matchesOf keys rw rows c = List.map_filter (matchOf rw c) (volumeRows keys rows)"

lemma fold_update_each:
  assumes "distinct idxs"
  shows "length (fold (\<lambda>ci ms. ms[ci := ms ! ci @ [x ci]]) idxs ms) = length ms"
    and "i < length ms \<Longrightarrow> fold (\<lambda>ci ms. ms[ci := ms ! ci @ [x ci]]) idxs ms ! i = (if i \<in> set idxs then ms ! i @ [x i] else ms ! i)"
proof -
  show "length (fold (\<lambda>ci ms. ms[ci := ms ! ci @ [x ci]]) idxs ms) = length ms" for ms
    by (induction idxs arbitrary: ms) auto
  show "i < length ms \<Longrightarrow> fold (\<lambda>ci ms. ms[ci := ms ! ci @ [x ci]]) idxs ms ! i = (if i \<in> set idxs then ms ! i @ [x i] else ms ! i)"
    using assms
  proof (induction idxs arbitrary: ms)
    case (Cons j idxs)
    have "ms[j := ms ! j @ [x j]] ! i = (if i = j then ms ! i @ [x i] else ms ! i)" using Cons.prems(1) by auto
    then show ?case using Cons by auto
  qed simp
qed

lemma volumePass_fold:
  assumes "length ms = length claims" and "\<forall>i<length claims. ms ! i = pre i"
  shows "let r = fold (volumeStep keys claims (newVolumeMatcher rw claims)) rows (vi, ms) in
    fst r = fold (\<lambda>(vol, cand). gm_append vol cand) (volumeRows keys rows) vi \<and> length (snd r) = length claims
    \<and> (\<forall>i<length claims. snd r ! i = pre i @ matchesOf keys rw rows (claims ! i))"
  using assms
proof (induction rows arbitrary: vi ms pre)
  case Nil
  then show ?case by (simp add: volumeRows_def matchesOf_def List.map_filter_def)
next
  case (Cons s rows)
  show ?case
  proof (cases "volumeCandidateOf keys s")
    case None
    then show ?thesis using Cons.IH [OF Cons.prems, of vi]
      by (simp add: volumeStep_def volumeRows_def matchesOf_def map_filter_Cons)
  next
    case (Some vc)
    obtain vol cand where vc: "vc = (vol, cand)" by fastforce
    define x where "x ci = \<lparr> cm_cand = cand, cm_vol = vol, cm_agrees = zonesAgree (pv_zone (claims ! ci)) (vl_zone cand) \<rparr>" for ci
    define ms' where "ms' = fold (\<lambda>ci ms. ms[ci := ms ! ci @ [x ci]]) (matchVolume (newVolumeMatcher rw claims) vol) ms"
    note upd = fold_update_each [OF matchVolume_distinct [of rw claims vol], where x = x and ms = ms]
    define pre' where "pre' i = pre i @ (if tokenMatches (claimToken rw (claims ! i)) vol then [x i] else [])" for i
    have len: "length ms' = length claims" using upd(1) Cons.prems(1) by (simp add: ms'_def)
    have pre': "\<forall>i<length claims. ms' ! i = pre' i"
      using upd(2) Cons.prems by (simp add: ms'_def pre'_def matchVolume_in)
    have step: "volumeStep keys claims (newVolumeMatcher rw claims) s (vi, ms) = (gm_append vol cand vi, ms')"
      by (simp add: volumeStep_def Some vc ms'_def x_def)
    have rest: "pre' i @ matchesOf keys rw rows (claims ! i) = pre i @ matchesOf keys rw (s # rows) (claims ! i)" for i
      by (simp add: pre'_def matchesOf_def volumeRows_def map_filter_Cons Some vc matchOf_def x_def)
    have vr: "volumeRows keys (s # rows) = (vol, cand) # volumeRows keys rows"
      by (simp add: volumeRows_def map_filter_Cons Some vc)
    show ?thesis using Cons.IH [OF len pre', of "gm_append vol cand vi"] by (simp add: step rest vr)
  qed
qed

lemma volumePass_eq:
  "fst (volumePass keys rw claims rows) = fold (\<lambda>(vol, cand). gm_append vol cand) (volumeRows keys rows) []"
  "snd (volumePass keys rw claims rows) = map (matchesOf keys rw rows) claims"
proof -
  note P = volumePass_fold [of "replicate (length claims) []" claims "\<lambda>_. []" keys rw rows "[]", folded volumePass_def]
  show "fst (volumePass keys rw claims rows) = fold (\<lambda>(vol, cand). gm_append vol cand) (volumeRows keys rows) []"
    using P by (simp add: Let_def)
  show "snd (volumePass keys rw claims rows) = map (matchesOf keys rw rows) claims"
    by (rule nth_equalityI) (use P in \<open>simp_all add: Let_def\<close>)
qed

text \<open>The candidates of the volume index are those of the rows.\<close>

lemma volumeCands_lists: "gm_wf vi \<Longrightarrow> volumeCands vi = (\<Union>k. set (gm_list vi k))"
proof -
  assume wf: "gm_wf vi"
  have "c \<in> volumeCands vi \<longleftrightarrow> (\<exists>k cands. gm_get vi k = Some cands \<and> c \<in> set cands)" for c
  proof -
    have "c \<in> volumeCands vi \<longleftrightarrow> (\<exists>k cands. (k, cands) \<in> set vi \<and> c \<in> set cands)" by (force simp: volumeCands_def)
    then show ?thesis by (simp only: gm_in_get_iff [OF wf])
  qed
  moreover have "(\<exists>cands. gm_get vi k = Some cands \<and> c \<in> set cands) \<longleftrightarrow> c \<in> set (gm_list vi k)" for c k
    by (cases "map_of vi k") (simp_all add: gm_list_def gm_get_def)
  ultimately have "c \<in> volumeCands vi \<longleftrightarrow> (\<exists>k. c \<in> set (gm_list vi k))" for c by (simp only:)
  then show ?thesis by (simp add: set_eq_iff)
qed

lemma append_pairs_wf: "gm_wf m \<Longrightarrow> gm_wf (fold (\<lambda>(k, x). gm_append k x) ps m)"
  by (induction ps arbitrary: m) (auto simp: gm_append_def)

lemma volumePass_cands: "volumeCands (fst (volumePass keys rw claims rows)) = snd ` set (volumeRows keys rows)"
proof -
  have "fold (\<lambda>(vol, cand). gm_append vol cand) (volumeRows keys rows) [] = fold (\<lambda>p. gm_append (fst p) (snd p)) (volumeRows keys rows) []"
    by (simp add: case_prod_unfold)
  moreover have "gm_wf (fold (\<lambda>p. gm_append (fst p) (snd p)) (volumeRows keys rows) [])"
    using append_pairs_wf [of "[]" "volumeRows keys rows"] by (simp add: case_prod_unfold)
  ultimately show ?thesis
    by (simp add: volumePass_eq volumeCands_lists gm_list_fold_append) (force simp: gm_list_def)
qed

section \<open>The join as a function of each claim\<close>

definition putEach :: "(pvcVolume \<Rightarrow> 'v option) \<Rightarrow> pvcVolume list \<Rightarrow> (string, 'v) gomap" where
  "putEach f claims = fold (\<lambda>c. putEntry (pv_id c) (f c)) claims []"

lemma joinAll_sel:
  fixes v :: "('f :: linorder) harvestVectors"
  shows "js_svmByPVC (joinAll A zero perMB fp rw keys claims v) = putEach (\<lambda>c. claimSVM (matchesOf keys rw (hv_VolumeLabels v) c)) claims"
    "js_qosByPVC (joinAll A zero perMB fp rw keys claims v) =
       putEach (\<lambda>c. claimCeiling (joinInputOf perMB fp keys v) c (matchesOf keys rw (hv_VolumeLabels v) c)) claims"
    "js_hits (joinAll A zero perMB fp rw keys claims v) =
       putEach (\<lambda>c. claimHit A zero (joinInputOf perMB fp keys v) c (matchesOf keys rw (hv_VolumeLabels v) c)) claims"
proof -
  let ?inp = "joinInputOf perMB fp keys v" and ?ms = "matchesOf keys rw (hv_VolumeLabels v)"
  have zip: "zip claims (snd (volumePass keys rw claims (hv_VolumeLabels v))) = map (\<lambda>c. (c, ?ms c)) claims"
    by (simp add: volumePass_eq(2) zip_map2 zip_same_conv_map)
  have "js_svmByPVC (fold (joinClaim A zero ?inp) (map (\<lambda>c. (c, ?ms c)) cs) js) = fold (\<lambda>c. putEntry (pv_id c) (claimSVM (?ms c))) cs (js_svmByPVC js)
      \<and> js_qosByPVC (fold (joinClaim A zero ?inp) (map (\<lambda>c. (c, ?ms c)) cs) js) = fold (\<lambda>c. putEntry (pv_id c) (claimCeiling ?inp c (?ms c))) cs (js_qosByPVC js)
      \<and> js_hits (fold (joinClaim A zero ?inp) (map (\<lambda>c. (c, ?ms c)) cs) js) = fold (\<lambda>c. putEntry (pv_id c) (claimHit A zero ?inp c (?ms c))) cs (js_hits js)"
    for cs js by (induction cs arbitrary: js) (simp_all add: joinClaim_sel)
  from this [of claims noJoin]
  show "js_svmByPVC (joinAll A zero perMB fp rw keys claims v) = putEach (\<lambda>c. claimSVM (?ms c)) claims"
    "js_qosByPVC (joinAll A zero perMB fp rw keys claims v) = putEach (\<lambda>c. claimCeiling ?inp c (?ms c)) claims"
    "js_hits (joinAll A zero perMB fp rw keys claims v) = putEach (\<lambda>c. claimHit A zero ?inp c (?ms c)) claims"
    by (simp_all add: joinAll_def zip putEach_def noJoin_def)
qed

lemma putEach_in: "(i, x) \<in> set (putEach f claims) \<Longrightarrow> \<exists>c\<in>set claims. pv_id c = i \<and> f c = Some x"
proof -
  have look: "gm_wf m \<Longrightarrow> gm_get (fold (\<lambda>c. putEntry (pv_id c) (f c)) claims m) i = Some x \<Longrightarrow>
      gm_get m i = Some x \<or> (\<exists>c\<in>set claims. pv_id c = i \<and> f c = Some x)" for m
  proof (induction claims arbitrary: m)
    case (Cons d claims)
    have "gm_wf (putEntry (pv_id d) (f d) m)" using Cons.prems(1) by (simp add: putEntry_def split: option.split)
    from Cons.IH [OF this] Cons.prems(2)
    have "gm_get (putEntry (pv_id d) (f d) m) i = Some x \<or> (\<exists>c\<in>set claims. pv_id c = i \<and> f c = Some x)" by simp
    then show ?case by (auto simp: putEntry_def split: option.splits if_splits)
  qed simp
  have "gm_wf (fold (\<lambda>c. putEntry (pv_id c) (f c)) claims m)" if "gm_wf m" for m
    using that by (induction claims arbitrary: m) (auto simp: putEntry_def split: option.split)
  moreover assume "(i, x) \<in> set (putEach f claims)"
  ultimately have "gm_get (fold (\<lambda>c. putEntry (pv_id c) (f c)) claims []) i = Some x"
    by (intro gm_in_get) (simp_all add: putEach_def)
  from this look [of "[]"] show "\<exists>c\<in>set claims. pv_id c = i \<and> f c = Some x" by simp
qed

lemma putEach_wf: "gm_wf (putEach f claims)"
proof -
  have "gm_wf m \<Longrightarrow> gm_wf (fold (\<lambda>c. putEntry (pv_id c) (f c)) claims m)" for m
    by (induction claims arbitrary: m) (auto simp: putEntry_def split: option.split)
  then show ?thesis by (simp add: putEach_def)
qed

lemma putEach_get:
  assumes "distinct (map pv_id claims)" and "c \<in> set claims"
  shows "gm_get (putEach f claims) (pv_id c) = f c"
proof -
  have "gm_get (fold (\<lambda>c. putEntry (pv_id c) (f c)) claims m) i
      = (case find (\<lambda>c. pv_id c = i) claims of None \<Rightarrow> gm_get m i | Some c \<Rightarrow> (case f c of None \<Rightarrow> gm_get m i | Some x \<Rightarrow> Some x))"
    if "distinct (map pv_id claims)" for m i
    using that
  proof (induction claims arbitrary: m)
    case (Cons d claims)
    have "find (\<lambda>c. pv_id c = i) claims = None" if "pv_id d = i" proof -
      have "pv_id d \<notin> pv_id ` set claims" using Cons.prems by simp
      then show ?thesis unfolding find_None_iff using that by (metis imageI)
    qed
    then show ?case using Cons by (auto simp: putEntry_def split: option.split)
  qed simp
  moreover have "find (\<lambda>d. pv_id d = pv_id c) claims = Some c"
    using assms by (induction claims) auto
  ultimately show ?thesis using assms(1) by (auto simp: putEach_def split: option.split)
qed

end
