(* ===== verification/NetAppResults.thy ===== *)
theory NetAppResults
  imports NetAppJoin
begin

text \<open>
  What the storage join promises (\<open>resolveNetAppStorage\<close>, \<open>pkg/build/netapp.go\<close>): its edges, aggregates and
  controllers fit together, an edge and its claim carry one ceiling, and nothing depends on the order of rows.
  Then \<open>parseTopology\<close> (\<open>pkg/build/topology.go\<close>) feeds it the claims and stamps its result on them, and the
  storage view of the parse conserves flow.
\<close>

section \<open>The picks name entities of the rows\<close>

definition rowCands :: "LabelKeys \<Rightarrow> 'f Row list \<Rightarrow> volumeLabelCandidate set" where
  "rowCands keys rows = snd ` set (volumeRows keys rows)"

lemma matchesOf_cands: "set (candsOf (matchesOf keys rw rows c)) \<subseteq> rowCands keys rows"
proof
  fix d assume "d \<in> set (candsOf (matchesOf keys rw rows c))"
  then obtain m where m: "m \<in> set (matchesOf keys rw rows c)" "d = cm_cand m" by (auto simp: candsOf_def preferAgreeing_def Let_def)
  then obtain p where "p \<in> set (volumeRows keys rows)" "matchOf rw c p = Some m" by (auto simp: matchesOf_def set_map_filter)
  then show "d \<in> rowCands keys rows" using m(2) by (auto simp: matchOf_def rowCands_def case_prod_unfold split: if_splits)
qed

lemma rowCands_cluster: "c \<in> rowCands keys rows \<Longrightarrow> vl_ontapCluster c \<noteq> []"
  by (auto simp: rowCands_def volumeRows_def set_map_filter volumeCandidateOf_def Let_def split: if_splits)

lemma leastPair_in: "finite V \<Longrightarrow> leastPair V = ([], []) \<or> leastPair V \<in> V"
  using least_in [of V] by (auto simp: leastPair_def split: option.split)

lemma claimHit_named:
  assumes "claimHit A zero inp c (matchesOf keys rw rows c) = Some h"
  shows "(jh_oc h, jh_aggr h) \<in> volumeAggrs (rowCands keys rows)"
proof -
  let ?ms = "matchesOf keys rw rows c"
  have h: "jh_oc h = fst (pickedAggr ?ms)" "jh_aggr h = snd (pickedAggr ?ms)" "fst (pickedAggr ?ms) \<noteq> []"
    using assms by (auto simp: claimHit_def split: if_splits)
  then have "pickedAggr ?ms \<in> aggrsOffered (set (candsOf ?ms))"
    using leastPair_in [of "aggrsOffered (set (candsOf ?ms))"] by (auto simp: pickedAggr_def pickAggr_eq offered_finite)
  then obtain d where d: "d \<in> set (candsOf ?ms)" "pickedAggr ?ms = (vl_ontapCluster d, vl_aggr d)" "vl_aggr d \<noteq> []"
    by (auto simp: aggrsOffered_def)
  then have "d \<in> rowCands keys rows" using matchesOf_cands [of keys rw rows c] by blast
  then have "(jh_oc h, jh_aggr h) \<in> (\<lambda>c. (vl_ontapCluster c, vl_aggr c)) ` rowCands keys rows" by (rule rev_image_eqI) (simp add: h d(2))
  then show ?thesis using h d by (simp add: volumeAggrs_def)
qed

lemma claimSVM_named:
  assumes "claimSVM (matchesOf keys rw rows c) = Some r"
  shows "(sr_ONTAPCluster r, sr_SVM r) \<in> volumeSVMs (rowCands keys rows)"
proof -
  let ?ms = "matchesOf keys rw rows c"
  define V where "V = svmsOffered (set (candsOf ?ms)) (fst (pickedAggr ?ms))"
  have p: "pickedSVM ?ms = prod.swap (leastPair V)" by (simp add: pickedSVM_def pickSVM_eq V_def)
  have r: "sr_ONTAPCluster r = snd (leastPair V)" "sr_SVM r = fst (leastPair V)" "fst (leastPair V) \<noteq> []"
    using assms by (auto simp: claimSVM_def p split: if_splits)
  have "finite V" by (simp add: V_def offered_finite)
  then have "leastPair V \<in> V" using leastPair_in [of V] r(3) by auto
  then obtain d where d: "d \<in> set (candsOf ?ms)" "leastPair V = (vl_svm d, vl_ontapCluster d)" by (auto simp: V_def svmsOffered_def)
  then have "d \<in> rowCands keys rows" using matchesOf_cands [of keys rw rows c] by blast
  then show ?thesis using r d(2) rowCands_cluster [of d keys rows] by (auto simp: volumeSVMs_def)
qed

section \<open>The joined lists\<close>

lemma fold_put_key_wf: "gm_wf m \<Longrightarrow> gm_wf (fold (\<lambda>x m. if P x then gm_put (f x) (g (f x)) m else m) xs m)"
  by (induction xs arbitrary: m) auto

lemma fold_put_key_get:
  "gm_get (fold (\<lambda>x m. if P x then gm_put (f x) (g (f x)) m else m) xs m) k
    = (if k \<in> f ` {x \<in> set xs. P x} then Some (g k) else gm_get m k)"
  by (induction xs arbitrary: m) (auto split: if_splits)

lemma wf_graph:
  assumes "gm_wf m" and "\<And>k. gm_get m k = (if k \<in> K then Some (g k) else None)"
  shows "set m = (\<lambda>k. (k, g k)) ` K"
proof -
  have "p \<in> set m \<longleftrightarrow> p \<in> (\<lambda>k. (k, g k)) ` K" for p
  proof (cases p)
    case (Pair k v)
    have "(k, v) \<in> set m \<longleftrightarrow> gm_get m k = Some v" by (rule gm_in_get_iff [OF assms(1)])
    then show ?thesis unfolding Pair assms(2) by auto
  qed
  then show ?thesis by blast
qed

lemma fold_put_key:
  "set (fold (\<lambda>x m. if P x then gm_put (f x) (g (f x)) m else m) xs []) = (\<lambda>k. (k, g k)) ` f ` {x \<in> set xs. P x}"
  by (rule wf_graph [OF fold_put_key_wf [OF gm_wf_Nil]]) (simp add: fold_put_key_get)

lemma joinedAggrs_set:
  assumes "\<And>h. h \<in> snd ` set hits \<Longrightarrow> (jh_oc h, jh_aggr h) \<in> set ks"
  shows "set (joinedAggrs hits (map (\<lambda>k. (k, F k)) ks)) = (\<lambda>k. (k, F k)) ` (\<lambda>h. (jh_oc h, jh_aggr h)) ` snd ` set hits"
proof -
  have got: "gm_get (map (\<lambda>k. (k, F k)) ks) (jh_oc (snd x), jh_aggr (snd x)) = Some (F (jh_oc (snd x), jh_aggr (snd x)))"
    if "x \<in> set hits" for x
    using assms [OF imageI [OF that]] by (simp add: copy_get)
  have "joinedAggrs hits (map (\<lambda>k. (k, F k)) ks) =
      fold (\<lambda>x m. if True then gm_put (jh_oc (snd x), jh_aggr (snd x)) (F (jh_oc (snd x), jh_aggr (snd x))) m else m) hits []"
    unfolding joinedAggrs_def by (rule fold_cong) (simp_all add: got case_prod_unfold)
  then show ?thesis
    using fold_put_key [of "\<lambda>_. True" "\<lambda>x. (jh_oc (snd x), jh_aggr (snd x))" F hits] by (simp add: image_image)
qed

definition ownerKey :: "'f NetAppAggrNode \<Rightarrow> netappNodeKey" where
  "ownerKey a = (gm_str (aggr_LabelsValue a) ''ontap_cluster'', gm_str (aggr_LabelsValue a) ''node'')"

definition owned :: "'f NetAppAggrNode \<Rightarrow> bool" where
  "owned a = (fst (ownerKey a) \<noteq> [] \<and> snd (ownerKey a) \<noteq> [])"

lemma ownerID_owned: "ownerID (Aggr a) = (if owned a then Some (NetAppNodeID (fst (ownerKey a)) (snd (ownerKey a))) else None)"
  by (simp add: ownerID_def owned_def ownerKey_def)

lemma joinedNodes_set:
  assumes "\<And>a. a \<in> snd ` set seen \<Longrightarrow> owned a \<Longrightarrow> ownerKey a \<in> set ks"
  shows "set (joinedNodes seen (map (\<lambda>k. (k, F k)) ks)) = (\<lambda>k. (k, F k)) ` ownerKey ` {a \<in> snd ` set seen. owned a}"
proof -
  have got: "gm_get (map (\<lambda>k. (k, F k)) ks) (ownerKey (snd x)) = Some (F (ownerKey (snd x)))" if "x \<in> set seen" "owned (snd x)" for x
    using assms [OF imageI [OF that(1)] that(2)] by (simp add: copy_get)
  have step: "gm_get (map (\<lambda>k. (k, F k)) ks) (gm_str (aggr_LabelsValue (snd x)) ''ontap_cluster'', gm_str (aggr_LabelsValue (snd x)) ''node'')
      = Some (F (ownerKey (snd x)))" if "x \<in> set seen" "owned (snd x)" for x
    using got [OF that] by (simp only: ownerKey_def)
  have "joinedNodes seen (map (\<lambda>k. (k, F k)) ks) =
      fold (\<lambda>x m. if owned (snd x) then gm_put (ownerKey (snd x)) (F (ownerKey (snd x))) m else m) seen []"
    unfolding joinedNodes_def
    by (rule fold_cong) (use step in \<open>auto simp: owned_def ownerKey_def Let_def\<close>)
  moreover have "{a \<in> snd ` set seen. owned a} = snd ` {x \<in> set seen. owned (snd x)}" by auto
  ultimately show ?thesis
    using fold_put_key [of "\<lambda>x. owned (snd x)" "\<lambda>x. ownerKey (snd x)" F seen] by (simp add: image_image)
qed

definition edgeOf :: "(string \<Rightarrow> string) \<Rightarrow> string \<Rightarrow> 'f joinHit \<Rightarrow> 'f Edge" where
  "edgeOf mkid i hit =
     (NewEdge mkid EdgeTypePVCToNetAppAggr i (NetAppAggrID (jh_oc hit) (jh_aggr hit)) [])\<lparr> EIO := jh_io hit \<rparr>"

lemma edgeOf_sel:
  "EType (edgeOf mkid i hit) = EdgeTypePVCToNetAppAggr" "Source (edgeOf mkid i hit) = i"
  "Target (edgeOf mkid i hit) = NetAppAggrID (jh_oc hit) (jh_aggr hit)" "EIO (edgeOf mkid i hit) = jh_io hit"
  by (simp_all add: edgeOf_def NewEdge_def)

definition edgesAt :: "(string \<Rightarrow> string) \<Rightarrow> (string, 'f joinHit) gomap \<Rightarrow> pvcVolume \<Rightarrow> 'f Edge set" where
  "edgesAt mkid hits c = (case gm_get hits (pv_id c) of None \<Rightarrow> {} | Some hit \<Rightarrow> {edgeOf mkid (pv_id c) hit})"

lemma joinEdges_set: "set (joinEdges mkid claims hits) = (\<Union>c\<in>set claims. edgesAt mkid hits c)"
proof -
  define go where "go = (\<lambda>(c :: pvcVolume) (edges, seen).
        case gm_get hits (pv_id c) of
          None \<Rightarrow> (edges, seen)
        | Some hit \<Rightarrow>
            let tgt = NetAppAggrID (jh_oc hit) (jh_aggr hit) in
            if (pv_id c, tgt) \<in> set seen then (edges, seen)
            else
              let e = NewEdge mkid EdgeTypePVCToNetAppAggr (pv_id c) tgt [];
                  e = (case jh_io hit of None \<Rightarrow> e | Some io \<Rightarrow> the (WithIO (Some e) io))
              in (edges @ [e], (pv_id c, tgt) # seen))"
  define ok where "ok = (\<lambda>(edges, seen). \<forall>i hit. gm_get hits i = Some hit \<longrightarrow>
      (i, NetAppAggrID (jh_oc hit) (jh_aggr hit)) \<in> set seen \<longrightarrow> edgeOf mkid i hit \<in> set edges)"
  have step: "ok (go c st) \<and> set (fst (go c st)) = set (fst st) \<union> edgesAt mkid hits c" if "ok st" for c :: pvcVolume and st
  proof (cases "gm_get hits (pv_id c)")
    case None
    then show ?thesis using that by (simp add: go_def edgesAt_def case_prod_unfold)
  next
    case (Some hit)
    obtain edges seen where st: "st = (edges, seen)" by (cases st)
    have e: "(let e = NewEdge mkid EdgeTypePVCToNetAppAggr (pv_id c) (NetAppAggrID (jh_oc hit) (jh_aggr hit)) [] in
        case jh_io hit of None \<Rightarrow> e | Some io \<Rightarrow> the (WithIO (Some e) io)) = edgeOf mkid (pv_id c) hit"
      by (simp add: edgeOf_def WithIO_def NewEdge_def Let_def split: option.split)
    have g: "go c (edges, seen) = (if (pv_id c, NetAppAggrID (jh_oc hit) (jh_aggr hit)) \<in> set seen then (edges, seen)
        else (edges @ [edgeOf mkid (pv_id c) hit], (pv_id c, NetAppAggrID (jh_oc hit) (jh_aggr hit)) # seen))"
      unfolding go_def using Some e [symmetric] by (simp add: Let_def)
    show ?thesis using that Some unfolding st g ok_def edgesAt_def by auto
  qed
  have "ok st \<Longrightarrow> set (fst (fold go claims st)) = set (fst st) \<union> (\<Union>c\<in>set claims. edgesAt mkid hits c)" for st
    by (induction claims arbitrary: st) (use step in auto)
  from this [of "([], [])"] show ?thesis
    by (simp add: joinEdges_def go_def [symmetric] ok_def SortEdges_def)
qed

section \<open>The result\<close>

lemma resolve_parts:
  fixes v :: "('f :: {linorder, one}) harvestVectors"
  assumes "R = resolveNetAppStorage mkid A zero perMB fp rw keys claims v"
    and "C = rowCands (OrDefault keys) (hv_VolumeLabels v)"
    and "H = putEach (\<lambda>c. claimHit A zero (joinInputOf perMB fp (OrDefault keys) v) c
               (matchesOf (OrDefault keys) rw (hv_VolumeLabels v) c)) claims"
  shows "nr_svmByPVC R = putEach (\<lambda>c. claimSVM (matchesOf (OrDefault keys) rw (hv_VolumeLabels v) c)) claims"
    "nr_qosByPVC R = putEach (\<lambda>c. claimCeiling (joinInputOf perMB fp (OrDefault keys) v) c
               (matchesOf (OrDefault keys) rw (hv_VolumeLabels v) c)) claims"
    "nr_edges R = joinEdges mkid claims H"
    "set (nr_aggrs R) = aggrSpec C v ` (\<lambda>h. (jh_oc h, jh_aggr h)) ` snd ` set H"
    "set (nr_nodes R) = controllerSpec v ` ownerKey ` {a \<in> set (nr_aggrs R). owned a}"
    "set (inv_Nodes (nr_inventory R)) = controllerSpec v ` namedNodes C v"
    "set (inv_Aggrs (nr_inventory R)) = aggrSpec C v ` namedAggrs C v"
    "set (inv_SVMs (nr_inventory R)) = svmNode ` volumeSVMs C"
    "(\<lambda>h. (jh_oc h, jh_aggr h)) ` snd ` set H \<subseteq> namedAggrs C v"
    "ownerKey ` {a \<in> set (nr_aggrs R). owned a} \<subseteq> namedNodes C v"
proof -
  define vi where "vi = fst (volumePass (OrDefault keys) rw claims (hv_VolumeLabels v))"
  have C: "volumeCands vi = C" by (simp add: vi_def volumePass_cands assms(2) rowCands_def)
  obtain nodes aggrs svms where E: "buildNetAppIndexes vi (ownerVotes vi) v =
       \<lparr> ni_aggrByKey = map (\<lambda>k. (k, aggrSpec (volumeCands vi) v k)) aggrs, ni_nodeByKey = map (\<lambda>k. (k, controllerSpec v k)) nodes,
         ni_inventory =
           \<lparr> inv_Nodes = sort_key ctrl_IDValue (map (controllerSpec v) nodes),
             inv_Aggrs = sort_key aggr_IDValue (map (aggrSpec (volumeCands vi) v) aggrs),
             inv_SVMs = sort_key svm_IDValue (map svmNode svms) \<rparr> \<rparr>"
    and sets: "set nodes = namedNodes C v" "set aggrs = namedAggrs C v" "set svms = volumeSVMs C"
    by (rule indexes_eq [of vi v]) (simp add: C)
  define G where "G = joinedAggrs H (map (\<lambda>k. (k, aggrSpec C v k)) aggrs)"
  define N where "N = joinedNodes G (map (\<lambda>k. (k, controllerSpec v k)) nodes)"
  note J = joinAll_sel [of A zero perMB fp rw "OrDefault keys" claims v, folded assms(3)]
  have R: "R = \<lparr> nr_svmByPVC = putEach (\<lambda>c. claimSVM (matchesOf (OrDefault keys) rw (hv_VolumeLabels v) c)) claims,
      nr_qosByPVC = putEach (\<lambda>c. claimCeiling (joinInputOf perMB fp (OrDefault keys) v) c
               (matchesOf (OrDefault keys) rw (hv_VolumeLabels v) c)) claims,
      nr_aggrs = sort_key aggr_IDValue (map snd G), nr_nodes = sort_key ctrl_IDValue (map snd N),
      nr_edges = joinEdges mkid claims H,
      nr_inventory = \<lparr> inv_Nodes = sort_key ctrl_IDValue (map (controllerSpec v) nodes),
             inv_Aggrs = sort_key aggr_IDValue (map (aggrSpec C v) aggrs), inv_SVMs = sort_key svm_IDValue (map svmNode svms) \<rparr> \<rparr>"
    unfolding assms(1) resolveNetAppStorage_def Let_def vi_def [symmetric] E J N_def G_def C by simp
  show "nr_svmByPVC R = putEach (\<lambda>c. claimSVM (matchesOf (OrDefault keys) rw (hv_VolumeLabels v) c)) claims"
    "nr_qosByPVC R = putEach (\<lambda>c. claimCeiling (joinInputOf perMB fp (OrDefault keys) v) c
               (matchesOf (OrDefault keys) rw (hv_VolumeLabels v) c)) claims"
    "nr_edges R = joinEdges mkid claims H"
    "set (inv_Nodes (nr_inventory R)) = controllerSpec v ` namedNodes C v"
    "set (inv_Aggrs (nr_inventory R)) = aggrSpec C v ` namedAggrs C v"
    "set (inv_SVMs (nr_inventory R)) = svmNode ` volumeSVMs C"
    by (simp_all add: R sets)
  have hits: "(jh_oc h, jh_aggr h) \<in> namedAggrs C v" if "h \<in> snd ` set H" for h
  proof -
    obtain i where "(i, h) \<in> set H" using \<open>h \<in> snd ` set H\<close> by auto
    from putEach_in [OF this [unfolded assms(3)]] obtain c where
      "claimHit A zero (joinInputOf perMB fp (OrDefault keys) v) c (matchesOf (OrDefault keys) rw (hv_VolumeLabels v) c) = Some h"
      by blast
    from claimHit_named [OF this] show ?thesis by (simp add: namedAggrs_def assms(2))
  qed
  then show "(\<lambda>h. (jh_oc h, jh_aggr h)) ` snd ` set H \<subseteq> namedAggrs C v" by blast
  have G: "set G = (\<lambda>k. (k, aggrSpec C v k)) ` (\<lambda>h. (jh_oc h, jh_aggr h)) ` snd ` set H"
    unfolding G_def by (rule joinedAggrs_set) (simp add: sets hits)
  then have joined: "snd ` set G = aggrSpec C v ` (\<lambda>h. (jh_oc h, jh_aggr h)) ` snd ` set H" by (simp add: image_image)
  then show "set (nr_aggrs R) = aggrSpec C v ` (\<lambda>h. (jh_oc h, jh_aggr h)) ` snd ` set H" by (simp add: R)
  have owners: "ownerKey a \<in> namedNodes C v" if "a \<in> snd ` set G" "owned a" for a
  proof -
    obtain k where k: "k \<in> namedAggrs C v" "a = aggrSpec C v k" using \<open>a \<in> snd ` set G\<close> hits unfolding joined by blast
    have o: "ownerKey a = (fst k, ownerOf C v k)" by (simp add: k(2) ownerKey_def aggrSpec_def gm_str_def)
    have fin: "finite C" by (simp add: assms(2) rowCands_def)
    show ?thesis using owner_is_named [OF _ _ fin, of k v] named_keys(1) [OF k(1)] \<open>owned a\<close> by (simp add: owned_def o)
  qed
  have aggrs: "set (nr_aggrs R) = snd ` set G" by (simp add: R)
  show "ownerKey ` {a \<in> set (nr_aggrs R). owned a} \<subseteq> namedNodes C v"
  proof (rule image_subsetI)
    fix a assume "a \<in> {a \<in> set (nr_aggrs R). owned a}"
    then have "a \<in> snd ` set G" "owned a" by (simp_all only: aggrs mem_Collect_eq)
    then show "ownerKey a \<in> namedNodes C v" by (rule owners)
  qed
  have "set N = (\<lambda>k. (k, controllerSpec v k)) ` ownerKey ` {a \<in> snd ` set G. owned a}"
    unfolding N_def by (rule joinedNodes_set) (simp add: sets owners)
  then show "set (nr_nodes R) = controllerSpec v ` ownerKey ` {a \<in> set (nr_aggrs R). owned a}"
    by (simp add: R image_image)
qed

text \<open>
  C17: the pieces of the join fit. Every edge goes from a claim to an aggregate of the result and every aggregate
  of the result has such an edge; the controllers of the result are exactly the owners of those aggregates;
  and both lists are part of the inventory, so a joined entity and an inventoried one are the same.
\<close>

theorem join_closed:
  "let R = resolveNetAppStorage mkid A zero perMB fp rw keys claims v in
    EType ` set (nr_edges R) \<subseteq> {EdgeTypePVCToNetAppAggr} \<and> Source ` set (nr_edges R) \<subseteq> pv_id ` set claims \<and>
    Target ` set (nr_edges R) = aggr_IDValue ` set (nr_aggrs R) \<and>
    {c. Some c \<in> (\<lambda>a. ownerID (Aggr a)) ` set (nr_aggrs R)} = ctrl_IDValue ` set (nr_nodes R) \<and>
    set (nr_aggrs R) \<subseteq> set (inv_Aggrs (nr_inventory R)) \<and> set (nr_nodes R) \<subseteq> set (inv_Nodes (nr_inventory R))"
proof -
  define R where "R = resolveNetAppStorage mkid A zero perMB fp rw keys claims v"
  define C where "C = rowCands (OrDefault keys) (hv_VolumeLabels v)"
  define H where "H = putEach (\<lambda>c. claimHit A zero (joinInputOf perMB fp (OrDefault keys) v) c
               (matchesOf (OrDefault keys) rw (hv_VolumeLabels v) c)) claims"
  note P = resolve_parts [OF R_def C_def H_def]
  have edges: "set (nr_edges R) = (\<Union>c\<in>set claims. edgesAt mkid H c)" unfolding P(3) by (rule joinEdges_set)
  have at: "e \<in> edgesAt mkid H c \<longleftrightarrow> (\<exists>hit. gm_get H (pv_id c) = Some hit \<and> e = edgeOf mkid (pv_id c) hit)" for e c
    by (simp add: edgesAt_def split: option.split)
  have "Target ` set (nr_edges R) = (\<lambda>h. NetAppAggrID (jh_oc h) (jh_aggr h)) ` snd ` set H"
  proof
    show "Target ` set (nr_edges R) \<subseteq> (\<lambda>h. NetAppAggrID (jh_oc h) (jh_aggr h)) ` snd ` set H"
      using gm_get_in [of H] by (force simp: edges at edgeOf_sel)
    show "(\<lambda>h. NetAppAggrID (jh_oc h) (jh_aggr h)) ` snd ` set H \<subseteq> Target ` set (nr_edges R)"
    proof
      fix t assume "t \<in> (\<lambda>h. NetAppAggrID (jh_oc h) (jh_aggr h)) ` snd ` set H"
      then obtain i h where h: "(i, h) \<in> set H" "t = NetAppAggrID (jh_oc h) (jh_aggr h)" by auto
      obtain c where c: "c \<in> set claims" "pv_id c = i" using putEach_in [OF h(1) [unfolded H_def]] by blast
      have "gm_get H (pv_id c) = Some h" using gm_in_get [OF putEach_wf h(1) [unfolded H_def]] by (simp add: H_def c(2))
      then have "edgeOf mkid (pv_id c) h \<in> set (nr_edges R)" using c(1) by (auto simp: edges at)
      then show "t \<in> Target ` set (nr_edges R)" using h(2) by (metis edgeOf_sel(3) imageI)
    qed
  qed
  moreover have "aggr_IDValue ` set (nr_aggrs R) = (\<lambda>h. NetAppAggrID (jh_oc h) (jh_aggr h)) ` snd ` set H"
    by (simp add: P(4) image_image aggrSpec_def)
  moreover have "{c. Some c \<in> (\<lambda>a. ownerID (Aggr a)) ` set (nr_aggrs R)} = ctrl_IDValue ` set (nr_nodes R)"
    unfolding P(5) by (auto simp: ownerID_owned controllerSpec_id image_iff split: if_splits)
  moreover have "set (nr_aggrs R) \<subseteq> set (inv_Aggrs (nr_inventory R))" using P(9) by (auto simp: P(4,7))
  moreover have "set (nr_nodes R) \<subseteq> set (inv_Nodes (nr_inventory R))" using P(10) by (auto simp: P(5,6))
  ultimately show ?thesis unfolding Let_def R_def [symmetric] by (auto simp: edges at edgeOf_sel)
qed

text \<open>The result of the join, on an edge: the ceiling is the claim's, a change stands beside its figure.\<close>

definition carries :: "'f QoSCeiling option \<Rightarrow> 'f IOMetrics \<Rightarrow> bool" where
  "carries q m = (MaxIOPS m = Option.bind q qos_MaxIOPS \<and> MaxBytesPerSec m = Option.bind q qos_MaxBytesPerSec)"

definition deltasBeside :: "'f IOMetrics \<Rightarrow> bool" where
  "deltasBeside m =
     ((ReadOps m = None \<longrightarrow> ReadOpsDelta m = None) \<and> (WriteOps m = None \<longrightarrow> WriteOpsDelta m = None)
      \<and> (ReadLatencyUs m = None \<longrightarrow> ReadLatencyUsDelta m = None) \<and> (WriteLatencyUs m = None \<longrightarrow> WriteLatencyUsDelta m = None)
      \<and> (ReadBytesPerSec m = None \<longrightarrow> ReadBytesPerSecDelta m = None) \<and> (WriteBytesPerSec m = None \<longrightarrow> WriteBytesPerSecDelta m = None))"

lemma sumQoSIO_plain:
  assumes "sumQoSIO A zero cands = Some m"
  shows "MaxIOPS m = None" "MaxBytesPerSec m = None" "deltasBeside m"
  using assms by (auto simp: sumQoSIO_def Let_def noIO_def deltasBeside_def split: if_splits)

lemma claimIO_carries:
  assumes "claimIO A zero inp c ms = Some m"
  shows "carries (claimCeiling inp c ms) m" and "deltasBeside m"
proof -
  obtain s where s: "sumQoSIO A zero (measuredRows (ji_qosIndex inp) c ms) = Some s" using assms by (auto simp: claimIO_def)
  define q where "q = claimCeiling inp c ms"
  define d where "d = sumQoSIO A zero (measuredRows (ji_deltaIndex inp) c ms)"
  have m: "m = (if ji_deltaIndex inp \<noteq> [] then applyDelta d (applyCeiling q s) else applyCeiling q s)"
    using assms s by (auto simp: claimIO_def q_def d_def Let_def)
  have c: "carries q (applyCeiling q s)" "deltasBeside (applyCeiling q s)"
    using sumQoSIO_plain [OF s] by (auto simp: applyCeiling_def carries_def deltasBeside_def Let_def split: option.splits)
  have "carries q (applyDelta d io) = carries q io" for io by (simp add: applyDelta_def carries_def split: option.split)
  moreover have "deltasBeside io \<Longrightarrow> deltasBeside (applyDelta d io)" for io
    by (auto simp: applyDelta_def deltasBeside_def beside_def split: option.splits)
  ultimately show "carries (claimCeiling inp c ms) m" "deltasBeside m" using c by (simp_all add: m q_def)
qed

text \<open>
  C18: Claim and edge agree about the declared ceiling: when the edge carries a measurement it carries exactly the
  figures of the claim's ceiling and none when the claim has none; and an edge shows a change of a figure only
  beside the figure.
\<close>

theorem ceilings_agree:
  assumes "distinct (map pv_id claims)"
    and "e \<in> set (nr_edges (resolveNetAppStorage mkid A zero perMB fp rw keys claims v))" and "EIO e = Some m"
  shows "carries (gm_get (nr_qosByPVC (resolveNetAppStorage mkid A zero perMB fp rw keys claims v)) (Source e)) m
    \<and> deltasBeside m"
proof -
  define R where "R = resolveNetAppStorage mkid A zero perMB fp rw keys claims v"
  define C where "C = rowCands (OrDefault keys) (hv_VolumeLabels v)"
  define ms where "ms = matchesOf (OrDefault keys) rw (hv_VolumeLabels v)"
  define inp where "inp = joinInputOf perMB fp (OrDefault keys) v"
  define H where "H = putEach (\<lambda>c. claimHit A zero inp c (ms c)) claims"
  note P = resolve_parts [OF R_def C_def H_def [unfolded inp_def ms_def], folded inp_def ms_def]
  have "e \<in> (\<Union>c\<in>set claims. edgesAt mkid H c)" using assms(2) unfolding R_def [symmetric] P(3) joinEdges_set .
  then obtain c hit where c: "c \<in> set claims" "gm_get H (pv_id c) = Some hit" "e = edgeOf mkid (pv_id c) hit"
    by (auto simp: edgesAt_def split: option.splits)
  have "claimHit A zero inp c (ms c) = Some hit" using c(2) unfolding H_def putEach_get [OF assms(1) c(1)] .
  then have io: "claimIO A zero inp c (ms c) = Some m" using assms(3) c(3) by (auto simp: claimHit_def edgeOf_sel split: if_splits)
  have "gm_get (nr_qosByPVC R) (Source e) = claimCeiling inp c (ms c)"
    unfolding P(2) c(3) edgeOf_sel by (rule putEach_get [OF assms(1) c(1)])
  then show ?thesis using claimIO_carries [OF io] unfolding R_def [symmetric] by simp
qed

section \<open>Order-freedom\<close>

text \<open>The same samples in another order.\<close>

definition sameSamples :: "'f harvestVectors \<Rightarrow> 'f harvestVectors \<Rightarrow> bool" where
  "sameSamples v v' =
     (mset (hv_VolumeLabels v) = mset (hv_VolumeLabels v') \<and> hv_VolumeLabelsRestricted v = hv_VolumeLabelsRestricted v'
      \<and> sameRows (hv_QoS v) (hv_QoS v') \<and> sameRows (hv_QoSDelta v) (hv_QoSDelta v')
      \<and> map mset [hv_PolicyMaxIOPS v, hv_PolicyMaxMBps v, hv_AggrStatus v, hv_AggrSpaceUsed v, hv_AggrSpaceTotal v,
          hv_NodeStatus v, hv_NodeLabels v, hv_NodeCPUBusy v, hv_NodeTotalOps v, hv_NodeTotalLatency v, hv_NodeTotalData v]
        = map mset [hv_PolicyMaxIOPS v', hv_PolicyMaxMBps v', hv_AggrStatus v', hv_AggrSpaceUsed v', hv_AggrSpaceTotal v',
          hv_NodeStatus v', hv_NodeLabels v', hv_NodeCPUBusy v', hv_NodeTotalOps v', hv_NodeTotalLatency v', hv_NodeTotalData v'])"

lemma sameSamplesD:
  assumes "sameSamples v v'"
  shows "set (hv_VolumeLabels v) = set (hv_VolumeLabels v')" "sameRows (hv_QoS v) (hv_QoS v')" "sameRows (hv_QoSDelta v) (hv_QoSDelta v')"
    "set (hv_PolicyMaxIOPS v) = set (hv_PolicyMaxIOPS v')" "set (hv_PolicyMaxMBps v) = set (hv_PolicyMaxMBps v')"
    "set (hv_AggrStatus v) = set (hv_AggrStatus v')" "set (hv_AggrSpaceUsed v) = set (hv_AggrSpaceUsed v')"
    "set (hv_AggrSpaceTotal v) = set (hv_AggrSpaceTotal v')" "set (hv_NodeStatus v) = set (hv_NodeStatus v')"
    "set (hv_NodeLabels v) = set (hv_NodeLabels v')" "set (hv_NodeCPUBusy v) = set (hv_NodeCPUBusy v')"
    "set (hv_NodeTotalOps v) = set (hv_NodeTotalOps v')" "set (hv_NodeTotalLatency v) = set (hv_NodeTotalLatency v')"
    "set (hv_NodeTotalData v) = set (hv_NodeTotalData v')"
  using assms by (auto simp: sameSamples_def dest: mset_eq_setD)

lemma specs_same:
  assumes "sameSamples v v'"
  shows "controllerSpec v = controllerSpec v'" "aggrSpec C v = aggrSpec C v'" "namedNodes C v = namedNodes C v'" "namedAggrs C v = namedAggrs C v'"
proof -
  note D = sameSamplesD [OF assms]
  have g: "set (concat (aggrLegs v)) = set (concat (aggrLegs v'))" by (simp add: aggrLegs_def D)
  have c: "set (concat (controllerLegs v)) = set (concat (controllerLegs v'))" by (simp add: controllerLegs_def D)
  have gauges: "gaugeOwners v k = gaugeOwners v' k" for k unfolding gaugeOwners_def g ..
  then have owner: "ownerOf C v = ownerOf C v'" by (simp add: ownerOf_def fun_eq_iff)
  show "controllerSpec v = controllerSpec v'" by (rule ext) (simp add: controllerSpec_def D)
  show "aggrSpec C v = aggrSpec C v'" by (rule ext) (simp add: aggrSpec_def D owner)
  show "namedNodes C v = namedNodes C v'" unfolding namedNodes_def legNodes_def gaugeNodes_def c gauges ..
  show "namedAggrs C v = namedAggrs C v'" unfolding namedAggrs_def legAggrs_def g ..
qed

lemma matches_same:
  assumes "set rows = set rows'"
  shows "set (candsOf (matchesOf keys rw rows c)) = set (candsOf (matchesOf keys rw rows' c))"
    and "volsOf (matchesOf keys rw rows c) = volsOf (matchesOf keys rw rows' c)"
proof -
  have m: "set (matchesOf keys rw rows c) = set (matchesOf keys rw rows' c)"
    by (simp add: matchesOf_def volumeRows_def set_map_filter assms)
  have "list_ex cm_agrees (matchesOf keys rw rows c) = list_ex cm_agrees (matchesOf keys rw rows' c)" by (simp add: list_ex_iff m)
  then have p: "set (preferAgreeing (matchesOf keys rw rows c)) = set (preferAgreeing (matchesOf keys rw rows' c))"
    by (simp add: preferAgreeing_def m)
  then show "set (candsOf (matchesOf keys rw rows c)) = set (candsOf (matchesOf keys rw rows' c))" by (simp add: candsOf_def)
  show "volsOf (matchesOf keys rw rows c) = volsOf (matchesOf keys rw rows' c)"
    unfolding volsOf_def by (rule sk.srt_set_order_free [where key = "\<lambda>x. x", simplified]) (simp_all add: collectNew_set collectNew_distinct p)
qed

lemma picks_same:
  assumes "set (candsOf ms) = set (candsOf ms')"
  shows "pickedAggr ms = pickedAggr ms'" "pickedSVM ms = pickedSVM ms'" "keyCluster ms = keyCluster ms'"
proof -
  show a: "pickedAggr ms = pickedAggr ms'" by (simp add: pickedAggr_def pickAggr_eq assms)
  show s: "pickedSVM ms = pickedSVM ms'" by (simp add: pickedSVM_def pickSVM_eq assms a)
  show "keyCluster ms = keyCluster ms'" by (simp add: keyCluster_def a s)
qed

lemma index_same:
  assumes "sameRows q q'"
  shows "mset (gm_list (indexQoS fp keys ws q) vol) = mset (gm_list (indexQoS fp keys ws q') vol)"
  unfolding indexQoS_list mset_filter sameRows_rows [OF assms] ..

lemma deltaIndex_same:
  assumes "sameRows d d'" and "sameRows q q'"
  shows "mset (gm_list (keepUnchangedDeltaRows (indexQoS fp keys True d) (indexQoS fp keys ws q)) vol)
    = mset (gm_list (keepUnchangedDeltaRows (indexQoS fp keys True d') (indexQoS fp keys ws q')) vol)"
  unfolding keep_list [OF indexQoS_wf(1)] mset_filter index_same [OF assms(1)]
    mset_eq_setD [OF index_same [OF assms(1)]] mset_eq_setD [OF index_same [OF assms(2)]] ..

lemma input_same:
  assumes "sameSamples v v'"
  shows "mset (gm_list (ji_qosIndex (joinInputOf perMB fp keys v)) vol) = mset (gm_list (ji_qosIndex (joinInputOf perMB fp keys v')) vol)"
    "mset (gm_list (ji_deltaIndex (joinInputOf perMB fp keys v)) vol) = mset (gm_list (ji_deltaIndex (joinInputOf perMB fp keys v')) vol)"
    "ji_deltaIndex (joinInputOf perMB fp keys v) \<noteq> [] \<longleftrightarrow> ji_deltaIndex (joinInputOf perMB fp keys v') \<noteq> []"
    "gm_get (ji_policyIndex (joinInputOf perMB fp keys v)) = gm_get (ji_policyIndex (joinInputOf perMB fp keys v'))"
proof -
  note D = sameSamplesD [OF assms]
  have r: "qosRead (hv_QoSDelta v) = qosRead (hv_QoSDelta v')" by (rule sameRows_read [OF D(3)])
  show "mset (gm_list (ji_qosIndex (joinInputOf perMB fp keys v)) vol) = mset (gm_list (ji_qosIndex (joinInputOf perMB fp keys v')) vol)"
    by (simp add: joinInputOf_def Let_def r index_same [OF D(2)])
  have d: "mset (gm_list (ji_deltaIndex (joinInputOf perMB fp keys v)) vol) = mset (gm_list (ji_deltaIndex (joinInputOf perMB fp keys v')) vol)" for vol
    by (simp add: joinInputOf_def Let_def r deltaIndex_same [OF D(3,2)])
  show "mset (gm_list (ji_deltaIndex (joinInputOf perMB fp keys v)) vol) = mset (gm_list (ji_deltaIndex (joinInputOf perMB fp keys v')) vol)" by (rule d)
  have "ji_deltaIndex (joinInputOf perMB fp keys u) \<noteq> [] \<longleftrightarrow> (\<exists>vol. mset (gm_list (ji_deltaIndex (joinInputOf perMB fp keys u)) vol) \<noteq> {#})" for u
    unfolding joinInputOf_def Let_def joinInput.simps keep_nonempty mset_zero_iff ..
  then show "ji_deltaIndex (joinInputOf perMB fp keys v) \<noteq> [] \<longleftrightarrow> ji_deltaIndex (joinInputOf perMB fp keys v') \<noteq> []"
    by (simp only: d)
  have p: "indexPolicyCeilings perMB (hv_PolicyMaxIOPS u) (hv_PolicyMaxMBps u) = ji_policyIndex (joinInputOf perMB fp keys u)" for u
    by (simp only: joinInputOf_def Let_def joinInput.simps)
  show "gm_get (ji_policyIndex (joinInputOf perMB fp keys v)) = gm_get (ji_policyIndex (joinInputOf perMB fp keys v'))"
    unfolding p [symmetric] by (rule ext) (simp only: indexPolicyCeilings_get D)
qed

lemma measuredRows_same:
  assumes "set (candsOf ms) = set (candsOf ms')" and "volsOf ms = volsOf ms'" and "\<And>vol. mset (gm_list i vol) = mset (gm_list i' vol)"
  shows "mset (measuredRows i c ms) = mset (measuredRows i' c ms')"
  unfolding measuredRows_def assms(2) picks_same [OF assms(1)]
  by (rule preferQoSZone_mset [OF qosCandidatesFor_mset [OF assms(3)]])

lemma claim_same:
  assumes "sameSamples v v'" and "set (candsOf ms) = set (candsOf ms')" and "volsOf ms = volsOf ms'"
    and "inp = joinInputOf perMB fp keys v" and "inp' = joinInputOf perMB fp keys v'"
  shows "claimCeiling inp c ms = claimCeiling inp' c ms'" "claimHit A zero inp c ms = claimHit A zero inp' c ms'"
    "claimSVM ms = claimSVM ms'"
proof -
  note I = input_same [OF assms(1), of perMB fp keys, folded assms(4,5)]
  note M = measuredRows_same [OF assms(2,3) I(1), of c] measuredRows_same [OF assms(2,3) I(2), of c]
  show q: "claimCeiling inp c ms = claimCeiling inp' c ms'"
    unfolding claimCeiling_def picks_same [OF assms(2)] by (rule resolveCeiling_set [OF mset_eq_setD [OF M(1)] I(4)])
  have "claimIO A zero inp c ms = claimIO A zero inp' c ms'"
    unfolding claimIO_def q sumQoSIO_mset [OF M(1)] sumQoSIO_mset [OF M(2)] I(3) ..
  then show "claimHit A zero inp c ms = claimHit A zero inp' c ms'" by (simp add: claimHit_def picks_same [OF assms(2)])
  show "claimSVM ms = claimSVM ms'" by (simp add: claimSVM_def picks_same [OF assms(2)])
qed

text \<open>
  C19: the join does not depend on the order of the samples: permuting every vector gives the same SVMs, the same
  ceilings, the same edges with the same figures to the last bit, and the same entities with the same
  attributes.
\<close>

theorem join_order_free:
  assumes "sameSamples v v'"
  shows "let R = resolveNetAppStorage mkid A zero perMB fp rw keys claims v;
      R' = resolveNetAppStorage mkid A zero perMB fp rw keys claims v' in
    nr_svmByPVC R = nr_svmByPVC R' \<and> nr_qosByPVC R = nr_qosByPVC R' \<and> nr_edges R = nr_edges R' \<and>
    set (nr_aggrs R) = set (nr_aggrs R') \<and> set (nr_nodes R) = set (nr_nodes R') \<and>
    set (inv_Nodes (nr_inventory R)) = set (inv_Nodes (nr_inventory R')) \<and>
    set (inv_Aggrs (nr_inventory R)) = set (inv_Aggrs (nr_inventory R')) \<and>
    set (inv_SVMs (nr_inventory R)) = set (inv_SVMs (nr_inventory R'))"
proof -
  let ?k = "OrDefault keys"
  define M where "M u = matchesOf ?k rw (hv_VolumeLabels u)" for u :: "'a harvestVectors"
  define inp where "inp u = joinInputOf perMB fp ?k u" for u :: "'a harvestVectors"
  define C where "C u = rowCands ?k (hv_VolumeLabels u)" for u :: "'a harvestVectors"
  define H where "H u = putEach (\<lambda>c. claimHit A zero (inp u) c (M u c)) claims" for u :: "'a harvestVectors"
  note rows = sameSamplesD(1) [OF assms]
  note same = claim_same [OF assms matches_same [OF rows] refl refl]
  have H: "H v = H v'" unfolding H_def M_def inp_def same(2) ..
  have C: "C v = C v'" by (simp add: C_def rowCands_def volumeRows_def set_map_filter rows)
  note P = resolve_parts [OF refl [of "resolveNetAppStorage mkid A zero perMB fp rw keys claims v"] C_def [of v] H_def [of v, unfolded inp_def M_def]]
  note P' = resolve_parts [OF refl [of "resolveNetAppStorage mkid A zero perMB fp rw keys claims v'"] C_def [of v'] H_def [of v', unfolded inp_def M_def]]
  note S = specs_same [OF assms]
  have aggrs: "set (nr_aggrs (resolveNetAppStorage mkid A zero perMB fp rw keys claims v))
      = set (nr_aggrs (resolveNetAppStorage mkid A zero perMB fp rw keys claims v'))" unfolding P(4) P'(4) C H S ..
  show ?thesis unfolding Let_def
  proof (intro conjI aggrs)
    show "nr_svmByPVC (resolveNetAppStorage mkid A zero perMB fp rw keys claims v)
        = nr_svmByPVC (resolveNetAppStorage mkid A zero perMB fp rw keys claims v')" unfolding P(1) P'(1) same(3) ..
    show "nr_qosByPVC (resolveNetAppStorage mkid A zero perMB fp rw keys claims v)
        = nr_qosByPVC (resolveNetAppStorage mkid A zero perMB fp rw keys claims v')" unfolding P(2) P'(2) same(1) ..
    show "nr_edges (resolveNetAppStorage mkid A zero perMB fp rw keys claims v)
        = nr_edges (resolveNetAppStorage mkid A zero perMB fp rw keys claims v')" unfolding P(3) P'(3) H ..
    show "set (nr_nodes (resolveNetAppStorage mkid A zero perMB fp rw keys claims v))
        = set (nr_nodes (resolveNetAppStorage mkid A zero perMB fp rw keys claims v'))" unfolding P(5) P'(5) aggrs S ..
  qed (simp_all only: P(6-8) P'(6-8) C S)
qed


section \<open>The join in the parse\<close>

definition joinClaims :: "(pvcKey, pvcInfoAttrs) gomap \<Rightarrow> 'f PVCNode list \<Rightarrow> pvcVolume list" where
  "joinClaims pvcInfo pvcs =
     List.map_filter (\<lambda>pv.
        let ls = pvc_LabelsValue pv; vn = gm_str ls ''volumename'';
            attrs = (case gm_get pvcInfo (gm_str ls ''cluster'', gm_str ls ''namespace'', pvc_NameValue pv) of
                None \<Rightarrow> noAttrs | Some a \<Rightarrow> a)
        in if vn = [] then None
           else Some \<lparr> pv_id = pvc_IDValue pv, pv_volumeName = vn, pv_zone = pia_zone attrs \<rparr>) pvcs"

definition aggrByPVC :: "'f Edge list \<Rightarrow> (string, string) gomap" where
  "aggrByPVC edges =
     fold (\<lambda>e m. if EType e = EdgeTypePVCToNetAppAggr then gm_put (Source e) (Target e) m else m) edges []"

definition stampClaim :: "'f netappResult \<Rightarrow> (string, string) gomap \<Rightarrow> 'f PVCNode \<Rightarrow> 'f PVCNode" where
  "stampClaim netapp aggrs pv =
     (let i = pvc_IDValue pv;
          pv = (case gm_get (nr_svmByPVC netapp) i of
              None \<Rightarrow> pv
            | Some ref \<Rightarrow> if sr_SVM ref = [] then pv
                else pv\<lparr> pvc_LabelsValue := gm_put ''svm'' (sr_SVM ref) (pvc_LabelsValue pv) \<rparr>);
          pv = (case gm_get aggrs i of
              None \<Rightarrow> pv | Some aggr \<Rightarrow> pv\<lparr> pvc_LabelsValue := gm_put ''aggr'' aggr (pvc_LabelsValue pv) \<rparr>)
      in case gm_get (nr_qosByPVC netapp) i of None \<Rightarrow> pv | Some q \<Rightarrow> pv\<lparr> pvc_QoSValue := Some q \<rparr>)"

definition storageTopology ::
  "PodNode list \<Rightarrow> K8sNode list \<Rightarrow> 'f PVCNode list \<Rightarrow> PodPVCBinding list \<Rightarrow> bool \<Rightarrow> 'f netappResult \<Rightarrow> 'f Topology" where
  "storageTopology pods nodes pvcs bindings materialise netapp =
     \<lparr> tp_Pods = pods, tp_Nodes = nodes, tp_PVCs = map (stampClaim netapp (aggrByPVC (nr_edges netapp))) pvcs,
       tp_StorageEdges = nr_edges netapp, tp_PodPVCs = bindings, tp_ClaimSeeded = materialise,
       tp_NetAppInventory = nr_inventory netapp, tp_SVMByPVC = nr_svmByPVC netapp \<rparr>"

text \<open>No Kubernetes entity has the id of a NetApp one (\<open>netapp_cluster_collision\<close> shows why this is needed).\<close>

definition noCollision :: "PodNode list \<Rightarrow> K8sNode list \<Rightarrow> 'f PVCNode list \<Rightarrow> 'f netappResult \<Rightarrow> bool" where
  "noCollision pods nodes pvcs netapp =
     list_all (\<lambda>i. i \<notin> ctrl_IDValue ` set (inv_Nodes (nr_inventory netapp))
         \<and> i \<notin> aggr_IDValue ` set (inv_Aggrs (nr_inventory netapp)) \<and> i \<notin> svm_IDValue ` set (inv_SVMs (nr_inventory netapp)))
       (map pod_IDValue pods @ map k8s_IDValue nodes @ map pvc_IDValue pvcs)"

lemma stampClaim_ID: "pvc_IDValue (stampClaim netapp aggrs pv) = pvc_IDValue pv"
  by (simp add: stampClaim_def Let_def split: option.split)

lemma storageTopology_ok:
  assumes "netapp = resolveNetAppStorage mkid A zero perMB fp rw keys claims v" and "noCollision pods nodes pvcs netapp"
  shows "topology_ok (storageTopology pods nodes pvcs bindings materialise netapp)"
proof -
  let ?t = "storageTopology pods nodes pvcs bindings materialise netapp"
  define C where "C = rowCands (OrDefault keys) (hv_VolumeLabels v)"
  define H where "H = putEach (\<lambda>c. claimHit A zero (joinInputOf perMB fp (OrDefault keys) v) c
               (matchesOf (OrDefault keys) rw (hv_VolumeLabels v) c)) claims"
  note P = resolve_parts [OF assms(1) C_def H_def]
  have inv: "inventoryIDs ?t = ctrl_IDValue ` set (inv_Nodes (nr_inventory netapp))
      \<union> aggr_IDValue ` set (inv_Aggrs (nr_inventory netapp)) \<union> svm_IDValue ` set (inv_SVMs (nr_inventory netapp))"
    by (simp add: inventoryIDs_def storageTopology_def)
  have fin: "finite C" by (simp add: C_def rowCands_def)
  have k8s: "i \<notin> inventoryIDs ?t"
    if "i \<in> pod_IDValue ` set (tp_Pods ?t) \<union> k8s_IDValue ` set (tp_Nodes ?t) \<union> pvc_IDValue ` set (tp_PVCs ?t)" for i
  proof -
    have "i \<in> set (map pod_IDValue pods @ map k8s_IDValue nodes @ map pvc_IDValue pvcs)"
      using that by (simp add: storageTopology_def stampClaim_ID image_image)
    with assms(2) have "i \<notin> ctrl_IDValue ` set (inv_Nodes (nr_inventory netapp))
         \<and> i \<notin> aggr_IDValue ` set (inv_Aggrs (nr_inventory netapp)) \<and> i \<notin> svm_IDValue ` set (inv_SVMs (nr_inventory netapp))"
      unfolding noCollision_def list_all_iff by (rule bspec)
    then show ?thesis unfolding inv Un_iff by blast
  qed
  have svms: "NetAppSVMID (sr_ONTAPCluster ref) (sr_SVM ref) \<in> inventoryIDs ?t" if "(i, ref) \<in> set (tp_SVMByPVC ?t)" for i ref
  proof -
    have "(i, ref) \<in> set (nr_svmByPVC netapp)" using that by (simp add: storageTopology_def)
    from putEach_in [OF this [unfolded P(1)]] obtain c where
      "claimSVM (matchesOf (OrDefault keys) rw (hv_VolumeLabels v) c) = Some ref" by blast
    from claimSVM_named [OF this] have "svmNode (sr_ONTAPCluster ref, sr_SVM ref) \<in> set (inv_SVMs (nr_inventory netapp))"
      unfolding P(8) C_def by (rule imageI)
    then show ?thesis unfolding inv by (force simp: svmNode_def)
  qed
  have targets: "Target e \<in> inventoryIDs ?t" if e: "e \<in> set (tp_StorageEdges ?t)" for e
  proof -
    have "e \<in> (\<Union>c\<in>set claims. edgesAt mkid H c)" using e unfolding joinEdges_set [symmetric] P(3) [symmetric]
      by (simp add: storageTopology_def)
    then obtain c where c: "e \<in> edgesAt mkid H c" by blast
    then obtain hit where "gm_get H (pv_id c) = Some hit" by (cases "gm_get H (pv_id c)") (simp_all add: edgesAt_def)
    then have t: "e = edgeOf mkid (pv_id c) hit" using c by (simp add: edgesAt_def)
    have "(jh_oc hit, jh_aggr hit) \<in> namedAggrs C v" using \<open>gm_get H (pv_id c) = Some hit\<close> P(9) gm_get_in by (force simp: image_subset_iff)
    then have "aggrSpec C v (jh_oc hit, jh_aggr hit) \<in> set (inv_Aggrs (nr_inventory netapp))" unfolding P(7) by (rule imageI)
    moreover have "Target e = aggr_IDValue (aggrSpec C v (jh_oc hit, jh_aggr hit))" by (simp add: t edgeOf_sel aggrSpec_def)
    ultimately show ?thesis unfolding inv by blast
  qed
  have owners: "o' \<in> inventoryIDs ?t" if "a \<in> set (inv_Aggrs (tp_NetAppInventory ?t))" "ownerID (Aggr a) = Some o'" for a o'
  proof -
    have "a \<in> set (inv_Aggrs (nr_inventory netapp))" using that(1) by (simp add: storageTopology_def)
    then obtain k where k: "k \<in> namedAggrs C v" "a = aggrSpec C v k" unfolding P(7) by blast
    then have "ownerOf C v k \<noteq> []" "o' = NetAppNodeID (fst k) (ownerOf C v k)"
      using that(2) by (simp_all add: ownerID_aggrSpec split: if_splits)
    then show ?thesis using owner_inventoried [OF k(1) fin] unfolding inv P(6) by simp
  qed
  show ?thesis unfolding topology_ok_def using k8s svms targets owners by auto
qed

text \<open>
  C16: from samples to view, in exact arithmetic: figures are rational numbers and sums are exact, which
  \<open>float64\<close> is not. Whatever the Harvest samples are, the topology the parse hands on, in which no
  Kubernetes entity has the id of a NetApp one, assembles into a storage-flow graph with unique ids, loaded
  storage endpoints and one edge per pair; and in every storage view of it, what enters a claim that some pod
  mounts leaves it for its retained pods.
\<close>

theorem parsed_view_conserves:
  fixes v :: "rat harvestVectors"
  assumes "noCollision pods nodes pvcs (resolveNetAppStorage mkid A zero perMB fp rw keys (joinClaims info pvcs) v)"
    and "sel \<in> flowFigures"
  shows "let t = storageTopology pods nodes pvcs bindings materialise
        (resolveNetAppStorage mkid A zero perMB fp rw keys (joinClaims info pvcs) v);
      g = storageFlowGraph mkid t now; view = ProjectStorage mkid exact (Some g) scope in
    storage_ok g \<and> flow_pairs g \<and>
    (mountEdges g i \<noteq> [] \<longrightarrow> inflow sel StorageTierSVMPVC i view = outflow sel StorageTierPVCPod i view)"
  unfolding Let_def
  by (rule storageFlowGraph_conserves [unfolded Let_def, OF storageTopology_ok [OF refl assms(1)] assms(2)])

section \<open>Examples\<close>

definition exRow :: "labels \<Rightarrow> rat \<Rightarrow> rat Row" where
  "exRow ls x = \<lparr> sm_metric = ls, sm_value = x \<rparr>"

definition exRewriter :: VolumeKeyRewriter where
  "exRewriter = [(\<lambda>s repl. concat (map (\<lambda>c. if c = CHR ''-'' then repl else [c]) s), ''_'')]"

definition exHarvest :: "rat harvestVectors" where
  "exHarvest =
     \<lparr> hv_VolumeLabels = [exRow [(''volume'', ''t_pvc_1''), (''cluster'', ''f''), (''node'', ''f1''), (''aggr'', ''g1''), (''svm'', ''s1'')] 1],
       hv_VolumeLabelsRestricted = False,
       hv_QoS = \<lparr> qv_ReadOps = [exRow [(''volume'', ''t_pvc_1''), (''cluster'', ''f''), (''svm'', ''s1''), (''policy_group'', ''gold'')] 7],
         qv_WriteOps = [], qv_ReadLatency = [], qv_WriteLatency = [], qv_ReadData = [], qv_WriteData = [] \<rparr>,
       hv_QoSDelta = \<lparr> qv_ReadOps = [], qv_WriteOps = [], qv_ReadLatency = [], qv_WriteLatency = [], qv_ReadData = [], qv_WriteData = [] \<rparr>,
       hv_PolicyMaxIOPS = [exRow [(''cluster'', ''f''), (''svm'', ''s1''), (''name'', ''gold'')] 100], hv_PolicyMaxMBps = [],
       hv_AggrStatus = [], hv_AggrSpaceUsed = [], hv_AggrSpaceTotal = [], hv_NodeStatus = [], hv_NodeLabels = [],
       hv_NodeCPUBusy = [], hv_NodeTotalOps = [], hv_NodeTotalLatency = [], hv_NodeTotalData = [] \<rparr>"

definition exClaim :: pvcVolume where
  "exClaim = \<lparr> pv_id = ''a/shop/d'', pv_volumeName = ''pvc-1'', pv_zone = noZone \<rparr>"

definition exJoin :: "rat netappResult" where
  "exJoin = resolveNetAppStorage (\<lambda>k. k) exact 0 (\<lambda>x. x * 1048576) (\<lambda>_. 0) exRewriter DefaultLabelKeys [exClaim] exHarvest"

theorem ceilings_agree_witness:
  "\<exists>e m. e \<in> set (nr_edges exJoin) \<and> EIO e = Some m \<and> MaxIOPS m = Some 100 \<and>
     carries (gm_get (nr_qosByPVC exJoin) (Source e)) m \<and> deltasBeside m"
proof -
  define e where "e = hd (nr_edges exJoin)"
  define m where "m = noIO\<lparr> ReadOps := Some (7 :: rat), MaxIOPS := Some 100 \<rparr>"
  have ex: "e \<in> set (nr_edges exJoin)" "EIO e = Some m" unfolding e_def m_def by code_simp+
  have "carries (gm_get (nr_qosByPVC exJoin) (Source e)) m \<and> deltasBeside m"
    unfolding exJoin_def by (rule ceilings_agree) (use ex in \<open>simp_all add: exJoin_def\<close>)
  then show ?thesis using ex unfolding m_def by auto
qed

theorem join_order_free_witness:
  "nr_edges (resolveNetAppStorage (\<lambda>k. k) exact 0 (\<lambda>x. x) (\<lambda>_. 0) exRewriter DefaultLabelKeys [exClaim]
      (exHarvest\<lparr> hv_VolumeLabels := rev (hv_VolumeLabels exHarvest) \<rparr>)) =
   nr_edges (resolveNetAppStorage (\<lambda>k. k) exact 0 (\<lambda>x. x) (\<lambda>_. 0) exRewriter DefaultLabelKeys [exClaim] exHarvest)"
proof -
  have "sameSamples (exHarvest\<lparr> hv_VolumeLabels := rev (hv_VolumeLabels exHarvest) \<rparr>) exHarvest"
    by (simp add: sameSamples_def sameRows_def)
  from join_order_free [OF this] show ?thesis by (simp only: Let_def)
qed

definition exPVC :: "rat PVCNode" where
  "exPVC = \<lparr> pvc_IDValue = ''a/shop/d'', pvc_NameValue = ''d'',
     pvc_LabelsValue = [(''cluster'', ''a''), (''namespace'', ''shop''), (''volumename'', ''pvc-1'')],
     pvc_StorageClassValue = [], pvc_ApplicationValue = [], pvc_UsageValue = None, pvc_QoSValue = None,
     pvc_AlertsValue = [], pvc_StatusValue = [] \<rparr>"

definition exMounted :: "rat Topology" where
  "exMounted = storageTopology [sxPod ''u1'' ''a/n1'', sxPod ''u2'' []]
     [\<lparr> k8s_IDValue = ''a/n1'', k8s_NameValue = ''n1'', k8s_LabelsValue = [(''cluster'', ''a'')],
        k8s_IPAddressValue = [], k8s_ReadyStatusValue = [], k8s_AlertsValue = [], k8s_StatusValue = [] \<rparr>]
     [exPVC] [\<lparr> PodID_of = PodID ''a'' ''u2'', PVCID_of = ''a/shop/d'' \<rparr>, \<lparr> PodID_of = PodID ''a'' ''u1'', PVCID_of = ''a/shop/d'' \<rparr>]
     True exJoin"

definition exMountedView :: "rat View" where
  "exMountedView = ProjectStorage (\<lambda>k. k) exact (Some (storageFlowGraph (\<lambda>k. k) exMounted 0)) (fxScope ''svm'' [''s1''])"

theorem parsed_view_conserves_witness:
  "mountEdges (storageFlowGraph (\<lambda>k. k) exMounted 0) ''a/shop/d'' \<noteq> [] \<and>
   inflow ReadOps StorageTierSVMPVC ''a/shop/d'' exMountedView = outflow ReadOps StorageTierPVCPod ''a/shop/d'' exMountedView \<and>
   outflow ReadOps StorageTierPVCPod ''a/shop/d'' exMountedView = 7"
proof (intro conjI)
  have c: "joinClaims [] [exPVC] = [exClaim]" by code_simp
  have apart: "noCollision (tp_Pods exMounted) (tp_Nodes exMounted) [exPVC] exJoin" by code_simp
  have mounts: "exMounted = storageTopology (tp_Pods exMounted) (tp_Nodes exMounted) [exPVC] (tp_PodPVCs exMounted) True exJoin"
    by (simp add: exMounted_def storageTopology_def)
  show mounted: "mountEdges (storageFlowGraph (\<lambda>k. k) exMounted 0) ''a/shop/d'' \<noteq> []" by code_simp
  have figure: "ReadOps \<in> flowFigures" by (simp add: flowFigures_def)
  have "mountEdges (storageFlowGraph (\<lambda>k. k) exMounted 0) ''a/shop/d'' \<noteq> [] \<longrightarrow>
      inflow ReadOps StorageTierSVMPVC ''a/shop/d'' exMountedView = outflow ReadOps StorageTierPVCPod ''a/shop/d'' exMountedView"
    using parsed_view_conserves [of "tp_Pods exMounted" "tp_Nodes exMounted" "[exPVC]" "\<lambda>k. k" exact 0 "\<lambda>x. x * 1048576" "\<lambda>_. 0"
        exRewriter DefaultLabelKeys "[]" exHarvest ReadOps "tp_PodPVCs exMounted" True 0 "fxScope ''svm'' [''s1'']" "''a/shop/d''"]
      apart figure
    unfolding Let_def c exJoin_def [symmetric] mounts [symmetric] exMountedView_def by blast
  with mounted show "inflow ReadOps StorageTierSVMPVC ''a/shop/d'' exMountedView = outflow ReadOps StorageTierPVCPod ''a/shop/d'' exMountedView"
    by blast
  show "outflow ReadOps StorageTierPVCPod ''a/shop/d'' exMountedView = 7" by code_simp
qed

end
