(* ===== verification/Spec2Isabelle.thy ===== *)
theory Spec2Isabelle
  imports Guard ScopedReads RequestParse PodLookup Cytoscape NetAppResults
begin

text \<open>
  \<^bold>\<open>The program.\<close>  kube-state-graph answers "what ran where, on which storage" for a past time window. A
  request is parsed (\<open>pkg/kubegraph\<close>); its selector is rendered into PromQL queries and routed to the
  backends that serve them (\<open>pkg/promql\<close>); the answers are joined into a topology (\<open>pkg/build\<close>), assembled
  into a graph, projected to a view (\<open>pkg/graph\<close>) and serialised (\<open>pkg/cytoscape\<close>). Nothing is kept
  between requests except the router's table of clients, each with a guard and a result cache.

  \<^bold>\<open>Theories, in the order of a request.\<close>

  \<^item> \<open>Prelude\<close>: Go maps as association lists, \<open>strings.Cut\<close>, sorting by a key. \<open>Picks\<close>: the tie-break
    loops of the reader and their laws. \<open>Utf8\<close>: \<open>utf8.ValidString\<close>, \<open>range\<close> over a string, control
    characters.
  \<^item> \<open>TimeWindow\<close> (\<open>kubegraph/align.go\<close>), \<open>Timestamps\<close> and \<open>RequestParse\<close> (\<open>kubegraph/parse.go\<close>),
    \<open>StorageScope\<close> (\<open>graph/storagescope.go\<close>): the three endpoints' parsers, every rejection a constructor.
    Instants carry Go's 64-bit seconds and wrap as they do.
  \<^item> \<open>Selector\<close> (\<open>promql/selector.go\<close>), \<open>QueryTable\<close> (\<open>queries.go\<close>), \<open>ScopedQueries\<close> (\<open>scope.go\<close>,
    \<open>pairscope.go\<close>, \<open>qosscope.go\<close>, \<open>appscope.go\<close>, \<open>volumelabels.go\<close>, \<open>harvestpair.go\<close>, \<open>rollup.go\<close>),
    \<open>LabelQuery\<close> (\<open>labelquery.go\<close>), \<open>AppMetadata\<close> (\<open>appmetadata.go\<close>): the rendered queries as strings.
    \<open>ScopedReads\<close> proves what the chunked, restricted reads return.
  \<^item> \<open>Routing\<close> (\<open>backend.go\<close>, \<open>fanout.go\<close>), \<open>QueryCache\<close> (\<open>querycache.go\<close>), \<open>Router\<close> (\<open>router.go\<close>),
    \<open>Guard\<close> (\<open>guard.go\<close>): the backend table, the merge, the cache, reloads, and the guard's concurrency as
    a step relation.
  \<^item> \<open>ClusterResolver\<close> (\<open>build/clusteridentity.go\<close>, \<open>zone.go\<close>), \<open>Owners\<close> (\<open>topology_owners.go\<close>),
    \<open>TopologyNodes\<close>, \<open>TopologyPods\<close>, \<open>TopologyClaims\<close> (\<open>topology.go\<close>, \<open>topology_attrs.go\<close>),
    \<open>TopologyTypes\<close> (\<open>topology_types.go\<close>): the parse of the Kubernetes samples. \<open>AppIndex\<close>
    (\<open>build/appmetadata.go\<close>, \<open>deploytime.go\<close>): the application-metadata index of a build. \<open>PodLookup\<close>
    (\<open>podapplication.go\<close>): one pod's Application on demand, with and without that metadata.
  \<^item> \<open>VolumeKey\<close> (\<open>build/volumekey.go\<close>), \<open>NetAppQoS\<close>, \<open>NetAppNodes\<close>, \<open>NetAppJoin\<close> (\<open>netapp.go\<close>): which
    FlexVols serve a claim, what measures and limits it, the inventory of controllers, aggregates and SVMs,
    and the join that draws a claim's aggregate. \<open>NetAppResults\<close>: its result, and what \<open>parseTopology\<close> does
    with it.
  \<^item> \<open>GraphModel\<close> (\<open>graph/node.go\<close>, \<open>edge.go\<close>, \<open>graph.go\<close>, \<open>registry.go\<close>, \<open>build/status.go\<close>),
    \<open>StorageFlow\<close> (\<open>build/storageflow.go\<close>, \<open>topology_edges.go\<close>): nodes, edges and their assembly.
  \<^item> \<open>Projection\<close> (\<open>graph/scope.go\<close>, \<open>project.go\<close>), \<open>StorageProjection\<close>, \<open>StorageWeights\<close>,
    \<open>StorageContents\<close> (\<open>project_storage.go\<close>), \<open>K8sProjection\<close> (\<open>project_k8s.go\<close>): the three views.
    \<open>Cytoscape\<close> (\<open>cytoscape/cytoscape.go\<close>): the body.

  \<^bold>\<open>How the code is represented.\<close>  A string is the list of its bytes. A struct is a record, a tagged union
  a datatype, a nil pointer \<open>None\<close>, an error a constructor on the left of a sum. A map is the list of its
  entries in one iteration order: a theorem that quantifies over the list covers every order, and the
  order-freedom theorems (\<open>Project_deterministic\<close>, \<open>ProjectStorage_deterministic\<close>) say that the order does
  not matter. \<open>float64\<close> is a type variable, with an order where the code compares and an arithmetic
  record where it computes; \<open>storage_flow_conserved\<close> and \<open>parsed_view_conserves\<close> fix exact arithmetic, and
  the order leaves out NaN. What lies outside
  \<open>src/\<close> is an argument: \<open>mkid\<close> (the edge-id hash), \<open>quote\<close> (the \<open>%q\<close> verb), the HTTP client,
  \<open>net/url\<close>, \<open>time\<close> formatting, \<open>regexp.Compile\<close> of the operator's volume rules (\<open>compile\<close>), the
  fingerprint of a label set (\<open>fp\<close>). The instances of \<open>linorder\<close> on \<open>zone\<close> and \<open>Ref\<close> are the code's own
  comparison functions.

  \<^bold>\<open>Interfaces.\<close>  \<open>go_map\<close> (a map's laws), \<open>keyed_sort\<close> (a stable sort by a key), \<open>tie_break\<close> (keeping the
  best offer of all rows; interpreted on the smallest value, the latest sample and the owner order),
  \<open>projection\<close> (a view of a graph; interpreted on the three views), \<open>result_cache\<close> (a cache that answers
  only with what was put; interpreted on the LRU cache and used by the guard).

  \<^bold>\<open>What the lemmas show.\<close>

  \<^item> Views: edges join nodes of the view, filters hold, pruned nodes never come back, the storage view
    is its declarative specification and conserves flow, the body nests without dangling
    parents, and without cycles when names are free of slashes.
  \<^item> Queries: no value escapes its matcher; chunks partition a scope within byte budgets; a chunked pair
    read returns exactly the requested pairs.
  \<^item> Upstream: a cache refines an abstract LRU list and serves nothing stale; the guard coalesces, keeps its
    bound, answers genuinely and progresses; reloads are atomic and never reuse a store number; a fan-out
    merges without loss and fails closed.
  \<^item> Parse: identities, nodes, pods, claims and Applications are functions of the sets of samples; the
    on-demand lookup refines the build; failed optional reads only remove facts.
  \<^item> NetApp: the bucketed matcher is the suffix predicate; a workload is measured in one zone and loses its
    change when its series changed; the inventory is a function of the samples and never misses an owner;
    the join closes its edges, agrees with its claims about ceilings and ignores the order of samples; the
    topology it yields conserves flow in every storage view.
  \<^item> Counterexamples found on the way (\<open>identity_collision\<close>, \<open>netapp_cluster_collision\<close>,
    \<open>group_id_collision\<close>, \<open>claim_own_parent\<close>, \<open>pod_tie_order\<close>, \<open>service_last_row\<close>, \<open>lookup_not_last_deployment\<close>,
    \<open>AlignWindow_beyond_UnixNano\<close>) are lemmas beside the theorems they limit.

  \<^bold>\<open>Bounds.\<close>  Loops over lists are structural recursions or folds; the chunkers, the eviction loop and the
  ladders recurse on data that shrinks, so no definition needs fuel.

  \<^bold>\<open>Not modelled.\<close>  The service-graph reader, the choice of names for the second-wave reads and their
  concurrent schedule (\<open>topologyplan.go\<close>, \<open>topology_read.go\<close>), the join of alerts, ingress routes (which
  rest on ClickHouse and an external gateway library), the engine's glue, HTTP handlers, configuration,
  authentication, logging, metrics and tracing. The views take any well-formed graph, so they do not depend
  on those readers.
\<close>

end
